(* ===== verification/Prelude.thy ===== *)
theory Prelude
  imports Main "HOL-Library.Word"
begin

text \<open>
  Shared vocabulary of the development.

  \<^item> How a C function ends: it returns a value, or it never returns because the process
    ends (\<open>exit\<close>, \<open>abort\<close>), sleeps forever, or has undefined behaviour. Every
    component is written with the type \<open>('a, 's) res\<close> below and the two combinators
    \<open>ret\<close> and \<open>bnd\<close>.
  \<^item> Byte strings: \<open>slice\<close> (the bytes a \<open>read\<close> sees) and \<open>overwrite\<close> (what a
    \<open>write\<close> leaves behind), with the frame lemmas that all file proofs use.
  \<^item> Linked lists threaded through an array of pointer fields (\<open>chain\<close>), with the
    lemmas for following, unlinking and pushing.
\<close>

named_theorems res_simps "evaluation of the result monad"
named_theorems frame "parts of the state a program leaves alone"
named_theorems wlp "what a program ensures if it returns"
named_theorems wp "weakest preconditions of programs that must return"
named_theorems slice_simps "reading a byte string after it was written"

subsection \<open>How a C function ends\<close>

datatype stop =
    Abort string      \<comment> \<open>\<open>err_dump\<close>: a message, then \<open>abort()\<close>\<close>
  | Exit int string   \<comment> \<open>\<open>exit(status)\<close>, with the message printed before it\<close>
  | Blocked string    \<comment> \<open>the process waits for another process\<close>
  | Undefined string  \<comment> \<open>undefined behaviour of C\<close>
  | Diverges string   \<comment> \<open>a loop of the program that never ends\<close>

datatype ('a, 's) res = Ok 'a 's | Halt stop 's

type_synonym ('a, 's) prog = "'s \<Rightarrow> ('a, 's) res"

definition ret :: "'a \<Rightarrow> ('a, 's) prog" where
  "ret x = (\<lambda>s. Ok x s)"

definition stop_with :: "stop \<Rightarrow> ('a, 's) prog" where
  "stop_with e = (\<lambda>s. Halt e s)"

definition bnd :: "('a, 's) prog \<Rightarrow> ('a \<Rightarrow> ('b, 's) prog) \<Rightarrow> ('b, 's) prog" where
  "bnd m f = (\<lambda>s. case m s of Ok x s' \<Rightarrow> f x s' | Halt e s' \<Rightarrow> Halt e s')"

definition gets :: "('s \<Rightarrow> 'a) \<Rightarrow> ('a, 's) prog" where
  "gets f = (\<lambda>s. Ok (f s) s)"

definition modify :: "('s \<Rightarrow> 's) \<Rightarrow> (unit, 's) prog" where
  "modify f = (\<lambda>s. Ok () (f s))"

lemma ret_apply [simp, res_simps]: "ret x s = Ok x s"
  by (simp add: ret_def)

lemma stop_with_apply [simp, res_simps]: "stop_with e s = Halt e s"
  by (simp add: stop_with_def)

lemma gets_apply [simp, res_simps]: "gets f s = Ok (f s) s"
  by (simp add: gets_def)

lemma modify_apply [simp, res_simps]: "modify f s = Ok () (f s)"
  by (simp add: modify_def)

lemma bnd_apply: "bnd m f s = (case m s of Ok x s' \<Rightarrow> f x s' | Halt e s' \<Rightarrow> Halt e s')"
  by (simp add: bnd_def)

lemma bnd_Ok [simp, res_simps]: "m s = Ok x s' \<Longrightarrow> bnd m f s = f x s'"
  by (simp add: bnd_def)

lemma bnd_Halt [simp, res_simps]: "m s = Halt e s' \<Longrightarrow> bnd m f s = Halt e s'"
  by (simp add: bnd_def)

lemma bnd_eq_Ok:
  "bnd m f s = Ok y t \<longleftrightarrow> (\<exists>x s'. m s = Ok x s' \<and> f x s' = Ok y t)"
  by (auto simp: bnd_def split: res.splits)

lemma bnd_assoc: "bnd (bnd m f) g = bnd m (\<lambda>x. bnd (f x) g)"
  by (rule ext) (simp add: bnd_def split: res.split)

lemma ret_bnd: "bnd (ret x) f = f x"
  by (rule ext) simp

lemma if_prog_apply [simp, res_simps]: "(if b then m else n) s = (if b then m s else n s)"
  by simp

text \<open>
  Total correctness: \<open>runs m s Q\<close> says that \<open>m\<close>, started in \<open>s\<close>, returns, and that
  its value and its final state satisfy \<open>Q\<close>. The collection \<open>wp\<close> computes it.
\<close>

definition runs :: "('a, 's) prog \<Rightarrow> 's \<Rightarrow> ('a \<Rightarrow> 's \<Rightarrow> bool) \<Rightarrow> bool" where
  "runs m s Q \<longleftrightarrow> (case m s of Ok x t \<Rightarrow> Q x t | Halt e t \<Rightarrow> False)"

lemma runs_ret [wp]: "runs (ret x) s Q \<longleftrightarrow> Q x s"
  and runs_gets [wp]: "runs (gets f) s Q \<longleftrightarrow> Q (f s) s"
  and runs_modify [wp]: "runs (modify g) s R \<longleftrightarrow> R () (g s)"
  and runs_stop_with [wp]: "runs (stop_with e) s Q \<longleftrightarrow> False"
  by (simp_all add: runs_def)

lemma runs_Ok_fun [wp]: "runs (Ok x) s Q \<longleftrightarrow> Q x s"
  by (simp add: runs_def)

lemma runs_bnd [wp]: "runs (bnd m f) s Q \<longleftrightarrow> runs m s (\<lambda>x t. runs (f x) t Q)"
  by (simp add: runs_def bnd_def split: res.split)

lemma runs_if [wp]: "runs (if b then m else n) s Q \<longleftrightarrow> (if b then runs m s Q else runs n s Q)"
  by simp

lemma runs_Ok: "m s = Ok x t \<Longrightarrow> runs m s Q \<longleftrightarrow> Q x t"
  by (simp add: runs_def)

lemma runs_conseq: "runs m s P \<Longrightarrow> (\<And>x t. P x t \<Longrightarrow> Q x t) \<Longrightarrow> runs m s Q"
  by (auto simp: runs_def split: res.splits)

lemma runs_conj: "runs m s P \<Longrightarrow> runs m s Q \<Longrightarrow> runs m s (\<lambda>x t. P x t \<and> Q x t)"
  by (auto simp: runs_def split: res.splits)

lemma runsE:
  assumes "runs m s Q"
  obtains x t where "m s = Ok x t" and "Q x t"
  using assms by (auto simp: runs_def split: res.splits)

lemma runs_iff: "runs m s Q \<longleftrightarrow> (\<exists>x t. m s = Ok x t \<and> Q x t)"
  by (auto simp: runs_def split: res.splits)

text \<open>The step of a proof by symbolic execution: run the first statement by its own lemma.\<close>

lemma runs_step: "runs m s P \<Longrightarrow> (\<And>x t. P x t \<Longrightarrow> runs (f x) t Q) \<Longrightarrow> runs (bnd m f) s Q"
  unfolding runs_bnd by (rule runs_conseq)

text \<open>
  Partial correctness: \<open>ens m s Q\<close> says that if \<open>m\<close> returns, \<open>Q\<close> holds. It is what an
  invariant of a server that may also exit or block needs. The collection \<open>wlp\<close> computes it.
\<close>

definition ens :: "('a, 's) prog \<Rightarrow> 's \<Rightarrow> ('a \<Rightarrow> 's \<Rightarrow> bool) \<Rightarrow> bool" where
  "ens m s Q \<longleftrightarrow> (case m s of Ok x t \<Rightarrow> Q x t | Halt e t \<Rightarrow> True)"

lemma ens_ret [wlp]: "ens (ret x) s Q \<longleftrightarrow> Q x s"
  and ens_gets [wlp]: "ens (gets f) s Q \<longleftrightarrow> Q (f s) s"
  and ens_modify [wlp]: "ens (modify g) s R \<longleftrightarrow> R () (g s)"
  and ens_stop_with [wlp]: "ens (stop_with e) s Q"
  by (simp_all add: ens_def)

lemma ens_bnd [wlp]: "ens (bnd m f) s Q \<longleftrightarrow> ens m s (\<lambda>x t. ens (f x) t Q)"
  by (simp add: ens_def bnd_def split: res.split)

lemma ens_if [wlp]: "ens (if b then m else n) s Q \<longleftrightarrow> (if b then ens m s Q else ens n s Q)"
  by simp

lemma ens_conseq: "ens m s P \<Longrightarrow> (\<And>x t. P x t \<Longrightarrow> Q x t) \<Longrightarrow> ens m s Q"
  by (auto simp: ens_def split: res.splits)

lemma ens_step: "ens m s P \<Longrightarrow> (\<And>x t. P x t \<Longrightarrow> ens (f x) t Q) \<Longrightarrow> ens (bnd m f) s Q"
  unfolding ens_bnd by (rule ens_conseq)

lemma ens_True: "ens m s (\<lambda>_ _. True)"
  by (simp add: ens_def split: res.split)

lemma ensD: "ens m s Q \<Longrightarrow> m s = Ok x t \<Longrightarrow> Q x t"
  by (simp add: ens_def)

lemma ensI: "(\<And>x t. m s = Ok x t \<Longrightarrow> Q x t) \<Longrightarrow> ens m s Q"
  by (auto simp: ens_def split: res.splits)

lemma ens_conj: "ens m s (\<lambda>x t. P x t \<and> Q x t) \<longleftrightarrow> ens m s P \<and> ens m s Q"
  by (auto simp: ens_def split: res.splits)

lemma runs_ens: "runs m s Q \<Longrightarrow> ens m s Q"
  by (auto simp: ens_def runs_def split: res.splits)

text \<open>The state in which a run ends, however it ends.\<close>

fun final :: "('a, 's) res \<Rightarrow> 's" where
  "final (Ok _ s) = s"
| "final (Halt _ s) = s"

fun returned :: "('a, 's) res \<Rightarrow> 'a option" where
  "returned (Ok x _) = Some x"
| "returned (Halt _ _) = None"

fun halted :: "('a, 's) res \<Rightarrow> stop option" where
  "halted (Ok _ _) = None"
| "halted (Halt e _) = Some e"

text \<open>
  Termination: \<open>ends m s Q\<close> says that \<open>m\<close> does not run forever, and that \<open>Q\<close> holds if it
  returns. Exits, waiting for another process and undefined behaviour are allowed.
\<close>

fun is_diverges :: "stop \<Rightarrow> bool" where
  "is_diverges (Diverges _) = True"
| "is_diverges _ = False"

definition ends :: "('a, 's) prog \<Rightarrow> 's \<Rightarrow> ('a \<Rightarrow> 's \<Rightarrow> bool) \<Rightarrow> bool" where
  "ends m s Q \<longleftrightarrow> (case m s of Ok x t \<Rightarrow> Q x t | Halt e t \<Rightarrow> \<not> is_diverges e)"

lemma ends_ret: "ends (ret x) s Q \<longleftrightarrow> Q x s"
  and ends_gets: "ends (gets f) s Q \<longleftrightarrow> Q (f s) s"
  and ends_modify: "ends (modify g) s R \<longleftrightarrow> R () (g s)"
  and ends_stop_with: "ends (stop_with e) s Q \<longleftrightarrow> \<not> is_diverges e"
  by (simp_all add: ends_def)

lemma ends_bnd: "ends (bnd m f) s Q \<longleftrightarrow> ends m s (\<lambda>x t. ends (f x) t Q)"
  by (simp add: ends_def bnd_def split: res.split)

lemma ends_if: "ends (if b then m else n) s Q \<longleftrightarrow> (if b then ends m s Q else ends n s Q)"
  by simp

lemma ends_conseq: "ends m s P \<Longrightarrow> (\<And>x t. P x t \<Longrightarrow> Q x t) \<Longrightarrow> ends m s Q"
  by (auto simp: ends_def split: res.splits)

lemma ends_step: "ends m s P \<Longrightarrow> (\<And>x t. P x t \<Longrightarrow> ends (f x) t Q) \<Longrightarrow> ends (bnd m f) s Q"
  unfolding ends_bnd by (rule ends_conseq)

lemma runs_ends: "runs m s Q \<Longrightarrow> ends m s Q"
  by (auto simp: ends_def runs_def split: res.splits)

lemma ends_halted: "ends m s Q \<Longrightarrow> halted (m s) \<noteq> Some (Diverges w)"
  by (auto simp: ends_def split: res.splits)

lemma ends_ens: "ends m s P \<Longrightarrow> ens m s Q \<Longrightarrow> ends m s (\<lambda>x t. P x t \<and> Q x t)"
  by (auto simp: ends_def ens_def split: res.splits)

lemmas ends_simps = ends_ret ends_gets ends_modify ends_stop_with ends_bnd ends_if

text \<open>Every \<open>exit\<close> runs the function that was registered with \<open>atexit\<close>.\<close>

definition at_exit :: "(unit, 's) prog \<Rightarrow> ('a, 's) prog \<Rightarrow> ('a, 's) prog" where
  "at_exit h m = (\<lambda>s. case m s of
     Halt (Exit c msg) t \<Rightarrow> (case h t of Ok _ u \<Rightarrow> Halt (Exit c msg) u | Halt e u \<Rightarrow> Halt e u)
   | r \<Rightarrow> r)"

text \<open>
  A relation between the state a run starts from and the state it ends in, whether or not
  it returns: reflexive and transitive relations compose along \<open>bnd\<close>.
\<close>

definition keeps :: "('s \<Rightarrow> 's \<Rightarrow> bool) \<Rightarrow> ('a, 's) prog \<Rightarrow> bool" where
  "keeps R m \<longleftrightarrow> (\<forall>s. R s (final (m s)))"

lemma keepsI: "(\<And>s. R s (final (m s))) \<Longrightarrow> keeps R m"
  by (simp add: keeps_def)

lemma keepsD: "keeps R m \<Longrightarrow> R s (final (m s))"
  by (simp add: keeps_def)

lemma keeps_bnd:
  assumes "transp R" and "keeps R m" and "\<And>x. keeps R (f x)"
  shows "keeps R (bnd m f)"
proof (rule keepsI)
  fix s
  show "R s (final (bnd m f s))"
  proof (cases "m s")
    case (Ok x s')
    with assms(2) have "R s s'" by (metis keepsD final.simps(1))
    moreover have "R s' (final (f x s'))" by (rule keepsD[OF assms(3)])
    ultimately show ?thesis using Ok assms(1) by (auto dest: transpD)
  next
    case (Halt e s')
    with assms(2) have "R s s'" by (metis keepsD final.simps(2))
    with Halt show ?thesis by simp
  qed
qed

lemma keeps_ret: "reflp R \<Longrightarrow> keeps R (ret x)"
  by (simp add: keeps_def reflpD)

lemma keeps_gets: "reflp R \<Longrightarrow> keeps R (gets f)"
  by (simp add: keeps_def reflpD)

lemma keeps_stop_with: "reflp R \<Longrightarrow> keeps R (stop_with e)"
  by (simp add: keeps_def reflpD)

lemma keeps_modify: "(\<And>s. R s (f s)) \<Longrightarrow> keeps R (modify f)"
  by (simp add: keeps_def)

text \<open>
  The special case of a part of the state that a program leaves alone; the collection
  \<open>frame\<close> proves it statement by statement.
\<close>

definition same :: "('s \<Rightarrow> 'v) \<Rightarrow> 's \<Rightarrow> 's \<Rightarrow> bool" where
  "same f s t \<longleftrightarrow> f t = f s"

lemma same_reflp: "reflp (same f)"
  by (simp add: reflp_def same_def)

lemma same_transp: "transp (same f)"
  by (rule transpI) (simp add: same_def)

lemmas keeps_same_bnd [frame] = keeps_bnd[OF same_transp]
  and keeps_same_ret [frame] = keeps_ret[OF same_reflp]
  and keeps_same_gets [frame] = keeps_gets[OF same_reflp]
  and keeps_same_stop [frame] = keeps_stop_with[OF same_reflp]

lemma keeps_same_modify: "(\<And>s. f (g s) = f s) \<Longrightarrow> keeps (same f) (modify g)"
  by (simp add: keeps_def same_def)

lemma keeps_option [frame]: "keeps R m \<Longrightarrow> (\<And>x. keeps R (g x)) \<Longrightarrow> keeps R (case y of None \<Rightarrow> m | Some x \<Rightarrow> g x)"
  by (simp split: option.split)

lemma keeps_prod [frame]: "(\<And>x y. keeps R (g x y)) \<Longrightarrow> keeps R (case p of (x, y) \<Rightarrow> g x y)"
  by (simp split: prod.split)

lemma keeps_sameD: "keeps (same f) m \<Longrightarrow> m s = Ok x t \<Longrightarrow> f t = f s"
  unfolding keeps_def same_def by (metis final.simps(1))

lemma runs_keeps: "runs m s Q \<Longrightarrow> keeps (same f) m \<Longrightarrow> runs m s (\<lambda>x t. Q x t \<and> f t = f s)"
  by (auto simp: runs_iff dest: keeps_sameD)

lemma keeps_ens: "keeps (same f) m \<Longrightarrow> ens m s (\<lambda>_ t. f t = f s)"
  by (auto intro: ensI dest: keeps_sameD)

lemma keeps_if [frame]: "keeps R m \<Longrightarrow> keeps R n \<Longrightarrow> keeps R (if b then m else n)"
  by simp

subsection \<open>Slices of byte strings\<close>

definition slice :: "'a list \<Rightarrow> nat \<Rightarrow> nat \<Rightarrow> 'a list" where
  "slice f off n = take n (drop off f)"

text \<open>
  A write past the end of a file fills the gap with null bytes, as \<open>write(2)\<close> does.
\<close>

definition overwrite :: "string \<Rightarrow> nat \<Rightarrow> string \<Rightarrow> string" where
  "overwrite f off bs =
     take off (f @ replicate (off - length f) (CHR 0x00)) @ bs @ drop (off + length bs) f"

lemma length_slice: "length (slice f off n) = min n (length f - off)"
  by (simp add: slice_def)

lemma length_slice_ok [simp]: "off + n \<le> length f \<Longrightarrow> length (slice f off n) = n"
  by (simp add: slice_def)

lemma slice_zero [simp]: "slice f off 0 = []"
  by (simp add: slice_def)

lemma slice_all: "slice f 0 (length f) = f"
  by (simp add: slice_def)

lemma overwrite_in: "off \<le> length f \<Longrightarrow>
    overwrite f off bs = take off f @ bs @ drop (off + length bs) f"
  by (simp add: overwrite_def)

lemma length_overwrite: "length (overwrite f off bs) = max (length f) (off + length bs)"
  by (simp add: overwrite_def)

lemma length_overwrite_in [simp]:
  "off + length bs \<le> length f \<Longrightarrow> length (overwrite f off bs) = length f"
  by (simp add: length_overwrite)

lemma overwrite_end [simp]: "overwrite f (length f) bs = f @ bs"
  by (simp add: overwrite_def)

lemma slice_overwrite_same [slice_simps]:
  "off \<le> length f \<Longrightarrow> n = length bs \<Longrightarrow> slice (overwrite f off bs) off n = bs"
  by (simp add: slice_def overwrite_in)

lemma nth_overwrite:
  assumes "off \<le> length f" and "i < max (length f) (off + length bs)"
  shows "overwrite f off bs ! i =
    (if off \<le> i \<and> i < off + length bs then bs ! (i - off) else f ! i)"
  using assms by (auto simp: overwrite_in nth_append min_def max_def split: if_splits)

lemma slice_eqI:
  assumes "o' + n \<le> length f" and "o' + n \<le> length g"
    and "\<And>i. o' \<le> i \<Longrightarrow> i < o' + n \<Longrightarrow> f ! i = g ! i"
  shows "slice f o' n = slice g o' n"
  using assms by (intro nth_equalityI) (auto simp: slice_def)

lemma slice_overwrite_disjoint [slice_simps]:
  assumes "off \<le> length f" and "a + n \<le> length f"
    and "a + n \<le> off \<or> off + length bs \<le> a"
  shows "slice (overwrite f off bs) a n = slice f a n"
  using assms by (intro slice_eqI) (auto simp: nth_overwrite length_overwrite)

lemma overwrite_commute:
  assumes "a + length x \<le> length f" and "b + length y \<le> length f"
    and "a + length x \<le> b \<or> b + length y \<le> a"
  shows "overwrite (overwrite f a x) b y = overwrite (overwrite f b y) a x"
  using assms by (intro nth_equalityI) (auto simp: nth_overwrite)

lemma nth_slice: "i < n \<Longrightarrow> off + n \<le> length f \<Longrightarrow> slice f off n ! i = f ! (off + i)"
  by (simp add: slice_def)

lemma slice_slice: "a + m \<le> n \<Longrightarrow> slice (slice f off n) a m = slice f (off + a) m"
  by (simp add: slice_def drop_take min_absorb2 add.commute)

lemma slice_append_left [slice_simps]:
  "off + n \<le> length f \<Longrightarrow> slice (f @ g) off n = slice f off n"
  by (simp add: slice_def)

lemma slice_append_right [slice_simps]:
  "slice (f @ g) (length f + off) n = slice g off n"
  by (simp add: slice_def)

lemma slice_append_end [slice_simps]:
  "n = length g \<Longrightarrow> slice (f @ g) (length f) n = g"
  by (simp add: slice_def)

lemma slice_take_drop: "slice f a (n + m) = slice f a n @ slice f (a + n) m"
  by (simp add: slice_def take_add) (simp add: add.commute)

subsection \<open>Linked lists in an array of pointer fields\<close>

text \<open>
  \<open>chain nxt p os\<close>: starting from the pointer field \<open>p\<close> and following \<open>nxt\<close>, one
  meets exactly the fields \<open>os\<close> and then the null pointer 0. The first field of a record
  is its own pointer field, so a record and its pointer field share one offset.
\<close>

fun chain :: "(nat \<Rightarrow> nat) \<Rightarrow> nat \<Rightarrow> nat list \<Rightarrow> bool" where
  "chain nxt p [] \<longleftrightarrow> nxt p = 0"
| "chain nxt p (q # qs) \<longleftrightarrow> q \<noteq> 0 \<and> nxt p = q \<and> chain nxt q qs"

lemma chain_cong:
  "(\<And>q. q = p \<or> q \<in> set qs \<Longrightarrow> nxt q = nxt' q) \<Longrightarrow> chain nxt p qs = chain nxt' p qs"
  by (induction qs arbitrary: p) (simp, force)

lemma chain_upd_other:
  "x \<noteq> p \<Longrightarrow> x \<notin> set qs \<Longrightarrow> chain (nxt(x := v)) p qs = chain nxt p qs"
  by (rule chain_cong) auto

lemma chain_unique: "chain nxt p qs \<Longrightarrow> chain nxt p qs' \<Longrightarrow> qs = qs'"
proof (induction qs arbitrary: p qs')
  case Nil
  then show ?case by (cases qs') auto
next
  case (Cons q qs)
  then show ?case by (cases qs') auto
qed

lemma chain_app:
  "chain nxt p (as @ b # bs) \<Longrightarrow> nxt (last (p # as)) = b \<and> b \<noteq> 0 \<and> chain nxt b bs"
  by (induction as arbitrary: p) auto

lemma chain_nonzero: "chain nxt p qs \<Longrightarrow> q \<in> set qs \<Longrightarrow> q \<noteq> 0"
  by (induction qs arbitrary: p) auto

lemma chain_push:
  assumes "chain nxt p qs" and "q \<noteq> 0" and "q \<noteq> p" and "q \<notin> set qs" and "p \<notin> set qs"
  shows "chain (nxt(q := nxt p, p := q)) p (q # qs)"
proof -
  have "chain (nxt(q := nxt p, p := q)) q qs"
  proof (cases qs)
    case Nil
    with assms show ?thesis by simp
  next
    case (Cons r rs)
    with assms have "chain nxt r rs" and "nxt p = r" and "r \<noteq> 0" by auto
    moreover have "chain (nxt(q := nxt p, p := q)) r rs = chain nxt r rs"
      using assms Cons by (intro chain_cong) auto
    ultimately show ?thesis using Cons assms by simp
  qed
  with assms(2) show ?thesis by simp
qed

lemma chain_unlink:
  assumes "chain nxt p (as @ b # bs)" and "distinct (p # as @ b # bs)"
  shows "chain (nxt(last (p # as) := nxt b)) p (as @ bs)"
  using assms
proof (induction as arbitrary: p)
  case Nil
  then have *: "chain nxt b bs" "p \<noteq> b" "p \<notin> set bs" by auto
  show ?case
  proof (cases bs)
    case Nil
    with * show ?thesis by simp
  next
    case (Cons c cs)
    with * have "nxt b = c" "c \<noteq> 0" "chain nxt c cs" by auto
    moreover have "chain (nxt(p := c)) c cs = chain nxt c cs"
      using * Cons by (intro chain_cong) auto
    ultimately have "chain (nxt(p := c)) p (c # cs)" by simp
    then show ?thesis using Cons \<open>nxt b = c\<close> by (simp del: fun_upd_apply)
  qed
next
  case (Cons a as)
  then have "chain nxt a (as @ b # bs)" and "distinct (a # as @ b # bs)" by auto
  then have *: "chain (nxt(last (a # as) := nxt b)) a (as @ bs)" by (rule Cons.IH)
  have "last (a # as) \<noteq> p" using Cons.prems(2) by auto
  with Cons.prems(1) have "(nxt(last (a # as) := nxt b)) p = a" and "a \<noteq> 0" by auto
  with * show ?case by (simp only: append_Cons chain.simps(2) last_ConsR list.simps) simp
qed

subsection \<open>Options and lists\<close>

lemma takeWhile_all: "(\<And>x. x \<in> set xs \<Longrightarrow> P x) \<Longrightarrow> takeWhile P xs = xs"
  by (simp add: takeWhile_eq_all_conv)

lemma takeWhile_append_stop:
  "(\<And>x. x \<in> set xs \<Longrightarrow> P x) \<Longrightarrow> \<not> P y \<Longrightarrow> takeWhile P (xs @ y # ys) = xs"
  by (simp add: takeWhile_tail)

lemma dropWhile_append_stop:
  "(\<And>x. x \<in> set xs \<Longrightarrow> P x) \<Longrightarrow> \<not> P y \<Longrightarrow> dropWhile P (xs @ y # ys) = y # ys"
  by (simp add: dropWhile_append2)

lemma distinct_map_unique:
  "distinct (map f xs) \<Longrightarrow> x \<in> set xs \<Longrightarrow> y \<in> set xs \<Longrightarrow> f x = f y \<Longrightarrow> x = y"
  by (auto simp: distinct_map inj_on_def)

lemma distinct_set_single: "set xs = {x} \<Longrightarrow> distinct xs \<Longrightarrow> xs = [x]"
proof (cases xs)
  case (Cons a ys)
  assume "set xs = {x}" "distinct xs"
  with Cons have "a = x" "set ys \<subseteq> {x}" "a \<notin> set ys" by auto
  then have "ys = []" by (cases ys) auto
  with Cons \<open>a = x\<close> show ?thesis by simp
qed simp

end
