(* ===== verification/CLib.thy ===== *)
theory CLib
  imports Prelude
begin

text \<open>
  What the programs use of the C standard library: null-terminated strings,
  \<open>atoi\<close>/\<open>atol\<close>, the decimal conversions of \<open>sprintf\<close>, \<open>strchr\<close>,
  \<open>strtok\<close> and \<open>isspace\<close>. A C string is a \<open>string\<close> without the terminating null
  byte; a buffer is a \<open>string\<close> that may hold null bytes, and \<open>cstr\<close> is the C string
  at its start. \<open>char\<close> is signed, as on the machines the Makefiles target. The
  conversions of decimal digits are exact: \<open>atol\<close> on more digits than a \<open>long\<close> holds
  is undefined in C, and every caller here passes at most a few.
\<close>

named_theorems cstr_simps "C string library functions"

abbreviation NUL :: char where "NUL \<equiv> CHR 0x00"
abbreviation NL :: char where "NL \<equiv> CHR 0x0A"

definition cstr :: "string \<Rightarrow> string" where
  "cstr bs = takeWhile (\<lambda>c. c \<noteq> NUL) bs"

definition is_cstr :: "string \<Rightarrow> bool" where
  "is_cstr s \<longleftrightarrow> NUL \<notin> set s"

definition isspace :: "char \<Rightarrow> bool" where
  "isspace c \<longleftrightarrow> c \<in> {CHR '' '', CHR 0x09, CHR 0x0A, CHR 0x0B, CHR 0x0C, CHR 0x0D}"

definition isdigit :: "char \<Rightarrow> bool" where
  "isdigit c \<longleftrightarrow> 48 \<le> (of_char c :: nat) \<and> (of_char c :: nat) \<le> 57"

definition digit_val :: "char \<Rightarrow> nat" where
  "digit_val c = of_char c - 48"

fun digits_val :: "nat \<Rightarrow> string \<Rightarrow> nat" where
  "digits_val a [] = a"
| "digits_val a (c # cs) = digits_val (10 * a + digit_val c) cs"

text \<open>
  \<open>atol\<close> (and \<open>atoi\<close>): skip white space, read an optional sign, then the longest run
  of digits.
\<close>

definition atol :: "string \<Rightarrow> int" where
  "atol s =
     (let t = dropWhile isspace s in
      if t \<noteq> [] \<and> hd t = CHR ''-'' then - int (digits_val 0 (takeWhile isdigit (tl t)))
      else if t \<noteq> [] \<and> hd t = CHR ''+'' then int (digits_val 0 (takeWhile isdigit (tl t)))
      else int (digits_val 0 (takeWhile isdigit t)))"

text \<open>\<open>sscanf(s, "%d", &n) == 1\<close>: like \<open>atol\<close>, but it needs at least one digit.\<close>

definition sscanf_d :: "string \<Rightarrow> int option" where
  "sscanf_d s =
     (let t = dropWhile isspace s;
          u = (if t \<noteq> [] \<and> (hd t = CHR ''-'' \<or> hd t = CHR ''+'') then tl t else t)
      in if takeWhile isdigit u = [] then None else Some (atol s))"

definition digit_char :: "nat \<Rightarrow> char" where
  "digit_char d = char_of (48 + d)"

text \<open>The decimal digits of a number, most significant first, and the conversion \<open>%d\<close>.\<close>

fun dec :: "nat \<Rightarrow> string" where
  "dec n = (if n < 10 then [digit_char n] else dec (n div 10) @ [digit_char (n mod 10)])"

declare dec.simps [simp del]

definition fmt_d :: "int \<Rightarrow> string" where
  "fmt_d x = (if x < 0 then CHR ''-'' # dec (nat (- x)) else dec (nat x))"

definition pad :: "nat \<Rightarrow> string \<Rightarrow> string" where
  "pad w s = replicate (w - length s) (CHR '' '') @ s"

text \<open>
  \<open>%*d\<close> pads to the width; \<open>%*.d\<close> has precision zero, so the value 0 prints no digit
  at all and the field is blank.
\<close>

definition fmt_wd :: "nat \<Rightarrow> int \<Rightarrow> string" where
  "fmt_wd w x = pad w (fmt_d x)"

definition fmt_w0d :: "nat \<Rightarrow> int \<Rightarrow> string" where
  "fmt_w0d w x = pad w (if x = 0 then [] else fmt_d x)"

text \<open>An \<open>off_t\<close> passed where \<open>%d\<close> expects an \<open>int\<close>: the low 32 bits, signed.\<close>

definition to_int32 :: "int \<Rightarrow> int" where
  "to_int32 x = sint (word_of_int x :: 32 word)"

text \<open>\<open>strchr(s, c)\<close> for \<open>c\<close> not null: the index of the first \<open>c\<close> in the C string.\<close>

definition strchr :: "string \<Rightarrow> char \<Rightarrow> nat option" where
  "strchr s c = (let k = length (takeWhile (\<lambda>x. x \<noteq> c) (cstr s)) in
     if k < length (cstr s) then Some k else None)"

text \<open>
  \<open>strtok\<close>: the next token of the C string and what is left after the delimiter that
  ended it. The first component is the number of delimiters skipped before the token.
\<close>

definition strtok :: "char set \<Rightarrow> string \<Rightarrow> (nat \<times> string \<times> string) option" where
  "strtok d s =
     (let t = dropWhile (\<lambda>c. c \<in> d) (cstr s) in
      if t = [] then None
      else Some (length (takeWhile (\<lambda>c. c \<in> d) (cstr s)),
                 takeWhile (\<lambda>c. c \<notin> d) t, drop 1 (dropWhile (\<lambda>c. c \<notin> d) t)))"

definition WHITE :: "char set" where
  "WHITE = {CHR '' '', CHR 0x09, CHR 0x0A}"

subsection \<open>Characters and digits\<close>

lemma of_char_digit_char: "d < 10 \<Longrightarrow> (of_char (digit_char d) :: nat) = 48 + d"
  by (simp add: digit_char_def)

lemma isdigit_digit_char [simp]: "d < 10 \<Longrightarrow> isdigit (digit_char d)"
  by (simp add: isdigit_def of_char_digit_char)

lemma digit_val_digit_char [simp]: "d < 10 \<Longrightarrow> digit_val (digit_char d) = d"
  by (simp add: digit_val_def of_char_digit_char)

lemma isdigit_not_space: "isdigit c \<Longrightarrow> \<not> isspace c"
  by (auto simp: isdigit_def isspace_def)

lemma isdigit_neqs:
  "isdigit c \<Longrightarrow> c \<noteq> CHR ''-'' \<and> c \<noteq> CHR ''+'' \<and> c \<noteq> NUL \<and> c \<noteq> NL \<and> c \<noteq> CHR '':'' \<and> c \<noteq> CHR '' ''"
  by (auto simp: isdigit_def)

lemma isspace_blank [simp]: "isspace (CHR '' '')"
  by (simp add: isspace_def)

lemma isspace_minus [simp]: "\<not> isspace (CHR ''-'')"
  by (simp add: isspace_def)

subsection \<open>Decimal numbers\<close>

lemma dec_small: "n < 10 \<Longrightarrow> dec n = [digit_char n]"
  by (subst dec.simps) simp

lemma dec_big: "10 \<le> n \<Longrightarrow> dec n = dec (n div 10) @ [digit_char (n mod 10)]"
  by (subst dec.simps) simp

lemma dec_nonempty [simp]: "dec n \<noteq> []"
  by (subst dec.simps) simp

lemma dec_isdigit: "c \<in> set (dec n) \<Longrightarrow> isdigit c"
proof (induction n rule: dec.induct)
  case (1 n)
  show ?case
  proof (cases "n < 10")
    case True
    with "1.prems" show ?thesis by (simp add: dec_small)
  next
    case False
    with "1.prems" consider "c \<in> set (dec (n div 10))" | "c = digit_char (n mod 10)"
      by (auto simp: dec_big)
    then show ?thesis using "1.IH" False by cases auto
  qed
qed

lemma digits_val_app: "digits_val a (xs @ [c]) = 10 * digits_val a xs + digit_val c"
  by (induction xs arbitrary: a) simp_all

lemma digits_val_dec [simp]: "digits_val 0 (dec n) = n"
proof (induction n rule: dec.induct)
  case (1 n)
  then show ?case
    by (cases "n < 10") (simp_all add: dec_small dec_big digits_val_app not_less)
qed

lemma length_dec_le: "n < 10 ^ k \<Longrightarrow> 0 < k \<Longrightarrow> length (dec n) \<le> k"
proof (induction k arbitrary: n)
  case 0
  then show ?case by simp
next
  case (Suc k)
  show ?case
  proof (cases "n < 10")
    case True
    then show ?thesis by (simp add: dec_small)
  next
    case False
    then have "0 < k" using Suc.prems(1) by (cases k) auto
    moreover from Suc.prems(1) have "n div 10 < 10 ^ k"
      by (simp add: less_mult_imp_div_less mult.commute)
    ultimately show ?thesis using False Suc.IH by (simp add: dec_big)
  qed
qed

lemma length_dec_pos [simp]: "0 < length (dec n)"
  by simp

lemma takeWhile_isdigit_dec [simp]: "takeWhile isdigit (dec n) = dec n"
  by (rule takeWhile_all) (rule dec_isdigit)

lemma dropWhile_isspace_replicate:
  "dropWhile isspace (replicate k (CHR '' '') @ s) = dropWhile isspace s"
  by (induction k) simp_all

lemma hd_dec_isdigit: "isdigit (hd (dec n))"
  by (rule dec_isdigit [where n = n]) simp

lemma dropWhile_isspace_dec [simp]: "dropWhile isspace (dec n @ s) = dec n @ s"
proof -
  obtain c cs where *: "dec n = c # cs" by (cases "dec n") auto
  with dec_isdigit[of c n] have "\<not> isspace c" by (simp add: isdigit_not_space)
  with * show ?thesis by simp
qed

lemma atol_blanks: "atol (replicate k (CHR '' '')) = 0"
  using dropWhile_isspace_replicate[of k "[]"] by (simp add: atol_def)

lemma atol_pad [simp]: "atol (pad w s) = atol s"
  by (simp add: atol_def pad_def dropWhile_isspace_replicate)

lemma atol_dec [simp]: "atol (dec n) = int n"
  using hd_dec_isdigit[of n] isdigit_neqs dropWhile_isspace_dec[of n "[]"]
  by (auto simp: atol_def)

lemma atol_fmt_d [simp]: "atol (fmt_d x) = x"
proof (cases "x < 0")
  case True
  then show ?thesis by (simp add: fmt_d_def atol_def)
next
  case False
  then show ?thesis by (simp add: fmt_d_def)
qed

lemma atol_Nil [simp]: "atol [] = 0"
  by (simp add: atol_def)

lemma atol_fmt_wd [simp]: "atol (fmt_wd w x) = x"
  by (simp add: fmt_wd_def)

lemma atol_fmt_w0d [simp]: "atol (fmt_w0d w x) = x"
  by (simp add: fmt_w0d_def)

lemma length_pad [simp]: "length (pad w s) = max w (length s)"
  by (simp add: pad_def)

lemma fmt_d_nonneg: "0 \<le> x \<Longrightarrow> fmt_d x = dec (nat x)"
  by (simp add: fmt_d_def)

lemma length_fmt_wd: "0 \<le> x \<Longrightarrow> x < 10 ^ w \<Longrightarrow> 0 < w \<Longrightarrow> length (fmt_wd w x) = w"
  using length_dec_le[of "nat x" w]
  by (simp add: fmt_wd_def fmt_d_nonneg nat_less_iff)

lemma length_fmt_w0d: "0 \<le> x \<Longrightarrow> x < 10 ^ w \<Longrightarrow> 0 < w \<Longrightarrow> length (fmt_w0d w x) = w"
  using length_dec_le[of "nat x" w]
  by (simp add: fmt_w0d_def fmt_d_nonneg nat_less_iff)

lemma sscanf_d_fmt_d [simp]: "sscanf_d (fmt_d x) = Some x"
proof (cases "x < 0")
  case True
  then show ?thesis by (simp add: sscanf_d_def fmt_d_def Let_def atol_def)
next
  case False
  have "\<not> (hd (dec (nat x)) = CHR ''-'' \<or> hd (dec (nat x)) = CHR ''+'')"
    using isdigit_neqs[OF hd_dec_isdigit] by blast
  with False show ?thesis
    using dropWhile_isspace_dec[of "nat x" "[]"]
    by (simp add: sscanf_d_def fmt_d_def Let_def)
qed

lemma to_int32_id: "- (2 ^ 31) \<le> x \<Longrightarrow> x < 2 ^ 31 \<Longrightarrow> to_int32 x = x"
  by (simp add: to_int32_def sint_sbintrunc' signed_take_bit_int_eq_self)

subsection \<open>C strings\<close>

lemma cstr_id [simp]: "is_cstr s \<Longrightarrow> cstr s = s"
  by (auto simp: cstr_def is_cstr_def intro: takeWhile_all)

lemma cstr_append_nul [simp]: "is_cstr s \<Longrightarrow> cstr (s @ NUL # t) = s"
  by (auto simp: cstr_def is_cstr_def intro: takeWhile_append_stop)

lemma is_cstr_cstr [simp]: "is_cstr (cstr s)"
  by (auto simp: cstr_def is_cstr_def dest: set_takeWhileD)

lemma is_cstr_simps [simp]:
  "is_cstr []"
  "is_cstr (c # s) \<longleftrightarrow> c \<noteq> NUL \<and> is_cstr s"
  "is_cstr (s @ t) \<longleftrightarrow> is_cstr s \<and> is_cstr t"
  by (auto simp: is_cstr_def)

lemma is_cstr_replicate [simp]: "is_cstr (replicate n c) \<longleftrightarrow> n = 0 \<or> c \<noteq> NUL"
  by (auto simp: is_cstr_def)

lemma is_cstr_dec [simp]: "is_cstr (dec n)"
  by (auto simp: is_cstr_def dest: dec_isdigit isdigit_neqs)

lemma is_cstr_take: "is_cstr s \<Longrightarrow> is_cstr (take n s)"
  by (auto simp: is_cstr_def dest: in_set_takeD)

lemma strchr_found:
  "is_cstr s \<Longrightarrow> c \<notin> set s \<Longrightarrow> c \<noteq> NUL \<Longrightarrow> strchr (s @ c # t) c = Some (length s)"
proof -
  assume "is_cstr s" "c \<notin> set s" "c \<noteq> NUL"
  moreover from this have "cstr (s @ c # t) = s @ c # cstr t"
    by (induction s) (simp_all add: cstr_def)
  moreover from \<open>c \<notin> set s\<close> have "takeWhile (\<lambda>x. x \<noteq> c) (s @ c # cstr t) = s"
    by (intro takeWhile_append_stop) auto
  ultimately show ?thesis by (simp add: strchr_def)
qed

lemma strchr_none: "c \<notin> set (cstr s) \<Longrightarrow> strchr s c = None"
proof -
  assume *: "c \<notin> set (cstr s)"
  have "takeWhile (\<lambda>x. x \<noteq> c) (cstr s) = cstr s"
    by (rule takeWhile_all) (use * in auto)
  then show ?thesis by (simp only: strchr_def Let_def less_irrefl if_False)
qed

lemma strchr_Some_in: "strchr s c = Some k \<Longrightarrow> c \<in> set (cstr s)"
  using strchr_none by (metis option.distinct(1))

lemma strtok_rest_shorter: "strtok d s = Some (k, t, r) \<Longrightarrow> length r < length s"
proof -
  assume *: "strtok d s = Some (k, t, r)"
  let ?t = "dropWhile (\<lambda>c. c \<in> d) (cstr s)"
  from * have ne: "?t \<noteq> []" and r: "r = drop 1 (dropWhile (\<lambda>c. c \<notin> d) ?t)"
    by (auto simp: strtok_def Let_def split: if_splits)
  have "length r \<le> length (dropWhile (\<lambda>c. c \<notin> d) ?t) - 1" using r by simp
  moreover have "length (dropWhile (\<lambda>c. c \<notin> d) ?t) \<le> length ?t" by (rule length_dropWhile_le)
  moreover have "length ?t \<le> length (cstr s)" by (rule length_dropWhile_le)
  moreover have "length (cstr s) \<le> length s" by (simp add: cstr_def length_takeWhile_le)
  ultimately show ?thesis using ne by (cases ?t) auto
qed

lemma strtok_token_nonempty: "strtok d s = Some (k, t, r) \<Longrightarrow> t \<noteq> []"
proof -
  assume *: "strtok d s = Some (k, t, r)"
  let ?t = "dropWhile (\<lambda>c. c \<in> d) (cstr s)"
  from * have ne: "?t \<noteq> []" and t: "t = takeWhile (\<lambda>c. c \<notin> d) ?t"
    by (auto simp: strtok_def Let_def split: if_splits)
  from hd_dropWhile[OF ne] have "hd ?t \<notin> d" .
  with ne t show ?thesis by (cases ?t) auto
qed

lemma strtok_token_no_delim: "strtok d s = Some (k, t, r) \<Longrightarrow> c \<in> set t \<Longrightarrow> c \<notin> d"
  by (auto simp: strtok_def Let_def split: if_splits dest: set_takeWhileD)

lemma strtok_cons_delim:
  "is_cstr (t @ c # r) \<Longrightarrow> t \<noteq> [] \<Longrightarrow> (\<And>x. x \<in> set t \<Longrightarrow> x \<notin> d) \<Longrightarrow> c \<in> d \<Longrightarrow>
   strtok d (t @ c # r) = Some (0, t, r)"
proof -
  assume *: "is_cstr (t @ c # r)" "t \<noteq> []" "\<And>x. x \<in> set t \<Longrightarrow> x \<notin> d" "c \<in> d"
  then obtain x xs where t: "t = x # xs" "x \<notin> d" by (cases t) auto
  then have "dropWhile (\<lambda>c. c \<in> d) (t @ c # r) = t @ c # r"
    and "takeWhile (\<lambda>c. c \<in> d) (t @ c # r) = []" by auto
  moreover have "takeWhile (\<lambda>c. c \<notin> d) (t @ c # r) = t"
    by (rule takeWhile_append_stop) (use * in auto)
  moreover have "dropWhile (\<lambda>c. c \<notin> d) (t @ c # r) = c # r"
    by (rule dropWhile_append_stop) (use * in auto)
  ultimately show ?thesis using * by (simp add: strtok_def)
qed

lemma strtok_last:
  "is_cstr t \<Longrightarrow> t \<noteq> [] \<Longrightarrow> (\<And>x. x \<in> set t \<Longrightarrow> x \<notin> d) \<Longrightarrow> strtok d t = Some (0, t, [])"
proof -
  assume *: "is_cstr t" "t \<noteq> []" "\<And>x. x \<in> set t \<Longrightarrow> x \<notin> d"
  then obtain x xs where t: "t = x # xs" "x \<notin> d" by (cases t) auto
  then have "dropWhile (\<lambda>c. c \<in> d) t = t" and "takeWhile (\<lambda>c. c \<in> d) t = []" by auto
  moreover have "takeWhile (\<lambda>c. c \<notin> d) t = t" by (rule takeWhile_all) (use * in auto)
  moreover have "dropWhile (\<lambda>c. c \<notin> d) t = []" using * by simp
  ultimately show ?thesis using * by (simp only: strtok_def Let_def cstr_id if_False) simp
qed

lemma strtok_none: "(\<And>x. x \<in> set (cstr s) \<Longrightarrow> x \<in> d) \<Longrightarrow> strtok d s = None"
  by (simp add: strtok_def)

lemmas cstr_facts = cstr_id cstr_append_nul strchr_found strchr_none

declare cstr_facts [cstr_simps]

end
