(* ===== verification/Errors.thy ===== *)
theory Errors
  imports CLib
begin

text \<open>
  The error routines of \<^verbatim>\<open>ourhdr.c\<close> and, for daemons, \<^verbatim>\<open>log-daemon.c\<close>:
  the text they format, and how they end the process. The programs below call
  \<open>err_dump\<close>, \<open>err_quit\<close>, \<open>err_sys\<close>, \<open>log_sys\<close> and \<open>log_quit\<close> as the
  statements that never return.
\<close>

definition MAXLINE :: nat where "MAXLINE = 4096"

text \<open>
  \<open>err_doit\<close> and \<open>log_doit\<close> format into a buffer of \<open>MAXLINE\<close> bytes: the message, the
  text of \<open>errno\<close> when asked for, a newline and the null byte. A longer text overruns
  the buffer.
\<close>

definition err_doit :: "bool \<Rightarrow> string \<Rightarrow> string \<Rightarrow> string option" where
  "err_doit errnoflag strerr msg =
     (let buf = msg @ (if errnoflag then '': '' @ strerr else []) @ [NL]
      in if length buf < MAXLINE then Some buf else None)"

definition log_doit :: "bool \<Rightarrow> string \<Rightarrow> string \<Rightarrow> string option" where
  "log_doit errnoflag strerr msg =
     (let buf = msg @ (if errnoflag then '': '' @ strerr else []) @ [NL]
      in if length buf < MAXLINE then Some buf else None)"

definition err_dump :: "string \<Rightarrow> ('a, 's) prog" where
  "err_dump msg = stop_with (Abort msg)"

definition err_quit :: "string \<Rightarrow> ('a, 's) prog" where
  "err_quit msg = stop_with (Exit 1 msg)"

definition err_sys :: "string \<Rightarrow> ('a, 's) prog" where
  "err_sys msg = stop_with (Exit 1 msg)"

definition log_quit :: "string \<Rightarrow> ('a, 's) prog" where
  "log_quit msg = stop_with (Exit 2 msg)"

definition log_sys :: "string \<Rightarrow> ('a, 's) prog" where
  "log_sys msg = stop_with (Exit 2 msg)"

lemma err_apply [simp, res_simps]:
  "err_dump m s = Halt (Abort m) s"
  "err_quit m s = Halt (Exit 1 m) s"
  "err_sys m s = Halt (Exit 1 m) s"
  "log_quit m s = Halt (Exit 2 m) s"
  "log_sys m s = Halt (Exit 2 m) s"
  by (simp_all add: err_dump_def err_quit_def err_sys_def log_quit_def log_sys_def)

lemma runs_err [wp]:
  "runs (err_dump m) s Q \<longleftrightarrow> False"
  "runs (err_quit m) s Q \<longleftrightarrow> False"
  "runs (err_sys m) s Q \<longleftrightarrow> False"
  "runs (log_quit m) s Q \<longleftrightarrow> False"
  "runs (log_sys m) s Q \<longleftrightarrow> False"
  by (simp_all add: runs_def)

lemma ens_err [wlp]:
  "ens (err_dump m) s Q" "ens (err_quit m) s Q" "ens (err_sys m) s Q" "ens (log_quit m) s Q" "ens (log_sys m) s Q"
  by (simp_all add: ens_def)

text \<open>Where the buffer is large enough, the text ends with a newline and starts with the message.\<close>

lemma err_doit_text:
  assumes "length msg + length strerr + 3 < MAXLINE"
  shows "\<exists>t. err_doit b strerr msg = Some (msg @ t @ [NL])"
  using assms by (simp add: err_doit_def Let_def)

end
