(* ===== verification/Posix.thy ===== *)
theory Posix
  imports Errors
begin

text \<open>
  The part of the POSIX interface the programs call on regular files: \<open>open\<close>,
  \<open>close\<close>, \<open>lseek\<close>, \<open>read\<close>, \<open>write\<close>, \<open>fstat\<close> and record locks, and the
  wrappers of \<^verbatim>\<open>lock-func.c\<close> and \<^verbatim>\<open>ourhdr.h\<close>.

  One process is modelled. Its view of the system is the record \<open>world\<close>, which each
  program extends with its own variables. Descriptors are not shared (no \<open>dup\<close>), a path
  names one file, and reads and writes of regular files are not interrupted. A write can
  fall short: \<open>w_limit\<close> bounds every file's size. Locks are per byte, as POSIX
  record locks are; what other processes hold is the list \<open>w_others\<close>.
\<close>

unbundle bit_operations_syntax

datatype errno =
  E_OK | EACCES | EAGAIN | EBADF | EDEADLK | EFBIG | EINTR | EINVAL | EMFILE | ENOENT | ECHILD | EIO | EBADMSG | ENXIO
  | EEXIST | ENOTDIR

fun strerror :: "errno \<Rightarrow> string" where
  "strerror E_OK = ''Success''"
| "strerror EACCES = ''Permission denied''"
| "strerror EAGAIN = ''Resource temporarily unavailable''"
| "strerror EBADF = ''Bad file descriptor''"
| "strerror EDEADLK = ''Resource deadlock avoided''"
| "strerror EFBIG = ''File too large''"
| "strerror EINTR = ''Interrupted system call''"
| "strerror EINVAL = ''Invalid argument''"
| "strerror EMFILE = ''Too many open files''"
| "strerror ENOENT = ''No such file or directory''"
| "strerror ECHILD = ''No child processes''"
| "strerror EIO = ''Input/output error''"
| "strerror EBADMSG = ''Bad message''"
| "strerror ENXIO = ''No such device or address''"
| "strerror EEXIST = ''File exists''"
| "strerror ENOTDIR = ''Not a directory''"

text \<open>The numbers of the errors on Linux.\<close>

fun err_no :: "errno \<Rightarrow> int" where
  "err_no E_OK = 0"
| "err_no EACCES = 13"
| "err_no EAGAIN = 11"
| "err_no EBADF = 9"
| "err_no EDEADLK = 35"
| "err_no EFBIG = 27"
| "err_no EINTR = 4"
| "err_no EINVAL = 22"
| "err_no EMFILE = 24"
| "err_no EEXIST = 17"
| "err_no ENOTDIR = 20"
| "err_no ENOENT = 2"
| "err_no ECHILD = 10"
| "err_no EIO = 5"
| "err_no EBADMSG = 74"
| "err_no ENXIO = 6"

datatype lock_type = F_RDLCK | F_WRLCK | F_UNLCK

datatype lock_cmd = F_SETLK | F_SETLKW

datatype whence = SEEK_SET | SEEK_CUR | SEEK_END

definition O_RDONLY :: int where "O_RDONLY = 0"
definition O_WRONLY :: int where "O_WRONLY = 1"
definition O_RDWR :: int where "O_RDWR = 2"
definition O_CREAT :: int where "O_CREAT = 0x40"
definition O_EXCL :: int where "O_EXCL = 0x80"
definition O_TRUNC :: int where "O_TRUNC = 0x200"
definition O_APPEND :: int where "O_APPEND = 0x400"
definition O_NONBLOCK :: int where "O_NONBLOCK = 0x800"
definition O_DIRECTORY :: int where "O_DIRECTORY = 0x10000"

lemmas oflag_defs = O_RDONLY_def O_WRONLY_def O_RDWR_def O_CREAT_def O_EXCL_def O_TRUNC_def O_APPEND_def
  O_NONBLOCK_def O_DIRECTORY_def

record ofile =
  o_path :: string
  o_pos :: nat
  o_oflag :: int

record other_lock =
  l_pid :: int
  l_path :: string
  l_type :: lock_type
  l_start :: nat
  l_len :: nat    \<comment> \<open>0 means to the end of the file and beyond\<close>

record world =
  w_files :: "string \<Rightarrow> string option"
  w_fds :: "int \<Rightarrow> ofile option"
  w_maxfd :: nat
  w_limit :: nat
  w_denied :: "string \<Rightarrow> bool"
  w_locks :: "string \<Rightarrow> nat \<Rightarrow> lock_type option"
  w_others :: "other_lock list"
  w_mem :: nat    \<comment> \<open>bytes left for \<open>malloc\<close>\<close>
  w_errno :: errno

subsection \<open>File contents\<close>

definition fd_path :: "'a world_scheme \<Rightarrow> int \<Rightarrow> string" where
  "fd_path w fd = (case w_fds w fd of None \<Rightarrow> [] | Some f \<Rightarrow> o_path f)"

definition fd_pos :: "'a world_scheme \<Rightarrow> int \<Rightarrow> nat" where
  "fd_pos w fd = (case w_fds w fd of None \<Rightarrow> 0 | Some f \<Rightarrow> o_pos f)"

definition file_bytes :: "'a world_scheme \<Rightarrow> string \<Rightarrow> string" where
  "file_bytes w p = (case w_files w p of None \<Rightarrow> [] | Some c \<Rightarrow> c)"

definition fd_bytes :: "'a world_scheme \<Rightarrow> int \<Rightarrow> string" where
  "fd_bytes w fd = file_bytes w (fd_path w fd)"

definition set_pos :: "int \<Rightarrow> nat \<Rightarrow> 'a world_scheme \<Rightarrow> 'a world_scheme" where
  "set_pos fd p w =
     w\<lparr>w_fds := (w_fds w)(fd := map_option (\<lambda>f. f\<lparr>o_pos := p\<rparr>) (w_fds w fd))\<rparr>"

definition set_bytes :: "string \<Rightarrow> string \<Rightarrow> 'a world_scheme \<Rightarrow> 'a world_scheme" where
  "set_bytes p c w = w\<lparr>w_files := (w_files w)(p \<mapsto> c)\<rparr>"

definition fail :: "errno \<Rightarrow> (int, 'a world_scheme) prog" where
  "fail e = (\<lambda>w. Ok (-1) (w\<lparr>w_errno := e\<rparr>))"

subsection \<open>System calls\<close>

definition new_fd :: "'a world_scheme \<Rightarrow> int option" where
  "new_fd w = (case filter (\<lambda>i. w_fds w (int i) = None) [0..<w_maxfd w] of
     [] \<Rightarrow> None | i # _ \<Rightarrow> Some (int i))"

text \<open>
  \<open>open\<close>: the lowest free descriptor; the file is created or truncated as asked. All files are
  regular files: none is opened as a directory, and none is created exclusively where there is one.
\<close>

definition open_error :: "string \<Rightarrow> int \<Rightarrow> 'a world_scheme \<Rightarrow> errno option" where
  "open_error path oflag w =
     (if oflag AND O_DIRECTORY \<noteq> 0 \<and> oflag AND O_CREAT \<noteq> 0 then Some EINVAL
      else if oflag AND O_EXCL \<noteq> 0 \<and> oflag AND O_CREAT \<noteq> 0 \<and> w_files w path \<noteq> None then Some EEXIST
      else if w_denied w path then Some EACCES
      else if w_files w path = None \<and> oflag AND O_CREAT = 0 then Some ENOENT
      else if oflag AND O_DIRECTORY \<noteq> 0 then Some ENOTDIR
      else None)"

definition sys_open :: "string \<Rightarrow> int \<Rightarrow> (int, 'a world_scheme) prog" where
  "sys_open path oflag = (\<lambda>w.
     case new_fd w of
       None \<Rightarrow> fail EMFILE w
     | Some fd \<Rightarrow>
         case open_error path oflag w of
           Some e \<Rightarrow> fail e w
         | None \<Rightarrow> Ok fd (w\<lparr>w_files := (w_files w)(path \<mapsto>
                          (if oflag AND O_TRUNC = 0 then file_bytes w path else [])),
                       w_fds := (w_fds w)(fd \<mapsto>
                          \<lparr>o_path = path, o_pos = 0, o_oflag = oflag\<rparr>)\<rparr>))"

text \<open>\<open>close\<close> also drops every record lock the process holds on the file.\<close>

definition sys_close :: "int \<Rightarrow> (int, 'a world_scheme) prog" where
  "sys_close fd = (\<lambda>w.
     case w_fds w fd of
       None \<Rightarrow> fail EBADF w
     | Some f \<Rightarrow> Ok 0 (w\<lparr>w_fds := (w_fds w)(fd := None),
                          w_locks := (w_locks w)(o_path f := (\<lambda>_. None))\<rparr>))"

definition seek_base :: "int \<Rightarrow> whence \<Rightarrow> 'a world_scheme \<Rightarrow> int" where
  "seek_base fd wh w = (case wh of
     SEEK_SET \<Rightarrow> 0 | SEEK_CUR \<Rightarrow> int (fd_pos w fd) | SEEK_END \<Rightarrow> int (length (fd_bytes w fd)))"

definition lseek :: "int \<Rightarrow> int \<Rightarrow> whence \<Rightarrow> (int, 'a world_scheme) prog" where
  "lseek fd off wh = (\<lambda>w.
     case w_fds w fd of
       None \<Rightarrow> fail EBADF w
     | Some f \<Rightarrow> (let p = seek_base fd wh w + off in
         if p < 0 then fail EINVAL w else Ok p (set_pos fd (nat p) w)))"

text \<open>\<open>read\<close> returns the bytes it put in the buffer, \<open>None\<close> for -1.\<close>

definition sys_read :: "int \<Rightarrow> nat \<Rightarrow> (string option, 'a world_scheme) prog" where
  "sys_read fd n = (\<lambda>w.
     case w_fds w fd of
       None \<Rightarrow> Ok None (w\<lparr>w_errno := EBADF\<rparr>)
     | Some f \<Rightarrow>
         if o_oflag f AND 3 = O_WRONLY then Ok None (w\<lparr>w_errno := EBADF\<rparr>)
         else (let bs = slice (fd_bytes w fd) (o_pos f) n in
               Ok (Some bs) (set_pos fd (o_pos f + length bs) w)))"

text \<open>\<open>write\<close> (and \<open>writev\<close>, whose pieces the caller joins): as many bytes as fit.\<close>

definition sys_write :: "int \<Rightarrow> string \<Rightarrow> (int, 'a world_scheme) prog" where
  "sys_write fd bs = (\<lambda>w.
     case w_fds w fd of
       None \<Rightarrow> fail EBADF w
     | Some f \<Rightarrow>
         if o_oflag f AND 3 = O_RDONLY then fail EBADF w
         else (let out = take (w_limit w - o_pos f) bs in
               if bs \<noteq> [] \<and> out = [] then fail EFBIG w
               else Ok (int (length out))
                      (set_pos fd (o_pos f + length out)
                        (set_bytes (o_path f) (overwrite (fd_bytes w fd) (o_pos f) out) w))))"

definition fstat_size :: "int \<Rightarrow> (int, 'a world_scheme) prog" where
  "fstat_size fd = (\<lambda>w.
     case w_fds w fd of
       None \<Rightarrow> fail EBADF w
     | Some f \<Rightarrow> Ok (int (length (fd_bytes w fd))) w)"

text \<open>\<open>malloc\<close> succeeds while memory is left; \<open>free\<close> gives a block of known size back.\<close>

definition sys_malloc :: "nat \<Rightarrow> (bool, 'a world_scheme) prog" where
  "sys_malloc n = (\<lambda>w. if n \<le> w_mem w then Ok True (w\<lparr>w_mem := w_mem w - n\<rparr>) else Ok False w)"

definition sys_free :: "nat \<Rightarrow> (unit, 'a world_scheme) prog" where
  "sys_free n = modify (\<lambda>w. w\<lparr>w_mem := w_mem w + n\<rparr>)"

subsection \<open>Record locks\<close>

definition in_region :: "nat \<Rightarrow> nat \<Rightarrow> nat \<Rightarrow> bool" where
  "in_region start len b \<longleftrightarrow> start \<le> b \<and> (len = 0 \<or> b < start + len)"

definition overlap :: "nat \<Rightarrow> nat \<Rightarrow> nat \<Rightarrow> nat \<Rightarrow> bool" where
  "overlap s n s' n' \<longleftrightarrow> (n' = 0 \<or> s < s' + n') \<and> (n = 0 \<or> s' < s + n)"

definition conflicts :: "string \<Rightarrow> lock_type \<Rightarrow> nat \<Rightarrow> nat \<Rightarrow> other_lock \<Rightarrow> bool" where
  "conflicts path t start len l \<longleftrightarrow>
     l_path l = path \<and> t \<noteq> F_UNLCK \<and> l_type l \<noteq> F_UNLCK \<and>
     (t = F_WRLCK \<or> l_type l = F_WRLCK) \<and> overlap start len (l_start l) (l_len l)"

definition set_lock :: "string \<Rightarrow> lock_type \<Rightarrow> nat \<Rightarrow> nat \<Rightarrow> 'a world_scheme \<Rightarrow> 'a world_scheme" where
  "set_lock path t start len w =
     w\<lparr>w_locks := (w_locks w)(path := (\<lambda>b. if in_region start len b
          then (if t = F_UNLCK then None else Some t) else w_locks w path b))\<rparr>"

text \<open>
  \<^verbatim>\<open>lock_reg\<close> of \<^verbatim>\<open>lock-func.c\<close> fills a \<open>struct flock\<close> and calls
  \<open>fcntl\<close>: \<open>F_SETLK\<close> fails at once where another process holds a conflicting
  lock, \<open>F_SETLKW\<close> waits for it.
\<close>

definition lock_reg :: "int \<Rightarrow> lock_cmd \<Rightarrow> lock_type \<Rightarrow> int \<Rightarrow> whence \<Rightarrow> nat \<Rightarrow>
    (int, 'a world_scheme) prog" where
  "lock_reg fd cmd t off wh len = (\<lambda>w.
     case w_fds w fd of
       None \<Rightarrow> fail EBADF w
     | Some f \<Rightarrow>
         (let start = seek_base fd wh w + off in
          if start < 0 then fail EINVAL w
          else if list_ex (conflicts (o_path f) t (nat start) len) (w_others w)
          then (case cmd of F_SETLK \<Rightarrow> fail EAGAIN w
                          | F_SETLKW \<Rightarrow> Halt (Blocked ''fcntl'') w)
          else Ok 0 (set_lock (o_path f) t (nat start) len w)))"

text \<open>\<^verbatim>\<open>lock_test\<close>: 0 when no other process's lock is in the way, else its owner.\<close>

definition lock_test :: "int \<Rightarrow> lock_type \<Rightarrow> int \<Rightarrow> whence \<Rightarrow> nat \<Rightarrow> (int, 'a world_scheme) prog" where
  "lock_test fd t off wh len = (\<lambda>w.
     case w_fds w fd of
       None \<Rightarrow> Halt (Exit 1 ''fcntl error'') w
     | Some f \<Rightarrow>
         (let start = seek_base fd wh w + off in
          if start < 0 then Halt (Exit 1 ''fcntl error'') w
          else (case filter (conflicts (o_path f) t (nat start) len) (w_others w) of
                  [] \<Rightarrow> Ok 0 w
                | l # _ \<Rightarrow> Ok (l_pid l) w)))"

text \<open>The lock macros of \<^verbatim>\<open>ourhdr.h\<close>.\<close>

definition read_lock :: "int \<Rightarrow> int \<Rightarrow> whence \<Rightarrow> nat \<Rightarrow> (int, 'a world_scheme) prog" where
  "read_lock fd off wh len = lock_reg fd F_SETLK F_RDLCK off wh len"
definition readw_lock :: "int \<Rightarrow> int \<Rightarrow> whence \<Rightarrow> nat \<Rightarrow> (int, 'a world_scheme) prog" where
  "readw_lock fd off wh len = lock_reg fd F_SETLKW F_RDLCK off wh len"
definition write_lock :: "int \<Rightarrow> int \<Rightarrow> whence \<Rightarrow> nat \<Rightarrow> (int, 'a world_scheme) prog" where
  "write_lock fd off wh len = lock_reg fd F_SETLK F_WRLCK off wh len"
definition writew_lock :: "int \<Rightarrow> int \<Rightarrow> whence \<Rightarrow> nat \<Rightarrow> (int, 'a world_scheme) prog" where
  "writew_lock fd off wh len = lock_reg fd F_SETLKW F_WRLCK off wh len"
definition un_lock :: "int \<Rightarrow> int \<Rightarrow> whence \<Rightarrow> nat \<Rightarrow> (int, 'a world_scheme) prog" where
  "un_lock fd off wh len = lock_reg fd F_SETLK F_UNLCK off wh len"

lemmas lock_macros = read_lock_def readw_lock_def write_lock_def writew_lock_def un_lock_def

subsection \<open>New descriptors\<close>

lemma new_fd_free:
  assumes "new_fd s = Some fd"
  shows "0 \<le> fd" and "w_fds s fd = None"
proof -
  obtain i rest where i: "filter (\<lambda>i. w_fds s (int i) = None) [0..<w_maxfd s] = i # rest" "fd = int i"
    using assms by (auto simp: new_fd_def split: list.splits)
  have "i \<in> set (filter (\<lambda>i. w_fds s (int i) = None) [0..<w_maxfd s])" by (simp add: i(1))
  then have "w_fds s (int i) = None" by auto
  with i(2) show "0 \<le> fd" "w_fds s fd = None" by simp_all
qed

lemma open_cases:
  assumes "sys_open p oflag s = Ok fd t"
  shows "fd < 0 \<and> w_fds t = w_fds s \<and> w_mem t = w_mem s \<or>
    0 \<le> fd \<and> (w_fds t)(fd := None) = w_fds s \<and> w_mem t = w_mem s"
proof (cases "new_fd s")
  case None
  then show ?thesis using assms by (auto simp: sys_open_def fail_def)
next
  case (Some i)
  then have "0 \<le> i" "w_fds s i = None" using new_fd_free by blast+
  then show ?thesis using Some assms by (auto simp: sys_open_def fail_def Let_def split: option.splits if_splits)
qed

text \<open>The flags that ask for more than to open a file as it is, or to create it.\<close>

definition odd_flags :: "int \<Rightarrow> bool" where
  "odd_flags oflag \<longleftrightarrow> oflag AND O_EXCL \<noteq> 0 \<or> oflag AND O_DIRECTORY \<noteq> 0"

lemma open_error_none:
  assumes "\<not> odd_flags oflag" and "\<not> w_denied w path" and "w_files w path \<noteq> None \<or> oflag AND O_CREAT \<noteq> 0"
  shows "open_error path oflag w = None"
  using assms by (auto simp: open_error_def odd_flags_def)

lemma even_flags [simp]:
  "\<not> odd_flags 0" "\<not> odd_flags O_RDONLY" "\<not> odd_flags O_RDWR" "\<not> odd_flags (O_WRONLY OR O_CREAT)"
  "\<not> odd_flags (O_RDWR OR O_CREAT OR O_TRUNC)" "\<not> odd_flags (O_WRONLY OR O_CREAT OR O_TRUNC)"
  by (simp_all add: odd_flags_def oflag_defs)

subsection \<open>Behaviour on an open file\<close>

text \<open>A descriptor open for reading and writing.\<close>

definition rdwr :: "'a world_scheme \<Rightarrow> int \<Rightarrow> bool" where
  "rdwr w fd \<longleftrightarrow> (case w_fds w fd of None \<Rightarrow> False | Some f \<Rightarrow> o_oflag f AND 3 = O_RDWR)"

lemma rdwr_open: "rdwr w fd \<Longrightarrow> \<exists>f. w_fds w fd = Some f \<and> o_oflag f AND 3 = O_RDWR"
  by (simp add: rdwr_def split: option.splits)

text \<open>What the process can see of its descriptors apart from the positions.\<close>

definition fd_table :: "'a world_scheme \<Rightarrow> int \<Rightarrow> (string \<times> int) option" where
  "fd_table w fd = map_option (\<lambda>f. (o_path f, o_oflag f)) (w_fds w fd)"

lemma fd_table_path: "fd_path w fd = (case fd_table w fd of None \<Rightarrow> [] | Some (p, _) \<Rightarrow> p)"
  by (simp add: fd_path_def fd_table_def split: option.split)

lemma fd_table_rdwr:
  "rdwr w fd = (case fd_table w fd of None \<Rightarrow> False | Some (_, fl) \<Rightarrow> fl AND 3 = O_RDWR)"
  by (simp add: rdwr_def fd_table_def split: option.split)

lemma fd_table_closed:
  "w_fds t = (w_fds s)(a := None, b := None) \<Longrightarrow> fd_table t = (fd_table s)(a := None, b := None)"
  by (simp add: fd_table_def fun_eq_iff)

lemma set_pos_sel [simp]:
  "w_files (set_pos fd p w) = w_files w"
  "w_locks (set_pos fd p w) = w_locks w"
  "w_others (set_pos fd p w) = w_others w"
  "w_limit (set_pos fd p w) = w_limit w"
  "w_mem (set_pos fd p w) = w_mem w"
  "w_maxfd (set_pos fd p w) = w_maxfd w"
  "w_denied (set_pos fd p w) = w_denied w"
  "fd_table (set_pos fd p w) = fd_table w"
  "fd_path (set_pos fd p w) = fd_path w"
  "rdwr (set_pos fd p w) = rdwr w"
  "fd_bytes (set_pos fd p w) = fd_bytes w"
  by (auto simp: set_pos_def fd_table_def fd_path_def rdwr_def fd_bytes_def file_bytes_def
      fun_eq_iff option.map_comp comp_def split: option.split)

lemma fd_pos_set_pos [simp]: "rdwr w fd \<Longrightarrow> fd_pos (set_pos fd p w) fd = p"
  by (auto simp: set_pos_def fd_pos_def dest: rdwr_open)

lemma fd_pos_set_pos_other [simp]: "fd \<noteq> fd' \<Longrightarrow> fd_pos (set_pos fd p w) fd' = fd_pos w fd'"
  by (simp add: set_pos_def fd_pos_def)

lemma set_bytes_sel [simp]:
  "w_files (set_bytes q c w) = (w_files w)(q \<mapsto> c)"
  "w_locks (set_bytes q c w) = w_locks w"
  "w_others (set_bytes q c w) = w_others w"
  "w_limit (set_bytes q c w) = w_limit w"
  "w_mem (set_bytes q c w) = w_mem w"
  "w_maxfd (set_bytes q c w) = w_maxfd w"
  "w_denied (set_bytes q c w) = w_denied w"
  "fd_table (set_bytes q c w) = fd_table w"
  "fd_path (set_bytes q c w) = fd_path w"
  "rdwr (set_bytes q c w) = rdwr w"
  "fd_pos (set_bytes q c w) = fd_pos w"
  "fd_bytes (set_bytes q c w) fd = (if fd_path w fd = q then c else fd_bytes w fd)"
  by (simp_all add: set_bytes_def fd_table_def fd_path_def rdwr_def fd_bytes_def file_bytes_def
      fd_pos_def fun_eq_iff)

lemma set_lock_sel [simp]:
  "w_files (set_lock q t b n w) = w_files w"
  "w_others (set_lock q t b n w) = w_others w"
  "w_limit (set_lock q t b n w) = w_limit w"
  "w_mem (set_lock q t b n w) = w_mem w"
  "w_maxfd (set_lock q t b n w) = w_maxfd w"
  "w_denied (set_lock q t b n w) = w_denied w"
  "fd_table (set_lock q t b n w) = fd_table w"
  "fd_path (set_lock q t b n w) = fd_path w"
  "rdwr (set_lock q t b n w) = rdwr w"
  "fd_bytes (set_lock q t b n w) = fd_bytes w"
  "fd_pos (set_lock q t b n w) = fd_pos w"
  by (simp_all add: set_lock_def fd_table_def fd_path_def rdwr_def fd_bytes_def file_bytes_def
      fd_pos_def fun_eq_iff)

lemma lseek_ok:
  assumes "rdwr w fd" and "0 \<le> seek_base fd wh w + off"
  shows "lseek fd off wh w =
    Ok (seek_base fd wh w + off) (set_pos fd (nat (seek_base fd wh w + off)) w)"
  using rdwr_open[OF assms(1)] assms(2) by (auto simp: lseek_def Let_def)

lemma seek_base_simps [simp]:
  "seek_base fd SEEK_SET w = 0"
  "seek_base fd SEEK_CUR w = int (fd_pos w fd)"
  "seek_base fd SEEK_END w = int (length (fd_bytes w fd))"
  by (simp_all add: seek_base_def)

lemma read_ok:
  assumes "rdwr w fd"
  shows "sys_read fd n w = (let bs = slice (fd_bytes w fd) (fd_pos w fd) n in
    Ok (Some bs) (set_pos fd (fd_pos w fd + length bs) w))"
  using rdwr_open[OF assms] by (auto simp: sys_read_def fd_pos_def oflag_defs)

lemma write_ok:
  assumes "rdwr w fd" and "fd_pos w fd + length bs \<le> w_limit w"
  shows "sys_write fd bs w = Ok (int (length bs)) (set_pos fd (fd_pos w fd + length bs)
    (set_bytes (fd_path w fd) (overwrite (fd_bytes w fd) (fd_pos w fd) bs) w))"
  using rdwr_open[OF assms(1)] assms(2)
  by (auto simp: sys_write_def fd_pos_def fd_path_def oflag_defs Let_def)

text \<open>No other process holds a lock on the file.\<close>

definition unshared :: "'a world_scheme \<Rightarrow> string \<Rightarrow> bool" where
  "unshared w q \<longleftrightarrow> (\<forall>l\<in>set (w_others w). l_path l \<noteq> q)"

lemma unshared_no_conflict:
  "unshared w q \<Longrightarrow> \<not> list_ex (conflicts q t b n) (w_others w)"
  by (auto simp: unshared_def conflicts_def list_ex_iff)

lemma lock_reg_ok:
  assumes "rdwr w fd" and "unshared w (fd_path w fd)" and "0 \<le> off"
  shows "lock_reg fd cmd t off SEEK_SET n w = Ok 0 (set_lock (fd_path w fd) t (nat off) n w)"
  using rdwr_open[OF assms(1)] unshared_no_conflict[OF assms(2)] assms(3)
  by (auto simp: lock_reg_def fd_path_def)

lemma runs_lseek [wp]:
  "rdwr w fd \<Longrightarrow> 0 \<le> seek_base fd wh w + off \<Longrightarrow> runs (lseek fd off wh) w Q \<longleftrightarrow>
   Q (seek_base fd wh w + off) (set_pos fd (nat (seek_base fd wh w + off)) w)"
  by (rule runs_Ok) (rule lseek_ok)

lemma runs_read [wp]:
  "rdwr w fd \<Longrightarrow> runs (sys_read fd n) w Q \<longleftrightarrow>
   Q (Some (slice (fd_bytes w fd) (fd_pos w fd) n))
     (set_pos fd (fd_pos w fd + length (slice (fd_bytes w fd) (fd_pos w fd) n)) w)"
  by (rule runs_Ok) (simp add: read_ok Let_def)

lemma runs_write [wp]:
  "rdwr w fd \<Longrightarrow> fd_pos w fd + length bs \<le> w_limit w \<Longrightarrow> runs (sys_write fd bs) w Q \<longleftrightarrow>
   Q (int (length bs)) (set_pos fd (fd_pos w fd + length bs)
     (set_bytes (fd_path w fd) (overwrite (fd_bytes w fd) (fd_pos w fd) bs) w))"
  by (rule runs_Ok) (rule write_ok)

lemma runs_fstat [wp]:
  "rdwr w fd \<Longrightarrow> runs (fstat_size fd) w Q \<longleftrightarrow> Q (int (length (fd_bytes w fd))) w"
  by (auto simp: runs_def fstat_size_def dest: rdwr_open)

lemma runs_locks [wp]:
  assumes "rdwr w fd" and "unshared w (fd_path w fd)" and "0 \<le> off"
  shows "runs (writew_lock fd off SEEK_SET n) w Q \<longleftrightarrow>
           Q 0 (set_lock (fd_path w fd) F_WRLCK (nat off) n w)"
    and "runs (readw_lock fd off SEEK_SET n) w Q \<longleftrightarrow>
           Q 0 (set_lock (fd_path w fd) F_RDLCK (nat off) n w)"
    and "runs (un_lock fd off SEEK_SET n) w Q \<longleftrightarrow>
           Q 0 (set_lock (fd_path w fd) F_UNLCK (nat off) n w)"
  using lock_reg_ok[OF assms] by (simp_all add: lock_macros runs_def)

end
