(* ===== verification/Db_Model.thy ===== *)
theory Db_Model
  imports Posix
begin

text \<open>
  The database library, \<^verbatim>\<open>AP_UNIX/db.c\<close> and \<^verbatim>\<open>AP_UNIX/db.h\<close>. A database is an
  index file and a data file. The index file starts with the free-list pointer and the hash
  table (ASCII pointers of \<open>PTR_SZ\<close> bytes), followed by index records
  (chain pointer, length, then \<^verbatim>\<open>key:datoff:datlen\<close> and a newline).

  The state is the system's state extended with the \<open>DB\<close> structure of the one database the
  process has open. \<open>idxbuf\<close> and \<open>datbuf\<close> hold the C string at the start of the
  buffer. Every function of \<^verbatim>\<open>db.c\<close> is one definition, with its leading underscore
  dropped. The three loops that follow a chain or scan the file carry a bound on their
  iterations, one more than the bytes of the index file: a walk that exceeds it has met some
  offset twice and goes round forever, which is the outcome \<open>Diverges\<close>.

  \<open>sprintf\<close> in \<open>_db_writeidx\<close> prints into \<open>idxbuf\<close> from \<open>idxbuf\<close> itself when
  \<open>_db_dodelete\<close> calls it. C leaves that undefined. The field \<open>self_print\<close> is a parameter
  of the model, a fact about the C library the program runs on: whether its \<open>sprintf\<close> leaves a
  string that it prints onto itself in place and goes on after it, which is what the code relies on.
  Where it does not, the call is the outcome \<open>Undefined\<close>.
\<close>

definition DB_INSERT :: int where "DB_INSERT = 1"
definition DB_REPLACE :: int where "DB_REPLACE = 2"
definition IDXLEN_SZ :: nat where "IDXLEN_SZ = 4"
definition IDXLEN_MIN :: int where "IDXLEN_MIN = 6"
definition IDXLEN_MAX :: int where "IDXLEN_MAX = 1024"
definition SEP :: char where "SEP = CHR '':''"
definition DATLEN_MIN :: int where "DATLEN_MIN = 2"
definition DATLEN_MAX :: int where "DATLEN_MAX = 1024"
definition PTR_SZ :: nat where "PTR_SZ = 6"
definition PTR_MAX :: int where "PTR_MAX = 999999"
definition NHASH_DEF :: nat where "NHASH_DEF = 137"
definition FREE_OFF :: int where "FREE_OFF = 0"
definition HASH_OFF :: int where "HASH_OFF = int PTR_SZ"
definition sizeof_DB :: nat where "sizeof_DB = 192"

lemmas db_consts = DB_INSERT_def DB_REPLACE_def IDXLEN_SZ_def IDXLEN_MIN_def IDXLEN_MAX_def
  SEP_def DATLEN_MIN_def DATLEN_MAX_def PTR_SZ_def PTR_MAX_def NHASH_DEF_def FREE_OFF_def
  HASH_OFF_def

text \<open>The structure \<open>DB\<close>; \<open>name_sz\<close> is the size \<open>malloc\<close> gave the name.\<close>

record dbs = world +
  idxfd :: int
  datfd :: int
  db_oflag :: int
  idxbuf :: string
  datbuf :: string
  db_name :: string
  name_sz :: nat
  idxoff :: int
  idxlen :: int
  datoff :: int
  datlen :: int
  ptrval :: int
  ptroff :: int
  chainoff :: int
  hashoff :: int
  nhash :: nat
  cnt_delok :: int
  cnt_delerr :: int
  cnt_fetchok :: int
  cnt_fetcherr :: int
  cnt_nextrec :: int
  cnt_stor1 :: int
  cnt_stor2 :: int
  cnt_stor3 :: int
  cnt_stor4 :: int
  cnt_storerr :: int
  self_print :: bool

abbreviation idxf :: "'a dbs_scheme \<Rightarrow> string" where
  "idxf s \<equiv> fd_bytes s (idxfd s)"

abbreviation datf :: "'a dbs_scheme \<Rightarrow> string" where
  "datf s \<equiv> fd_bytes s (datfd s)"

text \<open>A \<open>size_t\<close> that is assigned a \<open>long\<close>.\<close>

definition to_size_t :: "int \<Rightarrow> int" where
  "to_size_t x = uint (word_of_int x :: 64 word)"

subsection \<open>Opening and closing\<close>

definition db_rewind :: "(unit, dbs) prog" where
  "db_rewind =
     bnd (gets (\<lambda>s. (int (nhash s) + 1) * int PTR_SZ)) (\<lambda>offset.
     bnd (gets idxfd) (\<lambda>fd.
     bnd (lseek fd (offset + 1) SEEK_SET) (\<lambda>p.
     bnd (modify (\<lambda>s. s\<lparr>idxoff := p\<rparr>)) (\<lambda>_.
     if p = -1 then err_dump ''lseek error'' else ret ()))))"

text \<open>\<open>calloc\<close> zeroes the structure; then both descriptors are set to -1.\<close>

definition db_zero :: "dbs \<Rightarrow> dbs" where
  "db_zero s = s\<lparr>idxfd := -1, datfd := -1, db_oflag := 0, idxbuf := [], datbuf := [],
     db_name := [], name_sz := 0, idxoff := 0, idxlen := 0, datoff := 0, datlen := 0,
     ptrval := 0, ptroff := 0, chainoff := 0, hashoff := 0, nhash := 0, cnt_delok := 0,
     cnt_delerr := 0, cnt_fetchok := 0, cnt_fetcherr := 0, cnt_nextrec := 0, cnt_stor1 := 0,
     cnt_stor2 := 0, cnt_stor3 := 0, cnt_stor4 := 0, cnt_storerr := 0\<rparr>"

definition db_alloc :: "nat \<Rightarrow> (unit, dbs) prog" where
  "db_alloc namelen =
     bnd (sys_malloc sizeof_DB) (\<lambda>ok.
     if \<not> ok then err_dump ''calloc error for DB''
     else bnd (modify db_zero) (\<lambda>_.
     bnd (sys_malloc (namelen + 5)) (\<lambda>ok.
     if \<not> ok then err_dump ''malloc error for name''
     else bnd (modify (\<lambda>s. s\<lparr>name_sz := namelen + 5\<rparr>)) (\<lambda>_.
     bnd (sys_malloc (nat IDXLEN_MAX + 2)) (\<lambda>ok.
     if \<not> ok then err_dump ''malloc error for index buffer''
     else bnd (sys_malloc (nat DATLEN_MAX + 2)) (\<lambda>ok.
     if \<not> ok then err_dump ''malloc error for data buffer''
     else ret ()))))))"

definition db_free :: "(unit, dbs) prog" where
  "db_free =
     bnd (gets idxfd) (\<lambda>ifd.
     bnd (if ifd \<ge> 0 then sys_close ifd else ret 0) (\<lambda>r.
     if r < 0 then err_dump ''index close error''
     else bnd (gets datfd) (\<lambda>dfd.
     bnd (if dfd \<ge> 0 then sys_close dfd else ret 0) (\<lambda>r.
     if r < 0 then err_dump ''data close error''
     else bnd (modify (\<lambda>s. s\<lparr>idxfd := -1, datfd := -1\<rparr>)) (\<lambda>_.
     bnd (sys_free (nat IDXLEN_MAX + 2)) (\<lambda>_.
     bnd (sys_free (nat DATLEN_MAX + 2)) (\<lambda>_.
     bnd (gets name_sz) (\<lambda>n.
     bnd (sys_free n) (\<lambda>_.
     sys_free sizeof_DB)))))))))"

definition db_close :: "(unit, dbs) prog" where
  "db_close = db_free"

text \<open>The empty hash table \<open>db_open\<close> writes: \<open>NHASH_DEF + 1\<close> null pointers and a newline.\<close>

definition db_init_hash :: string where
  "db_init_hash = concat (replicate (NHASH_DEF + 1) (fmt_wd PTR_SZ 0)) @ [NL]"

definition db_init_file :: "(unit, dbs) prog" where
  "db_init_file =
     bnd (gets idxfd) (\<lambda>fd.
     bnd (writew_lock fd 0 SEEK_SET 0) (\<lambda>r.
     if r < 0 then err_dump ''writew_lock error''
     else bnd (fstat_size fd) (\<lambda>sz.
     if sz < 0 then err_sys ''fstat error''
     else bnd (if sz = 0
               then bnd (sys_write fd db_init_hash) (\<lambda>n.
                    if n \<noteq> int (length db_init_hash)
                    then err_dump ''write error initializing index file'' else ret ())
               else ret ()) (\<lambda>_.
     bnd (un_lock fd 0 SEEK_SET 0) (\<lambda>r.
     if r < 0 then err_dump ''un_lock error'' else ret ())))))"

definition db_open :: "string \<Rightarrow> int \<Rightarrow> (bool, dbs) prog" where
  "db_open pathname oflag =
     bnd (db_alloc (length pathname)) (\<lambda>_.
     bnd (modify (\<lambda>s. s\<lparr>db_oflag := oflag, db_name := pathname @ ''.idx''\<rparr>)) (\<lambda>_.
     bnd (sys_open (pathname @ ''.idx'') oflag) (\<lambda>fd.
     bnd (modify (\<lambda>s. s\<lparr>idxfd := fd\<rparr>)) (\<lambda>_.
     if fd < 0 then bnd db_free (\<lambda>_. ret False)
     else bnd (modify (\<lambda>s. s\<lparr>db_name := pathname @ ''.dat''\<rparr>)) (\<lambda>_.
     bnd (sys_open (pathname @ ''.dat'') oflag) (\<lambda>fd.
     bnd (modify (\<lambda>s. s\<lparr>datfd := fd\<rparr>)) (\<lambda>_.
     if fd < 0 then bnd db_free (\<lambda>_. ret False)
     else bnd (if oflag AND (O_CREAT OR O_TRUNC) = (O_CREAT OR O_TRUNC)
               then db_init_file else ret ()) (\<lambda>_.
     bnd (modify (\<lambda>s. s\<lparr>nhash := NHASH_DEF, hashoff := HASH_OFF\<rparr>)) (\<lambda>_.
     bnd db_rewind (\<lambda>_. ret True))))))))))"

subsection \<open>Reading the index file\<close>

text \<open>
  \<open>_db_hash\<close>: each character times its 1-based index, summed in an \<open>unsigned long\<close>.
  A character is signed, so a negative product is added modulo \<open>2\<^sup>64\<close>.
\<close>

definition schar :: "char \<Rightarrow> int" where
  "schar c = (let n = (of_char c :: int) in if n < 128 then n else n - 256)"

fun hash_sum :: "int \<Rightarrow> string \<Rightarrow> 64 word \<Rightarrow> 64 word" where
  "hash_sum i [] h = h"
| "hash_sum i (c # cs) h = hash_sum (i + 1) cs (h + word_of_int (schar c * i))"

definition db_hash_of :: "nat \<Rightarrow> string \<Rightarrow> nat" where
  "db_hash_of n key = unat (hash_sum 1 key 0) mod n"

definition db_hash :: "string \<Rightarrow> (nat, dbs) prog" where
  "db_hash key = gets (\<lambda>s. db_hash_of (nhash s) key)"

definition db_readptr :: "int \<Rightarrow> (int, dbs) prog" where
  "db_readptr offset =
     bnd (gets idxfd) (\<lambda>fd.
     bnd (lseek fd offset SEEK_SET) (\<lambda>p.
     if p = -1 then err_dump ''lseek error to ptr field''
     else bnd (sys_read fd PTR_SZ) (\<lambda>r.
     case r of
       None \<Rightarrow> err_dump ''read error of ptr field''
     | Some b \<Rightarrow> if length b \<noteq> PTR_SZ then err_dump ''read error of ptr field''
                else ret (atol (cstr b)))))"

text \<open>
  The separators: the key, the data offset and the data length of the buffer that
  \<open>_db_readidx\<close> has read, its newline replaced by a null byte; or what \<open>err_dump\<close> says.
\<close>

definition split_idx :: "string \<Rightarrow> string + (string \<times> string \<times> string)" where
  "split_idx b =
     (case strchr b SEP of
        None \<Rightarrow> Inl ''missing first separator''
      | Some i \<Rightarrow>
          (let b1 = drop (Suc i) b in
           case strchr b1 SEP of
             None \<Rightarrow> Inl ''missing second separator''
           | Some j \<Rightarrow>
               (let b2 = drop (Suc j) b1 in
                if strchr b2 SEP \<noteq> None then Inl ''too many separators''
                else Inr (take i b, take j b1, cstr b2))))"

definition db_readidx :: "int \<Rightarrow> (int, dbs) prog" where
  "db_readidx offset =
     bnd (gets idxfd) (\<lambda>fd.
     bnd (lseek fd offset (if offset = 0 then SEEK_CUR else SEEK_SET)) (\<lambda>p.
     bnd (modify (\<lambda>s. s\<lparr>idxoff := p\<rparr>)) (\<lambda>_.
     if p = -1 then err_dump ''lseek error''
     else bnd (sys_read fd (PTR_SZ + IDXLEN_SZ)) (\<lambda>r.
     case r of
       None \<Rightarrow> err_dump ''readv error of index record''
     | Some h \<Rightarrow>
       if length h \<noteq> PTR_SZ + IDXLEN_SZ
       then (if h = [] \<and> offset = 0 then ret (-1) else err_dump ''readv error of index record'')
       else bnd (modify (\<lambda>s. s\<lparr>ptrval := atol (cstr (take PTR_SZ h)),
                               idxlen := to_size_t (atol (cstr (drop PTR_SZ h)))\<rparr>)) (\<lambda>_.
       bnd (gets idxlen) (\<lambda>len.
       if len < IDXLEN_MIN \<or> len > IDXLEN_MAX then err_dump ''invalid length''
       else bnd (sys_read fd (nat len)) (\<lambda>r.
       case r of
         None \<Rightarrow> err_dump ''read error of index record''
       | Some b \<Rightarrow>
         if int (length b) \<noteq> len then err_dump ''read error of index record''
         else if last b \<noteq> NL then err_dump ''missing newline''
         else (case split_idx (butlast b @ [NUL]) of
                 Inl msg \<Rightarrow> err_dump msg
               | Inr (key, f1, f2) \<Rightarrow>
                   bnd (modify (\<lambda>s. s\<lparr>idxbuf := key, datoff := atol f1\<rparr>)) (\<lambda>_.
                   if atol f1 < 0 then err_dump ''starting offset < 0''
                   else bnd (modify (\<lambda>s. s\<lparr>datlen := to_size_t (atol f2)\<rparr>)) (\<lambda>_.
                   bnd (gets datlen) (\<lambda>n.
                   if n \<le> 0 \<or> n > DATLEN_MAX then err_dump ''invalid length''
                   else gets ptrval)))))))))))"

definition db_readdat :: "(string, dbs) prog" where
  "db_readdat =
     bnd (gets (\<lambda>s. (datfd s, datoff s, datlen s))) (\<lambda>(fd, off, n).
     bnd (lseek fd off SEEK_SET) (\<lambda>p.
     if p = -1 then err_dump ''lseek error''
     else bnd (sys_read fd (nat n)) (\<lambda>r.
     case r of
       None \<Rightarrow> err_dump ''read error''
     | Some b \<Rightarrow>
       if int (length b) \<noteq> n then err_dump ''read error''
       else if last b \<noteq> NL then err_dump ''missing newline''
       else bnd (modify (\<lambda>s. s\<lparr>datbuf := cstr (butlast b)\<rparr>)) (\<lambda>_. gets datbuf))))"

subsection \<open>Finding a record\<close>

text \<open>The loop of \<open>_db_find\<close>: the offset of the matching record, 0 if there is none.\<close>

fun find_loop :: "nat \<Rightarrow> string \<Rightarrow> int \<Rightarrow> (int, dbs) prog" where
  "find_loop 0 key offset = stop_with (Diverges ''_db_find'')"
| "find_loop (Suc n) key offset =
     (if offset = 0 then ret 0
      else bnd (db_readidx offset) (\<lambda>nextoffset.
           bnd (gets idxbuf) (\<lambda>b.
           if b = key then ret offset
           else bnd (modify (\<lambda>s. s\<lparr>ptroff := offset\<rparr>)) (\<lambda>_.
                find_loop n key nextoffset))))"

definition db_find :: "string \<Rightarrow> bool \<Rightarrow> (int, dbs) prog" where
  "db_find key writelock =
     bnd (db_hash key) (\<lambda>h.
     bnd (modify (\<lambda>s. s\<lparr>chainoff := int (h * PTR_SZ) + hashoff s\<rparr>)) (\<lambda>_.
     bnd (modify (\<lambda>s. s\<lparr>ptroff := chainoff s\<rparr>)) (\<lambda>_.
     bnd (gets (\<lambda>s. (idxfd s, chainoff s))) (\<lambda>(fd, co).
     bnd (if writelock then writew_lock fd co SEEK_SET 1 else readw_lock fd co SEEK_SET 1) (\<lambda>r.
     if r < 0 then err_dump (if writelock then ''writew_lock error'' else ''readw_lock error'')
     else bnd (gets ptroff) (\<lambda>po.
     bnd (db_readptr po) (\<lambda>offset.
     bnd (gets (\<lambda>s. Suc (length (idxf s)))) (\<lambda>fuel.
     bnd (find_loop fuel key offset) (\<lambda>offset.
     if offset = 0 then ret (-1) else ret 0)))))))))"

definition db_fetch :: "string \<Rightarrow> (string option, dbs) prog" where
  "db_fetch key =
     bnd (db_find key False) (\<lambda>r.
     bnd (if r < 0
          then bnd (modify (\<lambda>s. s\<lparr>cnt_fetcherr := cnt_fetcherr s + 1\<rparr>)) (\<lambda>_. ret None)
          else bnd db_readdat (\<lambda>d.
               bnd (modify (\<lambda>s. s\<lparr>cnt_fetchok := cnt_fetchok s + 1\<rparr>)) (\<lambda>_. ret (Some d)))) (\<lambda>ptr.
     bnd (gets (\<lambda>s. (idxfd s, chainoff s))) (\<lambda>(fd, co).
     bnd (un_lock fd co SEEK_SET 1) (\<lambda>r.
     if r < 0 then err_dump ''un_lock error'' else ret ptr))))"

subsection \<open>Writing\<close>

definition db_writedat :: "string \<Rightarrow> int \<Rightarrow> whence \<Rightarrow> (unit, dbs) prog" where
  "db_writedat data offset wh =
     bnd (gets datfd) (\<lambda>fd.
     bnd (if wh = SEEK_END then writew_lock fd 0 SEEK_SET 0 else ret 0) (\<lambda>r.
     if r < 0 then err_dump ''writew_lock error''
     else bnd (lseek fd offset wh) (\<lambda>p.
     bnd (modify (\<lambda>s. s\<lparr>datoff := p\<rparr>)) (\<lambda>_.
     if p = -1 then err_dump ''lseek error''
     else bnd (modify (\<lambda>s. s\<lparr>datlen := int (length data) + 1\<rparr>)) (\<lambda>_.
     bnd (sys_write fd (data @ [NL])) (\<lambda>n.
     if n \<noteq> int (length data) + 1 then err_dump ''writev error of data record''
     else bnd (if wh = SEEK_END then un_lock fd 0 SEEK_SET 0 else ret 0) (\<lambda>r.
     if r < 0 then err_dump ''un_lock error'' else ret ())))))))"

definition idx_text :: "string \<Rightarrow> int \<Rightarrow> int \<Rightarrow> string" where
  "idx_text key off n = key @ [SEP] @ fmt_d (to_int32 off) @ [SEP] @ fmt_d (to_int32 n) @ [NL]"

definition db_writeidx :: "bool \<Rightarrow> string \<Rightarrow> int \<Rightarrow> whence \<Rightarrow> int \<Rightarrow> (unit, dbs) prog" where
  "db_writeidx own key offset wh ptr =
     bnd (modify (\<lambda>s. s\<lparr>ptrval := ptr\<rparr>)) (\<lambda>_.
     if ptr < 0 \<or> ptr > PTR_MAX then err_quit (''invalid ptr: '' @ fmt_d (to_int32 ptr))
     else bnd (gets (\<lambda>s. (self_print s, idx_text key (datoff s) (datlen s)))) (\<lambda>(self, t).
     if own \<and> \<not> self then stop_with (Undefined ''sprintf from its own buffer'')
     else if int (length t) + 1 > IDXLEN_MAX + 2 then stop_with (Undefined ''idxbuf overflow'')
     else bnd (modify (\<lambda>s. s\<lparr>idxbuf := t\<rparr>)) (\<lambda>_.
     let len = int (length t) in
     if len < IDXLEN_MIN \<or> len > IDXLEN_MAX then err_dump ''invalid length''
     else
     bnd (gets (\<lambda>s. (idxfd s, (int (nhash s) + 1) * int PTR_SZ + 1))) (\<lambda>(fd, region).
     bnd (if wh = SEEK_END then writew_lock fd region SEEK_SET 0 else ret 0) (\<lambda>r.
     if r < 0 then err_dump ''writew_lock error''
     else bnd (lseek fd offset wh) (\<lambda>p.
     bnd (modify (\<lambda>s. s\<lparr>idxoff := p\<rparr>)) (\<lambda>_.
     if p = -1 then err_dump ''lseek error''
     else bnd (sys_write fd (take (PTR_SZ + IDXLEN_SZ)
                 (fmt_w0d PTR_SZ (to_int32 ptr) @ fmt_wd IDXLEN_SZ len) @ t)) (\<lambda>n.
     if n \<noteq> int PTR_SZ + int IDXLEN_SZ + len then err_dump ''writev error of index record''
     else bnd (if wh = SEEK_END then un_lock fd region SEEK_SET 0 else ret 0) (\<lambda>r.
     if r < 0 then err_dump ''un_lock error'' else ret ())))))))))"

definition db_writeptr :: "int \<Rightarrow> int \<Rightarrow> (unit, dbs) prog" where
  "db_writeptr offset ptr =
     (if ptr < 0 \<or> ptr > PTR_MAX then err_quit (''invalid ptr: '' @ fmt_d (to_int32 ptr))
      else bnd (gets idxfd) (\<lambda>fd.
      bnd (lseek fd offset SEEK_SET) (\<lambda>p.
      if p = -1 then err_dump ''lseek error to ptr field''
      else bnd (sys_write fd (take PTR_SZ (fmt_wd PTR_SZ (to_int32 ptr)))) (\<lambda>n.
      if n \<noteq> int PTR_SZ then err_dump ''write error of ptr field'' else ret ()))))"

subsection \<open>Deleting\<close>

definition db_dodelete :: "(int, dbs) prog" where
  "db_dodelete =
     bnd (modify (\<lambda>s. s\<lparr>datbuf := replicate (nat (datlen s - 1)) (CHR '' '')\<rparr>)) (\<lambda>_.
     bnd (modify (\<lambda>s. s\<lparr>idxbuf := replicate (length (idxbuf s)) (CHR '' '')\<rparr>)) (\<lambda>_.
     bnd (gets idxfd) (\<lambda>fd.
     bnd (writew_lock fd FREE_OFF SEEK_SET 1) (\<lambda>r.
     if r < 0 then err_dump ''writew_lock error''
     else bnd (gets (\<lambda>s. (datbuf s, datoff s))) (\<lambda>(db, off).
     bnd (db_writedat db off SEEK_SET) (\<lambda>_.
     bnd (db_readptr FREE_OFF) (\<lambda>freeptr.
     bnd (gets ptrval) (\<lambda>saveptr.
     bnd (gets (\<lambda>s. (idxbuf s, idxoff s))) (\<lambda>(key, io).
     bnd (db_writeidx True key io SEEK_SET freeptr) (\<lambda>_.
     bnd (gets idxoff) (\<lambda>io.
     bnd (db_writeptr FREE_OFF io) (\<lambda>_.
     bnd (gets ptroff) (\<lambda>po.
     bnd (db_writeptr po saveptr) (\<lambda>_.
     bnd (un_lock fd FREE_OFF SEEK_SET 1) (\<lambda>r.
     if r < 0 then err_dump ''un_lock error'' else ret 0)))))))))))))))"

definition db_delete :: "string \<Rightarrow> (int, dbs) prog" where
  "db_delete key =
     bnd (db_find key True) (\<lambda>r.
     bnd (if r = 0
          then bnd db_dodelete (\<lambda>rc.
               bnd (modify (\<lambda>s. s\<lparr>cnt_delok := cnt_delok s + 1\<rparr>)) (\<lambda>_. ret rc))
          else bnd (modify (\<lambda>s. s\<lparr>cnt_delerr := cnt_delerr s + 1\<rparr>)) (\<lambda>_. ret (-1))) (\<lambda>rc.
     bnd (gets (\<lambda>s. (idxfd s, chainoff s))) (\<lambda>(fd, co).
     bnd (un_lock fd co SEEK_SET 1) (\<lambda>r.
     if r < 0 then err_dump ''un_lock error'' else ret rc))))"

subsection \<open>Storing\<close>

text \<open>
  The loop of \<open>_db_findfree\<close>: the offset of the first free record of the right sizes
  (0 if none) and the offset of the chain pointer that points to it.
\<close>

fun findfree_loop :: "nat \<Rightarrow> nat \<Rightarrow> int \<Rightarrow> int \<Rightarrow> int \<Rightarrow> (int \<times> int, dbs) prog" where
  "findfree_loop 0 keylen dlen saveoffset offset = stop_with (Diverges ''_db_findfree'')"
| "findfree_loop (Suc n) keylen dlen saveoffset offset =
     (if offset = 0 then ret (0, saveoffset)
      else bnd (db_readidx offset) (\<lambda>nextoffset.
           bnd (gets (\<lambda>s. (idxbuf s, datlen s))) (\<lambda>(b, d).
           if length b = keylen \<and> d = dlen then ret (offset, saveoffset)
           else findfree_loop n keylen dlen offset nextoffset)))"

text \<open>The comment says that the free list is locked here; the code only unlocks it.\<close>

definition db_findfree :: "nat \<Rightarrow> int \<Rightarrow> (int, dbs) prog" where
  "db_findfree keylen dlen =
     bnd (db_readptr FREE_OFF) (\<lambda>offset.
     bnd (gets (\<lambda>s. Suc (length (idxf s)))) (\<lambda>fuel.
     bnd (findfree_loop fuel keylen dlen FREE_OFF offset) (\<lambda>(offset, saveoffset).
     bnd (if offset = 0 then ret (-1)
          else bnd (gets ptrval) (\<lambda>pv. bnd (db_writeptr saveoffset pv) (\<lambda>_. ret 0))) (\<lambda>rc.
     bnd (gets idxfd) (\<lambda>fd.
     bnd (un_lock fd FREE_OFF SEEK_SET 1) (\<lambda>r.
     if r < 0 then err_dump ''un_lock error'' else ret rc))))))"

definition db_append :: "string \<Rightarrow> string \<Rightarrow> int \<Rightarrow> (unit, dbs) prog" where
  "db_append key data ptr =
     bnd (db_writedat data 0 SEEK_END) (\<lambda>_.
     bnd (db_writeidx False key 0 SEEK_END ptr) (\<lambda>_.
     bnd (gets (\<lambda>s. (chainoff s, idxoff s))) (\<lambda>(co, io).
     db_writeptr co io)))"

text \<open>The three ways in which \<open>db_store\<close> writes, as its comments name them.\<close>

definition store_reuse :: "string \<Rightarrow> string \<Rightarrow> int \<Rightarrow> (unit, dbs) prog" where
  "store_reuse key data ptr =
     bnd (gets datoff) (\<lambda>off.
     bnd (db_writedat data off SEEK_SET) (\<lambda>_.
     bnd (gets idxoff) (\<lambda>io.
     bnd (db_writeidx False key io SEEK_SET ptr) (\<lambda>_.
     bnd (gets (\<lambda>s. (chainoff s, idxoff s))) (\<lambda>(co, io).
     db_writeptr co io)))))"

definition store_new :: "string \<Rightarrow> string \<Rightarrow> (int, dbs) prog" where
  "store_new key data =
     bnd (gets chainoff) (\<lambda>co.
     bnd (db_readptr co) (\<lambda>ptr.
     bnd (db_findfree (length key) (int (length data) + 1)) (\<lambda>rf.
     if rf < 0
     then bnd (db_append key data ptr) (\<lambda>_.
          bnd (modify (\<lambda>s. s\<lparr>cnt_stor1 := cnt_stor1 s + 1\<rparr>)) (\<lambda>_. ret 0))
     else bnd (store_reuse key data ptr) (\<lambda>_.
          bnd (modify (\<lambda>s. s\<lparr>cnt_stor2 := cnt_stor2 s + 1\<rparr>)) (\<lambda>_. ret 0)))))"

definition store_replace :: "string \<Rightarrow> string \<Rightarrow> (int, dbs) prog" where
  "store_replace key data =
     bnd (gets datlen) (\<lambda>dl.
     if int (length data) + 1 \<noteq> dl
     then bnd db_dodelete (\<lambda>_.
          bnd (gets chainoff) (\<lambda>co.
          bnd (db_readptr co) (\<lambda>ptr.
          bnd (db_append key data ptr) (\<lambda>_.
          bnd (modify (\<lambda>s. s\<lparr>cnt_stor3 := cnt_stor3 s + 1\<rparr>)) (\<lambda>_. ret 0)))))
     else bnd (gets datoff) (\<lambda>off.
          bnd (db_writedat data off SEEK_SET) (\<lambda>_.
          bnd (modify (\<lambda>s. s\<lparr>cnt_stor4 := cnt_stor4 s + 1\<rparr>)) (\<lambda>_. ret 0))))"

definition db_store :: "string \<Rightarrow> string \<Rightarrow> int \<Rightarrow> (int, dbs) prog" where
  "db_store key data flag =
     (let dlen = int (length data) + 1 in
      if dlen < DATLEN_MIN \<or> dlen > DATLEN_MAX then err_dump ''invalid data length''
      else bnd (db_find key True) (\<lambda>r.
      bnd (if r < 0
           then (if flag AND DB_REPLACE \<noteq> 0
                 then bnd (modify (\<lambda>s. s\<lparr>cnt_storerr := cnt_storerr s + 1\<rparr>)) (\<lambda>_. ret (-1))
                 else store_new key data)
           else (if flag AND DB_INSERT \<noteq> 0
                 then bnd (modify (\<lambda>s. s\<lparr>cnt_storerr := cnt_storerr s + 1\<rparr>)) (\<lambda>_. ret 1)
                 else store_replace key data)) (\<lambda>rc.
      bnd (gets (\<lambda>s. (idxfd s, chainoff s))) (\<lambda>(fd, co).
      bnd (un_lock fd co SEEK_SET 1) (\<lambda>r.
      if r < 0 then err_dump ''un_lock error'' else ret rc)))))"

subsection \<open>Sequential access\<close>

fun nextrec_loop :: "nat \<Rightarrow> (bool, dbs) prog" where
  "nextrec_loop 0 = stop_with (Diverges ''db_nextrec'')"
| "nextrec_loop (Suc n) =
     bnd (db_readidx 0) (\<lambda>r.
     if r < 0 then ret False
     else bnd (gets idxbuf) (\<lambda>b.
     if dropWhile (\<lambda>c. c = CHR '' '') b = [] then nextrec_loop n else ret True))"

text \<open>The next record that is not deleted: its key and its data.\<close>

definition db_nextrec :: "((string \<times> string) option, dbs) prog" where
  "db_nextrec =
     bnd (gets idxfd) (\<lambda>fd.
     bnd (readw_lock fd FREE_OFF SEEK_SET 1) (\<lambda>r.
     if r < 0 then err_dump ''readw_lock error''
     else bnd (gets (\<lambda>s. Suc (length (idxf s)))) (\<lambda>fuel.
     bnd (nextrec_loop fuel) (\<lambda>found.
     bnd (if \<not> found then ret None
          else bnd (gets idxbuf) (\<lambda>key.
               bnd db_readdat (\<lambda>d.
               bnd (modify (\<lambda>s. s\<lparr>cnt_nextrec := cnt_nextrec s + 1\<rparr>)) (\<lambda>_.
               ret (Some (key, d)))))) (\<lambda>ptr.
     bnd (un_lock fd FREE_OFF SEEK_SET 1) (\<lambda>r.
     if r < 0 then err_dump ''un_lock error'' else ret ptr))))))"

end
