(* ===== verification/Db_Access.thy ===== *)
theory Db_Access
  imports Db_Model
begin

text \<open>
  The primitives of \<^verbatim>\<open>db.c\<close> that read and write the two files, as total-correctness
  lemmas: \<open>_db_readptr\<close>, \<open>_db_readidx\<close>, \<open>_db_readdat\<close>, \<open>_db_writeptr\<close>,
  \<open>_db_writeidx\<close> and \<open>_db_writedat\<close> return, and this is what they read, write and leave
  alone. The proofs about whole operations use only these lemmas.
\<close>

subsection \<open>The text of an index record\<close>

lemma length_dec_ge: "1 \<le> length (dec n)"
  using length_dec_pos[of n] by linarith

lemma strchr_SEP_fmt:
  assumes "is_cstr k" and "SEP \<notin> set k"
  shows "strchr (k @ SEP # t) SEP = Some (length k)"
  using assms by (intro strchr_found) (auto simp: SEP_def)

lemma SEP_notin_dec: "SEP \<notin> set (dec n)"
  by (auto simp: SEP_def dest!: dec_isdigit isdigit_neqs)

definition int32_ok :: "int \<Rightarrow> bool" where
  "int32_ok x \<longleftrightarrow> 0 \<le> x \<and> x < 2 ^ 31"

lemma idx_text_dec:
  assumes "int32_ok x" and "int32_ok n"
  shows "idx_text k x n = k @ [SEP] @ dec (nat x) @ [SEP] @ dec (nat n) @ [NL]"
  using assms by (simp add: idx_text_def int32_ok_def to_int32_id fmt_d_nonneg)

lemma split_idx_text:
  assumes "is_cstr k" and "SEP \<notin> set k" and "int32_ok x" and "int32_ok n"
  shows "split_idx (butlast (idx_text k x n) @ [NUL]) = Inr (k, dec (nat x), dec (nat n))"
proof -
  have b: "butlast (idx_text k x n) = k @ SEP # dec (nat x) @ SEP # dec (nat n)"
    by (simp add: idx_text_dec[OF assms(3,4)] butlast_append)
  have c: "cstr (dec (nat n) @ [NUL]) = dec (nat n)" by simp
  have 3: "strchr (dec (nat n) @ [NUL]) SEP = None"
    using SEP_notin_dec c by (intro strchr_none) simp
  have 2: "strchr (dec (nat x) @ SEP # dec (nat n) @ [NUL]) SEP = Some (length (dec (nat x)))"
    by (intro strchr_SEP_fmt) (simp_all add: SEP_notin_dec)
  have 1: "strchr (k @ SEP # dec (nat x) @ SEP # dec (nat n) @ [NUL]) SEP = Some (length k)"
    using assms by (intro strchr_SEP_fmt) simp_all
  show ?thesis by (simp add: b split_idx_def 1 2 3 c)
qed

lemma strchr_SEP_some:
  assumes "is_cstr a" and "SEP \<in> set a"
  shows "strchr (a @ b) SEP \<noteq> None"
proof -
  obtain d e where "a = d @ SEP # e" "SEP \<notin> set d" using assms(2) by (auto dest: split_list_first)
  then show ?thesis using assms(1) strchr_SEP_fmt[of d "e @ b"] by simp
qed

lemma split_idx_sep:
  assumes "is_cstr k" and "SEP \<in> set k" and "int32_ok x" and "int32_ok n"
  shows "split_idx (butlast (idx_text k x n) @ [NUL]) = Inl ''too many separators''"
proof -
  let ?z = "dec (nat x) @ SEP # dec (nat n) @ [NUL]"
  obtain a b where k: "k = a @ SEP # b" "SEP \<notin> set a" using assms(2) by (auto dest: split_list_first)
  then have c: "is_cstr a" "is_cstr b" using assms(1) by simp_all
  have z: "strchr ?z SEP \<noteq> None" using strchr_SEP_fmt[of "dec (nat x)"] by (simp add: SEP_notin_dec)
  have 1: "strchr (a @ SEP # y) SEP = Some (length a)" for y using k(2) c by (intro strchr_SEP_fmt) simp_all
  note unf = idx_text_dec[OF assms(3,4)] butlast_append split_idx_def
  show ?thesis
  proof (cases "SEP \<in> set b")
    case True
    then obtain d e where b: "b = d @ SEP # e" "SEP \<notin> set d" by (auto dest: split_list_first)
    have "strchr (d @ SEP # y) SEP = Some (length d)" for y using b c by (intro strchr_SEP_fmt) simp_all
    moreover have "strchr (e @ SEP # ?z) SEP \<noteq> None" using strchr_SEP_some[of "e @ [SEP]" ?z] b c by simp
    ultimately show ?thesis by (simp add: unf 1 k b)
  next
    case False
    then have "strchr (b @ SEP # y) SEP = Some (length b)" for y using c by (intro strchr_SEP_fmt) simp_all
    with z show ?thesis by (simp add: unf 1 k)
  qed
qed

lemma last_idx_text [simp]: "last (idx_text k x n) = NL"
  by (simp add: idx_text_def)

lemma idx_text_nonempty [simp]: "idx_text k x n \<noteq> []"
  by (simp add: idx_text_def)

lemma length_idx_text:
  assumes "int32_ok x" and "int32_ok n"
  shows "length (idx_text k x n) = length k + length (dec (nat x)) + length (dec (nat n)) + 3"
  by (simp add: idx_text_dec[OF assms])

lemma to_size_t_id: "0 \<le> x \<Longrightarrow> x < 2 ^ 31 \<Longrightarrow> to_size_t x = x"
  by (simp add: to_size_t_def uint_word_of_int)

text \<open>
  Decimal digits never contain null bytes, so a pointer field holds the number it was
  printed from.
\<close>

lemma is_cstr_pad [simp]: "is_cstr (pad w s) \<longleftrightarrow> is_cstr s"
  by (auto simp: pad_def)

lemma is_cstr_fmt [simp]: "is_cstr (fmt_d x)" "is_cstr (fmt_wd w x)" "is_cstr (fmt_w0d w x)"
  by (simp_all add: fmt_d_def fmt_wd_def fmt_w0d_def)

subsection \<open>The frame\<close>

text \<open>
  An open database nobody else is locking: both descriptors are open for reading and
  writing on two files.
\<close>

abbreviation idxp :: "dbs \<Rightarrow> string" where "idxp s \<equiv> fd_path s (idxfd s)"
abbreviation datp :: "dbs \<Rightarrow> string" where "datp s \<equiv> fd_path s (datfd s)"
abbreviation idx_locks :: "dbs \<Rightarrow> nat \<Rightarrow> lock_type option" where
  "idx_locks s \<equiv> w_locks s (idxp s)"
abbreviation dat_locks :: "dbs \<Rightarrow> nat \<Rightarrow> lock_type option" where
  "dat_locks s \<equiv> w_locks s (datp s)"

definition db_ready :: "dbs \<Rightarrow> bool" where
  "db_ready s \<longleftrightarrow> rdwr s (idxfd s) \<and> rdwr s (datfd s) \<and> idxp s \<noteq> datp s \<and>
     hashoff s = HASH_OFF \<and> 0 < nhash s \<and> unshared s (idxp s) \<and> unshared s (datp s)"

text \<open>What no operation on an open database changes.\<close>

definition same_env :: "dbs \<Rightarrow> dbs \<Rightarrow> bool" where
  "same_env s t \<longleftrightarrow> idxfd t = idxfd s \<and> datfd t = datfd s \<and> nhash t = nhash s \<and>
     hashoff t = hashoff s \<and> w_limit t = w_limit s \<and> w_others t = w_others s \<and>
     name_sz t = name_sz s \<and> w_mem t = w_mem s \<and> w_maxfd t = w_maxfd s \<and> w_denied t = w_denied s \<and>
     self_print t = self_print s \<and> fd_table t = fd_table s \<and> dom (w_files s) \<subseteq> dom (w_files t) \<and>
     (\<forall>q. q \<noteq> idxp s \<and> q \<noteq> datp s \<longrightarrow> w_files t q = w_files s q \<and> w_locks t q = w_locks s q)"

text \<open>The variables of the structure that describe the current record.\<close>

definition cur :: "dbs \<Rightarrow> string \<times> int \<times> int \<times> int \<times> int" where
  "cur s = (idxbuf s, idxoff s, datoff s, datlen s, ptrval s)"

definition offs :: "dbs \<Rightarrow> int \<times> int" where
  "offs s = (chainoff s, ptroff s)"

lemma fd_table_paths: "fd_table t = fd_table s \<Longrightarrow> fd_path t = fd_path s"
  and fd_table_rdwrs: "fd_table t = fd_table s \<Longrightarrow> rdwr t = rdwr s"
  by (simp_all only: fun_eq_iff fd_table_path fd_table_rdwr simp_thms)

lemma same_env_refl [simp]: "same_env s s"
  by (simp add: same_env_def)

lemma same_env_trans: "same_env s t \<Longrightarrow> same_env t u \<Longrightarrow> same_env s u"
  using fd_table_paths[of t s] by (simp add: same_env_def) (blast intro: subset_trans)

lemma same_env_sel:
  assumes "same_env s t"
  shows "idxfd t = idxfd s" "datfd t = datfd s" "nhash t = nhash s" "hashoff t = hashoff s"
    "w_limit t = w_limit s" "fd_path t = fd_path s" "rdwr t = rdwr s"
  using assms fd_table_paths[of t s] fd_table_rdwrs[of t s] by (simp_all add: same_env_def)

lemma same_env_own: "same_env s t \<Longrightarrow> self_print t = self_print s"
  by (simp add: same_env_def)

lemma same_env_sys:
  assumes "same_env s t"
  shows "name_sz t = name_sz s" "w_mem t = w_mem s" "w_maxfd t = w_maxfd s" "w_denied t = w_denied s"
    "dom (w_files s) \<subseteq> dom (w_files t)"
  using assms by (simp_all add: same_env_def)

lemma same_env_ready:
  assumes "same_env s t"
  shows "db_ready t = db_ready s"
  using assms fd_table_paths[of t s] fd_table_rdwrs[of t s]
  by (simp add: same_env_def db_ready_def unshared_def)

text \<open>A step that only moves file positions and fills the structure.\<close>

definition quiet :: "dbs \<Rightarrow> dbs \<Rightarrow> bool" where
  "quiet s t \<longleftrightarrow> same_env s t \<and> idxf t = idxf s \<and> datf t = datf s \<and>
     idx_locks t = idx_locks s \<and> dat_locks t = dat_locks s"

lemma quiet_refl [simp]: "quiet s s"
  by (simp add: quiet_def)

lemma quiet_trans: "quiet s t \<Longrightarrow> quiet t u \<Longrightarrow> quiet s u"
  using same_env_sel[of s t] same_env_trans[of s t u] by (simp add: quiet_def)

subsection \<open>The structure and the world are separate\<close>

text \<open>An assignment to a field of the structure is invisible to the system, and vice versa.\<close>

lemma rdwr_dbs [simp]:
  fixes s :: dbs
  shows
  "rdwr (s\<lparr>idxoff := x\<rparr>) = rdwr s" "rdwr (s\<lparr>idxlen := x\<rparr>) = rdwr s"
  "rdwr (s\<lparr>idxbuf := b\<rparr>) = rdwr s" "rdwr (s\<lparr>datoff := x\<rparr>) = rdwr s"
  "rdwr (s\<lparr>datlen := x\<rparr>) = rdwr s" "rdwr (s\<lparr>ptrval := x\<rparr>) = rdwr s"
  "rdwr (s\<lparr>datbuf := b\<rparr>) = rdwr s" "rdwr (s\<lparr>chainoff := x\<rparr>) = rdwr s"
  "rdwr (s\<lparr>ptroff := x\<rparr>) = rdwr s" "rdwr (s\<lparr>cnt_delok := x\<rparr>) = rdwr s"
  "rdwr (s\<lparr>cnt_delerr := x\<rparr>) = rdwr s" "rdwr (s\<lparr>cnt_fetchok := x\<rparr>) = rdwr s"
  "rdwr (s\<lparr>cnt_fetcherr := x\<rparr>) = rdwr s"
  "rdwr (s\<lparr>cnt_nextrec := x\<rparr>) = rdwr s" "rdwr (s\<lparr>cnt_stor1 := x\<rparr>) = rdwr s"
  "rdwr (s\<lparr>cnt_stor2 := x\<rparr>) = rdwr s" "rdwr (s\<lparr>cnt_stor3 := x\<rparr>) = rdwr s"
  "rdwr (s\<lparr>cnt_stor4 := x\<rparr>) = rdwr s" "rdwr (s\<lparr>cnt_storerr := x\<rparr>) = rdwr s"
  by (simp_all add: rdwr_def fun_eq_iff)

lemma fd_path_dbs [simp]:
  fixes s :: dbs
  shows
  "fd_path (s\<lparr>idxoff := x\<rparr>) = fd_path s"
  "fd_path (s\<lparr>idxlen := x\<rparr>) = fd_path s"
  "fd_path (s\<lparr>idxbuf := b\<rparr>) = fd_path s"
  "fd_path (s\<lparr>datoff := x\<rparr>) = fd_path s"
  "fd_path (s\<lparr>datlen := x\<rparr>) = fd_path s"
  "fd_path (s\<lparr>ptrval := x\<rparr>) = fd_path s"
  "fd_path (s\<lparr>datbuf := b\<rparr>) = fd_path s"
  "fd_path (s\<lparr>chainoff := x\<rparr>) = fd_path s"
  "fd_path (s\<lparr>ptroff := x\<rparr>) = fd_path s"
  "fd_path (s\<lparr>cnt_delok := x\<rparr>) = fd_path s"
  "fd_path (s\<lparr>cnt_delerr := x\<rparr>) = fd_path s"
  "fd_path (s\<lparr>cnt_fetchok := x\<rparr>) = fd_path s"
  "fd_path (s\<lparr>cnt_fetcherr := x\<rparr>) = fd_path s"
  "fd_path (s\<lparr>cnt_nextrec := x\<rparr>) = fd_path s"
  "fd_path (s\<lparr>cnt_stor1 := x\<rparr>) = fd_path s"
  "fd_path (s\<lparr>cnt_stor2 := x\<rparr>) = fd_path s"
  "fd_path (s\<lparr>cnt_stor3 := x\<rparr>) = fd_path s"
  "fd_path (s\<lparr>cnt_stor4 := x\<rparr>) = fd_path s"
  "fd_path (s\<lparr>cnt_storerr := x\<rparr>) = fd_path s"
  by (simp_all add: fd_path_def fun_eq_iff)

lemma fd_bytes_dbs [simp]:
  fixes s :: dbs
  shows
  "fd_bytes (s\<lparr>idxoff := x\<rparr>) = fd_bytes s"
  "fd_bytes (s\<lparr>idxlen := x\<rparr>) = fd_bytes s"
  "fd_bytes (s\<lparr>idxbuf := b\<rparr>) = fd_bytes s"
  "fd_bytes (s\<lparr>datoff := x\<rparr>) = fd_bytes s"
  "fd_bytes (s\<lparr>datlen := x\<rparr>) = fd_bytes s"
  "fd_bytes (s\<lparr>ptrval := x\<rparr>) = fd_bytes s"
  "fd_bytes (s\<lparr>datbuf := b\<rparr>) = fd_bytes s"
  "fd_bytes (s\<lparr>chainoff := x\<rparr>) = fd_bytes s"
  "fd_bytes (s\<lparr>ptroff := x\<rparr>) = fd_bytes s"
  "fd_bytes (s\<lparr>cnt_delok := x\<rparr>) = fd_bytes s"
  "fd_bytes (s\<lparr>cnt_delerr := x\<rparr>) = fd_bytes s"
  "fd_bytes (s\<lparr>cnt_fetchok := x\<rparr>) = fd_bytes s"
  "fd_bytes (s\<lparr>cnt_fetcherr := x\<rparr>) = fd_bytes s"
  "fd_bytes (s\<lparr>cnt_nextrec := x\<rparr>) = fd_bytes s"
  "fd_bytes (s\<lparr>cnt_stor1 := x\<rparr>) = fd_bytes s"
  "fd_bytes (s\<lparr>cnt_stor2 := x\<rparr>) = fd_bytes s"
  "fd_bytes (s\<lparr>cnt_stor3 := x\<rparr>) = fd_bytes s"
  "fd_bytes (s\<lparr>cnt_stor4 := x\<rparr>) = fd_bytes s"
  "fd_bytes (s\<lparr>cnt_storerr := x\<rparr>) = fd_bytes s"
  by (simp_all add: fd_bytes_def fd_path_def file_bytes_def fun_eq_iff)

lemma fd_pos_dbs [simp]:
  fixes s :: dbs
  shows
  "fd_pos (s\<lparr>idxoff := x\<rparr>) = fd_pos s" "fd_pos (s\<lparr>idxlen := x\<rparr>) = fd_pos s"
  "fd_pos (s\<lparr>idxbuf := b\<rparr>) = fd_pos s" "fd_pos (s\<lparr>datoff := x\<rparr>) = fd_pos s"
  "fd_pos (s\<lparr>datlen := x\<rparr>) = fd_pos s" "fd_pos (s\<lparr>ptrval := x\<rparr>) = fd_pos s"
  "fd_pos (s\<lparr>datbuf := b\<rparr>) = fd_pos s"
  "fd_pos (s\<lparr>chainoff := x\<rparr>) = fd_pos s"
  "fd_pos (s\<lparr>ptroff := x\<rparr>) = fd_pos s"
  "fd_pos (s\<lparr>cnt_delok := x\<rparr>) = fd_pos s"
  "fd_pos (s\<lparr>cnt_delerr := x\<rparr>) = fd_pos s"
  "fd_pos (s\<lparr>cnt_fetchok := x\<rparr>) = fd_pos s"
  "fd_pos (s\<lparr>cnt_fetcherr := x\<rparr>) = fd_pos s"
  "fd_pos (s\<lparr>cnt_nextrec := x\<rparr>) = fd_pos s"
  "fd_pos (s\<lparr>cnt_stor1 := x\<rparr>) = fd_pos s"
  "fd_pos (s\<lparr>cnt_stor2 := x\<rparr>) = fd_pos s"
  "fd_pos (s\<lparr>cnt_stor3 := x\<rparr>) = fd_pos s"
  "fd_pos (s\<lparr>cnt_stor4 := x\<rparr>) = fd_pos s"
  "fd_pos (s\<lparr>cnt_storerr := x\<rparr>) = fd_pos s"
  by (simp_all add: fd_pos_def fun_eq_iff)

lemma fd_table_dbs [simp]:
  fixes s :: dbs
  shows
  "fd_table (s\<lparr>idxoff := x\<rparr>) = fd_table s"
  "fd_table (s\<lparr>idxlen := x\<rparr>) = fd_table s"
  "fd_table (s\<lparr>idxbuf := b\<rparr>) = fd_table s"
  "fd_table (s\<lparr>datoff := x\<rparr>) = fd_table s"
  "fd_table (s\<lparr>datlen := x\<rparr>) = fd_table s"
  "fd_table (s\<lparr>ptrval := x\<rparr>) = fd_table s"
  "fd_table (s\<lparr>datbuf := b\<rparr>) = fd_table s"
  "fd_table (s\<lparr>chainoff := x\<rparr>) = fd_table s"
  "fd_table (s\<lparr>ptroff := x\<rparr>) = fd_table s"
  "fd_table (s\<lparr>cnt_delok := x\<rparr>) = fd_table s"
  "fd_table (s\<lparr>cnt_delerr := x\<rparr>) = fd_table s"
  "fd_table (s\<lparr>cnt_fetchok := x\<rparr>) = fd_table s"
  "fd_table (s\<lparr>cnt_fetcherr := x\<rparr>) = fd_table s"
  "fd_table (s\<lparr>cnt_nextrec := x\<rparr>) = fd_table s"
  "fd_table (s\<lparr>cnt_stor1 := x\<rparr>) = fd_table s"
  "fd_table (s\<lparr>cnt_stor2 := x\<rparr>) = fd_table s"
  "fd_table (s\<lparr>cnt_stor3 := x\<rparr>) = fd_table s"
  "fd_table (s\<lparr>cnt_stor4 := x\<rparr>) = fd_table s"
  "fd_table (s\<lparr>cnt_storerr := x\<rparr>) = fd_table s"
  by (simp_all add: fd_table_def fun_eq_iff)

lemma unshared_dbs [simp]:
  fixes s :: dbs
  shows
  "unshared (s\<lparr>idxoff := x\<rparr>) = unshared s"
  "unshared (s\<lparr>idxlen := x\<rparr>) = unshared s"
  "unshared (s\<lparr>idxbuf := b\<rparr>) = unshared s"
  "unshared (s\<lparr>datoff := x\<rparr>) = unshared s"
  "unshared (s\<lparr>datlen := x\<rparr>) = unshared s"
  "unshared (s\<lparr>ptrval := x\<rparr>) = unshared s"
  "unshared (s\<lparr>datbuf := b\<rparr>) = unshared s"
  "unshared (s\<lparr>chainoff := x\<rparr>) = unshared s"
  "unshared (s\<lparr>ptroff := x\<rparr>) = unshared s"
  "unshared (s\<lparr>cnt_delok := x\<rparr>) = unshared s"
  "unshared (s\<lparr>cnt_delerr := x\<rparr>) = unshared s"
  "unshared (s\<lparr>cnt_fetchok := x\<rparr>) = unshared s"
  "unshared (s\<lparr>cnt_fetcherr := x\<rparr>) = unshared s"
  "unshared (s\<lparr>cnt_nextrec := x\<rparr>) = unshared s"
  "unshared (s\<lparr>cnt_stor1 := x\<rparr>) = unshared s"
  "unshared (s\<lparr>cnt_stor2 := x\<rparr>) = unshared s"
  "unshared (s\<lparr>cnt_stor3 := x\<rparr>) = unshared s"
  "unshared (s\<lparr>cnt_stor4 := x\<rparr>) = unshared s"
  "unshared (s\<lparr>cnt_storerr := x\<rparr>) = unshared s"
  by (simp_all add: unshared_def fun_eq_iff)

lemma set_pos_dbs [simp]:
  fixes s :: dbs
  shows
  "name_sz (set_pos fd p s) = name_sz s" "self_print (set_pos fd p s) = self_print s"
  "idxfd (set_pos fd p s) = idxfd s" "datfd (set_pos fd p s) = datfd s"
  "nhash (set_pos fd p s) = nhash s" "hashoff (set_pos fd p s) = hashoff s"
  "idxoff (set_pos fd p s) = idxoff s" "idxlen (set_pos fd p s) = idxlen s"
  "idxbuf (set_pos fd p s) = idxbuf s" "datoff (set_pos fd p s) = datoff s"
  "datlen (set_pos fd p s) = datlen s" "ptrval (set_pos fd p s) = ptrval s"
  "datbuf (set_pos fd p s) = datbuf s" "chainoff (set_pos fd p s) = chainoff s"
  "ptroff (set_pos fd p s) = ptroff s" "cnt_delok (set_pos fd p s) = cnt_delok s"
  "cnt_delerr (set_pos fd p s) = cnt_delerr s" "cnt_fetchok (set_pos fd p s) = cnt_fetchok s"
  "cnt_fetcherr (set_pos fd p s) = cnt_fetcherr s" "cnt_nextrec (set_pos fd p s) = cnt_nextrec s"
  "cnt_stor1 (set_pos fd p s) = cnt_stor1 s" "cnt_stor2 (set_pos fd p s) = cnt_stor2 s"
  "cnt_stor3 (set_pos fd p s) = cnt_stor3 s" "cnt_stor4 (set_pos fd p s) = cnt_stor4 s"
  "cnt_storerr (set_pos fd p s) = cnt_storerr s"
  by (simp_all add: set_pos_def)

lemma set_bytes_dbs [simp]:
  fixes s :: dbs
  shows
  "name_sz (set_bytes q c s) = name_sz s" "self_print (set_bytes q c s) = self_print s"
  "idxfd (set_bytes q c s) = idxfd s" "datfd (set_bytes q c s) = datfd s"
  "nhash (set_bytes q c s) = nhash s" "hashoff (set_bytes q c s) = hashoff s"
  "idxoff (set_bytes q c s) = idxoff s" "idxlen (set_bytes q c s) = idxlen s"
  "idxbuf (set_bytes q c s) = idxbuf s" "datoff (set_bytes q c s) = datoff s"
  "datlen (set_bytes q c s) = datlen s" "ptrval (set_bytes q c s) = ptrval s"
  "datbuf (set_bytes q c s) = datbuf s" "chainoff (set_bytes q c s) = chainoff s"
  "ptroff (set_bytes q c s) = ptroff s" "cnt_delok (set_bytes q c s) = cnt_delok s"
  "cnt_delerr (set_bytes q c s) = cnt_delerr s" "cnt_fetchok (set_bytes q c s) = cnt_fetchok s"
  "cnt_fetcherr (set_bytes q c s) = cnt_fetcherr s" "cnt_nextrec (set_bytes q c s) = cnt_nextrec s"
  "cnt_stor1 (set_bytes q c s) = cnt_stor1 s" "cnt_stor2 (set_bytes q c s) = cnt_stor2 s"
  "cnt_stor3 (set_bytes q c s) = cnt_stor3 s" "cnt_stor4 (set_bytes q c s) = cnt_stor4 s"
  "cnt_storerr (set_bytes q c s) = cnt_storerr s"
  by (simp_all add: set_bytes_def)

lemma set_lock_dbs [simp]:
  fixes s :: dbs
  shows
  "name_sz (set_lock q l b n s) = name_sz s" "self_print (set_lock q l b n s) = self_print s"
  "idxfd (set_lock q l b n s) = idxfd s" "datfd (set_lock q l b n s) = datfd s"
  "nhash (set_lock q l b n s) = nhash s" "hashoff (set_lock q l b n s) = hashoff s"
  "idxoff (set_lock q l b n s) = idxoff s" "idxlen (set_lock q l b n s) = idxlen s"
  "idxbuf (set_lock q l b n s) = idxbuf s" "datoff (set_lock q l b n s) = datoff s"
  "datlen (set_lock q l b n s) = datlen s" "ptrval (set_lock q l b n s) = ptrval s"
  "datbuf (set_lock q l b n s) = datbuf s" "chainoff (set_lock q l b n s) = chainoff s"
  "ptroff (set_lock q l b n s) = ptroff s" "cnt_delok (set_lock q l b n s) = cnt_delok s"
  "cnt_delerr (set_lock q l b n s) = cnt_delerr s" "cnt_fetchok (set_lock q l b n s) = cnt_fetchok s"
  "cnt_fetcherr (set_lock q l b n s) = cnt_fetcherr s"
  "cnt_nextrec (set_lock q l b n s) = cnt_nextrec s" "cnt_stor1 (set_lock q l b n s) = cnt_stor1 s"
  "cnt_stor2 (set_lock q l b n s) = cnt_stor2 s" "cnt_stor3 (set_lock q l b n s) = cnt_stor3 s"
  "cnt_stor4 (set_lock q l b n s) = cnt_stor4 s" "cnt_storerr (set_lock q l b n s) = cnt_storerr s"
  by (simp_all add: set_lock_def)

subsection \<open>Reading\<close>

definition ptr_at :: "string \<Rightarrow> nat \<Rightarrow> nat" where
  "ptr_at f p = nat (atol (cstr (slice f p PTR_SZ)))"

lemma readptr_runs:
  assumes "db_ready s" and "p + PTR_SZ \<le> length (idxf s)"
  shows "runs (db_readptr (int p)) s
    (\<lambda>r t. r = atol (cstr (slice (idxf s) p PTR_SZ)) \<and> quiet s t \<and> cur t = cur s \<and> offs t = offs s)"
  using assms
  by (simp add: db_readptr_def db_ready_def wp quiet_def same_env_def cur_def offs_def)

text \<open>
  An index record: the key and where the data is. Its bytes on the file are the chain
  pointer, the length and the text.
\<close>

record irec =
  r_key :: string
  r_off :: nat
  r_len :: nat

definition rec_text :: "irec \<Rightarrow> string" where
  "rec_text r = idx_text (r_key r) (int (r_off r)) (int (r_len r))"

definition rec_ok :: "irec \<Rightarrow> bool" where
  "rec_ok r \<longleftrightarrow> is_cstr (r_key r) \<and> SEP \<notin> set (r_key r) \<and> r_off r < 2 ^ 31 \<and>
     2 \<le> r_len r \<and> r_len r \<le> 1024 \<and> 6 \<le> length (rec_text r) \<and> length (rec_text r) \<le> 1024"

definition rec_body :: "irec \<Rightarrow> string" where
  "rec_body r = fmt_wd IDXLEN_SZ (int (length (rec_text r))) @ rec_text r"

definition rec_size :: "irec \<Rightarrow> nat" where
  "rec_size r = PTR_SZ + length (rec_body r)"

definition entry_at :: "string \<Rightarrow> nat \<Rightarrow> irec \<Rightarrow> bool" where
  "entry_at f p r \<longleftrightarrow> p + rec_size r \<le> length f \<and>
     slice f (p + PTR_SZ) (length (rec_body r)) = rec_body r"

lemma rec_ok_int32: "rec_ok r \<Longrightarrow> int32_ok (int (r_off r)) \<and> int32_ok (int (r_len r))"
  by (auto simp: rec_ok_def int32_ok_def)

lemma length_rec_body: "rec_ok r \<Longrightarrow> length (rec_body r) = IDXLEN_SZ + length (rec_text r)"
  using length_fmt_wd[of "int (length (rec_text r))" IDXLEN_SZ]
  by (simp add: rec_body_def rec_ok_def db_consts)

lemma rec_size_eq: "rec_ok r \<Longrightarrow> rec_size r = 10 + length (rec_text r)"
  by (simp add: rec_size_def length_rec_body db_consts)

lemma entry_at_parts:
  assumes "entry_at f p r" and "rec_ok r"
  shows "slice f (p + PTR_SZ) IDXLEN_SZ = fmt_wd IDXLEN_SZ (int (length (rec_text r)))"
    and "slice f (p + PTR_SZ + IDXLEN_SZ) (length (rec_text r)) = rec_text r"
proof -
  let ?l = "fmt_wd IDXLEN_SZ (int (length (rec_text r)))"
  have n: "length ?l = IDXLEN_SZ"
    using length_rec_body[OF assms(2)] by (simp add: rec_body_def)
  from assms(1) have b: "slice f (p + PTR_SZ) (length (rec_body r)) = ?l @ rec_text r"
    by (simp add: entry_at_def rec_body_def)
  have "slice (slice f (p + PTR_SZ) (length (rec_body r))) 0 IDXLEN_SZ = slice f (p + PTR_SZ) IDXLEN_SZ"
    by (subst slice_slice) (simp_all add: length_rec_body[OF assms(2)])
  with b n show "slice f (p + PTR_SZ) IDXLEN_SZ = ?l" by (simp add: slice_def)
  have "slice (slice f (p + PTR_SZ) (length (rec_body r))) IDXLEN_SZ (length (rec_text r)) =
      slice f (p + PTR_SZ + IDXLEN_SZ) (length (rec_text r))"
    by (subst slice_slice) (simp_all add: length_rec_body[OF assms(2)])
  with b n show "slice f (p + PTR_SZ + IDXLEN_SZ) (length (rec_text r)) = rec_text r"
    by (simp add: slice_def)
qed

text \<open>
  \<open>_db_readidx\<close> on a well-formed record, at a given offset or (offset 0) at the current
  position of the file.
\<close>

lemma readidx_runs:
  assumes rdy: "db_ready s" and e: "entry_at (idxf s) p r" and ok: "rec_ok r"
    and at: "x = int p \<and> 0 < p \<or> x = 0 \<and> fd_pos s (idxfd s) = p"
  shows "runs (db_readidx x) s (\<lambda>v t. v = atol (cstr (slice (idxf s) p PTR_SZ)) \<and>
    quiet s t \<and> offs t = offs s \<and> fd_pos t (idxfd t) = p + rec_size r \<and>
    cur t = (r_key r, int p, int (r_off r), int (r_len r), v))"
proof -
  let ?n = "length (rec_text r)"
  have fd: "rdwr s (idxfd s)" using rdy by (simp add: db_ready_def)
  have size: "p + 10 + ?n \<le> length (idxf s)"
    using e rec_size_eq[OF ok] by (simp add: entry_at_def)
  have seek: "seek_base (idxfd s) (if x = 0 then SEEK_CUR else SEEK_SET) s + x = int p"
    using at by auto
  have h: "slice (idxf s) p (PTR_SZ + IDXLEN_SZ) =
      slice (idxf s) p PTR_SZ @ fmt_wd IDXLEN_SZ (int ?n)"
    using entry_at_parts(1)[OF e ok] by (simp add: slice_take_drop)
  have l6: "length (slice (idxf s) p PTR_SZ) = PTR_SZ" using size by (simp add: db_consts)
  have l10: "length (slice (idxf s) p (PTR_SZ + IDXLEN_SZ)) = PTR_SZ + IDXLEN_SZ"
    using size by (simp add: db_consts)
  have b: "slice (idxf s) (p + (PTR_SZ + IDXLEN_SZ)) ?n = rec_text r"
    using entry_at_parts(2)[OF e ok] by (simp add: add.assoc)
  have n: "to_size_t (int ?n) = int ?n" "6 \<le> ?n" "?n \<le> 1024"
    using ok by (simp_all add: rec_ok_def to_size_t_id)
  have sp: "split_idx (butlast (rec_text r) @ [NUL]) = Inr (r_key r, dec (r_off r), dec (r_len r))"
    using ok rec_ok_int32[OF ok] by (simp add: rec_text_def split_idx_text rec_ok_def)
  have len: "to_size_t (int (r_len r)) = int (r_len r)" "2 \<le> r_len r" "r_len r \<le> 1024"
    using ok by (simp_all add: rec_ok_def to_size_t_id)
  have lst: "last (rec_text r) = NL" by (simp add: rec_text_def)
  show ?thesis
    using fd seek l6 l10 n len
    by (simp add: db_readidx_def wp h[simplified] b sp lst quiet_def same_env_def cur_def offs_def
        rec_size_def length_rec_body[OF ok] IDXLEN_MIN_def IDXLEN_MAX_def DATLEN_MAX_def)
qed

lemma readdat_runs:
  assumes rdy: "db_ready s" and at: "datoff s = int a" "datlen s = int (length d) + 1"
    and d: "slice (datf s) a (length d + 1) = d @ [NL]" "is_cstr d"
  shows "runs db_readdat s (\<lambda>v t. v = d \<and> quiet s t \<and> offs t = offs s \<and> cur t = cur s \<and>
    fd_pos t (idxfd t) = fd_pos s (idxfd s))"
proof -
  have fd: "rdwr s (datfd s)" and ne: "datfd s \<noteq> idxfd s"
    using rdy by (auto simp: db_ready_def)
  have n: "nat (int (length d) + 1) = length d + 1" by simp
  show ?thesis
    using fd ne d
    by (simp add: db_readdat_def wp at n[simplified] quiet_def same_env_def cur_def offs_def)
qed

subsection \<open>Writing\<close>

text \<open>The contents and the locks of the two files after a step.\<close>

definition became :: "dbs \<Rightarrow> string \<Rightarrow> string \<Rightarrow> (nat \<Rightarrow> lock_type option) \<Rightarrow>
    (nat \<Rightarrow> lock_type option) \<Rightarrow> dbs \<Rightarrow> bool" where
  "became s f g L M t \<longleftrightarrow> same_env s t \<and> idxf t = f \<and> datf t = g \<and>
     idx_locks t = L \<and> dat_locks t = M"

lemma quiet_became: "quiet s t = became s (idxf s) (datf s) (idx_locks s) (dat_locks s) t"
  by (simp add: quiet_def became_def)

lemma writeptr_runs:
  assumes rdy: "db_ready s" and p: "p + PTR_SZ \<le> w_limit s" and v: "int v \<le> PTR_MAX"
  shows "runs (db_writeptr (int p) (int v)) s (\<lambda>_ t. cur t = cur s \<and> offs t = offs s \<and>
    became s (overwrite (idxf s) p (fmt_wd PTR_SZ (int v))) (datf s) (idx_locks s) (dat_locks s) t)"
proof -
  have i: "to_int32 (int v) = int v" using v by (intro to_int32_id) (simp_all add: PTR_MAX_def)
  have l: "length (fmt_wd PTR_SZ (int v)) = PTR_SZ"
    using v by (intro length_fmt_wd) (simp_all add: db_consts)
  show ?thesis
    using rdy p v
    by (auto simp: db_writeptr_def db_ready_def wp i l became_def same_env_def cur_def offs_def)
qed

lemma set_lock_at:
  "w_locks (set_lock q l b n s) q' =
     (if q' = q then (\<lambda>x. if in_region b n x then (if l = F_UNLCK then None else Some l)
                       else w_locks s q x) else w_locks s q')"
  by (simp add: set_lock_def)

lemma in_region_simps [simp]:
  "in_region b (Suc 0) x \<longleftrightarrow> x = b"
  "in_region 0 0 x"
  "in_region b 0 x \<longleftrightarrow> b \<le> x"
  by (auto simp: in_region_def)

lemma unshared_sel [simp]:
  "unshared (set_pos fd p w) = unshared w"
  "unshared (set_bytes q c w) = unshared w"
  "unshared (set_lock q l b n w) = unshared w"
  by (simp_all add: unshared_def fun_eq_iff)

lemma writedat_runs:
  assumes rdy: "db_ready s" and lim: "a + length d + 1 \<le> w_limit s"
    and at: "wh = SEEK_SET \<and> off = int a \<or> wh = SEEK_END \<and> off = 0 \<and> a = length (datf s)"
  shows "runs (db_writedat d off wh) s (\<lambda>_ t. offs t = offs s \<and>
    cur t = (idxbuf s, idxoff s, int a, int (length d) + 1, ptrval s) \<and>
    became s (idxf s) (overwrite (datf s) a (d @ [NL])) (idx_locks s)
      (if wh = SEEK_END then (\<lambda>_. None) else dat_locks s) t)"
  using rdy lim at
  by (auto simp: db_writedat_def db_ready_def wp became_def same_env_def cur_def offs_def
      set_lock_at fun_eq_iff)

lemma writeidx_runs:
  assumes rdy: "db_ready s" and ok: "rec_ok r" and v: "int v \<le> PTR_MAX"
    and cur: "datoff s = int (r_off r)" "datlen s = int (r_len r)"
    and lim: "p + rec_size r \<le> w_limit s"
    and at: "wh = SEEK_SET \<and> off = int p \<or> wh = SEEK_END \<and> off = 0 \<and> p = length (idxf s)"
    and own: "own \<longrightarrow> self_print s"
  shows "runs (db_writeidx own (r_key r) off wh (int v)) s (\<lambda>_ t. offs t = offs s \<and>
    idxoff t = int p \<and>
    became s (overwrite (idxf s) p (fmt_w0d PTR_SZ (int v) @ rec_body r)) (datf s)
      (if wh = SEEK_END then (\<lambda>b. if (nhash s + 1) * PTR_SZ + 1 \<le> b then None else idx_locks s b)
       else idx_locks s) (dat_locks s) t)"
proof -
  let ?n = "length (rec_text r)"
  have i: "to_int32 (int v) = int v" using v by (intro to_int32_id) (simp_all add: PTR_MAX_def)
  have l: "length (fmt_w0d PTR_SZ (int v)) = PTR_SZ"
    using v by (intro length_fmt_w0d) (simp_all add: db_consts)
  have n: "length (fmt_wd IDXLEN_SZ (int ?n)) = IDXLEN_SZ"
    using length_rec_body[OF ok] by (simp add: rec_body_def)
  have t: "idx_text (r_key r) (datoff s) (datlen s) = rec_text r"
    by (simp add: cur rec_text_def)
  have k: "6 \<le> ?n" "?n \<le> 1024" using ok by (simp_all add: rec_ok_def)
  have hdr: "nat ((int (nhash s) + 1) * int PTR_SZ + 1) = Suc (PTR_SZ + nhash s * PTR_SZ)"
    by (simp add: db_consts)
  have lim': "p + PTR_SZ + IDXLEN_SZ + ?n \<le> w_limit s"
    using lim by (simp add: rec_size_def length_rec_body[OF ok])
  show ?thesis
    using rdy v at k lim' own
    by (auto simp: db_writeidx_def db_ready_def wp i l n t Let_def became_def same_env_def
        offs_def set_lock_at fun_eq_iff rec_body_def IDXLEN_MIN_def IDXLEN_MAX_def hdr)
qed

end
