(* ===== verification/Db_Inv.thy ===== *)
theory Db_Inv
  imports Db_Access
begin

text \<open>
  The representation invariant of a database and the four ways the code changes it.

  The index records tile the index file from the end of the hash table to the end of the
  file, and every record is on exactly one chain: number 0 is the free list, number
  \<open>h + 1\<close> the chain of hash value \<open>h\<close>; chain \<open>i\<close> starts from the pointer field at
  offset \<open>6 * i\<close>. Between two writes a record may be on no chain (the set \<open>U\<close>). The
  functions of \<^verbatim>\<open>db.c\<close> are compositions of: unlink a record, rewrite an unlinked record,
  append an unlinked record, push an unlinked record on a chain.
\<close>

subsection \<open>Tilings\<close>

fun tiles :: "(nat \<Rightarrow> nat) \<Rightarrow> nat \<Rightarrow> nat list \<Rightarrow> nat \<Rightarrow> bool" where
  "tiles sz p [] e \<longleftrightarrow> p = e"
| "tiles sz p (q # qs) e \<longleftrightarrow> q = p \<and> tiles sz (p + sz p) qs e"

lemma tiles_le: "tiles sz p qs e \<Longrightarrow> p \<le> e"
  by (induction qs arbitrary: p) (auto intro: le_trans[OF le_add1])

lemma tiles_bounds: "tiles sz p qs e \<Longrightarrow> q \<in> set qs \<Longrightarrow> p \<le> q \<and> q + sz q \<le> e"
proof (induction qs arbitrary: p)
  case Nil
  then show ?case by simp
next
  case (Cons a qs)
  then show ?case using tiles_le[of sz "p + sz p" qs e] by fastforce
qed

lemma tiles_disjoint:
  "tiles sz p qs e \<Longrightarrow> q \<in> set qs \<Longrightarrow> q' \<in> set qs \<Longrightarrow> q \<noteq> q' \<Longrightarrow>
   q + sz q \<le> q' \<or> q' + sz q' \<le> q"
proof (induction qs arbitrary: p)
  case Nil
  then show ?case by simp
next
  case (Cons a qs)
  then show ?case using tiles_bounds[of sz "p + sz p" qs e] by fastforce
qed

lemma tiles_cong: "(\<And>q. q \<in> set qs \<Longrightarrow> sz q = sz' q) \<Longrightarrow> tiles sz p qs e = tiles sz' p qs e"
  by (induction qs arbitrary: p) auto

lemma tiles_append: "tiles sz p qs e \<Longrightarrow> tiles sz p (qs @ [e]) (e + sz e)"
  by (induction qs arbitrary: p) auto

lemma tiles_split:
  "tiles sz p (as @ bs) e \<Longrightarrow> \<exists>q. tiles sz p as q \<and> tiles sz q bs e"
  by (induction as arbitrary: p) auto

subsection \<open>Pointer fields\<close>

definition hdr :: "nat \<Rightarrow> nat" where
  "hdr n = (n + 1) * PTR_SZ + 1"

definition fld :: "string \<Rightarrow> nat \<Rightarrow> int" where
  "fld f p = atol (cstr (slice f p PTR_SZ))"

lemma ptr_at_fld: "ptr_at f p = nat (fld f p)"
  by (simp add: ptr_at_def fld_def)

definition head :: "nat \<Rightarrow> nat" where
  "head i = PTR_SZ * i"

lemma head_inj [simp]: "head i = head j \<longleftrightarrow> i = j"
  by (simp add: head_def db_consts)

lemma head_hdr: "i \<le> n \<Longrightarrow> head i + PTR_SZ < hdr n"
  by (simp add: head_def hdr_def db_consts)

lemma head_apart: "i \<noteq> j \<Longrightarrow> head i + PTR_SZ \<le> head j \<or> head j + PTR_SZ \<le> head i"
  by (simp add: head_def db_consts) linarith

definition blank :: "string \<Rightarrow> bool" where
  "blank k \<longleftrightarrow> (\<forall>c\<in>set k. c = CHR '' '')"

subsection \<open>Records on chains\<close>

abbreviation fields :: "nat \<Rightarrow> nat list \<Rightarrow> nat set" where
  "fields n os \<equiv> head ` {..n} \<union> set os"

abbreviation members :: "nat \<Rightarrow> (nat \<Rightarrow> nat list) \<Rightarrow> nat set" where
  "members n cs \<equiv> (\<Union>i\<le>n. set (cs i))"

text \<open>Every record of \<open>os\<close> is on exactly one of the chains \<open>0 \<dots> n\<close>, or in \<open>U\<close>.\<close>

definition linked :: "nat \<Rightarrow> (nat \<Rightarrow> nat) \<Rightarrow> nat list \<Rightarrow> (nat \<Rightarrow> nat list) \<Rightarrow> nat set \<Rightarrow> bool" where
  "linked n nxt os cs U \<longleftrightarrow>
     (\<forall>i\<le>n. head i \<notin> set os \<and> chain nxt (head i) (cs i) \<and> distinct (cs i)) \<and>
     (\<forall>i\<le>n. \<forall>j\<le>n. i \<noteq> j \<longrightarrow> set (cs i) \<inter> set (cs j) = {}) \<and>
     U \<inter> members n cs = {} \<and> U \<union> members n cs = set os"

lemma linkedI:
  assumes "\<And>i. i \<le> n \<Longrightarrow> head i \<notin> set os" and "\<And>i. i \<le> n \<Longrightarrow> chain nxt (head i) (cs i)"
    and "\<And>i. i \<le> n \<Longrightarrow> distinct (cs i)"
    and "\<And>i j. i \<le> n \<Longrightarrow> j \<le> n \<Longrightarrow> i \<noteq> j \<Longrightarrow> set (cs i) \<inter> set (cs j) = {}"
    and "U \<inter> members n cs = {}" and "U \<union> members n cs = set os"
  shows "linked n nxt os cs U"
  using assms by (simp add: linked_def)

lemma linkedD:
  assumes "linked n nxt os cs U"
  shows "i \<le> n \<Longrightarrow> head i \<notin> set os" and "i \<le> n \<Longrightarrow> chain nxt (head i) (cs i)"
    and "i \<le> n \<Longrightarrow> distinct (cs i)" and "i \<le> n \<Longrightarrow> set (cs i) \<subseteq> set os"
    and "i \<le> n \<Longrightarrow> j \<le> n \<Longrightarrow> i \<noteq> j \<Longrightarrow> set (cs i) \<inter> set (cs j) = {}"
    and "U \<inter> members n cs = {}" and "U \<union> members n cs = set os" and "U \<subseteq> set os"
  using assms by (auto simp: linked_def)

lemma members_split: "i \<le> n \<Longrightarrow> members n cs = set (cs i) \<union> (\<Union>j\<in>{..n} - {i}. set (cs j))"
  and members_upd: "i \<le> n \<Longrightarrow> members n (cs(i := xs)) = set xs \<union> (\<Union>j\<in>{..n} - {i}. set (cs j))"
  by (auto split: if_splits)

lemma linked_cong:
  assumes "\<And>x. x \<in> fields n os \<Longrightarrow> nxt' x = nxt x"
  shows "linked n nxt' os cs U = linked n nxt os cs U"
proof -
  have "chain nxt' (head i) (cs i) = chain nxt (head i) (cs i)"
    if "i \<le> n" "set (cs i) \<subseteq> set os" for i
    using that assms by (intro chain_cong) auto
  moreover have "set (cs i) \<subseteq> set os" if "i \<le> n" "U \<union> members n cs = set os" for i
    using that by auto
  ultimately show ?thesis unfolding linked_def by meson
qed

lemma linked_set:
  assumes "linked n nxt os cs U" and "p \<in> U"
  shows "linked n (nxt(p := v)) os cs U"
proof -
  have "chain (nxt(p := v)) (head i) (cs i)" if "i \<le> n" for i
    using linkedD[OF assms(1)] assms(2) that by (subst chain_upd_other) auto
  with linkedD[OF assms(1)] show ?thesis by (intro linkedI)
qed

lemma linked_new:
  assumes "linked n nxt os cs U" and "p \<notin> set os" and "p \<notin> head ` {..n}"
  shows "linked n nxt (os @ [p]) cs (insert p U)"
  using linkedD[OF assms(1)] assms(2,3) by (intro linkedI) auto

lemma linked_push:
  assumes L: "linked n nxt os cs U" and p: "p \<in> U" and i: "i \<le> n" and "nxt p = nxt (head i)"
  shows "linked n (nxt(head i := p)) os (cs(i := p # cs i)) (U - {p})"
proof -
  note D = linkedD[OF L]
  have p_os: "p \<in> set os" and p_out: "p \<notin> members n cs" using D(6-8) p by auto
  have heads: "head j \<noteq> p" "head i \<notin> set (cs j)" if "j \<le> n" for j
    using D(1,4) that i p_os by auto
  have same: "nxt(p := nxt (head i)) = nxt" using assms(4) by (simp add: fun_upd_idem)
  have "p \<noteq> 0" using D(1)[of 0] p_os by (cases "p = 0") (simp_all add: head_def)
  then have "chain (nxt(p := nxt (head i), head i := p)) (head i) (p # cs i)"
    using D(2)[OF i] heads[OF i] p_out i by (intro chain_push) auto
  then have ci: "chain (nxt(head i := p)) (head i) (p # cs i)" by (simp only: same)
  have "chain (nxt(head i := p)) (head j) ((cs(i := p # cs i)) j)" if "j \<le> n" for j
    using ci D(2)[OF that] heads(2)[OF that] by (cases "j = i") (simp_all add: chain_upd_other)
  moreover have "set ((cs(i := p # cs i)) j) \<inter> set ((cs(i := p # cs i)) k) = {}"
    if "j \<le> n" "k \<le> n" "j \<noteq> k" for j k
    using D(5)[OF that] p_out that by auto
  moreover have "members n (cs(i := p # cs i)) = insert p (members n cs)"
    by (simp only: members_upd[OF i] members_split[OF i, of cs]) auto
  moreover have "(U - {p}) \<inter> insert p (members n cs) = {}" "(U - {p}) \<union> insert p (members n cs) = set os"
    using D(6,7) p by blast+
  moreover have "distinct ((cs(i := p # cs i)) j)" if "j \<le> n" for j
    using D(3)[OF that] p_out that by auto
  ultimately show ?thesis using D(1) by (intro linkedI) (simp_all only: not_False_eq_True)
qed

lemma linked_unlink:
  assumes L: "linked n nxt os cs U" and i: "i \<le> n" and c: "cs i = as @ p # bs"
  shows "linked n (nxt(last (head i # as) := nxt p)) os (cs(i := as @ bs)) (insert p U)"
proof -
  note D = linkedD[OF L]
  let ?q = "last (head i # as)"
  have dist: "distinct (head i # as @ p # bs)" using D(1,3,4)[OF i] c by auto
  have q: "?q = head i \<or> ?q \<in> set (cs i)" using c by auto
  have "chain (nxt(?q := nxt p)) (head j) ((cs(i := as @ bs)) j)" if j: "j \<le> n" for j
  proof (cases "j = i")
    case True
    have "chain (nxt(?q := nxt p)) (head i) (as @ bs)"
      using D(2)[OF i] c dist by (intro chain_unlink) simp_all
    with True show ?thesis by (simp only: fun_upd_same)
  next
    case False
    then have "?q \<noteq> head j" "?q \<notin> set (cs j)"
      using q D(1,4)[OF i] D(1,4)[OF j] D(5)[OF i j] by auto
    with False D(2)[OF j] show ?thesis by (simp only: fun_upd_other chain_upd_other simp_thms)
  qed
  moreover have "set ((cs(i := as @ bs)) j) \<inter> set ((cs(i := as @ bs)) k) = {}"
    if "j \<le> n" "k \<le> n" "j \<noteq> k" for j k
    using D(5)[OF that] c by auto
  moreover have "distinct ((cs(i := as @ bs)) j)" if "j \<le> n" for j
    using D(3)[OF that] dist by simp
  moreover have "members n (cs(i := as @ bs)) = members n cs - {p}"
    using c dist D(5)[OF i] by (auto simp only: members_upd[OF i] members_split[OF i]) auto
  moreover have "p \<in> members n cs" using members_split[OF i, of cs] c by simp
  then have "insert p U \<inter> (members n cs - {p}) = {}" "insert p U \<union> (members n cs - {p}) = set os"
    using D(6,7) by blast+
  ultimately show ?thesis using D(1) by (intro linkedI) (simp_all only: not_False_eq_True)
qed

subsection \<open>Records in the file\<close>

definition layout :: "nat \<Rightarrow> string \<Rightarrow> nat list \<Rightarrow> (nat \<Rightarrow> irec) \<Rightarrow> bool" where
  "layout n f os R \<longleftrightarrow>
     tiles (\<lambda>p. rec_size (R p)) (hdr n) os (length f) \<and>
     (\<forall>p\<in>set os. entry_at f p (R p) \<and> rec_ok (R p) \<and> int p \<le> PTR_MAX) \<and>
     (\<forall>p\<in>fields n os. 0 \<le> fld f p)"

lemma rec_size_ge: "PTR_SZ \<le> rec_size r"
  by (simp add: rec_size_def)

lemma rec_size_pos [simp]: "0 < rec_size r"
  by (simp add: rec_size_def db_consts)

lemma layoutD:
  assumes "layout n f os R"
  shows "tiles (\<lambda>p. rec_size (R p)) (hdr n) os (length f)"
    and "p \<in> set os \<Longrightarrow> entry_at f p (R p)" "p \<in> set os \<Longrightarrow> rec_ok (R p)"
    and "p \<in> set os \<Longrightarrow> int p \<le> PTR_MAX" "p \<in> fields n os \<Longrightarrow> 0 \<le> fld f p"
    and "p \<in> set os \<Longrightarrow> hdr n \<le> p" "p \<in> set os \<Longrightarrow> p + rec_size (R p) \<le> length f"
    and "hdr n \<le> length f"
  using assms tiles_bounds[of "\<lambda>p. rec_size (R p)" "hdr n" os "length f" p]
    tiles_le[of "\<lambda>p. rec_size (R p)" "hdr n" os "length f"]
  by (simp_all add: layout_def)

text \<open>Two pointer fields never overlap, and no field lies inside the body of a record.\<close>

lemma fields_apart:
  assumes L: "layout n f os R" and "q \<in> fields n os" and "q' \<in> fields n os" and "q \<noteq> q'"
  shows "q + PTR_SZ \<le> q' \<or> q' + PTR_SZ \<le> q"
proof -
  note D = layoutD[OF L]
  have hp: "head i + PTR_SZ \<le> p" if "i \<le> n" "p \<in> set os" for i p
    using head_hdr[of i n] D(6)[of p] that by linarith
  have pp: "p + PTR_SZ \<le> p' \<or> p' + PTR_SZ \<le> p" if "p \<in> set os" "p' \<in> set os" "p \<noteq> p'" for p p'
    using tiles_disjoint[OF D(1) that] rec_size_ge[of "R p"] rec_size_ge[of "R p'"] by linarith
  have hh: "head i + PTR_SZ \<le> head j \<or> head j + PTR_SZ \<le> head i" if "head i \<noteq> head j" for i j
    using head_apart[of i j] that by auto
  from assms(2-4) hh hp pp show ?thesis by blast
qed

lemma field_entry_apart:
  assumes L: "layout n f os R" and "q \<in> fields n os" and p: "p \<in> set os"
  shows "q \<le> p \<or> p + rec_size (R p) \<le> q"
proof -
  note D = layoutD[OF L]
  have "head i \<le> p" if "i \<le> n" for i
    using head_hdr[OF that] D(6)[OF p] by linarith
  moreover have "q \<le> p \<or> p + rec_size (R p) \<le> q" if "q \<in> set os"
    using tiles_disjoint[OF D(1) that p] by linarith
  ultimately show ?thesis using assms(2) by blast
qed

lemma field_in_file:
  assumes L: "layout n f os R" and "q \<in> fields n os"
  shows "q + PTR_SZ \<le> length f"
proof -
  note D = layoutD[OF L]
  have "i \<le> n \<Longrightarrow> head i + PTR_SZ \<le> length f" for i
    using head_hdr[of i n] D(8) by simp
  moreover have "p \<in> set os \<Longrightarrow> p + PTR_SZ \<le> length f" for p
    using D(7)[of p] rec_size_ge[of "R p"] by linarith
  ultimately show ?thesis using assms(2) by blast
qed

lemma length_fmt_ptr: "int v \<le> PTR_MAX \<Longrightarrow> length (fmt_wd PTR_SZ (int v)) = PTR_SZ"
  and length_fmt_ptr0: "int v \<le> PTR_MAX \<Longrightarrow> length (fmt_w0d PTR_SZ (int v)) = PTR_SZ"
  by (simp_all add: length_fmt_wd length_fmt_w0d db_consts)

text \<open>Writing one pointer field.\<close>

definition put_ptr :: "string \<Rightarrow> nat \<Rightarrow> nat \<Rightarrow> string" where
  "put_ptr f q v = overwrite f q (fmt_wd PTR_SZ (int v))"

lemma put_ptr:
  assumes L: "layout n f os R" and q: "q \<in> fields n os" and v: "int v \<le> PTR_MAX"
  shows "length (put_ptr f q v) = length f"
    and "x \<in> fields n os \<Longrightarrow> fld (put_ptr f q v) x = (if x = q then int v else fld f x)"
    and "p \<in> set os \<Longrightarrow> entry_at (put_ptr f q v) p (R p)"
proof -
  note qf = field_in_file[OF L q] and l = length_fmt_ptr[OF v]
  show len: "length (put_ptr f q v) = length f" using qf l by (simp add: put_ptr_def)
  show "fld (put_ptr f q v) x = (if x = q then int v else fld f x)" if x: "x \<in> fields n os"
  proof (cases "x = q")
    case True
    then show ?thesis using qf l by (simp add: put_ptr_def fld_def slice_overwrite_same)
  next
    case False
    then have "slice (put_ptr f q v) x PTR_SZ = slice f x PTR_SZ"
      unfolding put_ptr_def using qf l field_in_file[OF L x] fields_apart[OF L q x]
      by (intro slice_overwrite_disjoint) auto
    with False show ?thesis by (simp add: fld_def)
  qed
  show "entry_at (put_ptr f q v) p (R p)" if p: "p \<in> set os"
  proof -
    have "slice (put_ptr f q v) (p + PTR_SZ) (length (rec_body (R p))) =
        slice f (p + PTR_SZ) (length (rec_body (R p)))"
      unfolding put_ptr_def using qf l layoutD(7)[OF L p] field_entry_apart[OF L q p]
      by (intro slice_overwrite_disjoint) (auto simp: rec_size_def)
    with layoutD(2)[OF L p] len show ?thesis by (simp add: entry_at_def)
  qed
qed

lemma put_ptr_layout:
  assumes L: "layout n f os R" and q: "q \<in> fields n os" and v: "int v \<le> PTR_MAX"
  shows "layout n (put_ptr f q v) os R"
    and "x \<in> fields n os \<Longrightarrow> ptr_at (put_ptr f q v) x = ((ptr_at f)(q := v)) x"
  using put_ptr[OF L q v] layoutD[OF L] by (simp_all add: layout_def ptr_at_fld)

text \<open>Rewriting a record in place with one of the same size.\<close>

definition put_rec :: "string \<Rightarrow> nat \<Rightarrow> nat \<Rightarrow> irec \<Rightarrow> string" where
  "put_rec f p v r = overwrite f p (fmt_w0d PTR_SZ (int v) @ rec_body r)"

lemma entry_put_rec:
  assumes "p \<le> length f" and v: "int v \<le> PTR_MAX"
  shows "entry_at (put_rec f p v r) p r" and "fld (put_rec f p v r) p = int v"
proof -
  let ?b = "fmt_w0d PTR_SZ (int v) @ rec_body r"
  note l = length_fmt_ptr0[OF v]
  have whole: "slice (put_rec f p v r) p (rec_size r) = ?b"
    unfolding put_rec_def using assms l by (intro slice_overwrite_same) (simp_all add: rec_size_def)
  have "slice (put_rec f p v r) (p + PTR_SZ) (length (rec_body r)) =
      slice (slice (put_rec f p v r) p (rec_size r)) PTR_SZ (length (rec_body r))"
    by (subst slice_slice) (simp_all add: rec_size_def)
  then have "slice (put_rec f p v r) (p + PTR_SZ) (length (rec_body r)) = rec_body r"
    unfolding whole using l by (simp add: slice_def)
  moreover have "p + rec_size r \<le> length (put_rec f p v r)"
    using l by (simp add: put_rec_def length_overwrite rec_size_def)
  ultimately show "entry_at (put_rec f p v r) p r" by (simp add: entry_at_def)
  have "slice (put_rec f p v r) p PTR_SZ = slice (slice (put_rec f p v r) p (rec_size r)) 0 PTR_SZ"
    by (subst slice_slice) (simp_all add: rec_size_def)
  then have "slice (put_rec f p v r) p PTR_SZ = fmt_w0d PTR_SZ (int v)"
    unfolding whole using l by (simp add: slice_def)
  then show "fld (put_rec f p v r) p = int v" by (simp add: fld_def)
qed

lemma put_rec_layout:
  assumes L: "layout n f os R" and p: "p \<in> set os" and v: "int v \<le> PTR_MAX"
    and r: "rec_ok r" "rec_size r = rec_size (R p)"
  shows "layout n (put_rec f p v r) os (R(p := r))"
    and "x \<in> fields n os \<Longrightarrow> ptr_at (put_rec f p v r) x = ((ptr_at f)(p := v)) x"
proof -
  note D = layoutD[OF L]
  let ?f = "put_rec f p v r"
  note in_f = D(7)[OF p] and l = length_fmt_ptr0[OF v]
  have lb: "length (fmt_w0d PTR_SZ (int v) @ rec_body r) = rec_size r" using l by (simp add: rec_size_def)
  have len: "length ?f = length f" using in_f r(2) lb by (simp add: put_rec_def del: length_append)
  have fx: "fld ?f x = (if x = p then int v else fld f x)" if x: "x \<in> fields n os" for x
  proof (cases "x = p")
    case True
    then show ?thesis using entry_put_rec(2)[OF _ v] in_f by simp
  next
    case False
    have "x + PTR_SZ \<le> p \<or> p + rec_size r \<le> x"
      using fields_apart[OF L x _ False] field_entry_apart[OF L x p] p r(2) rec_size_ge[of r] by auto
    then have "slice ?f x PTR_SZ = slice f x PTR_SZ"
      unfolding put_rec_def using in_f lb r(2) field_in_file[OF L x]
      by (intro slice_overwrite_disjoint) (simp_all del: length_append)
    with False show ?thesis by (simp add: fld_def)
  qed
  have en: "entry_at ?f q ((R(p := r)) q)" if q: "q \<in> set os" for q
  proof (cases "q = p")
    case True
    then show ?thesis using entry_put_rec(1)[OF _ v] in_f by simp
  next
    case False
    have "slice ?f (q + PTR_SZ) (length (rec_body (R q))) = slice f (q + PTR_SZ) (length (rec_body (R q)))"
      unfolding put_rec_def using in_f lb r(2) D(7)[OF q] tiles_disjoint[OF D(1) q p False]
      by (intro slice_overwrite_disjoint) (auto simp: rec_size_def simp del: length_append)
    with False D(2)[OF q] len show ?thesis by (simp add: entry_at_def)
  qed
  have "tiles (\<lambda>q. rec_size ((R(p := r)) q)) (hdr n) os (length ?f)"
    using D(1) len r(2) by (subst tiles_cong[where sz' = "\<lambda>p. rec_size (R p)"]) simp_all
  moreover have "rec_ok ((R(p := r)) q)" if "q \<in> set os" for q using D(3)[OF that] r(1) by simp
  moreover have "0 \<le> fld ?f x" if "x \<in> fields n os" for x using fx[OF that] D(5)[OF that] by simp
  ultimately show "layout n ?f os (R(p := r))" using en D(4) unfolding layout_def by blast
  show "ptr_at ?f x = ((ptr_at f)(p := v)) x" if "x \<in> fields n os" for x
    using fx[OF that] by (simp add: ptr_at_fld)
qed

text \<open>Appending a record.\<close>

lemma append_layout:
  assumes L: "layout n f os R" and v: "int v \<le> PTR_MAX" and r: "rec_ok r"
    and room: "int (length f) \<le> PTR_MAX"
  defines "e \<equiv> length f"
  shows "layout n (put_rec f e v r) (os @ [e]) (R(e := r))"
    and "x \<in> fields n (os @ [e]) \<Longrightarrow> ptr_at (put_rec f e v r) x = ((ptr_at f)(e := v)) x"
proof -
  note D = layoutD[OF L]
  let ?f = "put_rec f e v r"
  have f: "?f = f @ fmt_w0d PTR_SZ (int v) @ rec_body r" by (simp add: put_rec_def e_def)
  have len: "length ?f = e + rec_size r"
    using length_fmt_ptr0[OF v] by (simp add: put_rec_def e_def rec_size_def)
  have ne: "q \<noteq> e" if "q \<in> set os" for q
    using D(7)[OF that] rec_size_ge[of "R q"] by (auto simp: e_def db_consts)
  have fx: "fld ?f x = (if x = e then int v else fld f x)" if "x \<in> fields n (os @ [e])" for x
  proof (cases "x = e")
    case True
    then show ?thesis using entry_put_rec(2)[OF _ v] by (simp add: e_def)
  next
    case False
    with that have "x + PTR_SZ \<le> length f" by (intro field_in_file[OF L]) auto
    with False show ?thesis unfolding f fld_def by (simp add: slice_append_left)
  qed
  have en: "entry_at ?f q ((R(e := r)) q)" if q: "q \<in> set (os @ [e])" for q
  proof (cases "q = e")
    case True
    then show ?thesis using entry_put_rec(1)[OF _ v] by (simp add: e_def)
  next
    case False
    with q have "q \<in> set os" by simp
    with D(2)[of q] False show ?thesis
      by (auto simp: f entry_at_def rec_size_def slice_append_left)
  qed
  have "tiles (\<lambda>q. rec_size ((R(e := r)) q)) (hdr n) os e"
    using D(1) ne by (subst tiles_cong[where sz' = "\<lambda>p. rec_size (R p)"]) (auto simp: e_def)
  then have "tiles (\<lambda>q. rec_size ((R(e := r)) q)) (hdr n) (os @ [e]) (length ?f)"
    using tiles_append len by fastforce
  moreover have "rec_ok ((R(e := r)) q) \<and> int q \<le> PTR_MAX" if "q \<in> set (os @ [e])" for q
    using D(3,4)[of q] r room that by (auto simp: e_def)
  moreover have "0 \<le> fld ?f x" if "x \<in> fields n (os @ [e])" for x
    using fx[OF that] D(5)[of x] that by auto
  ultimately show "layout n ?f (os @ [e]) (R(e := r))" using en unfolding layout_def by blast
  show "ptr_at ?f x = ((ptr_at f)(e := v)) x" if "x \<in> fields n (os @ [e])" for x
    using fx[OF that] by (simp add: ptr_at_fld)
qed

subsection \<open>The data file\<close>

definition rec_data :: "string \<Rightarrow> irec \<Rightarrow> string" where
  "rec_data g r = slice g (r_off r) (r_len r - 1)"

definition data_ok :: "string \<Rightarrow> irec \<Rightarrow> bool" where
  "data_ok g r \<longleftrightarrow> 0 < r_len r \<and> r_off r + r_len r \<le> length g \<and> is_cstr (rec_data g r) \<and>
     slice g (r_off r) (r_len r) = rec_data g r @ [NL]"

definition data_apart :: "irec \<Rightarrow> irec \<Rightarrow> bool" where
  "data_apart r r' \<longleftrightarrow> r_off r + r_len r \<le> r_off r' \<or> r_off r' + r_len r' \<le> r_off r"

definition dat_inv :: "string \<Rightarrow> nat list \<Rightarrow> (nat \<Rightarrow> irec) \<Rightarrow> bool" where
  "dat_inv g os R \<longleftrightarrow> (\<forall>p\<in>set os. data_ok g (R p)) \<and>
     (\<forall>p\<in>set os. \<forall>q\<in>set os. p \<noteq> q \<longrightarrow> data_apart (R p) (R q))"

lemma dat_inv_same:
  assumes "dat_inv g os R" and "r_off r = r_off (R p)" and "r_len r = r_len (R p)"
  shows "dat_inv g os (R(p := r))"
  using assms by (auto simp: dat_inv_def data_ok_def data_apart_def rec_data_def)

lemma put_data:
  assumes I: "dat_inv g os R" and p: "p \<in> set os" and d: "is_cstr d" "length d + 1 = r_len (R p)"
  defines "g' \<equiv> overwrite g (r_off (R p)) (d @ [NL])"
  shows "dat_inv g' os R" and "rec_data g' (R p) = d"
    and "q \<in> set os \<Longrightarrow> q \<noteq> p \<Longrightarrow> rec_data g' (R q) = rec_data g (R q)"
proof -
  have ok: "data_ok g (R p)" using I p by (simp add: dat_inv_def)
  have len: "length g' = length g" using ok d by (simp add: g'_def data_ok_def)
  have whole: "slice g' (r_off (R p)) (r_len (R p)) = d @ [NL]"
    unfolding g'_def using ok d by (intro slice_overwrite_same) (simp_all add: data_ok_def)
  have "rec_data g' (R p) = slice (slice g' (r_off (R p)) (r_len (R p))) 0 (length d)"
    by (subst slice_slice) (simp_all add: rec_data_def d(2)[symmetric])
  then show rd: "rec_data g' (R p) = d" unfolding whole by (simp add: slice_def)
  have other: "slice g' (r_off (R q)) m = slice g (r_off (R q)) m"
    if "q \<in> set os" "q \<noteq> p" "m \<le> r_len (R q)" for q m
  proof -
    have "data_ok g (R q)" "data_apart (R q) (R p)" using I p that by (auto simp: dat_inv_def)
    with ok d(2) that(3) show ?thesis unfolding g'_def
      by (intro slice_overwrite_disjoint) (auto simp: data_ok_def data_apart_def)
  qed
  then show "rec_data g' (R q) = rec_data g (R q)" if "q \<in> set os" "q \<noteq> p" for q
    using that by (simp add: rec_data_def)
  have "data_ok g' (R q)" if q: "q \<in> set os" for q
  proof (cases "q = p")
    case True
    then show ?thesis using ok len d rd whole by (simp add: data_ok_def)
  next
    case False
    moreover have "data_ok g (R q)" using I q by (simp add: dat_inv_def)
    ultimately show ?thesis using other[OF q False] len by (simp add: data_ok_def rec_data_def)
  qed
  then show "dat_inv g' os R" using I by (simp add: dat_inv_def)
qed

lemma append_data:
  assumes I: "dat_inv g os R" and e: "e \<notin> set os" and d: "is_cstr d"
    and r: "r_off r = length g" "r_len r = length d + 1"
  shows "dat_inv (g @ d @ [NL]) (os @ [e]) (R(e := r))"
    and "rec_data (g @ d @ [NL]) r = d"
    and "q \<in> set os \<Longrightarrow> rec_data (g @ d @ [NL]) (R q) = rec_data g (R q)"
proof -
  have whole: "slice (g @ d @ [NL]) (length g) (length d + 1) = d @ [NL]"
    by (simp add: slice_def)
  show rd: "rec_data (g @ d @ [NL]) r = d" by (simp add: rec_data_def r slice_def)
  have same: "slice (g @ d @ [NL]) (r_off (R q)) m = slice g (r_off (R q)) m"
    if "q \<in> set os" "m \<le> r_len (R q)" for q m
    using I that by (intro slice_append_left) (auto simp: dat_inv_def data_ok_def)
  then show "rec_data (g @ d @ [NL]) (R q) = rec_data g (R q)" if "q \<in> set os" for q
    using that by (simp add: rec_data_def)
  have "data_ok (g @ d @ [NL]) (R q)" if "q \<in> set os" for q
    using I that same[OF that] by (auto simp: dat_inv_def data_ok_def rec_data_def)
  moreover have "data_ok (g @ d @ [NL]) r" using rd whole d r by (simp add: data_ok_def)
  moreover have "data_apart (R q) r" "data_apart r (R q)" if "q \<in> set os" for q
    using I that r by (auto simp: dat_inv_def data_ok_def data_apart_def)
  ultimately show "dat_inv (g @ d @ [NL]) (os @ [e]) (R(e := r))"
    using I e by (auto simp: dat_inv_def)
qed

end
