(* ===== verification/Db_Steps.thy ===== *)
theory Db_Steps
  imports Db_Inv
begin

text \<open>
  The invariant of the two files together, the contents of the database as a map, and the
  elementary steps of \<^verbatim>\<open>db.c\<close> with their effect on both. The last section composes the
  steps into the file updates of a deletion, of a reuse of a free record and of an append.
\<close>

definition keyed :: "nat \<Rightarrow> (nat \<Rightarrow> irec) \<Rightarrow> (nat \<Rightarrow> nat list) \<Rightarrow> bool" where
  "keyed n R cs \<longleftrightarrow>
     (\<forall>h<n. (\<forall>p\<in>set (cs (Suc h)). db_hash_of n (r_key (R p)) = h) \<and>
            distinct (map (\<lambda>p. r_key (R p)) (cs (Suc h)))) \<and>
     (\<forall>p\<in>set (cs 0). blank (r_key (R p)))"

definition db_inv :: "nat \<Rightarrow> string \<Rightarrow> string \<Rightarrow> nat list \<Rightarrow> (nat \<Rightarrow> irec) \<Rightarrow> (nat \<Rightarrow> nat list) \<Rightarrow>
    nat set \<Rightarrow> bool" where
  "db_inv n f g os R cs U \<longleftrightarrow> 0 < n \<and> layout n f os R \<and> linked n (ptr_at f) os cs U \<and>
     keyed n R cs \<and> dat_inv g os R"

lemma db_invD:
  assumes "db_inv n f g os R cs U"
  shows "0 < n" "layout n f os R" "linked n (ptr_at f) os cs U" "keyed n R cs" "dat_inv g os R"
  using assms by (simp_all add: db_inv_def)

definition entries :: "string \<Rightarrow> (nat \<Rightarrow> irec) \<Rightarrow> nat list \<Rightarrow> (string \<times> string) list" where
  "entries g R ps = map (\<lambda>p. (r_key (R p), rec_data g (R p))) ps"

definition contents :: "nat \<Rightarrow> string \<Rightarrow> (nat \<Rightarrow> irec) \<Rightarrow> (nat \<Rightarrow> nat list) \<Rightarrow> string \<rightharpoonup> string" where
  "contents n g R cs k = map_of (entries g R (cs (Suc (db_hash_of n k)))) k"

lemma hash_less: "0 < n \<Longrightarrow> db_hash_of n k < n"
  by (simp add: db_hash_of_def)

lemma Suc_hash_le: "0 < n \<Longrightarrow> Suc (db_hash_of n k) \<le> n"
  using hash_less[of n k] by simp

lemma keyedD:
  assumes "keyed n R cs" and "h < n"
  shows "p \<in> set (cs (Suc h)) \<Longrightarrow> db_hash_of n (r_key (R p)) = h"
    and "distinct (map (\<lambda>p. r_key (R p)) (cs (Suc h)))"
  using assms by (auto simp: keyed_def)

subsection \<open>The contents\<close>

lemma entries_cong:
  "(\<And>p. p \<in> set ps \<Longrightarrow> r_key (R p) = r_key (R' p) \<and> rec_data g (R p) = rec_data g' (R' p)) \<Longrightarrow>
   entries g R ps = entries g' R' ps"
  by (simp add: entries_def)

lemma contents_cong:
  assumes "0 < n"
    and "\<And>h p. h < n \<Longrightarrow> p \<in> set (cs (Suc h)) \<Longrightarrow>
      r_key (R p) = r_key (R' p) \<and> rec_data g (R p) = rec_data g' (R' p)"
  shows "contents n g R cs = contents n g' R' cs"
proof
  fix k
  have "entries g R (cs (Suc (db_hash_of n k))) = entries g' R' (cs (Suc (db_hash_of n k)))"
    using assms(2)[OF hash_less[OF assms(1)]] by (rule entries_cong)
  then show "contents n g R cs k = contents n g' R' cs k" by (simp add: contents_def)
qed

lemma contents_None:
  assumes "keyed n R cs" and "0 < n"
  shows "contents n g R cs k = None \<longleftrightarrow> (\<forall>p\<in>set (cs (Suc (db_hash_of n k))). r_key (R p) \<noteq> k)"
  by (auto simp: contents_def entries_def map_of_eq_None_iff image_image)

lemma contents_at:
  assumes "keyed n R cs" and "0 < n" and "p \<in> set (cs (Suc (db_hash_of n (r_key (R p)))))"
  shows "contents n g R cs (r_key (R p)) = Some (rec_data g (R p))"
proof -
  let ?ps = "cs (Suc (db_hash_of n (r_key (R p))))"
  have "distinct (map fst (entries g R ?ps))"
    using keyedD(2)[OF assms(1) hash_less[OF assms(2)], of "r_key (R p)"]
    by (simp add: entries_def comp_def)
  moreover have "(r_key (R p), rec_data g (R p)) \<in> set (entries g R ?ps)"
    using assms(3) by (auto simp: entries_def)
  ultimately show ?thesis unfolding contents_def by (rule map_of_is_SomeI)
qed

lemma contents_free: "contents n g R (cs(0 := xs)) = contents n g R cs"
  by (simp add: contents_def fun_eq_iff)

lemma contents_push:
  assumes "db_hash_of n (r_key (R p)) = h"
  shows "contents n g R (cs(Suc h := p # cs (Suc h))) =
    (contents n g R cs)(r_key (R p) \<mapsto> rec_data g (R p))"
  using assms by (auto simp: contents_def entries_def fun_eq_iff)

lemma contents_unlink:
  assumes K: "keyed n R cs" and h: "h < n" and c: "cs (Suc h) = as @ p # bs"
  shows "contents n g R (cs(Suc h := as @ bs)) = (contents n g R cs)(r_key (R p) := None)"
proof
  fix k
  have d: "distinct (map (\<lambda>p. r_key (R p)) (as @ p # bs))" using keyedD(2)[OF K h] c by simp
  have hp: "db_hash_of n (r_key (R p)) = h" using keyedD(1)[OF K h, of p] c by simp
  have out: "map_of (entries g R (as @ bs)) (r_key (R p)) = None"
    using d by (auto simp: entries_def map_of_eq_None_iff)
  have skip: "map_of (entries g R (as @ p # bs)) k = map_of (entries g R (as @ bs)) k"
    if "k \<noteq> r_key (R p)"
    using that by (simp add: entries_def map_add_def split: option.split)
  show "contents n g R (cs(Suc h := as @ bs)) k = ((contents n g R cs)(r_key (R p) := None)) k"
    using out skip hp c by (auto simp: contents_def)
qed

subsection \<open>Steps\<close>

lemma linked_after:
  assumes "linked n nxt os cs U" and "\<And>x. x \<in> fields n os \<Longrightarrow> ptr_at f x = nxt x"
  shows "linked n (ptr_at f) os cs U"
  using assms by (subst linked_cong[where nxt = nxt]) auto

lemma field_in_chain:
  "i \<le> n \<Longrightarrow> set as \<subseteq> set os \<Longrightarrow> last (head i # as) \<in> fields n os"
  by (cases as rule: rev_cases) auto

text \<open>Every pointer that is stored is the null pointer or the offset of a record.\<close>

lemma chain_ptr_bound:
  assumes "layout n f os R" and "chain (ptr_at f) q qs" and "set qs \<subseteq> set os"
  shows "int (ptr_at f q) \<le> PTR_MAX"
  using assms layoutD(4)[OF assms(1)] by (cases qs) (auto simp: PTR_MAX_def)

lemma head_ptr_bound:
  assumes "db_inv n f g os R cs U" and "i \<le> n"
  shows "int (ptr_at f (head i)) \<le> PTR_MAX"
  using chain_ptr_bound[OF db_invD(2)[OF assms(1)]] linkedD(2,4)[OF db_invD(3)[OF assms(1)] assms(2)]
  by blast

lemma next_ptr_bound:
  assumes I: "db_inv n f g os R cs U" and i: "i \<le> n" and c: "cs i = as @ p # bs"
  shows "int (ptr_at f p) \<le> PTR_MAX"
proof -
  have "chain (ptr_at f) (head i) (as @ p # bs)" and s: "set (as @ p # bs) \<subseteq> set os"
    using linkedD(2,4)[OF db_invD(3)[OF I] i] c by auto
  then have "chain (ptr_at f) p bs" using chain_app by blast
  with s show ?thesis using chain_ptr_bound[OF db_invD(2)[OF I]] by simp
qed

lemma keyed_unlink:
  assumes K: "keyed n R cs" and c: "cs i = as @ p # bs"
  shows "keyed n R (cs(i := as @ bs))"
proof -
  let ?c = "cs(i := as @ bs)"
  have "(\<forall>q\<in>set (?c (Suc h)). db_hash_of n (r_key (R q)) = h) \<and>
      distinct (map (\<lambda>q. r_key (R q)) (?c (Suc h)))" if h: "h < n" for h
    using keyedD[OF K h] c by (cases "i = Suc h") auto
  moreover have "\<forall>q\<in>set (?c 0). blank (r_key (R q))"
    using K c by (auto simp: keyed_def)
  ultimately show ?thesis by (simp only: keyed_def simp_thms) blast
qed

lemma step_unlink:
  assumes I: "db_inv n f g os R cs U" and i: "i \<le> n" and c: "cs i = as @ p # bs"
  defines "q \<equiv> last (head i # as)"
  shows "db_inv n (put_ptr f q (ptr_at f p)) g os R (cs(i := as @ bs)) (insert p U)"
    and "x \<in> fields n os \<Longrightarrow> ptr_at (put_ptr f q (ptr_at f p)) x = ((ptr_at f)(q := ptr_at f p)) x"
proof -
  note D = db_invD[OF I]
  have q: "q \<in> fields n os"
    unfolding q_def using linkedD(4)[OF D(3) i] c i by (intro field_in_chain) auto
  note W = put_ptr_layout[OF D(2) q next_ptr_bound[OF I i c]]
  have "linked n ((ptr_at f)(q := ptr_at f p)) os (cs(i := as @ bs)) (insert p U)"
    unfolding q_def by (rule linked_unlink[OF D(3) i c])
  then have "linked n (ptr_at (put_ptr f q (ptr_at f p))) os (cs(i := as @ bs)) (insert p U)"
    by (rule linked_after) (rule W(2))
  moreover note keyed_unlink[OF D(4) c]
  ultimately show "db_inv n (put_ptr f q (ptr_at f p)) g os R (cs(i := as @ bs)) (insert p U)"
    using D W(1) by (simp add: db_inv_def)
  show "x \<in> fields n os \<Longrightarrow> ptr_at (put_ptr f q (ptr_at f p)) x = ((ptr_at f)(q := ptr_at f p)) x"
    by (rule W(2))
qed

lemma not_on_chain:
  assumes "db_inv n f g os R cs U" and "p \<in> U" and "i \<le> n" and "q \<in> set (cs i)"
  shows "q \<noteq> p"
  using linkedD(6)[OF db_invD(3)[OF assms(1)]] assms(2-4) by blast

lemma off_chain: "db_inv n f g os R cs U \<Longrightarrow> p \<in> U \<Longrightarrow> h < n \<Longrightarrow> p \<notin> set (cs (Suc h))"
  using not_on_chain[of n f g os R cs U p "Suc h" p] by auto

lemma step_rewrite:
  assumes I: "db_inv n f g os R cs U" and p: "p \<in> U" and v: "int v \<le> PTR_MAX"
    and r: "rec_ok r" "rec_size r = rec_size (R p)" "r_off r = r_off (R p)" "r_len r = r_len (R p)"
  shows "db_inv n (put_rec f p v r) g os (R(p := r)) cs U"
    and "x \<in> fields n os \<Longrightarrow> ptr_at (put_rec f p v r) x = ((ptr_at f)(p := v)) x"
    and "contents n g (R(p := r)) cs = contents n g R cs"
proof -
  note D = db_invD[OF I]
  have p': "p \<in> set os" using linkedD(8)[OF D(3)] p by auto
  note W = put_rec_layout[OF D(2) p' v r(1,2)]
  have "linked n (ptr_at (put_rec f p v r)) os cs U"
    by (rule linked_after[OF linked_set[OF D(3) p]]) (rule W(2))
  moreover have "keyed n (R(p := r)) cs"
  proof -
    have "(R(p := r)) q = R q" if "i \<le> n" "q \<in> set (cs i)" for i q
      using not_on_chain[OF I p that] by simp
    then have "\<forall>q\<in>set (cs 0). (R(p := r)) q = R q" "\<forall>h<n. \<forall>q\<in>set (cs (Suc h)). (R(p := r)) q = R q"
      by (meson le0 Suc_leI)+
    then show ?thesis using D(4) unfolding keyed_def by (simp cong: map_cong)
  qed
  ultimately show "db_inv n (put_rec f p v r) g os (R(p := r)) cs U"
    using D(1) W(1) dat_inv_same[OF D(5) r(3,4)] by (simp add: db_inv_def)
  show "x \<in> fields n os \<Longrightarrow> ptr_at (put_rec f p v r) x = ((ptr_at f)(p := v)) x"
    by (rule W(2))
  show "contents n g (R(p := r)) cs = contents n g R cs"
    using off_chain[OF I p] D(1) by (intro contents_cong) auto
qed

lemma step_push:
  assumes I: "db_inv n f g os R cs U" and p: "p \<in> U" and i: "i \<le> n"
    and nxt: "ptr_at f p = ptr_at f (head i)" and K: "keyed n R (cs(i := p # cs i))"
  shows "db_inv n (put_ptr f (head i) p) g os R (cs(i := p # cs i)) (U - {p})"
proof -
  note D = db_invD[OF I]
  have p': "p \<in> set os" using linkedD(8)[OF D(3)] p by auto
  have h: "head i \<in> fields n os" using i by simp
  note W = put_ptr_layout[OF D(2) h layoutD(4)[OF D(2) p']]
  have "linked n (ptr_at (put_ptr f (head i) p)) os (cs(i := p # cs i)) (U - {p})"
    by (rule linked_after[OF linked_push[OF D(3) p i nxt]]) (rule W(2))
  then show ?thesis using D W(1) K by (simp add: db_inv_def)
qed

lemma step_append:
  assumes I: "db_inv n f g os R cs U" and v: "int v \<le> PTR_MAX"
    and r: "rec_ok r" "r_off r = length g" "r_len r = length d + 1" and d: "is_cstr d"
    and room: "int (length f) \<le> PTR_MAX"
  defines "e \<equiv> length f"
  shows "db_inv n (put_rec f e v r) (g @ d @ [NL]) (os @ [e]) (R(e := r)) cs (insert e U)"
    and "x \<in> fields n (os @ [e]) \<Longrightarrow> ptr_at (put_rec f e v r) x = ((ptr_at f)(e := v)) x"
    and "contents n (g @ d @ [NL]) (R(e := r)) cs = contents n g R cs"
    and "rec_data (g @ d @ [NL]) r = d"
proof -
  note D = db_invD[OF I]
  note W = append_layout[OF D(2) v r(1) room, folded e_def]
  have e: "e \<notin> set os" using layoutD(7)[OF D(2), of e] by (auto simp: e_def rec_size_def db_consts)
  have eh: "e \<notin> head ` {..n}" using layoutD(8)[OF D(2)] head_hdr by (fastforce simp: e_def)
  note A = append_data[OF D(5) e d r(2,3)]
  have "linked n ((ptr_at f)(e := v)) (os @ [e]) cs (insert e U)"
    using linked_set[OF linked_new[OF D(3) e eh]] by simp
  then have L: "linked n (ptr_at (put_rec f e v r)) (os @ [e]) cs (insert e U)"
    by (rule linked_after) (rule W(2))
  have out: "e \<notin> set (cs i)" if "i \<le> n" for i using linkedD(4)[OF D(3) that] e by auto
  then have "e \<notin> set (cs 0)" "h < n \<Longrightarrow> e \<notin> set (cs (Suc h))" for h by simp_all
  then have same: "\<forall>q\<in>set (cs 0). (R(e := r)) q = R q" "\<forall>h<n. \<forall>q\<in>set (cs (Suc h)). (R(e := r)) q = R q"
    by auto
  then have "keyed n (R(e := r)) cs" using D(4) unfolding keyed_def by (simp cong: map_cong)
  then show "db_inv n (put_rec f e v r) (g @ d @ [NL]) (os @ [e]) (R(e := r)) cs (insert e U)"
    using D(1) W(1) L A(1) by (simp add: db_inv_def)
  show "x \<in> fields n (os @ [e]) \<Longrightarrow> ptr_at (put_rec f e v r) x = ((ptr_at f)(e := v)) x"
    by (rule W(2))
  have "q \<in> set os" if "h < n" "q \<in> set (cs (Suc h))" for h q
    using linkedD(4)[OF D(3), of "Suc h"] that by auto
  then show "contents n (g @ d @ [NL]) (R(e := r)) cs = contents n g R cs"
    using D(1) same A(3) by (intro contents_cong) auto
  show "rec_data (g @ d @ [NL]) r = d" by (rule A(2))
qed

lemma step_data:
  assumes I: "db_inv n f g os R cs U" and p: "p \<in> set os"
    and d: "is_cstr d" "length d + 1 = r_len (R p)"
  defines "g' \<equiv> overwrite g (r_off (R p)) (d @ [NL])"
  shows "db_inv n f g' os R cs U" and "rec_data g' (R p) = d"
    and "p \<in> U \<Longrightarrow> contents n g' R cs = contents n g R cs"
    and "h < n \<Longrightarrow> p \<in> set (cs (Suc h)) \<Longrightarrow> contents n g' R cs = (contents n g R cs)(r_key (R p) \<mapsto> d)"
proof -
  note D = db_invD[OF I]
  note W = put_data[OF D(5) p d, folded g'_def]
  show "db_inv n f g' os R cs U" using D W(1) by (simp add: db_inv_def)
  show rd: "rec_data g' (R p) = d" by (rule W(2))
  have os: "q \<in> set os" if "h < n" "q \<in> set (cs (Suc h))" for h q
    using linkedD(4)[OF D(3), of "Suc h"] that by auto
  show "contents n g' R cs = contents n g R cs" if "p \<in> U"
  proof (rule contents_cong[OF D(1)])
    fix h q
    assume "h < n" and "q \<in> set (cs (Suc h))"
    then show "r_key (R q) = r_key (R q) \<and> rec_data g' (R q) = rec_data g (R q)"
      using off_chain[OF I that \<open>h < n\<close>] os W(3)[of q] by auto
  qed
  show "contents n g' R cs = (contents n g R cs)(r_key (R p) \<mapsto> d)"
    if h: "h < n" and ph: "p \<in> set (cs (Suc h))"
  proof
    fix k
    have hp: "db_hash_of n (r_key (R p)) = h" using keyedD(1)[OF D(4) h ph] .
    show "contents n g' R cs k = ((contents n g R cs)(r_key (R p) \<mapsto> d)) k"
    proof (cases "k = r_key (R p)")
      case True
      then show ?thesis using contents_at[OF D(4) D(1), of p g'] hp ph rd by simp
    next
      case False
      have "map_of (entries g' R ps) k = map_of (entries g R ps) k" if "set ps \<subseteq> set os" for ps
        using that False W(3) by (induction ps) (auto simp: entries_def)
      moreover have "set (cs (Suc (db_hash_of n k))) \<subseteq> set os"
        using os[OF hash_less[OF D(1)]] by auto
      ultimately show ?thesis using False by (simp add: contents_def)
    qed
  qed
qed

subsection \<open>The file updates of the operations\<close>

lemma rec_ok_key:
  assumes "rec_ok r" and "length k = length (r_key r)" and "is_cstr k" and "SEP \<notin> set k"
  shows "rec_ok (r\<lparr>r_key := k\<rparr>)" and "rec_size (r\<lparr>r_key := k\<rparr>) = rec_size r"
proof -
  have l: "length (rec_text (r\<lparr>r_key := k\<rparr>)) = length (rec_text r)"
    using assms(2) by (simp add: rec_text_def idx_text_def)
  then show ok: "rec_ok (r\<lparr>r_key := k\<rparr>)" using assms by (simp add: rec_ok_def)
  show "rec_size (r\<lparr>r_key := k\<rparr>) = rec_size r"
    using l by (simp add: rec_size_eq[OF ok] rec_size_eq[OF assms(1)])
qed

definition blanks :: "nat \<Rightarrow> string" where
  "blanks m = replicate m (CHR '' '')"

lemma blanks_ok [simp]:
  "length (blanks m) = m" "is_cstr (blanks m)" "SEP \<notin> set (blanks m)" "blank (blanks m)"
  by (auto simp: blanks_def SEP_def blank_def)

lemma put_ptr_commute:
  assumes L: "layout n f os R" and q: "q \<in> fields n os" and q': "q' \<in> fields n os" and "q \<noteq> q'"
    and v: "int v \<le> PTR_MAX" "int v' \<le> PTR_MAX"
  shows "put_ptr (put_ptr f q v) q' v' = put_ptr (put_ptr f q' v') q v"
  unfolding put_ptr_def
  using fields_apart[OF L q q' assms(4)] field_in_file[OF L q] field_in_file[OF L q'] v
  by (intro overwrite_commute) (simp_all add: length_fmt_ptr)

lemma put_rec_ptr_commute:
  assumes L: "layout n f os R" and q: "q \<in> fields n os" and p: "p \<in> set os" and ne: "q \<noteq> p"
    and v: "int v \<le> PTR_MAX" "int w \<le> PTR_MAX" and r: "rec_size r = rec_size (R p)"
  shows "put_ptr (put_rec f p v r) q w = put_rec (put_ptr f q w) p v r"
  unfolding put_ptr_def put_rec_def
  using fields_apart[OF L q _ ne] field_entry_apart[OF L q p] field_in_file[OF L q]
    layoutD(7)[OF L p] p v r
  by (intro overwrite_commute) (auto simp: length_fmt_ptr length_fmt_ptr0 rec_size_def)

lemma head_0 [simp]: "head 0 = 0"
  by (simp add: head_def)

lemma zero_field [simp]: "0 \<in> fields n os"
  by (metis UnI1 atMost_iff head_0 image_eqI le0)

lemma last_cases: "set as \<subseteq> S \<Longrightarrow> last (head i # as) = head i \<or> last (head i # as) \<in> S"
  by (cases as rule: rev_cases) auto

text \<open>A record on a chain and the field that points to it.\<close>

lemma on_chain:
  assumes I: "db_inv n f g os R cs U" and i: "i \<le> n" and c: "cs i = as @ p # bs"
  shows "p \<in> set os" and "0 < p" and "rec_ok (R p)"
    and "last (head i # as) \<in> fields n os" and "last (head i # as) \<noteq> p"
    and "i \<noteq> 0 \<Longrightarrow> last (head i # as) \<noteq> 0"
proof -
  note D = db_invD[OF I]
  have z: "0 \<notin> set os" using linkedD(1)[OF D(3), of 0] by simp
  have sub: "set as \<subseteq> set os" "p \<in> set os" using linkedD(4)[OF D(3) i] c by auto
  show p: "p \<in> set os" by (rule sub(2))
  show "last (head i # as) \<in> fields n os" by (rule field_in_chain[OF i sub(1)])
  show "0 < p" using z p by (cases p) auto
  show "rec_ok (R p)" using layoutD(3)[OF D(2) p] .
  have "distinct (head i # as @ p # bs)" using linkedD(1,3,4)[OF D(3) i] c by auto
  then show "last (head i # as) \<noteq> p" by auto
  show "last (head i # as) \<noteq> 0" if "i \<noteq> 0"
    using last_cases[OF sub(1), of i] z that by (metis head_0 head_inj)
qed

text \<open>\<open>_db_dodelete\<close> rewrites the record first, then the free-list head, then the chain.\<close>

lemma delete_order:
  assumes I: "db_inv n f g os R cs U" and i: "i \<le> n" "i \<noteq> 0" and c: "cs i = as @ p # bs"
    and r: "rec_ok r" "rec_size r = rec_size (R p)"
  defines "q \<equiv> last (head i # as)"
  shows "put_ptr (put_ptr (put_rec f p (ptr_at f 0) r) 0 p) q (ptr_at f p) =
    put_ptr (put_rec (put_ptr f q (ptr_at f p)) p (ptr_at f 0) r) 0 p"
proof -
  note L = db_invD(2)[OF I] and C = on_chain[OF I i(1) c, folded q_def]
  have v: "int (ptr_at f 0) \<le> PTR_MAX" "int (ptr_at f p) \<le> PTR_MAX" "int p \<le> PTR_MAX"
    using head_ptr_bound[OF I le0] next_ptr_bound[OF I i(1) c] layoutD(4)[OF L C(1)] by simp_all
  show ?thesis
    using put_ptr_commute[OF put_rec_layout(1)[OF L C(1) v(1) r] zero_field C(4) _ v(3,2)]
      put_rec_ptr_commute[OF L C(4) C(1) C(5) v(1,2) r(2)] C(6)[OF i(2)] by simp
qed

lemma delete_files:
  assumes I: "db_inv n f g os R cs {}" and h: "h < n" and c: "cs (Suc h) = as @ p # bs"
  defines "r \<equiv> R p" and "q \<equiv> last (head (Suc h) # as)"
  defines "r' \<equiv> r\<lparr>r_key := blanks (length (r_key r))\<rparr>"
  defines "g' \<equiv> overwrite g (r_off r) (blanks (r_len r - 1) @ [NL])"
  defines "f' \<equiv> put_ptr (put_ptr (put_rec f p (ptr_at f 0) r') 0 p) q (ptr_at f p)"
  defines "cs' \<equiv> cs(Suc h := as @ bs, 0 := p # cs 0)"
  shows "db_inv n f' g' os (R(p := r')) cs' {}"
    and "contents n g' (R(p := r')) cs' = (contents n g R cs)(r_key r := None)"
proof -
  have i: "Suc h \<le> n" "Suc h \<noteq> 0" using h by simp_all
  note C = on_chain[OF I i(1) c, folded q_def] and v = head_ptr_bound[OF I le0, simplified]
  have r': "rec_ok r'" "rec_size r' = rec_size (R p)" "r_off r' = r_off (R p)" "r_len r' = r_len (R p)"
    using rec_ok_key[OF C(3)] by (simp_all add: r'_def r_def)
  have len: "length (blanks (r_len r - 1)) + 1 = r_len (R p)"
    using C(3) by (simp add: r_def rec_ok_def)
  let ?f1 = "put_ptr f q (ptr_at f p)" and ?c1 = "cs(Suc h := as @ bs)"
  let ?f2 = "put_rec ?f1 p (ptr_at f 0) r'"
  note S1 = step_unlink[OF I i(1) c, folded q_def]
  note S2 = step_data[OF S1(1) C(1) blanks_ok(2) len, folded r_def, folded g'_def]
  note S3 = step_rewrite[OF S2(1) insertI1 v r']
  have n2: "ptr_at ?f2 p = ptr_at f 0" "ptr_at ?f2 (head 0) = ptr_at f 0"
    using S3(2)[of p] S3(2)[OF zero_field] S1(2)[OF zero_field] C by simp_all
  have K: "keyed n (R(p := r')) (?c1(0 := p # ?c1 0))"
    using db_invD(4)[OF S3(1)] by (simp add: keyed_def r'_def)
  show "db_inv n f' g' os (R(p := r')) cs' {}"
    using step_push[OF S3(1) insertI1 le0 _ K] n2 delete_order[OF I i c r'(1,2), folded q_def]
    by (simp add: f'_def cs'_def)
  have "contents n g' R ?c1 = contents n g R ?c1" using S2(3) by simp
  then show "contents n g' (R(p := r')) cs' = (contents n g R cs)(r_key r := None)"
    using S3(3) contents_unlink[OF db_invD(4)[OF I] h c] by (simp add: cs'_def contents_free r_def)
qed

text \<open>
  \<open>db_store\<close> reusing a free record: \<open>_db_findfree\<close> unlinks it, the data and the record are
  rewritten, and it is pushed on the chain of its hash value.
\<close>

lemma keyed_push:
  assumes K: "keyed n R cs" and h: "db_hash_of n (r_key (R p)) = h"
    and new: "\<forall>q\<in>set (cs (Suc h)). r_key (R q) \<noteq> r_key (R p)"
  shows "keyed n R (cs(Suc h := p # cs (Suc h)))"
proof -
  let ?c = "cs(Suc h := p # cs (Suc h))"
  have "(\<forall>q\<in>set (?c (Suc j)). db_hash_of n (r_key (R q)) = j) \<and>
      distinct (map (\<lambda>q. r_key (R q)) (?c (Suc j)))" if j: "j < n" for j
    using keyedD[OF K j] h new by (cases "j = h") auto
  moreover have "\<forall>q\<in>set (?c 0). blank (r_key (R q))" using K by (simp add: keyed_def)
  ultimately show ?thesis by (simp only: keyed_def simp_thms) blast
qed

lemma reuse_files:
  assumes I: "db_inv n f g os R cs {}" and c: "cs 0 = as @ p # bs"
    and k: "is_cstr k" "SEP \<notin> set k" "length k = length (r_key (R p))"
    and d: "is_cstr d" "length d + 1 = r_len (R p)"
    and new: "contents n g R cs k = None"
  defines "h \<equiv> db_hash_of n k" and "r' \<equiv> (R p)\<lparr>r_key := k\<rparr>"
  defines "f1 \<equiv> put_ptr f (last (head 0 # as)) (ptr_at f p)"
  defines "f' \<equiv> put_ptr (put_rec f1 p (ptr_at f (head (Suc h))) r') (head (Suc h)) p"
  defines "g' \<equiv> overwrite g (r_off (R p)) (d @ [NL])"
  defines "cs' \<equiv> cs(0 := as @ bs, Suc h := p # cs (Suc h))"
  shows "db_inv n f' g' os (R(p := r')) cs' {}"
    and "contents n g' (R(p := r')) cs' = (contents n g R cs)(k \<mapsto> d)"
proof -
  note D = db_invD[OF I] and C = on_chain[OF I le0 c]
  have i: "Suc h \<le> n" "h < n" using Suc_hash_le[OF D(1)] hash_less[OF D(1)] by (simp_all add: h_def)
  have r': "rec_ok r'" "rec_size r' = rec_size (R p)" "r_off r' = r_off (R p)" "r_len r' = r_len (R p)"
    using rec_ok_key[OF C(3)] k by (simp_all add: r'_def)
  let ?c1 = "cs(0 := as @ bs)" and ?v = "ptr_at f (head (Suc h))"
  note S1 = step_unlink[OF I le0 c, folded f1_def]
  note S2 = step_data[OF S1(1) C(1) d, folded g'_def]
  note S3 = step_rewrite[OF S2(1) insertI1 head_ptr_bound[OF I i(1)] r']
  have hs: "head (Suc h) \<in> fields n os" "head (Suc h) \<noteq> p"
    using i C(1) linkedD(1)[OF D(3) i(1)] by auto
  have "set as \<subseteq> set os" using linkedD(4)[OF D(3) le0] c by auto
  from last_cases[OF this, of 0] have "last (head 0 # as) \<noteq> head (Suc h)"
    using linkedD(1)[OF D(3) i(1)] by (metis head_inj nat.distinct(1))
  then have n2: "ptr_at (put_rec f1 p ?v r') p = ?v" "ptr_at (put_rec f1 p ?v r') (head (Suc h)) = ?v"
    using S3(2)[of p] S3(2)[OF hs(1)] S1(2)[OF hs(1)] C(1) hs(2) by auto
  have fresh: "r_key ((R(p := r')) q) \<noteq> k" if "q \<in> set (?c1 (Suc h))" for q
    using new contents_None[OF D(4) D(1)] that off_chain[OF S3(1) insertI1 i(2)] by (auto simp: h_def)
  have K: "keyed n (R(p := r')) (?c1(Suc h := p # ?c1 (Suc h)))"
    using keyed_push[OF db_invD(4)[OF S3(1)], of p h] fresh by (simp add: r'_def h_def)
  show "db_inv n f' g' os (R(p := r')) cs' {}"
    using step_push[OF S3(1) insertI1 i(1) _ K] n2 by (simp add: f'_def cs'_def)
  have "contents n g' (R(p := r')) ?c1 = contents n g R cs"
    using S2(3) S3(3) by (simp add: contents_free)
  moreover have "rec_data g' r' = d" using S2(2) r'(3,4) by (simp add: rec_data_def)
  ultimately show "contents n g' (R(p := r')) cs' = (contents n g R cs)(k \<mapsto> d)"
    using contents_push[of n "R(p := r')" p h g' ?c1] by (simp add: cs'_def r'_def h_def)
qed

text \<open>\<open>db_store\<close> appending a record to both files.\<close>

lemma append_files:
  assumes I: "db_inv n f g os R cs {}" and r: "rec_ok r" "r_off r = length g" "r_len r = length d + 1"
    and d: "is_cstr d" and room: "int (length f) \<le> PTR_MAX"
    and new: "contents n g R cs (r_key r) = None"
  defines "h \<equiv> db_hash_of n (r_key r)" and "e \<equiv> length f"
  defines "f' \<equiv> put_ptr (put_rec f e (ptr_at f (head (Suc h))) r) (head (Suc h)) e"
  defines "cs' \<equiv> cs(Suc h := e # cs (Suc h))"
  shows "db_inv n f' (g @ d @ [NL]) (os @ [e]) (R(e := r)) cs' {}"
    and "contents n (g @ d @ [NL]) (R(e := r)) cs' = (contents n g R cs)(r_key r \<mapsto> d)"
proof -
  note D = db_invD[OF I]
  have i: "Suc h \<le> n" "h < n" using Suc_hash_le[OF D(1)] hash_less[OF D(1)] by (simp_all add: h_def)
  let ?v = "ptr_at f (head (Suc h))"
  note S1 = step_append[OF I head_ptr_bound[OF I i(1)] r d room, folded e_def]
  have "head (Suc h) \<noteq> e" using layoutD(8)[OF D(2)] head_hdr[OF i(1)] by (simp add: e_def)
  then have n2: "ptr_at (put_rec f e ?v r) e = ptr_at (put_rec f e ?v r) (head (Suc h))"
    using S1(2)[of e] S1(2)[of "head (Suc h)"] i by simp
  have fresh: "r_key ((R(e := r)) q) \<noteq> r_key r" if "q \<in> set (cs (Suc h))" for q
    using new contents_None[OF D(4) D(1)] that off_chain[OF S1(1) insertI1 i(2)] by (auto simp: h_def)
  have K: "keyed n (R(e := r)) cs'"
    unfolding cs'_def using keyed_push[OF db_invD(4)[OF S1(1)], of e h] fresh by (simp add: h_def)
  show "db_inv n f' (g @ d @ [NL]) (os @ [e]) (R(e := r)) cs' {}"
    using step_push[OF S1(1) insertI1 i(1) n2 K[unfolded cs'_def]] by (simp add: f'_def cs'_def)
  show "contents n (g @ d @ [NL]) (R(e := r)) cs' = (contents n g R cs)(r_key r \<mapsto> d)"
    using contents_push[of n "R(e := r)" e h "g @ d @ [NL]" cs] S1(3,4) by (simp add: cs'_def h_def)
qed

lemma length_put_ptr: "int v \<le> PTR_MAX \<Longrightarrow> q + PTR_SZ \<le> length f \<Longrightarrow> length (put_ptr f q v) = length f"
  by (simp add: put_ptr_def length_overwrite length_fmt_ptr)

lemma length_put_rec:
  "int v \<le> PTR_MAX \<Longrightarrow> p + rec_size r \<le> length f \<Longrightarrow> length (put_rec f p v r) = length f"
  by (simp add: put_rec_def length_overwrite length_fmt_ptr0 rec_size_def)

text \<open>A record stays where it is, so two layouts of the same records have the same length.\<close>

lemma layout_length:
  assumes "layout n f os R" and "layout n f' os R'" and "\<And>p. p \<in> set os \<Longrightarrow> rec_size (R' p) = rec_size (R p)"
  shows "length f' = length f"
proof -
  have "tiles sz p qs e \<Longrightarrow> tiles sz p qs e' \<Longrightarrow> e = e'" for sz p qs e e'
    by (induction qs arbitrary: p) auto
  moreover have "tiles (\<lambda>p. rec_size (R p)) (hdr n) os (length f')"
    using layoutD(1)[OF assms(2)] assms(3) by (subst tiles_cong[where sz' = "\<lambda>p. rec_size (R' p)"]) simp_all
  ultimately show ?thesis using layoutD(1)[OF assms(1)] by blast
qed

lemma same_length:
  assumes "db_inv n f g os R cs U" and "db_inv n f' g' os (R(p := (R p)\<lparr>r_key := k\<rparr>)) cs' U'"
    and "p \<in> set os" and "length k = length (r_key (R p))"
  shows "length f' = length f"
proof (rule layout_length[OF db_invD(2)[OF assms(1)] db_invD(2)[OF assms(2)]])
  fix q
  have "rec_ok ((R p)\<lparr>r_key := k\<rparr>)" "rec_ok (R p)"
    using layoutD(3)[OF db_invD(2)[OF assms(2)] assms(3)] layoutD(3)[OF db_invD(2)[OF assms(1)] assms(3)]
    by simp_all
  then show "rec_size ((R(p := (R p)\<lparr>r_key := k\<rparr>)) q) = rec_size (R q)"
    using assms(4) by (simp add: rec_size_eq rec_text_def idx_text_def)
qed

lemma data_length:
  assumes "db_inv n f g os R cs U" and "p \<in> set os" and "length d + 1 = r_len (R p)"
  shows "length (overwrite g (r_off (R p)) (d @ [NL])) = length g"
  using db_invD(5)[OF assms(1)] assms(2,3) by (auto simp: dat_inv_def data_ok_def)

end
