(* ===== verification/Db_Ops.thy ===== *)
theory Db_Ops
  imports Db_Steps
begin

text \<open>
  Each internal function of \<^verbatim>\<open>db.c\<close> run on a well-formed database: \<open>_db_find\<close>,
  \<open>_db_dodelete\<close> and \<open>_db_findfree\<close> return, and perform the file updates of the steps they
  are made of; then \<open>db_fetch\<close> and \<open>db_delete\<close>.
\<close>

subsection \<open>Searching a chain\<close>

text \<open>The database that a state holds, with its records \<open>os\<close>, \<open>R\<close> and its chains \<open>cs\<close>.\<close>

definition holds :: "dbs \<Rightarrow> nat list \<Rightarrow> (nat \<Rightarrow> irec) \<Rightarrow> (nat \<Rightarrow> nat list) \<Rightarrow> nat set \<Rightarrow> bool" where
  "holds s os R cs U \<longleftrightarrow> db_ready s \<and> db_inv (nhash s) (idxf s) (datf s) os R cs U \<and>
     length (idxf s) \<le> w_limit s \<and> length (datf s) \<le> w_limit s"

text \<open>
  What \<open>_db_find\<close> leaves in the structure when the record is at \<open>p\<close>, after the records
  \<open>as\<close> of the chain that starts at the field \<open>q\<close>.
\<close>

definition current :: "string \<Rightarrow> (nat \<Rightarrow> irec) \<Rightarrow> nat \<Rightarrow> dbs \<Rightarrow> bool" where
  "current f R p t \<longleftrightarrow>
     cur t = (r_key (R p), int p, int (r_off (R p)), int (r_len (R p)), int (ptr_at f p))"

lemma holdsD:
  assumes "holds s os R cs U"
  shows "db_ready s" "db_inv (nhash s) (idxf s) (datf s) os R cs U"
    "length (idxf s) \<le> w_limit s" "length (datf s) \<le> w_limit s"
  using assms by (simp_all add: holds_def)

lemma holds_became:
  assumes "holds s os R cs U" and "became s f g L M t" and "db_inv (nhash s) f g os' R' cs' U'"
    and "length f \<le> w_limit s" and "length g \<le> w_limit s"
  shows "holds t os' R' cs' U'"
  using assms same_env_ready[of s t] same_env_sel[of s t] by (simp add: holds_def became_def)

lemma holds_quiet: "holds s os R cs U \<Longrightarrow> quiet s t \<Longrightarrow> holds t os R cs U"
  using holds_became[of s os R cs U "idxf s" "datf s" "idx_locks s" "dat_locks s" t os R cs U]
  by (simp add: quiet_became holds_def)

lemma fld_int: "layout n f os R \<Longrightarrow> p \<in> fields n os \<Longrightarrow> fld f p = int (ptr_at f p)"
  using layoutD(5)[of n f os R p] by (simp add: ptr_at_fld)

lemma readptr_field:
  assumes H: "holds s os R cs U" and p: "p \<in> fields (nhash s) os"
  shows "runs (db_readptr (int p)) s
    (\<lambda>v t. v = int (ptr_at (idxf s) p) \<and> quiet s t \<and> cur t = cur s \<and> offs t = offs s)"
proof -
  note D = holdsD[OF H]
  note L = db_invD(2)[OF D(2)]
  show ?thesis
    using readptr_runs[OF D(1) field_in_file[OF L p]] fld_int[OF L p] by (simp add: fld_def)
qed

lemma readidx_record:
  assumes H: "holds s os R cs U" and p: "p \<in> set os"
  shows "runs (db_readidx (int p)) s
    (\<lambda>v t. v = int (ptr_at (idxf s) p) \<and> quiet s t \<and> offs t = offs s \<and> current (idxf s) R p t)"
proof -
  note D = holdsD[OF H]
  note L = db_invD(2)[OF D(2)]
  have "0 < p" using layoutD(6)[OF L p] by (simp add: hdr_def)
  with readidx_runs[OF D(1) layoutD(2)[OF L p] layoutD(3)[OF L p], of "int p"] show ?thesis
    using fld_int[OF L] p by (simp add: fld_def current_def) (erule runs_conseq, simp)
qed

text \<open>
  The outcome of the search of the chain \<open>qs\<close> that starts at the field \<open>q\<close>: the first
  record with the key is current and \<open>ptroff\<close> is the field that points to it, or there is
  none.
\<close>

definition find_post :: "string \<Rightarrow> (nat \<Rightarrow> irec) \<Rightarrow> string \<Rightarrow> nat \<Rightarrow> nat list \<Rightarrow> int \<Rightarrow> dbs \<Rightarrow> bool" where
  "find_post f R key q qs v t \<longleftrightarrow>
     v = 0 \<and> (\<forall>p\<in>set qs. r_key (R p) \<noteq> key) \<or>
     (\<exists>as p bs. qs = as @ p # bs \<and> v = int p \<and> 0 < p \<and> r_key (R p) = key \<and>
        ptroff t = int (last (q # as)) \<and> current f R p t)"

lemma find_post_hd:
  "r_key (R p) = key \<Longrightarrow> 0 < p \<Longrightarrow> ptroff t = int q \<Longrightarrow> current f R p t \<Longrightarrow>
   find_post f R key q (p # qs) (int p) t"
  unfolding find_post_def by (rule disjI2, rule exI[of _ "[]"]) simp

lemma find_post_tl:
  "r_key (R p) \<noteq> key \<Longrightarrow> find_post f R key p qs v t \<Longrightarrow> find_post f R key q (p # qs) v t"
  unfolding find_post_def by (metis append_Cons last_ConsR list.distinct(1) set_ConsD)

lemma quiet_ptroff [simp]: "quiet s (t\<lparr>ptroff := x\<rparr>) = quiet s t"
  by (simp add: quiet_def same_env_def)

lemma find_loop_runs:
  assumes "holds s os R cs U" and "chain (ptr_at (idxf s)) q qs" and "set qs \<subseteq> set os"
    and "length qs < fuel" and "ptroff s = int q"
  shows "runs (find_loop fuel key (int (ptr_at (idxf s) q))) s (\<lambda>v t.
    quiet s t \<and> chainoff t = chainoff s \<and> find_post (idxf s) R key q qs v t)"
  using assms
proof (induction qs arbitrary: q s fuel)
  case Nil
  then show ?case by (cases fuel) (auto simp: wp find_post_def)
next
  case (Cons p qs)
  let ?Q = "\<lambda>v t. quiet s t \<and> chainoff t = chainoff s \<and> find_post (idxf s) R key q (p # qs) v t"
  obtain n where fuel: "fuel = Suc n" "length qs < n" using Cons.prems(4) by (cases fuel) auto
  have p: "ptr_at (idxf s) q = p" "p \<noteq> 0" "chain (ptr_at (idxf s)) p qs" "p \<in> set os" "set qs \<subseteq> set os"
    using Cons.prems(2,3) by auto
  have rest: "runs (find_loop n key (int (ptr_at (idxf s) p))) (t\<lparr>ptroff := int p\<rparr>) ?Q"
    if q: "quiet s t" and o: "chainoff t = chainoff s" and k: "r_key (R p) \<noteq> key" for t
  proof -
    let ?t = "t\<lparr>ptroff := int p\<rparr>"
    have qt: "quiet s ?t" using q by simp
    have f: "idxf ?t = idxf s" using q by (simp add: quiet_def)
    have "runs (find_loop n key (int (ptr_at (idxf ?t) p))) ?t (\<lambda>v t'.
        quiet ?t t' \<and> chainoff t' = chainoff ?t \<and> find_post (idxf ?t) R key p qs v t')"
      using p(3) f by (intro Cons.IH[OF holds_quiet[OF Cons.prems(1) qt] _ p(5) fuel(2)]) simp_all
    then show ?thesis unfolding f
      using k o quiet_trans[OF qt] by (elim runs_conseq) (auto intro: find_post_tl)
  qed
  have "runs (find_loop (Suc n) key (int p)) s ?Q"
    unfolding find_loop.simps using p(2)
  proof (simp, intro runs_step[OF readidx_record[OF Cons.prems(1) p(4)]], elim conjE)
    fix v t
    assume *: "v = int (ptr_at (idxf s) p)" "quiet s t" "offs t = offs s" "current (idxf s) R p t"
    then show "runs (bnd (gets idxbuf) (\<lambda>b. if b = key then ret (int p)
        else bnd (modify (\<lambda>s. s\<lparr>ptroff := int p\<rparr>)) (\<lambda>_. find_loop n key v))) t ?Q"
      using rest[of t] p(2) Cons.prems(5) find_post_hd[of R p key t q "idxf s" qs]
      by (auto simp: wp current_def cur_def offs_def)
  qed
  then show ?case unfolding p(1) fuel(1) .
qed

declare find_loop.simps [simp del] findfree_loop.simps [simp del] nextrec_loop.simps [simp del]

text \<open>A chain has fewer records than the file has bytes, so the loops' bound is never met.\<close>

lemma chain_length:
  assumes "db_inv n f g os R cs U" and "i \<le> n"
  shows "length (cs i) < Suc (length f)"
proof -
  note D = db_invD[OF assms(1)]
  have "set (cs i) \<subseteq> {..<length f}"
  proof
    fix p
    assume "p \<in> set (cs i)"
    then have "p \<in> set os" using linkedD(4)[OF D(3) assms(2)] by auto
    then show "p \<in> {..<length f}"
      using layoutD(7)[OF D(2), of p] by (simp add: rec_size_def db_consts)
  qed
  then have "card (set (cs i)) \<le> card {..<length f}" by (rule card_mono[OF finite_lessThan])
  then show ?thesis using distinct_card[OF linkedD(3)[OF D(3) assms(2)]] by simp
qed

lemma became_trans: "became s f g L M t \<Longrightarrow> became t f' g' L' M' u \<Longrightarrow> became s f' g' L' M' u"
  unfolding became_def by (blast intro: same_env_trans)

lemma became_quiet:
  assumes "became s f g L M t" and "quiet t u"
  shows "became s f g L M u"
  using became_trans[OF assms(1) assms(2)[unfolded quiet_became]] assms(1) by (simp add: became_def)

lemma chain_head: "int h * int PTR_SZ + HASH_OFF = int (head (Suc h))"
  by (simp add: head_def db_consts)

text \<open>The record with key \<open>k\<close> on the chain \<open>qs\<close> that starts at field \<open>q\<close> is current.\<close>

definition located :: "string \<Rightarrow> (nat \<Rightarrow> irec) \<Rightarrow> nat \<Rightarrow> nat list \<Rightarrow> string \<Rightarrow> dbs \<Rightarrow> bool" where
  "located f R q qs k t \<longleftrightarrow> (\<exists>as p bs. qs = as @ p # bs \<and> r_key (R p) = k \<and>
     ptroff t = int (last (q # as)) \<and> current f R p t)"

lemma find_post_cases:
  "find_post f R k q qs v t \<Longrightarrow>
   v = 0 \<and> (\<forall>p\<in>set qs. r_key (R p) \<noteq> k) \<or> v \<noteq> 0 \<and> located f R q qs k t"
  by (auto simp: find_post_def located_def)

text \<open>What \<open>_db_find\<close> establishes: the chain is locked and searched.\<close>

definition searched :: "dbs \<Rightarrow> (nat \<Rightarrow> irec) \<Rightarrow> (nat \<Rightarrow> nat list) \<Rightarrow> string \<Rightarrow> lock_type \<Rightarrow> int \<Rightarrow> dbs \<Rightarrow> bool"
where
  "searched s R cs k lk v t \<longleftrightarrow> (let i = Suc (db_hash_of (nhash s) k) in
     became s (idxf s) (datf s) ((idx_locks s)(head i := Some lk)) (dat_locks s) t \<and>
     chainoff t = int (head i) \<and>
     (v = -1 \<and> (\<forall>p\<in>set (cs i). r_key (R p) \<noteq> k) \<or>
      v = 0 \<and> located (idxf s) R (head i) (cs i) k t))"

lemma find_runs:
  fixes k :: string and w :: bool
  assumes H: "holds s os R cs U"
  defines "lk \<equiv> (if w then F_WRLCK else F_RDLCK)"
  shows "runs (db_find k w) s (searched s R cs k lk)"
proof -
  define h where "h = db_hash_of (nhash s) k"
  note D = holdsD[OF H]
  note I = db_invD[OF D(2)]
  let ?q = "head (Suc h)"
  have i: "Suc h \<le> nhash s" using Suc_hash_le[OF I(1)] by (simp add: h_def)
  let ?s1 = "set_lock (idxp s) lk ?q 1 (s\<lparr>chainoff := int ?q, ptroff := int ?q\<rparr>)"
  have b1: "became s (idxf s) (datf s) ((idx_locks s)(?q := Some lk)) (dat_locks s) ?s1"
    using D(1) by (auto simp: became_def same_env_def set_lock_at db_ready_def lk_def fun_eq_iff)
  have H1: "holds ?s1 os R cs U" using holds_became[OF H b1 D(2-4)] .
  have walk: "runs (bnd (gets (\<lambda>s. Suc (length (idxf s)))) (\<lambda>fuel. bnd (find_loop fuel k v)
      (\<lambda>x. if x = 0 then ret (-1) else ret 0))) t (searched s R cs k lk)"
    if "v = int (ptr_at (idxf s) ?q)" "quiet ?s1 t" "offs t = (int ?q, int ?q)" for v t
  proof -
    have bt: "became s (idxf s) (datf s) ((idx_locks s)(?q := Some lk)) (dat_locks s) t"
      using became_quiet[OF b1 that(2)] .
    have f: "idxf t = idxf s" and nh: "nhash t = nhash s"
      using bt same_env_sel(3)[of s t] by (simp_all add: became_def)
    have Ht: "holds t os R cs U" using holds_quiet[OF H1 that(2)] .
    have "chain (ptr_at (idxf t)) ?q (cs (Suc h))" "set (cs (Suc h)) \<subseteq> set os"
      using linkedD(2,4)[OF I(3) i] f by simp_all
    then have "runs (find_loop (Suc (length (idxf t))) k (int (ptr_at (idxf t) ?q))) t (\<lambda>v t'.
        quiet t t' \<and> chainoff t' = chainoff t \<and> find_post (idxf t) R k ?q (cs (Suc h)) v t')"
      using chain_length[OF D(2) i] that(3) f
      by (intro find_loop_runs[OF Ht]) (simp_all add: offs_def)
    then show ?thesis
      unfolding runs_bnd runs_gets that(1) f[symmetric]
      by (rule runs_conseq) (use that(3) became_quiet[OF bt] in
        \<open>auto simp: wp offs_def f searched_def h_def[symmetric] dest!: find_post_cases\<close>)
  qed
  have r: "rdwr s (idxfd s)" "unshared s (idxp s)" "hashoff s = HASH_OFF"
    using D(1) by (simp_all add: db_ready_def)
  have fld: "?q \<in> fields (nhash ?s1) os" using i by simp
  have "runs (bnd (db_readptr (int ?q)) (\<lambda>v. bnd (gets (\<lambda>s. Suc (length (idxf s)))) (\<lambda>fuel.
      bnd (find_loop fuel k v) (\<lambda>x. if x = 0 then ret (-1) else ret 0)))) ?s1 (searched s R cs k lk)"
    by (rule runs_step[OF readptr_field[OF H1 fld]]) (use walk in \<open>simp add: offs_def\<close>)
  then show ?thesis
    using r by (cases w) (simp_all add: db_find_def db_hash_def wp h_def[symmetric] chain_head lk_def)
qed

subsection \<open>Locks\<close>

lemma set_lock_became:
  assumes "db_ready t"
  shows "became t (idxf t) (datf t) ((idx_locks t)(q := (if l = F_UNLCK then None else Some l)))
    (dat_locks t) (set_lock (idxp t) l q (Suc 0) t)"
  using assms by (auto simp: became_def same_env_def set_lock_at db_ready_def fun_eq_iff)

lemma unlock_runs:
  assumes "db_ready t"
  shows "runs (un_lock (idxfd t) (int q) SEEK_SET 1) t (\<lambda>v u. v = 0 \<and> cur u = cur t \<and> offs u = offs t \<and>
    became t (idxf t) (datf t) ((idx_locks t)(q := None)) (dat_locks t) u)"
  using assms set_lock_became[OF assms, of q F_UNLCK]
  by (simp add: wp db_ready_def cur_def offs_def)

lemma wrlock_runs:
  assumes "db_ready t"
  shows "runs (writew_lock (idxfd t) (int q) SEEK_SET 1) t (\<lambda>v u. v = 0 \<and> cur u = cur t \<and> offs u = offs t \<and>
    became t (idxf t) (datf t) ((idx_locks t)(q := Some F_WRLCK)) (dat_locks t) u)"
  using assms set_lock_became[OF assms, of q F_WRLCK]
  by (simp add: wp db_ready_def cur_def offs_def)

lemma became_ready: "became s f g L M t \<Longrightarrow> db_ready s \<Longrightarrow> db_ready t"
  using same_env_ready[of s t] by (simp add: became_def)

lemma became_sel:
  assumes "became s f g L M t"
  shows "idxf t = f" "datf t = g" "idx_locks t = L" "dat_locks t = M" "idxfd t = idxfd s"
    "nhash t = nhash s" "w_limit t = w_limit s"
  using assms same_env_sel[of s t] by (simp_all add: became_def)

lemma became_own: "became s f g L M t \<Longrightarrow> self_print t = self_print s"
  using same_env_own[of s t] by (simp add: became_def)

text \<open>The common end of the operations: count, then unlock the chain \<open>_db_find\<close> locked.\<close>

lemma finish_runs:
  assumes R: "db_ready s" and B: "became s f g (L(q := x)) M t" and c: "chainoff t = int q"
  shows "runs (bnd (gets (\<lambda>s. (idxfd s, chainoff s))) (\<lambda>(fd, co). bnd (un_lock fd co SEEK_SET 1) (\<lambda>r.
    if r < 0 then err_dump ''un_lock error'' else ret v))) t
    (\<lambda>v' u. v' = v \<and> became s f g (L(q := None)) M u)"
proof -
  note U = unlock_runs[OF became_ready[OF B R], of q]
  have "became s f g (L(q := None)) M u"
    if "became t (idxf t) (datf t) ((idx_locks t)(q := None)) (dat_locks t) u" for u
    using became_trans[OF B that] became_sel[OF B] by simp
  then show ?thesis
    unfolding runs_bnd runs_gets prod.case c by (intro runs_conseq[OF U]) (auto simp: wp)
qed

lemma became_counts [simp]:
  "became s f g L M (t\<lparr>cnt_fetchok := x\<rparr>) = became s f g L M t"
  "became s f g L M (t\<lparr>cnt_fetcherr := x\<rparr>) = became s f g L M t"
  "became s f g L M (t\<lparr>cnt_delok := x\<rparr>) = became s f g L M t"
  "became s f g L M (t\<lparr>cnt_delerr := x\<rparr>) = became s f g L M t"
  "became s f g L M (t\<lparr>cnt_stor1 := x\<rparr>) = became s f g L M t"
  "became s f g L M (t\<lparr>cnt_stor2 := x\<rparr>) = became s f g L M t"
  "became s f g L M (t\<lparr>cnt_stor3 := x\<rparr>) = became s f g L M t"
  "became s f g L M (t\<lparr>cnt_stor4 := x\<rparr>) = became s f g L M t"
  "became s f g L M (t\<lparr>cnt_storerr := x\<rparr>) = became s f g L M t"
  "became s f g L M (t\<lparr>cnt_nextrec := x\<rparr>) = became s f g L M t"
  by (simp_all add: became_def same_env_def)

subsection \<open>Fetching\<close>

lemma readdat_record:
  assumes H: "holds s os R cs U" and p: "p \<in> set os"
    and c: "datoff s = int (r_off (R p))" "datlen s = int (r_len (R p))"
  shows "runs db_readdat s (\<lambda>v t. v = rec_data (datf s) (R p) \<and> quiet s t \<and> offs t = offs s \<and>
    cur t = cur s \<and> fd_pos t (idxfd t) = fd_pos s (idxfd s))"
proof -
  note D = holdsD[OF H]
  have ok: "data_ok (datf s) (R p)" using db_invD(5)[OF D(2)] p by (simp add: dat_inv_def)
  then have l: "length (rec_data (datf s) (R p)) + 1 = r_len (R p)"
    by (auto simp: data_ok_def rec_data_def)
  show ?thesis
    using ok l c by (intro readdat_runs[OF D(1) c(1)]) (auto simp: data_ok_def)
qed

lemma current_sel:
  assumes "current f R p t"
  shows "idxbuf t = r_key (R p)" "idxoff t = int p" "datoff t = int (r_off (R p))"
    "datlen t = int (r_len (R p))" "ptrval t = int (ptr_at f p)"
  using assms by (simp_all add: current_def cur_def)

text \<open>
  A database at rest: no chain is locked. The three operations on a key have one shape:
  \<open>_db_find\<close> locks and searches the chain, the body works on the files, the chain is
  unlocked.
\<close>

definition rep :: "dbs \<Rightarrow> nat list \<Rightarrow> (nat \<Rightarrow> irec) \<Rightarrow> (nat \<Rightarrow> nat list) \<Rightarrow> bool" where
  "rep s os R cs \<longleftrightarrow> holds s os R cs {} \<and> idx_locks s = (\<lambda>_. None) \<and> dat_locks s = (\<lambda>_. None)"

abbreviation one_lock :: "nat \<Rightarrow> lock_type \<Rightarrow> nat \<Rightarrow> lock_type option" where
  "one_lock q l \<equiv> (\<lambda>_. None)(q := Some l)"

abbreviation chain_of :: "dbs \<Rightarrow> string \<Rightarrow> nat" where
  "chain_of s k \<equiv> Suc (db_hash_of (nhash s) k)"

lemma searched_cases:
  assumes "rep s os R cs" and "searched s R cs k lk r t"
  obtains (none) "r = -1" "contents (nhash s) (datf s) R cs k = None"
  | (found) as p bs where "r = 0" "cs (chain_of s k) = as @ p # bs" "r_key (R p) = k"
      "ptroff t = int (last (head (chain_of s k) # as))" "current (idxf s) R p t"
      "contents (nhash s) (datf s) R cs k = Some (rec_data (datf s) (R p))"
proof -
  have I: "keyed (nhash s) R cs" "0 < nhash s"
    using assms(1) by (auto simp: rep_def holds_def db_inv_def)
  from assms(2) consider "r = -1" "\<forall>p\<in>set (cs (chain_of s k)). r_key (R p) \<noteq> k"
    | "r = 0" "located (idxf s) R (head (chain_of s k)) (cs (chain_of s k)) k t"
    by (auto simp: searched_def Let_def)
  then show thesis
  proof cases
    case 1
    then show thesis using contents_None[OF I] none by simp
  next
    case 2
    from 2(2) obtain as p bs where c: "cs (chain_of s k) = as @ p # bs" "r_key (R p) = k"
      "ptroff t = int (last (head (chain_of s k) # as))" "current (idxf s) R p t"
      unfolding located_def by blast
    then have "contents (nhash s) (datf s) R cs k = Some (rec_data (datf s) (R p))"
      using contents_at[OF I, of p] by simp
    with 2(1) c show thesis by (rule found)
  qed
qed

lemma searched_state:
  assumes "rep s os R cs" and "searched s R cs k lk r t"
  shows "became s (idxf s) (datf s) (one_lock (head (chain_of s k)) lk) (\<lambda>_. None) t"
    and "chainoff t = int (head (chain_of s k))" and "holds t os R cs {}"
  using assms holds_became[of s os R cs "{}" "idxf s" "datf s" _ _ t os R cs "{}"]
  by (auto simp: searched_def rep_def holds_def Let_def)

lemma op_runs:
  fixes k :: string and w :: bool
  assumes rep: "rep s os R cs"
  defines "lk \<equiv> (if w then F_WRLCK else F_RDLCK)" and "q \<equiv> head (chain_of s k)"
  assumes body: "\<And>r t. searched s R cs k lk r t \<Longrightarrow> runs (body r) t (\<lambda>v u. chainoff u = int q \<and>
    (\<exists>f g. became s f g (one_lock q lk) (\<lambda>_. None) u \<and> P v f g))"
  shows "runs (bnd (db_find k w) (\<lambda>r. bnd (body r) (\<lambda>v.
    bnd (gets (\<lambda>s. (idxfd s, chainoff s))) (\<lambda>(fd, co). bnd (un_lock fd co SEEK_SET 1) (\<lambda>r.
    if r < 0 then err_dump ''un_lock error'' else ret v))))) s
    (\<lambda>v u. \<exists>f g. became s f g (\<lambda>_. None) (\<lambda>_. None) u \<and> P v f g)"
proof -
  have H: "holds s os R cs {}" using rep by (simp add: rep_def)
  show ?thesis
  proof (rule runs_step[OF find_runs[OF H]], rule runs_step)
    fix r t
    assume "searched s R cs k (if w then F_WRLCK else F_RDLCK) r t"
    then show "runs (body r) t (\<lambda>v u. chainoff u = int q \<and>
      (\<exists>f g. became s f g (one_lock q lk) (\<lambda>_. None) u \<and> P v f g))"
      using body by (simp add: lk_def)
  next
    fix v t
    assume "chainoff t = int q \<and> (\<exists>f g. became s f g (one_lock q lk) (\<lambda>_. None) t \<and> P v f g)"
    then obtain f g where B: "became s f g (one_lock q lk) (\<lambda>_. None) t" and c: "chainoff t = int q"
      and P: "P v f g" by blast
    show "runs (bnd (gets (\<lambda>s. (idxfd s, chainoff s))) (\<lambda>(fd, co). bnd (un_lock fd co SEEK_SET 1) (\<lambda>r.
        if r < 0 then err_dump ''un_lock error'' else ret v))) t
        (\<lambda>v u. \<exists>f g. became s f g (\<lambda>_. None) (\<lambda>_. None) u \<and> P v f g)"
      by (rule runs_conseq[OF finish_runs[OF holdsD(1)[OF H] B c]]) (use P in auto)
  qed
qed

lemma fetch_runs:
  assumes rep: "rep s os R cs"
  shows "runs (db_fetch k) s (\<lambda>v u. \<exists>f g. became s f g (\<lambda>_. None) (\<lambda>_. None) u \<and>
    (v = contents (nhash s) (datf s) R cs k \<and> f = idxf s \<and> g = datf s))"
  unfolding db_fetch_def
proof (rule op_runs[OF rep], unfold if_False)
  let ?P = "\<lambda>v u. chainoff u = int (head (chain_of s k)) \<and>
    (\<exists>f g. became s f g (one_lock (head (chain_of s k)) F_RDLCK) (\<lambda>_. None) u \<and>
      (v = contents (nhash s) (datf s) R cs k \<and> f = idxf s \<and> g = datf s))"
  fix r t
  assume S: "searched s R cs k F_RDLCK r t"
  note T = searched_state[OF rep S]
  from rep S show "runs (if r < 0
      then bnd (modify (\<lambda>s. s\<lparr>cnt_fetcherr := cnt_fetcherr s + 1\<rparr>)) (\<lambda>_. ret None)
      else bnd db_readdat (\<lambda>d. bnd (modify (\<lambda>s. s\<lparr>cnt_fetchok := cnt_fetchok s + 1\<rparr>)) (\<lambda>_.
        ret (Some d)))) t ?P"
  proof (cases rule: searched_cases)
    case none
    then show ?thesis using T by (simp add: wp)
  next
    case (found as p bs)
    have I: "db_inv (nhash s) (idxf s) (datf s) os R cs {}" using rep by (simp add: rep_def holds_def)
    have p: "p \<in> set os" using on_chain(1)[OF I _ found(2)] Suc_hash_le[OF db_invD(1)[OF I]] .
    show ?thesis
      using found(1,6) T became_sel(2)[OF T(1)] became_quiet[OF T(1)]
      by (auto simp: wp offs_def
          intro!: runs_conseq[OF readdat_record[OF T(3) p current_sel(3,4)[OF found(5)]]])
  qed
qed

subsection \<open>Deleting\<close>

lemma writedat_at:
  assumes "holds t os R cs U" and "a + length d + 1 \<le> length (datf t)"
  shows "runs (db_writedat d (int a) SEEK_SET) t (\<lambda>_ u. offs u = offs t \<and>
    cur u = (idxbuf t, idxoff t, int a, int (length d) + 1, ptrval t) \<and>
    became t (idxf t) (overwrite (datf t) a (d @ [NL])) (idx_locks t) (dat_locks t) u)"
  using writedat_runs[OF holdsD(1)[OF assms(1)], of a d SEEK_SET "int a"] assms holdsD(4)[OF assms(1)]
  by simp

lemma writeptr_field:
  assumes "db_ready t" and "q + PTR_SZ \<le> w_limit t" and "int v \<le> PTR_MAX"
  shows "runs (db_writeptr (int q) (int v)) t (\<lambda>_ u. cur u = cur t \<and> offs u = offs t \<and>
    became t (put_ptr (idxf t) q v) (datf t) (idx_locks t) (dat_locks t) u)"
  unfolding put_ptr_def by (rule writeptr_runs[OF assms])

lemma writeidx_at:
  assumes "db_ready t" and "rec_ok r" and "int v \<le> PTR_MAX"
    and "datoff t = int (r_off r)" "datlen t = int (r_len r)" and "p + rec_size r \<le> w_limit t"
    and "own \<longrightarrow> self_print t"
  shows "runs (db_writeidx own (r_key r) (int p) SEEK_SET (int v)) t (\<lambda>_ u. offs u = offs t \<and>
    idxoff u = int p \<and> became t (put_rec (idxf t) p v r) (datf t) (idx_locks t) (dat_locks t) u)"
  unfolding put_rec_def using writeidx_runs[OF assms(1-6) _ assms(7), of SEEK_SET "int p"] by simp

lemma became_bufs [simp]:
  "became s f g L M (t\<lparr>datbuf := x\<rparr>) = became s f g L M t"
  "became s f g L M (t\<lparr>idxbuf := x\<rparr>) = became s f g L M t"
  by (simp_all add: became_def same_env_def)

lemma became_refl: "became t (idxf t) (datf t) (idx_locks t) (dat_locks t) t"
  by (simp add: became_def)

text \<open>The record is rewritten, then the free-list head, then the field before the record.\<close>

lemma relink_steps:
  assumes R: "db_ready t" and r: "rec_ok r" "datoff t = int (r_off r)" "datlen t = int (r_len r)"
    and v: "int v \<le> PTR_MAX" "int w \<le> PTR_MAX" "int p \<le> PTR_MAX"
    and room: "PTR_SZ \<le> w_limit t" "q + PTR_SZ \<le> w_limit t" "p + rec_size r \<le> w_limit t"
    and own: "self_print t"
  shows "\<exists>t1 t2 t3. db_writeidx True (r_key r) (int p) SEEK_SET (int v) t = Ok () t1 \<and>
    idxoff t1 = int p \<and> db_writeptr 0 (int p) t1 = Ok () t2 \<and> ptroff t2 = ptroff t \<and>
    db_writeptr (int q) (int w) t2 = Ok () t3 \<and> offs t3 = offs t \<and>
    became t (put_ptr (put_ptr (put_rec (idxf t) p v r) 0 p) q w) (datf t)
      (idx_locks t) (dat_locks t) t3"
proof -
  obtain t1 where 1: "db_writeidx True (r_key r) (int p) SEEK_SET (int v) t = Ok () t1"
      "idxoff t1 = int p" "offs t1 = offs t"
      "became t (put_rec (idxf t) p v r) (datf t) (idx_locks t) (dat_locks t) t1"
    using writeidx_at[OF R r(1) v(1) r(2,3) room(3), of True] own by (auto elim!: runsE)
  note S1 = became_sel[OF 1(4)]
  obtain t2 where 2: "db_writeptr 0 (int p) t1 = Ok () t2" "offs t2 = offs t1"
      "became t (put_ptr (put_rec (idxf t) p v r) 0 p) (datf t) (idx_locks t) (dat_locks t) t2"
    using writeptr_field[OF became_ready[OF 1(4) R] _ v(3), of 0] room S1
    by (auto elim!: runsE dest: became_trans[OF 1(4)])
  note S2 = became_sel[OF 2(3)]
  obtain t3 where 3: "db_writeptr (int q) (int w) t2 = Ok () t3" "offs t3 = offs t2"
      "became t (put_ptr (put_ptr (put_rec (idxf t) p v r) 0 p) q w) (datf t) (idx_locks t) (dat_locks t) t3"
    using writeptr_field[OF became_ready[OF 2(3) R] _ v(2), of q] room S2
    by (auto elim!: runsE dest: became_trans[OF 2(3)])
  from 1 2 3 show ?thesis by (intro exI[of _ t1] exI[of _ t2] exI[of _ t3]) (simp add: offs_def)
qed

text \<open>The free list is locked, the data blanked and the free-list head read.\<close>

lemma blank_steps:
  assumes H: "holds t os R cs {}" and p: "p \<in> set os" and cu: "current (idxf t) R p t"
  defines "r \<equiv> R p" and "b \<equiv> blanks (r_len (R p) - 1)"
  defines "L \<equiv> (idx_locks t)(0 := Some F_WRLCK)"
  shows "\<exists>t1 t2 t3. writew_lock (idxfd t) 0 SEEK_SET 1
      (t\<lparr>datbuf := b, idxbuf := blanks (length (r_key r))\<rparr>) = Ok 0 t1 \<and>
    datbuf t1 = b \<and> datoff t1 = int (r_off r) \<and> db_writedat b (int (r_off r)) SEEK_SET t1 = Ok () t2 \<and>
    db_readptr 0 t2 = Ok (int (ptr_at (idxf t) 0)) t3 \<and> offs t3 = offs t \<and>
    cur t3 = (blanks (length (r_key r)), int p, int (r_off r), int (r_len r), int (ptr_at (idxf t) p)) \<and>
    became t (idxf t) (overwrite (datf t) (r_off r) (b @ [NL])) L (dat_locks t) t3"
proof -
  note D = holdsD[OF H]
  note Lay = db_invD(2)[OF D(2)] and c = current_sel[OF cu, folded r_def]
  let ?t = "t\<lparr>datbuf := b, idxbuf := blanks (length (r_key r))\<rparr>"
  define t1 where "t1 = set_lock (idxp t) F_WRLCK 0 1 ?t"
  have e1: "writew_lock (idxfd t) 0 SEEK_SET 1 ?t = Ok 0 t1"
    using D(1) by (simp add: lock_macros lock_reg_ok db_ready_def t1_def)
  have b1: "became t (idxf t) (datf t) L (dat_locks t) t1"
    using D(1) by (auto simp: became_def same_env_def set_lock_at db_ready_def L_def t1_def
        fun_eq_iff)
  have c1: "datbuf t1 = b" "cur t1 = (blanks (length (r_key r)), int p, int (r_off r), int (r_len r),
      int (ptr_at (idxf t) p))" "offs t1 = offs t" using c by (simp_all add: t1_def cur_def offs_def)
  have H1: "holds t1 os R cs {}" using holds_became[OF H b1 D(2-4)] .
  have len: "r_off r + length b + 1 \<le> length (datf t)" "2 \<le> r_len r"
    using db_invD(5)[OF D(2)] layoutD(3)[OF Lay p] p
    by (auto simp: dat_inv_def data_ok_def r_def rec_ok_def b_def)
  obtain t2 where 2: "db_writedat b (int (r_off r)) SEEK_SET t1 = Ok () t2" "offs t2 = offs t"
      "cur t2 = (blanks (length (r_key r)), int p, int (r_off r), int (r_len r), int (ptr_at (idxf t) p))"
    and b2: "became t (idxf t) (overwrite (datf t) (r_off r) (b @ [NL])) L (dat_locks t) t2"
    using writedat_at[OF H1, of "r_off r" b] became_sel[OF b1] len c1
    by (auto elim!: runsE dest: became_trans[OF b1] simp: cur_def b_def r_def)
  obtain t3 where "db_readptr 0 t2 = Ok (int (ptr_at (idxf t) 0)) t3" "offs t3 = offs t2" "cur t3 = cur t2"
    and "became t (idxf t) (overwrite (datf t) (r_off r) (b @ [NL])) L (dat_locks t) t3"
    using readptr_runs[OF became_ready[OF b2 D(1)], of 0] became_sel[OF b2]
      field_in_file[OF Lay zero_field] fld_int[OF Lay zero_field]
    by (auto elim!: runsE dest: became_quiet[OF b2] simp: fld_def)
  with e1 2 c1 show ?thesis
    by (intro exI[of _ t1] exI[of _ t2] exI[of _ t3]) (simp add: cur_def)
qed

lemma dodelete_runs:
  assumes H: "holds t os R cs {}" and i: "i \<le> nhash t" "i \<noteq> 0" and c: "cs i = as @ p # bs"
    and po: "ptroff t = int (last (head i # as))" and cu: "current (idxf t) R p t"
    and own: "self_print t"
  defines "r \<equiv> R p" and "q \<equiv> last (head i # as)" and "f \<equiv> idxf t"
  defines "r' \<equiv> r\<lparr>r_key := blanks (length (r_key r))\<rparr>"
  defines "g' \<equiv> overwrite (datf t) (r_off r) (blanks (r_len r - 1) @ [NL])"
  defines "f' \<equiv> put_ptr (put_ptr (put_rec f p (ptr_at f 0) r') 0 p) q (ptr_at f p)"
  shows "runs db_dodelete t (\<lambda>v u. v = 0 \<and> chainoff u = chainoff t \<and>
    became t f' g' ((idx_locks t)(0 := None)) (dat_locks t) u)"
proof -
  note D = holdsD[OF H]
  note L = db_invD(2)[OF D(2)] and C = on_chain[OF D(2) i(1) c, folded q_def r_def]
  have v: "int (ptr_at f 0) \<le> PTR_MAX" "int (ptr_at f p) \<le> PTR_MAX" "int p \<le> PTR_MAX"
    using head_ptr_bound[OF D(2) le0] next_ptr_bound[OF D(2) i(1) c] layoutD(4)[OF L C(1)]
    by (simp_all add: f_def)
  have r': "rec_ok r'" "rec_size r' = rec_size r" "r_off r' = r_off r" "r_len r' = r_len r"
    using rec_ok_key[OF C(3)] by (simp_all add: r'_def)
  have room: "PTR_SZ \<le> w_limit t" "q + PTR_SZ \<le> w_limit t" "p + rec_size r' \<le> w_limit t"
    using field_in_file[OF L zero_field] field_in_file[OF L C(4)] layoutD(7)[OF L C(1)] r'(2) D(3)
    by (auto simp: r_def)
  obtain t1 t2 t3 where e1: "writew_lock (idxfd t) 0 SEEK_SET 1
        (t\<lparr>datbuf := blanks (r_len r - 1), idxbuf := r_key r'\<rparr>) = Ok 0 t1"
      "datbuf t1 = blanks (r_len r - 1)" "datoff t1 = int (r_off r)"
      "db_writedat (blanks (r_len r - 1)) (int (r_off r)) SEEK_SET t1 = Ok () t2"
      "db_readptr 0 t2 = Ok (int (ptr_at f 0)) t3" "offs t3 = offs t"
      "cur t3 = (r_key r', int p, int (r_off r), int (r_len r), int (ptr_at f p))"
    and b3: "became t f g' ((idx_locks t)(0 := Some F_WRLCK)) (dat_locks t) t3"
    using blank_steps[OF H C(1) cu] by (auto simp: r'_def g'_def f_def r_def)
  note S3 = became_sel[OF b3]
  have c3: "datoff t3 = int (r_off r')" "datlen t3 = int (r_len r')" "idxbuf t3 = r_key r'"
      "idxoff t3 = int p" "ptrval t3 = int (ptr_at f p)" "ptroff t3 = int q"
    using e1(6,7) r' po by (simp_all add: cur_def offs_def q_def)
  obtain t5 t6 t7 where e7: "db_writeidx True (r_key r') (int p) SEEK_SET (int (ptr_at f 0)) t3 = Ok () t5"
      "idxoff t5 = int p" "db_writeptr 0 (int p) t5 = Ok () t6" "ptroff t6 = int q"
      "db_writeptr (int q) (int (ptr_at f p)) t6 = Ok () t7" "offs t7 = offs t"
    and b7': "became t3 f' g' ((idx_locks t)(0 := Some F_WRLCK)) (dat_locks t) t7"
    using relink_steps[OF became_ready[OF b3 D(1)] r'(1) c3(1,2) v, of q] room S3 e1(6) c3(6) own became_own[OF b3]
    by (auto simp: f'_def)
  note b7 = became_trans[OF b3 b7']
  obtain t8 where e8: "un_lock (idxfd t) 0 SEEK_SET 1 t7 = Ok 0 t8" "offs t8 = offs t7"
    and b8: "became t f' g' ((idx_locks t)(0 := None)) (dat_locks t) t8"
    using unlock_runs[OF became_ready[OF b7 D(1)], of 0] became_sel[OF b7]
    by (auto elim!: runsE dest: became_trans[OF b7] simp del: One_nat_def)
  have "datlen t = int (r_len r)" "idxbuf t = r_key r" "nat (int (r_len r) - 1) = r_len r - 1"
    using current_sel[OF cu] C(3) by (simp_all add: r_def rec_ok_def nat_diff_distrib)
  then have "db_dodelete t = Ok 0 t8"
    using e1 c3 e7 e8(1) by (simp add: db_dodelete_def FREE_OFF_def blanks_def[symmetric] r'_def)
  then show ?thesis
    using b8 e7(6) e8(2) by (simp add: runs_def offs_def)
qed

text \<open>
  On a platform whose \<open>sprintf\<close> does not leave a string printed onto itself in place the
  deletion ends in undefined behaviour, when the data record is already blanked.
\<close>

abbreviation own_print :: stop where
  "own_print \<equiv> Undefined ''sprintf from its own buffer''"

lemma dodelete_undefined:
  assumes H: "holds t os R cs {}" and i: "i \<le> nhash t" "i \<noteq> 0" and c: "cs i = as @ p # bs"
    and cu: "current (idxf t) R p t" and own: "\<not> self_print t"
  shows "\<exists>u. db_dodelete t = Halt own_print u"
proof -
  note D = holdsD[OF H]
  note C = on_chain[OF D(2) i(1) c]
  let ?b = "blanks (r_len (R p) - 1)" and ?k = "blanks (length (r_key (R p)))"
  have v: "int (ptr_at (idxf t) 0) \<le> PTR_MAX" using head_ptr_bound[OF D(2) le0] by simp
  obtain t1 t2 t3 where e: "writew_lock (idxfd t) 0 SEEK_SET 1 (t\<lparr>datbuf := ?b, idxbuf := ?k\<rparr>) = Ok 0 t1"
      "datbuf t1 = ?b" "datoff t1 = int (r_off (R p))" "db_writedat ?b (int (r_off (R p))) SEEK_SET t1 = Ok () t2"
      "db_readptr 0 t2 = Ok (int (ptr_at (idxf t) 0)) t3"
      "cur t3 = (?k, int p, int (r_off (R p)), int (r_len (R p)), int (ptr_at (idxf t) p))"
    and b: "became t (idxf t) (overwrite (datf t) (r_off (R p)) (?b @ [NL])) ((idx_locks t)(0 := Some F_WRLCK))
      (dat_locks t) t3"
    using blank_steps[OF H C(1) cu] by auto
  have "\<not> self_print t3" using became_own[OF b] own by simp
  then have "\<exists>u. db_writeidx True ?k (int p) SEEK_SET (int (ptr_at (idxf t) 0)) t3 = Halt own_print u"
    using v by (simp add: db_writeidx_def)
  moreover have "datlen t = int (r_len (R p))" "idxbuf t = r_key (R p)" "nat (int (r_len (R p)) - 1) = r_len (R p) - 1"
    using current_sel[OF cu] C(3) by (simp_all add: rec_ok_def nat_diff_distrib)
  ultimately show ?thesis
    using e by (auto simp: db_dodelete_def FREE_OFF_def blanks_def[symmetric] cur_def)
qed

text \<open>
  What an operation leaves behind: again a database, with contents \<open>m\<close>, in files that fit and
  grew by at most the largest record.
\<close>

definition leaves :: "dbs \<Rightarrow> string \<Rightarrow> string \<Rightarrow> (string \<rightharpoonup> string) \<Rightarrow> bool" where
  "leaves s f g m \<longleftrightarrow> (\<exists>os R cs. db_inv (nhash s) f g os R cs {} \<and> contents (nhash s) g R cs = m) \<and>
     length f \<le> w_limit s \<and> length g \<le> w_limit s \<and>
     length f \<le> length (idxf s) + 1034 \<and> length g \<le> length (datf s) + 1024"

lemma leaves_same: "rep s os R cs \<Longrightarrow> leaves s (idxf s) (datf s) (contents (nhash s) (datf s) R cs)"
  by (auto simp: leaves_def rep_def holds_def)

lemma repD:
  assumes "rep s os R cs"
  shows "holds s os R cs {}" "db_inv (nhash s) (idxf s) (datf s) os R cs {}" "db_ready s"
    "length (idxf s) \<le> w_limit s" "length (datf s) \<le> w_limit s" "chain_of s k \<le> nhash s"
  using assms Suc_hash_le[of "nhash s" k] by (auto simp: rep_def holds_def db_inv_def)

text \<open>
  The deletion of the record \<open>_db_find\<close> found, at the level of the contents: the files keep
  their sizes and a record of the same sizes is on the free list.
\<close>

definition deleted :: "dbs \<Rightarrow> nat list \<Rightarrow> (string \<rightharpoonup> string) \<Rightarrow> string \<Rightarrow> nat \<Rightarrow> string \<Rightarrow> string \<Rightarrow> bool" where
  "deleted s os m k dl f g \<longleftrightarrow> length f = length (idxf s) \<and> length g = length (datf s) \<and>
     (\<exists>R cs. db_inv (nhash s) f g os R cs {} \<and> contents (nhash s) g R cs = m(k := None) \<and>
        (\<exists>p\<in>set (cs 0). length (r_key (R p)) = length k \<and> r_len (R p) = dl))"

lemma deleted_leaves: "rep s os R cs \<Longrightarrow> deleted s os m k dl f g \<Longrightarrow> leaves s f g (m(k := None))"
  using repD(4,5)[of s os R cs] by (auto simp: deleted_def leaves_def)

lemma deleted_lengths:
  "deleted s os m k dl f g \<Longrightarrow> length f = length (idxf s) \<and> length g = length (datf s)"
  by (simp add: deleted_def)

lemma delete_found:
  assumes rep: "rep s os R cs" and S: "searched s R cs k F_WRLCK r t"
    and c: "cs (chain_of s k) = as @ p # bs" "r_key (R p) = k"
    and po: "ptroff t = int (last (head (chain_of s k) # as))" and cu: "current (idxf s) R p t"
    and own: "self_print s"
  defines "q \<equiv> head (chain_of s k)" and "m \<equiv> contents (nhash s) (datf s) R cs"
  shows "runs db_dodelete t (\<lambda>v u. v = 0 \<and> chainoff u = int q \<and>
    (\<exists>f g. became s f g (one_lock q F_WRLCK) (\<lambda>_. None) u \<and> deleted s os m k (r_len (R p)) f g))"
proof -
  note D = repD[OF rep] and T = searched_state[OF rep S]
  note B = became_sel[OF T(1)]
  define F where "F = put_ptr (put_ptr (put_rec (idxf s) p (ptr_at (idxf s) 0)
    ((R p)\<lparr>r_key := blanks (length k)\<rparr>)) 0 p) (last (head (chain_of s k) # as)) (ptr_at (idxf s) p)"
  define G where "G = overwrite (datf s) (r_off (R p)) (blanks (r_len (R p) - 1) @ [NL])"
  note X = delete_files[OF D(2) hash_less[OF db_invD(1)[OF D(2)]] c(1), unfolded c(2),
      folded F_def G_def m_def]
  have p: "p \<in> set os" "2 \<le> r_len (R p)"
    using on_chain[OF D(2) D(6) c(1)] by (simp_all add: rec_ok_def)
  have "length F = length (idxf s)" "length G = length (datf s)"
    using same_length[OF D(2) X(1) p(1)] data_length[OF D(2) p(1)] c(2) p(2) by (simp_all add: G_def)
  moreover have "\<exists>x\<in>set ((cs(chain_of s k := as @ bs, 0 := p # cs 0)) 0).
      length (r_key ((R(p := (R p)\<lparr>r_key := blanks (length k)\<rparr>)) x)) = length k \<and>
      r_len ((R(p := (R p)\<lparr>r_key := blanks (length k)\<rparr>)) x) = r_len (R p)"
    by simp
  ultimately have del: "deleted s os m k (r_len (R p)) F G"
    unfolding deleted_def using X by blast
  have "became s F G (one_lock q F_WRLCK) (\<lambda>_. None) u"
    if "became t F G ((idx_locks t)(0 := None)) (dat_locks t) u" for u
    using became_trans[OF T(1) that] B head_inj[of 0 "chain_of s k"]
    by (auto simp: q_def fun_upd_twist[of 0])
  moreover have "runs db_dodelete t (\<lambda>v u. v = 0 \<and> chainoff u = chainoff t \<and>
      became t F G ((idx_locks t)(0 := None)) (dat_locks t) u)"
    using dodelete_runs[OF T(3), of "chain_of s k" as p bs] c po cu own D(6) B became_own[OF T(1)] by (simp add: F_def G_def)
  ultimately show ?thesis using T(2) del unfolding q_def by (elim runs_conseq) auto
qed

lemma delete_lost:
  assumes rep: "rep s os R cs" and own: "\<not> self_print s"
    and S: "searched s R cs k F_WRLCK r t"
    and c: "cs (chain_of s k) = as @ p # bs" and cu: "current (idxf s) R p t"
  shows "\<exists>u. db_dodelete t = Halt own_print u"
proof -
  note T = searched_state[OF rep S]
  note B = became_sel[OF T(1)]
  show ?thesis
    using dodelete_undefined[OF T(3), of "chain_of s k" as p bs] repD(6)[OF rep, of k] c cu own B became_own[OF T(1)] by simp
qed

lemma delete_undefined:
  assumes rep: "rep s os R cs" and own: "\<not> self_print s"
    and k: "contents (nhash s) (datf s) R cs k \<noteq> None"
  shows "\<exists>u. db_delete k s = Halt own_print u"
proof -
  obtain r t where f: "db_find k True s = Ok r t" and S: "searched s R cs k F_WRLCK r t"
    using find_runs[OF repD(1)[OF rep], of k True] by (auto elim!: runsE)
  from rep S show ?thesis
  proof (cases rule: searched_cases)
    case none
    then show ?thesis using k by simp
  next
    case (found as p bs)
    then show ?thesis using f delete_lost[OF rep own S found(2,5)] by (auto simp: db_delete_def)
  qed
qed

lemma delete_runs:
  assumes rep: "rep s os R cs" and own: "self_print s \<or> contents (nhash s) (datf s) R cs k = None"
  defines "m \<equiv> contents (nhash s) (datf s) R cs"
  shows "runs (db_delete k) s (\<lambda>v u. \<exists>f g. became s f g (\<lambda>_. None) (\<lambda>_. None) u \<and>
    (v = (if m k = None then -1 else 0) \<and> leaves s f g (m(k := None)) \<and>
     length f = length (idxf s) \<and> length g = length (datf s) \<and>
     (\<forall>d. m k = Some d \<longrightarrow> deleted s os m k (length d + 1) f g)))"
  unfolding db_delete_def
proof (rule op_runs[OF rep], unfold if_True)
  fix r t
  assume S: "searched s R cs k F_WRLCK r t"
  note T = searched_state[OF rep S]
  from rep S show "runs (if r = 0 then bnd db_dodelete (\<lambda>rc.
        bnd (modify (\<lambda>s. s\<lparr>cnt_delok := cnt_delok s + 1\<rparr>)) (\<lambda>_. ret rc))
      else bnd (modify (\<lambda>s. s\<lparr>cnt_delerr := cnt_delerr s + 1\<rparr>)) (\<lambda>_. ret (-1))) t
    (\<lambda>v u. chainoff u = int (head (chain_of s k)) \<and>
      (\<exists>f g. became s f g (one_lock (head (chain_of s k)) F_WRLCK) (\<lambda>_. None) u \<and>
        (v = (if m k = None then -1 else 0) \<and> leaves s f g (m(k := None)) \<and>
         length f = length (idxf s) \<and> length g = length (datf s) \<and>
         (\<forall>d. m k = Some d \<longrightarrow> deleted s os m k (length d + 1) f g))))"
  proof (cases rule: searched_cases)
    case none
    then have "m(k := None) = m" by (simp add: m_def fun_upd_idem)
    then show ?thesis using none T leaves_same[OF rep] by (auto simp: wp m_def)
  next
    case (found as p bs)
    have "data_ok (datf s) (R p)"
      using on_chain(1)[OF repD(2)[OF rep] repD(6)[OF rep] found(2)] db_invD(5)[OF repD(2)[OF rep]]
      by (simp add: dat_inv_def)
    then have "length (rec_data (datf s) (R p)) + 1 = r_len (R p)"
      by (auto simp: data_ok_def rec_data_def)
    moreover have "self_print s" using own found(6) by simp
    ultimately show ?thesis using found(1,6) deleted_leaves[OF rep] deleted_lengths
      by (auto simp: wp m_def intro!: runs_conseq[OF delete_found[OF rep S found(2-5)]])
        blast
  qed
qed

subsection \<open>The free list\<close>

definition fits_slot :: "(nat \<Rightarrow> irec) \<Rightarrow> nat \<Rightarrow> nat \<Rightarrow> nat \<Rightarrow> bool" where
  "fits_slot R kl dl p \<longleftrightarrow> length (r_key (R p)) = kl \<and> r_len (R p) = dl"

definition free_post :: "string \<Rightarrow> (nat \<Rightarrow> irec) \<Rightarrow> nat \<Rightarrow> nat \<Rightarrow> nat \<Rightarrow> nat list \<Rightarrow> int \<times> int \<Rightarrow> dbs \<Rightarrow> bool"
where
  "free_post f R kl dl q qs v t \<longleftrightarrow>
     fst v = 0 \<and> (\<forall>p\<in>set qs. \<not> fits_slot R kl dl p) \<or>
     (\<exists>as p bs. qs = as @ p # bs \<and> v = (int p, int (last (q # as))) \<and> 0 < p \<and>
        fits_slot R kl dl p \<and> current f R p t)"

lemma free_post_hd:
  "fits_slot R kl dl p \<Longrightarrow> 0 < p \<Longrightarrow> current f R p t \<Longrightarrow>
   free_post f R kl dl q (p # qs) (int p, int q) t"
  unfolding free_post_def by (rule disjI2, rule exI[of _ "[]"]) simp

lemma free_post_tl:
  "\<not> fits_slot R kl dl p \<Longrightarrow> free_post f R kl dl p qs v t \<Longrightarrow> free_post f R kl dl q (p # qs) v t"
  unfolding free_post_def by (metis append_Cons last_ConsR list.distinct(1) set_ConsD)

lemma findfree_loop_runs:
  assumes "holds s os R cs U" and "chain (ptr_at (idxf s)) q qs" and "set qs \<subseteq> set os"
    and "length qs < fuel"
  shows "runs (findfree_loop fuel kl (int dl) (int q) (int (ptr_at (idxf s) q))) s (\<lambda>v t.
    quiet s t \<and> chainoff t = chainoff s \<and> free_post (idxf s) R kl dl q qs v t)"
  using assms
proof (induction qs arbitrary: q s fuel)
  case Nil
  then show ?case by (cases fuel) (auto simp: wp free_post_def findfree_loop.simps)
next
  case (Cons p qs)
  let ?Q = "\<lambda>v t. quiet s t \<and> chainoff t = chainoff s \<and> free_post (idxf s) R kl dl q (p # qs) v t"
  obtain n where fuel: "fuel = Suc n" "length qs < n" using Cons.prems(4) by (cases fuel) auto
  have p: "ptr_at (idxf s) q = p" "p \<noteq> 0" "chain (ptr_at (idxf s)) p qs" "p \<in> set os" "set qs \<subseteq> set os"
    using Cons.prems(2,3) by auto
  have rest: "runs (findfree_loop n kl (int dl) (int p) (int (ptr_at (idxf s) p))) t ?Q"
    if q: "quiet s t" and o: "chainoff t = chainoff s" and k: "\<not> fits_slot R kl dl p" for t
  proof -
    have f: "idxf t = idxf s" using q by (simp add: quiet_def)
    have "runs (findfree_loop n kl (int dl) (int p) (int (ptr_at (idxf t) p))) t (\<lambda>v t'.
        quiet t t' \<and> chainoff t' = chainoff t \<and> free_post (idxf t) R kl dl p qs v t')"
      using p(3) f by (intro Cons.IH[OF holds_quiet[OF Cons.prems(1) q] _ p(5) fuel(2)]) simp_all
    then show ?thesis unfolding f
      using k o quiet_trans[OF q] by (elim runs_conseq) (auto intro: free_post_tl)
  qed
  have "runs (findfree_loop (Suc n) kl (int dl) (int q) (int p)) s ?Q"
    unfolding findfree_loop.simps using p(2)
  proof (simp, intro runs_step[OF readidx_record[OF Cons.prems(1) p(4)]], elim conjE)
    fix v t
    assume *: "v = int (ptr_at (idxf s) p)" "quiet s t" "offs t = offs s" "current (idxf s) R p t"
    then show "runs (bnd (gets (\<lambda>s. (idxbuf s, datlen s))) (\<lambda>(b, d).
        if length b = kl \<and> d = int dl then ret (int p, int q)
        else findfree_loop n kl (int dl) (int p) v)) t ?Q"
      using rest[of t] p(2) free_post_hd[of R kl dl p "idxf s" t q qs]
      by (auto simp: wp current_def cur_def offs_def fits_slot_def)
  qed
  then show ?case unfolding p(1) fuel(1) .
qed

text \<open>
  \<open>_db_findfree\<close>: no free record has the sizes, or the first that has them is unlinked from
  the free list and current.
\<close>

definition freed :: "dbs \<Rightarrow> (nat \<Rightarrow> irec) \<Rightarrow> (nat \<Rightarrow> nat list) \<Rightarrow> nat \<Rightarrow> nat \<Rightarrow> int \<Rightarrow> dbs \<Rightarrow> bool" where
  "freed t R cs kl dl v u \<longleftrightarrow> chainoff u = chainoff t \<and> (\<exists>f.
     became t f (datf t) ((idx_locks t)(0 := None)) (dat_locks t) u \<and>
     (v = -1 \<and> f = idxf t \<and> (\<forall>p\<in>set (cs 0). \<not> fits_slot R kl dl p) \<or>
      v = 0 \<and> (\<exists>as p bs. cs 0 = as @ p # bs \<and> fits_slot R kl dl p \<and> current (idxf t) R p u \<and>
        f = put_ptr (idxf t) (last (head 0 # as)) (ptr_at (idxf t) p))))"

lemma freed_found:
  "cs 0 = as @ p # bs \<Longrightarrow> fits_slot R kl dl p \<Longrightarrow> current (idxf t) R p u \<Longrightarrow> chainoff u = chainoff t \<Longrightarrow>
   became t (put_ptr (idxf t) (last (head 0 # as)) (ptr_at (idxf t) p)) (datf t)
     ((idx_locks t)(0 := None)) (dat_locks t) u \<Longrightarrow> freed t R cs kl dl 0 u"
  unfolding freed_def by blast

lemma unlock_free:
  assumes R: "db_ready t" and B: "became s f g L M t"
  shows "runs (bnd (gets idxfd) (\<lambda>fd. bnd (un_lock fd FREE_OFF SEEK_SET 1) (\<lambda>r.
    if r < 0 then err_dump ''un_lock error'' else ret v))) t
    (\<lambda>v' u. v' = v \<and> cur u = cur t \<and> offs u = offs t \<and> became s f g (L(0 := None)) M u)"
proof -
  have "became s f g (L(0 := None)) M u"
    if "became t (idxf t) (datf t) ((idx_locks t)(0 := None)) (dat_locks t) u" for u
    using became_trans[OF B that] became_sel[OF B] by simp
  then show ?thesis
    using runs_conseq[OF unlock_runs[OF R, of 0]] unfolding FREE_OFF_def runs_bnd runs_gets
    by (simp add: wp)
qed

lemma findfree_runs:
  assumes H: "holds t os R cs {}"
  shows "runs (db_findfree kl (int dl)) t (freed t R cs kl dl)"
proof -
  note D = holdsD[OF H]
  note L = db_invD(2)[OF D(2)] and K = db_invD(3)[OF D(2)]
  obtain t1 where 1: "db_readptr 0 t = Ok (int (ptr_at (idxf t) 0)) t1" "quiet t t1" "offs t1 = offs t"
    using readptr_field[OF H zero_field] by (auto elim!: runsE)
  have f1: "idxf t1 = idxf t" using 1(2) by (simp add: quiet_def)
  have "chain (ptr_at (idxf t1)) 0 (cs 0)" using linkedD(2)[OF K le0] f1 by simp
  from findfree_loop_runs[OF holds_quiet[OF H 1(2)] this linkedD(4)[OF K le0] chain_length[OF D(2) le0],
      of kl dl]
  obtain v t2 where 2: "findfree_loop (Suc (length (idxf t))) kl (int dl) 0 (int (ptr_at (idxf t) 0)) t1 = Ok v t2"
    and q2: "quiet t t2" "chainoff t2 = chainoff t" and P: "free_post (idxf t) R kl dl 0 (cs 0) v t2"
    using quiet_trans[OF 1(2)] 1(3) f1 by (auto elim!: runsE simp: offs_def)
  have R2: "db_ready t2" using holdsD(1)[OF holds_quiet[OF H q2(1)]] .
  have start: "runs (db_findfree kl (int dl)) t Q \<longleftrightarrow> runs (bnd (if fst v = 0 then ret (-1)
      else bnd (gets ptrval) (\<lambda>pv. bnd (db_writeptr (snd v) pv) (\<lambda>_. ret 0)))
      (\<lambda>rc. bnd (gets idxfd) (\<lambda>fd. bnd (un_lock fd FREE_OFF SEEK_SET 1) (\<lambda>r.
      if r < 0 then err_dump ''un_lock error'' else ret rc)))) t2 Q" for Q
    using 1(1) 2 f1 by (simp add: db_findfree_def FREE_OFF_def runs_def split: prod.split)
  from P consider "fst v = 0" "\<forall>p\<in>set (cs 0). \<not> fits_slot R kl dl p"
    | as p bs where "cs 0 = as @ p # bs" "v = (int p, int (last (0 # as)))" "0 < p"
        "fits_slot R kl dl p" "current (idxf t) R p t2"
    unfolding free_post_def by blast
  then show ?thesis
  proof cases
    case 1
    have "runs (bnd (gets idxfd) (\<lambda>fd. bnd (un_lock fd FREE_OFF SEEK_SET 1) (\<lambda>r.
      if r < 0 then err_dump ''un_lock error'' else ret (-1)))) t2 (freed t R cs kl dl)"
      by (rule runs_conseq[OF unlock_free[OF R2 q2(1)[unfolded quiet_became]]])
        (use 1 q2(2) in \<open>auto simp: freed_def offs_def\<close>)
    then show ?thesis unfolding start using 1(1) by (simp add: wp)
  next
    case 2
    note C = on_chain[OF D(2) le0 2(1)]
    obtain t3 where 3: "db_writeptr (int (last (0 # as))) (int (ptr_at (idxf t) p)) t2 = Ok () t3"
        "cur t3 = cur t2" "offs t3 = offs t2"
      and b3: "became t (put_ptr (idxf t) (last (0 # as)) (ptr_at (idxf t) p)) (datf t) (idx_locks t) (dat_locks t) t3"
      using writeptr_field[OF R2, of "last (0 # as)" "ptr_at (idxf t) p"] next_ptr_bound[OF D(2) le0 2(1)]
        field_in_file[OF L C(4)] D(3) became_trans[OF q2(1)[unfolded quiet_became]] q2(1)
        same_env_sel(5)[of t t2]
      by (auto elim!: runsE simp: quiet_def)
    have "runs (bnd (gets idxfd) (\<lambda>fd. bnd (un_lock fd FREE_OFF SEEK_SET 1) (\<lambda>r.
      if r < 0 then err_dump ''un_lock error'' else ret 0))) t3 (freed t R cs kl dl)"
      by (rule runs_conseq[OF unlock_free[OF became_ready[OF b3 D(1)] b3]])
        (use 2 3 q2(2) in \<open>auto simp: offs_def current_def intro!: freed_found\<close>)
    then show ?thesis unfolding start using 2 3(1) current_sel(5)[OF 2(5)] by (simp add: wp runs_Ok)
  qed
qed

end
