(* ===== verification/Db_Store.thy ===== *)
theory Db_Store
  imports Db_Ops
begin

text \<open>
  \<open>db_store\<close> on a well-formed database: an append to both files, the reuse of a free record,
  the replacement in place, and the replacement by delete and append.
\<close>

subsection \<open>Storing\<close>

text \<open>The record \<open>db_store\<close> would append, and that it fits.\<close>

definition new_rec :: "dbs \<Rightarrow> string \<Rightarrow> string \<Rightarrow> irec" where
  "new_rec s k d = \<lparr>r_key = k, r_off = length (datf s), r_len = length d + 1\<rparr>"

definition storable :: "dbs \<Rightarrow> string \<Rightarrow> string \<Rightarrow> bool" where
  "storable s k d \<longleftrightarrow> is_cstr d \<and> rec_ok (new_rec s k d) \<and> int (length (idxf s)) \<le> PTR_MAX \<and>
     length (idxf s) + rec_size (new_rec s k d) \<le> w_limit s \<and>
     length (datf s) + length d + 1 \<le> w_limit s"

lemma storable_cong:
  assumes "became s f g L M t" and "length f = length (idxf s)" and "length g = length (datf s)"
  shows "storable t k d = storable s k d" and "new_rec t k d = new_rec s k d"
  using became_sel[OF assms(1)] assms(2,3) by (simp_all add: storable_def new_rec_def)

lemma append_runs:
  assumes H: "holds t os R cs {}" and st: "storable t k d" and q: "i \<le> nhash t" "chainoff t = int (head i)"
  defines "F \<equiv> put_ptr (put_rec (idxf t) (length (idxf t)) (ptr_at (idxf t) (head i)) (new_rec t k d))
    (head i) (length (idxf t))"
  assumes locks: "idx_locks t = one_lock (head i) l" "dat_locks t = (\<lambda>_. None)"
  shows "runs (db_append k d (int (ptr_at (idxf t) (head i)))) t (\<lambda>_ u. chainoff u = chainoff t \<and>
    became t F (datf t @ d @ [NL]) (idx_locks t) (dat_locks t) u)"
proof -
  note D = holdsD[OF H]
  let ?r = "new_rec t k d" and ?e = "length (idxf t)" and ?v = "ptr_at (idxf t) (head i)"
  have s: "rec_ok ?r" "int ?e \<le> PTR_MAX" "?e + rec_size ?r \<le> w_limit t" "length (datf t) + length d + 1 \<le> w_limit t"
    using st by (simp_all add: storable_def)
  obtain t1 where 1: "db_writedat d 0 SEEK_END t = Ok () t1" "offs t1 = offs t"
      "datoff t1 = int (r_off ?r)" "datlen t1 = int (r_len ?r)"
    and b1: "became t (idxf t) (datf t @ d @ [NL]) (idx_locks t) (dat_locks t) t1"
    using writedat_runs[OF D(1) s(4), of SEEK_END 0] locks(2)
    by (auto elim!: runsE simp: cur_def new_rec_def)
  note S1 = became_sel[OF b1]
  have "(\<lambda>b. if (nhash t + 1) * PTR_SZ + 1 \<le> b then None else idx_locks t b) = idx_locks t"
    using head_hdr[OF q(1)] by (auto simp: locks(1) hdr_def fun_eq_iff)
  then have low: "(\<lambda>b. if (nhash t1 + 1) * PTR_SZ + 1 \<le> b then None else idx_locks t1 b) = idx_locks t"
    by (simp only: S1(3,6))
  note W = writeidx_runs[OF became_ready[OF b1 D(1)] s(1) head_ptr_bound[OF D(2) q(1)] 1(3,4), of ?e SEEK_END 0 False,
      unfolded low S1(1,2,4,7), folded put_rec_def]
  obtain t2 where 2: "db_writeidx False k 0 SEEK_END (int ?v) t1 = Ok () t2" "offs t2 = offs t1" "idxoff t2 = int ?e"
    and b2: "became t (put_rec (idxf t) ?e ?v ?r) (datf t @ d @ [NL]) (idx_locks t) (dat_locks t) t2"
    using W s(3) became_trans[OF b1] by (auto elim!: runsE simp: new_rec_def)
  note S2 = became_sel[OF b2]
  have "head i + PTR_SZ \<le> w_limit t"
    using field_in_file[OF db_invD(2)[OF D(2)], of "head i"] q(1) D(3) by simp
  then obtain t3 where 3: "db_writeptr (int (head i)) (int ?e) t2 = Ok () t3" "offs t3 = offs t2"
    and b3: "became t F (datf t @ d @ [NL]) (idx_locks t) (dat_locks t) t3"
    using writeptr_field[OF became_ready[OF b2 D(1)] _ s(2), of "head i"] S2 became_trans[OF b2]
    by (auto elim!: runsE simp: F_def)
  have "chainoff t2 = int (head i)" using 1(2) 2(2) q(2) by (simp add: offs_def)
  then have "db_append k d (int ?v) t = Ok () t3"
    using 1(1) 2(1,3) 3(1) by (simp add: db_append_def)
  then show ?thesis using b3 1(2) 2(2) 3(2) by (simp add: runs_def offs_def)
qed

text \<open>Appending a key the database does not have, when its chain is locked.\<close>

lemma append_new:
  assumes H: "holds t os R cs {}" and st: "storable t k d"
    and new: "contents (nhash t) (datf t) R cs k = None"
    and q: "chainoff t = int (head (chain_of t k))"
    and locks: "idx_locks t = one_lock (head (chain_of t k)) l" "dat_locks t = (\<lambda>_. None)"
  shows "runs (db_append k d (int (ptr_at (idxf t) (head (chain_of t k))))) t (\<lambda>_ u.
    chainoff u = chainoff t \<and> (\<exists>f g. became t f g (idx_locks t) (dat_locks t) u \<and>
      leaves t f g ((contents (nhash t) (datf t) R cs)(k \<mapsto> d))))"
proof -
  note D = holdsD[OF H]
  have i: "chain_of t k \<le> nhash t" using Suc_hash_le[OF db_invD(1)[OF D(2)]] .
  let ?r = "new_rec t k d" and ?e = "length (idxf t)"
  have s: "rec_ok ?r" "int ?e \<le> PTR_MAX" "?e + rec_size ?r \<le> w_limit t"
      "length (datf t) + length d + 1 \<le> w_limit t" "is_cstr d"
    using st by (simp_all add: storable_def)
  have r: "r_off ?r = length (datf t)" "r_len ?r = length d + 1" "r_key ?r = k"
    by (simp_all add: new_rec_def)
  define F where "F = put_ptr (put_rec (idxf t) ?e (ptr_at (idxf t) (head (chain_of t k))) ?r)
    (head (chain_of t k)) ?e"
  note X = append_files[OF D(2) s(1) r(1,2) s(5) s(2), unfolded r(3), OF new, folded F_def]
  have "length F = ?e + rec_size ?r"
    using length_fmt_ptr[OF s(2)] length_fmt_ptr0[OF head_ptr_bound[OF D(2) i]]
      field_in_file[OF db_invD(2)[OF D(2)], of "head (chain_of t k)"] i
    by (simp add: F_def put_ptr_def put_rec_def length_overwrite rec_size_def)
  moreover have grow: "rec_size ?r \<le> 1034" "length d + 1 \<le> 1024"
    using s(1) rec_size_eq[OF s(1)] by (simp_all add: rec_ok_def new_rec_def)
  ultimately have "leaves t F (datf t @ d @ [NL]) ((contents (nhash t) (datf t) R cs)(k \<mapsto> d))"
    using X s(3,4) grow unfolding leaves_def by auto
  then show ?thesis
    using append_runs[OF H st i q locks, folded F_def] by (elim runs_conseq) auto
qed

text \<open>Reusing the free record that \<open>_db_findfree\<close> made current.\<close>

lemma reuse_runs:
  assumes R: "db_ready u" and r: "rec_ok r" "r_key r = k" and d: "length d + 1 = r_len r"
    and cu: "datoff u = int (r_off r)" "idxoff u = int p" and q: "chainoff u = int q"
    and v: "int v \<le> PTR_MAX" "int p \<le> PTR_MAX"
    and room: "r_off r + r_len r \<le> w_limit u" "p + rec_size r \<le> w_limit u" "q + PTR_SZ \<le> w_limit u"
  shows "runs (store_reuse k d (int v)) u (\<lambda>_ w. chainoff w = chainoff u \<and>
    became u (put_ptr (put_rec (idxf u) p v r) q p) (overwrite (datf u) (r_off r) (d @ [NL]))
      (idx_locks u) (dat_locks u) w)"
proof -
  let ?g = "overwrite (datf u) (r_off r) (d @ [NL])"
  obtain t1 where 1: "db_writedat d (int (r_off r)) SEEK_SET u = Ok () t1" "offs t1 = offs u"
      "datoff t1 = int (r_off r)" "datlen t1 = int (r_len r)" "idxoff t1 = int p"
    and b1: "became u (idxf u) ?g (idx_locks u) (dat_locks u) t1"
    using writedat_runs[OF R, of "r_off r" d SEEK_SET "int (r_off r)"] room(1) d cu
    by (auto elim!: runsE simp: cur_def)
  obtain t2 where 2: "db_writeidx False k (int p) SEEK_SET (int v) t1 = Ok () t2" "offs t2 = offs t1" "idxoff t2 = int p"
    and b2: "became u (put_rec (idxf u) p v r) ?g (idx_locks u) (dat_locks u) t2"
    using writeidx_at[OF became_ready[OF b1 R] r(1) v(1) 1(3,4), of p False] room(2) r(2) became_sel[OF b1]
      became_trans[OF b1] by (auto elim!: runsE)
  obtain t3 where 3: "db_writeptr (int q) (int p) t2 = Ok () t3" "offs t3 = offs t2"
    and b3: "became u (put_ptr (put_rec (idxf u) p v r) q p) ?g (idx_locks u) (dat_locks u) t3"
    using writeptr_field[OF became_ready[OF b2 R] _ v(2), of q] room(3) became_sel[OF b2]
      became_trans[OF b2] by (auto elim!: runsE)
  have "chainoff t2 = int q" using 1(2) 2(2) q by (simp add: offs_def)
  then have "store_reuse k d (int v) u = Ok () t3"
    using 1(1,5) 2(1,3) 3(1) cu by (simp add: store_reuse_def)
  then show ?thesis using b3 1(2) 2(2) 3(2) by (simp add: runs_def offs_def)
qed

lemma reuse_found:
  assumes H: "holds t os R cs {}" and F: "freed t R cs (length k) (length d + 1) 0 u"
    and k: "is_cstr k" "SEP \<notin> set k" "is_cstr d" and q: "chainoff t = int (head (chain_of t k))"
    and new: "contents (nhash t) (datf t) R cs k = None"
  shows "runs (store_reuse k d (int (ptr_at (idxf t) (head (chain_of t k))))) u (\<lambda>_ w.
    chainoff w = chainoff t \<and> (\<exists>f g. became t f g ((idx_locks t)(0 := None)) (dat_locks t) w \<and>
      leaves t f g ((contents (nhash t) (datf t) R cs)(k \<mapsto> d)) \<and>
      length f = length (idxf t) \<and> length g = length (datf t)))"
proof -
  note D = holdsD[OF H]
  note I = db_invD[OF D(2)]
  have i: "chain_of t k \<le> nhash t" using Suc_hash_le[OF I(1)] .
  obtain as p bs where c: "cs 0 = as @ p # bs" and fs: "fits_slot R (length k) (length d + 1) p"
    and cu: "current (idxf t) R p u" and co: "chainoff u = chainoff t"
    and b: "became t (put_ptr (idxf t) (last (head 0 # as)) (ptr_at (idxf t) p)) (datf t)
      ((idx_locks t)(0 := None)) (dat_locks t) u"
    using F unfolding freed_def by auto
  define F where "F = put_ptr (put_rec (idxf u) p (ptr_at (idxf t) (head (chain_of t k)))
    ((R p)\<lparr>r_key := k\<rparr>)) (head (chain_of t k)) p"
  define G where "G = overwrite (datf t) (r_off (R p)) (d @ [NL])"
  note B = became_sel[OF b] and C = on_chain[OF D(2) le0 c]
  have len: "length k = length (r_key (R p))" "length d + 1 = r_len (R p)"
    using fs by (simp_all add: fits_slot_def)
  note X = reuse_files[OF D(2) c k(1,2) len(1) k(3) len(2) new, folded B(1), folded F_def G_def]
  note r = rec_ok_key[OF C(3) len(1) k(1,2)]
  have room: "r_off (R p) + r_len (R p) \<le> w_limit t" "p + rec_size (R p) \<le> w_limit t"
      "head (chain_of t k) + PTR_SZ \<le> w_limit t"
    using db_invD(5)[OF D(2)] C(1) layoutD(7)[OF I(2) C(1)] D(3,4)
      field_in_file[OF I(2), of "head (chain_of t k)"] i
    by (auto simp: dat_inv_def data_ok_def)
  have "runs (store_reuse k d (int (ptr_at (idxf t) (head (chain_of t k))))) u (\<lambda>_ w.
      chainoff w = chainoff u \<and> became u F G (idx_locks u) (dat_locks u) w)"
    unfolding F_def
    using reuse_runs[OF became_ready[OF b D(1)] r(1) _ _ _ current_sel(2)[OF cu], of k d
        "head (chain_of t k)" "ptr_at (idxf t) (head (chain_of t k))"]
      current_sel[OF cu] len(2) co q head_ptr_bound[OF D(2) i] layoutD(4)[OF I(2) C(1)] room B r(2)
    by (simp add: G_def)
  moreover have "length F = length (idxf t)" "length G = length (datf t)"
    using same_length[OF D(2) X(1) C(1) len(1)] data_length[OF D(2) C(1) len(2)] by (simp_all add: G_def)
  moreover from this have "leaves t F G ((contents (nhash t) (datf t) R cs)(k \<mapsto> d))"
    using X D(3,4) unfolding leaves_def by auto
  ultimately show ?thesis
    using became_trans[OF b] B co by (elim runs_conseq) (auto, blast)
qed

text \<open>\<open>db_store\<close> of a key that is not there: a free record of the right sizes is reused.\<close>

lemma became_leaves:
  "became s f g L M t \<Longrightarrow> length f = length (idxf s) \<Longrightarrow> length g = length (datf s) \<Longrightarrow> leaves t = leaves s"
  by (intro ext) (simp add: leaves_def became_sel(1,2,6,7))

definition stored :: "dbs \<Rightarrow> (string \<rightharpoonup> string) \<Rightarrow> nat \<Rightarrow> int \<Rightarrow> dbs \<Rightarrow> string \<Rightarrow> string \<Rightarrow> bool" where
  "stored s m q v w f g \<longleftrightarrow> v = 0 \<and> chainoff w = int q \<and>
     became s f g (one_lock q F_WRLCK) (\<lambda>_. None) w \<and> leaves s f g m"

lemma stored_counts [simp]:
  "stored s m q v (w\<lparr>cnt_stor1 := x\<rparr>) = stored s m q v w"
  "stored s m q v (w\<lparr>cnt_stor2 := x\<rparr>) = stored s m q v w"
  "stored s m q v (w\<lparr>cnt_stor3 := x\<rparr>) = stored s m q v w"
  "stored s m q v (w\<lparr>cnt_stor4 := x\<rparr>) = stored s m q v w"
  by (simp_all add: stored_def fun_eq_iff)

text \<open>An append from a state \<open>u\<close> in which the chain is locked and the key is not stored.\<close>

lemma append_stored:
  assumes b: "became s f g (one_lock q F_WRLCK) (\<lambda>_. None) u" and q: "q = head (chain_of s k)"
    and H: "holds u os R cs {}" and st: "storable u k d" and c: "chainoff u = int q"
    and new: "contents (nhash s) g R cs k = None"
    and len: "length f = length (idxf s)" "length g = length (datf s)"
  shows "runs (db_append k d (int (ptr_at f q))) u
    (\<lambda>_ w. \<exists>f' g'. stored s ((contents (nhash s) g R cs)(k \<mapsto> d)) q 0 w f' g')"
proof -
  note B = became_sel[OF b]
  have "runs (db_append k d (int (ptr_at (idxf u) (head (chain_of u k))))) u (\<lambda>_ w.
      chainoff w = chainoff u \<and> (\<exists>f g. became u f g (idx_locks u) (dat_locks u) w \<and>
        leaves u f g ((contents (nhash u) (datf u) R cs)(k \<mapsto> d))))"
    using st new c B q by (intro append_new[OF H]) simp_all
  moreover have "ptr_at (idxf u) (head (chain_of u k)) = ptr_at f q" using B q by simp
  ultimately have "runs (db_append k d (int (ptr_at f q))) u (\<lambda>_ w.
      chainoff w = chainoff u \<and> (\<exists>f g. became u f g (idx_locks u) (dat_locks u) w \<and>
        leaves u f g ((contents (nhash u) (datf u) R cs)(k \<mapsto> d))))" by metis
  then show ?thesis
    by (rule runs_conseq)
      (use became_trans[OF b] became_leaves[OF b len] B c in \<open>(auto simp: stored_def, blast)\<close>)
qed

lemma store_new_tail:
  assumes rep: "rep s os R cs" and q: "q = head (chain_of s k)"
    and b: "became s (idxf s) (datf s) (one_lock q F_WRLCK) (\<lambda>_. None) t"
    and c: "chainoff t = int q" and st: "storable s k d"
    and new: "contents (nhash s) (datf s) R cs k = None"
    and F: "freed t R cs (length k) (length d + 1) v u"
  defines "m \<equiv> (contents (nhash s) (datf s) R cs)(k \<mapsto> d)" and "ptr \<equiv> int (ptr_at (idxf s) q)"
  shows "v = -1 \<and> (\<forall>p\<in>set (cs 0). \<not> fits_slot R (length k) (length d + 1) p) \<and>
      runs (db_append k d ptr) u (\<lambda>_ w. \<exists>f g. stored s m q 0 w f g) \<or>
    v = 0 \<and> runs (store_reuse k d ptr) u (\<lambda>_ w. \<exists>f g. stored s m q 0 w f g \<and>
      length f = length (idxf s) \<and> length g = length (datf s))"
proof -
  note B = became_sel[OF b] and D = repD[OF rep]
  have H: "holds t os R cs {}" using holds_became[OF D(1) b] D by simp
  have lk: "(idx_locks t)(0 := None) = one_lock q F_WRLCK"
    using B(3) q head_inj[of 0 "chain_of s k"] by (auto simp: fun_eq_iff)
  from F consider "v = -1" "became t (idxf s) (datf s) (one_lock q F_WRLCK) (\<lambda>_. None) u"
      "chainoff u = chainoff t" "\<forall>p\<in>set (cs 0). \<not> fits_slot R (length k) (length d + 1) p"
    | "v = 0" using B lk unfolding freed_def by auto
  then show ?thesis
  proof cases
    case 1
    note bu = became_trans[OF b 1(2)]
    have "holds u os R cs {}" using holds_became[OF D(1) bu] D by simp
    then show ?thesis
      using append_stored[OF bu q] 1 c st storable_cong(1)[OF bu] new by (simp add: m_def ptr_def)
  next
    case 2
    have "is_cstr k" "SEP \<notin> set k" "is_cstr d"
      using st by (simp_all add: storable_def rec_ok_def new_rec_def)
    then have "runs (store_reuse k d ptr) u (\<lambda>_ w.
        chainoff w = chainoff t \<and> (\<exists>f g. became t f g (one_lock q F_WRLCK) (\<lambda>_. None) w \<and>
          leaves t f g m \<and> length f = length (idxf t) \<and> length g = length (datf t)))"
      using reuse_found[OF H, of k d u] F 2 c new B q lk by (simp add: m_def ptr_def)
    then have "runs (store_reuse k d ptr) u (\<lambda>_ w. \<exists>f g. stored s m q 0 w f g \<and>
        length f = length (idxf s) \<and> length g = length (datf s))"
      by (rule runs_conseq) (use became_trans[OF b] became_leaves[OF b refl refl] B c in \<open>(auto simp: stored_def, blast)\<close>)
    with 2 show ?thesis by simp
  qed
qed

lemma store_new_runs:
  assumes rep: "rep s os R cs" and S: "searched s R cs k F_WRLCK r t" and st: "storable s k d"
    and new: "contents (nhash s) (datf s) R cs k = None"
  shows "runs (store_new k d) t (\<lambda>v w. \<exists>f g.
    stored s ((contents (nhash s) (datf s) R cs)(k \<mapsto> d)) (head (chain_of s k)) v w f g \<and>
    ((\<exists>p\<in>set (cs 0). fits_slot R (length k) (length d + 1) p) \<longrightarrow>
       length f = length (idxf s) \<and> length g = length (datf s)))"
proof -
  define q where "q = head (chain_of s k)"
  note T = searched_state[OF rep S, folded q_def]
  note B = became_sel[OF T(1)]
  have "q \<in> fields (nhash t) os" using repD(6)[OF rep, of k] B(6) by (simp add: q_def)
  from readptr_field[OF T(3) this] obtain t1
    where 1: "db_readptr (int q) t = Ok (int (ptr_at (idxf s) q)) t1" "chainoff t1 = int q"
    and Q: "quiet t t1" using T(2) B(1) by (auto elim!: runsE simp: offs_def)
  note b1 = became_quiet[OF T(1) Q]
  from findfree_runs[OF holds_quiet[OF T(3) Q], of "length k" "length d + 1"]
  obtain v u where 2: "db_findfree (length k) (int (length d) + 1) t1 = Ok v u"
    and F: "freed t1 R cs (length k) (length d + 1) v u" by (auto elim!: runsE simp: add.commute)
  have start: "runs (store_new k d) t P \<longleftrightarrow> runs (if v < 0
      then bnd (db_append k d (int (ptr_at (idxf s) q)))
        (\<lambda>_. bnd (modify (\<lambda>s. s\<lparr>cnt_stor1 := cnt_stor1 s + 1\<rparr>)) (\<lambda>_. ret 0))
      else bnd (store_reuse k d (int (ptr_at (idxf s) q)))
        (\<lambda>_. bnd (modify (\<lambda>s. s\<lparr>cnt_stor2 := cnt_stor2 s + 1\<rparr>)) (\<lambda>_. ret 0))) u P" for P
    using 1(1) 2 T(2) by (simp add: store_new_def runs_def)
  show ?thesis
    using store_new_tail[OF rep q_def b1 1(2) st new F] unfolding start q_def[symmetric]
    by (auto simp: wp elim!: runs_conseq)
qed

text \<open>\<open>db_store\<close> of a key that is there: in place when the sizes agree, else delete and append.\<close>

lemma delete_append_runs:
  assumes rep: "rep s os R cs" and S: "searched s R cs k F_WRLCK r t" and st: "storable s k d"
    and c: "cs (chain_of s k) = as @ p # bs" "r_key (R p) = k"
    and po: "ptroff t = int (last (head (chain_of s k) # as))" and cu: "current (idxf s) R p t"
    and own: "self_print s"
  defines "q \<equiv> head (chain_of s k)"
  shows "runs (bnd db_dodelete (\<lambda>_. bnd (gets chainoff) (\<lambda>co. bnd (db_readptr co) (\<lambda>ptr.
      bnd (db_append k d ptr) (\<lambda>_. bnd (modify (\<lambda>s. s\<lparr>cnt_stor3 := cnt_stor3 s + 1\<rparr>)) (\<lambda>_. ret 0)))))) t
    (\<lambda>v w. \<exists>f g. stored s ((contents (nhash s) (datf s) R cs)(k \<mapsto> d)) q v w f g)"
proof -
  let ?m = "contents (nhash s) (datf s) R cs"
  obtain u f g where 1: "db_dodelete t = Ok 0 u" "chainoff u = int q"
    and bu: "became s f g (one_lock q F_WRLCK) (\<lambda>_. None) u" and del: "deleted s os ?m k (r_len (R p)) f g"
    using delete_found[OF rep S c po cu own] by (auto elim!: runsE simp: q_def)
  obtain R' cs' where I: "db_inv (nhash s) f g os R' cs' {}" and m: "contents (nhash s) g R' cs' = ?m(k := None)"
    and len: "length f = length (idxf s)" "length g = length (datf s)"
    using del unfolding deleted_def by blast
  have H: "holds u os R' cs' {}" using holds_became[OF repD(1)[OF rep] bu I] len repD(4,5)[OF rep] by simp
  note B = became_sel[OF bu]
  have "q \<in> fields (nhash u) os" using repD(6)[OF rep, of k] B(6) by (simp add: q_def)
  from readptr_field[OF H this] obtain u' where 2: "db_readptr (int q) u = Ok (int (ptr_at f q)) u'"
      "chainoff u' = int q" and Q: "quiet u u'" using 1(2) B(1) by (auto elim!: runsE simp: offs_def)
  note b' = became_quiet[OF bu Q]
  have "runs (db_append k d (int (ptr_at f q))) u' (\<lambda>_ w. \<exists>f' g'. stored s (?m(k \<mapsto> d)) q 0 w f' g')"
    using append_stored[OF b' q_def[THEN meta_eq_to_obj_eq] holds_quiet[OF H Q], of d] 2(2) m st len
      storable_cong(1)[OF b' len] by simp
  then show ?thesis using 1 2(1) by (auto simp: wp runs_Ok elim!: runs_conseq)
qed

lemma replace_same_runs:
  assumes rep: "rep s os R cs" and S: "searched s R cs k F_WRLCK r t" and d: "is_cstr d"
    and c: "cs (chain_of s k) = as @ p # bs" "r_key (R p) = k" and cu: "current (idxf s) R p t"
    and len: "length d + 1 = r_len (R p)"
  shows "runs (db_writedat d (int (r_off (R p))) SEEK_SET) t (\<lambda>_ w. \<exists>f g.
    stored s ((contents (nhash s) (datf s) R cs)(k \<mapsto> d)) (head (chain_of s k)) 0 w f g)"
proof -
  note T = searched_state[OF rep S] and D = repD[OF rep]
  note B = became_sel[OF T(1)]
  have p: "p \<in> set os" using on_chain(1)[OF D(2) D(6) c(1)] .
  define G where "G = overwrite (datf s) (r_off (R p)) (d @ [NL])"
  note X = step_data[OF D(2) p d len, folded G_def]
  have "contents (nhash s) G R cs = (contents (nhash s) (datf s) R cs)(k \<mapsto> d)"
    using X(4)[of "db_hash_of (nhash s) k"] hash_less[OF db_invD(1)[OF D(2)]] c by simp
  then have lv: "leaves s (idxf s) G ((contents (nhash s) (datf s) R cs)(k \<mapsto> d))"
    using X(1) D(4,5) data_length[OF D(2) p len] unfolding leaves_def G_def by auto
  have "r_off (R p) + length d + 1 \<le> length (datf t)"
    using db_invD(5)[OF D(2)] p len B(2) by (auto simp: dat_inv_def data_ok_def)
  from writedat_at[OF T(3) this] show ?thesis
    by (rule runs_conseq)
      (use became_trans[OF T(1)] T(2) B lv in \<open>(auto simp: stored_def offs_def G_def, blast)\<close>)
qed

lemma store_replace_runs:
  assumes rep: "rep s os R cs" and S: "searched s R cs k F_WRLCK r t" and st: "storable s k d"
    and c: "cs (chain_of s k) = as @ p # bs" "r_key (R p) = k"
    and po: "ptroff t = int (last (head (chain_of s k) # as))" and cu: "current (idxf s) R p t"
    and own: "self_print s \<or> length d + 1 = r_len (R p)"
  shows "runs (store_replace k d) t (\<lambda>v w. \<exists>f g.
    stored s ((contents (nhash s) (datf s) R cs)(k \<mapsto> d)) (head (chain_of s k)) v w f g)"
proof (cases "length d + 1 = r_len (R p)")
  case True
  have "is_cstr d" using st by (simp add: storable_def)
  from replace_same_runs[OF rep S this c cu True] show ?thesis
    using current_sel[OF cu] True by (auto simp: store_replace_def wp elim!: runs_conseq)
next
  case False
  with own have "self_print s" by simp
  from delete_append_runs[OF rep S st c po cu this] show ?thesis
    using current_sel(4)[OF cu] False by (simp add: store_replace_def runs_bnd runs_gets)
qed

text \<open>\<open>db_store\<close> goes through \<open>_db_dodelete\<close> when it replaces data of another length.\<close>

definition deletes_first :: "(string \<rightharpoonup> string) \<Rightarrow> string \<Rightarrow> string \<Rightarrow> int \<Rightarrow> bool" where
  "deletes_first m k d flag \<longleftrightarrow> flag AND DB_INSERT = 0 \<and>
     (case m k of None \<Rightarrow> False | Some old \<Rightarrow> length old \<noteq> length d)"

lemma rec_data_length:
  assumes "rep s os R cs" and "cs (chain_of s k) = as @ p # bs"
  shows "length (rec_data (datf s) (R p)) + 1 = r_len (R p)"
proof -
  have "data_ok (datf s) (R p)"
    using on_chain(1)[OF repD(2)[OF assms(1)] repD(6)[OF assms(1)] assms(2)] db_invD(5)[OF repD(2)[OF assms(1)]]
    by (simp add: dat_inv_def)
  then show ?thesis by (auto simp: data_ok_def rec_data_def)
qed

lemma store_data_len:
  assumes "storable s k d"
  shows "\<not> (int (length d) + 1 < DATLEN_MIN \<or> int (length d) + 1 > DATLEN_MAX)"
proof -
  have "1 \<le> length d" "length d + 1 \<le> 1024"
    using assms by (simp_all add: storable_def rec_ok_def new_rec_def)
  then show ?thesis by (cases d) (simp_all add: DATLEN_MIN_def DATLEN_MAX_def)
qed

lemma store_undefined:
  assumes rep: "rep s os R cs" and st: "storable s k d" and own: "\<not> self_print s"
    and del: "deletes_first (contents (nhash s) (datf s) R cs) k d flag"
  shows "\<exists>u. db_store k d flag s = Halt own_print u"
proof -
  obtain r t where f: "db_find k True s = Ok r t" and S: "searched s R cs k F_WRLCK r t"
    using find_runs[OF repD(1)[OF rep], of k True] by (auto elim!: runsE)
  note ok = store_data_len[OF st]
  from rep S show ?thesis
  proof (cases rule: searched_cases)
    case none
    then show ?thesis using del by (simp add: deletes_first_def)
  next
    case (found as p bs)
    have "int (length d) + 1 \<noteq> datlen t" "flag AND DB_INSERT = 0"
      using del found(6) current_sel(4)[OF found(5)] rec_data_length[OF rep found(2)]
      by (auto simp: deletes_first_def)
    then show ?thesis
      using f ok found(1) delete_lost[OF rep own S found(2,5)]
      by (auto simp: db_store_def Let_def store_replace_def)
  qed
qed

lemma store_runs:
  fixes flag :: int
  assumes rep: "rep s os R cs" and st: "storable s k d"
    and own: "self_print s \<or> \<not> deletes_first (contents (nhash s) (datf s) R cs) k d flag"
  defines "m \<equiv> contents (nhash s) (datf s) R cs"
  defines "bad \<equiv> (if m k = None then flag AND DB_REPLACE \<noteq> 0 else flag AND DB_INSERT \<noteq> 0)"
  shows "runs (db_store k d flag) s (\<lambda>v u. \<exists>f g. became s f g (\<lambda>_. None) (\<lambda>_. None) u \<and>
    (v = (if bad then (if m k = None then -1 else 1) else 0) \<and>
     leaves s f g (if bad then m else m(k \<mapsto> d)) \<and>
     (m k = None \<and> (\<exists>p\<in>set (cs 0). fits_slot R (length k) (length d + 1) p) \<longrightarrow>
        length f = length (idxf s) \<and> length g = length (datf s))))"
proof -
  note ok = store_data_len[OF st]
  show ?thesis
    unfolding db_store_def Let_def if_not_P[OF ok]
  proof (rule op_runs[OF rep], unfold if_True)
    fix r t
    assume S: "searched s R cs k F_WRLCK r t"
    note T = searched_state[OF rep S]
    from rep S show "runs (if r < 0
        then (if flag AND DB_REPLACE \<noteq> 0
              then bnd (modify (\<lambda>s. s\<lparr>cnt_storerr := cnt_storerr s + 1\<rparr>)) (\<lambda>_. ret (-1))
              else store_new k d)
        else (if flag AND DB_INSERT \<noteq> 0
              then bnd (modify (\<lambda>s. s\<lparr>cnt_storerr := cnt_storerr s + 1\<rparr>)) (\<lambda>_. ret 1)
              else store_replace k d)) t
      (\<lambda>v u. chainoff u = int (head (chain_of s k)) \<and>
        (\<exists>f g. became s f g (one_lock (head (chain_of s k)) F_WRLCK) (\<lambda>_. None) u \<and>
          (v = (if bad then (if m k = None then -1 else 1) else 0) \<and>
           leaves s f g (if bad then m else m(k \<mapsto> d)) \<and>
           (m k = None \<and> (\<exists>p\<in>set (cs 0). fits_slot R (length k) (length d + 1) p) \<longrightarrow>
              length f = length (idxf s) \<and> length g = length (datf s)))))"
    proof (cases rule: searched_cases)
      case none
      show ?thesis
        using none T leaves_same[OF rep] runs_conseq[OF store_new_runs[OF rep S st none(2)]]
        by (auto simp: wp m_def bad_def stored_def)
    next
      case (found as p bs)
      show ?thesis
      proof (cases "flag AND DB_INSERT = 0")
        case True
        then have "self_print s \<or> length d + 1 = r_len (R p)"
          using own found(6) rec_data_length[OF rep found(2)] by (auto simp: deletes_first_def)
        from runs_conseq[OF store_replace_runs[OF rep S st found(2-5) this]] show ?thesis
          using True found T by (auto simp: wp m_def bad_def stored_def)
      next
        case False
        then show ?thesis
          using found T leaves_same[OF rep] by (auto simp: wp m_def bad_def)
      qed
    qed
  qed
qed

end
