(* ===== verification/Db_Scan.thy ===== *)
theory Db_Scan
  imports Db_Store
begin

text \<open>
  Sequential access: \<open>db_nextrec\<close> steps through the tiling of the index file from where the
  file position is and skips the records with a blank key, so that \<open>db_rewind\<close> followed by
  \<open>db_nextrec\<close> until it returns null lists the records that are not deleted.
\<close>

definition blank_rec :: "(nat \<Rightarrow> irec) \<Rightarrow> nat \<Rightarrow> bool" where
  "blank_rec R p \<longleftrightarrow> blank (r_key (R p))"

lemma readidx_eof:
  assumes "db_ready s" and "fd_pos s (idxfd s) = length (idxf s)"
  shows "runs (db_readidx 0) s (\<lambda>v t. v = -1 \<and> quiet s t \<and> fd_pos t (idxfd t) = length (idxf s))"
  using assms
  by (simp add: db_readidx_def db_ready_def wp quiet_def same_env_def slice_def PTR_SZ_def)

lemma readidx_next:
  assumes H: "holds s os R cs U" and p: "p \<in> set os" and pos: "fd_pos s (idxfd s) = p"
  shows "runs (db_readidx 0) s (\<lambda>v t. v = int (ptr_at (idxf s) p) \<and> quiet s t \<and>
    fd_pos t (idxfd t) = p + rec_size (R p) \<and> current (idxf s) R p t)"
proof -
  note D = holdsD[OF H]
  note L = db_invD(2)[OF D(2)]
  show ?thesis
    using readidx_runs[OF D(1) layoutD(2)[OF L p] layoutD(3)[OF L p], of 0] pos fld_int[OF L] p
    by (simp add: fld_def current_def) (erule runs_conseq, simp)
qed

text \<open>Where a walk from the records \<open>qs\<close> stops: at the first that is not blank, or at the end.\<close>

definition next_post :: "(nat \<Rightarrow> irec) \<Rightarrow> string \<Rightarrow> nat list \<Rightarrow> bool \<Rightarrow> dbs \<Rightarrow> bool" where
  "next_post R f qs v t \<longleftrightarrow> (case dropWhile (blank_rec R) qs of
     [] \<Rightarrow> \<not> v \<and> fd_pos t (idxfd t) = length f
   | a # rest \<Rightarrow> v \<and> current f R a t \<and> fd_pos t (idxfd t) = a + rec_size (R a))"

lemma nextrec_loop_runs:
  assumes "holds s os R cs U" and "tiles (\<lambda>p. rec_size (R p)) (fd_pos s (idxfd s)) qs (length (idxf s))"
    and "set qs \<subseteq> set os" and "length qs < fuel"
  shows "runs (nextrec_loop fuel) s (\<lambda>v t. quiet s t \<and> next_post R (idxf s) qs v t)"
  using assms
proof (induction qs arbitrary: s fuel)
  case Nil
  obtain n where fuel: "fuel = Suc n" using Nil.prems(4) by (cases fuel) auto
  have pos: "fd_pos s (idxfd s) = length (idxf s)" using Nil.prems(2) by simp
  show ?case
    unfolding fuel nextrec_loop.simps
    by (intro runs_step[OF readidx_eof[OF holdsD(1)[OF Nil.prems(1)] pos]])
      (auto simp: wp next_post_def)
next
  case (Cons p qs)
  obtain n where fuel: "fuel = Suc n" "length qs < n" using Cons.prems(4) by (cases fuel) auto
  have p: "fd_pos s (idxfd s) = p" "tiles (\<lambda>p. rec_size (R p)) (p + rec_size (R p)) qs (length (idxf s))"
      "p \<in> set os" "set qs \<subseteq> set os"
    using Cons.prems(2,3) by auto
  have "runs (if dropWhile (\<lambda>c. c = CHR '' '') (idxbuf t) = [] then nextrec_loop n else ret True) t
      (\<lambda>v t'. quiet s t' \<and> next_post R (idxf s) (p # qs) v t')"
    if q: "quiet s t" and pos: "fd_pos t (idxfd t) = p + rec_size (R p)" and c: "current (idxf s) R p t" for t
  proof (cases "blank_rec R p")
    case False
    then show ?thesis
      using q pos c by (auto simp: wp blank_def current_sel(1)[OF c] blank_rec_def next_post_def)
  next
    case True
    have f: "idxf t = idxf s" using q by (simp add: quiet_def)
    have "runs (nextrec_loop n) t (\<lambda>v t'. quiet t t' \<and> next_post R (idxf t) qs v t')"
      using p(2) pos f by (intro Cons.IH[OF holds_quiet[OF Cons.prems(1) q] _ p(4) fuel(2)]) simp
    then have "runs (nextrec_loop n) t (\<lambda>v t'. quiet s t' \<and> next_post R (idxf s) (p # qs) v t')"
      by (rule runs_conseq) (use quiet_trans[OF q] True f in \<open>auto simp: next_post_def\<close>)
    then show ?thesis using True by (simp add: blank_def current_sel(1)[OF c] blank_rec_def)
  qed
  then show ?case
    unfolding fuel(1) nextrec_loop.simps
    by (intro runs_step[OF readidx_next[OF Cons.prems(1) p(3,1)]])
      (simp add: runs_bnd runs_gets del: dropWhile_eq_Nil_conv)
qed

lemma tiles_length: "tiles (\<lambda>p. rec_size (R p)) p qs e \<Longrightarrow> p + length qs \<le> e"
proof (induction qs arbitrary: p)
  case Nil
  then show ?case by simp
next
  case (Cons q qs)
  from Cons.IH[of "p + rec_size (R p)"] Cons.prems rec_size_ge[of "R p"] show ?case
    by (simp add: PTR_SZ_def)
qed

definition fresh_pos :: "dbs \<Rightarrow> (nat \<Rightarrow> irec) \<Rightarrow> nat list \<Rightarrow> bool" where
  "fresh_pos s R qs \<longleftrightarrow> tiles (\<lambda>p. rec_size (R p)) (fd_pos s (idxfd s)) qs (length (idxf s))"

text \<open>One call of \<open>db_nextrec\<close>, when the records \<open>qs\<close> are left.\<close>

definition next_rec_post :: "dbs \<Rightarrow> (nat \<Rightarrow> irec) \<Rightarrow> nat list \<Rightarrow> (string \<times> string) option \<Rightarrow> dbs \<Rightarrow> bool" where
  "next_rec_post s R qs v u \<longleftrightarrow>
     became s (idxf s) (datf s) (\<lambda>_. None) (\<lambda>_. None) u \<and>
     (case dropWhile (blank_rec R) qs of
        [] \<Rightarrow> v = None
      | a # rest \<Rightarrow> v = Some (r_key (R a), rec_data (datf s) (R a)) \<and> fresh_pos u R rest)"

lemma nextrec_finish:
  fixes x :: "(string \<times> string) option"
  assumes "db_ready s" and bu: "became s f g (one_lock 0 F_RDLCK) (\<lambda>_. None) u"
  shows "runs (bnd (un_lock (idxfd s) FREE_OFF SEEK_SET 1) (\<lambda>r.
      if r < 0 then err_dump ''un_lock error'' else ret x)) u (\<lambda>v w. v = x \<and>
    fd_pos w (idxfd w) = fd_pos u (idxfd u) \<and> became s f g (\<lambda>_. None) (\<lambda>_. None) w)"
proof -
  have R: "db_ready u" using became_ready[OF bu assms(1)] .
  have "became s f g (\<lambda>_. None) (\<lambda>_. None) (set_lock (idxp u) F_UNLCK 0 (Suc 0) u)"
    using became_trans[OF bu set_lock_became[OF R, of 0 F_UNLCK]] became_sel[OF bu] by simp
  then show ?thesis
    using R became_sel(5)[OF bu] by (simp add: wp db_ready_def FREE_OFF_def)
qed

lemma nextrec_runs:
  assumes rep: "rep s os R cs" and P: "fresh_pos s R qs" and sub: "set qs \<subseteq> set os"
  shows "runs db_nextrec s (next_rec_post s R qs)"
proof -
  note D = repD[OF rep]
  define t where "t = set_lock (idxp s) F_RDLCK 0 1 s"
  have e: "readw_lock (idxfd s) FREE_OFF SEEK_SET 1 s = Ok 0 t"
    using D(3) by (simp add: lock_macros lock_reg_ok db_ready_def t_def FREE_OFF_def)
  have b: "became s (idxf s) (datf s) (one_lock 0 F_RDLCK) (\<lambda>_. None) t"
    using rep D(3) by (auto simp: became_def same_env_def set_lock_at rep_def db_ready_def t_def fun_eq_iff)
  have Ht: "holds t os R cs {}" using holds_became[OF D(1) b D(2,4,5)] .
  have tl: "tiles (\<lambda>p. rec_size (R p)) (fd_pos t (idxfd t)) qs (length (idxf t))"
    using P by (simp add: fresh_pos_def t_def)
  have fuel: "length qs < Suc (length (idxf t))" using tiles_length[OF tl] by simp
  from nextrec_loop_runs[OF Ht tl sub fuel] obtain v t2
    where 2: "nextrec_loop (Suc (length (idxf t))) t = Ok v t2" "quiet t t2" "next_post R (idxf s) qs v t2"
    using became_sel(1)[OF b] by (auto elim!: runsE)
  note b2 = became_quiet[OF b 2(2)]
  have H2: "holds t2 os R cs {}" using holds_quiet[OF Ht 2(2)] .
  let ?mid = "if \<not> v then ret None else bnd (gets idxbuf) (\<lambda>key. bnd db_readdat (\<lambda>d.
      bnd (modify (\<lambda>s. s\<lparr>cnt_nextrec := cnt_nextrec s + 1\<rparr>)) (\<lambda>_. ret (Some (key, d)))))"
  have mid: "runs ?mid t2 (\<lambda>x u. became s (idxf s) (datf s) (one_lock 0 F_RDLCK) (\<lambda>_. None) u \<and>
      (case dropWhile (blank_rec R) qs of [] \<Rightarrow> x = None
       | a # rest \<Rightarrow> x = Some (r_key (R a), rec_data (datf s) (R a)) \<and> fresh_pos u R rest))"
  proof (cases "dropWhile (blank_rec R) qs")
    case Nil
    then show ?thesis using 2(3) b2 by (simp add: next_post_def wp del: dropWhile_eq_Nil_conv)
  next
    case (Cons a rest)
    then have a: "v" "current (idxf s) R a t2" "fd_pos t2 (idxfd t2) = a + rec_size (R a)" "a \<in> set os"
      using 2(3) sub set_dropWhileD[of a "blank_rec R" qs] by (auto simp: next_post_def)
    have "tiles (\<lambda>p. rec_size (R p)) (a + rec_size (R a)) rest (length (idxf s))"
      using tiles_split[of _ _ "takeWhile (blank_rec R) qs" "a # rest"] P Cons
        takeWhile_dropWhile_id[of "blank_rec R" qs] by (fastforce simp: fresh_pos_def)
    moreover have "idxf u = idxf s" if "quiet t2 u" for u
      using that became_sel(1)[OF b2] by (simp add: quiet_def)
    ultimately show ?thesis
      using Cons a became_sel(2)[OF b2] became_quiet[OF b2] current_sel(1)[OF a(2)]
      by (auto simp: wp fresh_pos_def
          intro!: runs_conseq[OF readdat_record[OF H2 a(4) current_sel(3,4)[OF a(2)]]])
  qed
  have "runs (bnd ?mid (\<lambda>x. bnd (un_lock (idxfd s) FREE_OFF SEEK_SET 1) (\<lambda>r.
      if r < 0 then err_dump ''un_lock error'' else ret x))) t2 (next_rec_post s R qs)"
  proof (rule runs_step[OF mid], elim conjE)
    fix x u
    assume bu: "became s (idxf s) (datf s) (one_lock 0 F_RDLCK) (\<lambda>_. None) u"
      and x: "case dropWhile (blank_rec R) qs of [] \<Rightarrow> x = None
       | a # rest \<Rightarrow> x = Some (r_key (R a), rec_data (datf s) (R a)) \<and> fresh_pos u R rest"
    show "runs (bnd (un_lock (idxfd s) FREE_OFF SEEK_SET 1) (\<lambda>r.
        if r < 0 then err_dump ''un_lock error'' else ret x)) u (next_rec_post s R qs)"
    proof (rule runs_conseq[OF nextrec_finish[OF D(3) bu]], elim conjE)
      fix x' w
      assume "x' = x" "fd_pos w (idxfd w) = fd_pos u (idxfd u)"
        and bw: "became s (idxf s) (datf s) (\<lambda>_. None) (\<lambda>_. None) w"
      moreover from this have "fresh_pos w R rest = fresh_pos u R rest" for rest
        unfolding fresh_pos_def by (simp only: became_sel(1)[OF bw] became_sel(1)[OF bu])
      ultimately show "next_rec_post s R qs x' w"
        using x by (simp add: next_rec_post_def split: list.splits del: dropWhile_eq_Nil_conv)
    qed
  qed
  then show ?thesis using e 2(1) by (simp add: db_nextrec_def runs_def)
qed

subsection \<open>A whole scan\<close>

text \<open>A caller that takes records until there are no more.\<close>

fun nextrec_all :: "nat \<Rightarrow> ((string \<times> string) list, dbs) prog" where
  "nextrec_all 0 = stop_with (Diverges ''scan'')"
| "nextrec_all (Suc n) = bnd db_nextrec (\<lambda>r. case r of
     None \<Rightarrow> ret [] | Some kv \<Rightarrow> bnd (nextrec_all n) (\<lambda>kvs. ret (kv # kvs)))"

definition live :: "string \<Rightarrow> (nat \<Rightarrow> irec) \<Rightarrow> nat list \<Rightarrow> (string \<times> string) list" where
  "live g R qs = entries g R (filter (\<lambda>p. \<not> blank_rec R p) qs)"

lemma rep_became:
  assumes "rep s os R cs" and "became s (idxf s) (datf s) (\<lambda>_. None) (\<lambda>_. None) t"
  shows "rep t os R cs"
  using holds_became[OF repD(1)[OF assms(1)] assms(2) repD(2,4,5)[OF assms(1)]] became_sel[OF assms(2)]
  by (simp add: rep_def)

lemma nextrec_all_runs:
  assumes "rep s os R cs" and "fresh_pos s R qs" and "set qs \<subseteq> set os" and "length qs < n"
  shows "runs (nextrec_all n) s (\<lambda>v u. v = live (datf s) R qs \<and>
    became s (idxf s) (datf s) (\<lambda>_. None) (\<lambda>_. None) u)"
  using assms
proof (induction n arbitrary: s qs)
  case 0
  then show ?case by simp
next
  case (Suc n)
  show ?case
    unfolding nextrec_all.simps
  proof (rule runs_step[OF nextrec_runs[OF Suc.prems(1-3)]])
    fix v t
    assume P: "next_rec_post s R qs v t"
    then have b: "became s (idxf s) (datf s) (\<lambda>_. None) (\<lambda>_. None) t" by (simp add: next_rec_post_def)
    have fl: "filter (\<lambda>p. \<not> blank_rec R p) qs = filter (\<lambda>p. \<not> blank_rec R p) (dropWhile (blank_rec R) qs)"
      by (induction qs) auto
    show "runs (case v of None \<Rightarrow> ret [] | Some kv \<Rightarrow> bnd (nextrec_all n) (\<lambda>kvs. ret (kv # kvs))) t
      (\<lambda>v u. v = live (datf s) R qs \<and> became s (idxf s) (datf s) (\<lambda>_. None) (\<lambda>_. None) u)"
    proof (cases "dropWhile (blank_rec R) qs")
      case Nil
      then show ?thesis
        using P b fl by (simp add: next_rec_post_def wp live_def entries_def del: dropWhile_eq_Nil_conv)
    next
      case (Cons a rest)
      then have v: "v = Some (r_key (R a), rec_data (datf s) (R a))" "fresh_pos t R rest" and a: "\<not> blank_rec R a"
        using P hd_dropWhile[of "blank_rec R" qs] by (auto simp: next_rec_post_def)
      have "length (a # rest) \<le> length qs" "set (a # rest) \<subseteq> set qs"
        using length_dropWhile_le[of "blank_rec R" qs] Cons set_dropWhileD[of _ "blank_rec R" qs] by auto
      then have "set rest \<subseteq> set os" "length rest < n" using Suc.prems(3,4) by auto
      from Suc.IH[OF rep_became[OF Suc.prems(1) b] v(2) this] show ?thesis
        using v(1) fl Cons a became_sel(1,2)[OF b] became_trans[OF b]
        by (auto simp: wp live_def entries_def elim!: runs_conseq)
    qed
  qed
qed

end
