(* ===== verification/Kv_Interface.thy ===== *)
theory Kv_Interface
  imports Prelude
begin

text \<open>
  The contract of a key-value store with string keys and values, as the callers of the
  database library use it: lookup, insertion of a new key, replacement of an old one and
  removal, on a store that holds a map. \<open>slots s n\<close> promises that \<open>n\<close> more updates fit.
\<close>

locale kv_store =
  fixes holds_map :: "'s \<Rightarrow> (string \<rightharpoonup> string) \<Rightarrow> bool"
    and slots :: "'s \<Rightarrow> nat \<Rightarrow> bool"
    and good :: "string \<Rightarrow> string \<Rightarrow> bool"
    and look :: "string \<Rightarrow> (string option, 's) prog"
    and ins :: "string \<Rightarrow> string \<Rightarrow> (int, 's) prog"
    and rpl :: "string \<Rightarrow> string \<Rightarrow> (int, 's) prog"
    and rem :: "string \<Rightarrow> (int, 's) prog"
  assumes look_law: "holds_map s m \<Longrightarrow> slots s n \<Longrightarrow>
      runs (look k) s (\<lambda>v t. v = m k \<and> holds_map t m \<and> slots t n)"
    and ins_law: "holds_map s m \<Longrightarrow> slots s (Suc n) \<Longrightarrow> good k d \<Longrightarrow>
      runs (ins k d) s (\<lambda>v t. slots t n \<and>
        (if m k = None then v = 0 \<and> holds_map t (m(k \<mapsto> d)) else v = 1 \<and> holds_map t m))"
    and rpl_law: "holds_map s m \<Longrightarrow> slots s (Suc n) \<Longrightarrow> good k d \<Longrightarrow>
      runs (rpl k d) s (\<lambda>v t. slots t n \<and>
        (if m k = None then v = -1 \<and> holds_map t m else v = 0 \<and> holds_map t (m(k \<mapsto> d))))"
    and rem_law: "holds_map s m \<Longrightarrow> slots s n \<Longrightarrow>
      runs (rem k) s (\<lambda>v t. v = (if m k = None then -1 else 0) \<and> holds_map t (m(k := None)) \<and> slots t n)"
begin

lemma look_after_rem:
  assumes "holds_map s m" and "slots s n"
  shows "runs (bnd (rem k) (\<lambda>_. look j)) s (\<lambda>v t. v = (if j = k then None else m j) \<and> holds_map t (m(k := None)))"
  by (rule runs_step[OF rem_law[OF assms]], elim conjE) (auto intro: runs_conseq[OF look_law])

lemma look_after_ins:
  assumes "holds_map s m" and "slots s (Suc n)" and "good k d" and "m k = None"
  shows "runs (bnd (ins k d) (\<lambda>_. look j)) s
    (\<lambda>v t. v = (if j = k then Some d else m j) \<and> holds_map t (m(k \<mapsto> d)))"
  by (rule runs_step[OF ins_law[OF assms(1-3)]]) (use assms(4) in \<open>auto intro: runs_conseq[OF look_law]\<close>)

lemma rem_undoes_ins:
  assumes "holds_map s m" and "slots s (Suc n)" and "good k d" and "m k = None"
  shows "runs (bnd (ins k d) (\<lambda>_. rem k)) s (\<lambda>v t. v = 0 \<and> holds_map t m)"
  by (rule runs_step[OF ins_law[OF assms(1-3)]])
    (use assms(4) in \<open>auto simp: fun_upd_idem intro!: runs_conseq[OF rem_law]\<close>)

end

text \<open>A caller that inserts a list of records and stops at the first failure.\<close>

primrec ins_all :: "(string \<Rightarrow> string \<Rightarrow> (int, 's) prog) \<Rightarrow> (string \<times> string) list \<Rightarrow> (bool, 's) prog" where
  "ins_all ins [] = ret True"
| "ins_all ins (kd # kds) = bnd (ins (fst kd) (snd kd)) (\<lambda>r. if r \<noteq> 0 then ret False else ins_all ins kds)"

context kv_store
begin

lemma ins_all_runs:
  assumes "holds_map s m" and "slots s (length kds + n)" and "\<And>k d. (k, d) \<in> set kds \<Longrightarrow> good k d \<and> m k = None"
    and "distinct (map fst kds)"
  shows "runs (ins_all ins kds) s (\<lambda>v t. v \<and> holds_map t (m ++ map_of kds) \<and> slots t n)"
  using assms
proof (induction kds arbitrary: s m)
  case Nil
  then show ?case by (simp add: wp)
next
  case (Cons kd kds)
  obtain k d where kd: "kd = (k, d)" by (cases kd)
  have g: "good k d" "m k = None" and sl: "slots s (Suc (length kds + n))" using Cons.prems kd by auto
  have upd: "m(k \<mapsto> d) ++ map_of kds = m ++ map_of (kd # kds)"
    using Cons.prems(4) kd by (simp add: map_add_upd_left dom_map_of_conv_image_fst)
  have pre: "good k' d' \<and> (m(k \<mapsto> d)) k' = None" if "(k', d') \<in> set kds" for k' d'
  proof -
    have "k' \<in> fst ` set kds" using that by force
    then have "k' \<noteq> k" using Cons.prems(4) kd by auto
    then show ?thesis using Cons.prems(3)[of k' d'] that by simp
  qed
  have dist: "distinct (map fst kds)" using Cons.prems(4) by simp
  have "runs (ins_all ins kds) t (\<lambda>v t. v \<and> holds_map t (m(k \<mapsto> d) ++ map_of kds) \<and> slots t n)"
    if "holds_map t (m(k \<mapsto> d))" "slots t (length kds + n)" for t
    by (rule Cons.IH[OF that pre dist])
  then show ?case
    unfolding ins_all.simps kd fst_conv snd_conv upd[unfolded kd, symmetric]
    by (intro runs_step[OF ins_law[OF Cons.prems(1) sl g(1)]]) (use g(2) in auto)
qed

end

end
