(* ===== verification/Db_Correct.thy ===== *)
theory Db_Correct
  imports Db_Scan Kv_Interface
begin

text \<open>
  What the database library promises its callers. \<open>db_rep s m\<close> says that the open database
  of state \<open>s\<close> is well formed, unlocked and holds the map \<open>m\<close>. \<open>db_open\<close> establishes it,
  and \<open>db_fetch\<close>, \<open>db_store\<close>, \<open>db_delete\<close> and \<open>db_nextrec\<close> refine lookup, update,
  removal and enumeration of that map.
\<close>

definition db_rep :: "dbs \<Rightarrow> (string \<rightharpoonup> string) \<Rightarrow> bool" where
  "db_rep s m \<longleftrightarrow> (\<exists>os R cs. rep s os R cs \<and> m = contents (nhash s) (datf s) R cs)"

lemma db_repE:
  assumes "db_rep s m"
  obtains os R cs where "rep s os R cs" and "m = contents (nhash s) (datf s) R cs"
  using assms by (auto simp: db_rep_def)

lemma rep_after:
  assumes "rep s os R cs" and B: "became s f g (\<lambda>_. None) (\<lambda>_. None) t" and "leaves s f g m"
  shows "db_rep t m"
proof -
  from assms(3) obtain os' R' cs' where I: "db_inv (nhash s) f g os' R' cs' {}"
    and m: "contents (nhash s) g R' cs' = m" and len: "length f \<le> w_limit s" "length g \<le> w_limit s"
    by (auto simp: leaves_def)
  have "rep t os' R' cs'"
    using holds_became[OF repD(1)[OF assms(1)] B I len] became_sel[OF B] by (simp add: rep_def)
  with m show ?thesis using became_sel[OF B] by (auto simp: db_rep_def)
qed

subsection \<open>A new database\<close>

lemma slice_concat_replicate:
  assumes "length x = w" and "i < n"
  shows "slice (concat (replicate n x) @ y) (w * i) w = x"
  using assms
proof (induction n arbitrary: i)
  case 0
  then show ?case by simp
next
  case (Suc n)
  show ?case
  proof (cases i)
    case 0
    then show ?thesis using Suc.prems by (simp add: slice_def)
  next
    case (Suc j)
    then have "slice (concat (replicate n x) @ y) (w * j) w = x"
      using Suc.IH[of j] \<open>length x = w\<close> \<open>i < Suc n\<close> by simp
    moreover have "drop (w * i) (x @ concat (replicate n x) @ y) = drop (w * j) (concat (replicate n x) @ y)"
      using Suc \<open>length x = w\<close> by simp
    ultimately show ?thesis by (simp add: slice_def)
  qed
qed

lemma length_init_hash: "length db_init_hash = hdr NHASH_DEF"
  by (simp add: db_init_hash_def length_concat sum_list_replicate hdr_def length_fmt_wd db_consts)

lemma init_hash_fld: "i \<le> NHASH_DEF \<Longrightarrow> fld db_init_hash (head i) = 0"
proof -
  assume "i \<le> NHASH_DEF"
  moreover have "length (fmt_wd PTR_SZ 0) = PTR_SZ" by (rule length_fmt_wd) (simp_all add: db_consts)
  ultimately have "slice db_init_hash (PTR_SZ * i) PTR_SZ = fmt_wd PTR_SZ 0"
    unfolding db_init_hash_def by (intro slice_concat_replicate) simp_all
  then show ?thesis by (simp add: fld_def head_def)
qed

lemma init_inv: "db_inv NHASH_DEF db_init_hash [] [] R (\<lambda>_. []) {}"
  using length_init_hash init_hash_fld
  by (auto simp: db_inv_def layout_def linked_def keyed_def dat_inv_def ptr_at_fld NHASH_DEF_def)

lemma contents_empty: "contents n g R (\<lambda>_. []) = Map.empty"
  by (simp add: contents_def entries_def fun_eq_iff)

subsection \<open>Opening\<close>

definition db_mem :: "string \<Rightarrow> nat" where
  "db_mem path = sizeof_DB + (length path + 5) + (nat IDXLEN_MAX + 2) + (nat DATLEN_MAX + 2)"

text \<open>The system as another part of the process sees it, apart from its free memory.\<close>

definition sys_view :: "dbs \<Rightarrow> _" where
  "sys_view s = (w_files s, w_fds s, w_maxfd s, w_limit s, w_denied s, w_locks s, w_others s,
     self_print s)"

lemma malloc_ok: "n \<le> w_mem s \<Longrightarrow> sys_malloc n s = Ok True (s\<lparr>w_mem := w_mem s - n\<rparr>)"
  by (simp add: sys_malloc_def)

lemma alloc_runs:
  assumes "db_mem path \<le> w_mem s"
  shows "runs (db_alloc (length path)) s (\<lambda>_ t. sys_view t = sys_view s \<and> idxfd t = -1 \<and> datfd t = -1 \<and>
    name_sz t = length path + 5 \<and> w_mem t = w_mem s - db_mem path)"
  using assms
  by (simp add: db_alloc_def runs_def malloc_ok db_mem_def db_zero_def IDXLEN_MAX_def DATLEN_MAX_def
      sizeof_DB_def sys_view_def)

text \<open>The two lowest free descriptors.\<close>

definition two_fds :: "dbs \<Rightarrow> nat \<Rightarrow> nat \<Rightarrow> bool" where
  "two_fds s a b \<longleftrightarrow> (case filter (\<lambda>i. w_fds s (int i) = None) [0..<w_maxfd s] of
     x # y # _ \<Rightarrow> x = a \<and> y = b | _ \<Rightarrow> False)"

lemma two_fds_new:
  assumes "two_fds s a b"
  shows "new_fd s = Some (int a)" and "a \<noteq> b" and "w_fds s (int a) = None" and "w_fds s (int b) = None"
    and "a < w_maxfd s" and "b < w_maxfd s"
    and "filter (\<lambda>i. i \<noteq> a \<and> w_fds s (int i) = None) [0..<w_maxfd s] \<noteq> []"
    and "hd (filter (\<lambda>i. i \<noteq> a \<and> w_fds s (int i) = None) [0..<w_maxfd s]) = b"
proof -
  let ?P = "\<lambda>i. w_fds s (int i) = None" and ?n = "w_maxfd s"
  obtain zs where xs: "filter ?P [0..<?n] = a # b # zs"
    using assms by (auto simp: two_fds_def split: list.splits)
  then show "new_fd s = Some (int a)" by (simp add: new_fd_def)
  have d: "distinct (filter ?P [0..<?n])" by simp
  then show "a \<noteq> b" by (simp add: xs)
  have "{a, b} \<subseteq> set (filter ?P [0..<?n])" by (simp add: xs)
  then show "w_fds s (int a) = None" "w_fds s (int b) = None" "a < ?n" "b < ?n" by auto
  have "filter (\<lambda>i. i \<noteq> a \<and> ?P i) [0..<?n] = filter (\<lambda>i. i \<noteq> a) (filter ?P [0..<?n])"
    by (simp add: conj_commute)
  also have "\<dots> = b # zs" unfolding xs using d by (auto simp: xs filter_id_conv)
  finally show "filter (\<lambda>i. i \<noteq> a \<and> ?P i) [0..<?n] \<noteq> []" "hd (filter (\<lambda>i. i \<noteq> a \<and> ?P i) [0..<?n]) = b"
    by simp_all
qed

definition openable :: "dbs \<Rightarrow> string \<Rightarrow> int \<Rightarrow> bool" where
  "openable s p oflag \<longleftrightarrow> \<not> odd_flags oflag \<and> \<not> w_denied s p \<and> (w_files s p \<noteq> None \<or> oflag AND O_CREAT \<noteq> 0)"

definition opened :: "dbs \<Rightarrow> string \<Rightarrow> int \<Rightarrow> string" where
  "opened s p oflag = (if oflag AND O_TRUNC = 0 then file_bytes s p else [])"

lemma open_first:
  assumes "two_fds s a b" and "openable s p oflag" and "sys_view t = sys_view s"
  shows "sys_open p oflag t = Ok (int a) (t\<lparr>w_files := (w_files s)(p \<mapsto> opened s p oflag),
    w_fds := (w_fds s)(int a \<mapsto> \<lparr>o_path = p, o_pos = 0, o_oflag = oflag\<rparr>)\<rparr>)"
proof -
  have "new_fd t = Some (int a)" using two_fds_new(1)[OF assms(1)] assms(3)
    by (simp add: new_fd_def sys_view_def)
  then show ?thesis using assms(2,3)
    by (auto simp: sys_open_def openable_def opened_def sys_view_def file_bytes_def open_error_none)
qed

lemma open_second:
  assumes F: "two_fds s a b" and "openable s q oflag" and "p \<noteq> q"
    and t: "w_fds t = (w_fds s)(int a \<mapsto> f)" "w_maxfd t = w_maxfd s" "w_denied t = w_denied s"
      "w_files t = (w_files s)(p \<mapsto> c)"
  shows "sys_open q oflag t = Ok (int b) (t\<lparr>w_files := (w_files s)(p \<mapsto> c, q \<mapsto> opened s q oflag),
    w_fds := (w_fds s)(int a \<mapsto> f, int b \<mapsto> \<lparr>o_path = q, o_pos = 0, o_oflag = oflag\<rparr>)\<rparr>)"
proof -
  have "filter (\<lambda>i. w_fds t (int i) = None) [0..<w_maxfd t] =
      filter (\<lambda>i. i \<noteq> a \<and> w_fds s (int i) = None) [0..<w_maxfd s]"
    using t by (auto intro: filter_cong)
  then have "new_fd t = Some (int b)"
    using two_fds_new(7,8)[OF F] by (auto simp: new_fd_def neq_Nil_conv)
  then show ?thesis using assms(2,3) t
    by (auto simp: sys_open_def openable_def opened_def file_bytes_def open_error_none)
qed

text \<open>The state \<open>db_open\<close> reaches when both files are open.\<close>

definition both_open :: "dbs \<Rightarrow> string \<Rightarrow> int \<Rightarrow> nat \<Rightarrow> nat \<Rightarrow> dbs \<Rightarrow> bool" where
  "both_open s path oflag a b t \<longleftrightarrow>
     w_files t = (w_files s)(path @ ''.idx'' \<mapsto> opened s (path @ ''.idx'') oflag,
                             path @ ''.dat'' \<mapsto> opened s (path @ ''.dat'') oflag) \<and>
     w_fds t = (w_fds s)(int a \<mapsto> \<lparr>o_path = path @ ''.idx'', o_pos = 0, o_oflag = oflag\<rparr>,
                         int b \<mapsto> \<lparr>o_path = path @ ''.dat'', o_pos = 0, o_oflag = oflag\<rparr>) \<and>
     idxfd t = int a \<and> datfd t = int b \<and> w_limit t = w_limit s \<and> w_locks t = w_locks s \<and>
     w_others t = w_others s \<and> w_mem t = w_mem s - db_mem path \<and> name_sz t = length path + 5 \<and>
     w_maxfd t = w_maxfd s \<and> w_denied t = w_denied s \<and> self_print t = self_print s"

lemma open_prefix:
  assumes "db_mem path \<le> w_mem s" and F: "two_fds s a b"
    and O: "openable s (path @ ''.idx'') oflag" "openable s (path @ ''.dat'') oflag"
  shows "\<exists>t. both_open s path oflag a b t \<and> db_open path oflag s = bnd (if oflag AND (O_CREAT OR O_TRUNC) = (O_CREAT OR O_TRUNC)
        then db_init_file else ret ()) (\<lambda>_.
      bnd (modify (\<lambda>s. s\<lparr>nhash := NHASH_DEF, hashoff := HASH_OFF\<rparr>)) (\<lambda>_.
      bnd db_rewind (\<lambda>_. ret True))) t"
proof -
  obtain t1 where 1: "db_alloc (length path) s = Ok () t1" "sys_view t1 = sys_view s"
      "w_mem t1 = w_mem s - db_mem path" "name_sz t1 = length path + 5"
    using alloc_runs[OF assms(1)] by (auto elim!: runsE)
  let ?p = "path @ ''.idx''" and ?q = "path @ ''.dat''"
  define t2 where "t2 = t1\<lparr>db_oflag := oflag, db_name := ?p\<rparr>"
  define t3 where "t3 = t2\<lparr>w_files := (w_files s)(?p \<mapsto> opened s ?p oflag),
    w_fds := (w_fds s)(int a \<mapsto> \<lparr>o_path = ?p, o_pos = 0, o_oflag = oflag\<rparr>)\<rparr>"
  define t4 where "t4 = t3\<lparr>idxfd := int a, db_name := ?q\<rparr>"
  define t5 where "t5 = t4\<lparr>w_files := (w_files s)(?p \<mapsto> opened s ?p oflag, ?q \<mapsto> opened s ?q oflag),
    w_fds := (w_fds s)(int a \<mapsto> \<lparr>o_path = ?p, o_pos = 0, o_oflag = oflag\<rparr>,
      int b \<mapsto> \<lparr>o_path = ?q, o_pos = 0, o_oflag = oflag\<rparr>), datfd := int b\<rparr>"
  have v: "w_maxfd t1 = w_maxfd s" "w_denied t1 = w_denied s" "w_limit t1 = w_limit s"
      "w_locks t1 = w_locks s" "w_others t1 = w_others s"
      "self_print t1 = self_print s" using 1(2) by (simp_all add: sys_view_def)
  have "sys_open ?p oflag t2 = Ok (int a) t3"
    unfolding t3_def using 1(2) by (intro open_first[OF F O(1)]) (simp add: t2_def sys_view_def)
  moreover have "sys_open ?q oflag t4 = Ok (int b) (t4\<lparr>w_files := w_files t5, w_fds := w_fds t5\<rparr>)"
    using open_second[OF F O(2), of ?p t4] v by (simp add: t4_def t3_def t2_def t5_def)
  ultimately have "db_open path oflag s = bnd (if oflag AND (O_CREAT OR O_TRUNC) = (O_CREAT OR O_TRUNC)
        then db_init_file else ret ()) (\<lambda>_.
      bnd (modify (\<lambda>s. s\<lparr>nhash := NHASH_DEF, hashoff := HASH_OFF\<rparr>)) (\<lambda>_.
      bnd db_rewind (\<lambda>_. ret True))) t5"
    using 1(1) by (simp add: db_open_def t2_def t4_def t5_def)
  moreover have "both_open s path oflag a b t5"
    using v 1(3,4) by (simp add: both_open_def t5_def t4_def t3_def t2_def)
  ultimately show ?thesis by blast
qed

lemma both_open_view:
  assumes "both_open s path oflag a b t" and "a \<noteq> b" and "oflag AND 3 = O_RDWR"
  shows "rdwr t (int a)" "rdwr t (int b)" "fd_path t (int a) = path @ ''.idx''"
    "fd_path t (int b) = path @ ''.dat''" "fd_pos t (int a) = 0" "idxfd t = int a" "datfd t = int b"
    "fd_bytes t (int a) = opened s (path @ ''.idx'') oflag"
    "fd_bytes t (int b) = opened s (path @ ''.dat'') oflag"
  using assms
  by (simp_all add: both_open_def rdwr_def fd_path_def fd_pos_def fd_bytes_def file_bytes_def)

text \<open>Nobody else locks the files of the database \<open>path\<close>, and this process holds no lock.\<close>

definition quiet_files :: "dbs \<Rightarrow> string \<Rightarrow> bool" where
  "quiet_files s path \<longleftrightarrow> unshared s (path @ ''.idx'') \<and> unshared s (path @ ''.dat'') \<and>
     w_locks s (path @ ''.idx'') = (\<lambda>_. None) \<and> w_locks s (path @ ''.dat'') = (\<lambda>_. None)"

lemma both_open_quiet:
  assumes "both_open s path oflag a b t" and "quiet_files s path"
  shows "unshared t (path @ ''.idx'')" "unshared t (path @ ''.dat'')"
    "w_locks t (path @ ''.idx'') = (\<lambda>_. None)" "w_locks t (path @ ''.dat'') = (\<lambda>_. None)"
  using assms by (simp_all add: both_open_def quiet_files_def unshared_def)

lemma both_open_rest:
  assumes "both_open s path oflag a b t" and "two_fds s a b"
  shows "((w_fds t)(idxfd t := None, datfd t := None)) = w_fds s"
  using assms(1) two_fds_new[OF assms(2)] by (auto simp: both_open_def fun_eq_iff)

lemma fields_nhash [simp]:
  fixes s :: dbs
  shows "rdwr (s\<lparr>nhash := x, hashoff := y\<rparr>) = rdwr s" "fd_path (s\<lparr>nhash := x, hashoff := y\<rparr>) = fd_path s"
    "fd_bytes (s\<lparr>nhash := x, hashoff := y\<rparr>) = fd_bytes s" "unshared (s\<lparr>nhash := x, hashoff := y\<rparr>) = unshared s"
  by (simp_all add: rdwr_def fd_path_def fd_bytes_def file_bytes_def unshared_def fun_eq_iff)

text \<open>What the process sees of the system besides the files of the database.\<close>

definition rest_view :: "dbs \<Rightarrow> _" where
  "rest_view s = (w_limit s, w_others s, w_maxfd s, w_denied s, self_print s, (w_fds s)(idxfd s := None, datfd s := None))"

lemma rest_view_sets:
  "fd = idxfd s \<or> fd = datfd s \<Longrightarrow> rest_view (set_pos fd p s) = rest_view s"
  "rest_view (set_bytes q c s) = rest_view s"
  "rest_view (set_lock q l i n s) = rest_view s"
  "rest_view (s\<lparr>nhash := x, hashoff := y\<rparr>) = rest_view s"
  "rest_view (s\<lparr>idxoff := y\<rparr>) = rest_view s"
  by (auto simp: rest_view_def set_pos_def set_bytes_def set_lock_def fun_eq_iff)

lemma both_open_rest_view:
  assumes "both_open s path oflag a b t" and "two_fds s a b"
  shows "rest_view t = (w_limit s, w_others s, w_maxfd s, w_denied s, self_print s, w_fds s)" "0 \<le> idxfd t" "0 \<le> datfd t"
    "idxfd t < int (w_maxfd s)" "datfd t < int (w_maxfd s)"
  using both_open_rest[OF assms] assms(1) two_fds_new(5,6)[OF assms(2)] by (simp_all add: rest_view_def both_open_def)

text \<open>The last statements of \<open>db_open\<close> turn well-formed files into an open database.\<close>

lemma open_suffix:
  assumes "rdwr t (idxfd t)" "rdwr t (datfd t)" "idxp t \<noteq> datp t" "unshared t (idxp t)" "unshared t (datp t)"
    and "idx_locks t = (\<lambda>_. None)" "dat_locks t = (\<lambda>_. None)"
    and I: "db_inv NHASH_DEF (idxf t) (datf t) os R cs {}"
    and "length (idxf t) \<le> w_limit t" "length (datf t) \<le> w_limit t"
  shows "runs (bnd (modify (\<lambda>s. s\<lparr>nhash := NHASH_DEF, hashoff := HASH_OFF\<rparr>)) (\<lambda>_. bnd db_rewind (\<lambda>_. ret True))) t
    (\<lambda>v u. v \<and> rep u os R cs \<and> nhash u = NHASH_DEF \<and> datf u = datf t \<and> idxf u = idxf t \<and>
       idxp u = idxp t \<and> datp u = datp t \<and> fd_pos u (idxfd u) = hdr NHASH_DEF \<and>
       w_mem u = w_mem t \<and> name_sz u = name_sz t \<and> idxfd u = idxfd t \<and> datfd u = datfd t \<and>
       rest_view u = rest_view t \<and> w_files u = w_files t)"
proof -
  have "nat ((int NHASH_DEF + 1) * int PTR_SZ + 1) = hdr NHASH_DEF" by (simp add: hdr_def db_consts)
  moreover have "0 < NHASH_DEF" "2 + (int NHASH_DEF + 1) * int PTR_SZ \<noteq> 0" by (simp_all add: db_consts)
  ultimately show ?thesis
    using assms by (simp add: db_rewind_def wp rep_def holds_def db_ready_def rest_view_sets)
qed

lemma creat_trunc:
  assumes "oflag = O_RDWR OR O_CREAT OR O_TRUNC"
  shows "oflag AND (O_CREAT OR O_TRUNC) = O_CREAT OR O_TRUNC" "oflag AND 3 = O_RDWR"
    "oflag AND O_CREAT \<noteq> 0" "oflag AND O_TRUNC \<noteq> 0" "\<not> odd_flags oflag"
  by (simp_all add: assms oflag_defs odd_flags_def)

definition can_create :: "dbs \<Rightarrow> string \<Rightarrow> nat \<Rightarrow> nat \<Rightarrow> bool" where
  "can_create s path a b \<longleftrightarrow> db_mem path \<le> w_mem s \<and> two_fds s a b \<and>
     \<not> w_denied s (path @ ''.idx'') \<and> \<not> w_denied s (path @ ''.dat'') \<and> quiet_files s path \<and>
     length db_init_hash \<le> w_limit s"

text \<open>What \<open>db_open\<close> returns to its caller.\<close>

definition open_post :: "dbs \<Rightarrow> string \<Rightarrow> (string \<rightharpoonup> string) \<Rightarrow> dbs \<Rightarrow> bool" where
  "open_post s path m u \<longleftrightarrow> db_rep u m \<and> nhash u = NHASH_DEF \<and> idxp u = path @ ''.idx'' \<and>
     datp u = path @ ''.dat'' \<and> fd_pos u (idxfd u) = hdr NHASH_DEF \<and>
     w_mem u = w_mem s - db_mem path \<and> name_sz u = length path + 5 \<and> 0 \<le> idxfd u \<and> 0 \<le> datfd u \<and>
     idxfd u < int (w_maxfd s) \<and> datfd u < int (w_maxfd s) \<and> rest_view u = (w_limit s, w_others s, w_maxfd s, w_denied s, self_print s, w_fds s) \<and>
     {path @ ''.idx'', path @ ''.dat''} \<subseteq> dom (w_files u)"

lemma create_runs:
  assumes C: "can_create s path a b" and f: "oflag = O_RDWR OR O_CREAT OR O_TRUNC"
  shows "runs (db_open path oflag) s (\<lambda>v u. v \<and> open_post s path Map.empty u \<and>
    idxf u = db_init_hash \<and> datf u = [])"
proof -
  have c: "db_mem path \<le> w_mem s" "two_fds s a b" "quiet_files s path" "length db_init_hash \<le> w_limit s"
    and o: "openable s (path @ ''.idx'') oflag" "openable s (path @ ''.dat'') oflag"
    using C creat_trunc(3,5)[OF f] by (simp_all add: can_create_def openable_def)
  obtain t where B: "both_open s path oflag a b t" and e: "db_open path oflag s = bnd db_init_file (\<lambda>_.
      bnd (modify (\<lambda>s. s\<lparr>nhash := NHASH_DEF, hashoff := HASH_OFF\<rparr>)) (\<lambda>_. bnd db_rewind (\<lambda>_. ret True))) t"
    using open_prefix[OF c(1,2) o] creat_trunc(1)[OF f] by auto
  note V = both_open_view[OF B two_fds_new(2)[OF c(2)] creat_trunc(2)[OF f]] and Q = both_open_quiet[OF B c(3)]
  have nil: "opened s p oflag = []" for p using creat_trunc(4)[OF f] by (simp add: opened_def)
  have lim: "length db_init_hash \<le> w_limit t" "w_mem t = w_mem s - db_mem path" "name_sz t = length path + 5"
    using B c(4) by (simp_all add: both_open_def)
  have "runs db_init_file t (\<lambda>_ u. rdwr u (idxfd u) \<and> rdwr u (datfd u) \<and> idxp u = path @ ''.idx'' \<and>
      datp u = path @ ''.dat'' \<and> unshared u (idxp u) \<and> unshared u (datp u) \<and>
      idx_locks u = (\<lambda>_. None) \<and> dat_locks u = (\<lambda>_. None) \<and> idxf u = db_init_hash \<and> datf u = [] \<and>
      w_limit u = w_limit t \<and> w_mem u = w_mem t \<and> name_sz u = name_sz t \<and>
      idxfd u = idxfd t \<and> datfd u = datfd t \<and> rest_view u = rest_view t \<and>
      dom (w_files t) \<subseteq> dom (w_files u))"
    using V Q lim(1) overwrite_end[of "[]" db_init_hash]
    by (auto simp: db_init_file_def wp nil set_lock_at fun_eq_iff rest_view_sets)
  then obtain u where u: "db_init_file t = Ok () u" "rdwr u (idxfd u)" "rdwr u (datfd u)"
      "idxp u = path @ ''.idx''" "datp u = path @ ''.dat''" "unshared u (idxp u)" "unshared u (datp u)"
      "idx_locks u = (\<lambda>_. None)" "dat_locks u = (\<lambda>_. None)" "idxf u = db_init_hash" "datf u = []"
      "w_limit u = w_limit t" "w_mem u = w_mem t" "name_sz u = name_sz t" "idxfd u = idxfd t"
      "datfd u = datfd t" "rest_view u = rest_view t" "dom (w_files t) \<subseteq> dom (w_files u)" by (auto elim!: runsE)
  have ne: "idxp u \<noteq> datp u" using u(4,5) by (simp only:) simp
  have I: "db_inv NHASH_DEF (idxf u) (datf u) [] undefined (\<lambda>_. []) {}" using init_inv by (simp add: u(10,11))
  have ex: "{path @ ''.idx'', path @ ''.dat''} \<subseteq> dom (w_files u)"
    using u(18) B by (auto simp: both_open_def)
  have len: "length (idxf u) \<le> w_limit u" "length (datf u) \<le> w_limit u"
    using u(10-12) lim(1) by simp_all
  have "runs (bnd (modify (\<lambda>s. s\<lparr>nhash := NHASH_DEF, hashoff := HASH_OFF\<rparr>)) (\<lambda>_. bnd db_rewind (\<lambda>_. ret True))) u
      (\<lambda>v w. v \<and> open_post s path Map.empty w \<and> idxf w = db_init_hash \<and> datf w = [])"
    by (rule runs_conseq[OF open_suffix[OF u(2,3) ne u(6-9) I len]])
      (use u(1-17) ex lim both_open_rest_view[OF B c(2)] in
        \<open>auto simp: open_post_def db_rep_def contents_empty intro!: exI\<close>)
  then show ?thesis by (simp only: runs_def e bnd_Ok[of db_init_file, OF u(1)])
qed

subsection \<open>Closing and opening again\<close>

text \<open>The files of database \<open>path\<close> hold the map \<open>m\<close>.\<close>

definition db_files :: "dbs \<Rightarrow> string \<Rightarrow> (string \<rightharpoonup> string) \<Rightarrow> bool" where
  "db_files s path m \<longleftrightarrow> (\<exists>f g os R cs. w_files s (path @ ''.idx'') = Some f \<and>
     w_files s (path @ ''.dat'') = Some g \<and> length f \<le> w_limit s \<and> length g \<le> w_limit s \<and>
     db_inv NHASH_DEF f g os R cs {} \<and> m = contents NHASH_DEF g R cs)"

definition db_named :: "dbs \<Rightarrow> string \<Rightarrow> bool" where
  "db_named s path \<longleftrightarrow> nhash s = NHASH_DEF \<and> idxp s = path @ ''.idx'' \<and> datp s = path @ ''.dat'' \<and>
     name_sz s = length path + 5"

lemma close_runs:
  assumes "rdwr s (idxfd s)" "rdwr s (datfd s)" "idxfd s \<noteq> datfd s" "0 \<le> idxfd s" "0 \<le> datfd s"
  shows "runs db_close s (\<lambda>_ t. w_files t = w_files s \<and> w_limit t = w_limit s \<and>
    w_fds t = (w_fds s)(idxfd s := None, datfd s := None) \<and>
    w_locks t = (w_locks s)(idxp s := (\<lambda>_. None), datp s := (\<lambda>_. None)) \<and>
    w_mem t = w_mem s + (sizeof_DB + name_sz s + (nat IDXLEN_MAX + 2) + (nat DATLEN_MAX + 2)) \<and>
    w_others t = w_others s \<and> w_maxfd t = w_maxfd s \<and> w_denied t = w_denied s)"
  using rdwr_open[OF assms(1)] rdwr_open[OF assms(2)] assms(3-5)
  by (auto simp: db_close_def db_free_def sys_close_def sys_free_def runs_def fd_path_def)

lemma can_open_prefix:
  assumes "db_files s path m" and "\<not> w_denied s (path @ ''.idx'')" and "\<not> w_denied s (path @ ''.dat'')"
  shows "openable s (path @ ''.idx'') O_RDWR" "openable s (path @ ''.dat'') O_RDWR"
  using assms by (auto simp: openable_def db_files_def)

definition can_open :: "dbs \<Rightarrow> string \<Rightarrow> nat \<Rightarrow> nat \<Rightarrow> bool" where
  "can_open s path a b \<longleftrightarrow> db_mem path \<le> w_mem s \<and> two_fds s a b \<and>
     \<not> w_denied s (path @ ''.idx'') \<and> \<not> w_denied s (path @ ''.dat'') \<and> quiet_files s path"

lemma reopen_runs:
  assumes F: "db_files s path m" and C: "can_open s path a b"
  shows "runs (db_open path O_RDWR) s (\<lambda>v u. v \<and> open_post s path m u)"
proof -
  from F obtain f g os R cs where f: "w_files s (path @ ''.idx'') = Some f" "w_files s (path @ ''.dat'') = Some g"
      "length f \<le> w_limit s" "length g \<le> w_limit s" and I: "db_inv NHASH_DEF f g os R cs {}"
    and m: "m = contents NHASH_DEF g R cs" by (auto simp: db_files_def)
  have c: "db_mem path \<le> w_mem s" "two_fds s a b" "quiet_files s path" using C by (simp_all add: can_open_def)
  have flags: "O_RDWR AND (O_CREAT OR O_TRUNC) \<noteq> O_CREAT OR O_TRUNC" "O_RDWR AND 3 = O_RDWR" "O_RDWR AND O_TRUNC = 0"
    by (simp_all add: oflag_defs)
  obtain t where B: "both_open s path O_RDWR a b t" and e: "db_open path O_RDWR s = bnd (ret ()) (\<lambda>_.
      bnd (modify (\<lambda>s. s\<lparr>nhash := NHASH_DEF, hashoff := HASH_OFF\<rparr>)) (\<lambda>_. bnd db_rewind (\<lambda>_. ret True))) t"
    using open_prefix[OF c(1,2) can_open_prefix[OF F]] C
    unfolding can_open_def if_not_P[OF flags(1)] by blast
  note V = both_open_view[OF B two_fds_new(2)[OF c(2)] flags(2)] and Q = both_open_quiet[OF B c(3)]
  have fg: "idxf t = f" "datf t = g" using V f flags(3) by (simp_all add: opened_def file_bytes_def)
  have p: "idxp t = path @ ''.idx''" "datp t = path @ ''.dat''" using V by simp_all
  have lim: "w_limit t = w_limit s" "w_mem t = w_mem s - db_mem path" "name_sz t = length path + 5"
      "{path @ ''.idx'', path @ ''.dat''} \<subseteq> dom (w_files t)"
    using B by (simp_all add: both_open_def)
  have S: "rdwr t (idxfd t)" "rdwr t (datfd t)" "idxp t \<noteq> datp t" "unshared t (idxp t)" "unshared t (datp t)"
      "idx_locks t = (\<lambda>_. None)" "dat_locks t = (\<lambda>_. None)"
    using V Q by simp_all
  have "runs (bnd (modify (\<lambda>s. s\<lparr>nhash := NHASH_DEF, hashoff := HASH_OFF\<rparr>)) (\<lambda>_. bnd db_rewind (\<lambda>_. ret True))) t
      (\<lambda>v w. v \<and> open_post s path m w)"
  proof (rule runs_conseq[OF open_suffix[OF S, of os R cs]])
    show "db_inv NHASH_DEF (idxf t) (datf t) os R cs {}" "length (idxf t) \<le> w_limit t"
      "length (datf t) \<le> w_limit t" using I f fg lim by simp_all
  qed (use fg p lim m both_open_rest_view[OF B c(2)] in \<open>(auto simp: open_post_def db_rep_def, blast)\<close>)
  then show ?thesis by (simp only: runs_def e ret_bnd)
qed

subsection \<open>The contract\<close>

definition db_good :: "string \<Rightarrow> string \<Rightarrow> bool" where
  "db_good k d \<longleftrightarrow> is_cstr k \<and> SEP \<notin> set k \<and> 1 \<le> length k \<and> length k \<le> 1007 \<and>
     is_cstr d \<and> 1 \<le> length d \<and> length d \<le> 1023"

definition db_slots :: "dbs \<Rightarrow> nat \<Rightarrow> bool" where
  "db_slots s n \<longleftrightarrow> length (idxf s) + 1034 * n \<le> 999999 \<and> length (idxf s) + 1034 * n \<le> w_limit s \<and>
     length (datf s) + 1024 * n < 2 ^ 31 \<and> length (datf s) + 1024 * n \<le> w_limit s"

lemma storable_good:
  assumes "db_good k d" and "db_slots s (Suc n)"
  shows "storable s k d"
proof -
  let ?r = "new_rec s k d"
  have off: "length (datf s) < 2 ^ 31" and len: "length d + 1 \<le> 1024"
    using assms by (simp_all add: db_good_def db_slots_def)
  then have i: "int32_ok (int (r_off ?r))" "int32_ok (int (r_len ?r))"
    by (simp_all add: int32_ok_def new_rec_def)
  have "length (dec (r_off ?r)) \<le> 10" "length (dec (r_len ?r)) \<le> 4"
    using off len by (simp_all add: length_dec_le new_rec_def)
  moreover have "length (rec_text ?r) = length k + length (dec (r_off ?r)) + length (dec (r_len ?r)) + 3"
    by (simp add: rec_text_def length_idx_text[OF i]) (simp add: new_rec_def)
  ultimately have t: "length (rec_text ?r) \<le> length k + 17" "length k + 5 \<le> length (rec_text ?r)"
    using length_dec_ge[of "r_off ?r"] length_dec_ge[of "r_len ?r"] by linarith+
  then have ok: "rec_ok ?r" using assms(1) off len by (simp add: rec_ok_def db_good_def new_rec_def)
  then show ?thesis
    using assms rec_size_eq[OF ok] t by (simp add: storable_def db_good_def db_slots_def PTR_MAX_def)
qed

lemma slots_after:
  assumes "became s f g L M t" and "leaves s f g m" and "db_slots s (Suc n)"
  shows "db_slots t n"
  using assms became_sel(1,2,7)[OF assms(1)] by (simp add: db_slots_def leaves_def)

lemma slots_same:
  assumes "became s f g L M t" and "length f = length (idxf s)" "length g = length (datf s)" and "db_slots s n"
  shows "db_slots t n"
  using assms(2-4) became_sel(1,2,7)[OF assms(1)] by (simp add: db_slots_def)

lemma fetch_law:
  assumes "db_rep s m"
  shows "runs (db_fetch k) s (\<lambda>v t. v = m k \<and> db_rep t m \<and> same_env s t \<and> idxf t = idxf s \<and> datf t = datf s)"
proof -
  from assms obtain os R cs where r: "rep s os R cs" and m: "m = contents (nhash s) (datf s) R cs"
    by (rule db_repE)
  show ?thesis
    by (rule runs_conseq[OF fetch_runs[OF r]])
      (use rep_after[OF r _ leaves_same[OF r]] m in \<open>auto dest: became_sel simp: became_def\<close>)
qed

definition store_rc :: "(string \<rightharpoonup> string) \<Rightarrow> string \<Rightarrow> int \<Rightarrow> int" where
  "store_rc m k flag =
     (if m k = None then (if flag AND DB_REPLACE \<noteq> 0 then -1 else 0)
      else (if flag AND DB_INSERT \<noteq> 0 then 1 else 0))"

lemma store_law:
  assumes "db_rep s m" and "storable s k d" and "self_print s \<or> \<not> deletes_first m k d flag"
  shows "runs (db_store k d flag) s (\<lambda>v t. v = store_rc m k flag \<and> same_env s t \<and>
    db_rep t (if v = 0 then m(k \<mapsto> d) else m) \<and> (\<forall>n. db_slots s (Suc n) \<longrightarrow> db_slots t n))"
proof -
  from assms(1) obtain os R cs where r: "rep s os R cs" and m: "m = contents (nhash s) (datf s) R cs"
    by (rule db_repE)
  show ?thesis
  proof (rule runs_conseq[OF store_runs[OF r assms(2) assms(3)[unfolded m], folded m]], elim exE conjE)
    fix v :: int and t f g
    assume b: "became s f g (\<lambda>_. None) (\<lambda>_. None) t"
      and v: "v = (if if m k = None then flag AND DB_REPLACE \<noteq> 0 else flag AND DB_INSERT \<noteq> 0
          then if m k = None then - 1 else 1 else 0)"
      and l: "leaves s f g (if if m k = None then flag AND DB_REPLACE \<noteq> 0 else flag AND DB_INSERT \<noteq> 0
          then m else m(k \<mapsto> d))"
    have "v = store_rc m k flag" "(if if m k = None then flag AND DB_REPLACE \<noteq> 0 else flag AND DB_INSERT \<noteq> 0
        then m else m(k \<mapsto> d)) = (if v = 0 then m(k \<mapsto> d) else m)"
      using v by (auto simp: store_rc_def split: if_splits)
    then show "v = store_rc m k flag \<and> same_env s t \<and> db_rep t (if v = 0 then m(k \<mapsto> d) else m) \<and>
        (\<forall>n. db_slots s (Suc n) \<longrightarrow> db_slots t n)"
      using rep_after[OF r b l] slots_after[OF b l] b by (simp add: became_def)
  qed
qed

lemma store_lost:
  assumes "db_rep s m" and "storable s k d" and "\<not> self_print s" and "deletes_first m k d flag"
  shows "\<exists>u. db_store k d flag s = Halt own_print u"
  using assms by (elim db_repE) (auto intro: store_undefined)

lemma delete_law:
  assumes "db_rep s m" and "self_print s \<or> m k = None"
  shows "runs (db_delete k) s (\<lambda>v t. v = (if m k = None then -1 else 0) \<and> db_rep t (m(k := None)) \<and>
    same_env s t \<and> (\<forall>n. db_slots s n \<longrightarrow> db_slots t n))"
proof -
  from assms(1) obtain os R cs where r: "rep s os R cs" and m: "m = contents (nhash s) (datf s) R cs"
    by (rule db_repE)
  show ?thesis
    by (rule runs_conseq[OF delete_runs[OF r assms(2)[unfolded m], folded m]])
      (use rep_after[OF r] slots_same in \<open>auto simp: became_def\<close>)
qed

lemma delete_lost_law:
  assumes "db_rep s m" and "\<not> self_print s" and "m k \<noteq> None"
  shows "\<exists>u. db_delete k s = Halt own_print u"
  using assms by (elim db_repE) (auto intro: delete_undefined)

subsection \<open>Scanning\<close>

lemma rewind_runs:
  assumes "db_ready s"
  shows "runs db_rewind s (\<lambda>_ t. quiet s t \<and> fd_pos t (idxfd t) = hdr (nhash s))"
proof -
  have "nat ((int (nhash s) + 1) * int PTR_SZ + 1) = hdr (nhash s)" "(int (nhash s) + 1) * int PTR_SZ + 1 \<noteq> -1"
    by (simp_all add: hdr_def db_consts)
  then show ?thesis
    using assms by (simp add: db_rewind_def wp db_ready_def quiet_def same_env_def)
qed

text \<open>A record whose key is not blank is on the chain of its key.\<close>

lemma live_chain:
  assumes "db_inv n f g os R cs {}" and "p \<in> set os" and "\<not> blank (r_key (R p))"
  shows "p \<in> set (cs (Suc (db_hash_of n (r_key (R p)))))"
proof -
  note I = db_invD[OF assms(1)]
  obtain i where i: "i \<le> n" "p \<in> set (cs i)" using linkedD(7)[OF I(3)] assms(2) by auto
  with assms(3) I(4) have "i \<noteq> 0" by (cases i) (auto simp: keyed_def)
  then obtain h where h: "i = Suc h" "h < n" using i(1) by (cases i) auto
  then have "db_hash_of n (r_key (R p)) = h" using keyedD(1)[OF I(4) h(2)] i(2) by simp
  with h i(2) show ?thesis by simp
qed

lemma live_mem:
  assumes "db_inv n f g os R cs {}"
  shows "(k, d) \<in> set (live g R os) \<longleftrightarrow> contents n g R cs k = Some d \<and> \<not> blank k"
proof
  note I = db_invD[OF assms]
  assume "(k, d) \<in> set (live g R os)"
  then obtain p where p: "p \<in> set os" "k = r_key (R p)" "d = rec_data g (R p)" "\<not> blank k"
    by (auto simp: live_def entries_def blank_rec_def)
  then show "contents n g R cs k = Some d \<and> \<not> blank k"
    using contents_at[OF I(4,1), of p g] live_chain[OF assms, of p] by simp
next
  note I = db_invD[OF assms]
  assume *: "contents n g R cs k = Some d \<and> \<not> blank k"
  then obtain p where p: "p \<in> set (cs (Suc (db_hash_of n k)))" "k = r_key (R p)" "d = rec_data g (R p)"
    by (auto simp: contents_def entries_def dest!: map_of_SomeD)
  moreover have "p \<in> set os" using linkedD(4)[OF I(3) Suc_hash_le[OF I(1)]] p(1) by auto
  ultimately show "(k, d) \<in> set (live g R os)" using * by (auto simp: live_def entries_def blank_rec_def)
qed

lemma tiles_distinct: "tiles sz p qs e \<Longrightarrow> (\<And>q. 0 < sz q) \<Longrightarrow> distinct qs"
proof (induction qs arbitrary: p)
  case (Cons q qs)
  have "p \<notin> set qs" using tiles_bounds[of sz "p + sz p" qs e p] Cons.prems(1) Cons.prems(2)[of p] by auto
  then show ?case using Cons by auto
qed simp

lemma live_distinct:
  assumes "db_inv n f g os R cs {}"
  shows "distinct (map fst (live g R os))"
proof -
  note I = db_invD[OF assms]
  let ?l = "filter (\<lambda>p. \<not> blank_rec R p) os"
  have on: "p \<in> set (cs (Suc (db_hash_of n (r_key (R p)))))" if "p \<in> set ?l" for p
    using live_chain[OF assms] that by (simp add: blank_rec_def)
  have "p = p'" if "p \<in> set ?l" "p' \<in> set ?l" "r_key (R p) = r_key (R p')" for p p'
    using distinct_map_unique[OF keyedD(2)[OF I(4) hash_less[OF I(1)]]] on[OF that(1)] on[OF that(2)] that(3) by metis
  moreover have "distinct ?l" using tiles_distinct[OF layoutD(1)[OF I(2)]] by simp
  ultimately have "distinct (map (\<lambda>p. r_key (R p)) ?l)" by (auto simp: distinct_map inj_on_def)
  then show ?thesis by (simp add: live_def entries_def comp_def)
qed

lemma scan_law:
  assumes "db_rep s m"
  shows "runs (bnd db_rewind (\<lambda>_. nextrec_all (Suc (length (idxf s))))) s (\<lambda>kvs t. db_rep t m \<and>
    distinct (map fst kvs) \<and> (\<forall>k d. (k, d) \<in> set kvs \<longleftrightarrow> m k = Some d \<and> \<not> blank k))"
proof -
  from assms obtain os R cs where r: "rep s os R cs" and m: "m = contents (nhash s) (datf s) R cs"
    by (rule db_repE)
  note D = repD[OF r]
  have tl: "tiles (\<lambda>p. rec_size (R p)) (hdr (nhash s)) os (length (idxf s))"
    using layoutD(1)[OF db_invD(2)[OF D(2)]] .
  show ?thesis
  proof (rule runs_step[OF rewind_runs[OF D(3)]], elim conjE)
    fix x t
    assume q: "quiet s t" and pos: "fd_pos t (idxfd t) = hdr (nhash s)"
    then have b: "became s (idxf s) (datf s) (\<lambda>_. None) (\<lambda>_. None) t"
      using r by (simp add: quiet_became rep_def)
    have "fresh_pos t R os" using tl pos became_sel(1)[OF b] by (simp add: fresh_pos_def)
    moreover have "length os < Suc (length (idxf s))" using tiles_length[OF tl] by simp
    ultimately have "runs (nextrec_all (Suc (length (idxf s)))) t (\<lambda>v u. v = live (datf t) R os \<and>
        became t (idxf t) (datf t) (\<lambda>_. None) (\<lambda>_. None) u)"
      by (intro nextrec_all_runs[OF rep_became[OF r b]]) simp_all
    then show "runs (nextrec_all (Suc (length (idxf s)))) t (\<lambda>kvs t. db_rep t m \<and>
        distinct (map fst kvs) \<and> (\<forall>k d. (k, d) \<in> set kvs \<longleftrightarrow> m k = Some d \<and> \<not> blank k))"
      by (rule runs_conseq) (use became_sel(1,2)[OF b] became_trans[OF b] rep_after[OF r _ leaves_same[OF r]]
          live_mem[OF D(2)] live_distinct[OF D(2)] m in auto)
  qed
qed

subsection \<open>Opening that fails\<close>

lemma alloc_cases:
  assumes "db_alloc n s = Ok x t"
  shows "w_fds t = w_fds s" "w_mem s = w_mem t + (sizeof_DB + (n + 5) + (nat IDXLEN_MAX + 2) + (nat DATLEN_MAX + 2))"
    "idxfd t = -1" "datfd t = -1" "name_sz t = n + 5"
  using assms by (auto simp: db_alloc_def sys_malloc_def db_zero_def bnd_eq_Ok split: if_splits)

lemma free_mem:
  assumes "db_free s = Ok x t" and "datfd s < 0"
  shows "w_mem t = w_mem s + (sizeof_DB + name_sz s + (nat IDXLEN_MAX + 2) + (nat DATLEN_MAX + 2))"
    and "w_fds t = (if idxfd s < 0 then w_fds s else (w_fds s)(idxfd s := None))"
  using assms by (auto simp: db_free_def sys_close_def sys_free_def fail_def bnd_eq_Ok split: if_splits option.splits)

lemma open_keeps:
  assumes "sys_open p oflag s = Ok fd t"
  shows "idxfd t = idxfd s" "datfd t = datfd s" "name_sz t = name_sz s"
  using assms by (auto simp: sys_open_def fail_def Let_def split: option.splits if_splits)

lemma open_failure:
  assumes "db_open path oflag s = Ok False t"
  shows "w_fds t = w_fds s \<and> w_mem t = w_mem s"
proof -
  let ?n = "\<lambda>l. sizeof_DB + (l + 5) + (nat IDXLEN_MAX + 2) + (nat DATLEN_MAX + 2)"
  obtain s1 where 1: "db_alloc (length path) s = Ok () s1"
    using assms by (auto simp: db_open_def bnd_eq_Ok)
  note A = alloc_cases[OF 1]
  let ?s1 = "s1\<lparr>db_oflag := oflag, db_name := path @ ''.idx''\<rparr>"
  obtain fd s2 where 2: "sys_open (path @ ''.idx'') oflag ?s1 = Ok fd s2"
    using assms 1 by (auto simp: db_open_def bnd_eq_Ok)
  note B = open_cases[OF 2]
  have sel: "datfd s2 = -1" "name_sz s2 = length path + 5" using open_keeps[OF 2] A by simp_all
  show ?thesis
  proof (cases "fd < 0")
    case True
    then have "db_free (s2\<lparr>idxfd := fd\<rparr>) = Ok () t"
      using assms 1 2 by (auto simp: db_open_def bnd_eq_Ok)
    from free_mem[OF this] True show ?thesis using A B sel by simp
  next
    case False
    let ?s2 = "s2\<lparr>idxfd := fd, db_name := path @ ''.dat''\<rparr>"
    obtain fd' s3 where 3: "sys_open (path @ ''.dat'') oflag ?s2 = Ok fd' s3"
      using assms 1 2 False by (auto simp: db_open_def bnd_eq_Ok)
    have neg: "fd' < 0"
      using assms 1 2 3 False by (auto simp: db_open_def bnd_eq_Ok split: if_splits)
    then have "db_free (s3\<lparr>datfd := fd'\<rparr>) = Ok () t"
      using assms 1 2 3 False by (auto simp: db_open_def bnd_eq_Ok)
    from free_mem[OF this] neg show ?thesis
      using A B sel open_cases[OF 3] open_keeps[OF 3] False by simp
  qed
qed

subsection \<open>A database survives being closed\<close>

lemma two_fds_ex:
  assumes "w_fds s (int a) = None" "w_fds s (int b) = None" "a \<noteq> b" "a < w_maxfd s" "b < w_maxfd s"
  shows "\<exists>x y. two_fds s x y"
proof -
  let ?l = "filter (\<lambda>i. w_fds s (int i) = None) [0..<w_maxfd s]"
  have "a \<in> set ?l" "b \<in> set ?l" using assms by simp_all
  then obtain x y zs where "?l = x # y # zs" using assms(3) by (cases ?l; cases "tl ?l") auto
  then show ?thesis by (auto simp: two_fds_def)
qed

text \<open>An open database called \<open>path\<close> whose descriptors are within the table.\<close>

definition db_handle :: "dbs \<Rightarrow> string \<Rightarrow> bool" where
  "db_handle s path \<longleftrightarrow> db_named s path \<and> 0 \<le> idxfd s \<and> 0 \<le> datfd s \<and>
     idxfd s < int (w_maxfd s) \<and> datfd s < int (w_maxfd s) \<and>
     path @ ''.dat'' \<in> dom (w_files s) \<and> \<not> w_denied s (path @ ''.idx'') \<and> \<not> w_denied s (path @ ''.dat'')"

lemma handle_open:
  assumes "open_post s path m u" and "\<not> w_denied s (path @ ''.idx'')" and "\<not> w_denied s (path @ ''.dat'')"
  shows "db_handle u path"
  using assms by (simp add: open_post_def db_handle_def db_named_def rest_view_def)

lemma handle_same:
  assumes "db_handle s path" and "same_env s t"
  shows "db_handle t path"
  using assms(1) same_env_sel[OF assms(2)] same_env_sys[OF assms(2)] by (auto simp: db_handle_def db_named_def)

lemma named_files:
  assumes "db_rep s m" and "db_handle s path"
  shows "db_files s path m" and "quiet_files s path" and "idxfd s \<noteq> datfd s"
    and "rdwr s (idxfd s)" and "rdwr s (datfd s)"
proof -
  from assms(1) obtain os R cs where r: "rep s os R cs" and m: "m = contents (nhash s) (datf s) R cs"
    by (rule db_repE)
  note D = repD[OF r]
  have n: "nhash s = NHASH_DEF" "idxp s = path @ ''.idx''" "datp s = path @ ''.dat''"
    using assms(2) by (simp_all add: db_handle_def db_named_def)
  have rd: "db_ready s" "idx_locks s = (\<lambda>_. None)" "dat_locks s = (\<lambda>_. None)"
    using r by (auto simp: rep_def holds_def)
  then show "quiet_files s path" "rdwr s (idxfd s)" "rdwr s (datfd s)"
    using n by (simp_all add: quiet_files_def db_ready_def)
  show "idxfd s \<noteq> datfd s" using rd(1) by (auto simp: db_ready_def)
  have "hdr (nhash s) + length os \<le> length (idxf s)" by (rule tiles_length[OF layoutD(1)[OF db_invD(2)[OF D(2)]]])
  then have "idxf s \<noteq> []" by (auto simp: hdr_def)
  then have "w_files s (path @ ''.idx'') = Some (idxf s)" "w_files s (path @ ''.dat'') = Some (datf s)"
    using n assms(2) by (auto simp: fd_bytes_def file_bytes_def db_handle_def split: option.splits)
  then show "db_files s path m"
    using D(2,4,5) m n(1) unfolding db_files_def by (intro exI[of _ "idxf s"] exI[of _ "datf s"] exI) simp
qed

lemma close_named:
  assumes "db_rep s m" and "db_handle s path"
  shows "runs db_close s (\<lambda>_ t. w_files t = w_files s \<and> w_limit t = w_limit s \<and>
    w_fds t = (w_fds s)(idxfd s := None, datfd s := None) \<and>
    w_locks t = (w_locks s)(idxp s := (\<lambda>_. None), datp s := (\<lambda>_. None)) \<and> w_mem t = w_mem s + db_mem path \<and>
    w_others t = w_others s \<and> w_maxfd t = w_maxfd s \<and> w_denied t = w_denied s)"
  by (rule runs_conseq[OF close_runs])
    (use named_files[OF assms] assms(2) in \<open>auto simp: db_handle_def db_named_def db_mem_def\<close>)

lemma persist_law:
  assumes "db_rep s m" and "db_handle s path"
  shows "\<exists>t u. db_close s = Ok () t \<and> db_open path O_RDWR t = Ok True u \<and> db_rep u m \<and>
    w_files t = w_files s \<and> w_fds t = (w_fds s)(idxfd s := None, datfd s := None) \<and> w_mem t = w_mem s + db_mem path"
proof -
  note N = named_files[OF assms]
  have h: "0 \<le> idxfd s" "0 \<le> datfd s" "idxfd s < int (w_maxfd s)" "datfd s < int (w_maxfd s)"
    and nm: "idxp s = path @ ''.idx''" "datp s = path @ ''.dat''"
    using assms(2) by (simp_all add: db_handle_def db_named_def)
  obtain t where c: "db_close s = Ok () t" and t: "w_files t = w_files s" "w_limit t = w_limit s"
      "w_fds t = (w_fds s)(idxfd s := None, datfd s := None)"
      "w_locks t = (w_locks s)(idxp s := (\<lambda>_. None), datp s := (\<lambda>_. None))"
      "w_mem t = w_mem s + db_mem path"
      "w_others t = w_others s" "w_maxfd t = w_maxfd s" "w_denied t = w_denied s"
    using close_named[OF assms] by (auto elim!: runsE)
  note mem = t(5)
  have "nat (idxfd s) \<noteq> nat (datfd s)" "nat (idxfd s) < w_maxfd s" "nat (datfd s) < w_maxfd s"
    using h N(3) by linarith+
  then obtain x y where xy: "two_fds t x y"
    using two_fds_ex[of t "nat (idxfd s)" "nat (datfd s)"] t(3,7) N(3) h by auto
  have "can_open t path x y"
    using xy mem N(2) assms(2) t nm by (auto simp: can_open_def db_handle_def quiet_files_def unshared_def)
  moreover have "db_files t path m" using N(1) t by (simp add: db_files_def)
  ultimately have "runs (db_open path O_RDWR) t (\<lambda>v u. v \<and> open_post t path m u)" by (intro reopen_runs)
  then obtain u where "db_open path O_RDWR t = Ok True u" "open_post t path m u"
    by (auto simp: runs_iff)
  then show ?thesis using c t(1,3) mem by (auto simp: open_post_def)
qed

subsection \<open>Deleted records are used again\<close>

lemma reuse_law:
  assumes "db_rep s m" and own: "self_print s" and k: "m k = Some d" and st: "storable s k' d'"
    and len: "length k' = length k" "length d' = length d" and new: "(m(k := None)) k' = None"
  shows "\<exists>t u. db_delete k s = Ok 0 t \<and> db_store k' d' DB_INSERT t = Ok 0 u \<and>
    db_rep u (m(k := None, k' \<mapsto> d')) \<and> length (idxf u) = length (idxf s) \<and> length (datf u) = length (datf s)"
proof -
  from assms(1) obtain os R cs where r: "rep s os R cs" and m: "m = contents (nhash s) (datf s) R cs"
    by (rule db_repE)
  obtain t f g where d: "db_delete k s = Ok 0 t"
      and b: "became s f g (\<lambda>_. None) (\<lambda>_. None) t" and del: "deleted s os m k (length d + 1) f g"
    using delete_runs[OF r disjI1[OF own], folded m, of k] k by (auto simp: runs_iff)
  then obtain R' cs' p where I: "db_inv (nhash s) f g os R' cs' {}" and c: "contents (nhash s) g R' cs' = m(k := None)"
      and p: "p \<in> set (cs' 0)" "fits_slot R' (length k') (length d' + 1) p"
      and l: "length f = length (idxf s)" "length g = length (datf s)"
    using len by (auto simp: deleted_def fits_slot_def)
  have r': "rep t os R' cs'"
    using holds_became[OF repD(1)[OF r] b I] repD(4,5)[OF r] l became_sel[OF b] by (simp add: rep_def)
  have st': "storable t k' d'" using st storable_cong[OF b l] by simp
  have c': "contents (nhash t) (datf t) R' cs' = m(k := None)" using c became_sel[OF b] by simp
  have ins: "DB_INSERT AND DB_REPLACE = 0" by (simp add: DB_INSERT_def DB_REPLACE_def)
  have sp: "self_print t" using own became_own[OF b] by simp
  obtain u F G where u: "db_store k' d' DB_INSERT t = Ok 0 u" and B: "became t F G (\<lambda>_. None) (\<lambda>_. None) u"
      and L: "leaves t F G (m(k := None, k' \<mapsto> d'))" "length F = length (idxf t)" "length G = length (datf t)"
    using store_runs[OF r' st', of DB_INSERT] new sp p unfolding c' runs_iff by (auto simp: ins)
  then show ?thesis
    using d rep_after[OF r' B L(1)] l became_sel[OF b] became_sel[OF B] by auto
qed

end
