(* ===== verification/Db_Locks.thy ===== *)
theory Db_Locks
  imports Db_Model
begin

text \<open>
  Which functions of \<^verbatim>\<open>db.c\<close> wait for the locks of other processes. A program is
  \<open>blind\<close> when what other processes have locked makes no difference to it. \<open>_db_findfree\<close>,
  which takes records off the free list, is blind; \<open>_db_dodelete\<close>, which puts them on it,
  waits.
\<close>

definition with_others :: "other_lock list \<Rightarrow> dbs \<Rightarrow> dbs" where
  "with_others ls s = s\<lparr>w_others := ls\<rparr>"

fun on_state :: "('s \<Rightarrow> 's) \<Rightarrow> ('a, 's) res \<Rightarrow> ('a, 's) res" where
  "on_state f (Ok x s) = Ok x (f s)"
| "on_state f (Halt e s) = Halt e (f s)"

definition blind :: "('a, dbs) prog \<Rightarrow> bool" where
  "blind m \<longleftrightarrow> (\<forall>ls s. m (with_others ls s) = on_state (with_others ls) (m s))"

named_theorems blind_intros "programs that ignore the locks of other processes"

lemma blindD: "blind m \<Longrightarrow> m (with_others ls s) = on_state (with_others ls) (m s)"
  by (simp add: blind_def)

lemma blind_bnd [blind_intros]: "blind m \<Longrightarrow> (\<And>x. blind (f x)) \<Longrightarrow> blind (bnd m f)"
  by (auto simp: blind_def bnd_def split: res.split)

lemma blind_basic [blind_intros]: "blind (ret x)" "blind (stop_with e)" "blind (err_dump msg)" "blind (err_quit msg)"
  by (simp_all add: blind_def)

lemma blind_if [blind_intros]: "blind m \<Longrightarrow> blind n \<Longrightarrow> blind (if b then m else n)"
  by simp

lemma blind_gets: "(\<And>ls s. f (with_others ls s) = f s) \<Longrightarrow> blind (gets f)"
  by (simp add: blind_def)

lemma blind_modify: "(\<And>ls s. f (with_others ls s) = with_others ls (f s)) \<Longrightarrow> blind (modify f)"
  by (simp add: blind_def)

lemma blind_case [blind_intros]:
  "blind m \<Longrightarrow> (\<And>x. blind (f x)) \<Longrightarrow> blind (case r of None \<Rightarrow> m | Some x \<Rightarrow> f x)"
  by (simp split: option.split)

lemma blind_case_sum [blind_intros]:
  "(\<And>x. blind (f x)) \<Longrightarrow> (\<And>y. blind (g y)) \<Longrightarrow> blind (case r of Inl x \<Rightarrow> f x | Inr y \<Rightarrow> g y)"
  by (simp split: sum.split)

lemma blind_case_prod [blind_intros]: "(\<And>x y. blind (f x y)) \<Longrightarrow> blind (case p of (x, y) \<Rightarrow> f x y)"
  by (cases p) simp

lemma with_others_sel [simp]:
  "w_fds (with_others ls s) = w_fds s" "w_files (with_others ls s) = w_files s" "w_limit (with_others ls s) = w_limit s"
  "idxfd (with_others ls s) = idxfd s" "idxbuf (with_others ls s) = idxbuf s" "datlen (with_others ls s) = datlen s"
  "idxlen (with_others ls s) = idxlen s" "ptrval (with_others ls s) = ptrval s" "w_others (with_others ls s) = ls"
  "fd_bytes (with_others ls s) = fd_bytes s" "fd_pos (with_others ls s) = fd_pos s"
  "seek_base fd wh (with_others ls s) = seek_base fd wh s"
  by (simp_all add: with_others_def fd_bytes_def fd_pos_def fd_path_def file_bytes_def fun_eq_iff seek_base_def
      split: whence.split)

lemma with_others_set [simp]:
  "set_pos fd p (with_others ls s) = with_others ls (set_pos fd p s)"
  "set_bytes q c (with_others ls s) = with_others ls (set_bytes q c s)"
  "set_lock q l b n (with_others ls s) = with_others ls (set_lock q l b n s)"
  "(with_others ls s)\<lparr>w_errno := e\<rparr> = with_others ls (s\<lparr>w_errno := e\<rparr>)"
  by (simp_all add: with_others_def set_pos_def set_bytes_def set_lock_def cong: if_cong)

lemma blind_sys [blind_intros]:
  "blind (lseek fd off wh)" "blind (sys_read fd n)" "blind (sys_write fd bs)"
  by (auto simp: blind_def lseek_def sys_read_def sys_write_def fail_def Let_def split: option.split)

lemma no_conflict_unlock: "\<not> list_ex (conflicts q F_UNLCK b n) ls"
  by (simp add: conflicts_def list_ex_iff)

lemma blind_unlock [blind_intros]: "blind (un_lock fd off wh n)"
  by (auto simp: blind_def un_lock_def lock_reg_def fail_def Let_def no_conflict_unlock split: option.split)

lemma blind_gets_simps [blind_intros]:
  "blind (gets idxfd)" "blind (gets idxbuf)" "blind (gets idxlen)" "blind (gets datlen)" "blind (gets ptrval)"
  "blind (gets (\<lambda>s. Suc (length (idxf s))))" "blind (gets (\<lambda>s. (idxbuf s, datlen s)))"
  by (auto intro!: blind_gets)

lemma blind_modify_simps [blind_intros]:
  "blind (modify (\<lambda>s. s\<lparr>idxoff := x\<rparr>))" "blind (modify (\<lambda>s. s\<lparr>ptrval := x, idxlen := y\<rparr>))"
  "blind (modify (\<lambda>s. s\<lparr>idxbuf := b, datoff := x\<rparr>))" "blind (modify (\<lambda>s. s\<lparr>datlen := x\<rparr>))"
  by (auto intro!: blind_modify simp: with_others_def)

lemma blind_readptr [blind_intros]: "blind (db_readptr off)"
  unfolding db_readptr_def by (intro blind_intros)

lemma blind_writeptr [blind_intros]: "blind (db_writeptr off ptr)"
  unfolding db_writeptr_def by (intro blind_intros)

lemma blind_readidx [blind_intros]: "blind (db_readidx off)"
  unfolding db_readidx_def by (intro blind_intros)

lemma blind_findfree_loop [blind_intros]: "blind (findfree_loop n kl dl sv off)"
proof (induction n arbitrary: sv off)
  case 0
  then show ?case by (simp add: blind_def)
next
  case (Suc n)
  show ?case unfolding findfree_loop.simps by (intro blind_intros Suc)
qed

lemma blind_findfree: "blind (db_findfree kl dl)"
  unfolding db_findfree_def by (intro blind_intros)

text \<open>A lock of another process on a byte that a blocking lock request covers.\<close>

definition held_by_other :: "dbs \<Rightarrow> string \<Rightarrow> nat \<Rightarrow> bool" where
  "held_by_other s q b \<longleftrightarrow> (\<exists>l\<in>set (w_others s). l_path l = q \<and> l_type l = F_WRLCK \<and> in_region (l_start l) (l_len l) b)"

lemma in_region_overlap: "in_region st n b \<Longrightarrow> overlap b 1 st n"
  by (auto simp: in_region_def overlap_def)

lemma held_blocks:
  assumes "held_by_other s (o_path f) b" and "w_fds s fd = Some f" and "t \<noteq> F_UNLCK"
  shows "lock_reg fd F_SETLKW t (int b) SEEK_SET 1 s = Halt (Blocked ''fcntl'') s"
proof -
  have "list_ex (conflicts (o_path f) t b 1) (w_others s)"
    using assms(1,3) in_region_overlap unfolding held_by_other_def conflicts_def list_ex_iff by fastforce
  then show ?thesis using assms(2) by (simp add: lock_reg_def seek_base_def)
qed

end
