(* ===== verification/Db_Props.thy ===== *)
theory Db_Props
  imports Db_Correct Db_Locks
begin

text \<open>
  The properties of the database library (\<^verbatim>\<open>db.c\<close>, \<^verbatim>\<open>db.h\<close>) and of its demonstration
  program \<^verbatim>\<open>db-create.c\<close>.
\<close>

definition db_create_main :: "(unit, dbs) prog" where
  "db_create_main =
     bnd (db_open ''db4'' (O_RDWR OR O_CREAT OR O_TRUNC)) (\<lambda>ok.
     if \<not> ok then err_sys ''db_open error''
     else bnd (db_store ''Alpha'' ''data1'' DB_INSERT) (\<lambda>r.
     if r \<noteq> 0 then err_quit ''db_store error for alpha''
     else bnd (db_store ''beta'' ''Data for beta'' DB_INSERT) (\<lambda>r.
     if r \<noteq> 0 then err_quit ''db_store error for beta''
     else bnd (db_store ''gamma'' ''record3'' DB_INSERT) (\<lambda>r.
     if r \<noteq> 0 then err_quit ''db_store error for gamma''
     else bnd db_close (\<lambda>_. stop_with (Exit 0 []))))))"

subsection \<open>The database is a key-value store\<close>

lemma insert_flags: "DB_INSERT AND DB_REPLACE = 0" "DB_INSERT AND DB_INSERT \<noteq> 0"
  "DB_REPLACE AND DB_INSERT = 0" "DB_REPLACE AND DB_REPLACE \<noteq> 0"
  by (simp_all add: DB_INSERT_def DB_REPLACE_def)

lemma store_rc_simps:
  "store_rc m k DB_INSERT = (if m k = None then 0 else 1)"
  "store_rc m k DB_REPLACE = (if m k = None then -1 else 0)"
  using insert_flags by (simp_all add: store_rc_def)

text \<open>
  On a platform whose \<open>sprintf\<close> leaves a string printed onto itself in place a database is a
  key-value store.
\<close>

abbreviation db_holds :: "dbs \<Rightarrow> (string \<rightharpoonup> string) \<Rightarrow> bool" where
  "db_holds s m \<equiv> db_rep s m \<and> self_print s"

interpretation db: kv_store db_holds db_slots db_good db_fetch
  "\<lambda>k d. db_store k d DB_INSERT" "\<lambda>k d. db_store k d DB_REPLACE" db_delete
proof
  fix s m n k
  assume "db_holds s m" "db_slots s n"
  then show "runs (db_fetch k) s (\<lambda>v t. v = m k \<and> db_holds t m \<and> db_slots t n)"
    by (auto intro!: runs_conseq[OF fetch_law] simp: db_slots_def dest: same_env_sel same_env_own)
next
  fix s m n k d
  assume a: "db_holds s m" "db_slots s (Suc n)" "db_good k d"
  note L = store_law[OF conjunct1[OF a(1)] storable_good[OF a(3,2)] disjI1[OF conjunct2[OF a(1)]]]
  show "runs (db_store k d DB_INSERT) s (\<lambda>v t. db_slots t n \<and>
      (if m k = None then v = 0 \<and> db_holds t (m(k \<mapsto> d)) else v = 1 \<and> db_holds t m))"
    by (rule runs_conseq[OF L]) (use a(1,2) in \<open>auto simp: store_rc_simps dest: same_env_own\<close>)
  show "runs (db_store k d DB_REPLACE) s (\<lambda>v t. db_slots t n \<and>
      (if m k = None then v = -1 \<and> db_holds t m else v = 0 \<and> db_holds t (m(k \<mapsto> d))))"
    by (rule runs_conseq[OF L]) (use a(1,2) in \<open>auto simp: store_rc_simps dest: same_env_own\<close>)
next
  fix s m n k
  assume "db_holds s m" "db_slots s n"
  then show "runs (db_delete k) s (\<lambda>v t. v = (if m k = None then -1 else 0) \<and>
      db_holds t (m(k := None)) \<and> db_slots t n)"
    by (auto intro!: runs_conseq[OF delete_law] dest: same_env_own)
qed

text \<open>Facts about sequences of calls, for a caller that knows the store by its contract only.\<close>

lemma db_batch_insert:
  assumes "db_rep s m" and "self_print s" and "db_slots s (length kds)" and "distinct (map fst kds)"
    and "\<And>k d. (k, d) \<in> set kds \<Longrightarrow> db_good k d \<and> m k = None"
  shows "runs (ins_all (\<lambda>k d. db_store k d DB_INSERT) kds) s (\<lambda>v t. v \<and> db_rep t (m ++ map_of kds))"
  using db.ins_all_runs[of s m kds 0] assms by (auto elim!: runs_conseq)

lemma db_fetch_after_delete:
  assumes "db_rep s m" and "self_print s" and "db_slots s n"
  shows "runs (bnd (db_delete k) (\<lambda>_. db_fetch j)) s (\<lambda>v t. v = (if j = k then None else m j))"
  using db.look_after_rem[of s m n k j] assms by (auto elim!: runs_conseq)

subsection \<open>A concrete system\<close>

definition dbs_on :: "bool \<Rightarrow> dbs" where
  "dbs_on self = \<lparr>w_files = Map.empty, w_fds = Map.empty, w_maxfd = 8, w_limit = 1000000,
     w_denied = (\<lambda>_. False), w_locks = (\<lambda>_ _. None), w_others = [], w_mem = 10000, w_errno = E_OK,
     idxfd = -1, datfd = -1, db_oflag = 0, idxbuf = [], datbuf = [], db_name = [], name_sz = 0,
     idxoff = 0, idxlen = 0, datoff = 0, datlen = 0, ptrval = 0, ptroff = 0, chainoff = 0,
     hashoff = 0, nhash = 0, cnt_delok = 0, cnt_delerr = 0, cnt_fetchok = 0, cnt_fetcherr = 0,
     cnt_nextrec = 0, cnt_stor1 = 0, cnt_stor2 = 0, cnt_stor3 = 0, cnt_stor4 = 0, cnt_storerr = 0,
     self_print = self\<rparr>"

abbreviation dbs0 :: dbs where "dbs0 \<equiv> dbs_on True"

abbreviation CREATE :: int where "CREATE \<equiv> O_RDWR OR O_CREAT OR O_TRUNC"

lemma dbs_create: "can_create (dbs_on b) ''db4'' 0 1"
  by (simp add: can_create_def dbs_on_def db_mem_def sizeof_DB_def db_consts two_fds_def upt_conv_Cons
      quiet_files_def unshared_def length_init_hash[unfolded db_consts hdr_def])

lemma good_demo: "db_good ''Alpha'' ''data1''" "db_good ''beta'' ''Data for beta''" "db_good ''gamma'' ''record3''"
  by (simp_all add: db_good_def SEP_def)

lemma insert_law:
  assumes "db_rep s m" and "storable s k d"
  shows "runs (db_store k d DB_INSERT) s (\<lambda>v t. v = store_rc m k DB_INSERT \<and> same_env s t \<and>
    db_rep t (if v = 0 then m(k \<mapsto> d) else m) \<and> (\<forall>n. db_slots s (Suc n) \<longrightarrow> db_slots t n))"
  using store_law[OF assms, of DB_INSERT] insert_flags by (simp add: deletes_first_def)

lemma demo_open:
  "\<exists>s. db_open ''db4'' CREATE (dbs_on b) = Ok True s \<and> open_post (dbs_on b) ''db4'' Map.empty s \<and>
     db_slots s 900 \<and> self_print s = b"
proof -
  obtain s where s: "db_open ''db4'' CREATE (dbs_on b) = Ok True s" "open_post (dbs_on b) ''db4'' Map.empty s"
      "idxf s = db_init_hash" "datf s = []"
    using create_runs[OF dbs_create[of b] refl] by (auto elim!: runsE)
  have "w_limit s = 1000000" "self_print s = b" using s(2) by (simp_all add: open_post_def rest_view_def dbs_on_def)
  moreover from this have "db_slots s 900"
    using s(3,4) by (simp add: db_slots_def length_init_hash[unfolded db_consts hdr_def])
  ultimately show ?thesis using s by blast
qed

lemma demo_stored:
  "\<exists>s t. db_open ''db4'' CREATE (dbs_on b) = Ok True s \<and> db_store ''Alpha'' ''data1'' DB_INSERT s = Ok 0 t \<and>
     db_rep t [''Alpha'' \<mapsto> ''data1''] \<and> db_slots t 899 \<and> self_print t = b"
proof -
  obtain s where s: "db_open ''db4'' CREATE (dbs_on b) = Ok True s" "db_rep s Map.empty" "db_slots s (Suc 899)"
      "self_print s = b"
    using demo_open[of b] by (auto simp: open_post_def)
  from insert_law[OF s(2) storable_good[OF good_demo(1) s(3)]] s show ?thesis
    by (auto simp: runs_iff store_rc_simps dest: same_env_own)
qed

lemma demo_handle:
  "\<exists>s t. db_open ''db4'' CREATE dbs0 = Ok True s \<and> db_store ''Alpha'' ''data1'' DB_INSERT s = Ok 0 t \<and>
     db_rep t [''Alpha'' \<mapsto> ''data1''] \<and> db_handle t ''db4''"
proof -
  obtain s where s: "db_open ''db4'' CREATE dbs0 = Ok True s" "open_post dbs0 ''db4'' Map.empty s" "db_slots s (Suc 899)"
    using demo_open[of True] by auto
  have h: "db_handle s ''db4''" by (rule handle_open[OF s(2)]) (simp_all add: dbs_on_def)
  have "db_rep s Map.empty" using s(2) by (simp add: open_post_def)
  from insert_law[OF this storable_good[OF good_demo(1) s(3)]] s(1) handle_same[OF h]
  show ?thesis by (auto simp: runs_iff store_rc_simps)
qed

lemma demo_storable: "db_slots t 899 \<Longrightarrow> storable t ''Alpha'' ''other!'' \<and> storable t ''gamma'' ''other''"
  using storable_good[of "''Alpha''" "''other!''" t 898] storable_good[of "''gamma''" "''other''" t 898]
  by (simp add: db_good_def SEP_def)

subsection \<open>Properties\<close>

text \<open>
  C1. \<open>db_store\<close> refines map update on every path (append, reuse of a free record,
  replacement in place, delete and append): on a well-formed database with room for the
  record it returns 0 and the database holds the map with the key bound to the data, except
  that it returns 1 (\<open>DB_INSERT\<close>, key present) or -1 (\<open>DB_REPLACE\<close>, key absent) and
  leaves the map alone; the invariant holds again and no lock is left. The path that deletes and
  appends, taken when data of another length is replaced, prints \<open>idxbuf\<close> onto itself with
  \<open>sprintf\<close>: there the result rests on a C library that leaves such a string in place
  (\<open>self_print\<close>), and on any other the call runs into undefined behaviour.
\<close>

theorem db_store_correct:
  assumes "db_rep s m" and "storable s k d"
  shows "if deletes_first m k d flag \<and> \<not> self_print s then \<exists>t. db_store k d flag s = Halt own_print t
    else \<exists>t. db_store k d flag s = Ok (store_rc m k flag) t \<and>
      db_rep t (if store_rc m k flag = 0 then m(k \<mapsto> d) else m)"
  using store_law[OF assms, of flag] store_lost[OF assms, of flag] by (auto simp: runs_iff)

theorem db_store_correct_witness:
  "(\<exists>s t u. db_open ''db4'' CREATE dbs0 = Ok True s \<and> db_store ''Alpha'' ''data1'' DB_INSERT s = Ok 0 t \<and>
     db_store ''Alpha'' ''other!'' DB_REPLACE t = Ok 0 u \<and> db_rep u [''Alpha'' \<mapsto> ''other!'']) \<and>
   (\<exists>s t u. db_open ''db4'' CREATE (dbs_on False) = Ok True s \<and> db_store ''Alpha'' ''data1'' DB_INSERT s = Ok 0 t \<and>
     db_store ''Alpha'' ''other!'' DB_REPLACE t = Halt own_print u)"
proof
  have del: "deletes_first [''Alpha'' \<mapsto> ''data1''] ''Alpha'' ''other!'' DB_REPLACE"
    using insert_flags by (simp add: deletes_first_def)
  note T = db_store_correct[OF _ conjunct1[OF demo_storable], of _ "[''Alpha'' \<mapsto> ''data1'']" DB_REPLACE]
  obtain s t where s: "db_open ''db4'' CREATE dbs0 = Ok True s" "db_store ''Alpha'' ''data1'' DB_INSERT s = Ok 0 t"
    and t: "db_rep t [''Alpha'' \<mapsto> ''data1'']" "db_slots t 899" "self_print t"
    using demo_stored[of True] by auto
  then show "\<exists>s t u. db_open ''db4'' CREATE dbs0 = Ok True s \<and> db_store ''Alpha'' ''data1'' DB_INSERT s = Ok 0 t \<and>
     db_store ''Alpha'' ''other!'' DB_REPLACE t = Ok 0 u \<and> db_rep u [''Alpha'' \<mapsto> ''other!'']"
    using T[OF t(1,2)] by (auto simp: store_rc_simps)
  obtain s t where s: "db_open ''db4'' CREATE (dbs_on False) = Ok True s"
      "db_store ''Alpha'' ''data1'' DB_INSERT s = Ok 0 t"
    and t: "db_rep t [''Alpha'' \<mapsto> ''data1'']" "db_slots t 899" "\<not> self_print t"
    using demo_stored[of False] by auto
  then show "\<exists>s t u. db_open ''db4'' CREATE (dbs_on False) = Ok True s \<and>
     db_store ''Alpha'' ''data1'' DB_INSERT s = Ok 0 t \<and> db_store ''Alpha'' ''other!'' DB_REPLACE t = Halt own_print u"
    using T[OF t(1,2)] del by auto
qed

text \<open>
  C2. \<open>db_fetch\<close> refines lookup: on a well-formed database it always returns, with the data
  of the key or null, and changes neither file.
\<close>

theorem db_fetch_correct:
  assumes "db_rep s m"
  shows "\<exists>t. db_fetch k s = Ok (m k) t \<and> db_rep t m \<and> idxf t = idxf s \<and> datf t = datf s"
  using fetch_law[OF assms, of k] by (auto simp: runs_iff)

theorem db_fetch_correct_witness:
  "\<exists>s t u v. db_open ''db4'' CREATE dbs0 = Ok True s \<and> db_store ''Alpha'' ''data1'' DB_INSERT s = Ok 0 t \<and>
     db_fetch ''Alpha'' t = Ok (Some ''data1'') u \<and> db_fetch ''beta'' u = Ok None v"
proof -
  obtain s t where s: "db_open ''db4'' CREATE dbs0 = Ok True s"
      "db_store ''Alpha'' ''data1'' DB_INSERT s = Ok 0 t" and t: "db_rep t [''Alpha'' \<mapsto> ''data1'']"
    using demo_stored[of True] by auto
  obtain u where u: "db_fetch ''Alpha'' t = Ok (Some ''data1'') u" "db_rep u [''Alpha'' \<mapsto> ''data1'']"
    using db_fetch_correct[OF t, of "''Alpha''"] by auto
  from db_fetch_correct[OF u(2), of "''beta''"] s u show ?thesis by auto
qed

text \<open>
  C3. \<open>db_delete\<close> refines removal: it returns -1 when there was no such key, and otherwise 0 and
  the key is gone; the invariant (chains, free list, tiling of both files) holds again. Every
  deletion of a present key prints \<open>idxbuf\<close> onto itself with \<open>sprintf\<close>: its result rests on
  a C library that leaves such a string in place (\<open>self_print\<close>), and on any other the call runs into
  undefined behaviour.
\<close>

theorem db_delete_correct:
  assumes "db_rep s m"
  shows "if m k \<noteq> None \<and> \<not> self_print s then \<exists>t. db_delete k s = Halt own_print t
    else \<exists>t. db_delete k s = Ok (if m k = None then -1 else 0) t \<and> db_rep t (m(k := None))"
  using delete_law[OF assms, of k] delete_lost_law[OF assms, of k] by (auto simp: runs_iff)

theorem db_delete_correct_witness:
  "(\<exists>s t u. db_open ''db4'' CREATE dbs0 = Ok True s \<and> db_store ''Alpha'' ''data1'' DB_INSERT s = Ok 0 t \<and>
     db_delete ''Alpha'' t = Ok 0 u \<and> db_rep u Map.empty) \<and>
   (\<exists>s t u v. db_open ''db4'' CREATE (dbs_on False) = Ok True s \<and> db_store ''Alpha'' ''data1'' DB_INSERT s = Ok 0 t \<and>
     db_delete ''Alpha'' t = Halt own_print u \<and> db_delete ''beta'' t = Ok (-1) v)"
proof
  obtain s t where s: "db_open ''db4'' CREATE dbs0 = Ok True s"
      "db_store ''Alpha'' ''data1'' DB_INSERT s = Ok 0 t" and t: "db_rep t [''Alpha'' \<mapsto> ''data1'']" "self_print t"
    using demo_stored[of True] by auto
  from db_delete_correct[OF t(1), of "''Alpha''"] s t(2)
  show "\<exists>s t u. db_open ''db4'' CREATE dbs0 = Ok True s \<and> db_store ''Alpha'' ''data1'' DB_INSERT s = Ok 0 t \<and>
     db_delete ''Alpha'' t = Ok 0 u \<and> db_rep u Map.empty" by auto
  obtain s t where s: "db_open ''db4'' CREATE (dbs_on False) = Ok True s"
      "db_store ''Alpha'' ''data1'' DB_INSERT s = Ok 0 t" and t: "db_rep t [''Alpha'' \<mapsto> ''data1'']" "\<not> self_print t"
    using demo_stored[of False] by auto
  from db_delete_correct[OF t(1), of "''Alpha''"] db_delete_correct[OF t(1), of "''beta''"] s t(2)
  show "\<exists>s t u v. db_open ''db4'' CREATE (dbs_on False) = Ok True s \<and>
     db_store ''Alpha'' ''data1'' DB_INSERT s = Ok 0 t \<and> db_delete ''Alpha'' t = Halt own_print u \<and>
     db_delete ''beta'' t = Ok (-1) v" by auto
qed

text \<open>
  C4. A scan, \<open>db_rewind\<close> followed by \<open>db_nextrec\<close> until it returns null, ends and
  yields every pair of the database exactly once, except a key that consists of blanks (which
  \<open>db_nextrec\<close> takes for a deleted record); the database is unchanged.
\<close>

theorem db_scan_correct:
  assumes "db_rep s m"
  shows "\<exists>kvs t. bnd db_rewind (\<lambda>_. nextrec_all (Suc (length (idxf s)))) s = Ok kvs t \<and> db_rep t m \<and>
    distinct (map fst kvs) \<and> (\<forall>k d. (k, d) \<in> set kvs \<longleftrightarrow> m k = Some d \<and> \<not> blank k)"
  using scan_law[OF assms] by (auto simp: runs_iff)

theorem db_scan_correct_witness:
  "\<exists>s t u n. db_open ''db4'' CREATE dbs0 = Ok True s \<and> db_store ''Alpha'' ''data1'' DB_INSERT s = Ok 0 t \<and>
     bnd db_rewind (\<lambda>_. nextrec_all n) t = Ok [(''Alpha'', ''data1'')] u"
proof -
  obtain s t where s: "db_open ''db4'' CREATE dbs0 = Ok True s"
      "db_store ''Alpha'' ''data1'' DB_INSERT s = Ok 0 t" and t: "db_rep t [''Alpha'' \<mapsto> ''data1'']"
    using demo_stored[of True] by auto
  obtain kvs u where k: "bnd db_rewind (\<lambda>_. nextrec_all (Suc (length (idxf t)))) t = Ok kvs u"
      "distinct (map fst kvs)" "\<forall>k d. (k, d) \<in> set kvs \<longleftrightarrow> [''Alpha'' \<mapsto> ''data1''] k = Some d \<and> \<not> blank k"
    using db_scan_correct[OF t] by blast
  have "\<not> blank ''Alpha''" by (simp add: blank_def)
  then have "x \<in> set kvs \<longleftrightarrow> x = (''Alpha'', ''data1'')" for x
    using spec[OF spec[OF k(3), of "fst x"], of "snd x"] by (cases x) (auto split: if_splits)
  then have "set kvs = {(''Alpha'', ''data1'')}" by blast
  with k(2) have "kvs = [(''Alpha'', ''data1'')]" by (intro distinct_set_single) (simp_all add: distinct_map)
  with s k(1) show ?thesis by blast
qed

text \<open>
  \<open>db_open\<close> with \<open>O_RDWR | O_CREAT | O_TRUNC\<close> gives an empty database whatever the
  files held, and takes two descriptors and the memory of one \<open>DB\<close> structure.
\<close>

theorem db_open_creates:
  assumes "can_create s path a b"
  shows "\<exists>t. db_open path CREATE s = Ok True t \<and> db_rep t Map.empty \<and> idxf t = db_init_hash \<and> datf t = [] \<and>
    (w_fds t)(idxfd t := None, datfd t := None) = w_fds s \<and> w_mem t = w_mem s - db_mem path"
  using create_runs[OF assms refl] by (auto simp: runs_iff open_post_def rest_view_def)

theorem db_open_creates_witness:
  "\<exists>t. db_open ''db4'' CREATE dbs0 = Ok True t \<and> db_rep t Map.empty \<and> idxf t = db_init_hash"
  using db_open_creates[OF dbs_create] by auto

text \<open>
  C5. A database survives \<open>db_close\<close>: the files are unchanged, the descriptors and the
  memory are given back, and opening it again gives a database that holds the same map.
\<close>

theorem db_close_reopen:
  assumes "db_rep s m" and "db_handle s path"
  shows "\<exists>t u. db_close s = Ok () t \<and> db_open path O_RDWR t = Ok True u \<and> db_rep u m \<and>
    w_files t = w_files s \<and> w_fds t = (w_fds s)(idxfd s := None, datfd s := None) \<and> w_mem t = w_mem s + db_mem path"
  by (rule persist_law[OF assms])

theorem db_close_reopen_witness:
  "\<exists>s t u v. db_open ''db4'' CREATE dbs0 = Ok True s \<and> db_store ''Alpha'' ''data1'' DB_INSERT s = Ok 0 t \<and>
     db_close t = Ok () u \<and> db_open ''db4'' O_RDWR u = Ok True v \<and> db_rep v [''Alpha'' \<mapsto> ''data1'']"
proof -
  obtain s t where s: "db_open ''db4'' CREATE dbs0 = Ok True s"
      "db_store ''Alpha'' ''data1'' DB_INSERT s = Ok 0 t" "db_rep t [''Alpha'' \<mapsto> ''data1'']" "db_handle t ''db4''"
    using demo_handle by auto
  from db_close_reopen[OF s(3,4)] s(1,2) show ?thesis by auto
qed

text \<open>
  C6. The space of a deleted record is used again: inserting a key and data of the same
  lengths after a deletion leaves both files as long as they were. The deletion is one on a C library
  whose \<open>sprintf\<close> leaves a string printed onto itself in place (\<open>self_print\<close>).
\<close>

theorem db_reuses_space:
  assumes "db_rep s m" and "self_print s" and "m k = Some d" and "storable s k' d'" and "length k' = length k"
    and "length d' = length d" and "(m(k := None)) k' = None"
  shows "\<exists>t u. db_delete k s = Ok 0 t \<and> db_store k' d' DB_INSERT t = Ok 0 u \<and>
    db_rep u (m(k := None, k' \<mapsto> d')) \<and> length (idxf u) = length (idxf s) \<and> length (datf u) = length (datf s)"
  by (rule reuse_law[OF assms])

theorem db_reuses_space_witness:
  "\<exists>s t u v. db_open ''db4'' CREATE dbs0 = Ok True s \<and> db_store ''Alpha'' ''data1'' DB_INSERT s = Ok 0 t \<and>
     db_delete ''Alpha'' t = Ok 0 u \<and> db_store ''gamma'' ''other'' DB_INSERT u = Ok 0 v \<and>
     length (datf v) = length (datf t)"
proof -
  obtain s t where s: "db_open ''db4'' CREATE dbs0 = Ok True s"
      "db_store ''Alpha'' ''data1'' DB_INSERT s = Ok 0 t"
    and t: "db_rep t [''Alpha'' \<mapsto> ''data1'']" "db_slots t 899" "self_print t"
    using demo_stored[of True] by auto
  from db_reuses_space[OF t(1,3) _ conjunct2[OF demo_storable[OF t(2)]], of "''Alpha''" "''data1''"] s
  show ?thesis by auto
qed

text \<open>
  \<^verbatim>\<open>db-create.c\<close> exits with status 0 and leaves on disk a database of exactly its three
  records.
\<close>

theorem db_create_main_correct:
  assumes "can_create s ''db4'' a b" and "5000 \<le> w_limit s"
  shows "\<exists>t. db_create_main s = Halt (Exit 0 []) t \<and> fd_table t = fd_table s \<and>
    db_files t ''db4'' [''Alpha'' \<mapsto> ''data1'', ''beta'' \<mapsto> ''Data for beta'', ''gamma'' \<mapsto> ''record3'']"
proof -
  obtain s0 where 0: "db_open ''db4'' CREATE s = Ok True s0" "open_post s ''db4'' Map.empty s0"
      "idxf s0 = db_init_hash" "datf s0 = []"
    using create_runs[OF assms(1) refl] by (auto simp: runs_iff)
  have "w_limit s0 = w_limit s" using 0(2) by (simp add: open_post_def rest_view_def)
  then have sl: "db_slots s0 (Suc (Suc (Suc 0)))"
    using 0(3,4) assms(2) by (simp add: db_slots_def length_init_hash[unfolded db_consts hdr_def])
  have h: "db_handle s0 ''db4''" by (rule handle_open[OF 0(2)]) (use assms(1) in \<open>simp_all add: can_create_def\<close>)
  obtain s1 where 1: "db_store ''Alpha'' ''data1'' DB_INSERT s0 = Ok 0 s1" "db_slots s1 (Suc (Suc 0))"
      "db_rep s1 [''Alpha'' \<mapsto> ''data1'']" "same_env s0 s1"
    using insert_law[OF _ storable_good[OF good_demo(1) sl], of Map.empty] 0(2) sl
    by (auto simp: runs_iff store_rc_simps open_post_def)
  obtain s2 where 2: "db_store ''beta'' ''Data for beta'' DB_INSERT s1 = Ok 0 s2" "db_slots s2 (Suc 0)"
      "db_rep s2 [''Alpha'' \<mapsto> ''data1'', ''beta'' \<mapsto> ''Data for beta'']" "same_env s1 s2"
    using insert_law[OF 1(3) storable_good[OF good_demo(2) 1(2)]] 1(2)
    by (auto simp: runs_iff store_rc_simps)
  obtain s3 where 3: "db_store ''gamma'' ''record3'' DB_INSERT s2 = Ok 0 s3"
      "db_rep s3 [''Alpha'' \<mapsto> ''data1'', ''beta'' \<mapsto> ''Data for beta'', ''gamma'' \<mapsto> ''record3'']" "same_env s2 s3"
    using insert_law[OF 2(3) storable_good[OF good_demo(3) 2(2)]] 2(2)
    by (auto simp: runs_iff store_rc_simps)
  have E: "same_env s0 s3" using 1(4) 2(4) 3(3) same_env_trans by blast
  obtain t where c: "db_close s3 = Ok () t" and f: "w_files t = w_files s3" "w_limit t = w_limit s3"
      "w_fds t = (w_fds s3)(idxfd s3 := None, datfd s3 := None)"
    using close_named[OF 3(2) handle_same[OF h E]] by (auto simp: runs_iff)
  have "db_create_main s = Halt (Exit 0 []) t"
    using 0(1) 1(1) 2(1) 3(1) c by (simp add: db_create_main_def)
  moreover have "db_files t ''db4'' [''Alpha'' \<mapsto> ''data1'', ''beta'' \<mapsto> ''Data for beta'', ''gamma'' \<mapsto> ''record3'']"
    using named_files(1)[OF 3(2) handle_same[OF h E]] f by (simp add: db_files_def)
  moreover have "fd_table t = fd_table s"
    using fd_table_closed[OF f(3)] fd_table_closed[of s s0 "idxfd s0" "datfd s0"] 0(2) E
    by (simp add: open_post_def rest_view_def same_env_def)
  ultimately show ?thesis by blast
qed

theorem db_create_main_correct_witness:
  "\<exists>t. db_create_main dbs0 = Halt (Exit 0 []) t \<and>
    db_files t ''db4'' [''Alpha'' \<mapsto> ''data1'', ''beta'' \<mapsto> ''Data for beta'', ''gamma'' \<mapsto> ''record3'']"
  using db_create_main_correct[OF dbs_create] by (auto simp: dbs_on_def)

text \<open>
  C7. When \<open>db_open\<close> returns null, because one of the two files could not be opened, it has
  closed what it had opened and freed what it had allocated.
\<close>

theorem db_open_failure_clean:
  assumes "db_open path oflag s = Ok False t"
  shows "w_fds t = w_fds s \<and> w_mem t = w_mem s"
  by (rule open_failure[OF assms])

theorem db_open_failure_clean_witness:
  "\<exists>t. db_open ''db4'' O_RDWR dbs0 = Ok False t \<and> w_fds t = w_fds dbs0 \<and> w_mem t = w_mem dbs0"
proof -
  have "\<exists>t. db_open ''db4'' O_RDWR dbs0 = Ok False t"
    by (simp add: db_open_def db_alloc_def dbs_on_def sys_malloc_def sizeof_DB_def db_consts db_zero_def sys_open_def
        open_error_def new_fd_def upt_conv_Cons fail_def oflag_defs db_free_def sys_free_def)
  then show ?thesis using db_open_failure_clean by blast
qed

text \<open>
  C8. A key's chain is a critical section: while another process holds a write lock on the
  byte of the hash chain, \<open>db_fetch\<close>, \<open>db_delete\<close> and \<open>db_store\<close> of that key wait
  for it and have not touched any file.
\<close>

theorem db_ops_wait_for_chain:
  assumes "w_fds s (idxfd s) = Some f" and "hashoff s = HASH_OFF"
    and "held_by_other s (o_path f) (db_hash_of (nhash s) k * PTR_SZ + PTR_SZ)" and "db_good k d"
  shows "\<exists>t. db_fetch k s = Halt (Blocked ''fcntl'') t \<and> db_delete k s = Halt (Blocked ''fcntl'') t \<and>
    db_store k d flag s = Halt (Blocked ''fcntl'') t \<and> w_files t = w_files s"
proof -
  let ?c = "int (db_hash_of (nhash s) k * PTR_SZ + PTR_SZ)"
  let ?t = "s\<lparr>chainoff := ?c, ptroff := ?c\<rparr>"
  have "lock_reg (idxfd s) F_SETLKW l ?c SEEK_SET 1 ?t = Halt (Blocked ''fcntl'') ?t" if "l \<noteq> F_UNLCK" for l
    using assms(1,3) that by (intro held_blocks[of ?t f]) (simp_all add: held_by_other_def)
  then have "db_find k w s = Halt (Blocked ''fcntl'') ?t" for w
    using assms(2) by (simp add: db_find_def db_hash_def lock_macros HASH_OFF_def add.commute split: prod.split)
  moreover have "d \<noteq> []" "length d \<le> 1023" using assms(4) by (auto simp: db_good_def)
  ultimately show ?thesis
    by (simp add: db_fetch_def db_delete_def db_store_def Let_def DATLEN_MIN_def DATLEN_MAX_def)
qed

definition other_writer :: "dbs" where
  "other_writer = dbs0\<lparr>w_files := [''x.idx'' \<mapsto> []], w_fds := [3 \<mapsto> \<lparr>o_path = ''x.idx'', o_pos = 0, o_oflag = O_RDWR\<rparr>],
     w_others := [\<lparr>l_pid = 7, l_path = ''x.idx'', l_type = F_WRLCK, l_start = 0, l_len = 0\<rparr>],
     idxfd := 3, nhash := NHASH_DEF, hashoff := HASH_OFF\<rparr>"

theorem db_ops_wait_for_chain_witness:
  "\<exists>t. db_fetch ''Alpha'' other_writer = Halt (Blocked ''fcntl'') t \<and> w_files t = w_files other_writer"
proof -
  have "held_by_other other_writer ''x.idx'' n" for n
    by (simp add: other_writer_def held_by_other_def in_region_def)
  then show ?thesis
    using db_ops_wait_for_chain[of other_writer "\<lparr>o_path = ''x.idx'', o_pos = 0, o_oflag = O_RDWR\<rparr>" "''Alpha''" "''data1''"]
      good_demo(1) by (auto simp: other_writer_def)
qed

text \<open>
  The free list is not a critical section: \<open>_db_findfree\<close>, which unlinks a record from it, behaves the same
  whatever locks other processes hold (the comment in the code says that it locks the list).
\<close>

theorem db_findfree_ignores_locks:
  "db_findfree kl dl (with_others ls s) = on_state (with_others ls) (db_findfree kl dl s)"
  by (rule blindD[OF blind_findfree])

text \<open>
  The text of an index record reads back as the key, offset and length that
  \<open>_db_writeidx\<close> printed, except for a key with a colon: then \<open>_db_readidx\<close> gives up with
  "too many separators", although \<open>_db_writeidx\<close> accepted the key.
\<close>

theorem idx_record_roundtrip:
  assumes "is_cstr k" and "int32_ok x" and "int32_ok n"
  shows "split_idx (butlast (idx_text k x n) @ [NUL]) =
    (if SEP \<in> set k then Inl ''too many separators'' else Inr (k, dec (nat x), dec (nat n)))"
  using split_idx_text[OF assms(1) _ assms(2,3)] split_idx_sep[OF assms(1) _ assms(2,3)] by simp

theorem idx_record_roundtrip_witness:
  "split_idx (butlast (idx_text ''Alpha'' 12 6) @ [NUL]) = Inr (''Alpha'', ''12'', ''6'') \<and>
   split_idx (butlast (idx_text ''a:b'' 12 6) @ [NUL]) = Inl ''too many separators''"
proof -
  have "dec 12 = ''12''" "dec 6 = ''6''" by code_simp+
  then show ?thesis
    using idx_record_roundtrip[of "''Alpha''" 12 6] idx_record_roundtrip[of "''a:b''" 12 6]
    by (simp add: is_cstr_def int32_ok_def SEP_def)
qed

end
