(* ===== verification/Sock.thy ===== *)
theory Sock
  imports Posix
begin

text \<open>
  Stream sockets and terminal lines as a process sees them, and the library routines over
  them: \<^verbatim>\<open>io-func.c\<close> (\<open>writen\<close>, \<open>readn\<close>), \<^verbatim>\<open>proc_com_43pbds.c\<close>
  (passing descriptors) and \<^verbatim>\<open>cs_43pbsd.c\<close> (client-server connections).

  What arrives on a descriptor is a list of pieces, each a byte string that may carry an open
  file; a read takes at most one piece, so that how the stream is cut into pieces is up to the
  environment. After the last piece the peer may have hung up. What the process has sent is a
  list of pieces per descriptor. A write takes as many bytes as the next entry of \<open>s_wr\<close>
  allows (0 makes it fail, no entry means all of them). \<open>unix_sock\<close> describes the
  file-system entry that a connecting client has bound.
\<close>

datatype pkt = Pkt (p_bytes: string) (p_file: "ofile option")

record unix_sock =
  u_path :: string
  u_sock :: bool     \<comment> \<open>the entry is a socket\<close>
  u_mode :: int      \<comment> \<open>permission bits\<close>
  u_uid :: int
  u_time :: int      \<comment> \<open>the oldest of its three times\<close>

record sock = world +
  s_in :: "int \<Rightarrow> pkt list"
  s_hup :: "int \<Rightarrow> bool"
  s_out :: "int \<Rightarrow> pkt list"
  s_wr :: "int \<Rightarrow> nat list"
  s_pending :: "string list"       \<comment> \<open>addresses of the clients waiting in \<open>connect\<close>\<close>
  s_names :: "string \<Rightarrow> unix_sock option"
  s_now :: int
  s_pid :: int
  s_cmptr :: bool                  \<comment> \<open>the control buffer is allocated\<close>

definition sock_put :: "int \<Rightarrow> pkt \<Rightarrow> 'a sock_scheme \<Rightarrow> 'a sock_scheme" where
  "sock_put fd p s = s\<lparr>s_out := (s_out s)(fd := s_out s fd @ [p])\<rparr>"

subsection \<open>System calls on sockets\<close>

definition sock_write :: "int \<Rightarrow> string \<Rightarrow> (int, 'a sock_scheme) prog" where
  "sock_write fd bs = (\<lambda>s.
     if w_fds s fd = None then fail EBADF s
     else (case s_wr s fd of
         [] \<Rightarrow> Ok (int (length bs)) (if bs = [] then s else sock_put fd (Pkt bs None) s)
       | m # ms \<Rightarrow>
           (let t = s\<lparr>s_wr := (s_wr s)(fd := ms)\<rparr> in
            if m = 0 then fail EAGAIN t
            else Ok (int (length (take m bs))) (if bs = [] then t else sock_put fd (Pkt (take m bs) None) t))))"

definition sock_read :: "int \<Rightarrow> nat \<Rightarrow> (string option, 'a sock_scheme) prog" where
  "sock_read fd n = (\<lambda>s.
     if w_fds s fd = None then Ok None (s\<lparr>w_errno := EBADF\<rparr>)
     else (case s_in s fd of
         [] \<Rightarrow> if s_hup s fd then Ok (Some []) s else Halt (Blocked ''read'') s
       | p # ps \<Rightarrow>
           Ok (Some (take n (p_bytes p)))
              (s\<lparr>s_in := (s_in s)(fd := (if length (p_bytes p) \<le> n then ps
                                        else Pkt (drop n (p_bytes p)) None # ps))\<rparr>)))"

text \<open>\<open>sendmsg\<close> of two bytes, with the open file of a descriptor where one is passed.\<close>

definition sendmsg :: "int \<Rightarrow> string \<Rightarrow> int option \<Rightarrow> (int, 'a sock_scheme) prog" where
  "sendmsg fd bs passed = (\<lambda>s.
     if w_fds s fd = None then fail EBADF s
     else (case passed of
         None \<Rightarrow> Ok (int (length bs)) (sock_put fd (Pkt bs None) s)
       | Some d \<Rightarrow> (case w_fds s d of
             None \<Rightarrow> fail EBADF s
           | Some f \<Rightarrow> Ok (int (length bs)) (sock_put fd (Pkt bs (Some f)) s))))"

text \<open>
  \<open>recvmsg\<close>: the bytes and, when the piece carried an open file, a new descriptor for it.
\<close>

definition recvmsg :: "int \<Rightarrow> nat \<Rightarrow> ((string \<times> int option) option, 'a sock_scheme) prog" where
  "recvmsg fd n = (\<lambda>s.
     if w_fds s fd = None then Ok None (s\<lparr>w_errno := EBADF\<rparr>)
     else (case s_in s fd of
         [] \<Rightarrow> if s_hup s fd then Ok (Some ([], None)) s else Halt (Blocked ''recvmsg'') s
       | p # ps \<Rightarrow>
           (let t = s\<lparr>s_in := (s_in s)(fd := (if length (p_bytes p) \<le> n then ps
                                  else Pkt (drop n (p_bytes p)) None # ps))\<rparr> in
            case (p_file p, new_fd s) of
              (Some f, Some d) \<Rightarrow>
                Ok (Some (take n (p_bytes p), Some d)) (t\<lparr>w_fds := (w_fds t)(d \<mapsto> f)\<rparr>)
            | _ \<Rightarrow> Ok (Some (take n (p_bytes p), None)) t)))"

subsection \<open>writen and readn\<close>

text \<open>
  Both loops consume at least one byte per round, so that they make at most as many rounds as
  there are bytes; the bound is one more.
\<close>

fun writen_loop :: "nat \<Rightarrow> int \<Rightarrow> int \<Rightarrow> string \<Rightarrow> (int, 'a sock_scheme) prog" where
  "writen_loop 0 n fd bs = stop_with (Diverges ''writen'')"
| "writen_loop (Suc k) n fd bs =
     (if bs = [] then ret n
      else bnd (sock_write fd bs) (\<lambda>nwritten.
           if nwritten \<le> 0 then ret nwritten
           else writen_loop k n fd (drop (nat nwritten) bs)))"

definition writen :: "int \<Rightarrow> string \<Rightarrow> (int, 'a sock_scheme) prog" where
  "writen fd bs = writen_loop (Suc (length bs)) (int (length bs)) fd bs"

fun readn_loop :: "nat \<Rightarrow> int \<Rightarrow> nat \<Rightarrow> string \<Rightarrow> (string option, 'a sock_scheme) prog" where
  "readn_loop 0 fd nleft got = stop_with (Diverges ''readn'')"
| "readn_loop (Suc k) fd nleft got =
     (if nleft = 0 then ret (Some got)
      else bnd (sock_read fd nleft) (\<lambda>r. case r of
             None \<Rightarrow> ret None
           | Some b \<Rightarrow> if b = [] then ret (Some got)
                      else readn_loop k fd (nleft - length b) (got @ b)))"

text \<open>The buffer that \<open>readn\<close> filled, or \<open>None\<close> for a negative result.\<close>

definition readn :: "int \<Rightarrow> nat \<Rightarrow> (string option, 'a sock_scheme) prog" where
  "readn fd n = readn_loop (Suc n) fd n []"

subsection \<open>Passing descriptors\<close>

definition sizeof_cmsg :: nat where "sizeof_cmsg = 20"

text \<open>A \<open>char\<close> that is assigned an \<open>int\<close>.\<close>

definition to_char :: "int \<Rightarrow> char" where
  "to_char x = char_of (nat (x mod 256))"

text \<open>The control buffer is allocated the first time it is needed.\<close>

definition cmptr_alloc :: "(bool, 'a sock_scheme) prog" where
  "cmptr_alloc =
     bnd (gets s_cmptr) (\<lambda>have.
     if have then ret True
     else bnd (sys_malloc sizeof_cmsg) (\<lambda>ok.
     bnd (modify (\<lambda>s. s\<lparr>s_cmptr := ok\<rparr>)) (\<lambda>_. ret ok)))"

definition send_fd :: "int \<Rightarrow> int \<Rightarrow> (int, 'a sock_scheme) prog" where
  "send_fd clifd fd =
     (if fd < 0
      then (let b = to_char (- fd) in
            bnd (sendmsg clifd [NUL, if b = NUL then CHR 0x01 else b] None) (\<lambda>r.
            if r \<noteq> 2 then ret (-1) else ret 0))
      else bnd cmptr_alloc (\<lambda>ok.
           if \<not> ok then ret (-1)
           else bnd (sendmsg clifd [NUL, NUL] (Some fd)) (\<lambda>r.
                if r \<noteq> 2 then ret (-1) else ret 0)))"

text \<open>
  \<open>send_err\<close> compares the uninitialised variable \<open>n\<close> with the length of the message
  where it means to assign it; \<open>n0\<close> is the value \<open>n\<close> happens to have.
\<close>

definition send_err :: "int \<Rightarrow> int \<Rightarrow> int \<Rightarrow> string \<Rightarrow> (int, 'a sock_scheme) prog" where
  "send_err n0 clifd errcode msg =
     bnd (if n0 = int (length msg)
          then bnd (sock_write clifd msg) (\<lambda>r. ret (r = n0)) else ret True) (\<lambda>ok.
     if \<not> ok then ret (-1)
     else bnd (send_fd clifd (if errcode \<ge> 0 then -1 else errcode)) (\<lambda>r.
     if r < 0 then ret (-1) else ret 0))"

text \<open>
  The scan of \<open>recv_fd\<close> for the null byte of the two-byte trailer: nothing found, a null
  byte in the wrong place, or the data before the trailer and the status byte.
\<close>

datatype scan = NoTrailer | BadFormat | Trailer string nat

definition scan_trailer :: "string \<Rightarrow> scan" where
  "scan_trailer b =
     (let k = length (takeWhile (\<lambda>c. c \<noteq> NUL) b) in
      if k = length b then NoTrailer
      else if k + 2 \<noteq> length b then BadFormat
      else Trailer (take k b) (of_char (b ! (k + 1))))"

text \<open>\<open>userfunc\<close> gets the data; it returns how many bytes it took.\<close>

fun recv_fd_loop :: "nat \<Rightarrow> int \<Rightarrow> (string \<Rightarrow> (int, 'a sock_scheme) prog) \<Rightarrow> (int, 'a sock_scheme) prog" where
  "recv_fd_loop 0 servfd userfunc = stop_with (Diverges ''recv_fd'')"
| "recv_fd_loop (Suc k) servfd userfunc =
     bnd cmptr_alloc (\<lambda>ok.
     if \<not> ok then ret (-1)
     else bnd (recvmsg servfd MAXLINE) (\<lambda>r. case r of
       None \<Rightarrow> err_sys ''recvmsg error''
     | Some (b, d) \<Rightarrow>
         if b = [] then ret (-1)
         else (case scan_trailer b of
             BadFormat \<Rightarrow> err_dump ''message format error''
           | NoTrailer \<Rightarrow>
               bnd (userfunc b) (\<lambda>w.
               if w \<noteq> int (length b) then ret (-1) else recv_fd_loop k servfd userfunc)
           | Trailer data status \<Rightarrow>
               if status = 0 \<and> d = None then err_dump ''status = 0 but no fd''
               else bnd (if data = [] then ret 0 else userfunc data) (\<lambda>w.
                    if w \<noteq> int (length data) then ret (-1)
                    else ret (case d of Some x \<Rightarrow> if status = 0 then x else - int status
                                      | None \<Rightarrow> - int status)))))"

text \<open>The loop takes one piece per round: one round more than there are pieces waiting.\<close>

definition recv_fd :: "int \<Rightarrow> (string \<Rightarrow> (int, 'a sock_scheme) prog) \<Rightarrow> (int, 'a sock_scheme) prog" where
  "recv_fd servfd userfunc =
     bnd (gets (\<lambda>s. Suc (length (s_in s servfd)))) (\<lambda>k. recv_fd_loop k servfd userfunc)"

subsection \<open>Connections\<close>

text \<open>\<open>socket\<close>, \<open>bind\<close>, \<open>connect\<close> and \<open>accept\<close> on Unix domain addresses.\<close>

definition sys_socket :: "(int, 'a sock_scheme) prog" where
  "sys_socket = (\<lambda>s. case new_fd s of
     None \<Rightarrow> fail EMFILE s
   | Some fd \<Rightarrow> Ok fd (s\<lparr>w_fds := (w_fds s)(fd \<mapsto> \<lparr>o_path = [], o_pos = 0, o_oflag = O_RDWR\<rparr>)\<rparr>))"

definition sys_bind :: "int \<Rightarrow> string \<Rightarrow> (int, 'a sock_scheme) prog" where
  "sys_bind fd name = (\<lambda>s.
     if w_denied s name \<or> s_names s name \<noteq> None then fail EACCES s
     else Ok 0 (s\<lparr>s_names := (s_names s)(name \<mapsto>
       \<lparr>u_path = name, u_sock = True, u_mode = 0x1ED, u_uid = 0, u_time = s_now s\<rparr>)\<rparr>))"

definition sys_unlink :: "string \<Rightarrow> (int, 'a sock_scheme) prog" where
  "sys_unlink name = (\<lambda>s. Ok 0 (s\<lparr>s_names := (s_names s)(name := None)\<rparr>))"

definition serv_listen :: "string \<Rightarrow> (int, 'a sock_scheme) prog" where
  "serv_listen name =
     bnd sys_socket (\<lambda>fd.
     if fd < 0 then ret (-1)
     else bnd (sys_unlink name) (\<lambda>_.
     bnd (sys_bind fd name) (\<lambda>r.
     if r < 0 then ret (-2) else ret fd)))"

definition sys_accept :: "((int \<times> string), 'a sock_scheme) prog" where
  "sys_accept = (\<lambda>s.
     case s_pending s of
       [] \<Rightarrow> Halt (Blocked ''accept'') s
     | a # as \<Rightarrow> (case new_fd s of
         None \<Rightarrow> Ok (-1, []) (s\<lparr>w_errno := EMFILE\<rparr>)
       | Some fd \<Rightarrow> Ok (fd, a) (s\<lparr>s_pending := as,
           w_fds := (w_fds s)(fd \<mapsto> \<lparr>o_path = [], o_pos = 0, o_oflag = O_RDWR\<rparr>),
           s_in := (s_in s)(fd := []), s_out := (s_out s)(fd := []),
           s_hup := (s_hup s)(fd := False)\<rparr>)))"

definition S_IRWXU :: int where "S_IRWXU = 0x1C0"
definition S_IRWXG :: int where "S_IRWXG = 0x38"
definition S_IRWXO :: int where "S_IRWXO = 0x7"
definition STALE :: int where "STALE = 30"

text \<open>The checks of \<open>serv_accept\<close> on the client's address: 0, or the code it returns.\<close>

definition check_addr :: "int \<Rightarrow> unix_sock option \<Rightarrow> int" where
  "check_addr now st = (case st of
     None \<Rightarrow> -2
   | Some u \<Rightarrow>
       if \<not> u_sock u then -3
       else if u_mode u AND (S_IRWXG OR S_IRWXO) \<noteq> 0 \<or> u_mode u AND S_IRWXU \<noteq> S_IRWXU then -4
       else if u_time u < now - STALE then -5
       else 0)"

text \<open>The descriptor and the user ID (-1 when the code returns an error code).\<close>

definition serv_accept :: "(int \<times> int, 'a sock_scheme) prog" where
  "serv_accept =
     bnd sys_accept (\<lambda>(clifd, addr).
     if clifd < 0 then ret (-1, -1)
     else bnd (gets (\<lambda>s. check_addr (s_now s) (s_names s addr))) (\<lambda>c.
     if c < 0 then ret (c, -1)
     else bnd (gets (\<lambda>s. case s_names s addr of None \<Rightarrow> -1 | Some u \<Rightarrow> u_uid u)) (\<lambda>uid.
     bnd (sys_unlink addr) (\<lambda>_. ret (clifd, uid)))))"

text \<open>
  \<open>cli_conn\<close> binds a name made of the process ID before it connects, so that the server can
  learn the user ID from the owner of that name; it insists that the name has 14 characters.
\<close>

definition CLI_PATH :: string where "CLI_PATH = ''/var/tmp/''"

definition fmt_05d :: "int \<Rightarrow> string" where
  "fmt_05d x = (let d = fmt_d x in replicate (5 - length d) (CHR ''0'') @ d)"

definition sys_chmod :: "string \<Rightarrow> int \<Rightarrow> (int, 'a sock_scheme) prog" where
  "sys_chmod name mode = (\<lambda>s. case s_names s name of
     None \<Rightarrow> fail ENOENT s
   | Some u \<Rightarrow> Ok 0 (s\<lparr>s_names := (s_names s)(name \<mapsto> u\<lparr>u_mode := mode\<rparr>)\<rparr>))"

definition sys_connect :: "int \<Rightarrow> string \<Rightarrow> (int, 'a sock_scheme) prog" where
  "sys_connect fd name = (\<lambda>s. if s_names s name = None then fail ENOENT s else Ok 0 s)"

definition cli_conn :: "string \<Rightarrow> (int, 'a sock_scheme) prog" where
  "cli_conn name =
     bnd sys_socket (\<lambda>fd.
     if fd < 0 then ret (-1)
     else bnd (gets (\<lambda>s. CLI_PATH @ fmt_05d (s_pid s))) (\<lambda>path.
     if length path + 2 \<noteq> 16 then err_quit ''length != 16''
     else bnd (sys_unlink path) (\<lambda>_.
     bnd (sys_bind fd path) (\<lambda>r.
     if r < 0 then ret (-2)
     else bnd (sys_chmod path S_IRWXU) (\<lambda>r.
     if r < 0 then ret (-3)
     else bnd (sys_connect fd name) (\<lambda>r.
     if r < 0 then ret (-4) else ret fd))))))"

end
