(* ===== verification/Args.thy ===== *)
theory Args
  imports Sock
begin

text \<open>
  \<open>buf_args\<close> (\<^verbatim>\<open>opend.c\<close>, \<^verbatim>\<open>opend-request.c\<close>, \<^verbatim>\<open>chapter18/opend.c\<close>): the
  request buffer of a client, broken into an argument vector. The first argument is the start
  of the buffer itself, not the first token: white space before it stays in it.
\<close>

definition MAXARGC :: nat where "MAXARGC = 50"

function tokens :: "string \<Rightarrow> string list" where
  "tokens s = (case strtok WHITE s of None \<Rightarrow> [] | Some (_, t, r) \<Rightarrow> t # tokens r)"
  by pat_completeness auto
termination by (relation "measure length") (auto dest: strtok_rest_shorter)

declare tokens.simps [simp del]

text \<open>The argument vector, \<open>None\<close> when there is no first token or there are too many.\<close>

definition arg_vector :: "string \<Rightarrow> string list option" where
  "arg_vector buf = (case strtok WHITE buf of
     None \<Rightarrow> None
   | Some (k, t, r) \<Rightarrow>
       if length (tokens r) \<ge> MAXARGC - 1 then None
       else Some ((take k (cstr buf) @ t) # tokens r))"

definition buf_args :: "string \<Rightarrow> (string list \<Rightarrow> (int, 's) prog) \<Rightarrow> (int, 's) prog" where
  "buf_args buf optfunc = (case arg_vector buf of None \<Rightarrow> ret (-1) | Some argv \<Rightarrow> optfunc argv)"

text \<open>A word: a nonempty C string without white space.\<close>

definition word_ok :: "string \<Rightarrow> bool" where
  "word_ok w \<longleftrightarrow> w \<noteq> [] \<and> is_cstr w \<and> (\<forall>c\<in>set w. c \<notin> WHITE)"

definition unwords :: "string list \<Rightarrow> string" where
  "unwords ws = concat (map (\<lambda>w. w @ '' '') ws)"

lemma blank_WHITE [simp]: "CHR '' '' \<in> WHITE"
  by (simp add: WHITE_def)

lemma is_cstr_unwords: "\<forall>w\<in>set ws. word_ok w \<Longrightarrow> is_cstr (unwords ws)"
  by (induction ws) (auto simp: unwords_def word_ok_def is_cstr_def)

lemma tokens_Nil [simp]: "tokens [] = []"
  by (subst tokens.simps) (simp add: strtok_def cstr_def)

lemma strtok_blank:
  "is_cstr (t @ '' '' @ r) \<Longrightarrow> word_ok t \<Longrightarrow> strtok WHITE (t @ '' '' @ r) = Some (0, t, r)"
  by (simp add: strtok_cons_delim word_ok_def)

lemma tokens_word: "word_ok w \<Longrightarrow> tokens w = [w]"
  by (subst tokens.simps) (simp add: strtok_last word_ok_def)

lemma tokens_unwords:
  assumes "\<forall>w\<in>set ws. word_ok w" and "word_ok v"
  shows "tokens (unwords ws @ v) = ws @ [v]"
  using assms
proof (induction ws)
  case Nil
  then show ?case by (simp add: unwords_def tokens_word)
next
  case (Cons w ws)
  have "is_cstr (w @ '' '' @ (unwords ws @ v))"
    using is_cstr_unwords[of ws] Cons.prems by (auto simp: word_ok_def is_cstr_def)
  from strtok_blank[OF this] Cons show ?case
    by (subst tokens.simps) (simp add: unwords_def)
qed

text \<open>A line of words, as a client writes it, comes apart into those words.\<close>

lemma arg_vector_words:
  assumes "word_ok w" and "\<forall>w\<in>set ws. word_ok w" and "word_ok v" and "length ws < MAXARGC - 2"
  shows "arg_vector (unwords (w # ws) @ v @ [NUL]) = Some (w # ws @ [v])"
proof -
  have c: "is_cstr (w @ '' '' @ (unwords ws @ v))"
    using is_cstr_unwords[of ws] assms by (auto simp: word_ok_def is_cstr_def)
  have buf: "unwords (w # ws) @ v @ [NUL] = (w @ '' '' @ (unwords ws @ v)) @ [NUL]" by (simp add: unwords_def)
  have e: "cstr ((w @ '' '' @ (unwords ws @ v)) @ [NUL]) = w @ '' '' @ (unwords ws @ v)"
    using c by (rule cstr_append_nul)
  have "strtok WHITE (unwords (w # ws) @ v @ [NUL]) = Some (0, w, unwords ws @ v)"
    using strtok_blank[OF c assms(1)] unfolding buf strtok_def e cstr_id[OF c] .
  then show ?thesis
    using tokens_unwords[OF assms(2,3)] assms(4) by (simp add: arg_vector_def)
qed

subsection \<open>getopt\<close>

text \<open>
  POSIX \<open>getopt\<close>, called until it returns \<open>EOF\<close>: the options without and with an
  argument, the options that were found (an unknown option, or one whose argument is missing,
  ends the list) and the operands. The first string is what is left of a cluster of options.
\<close>

datatype opt = Opt char | OptArg char string | BadOpt char

fun getopts :: "string \<Rightarrow> string \<Rightarrow> string \<Rightarrow> string list \<Rightarrow> opt list \<times> string list" where
  "getopts f w [] [] = ([], [])"
| "getopts f w [] (a # as) =
     (if a = ''--'' then ([], as)
      else if length a \<ge> 2 \<and> hd a = CHR ''-'' then getopts f w (tl a) as
      else ([], a # as))"
| "getopts f w (c # cs) as =
     (if c \<in> set f then (let (os, r) = getopts f w cs as in (Opt c # os, r))
      else if c \<in> set w
      then (if cs \<noteq> [] then (let (os, r) = getopts f w [] as in (OptArg c cs # os, r))
            else (case as of
                    [] \<Rightarrow> ([BadOpt c], [])
                  | a # as' \<Rightarrow> (let (os, r) = getopts f w [] as' in (OptArg c a # os, r))))
      else ([BadOpt c], as))"

end
