(* ===== verification/Slots.thy ===== *)
theory Slots
  imports Prelude
begin

text \<open>
  Arrays of client entries in which a descriptor of -1 marks a free entry, as both servers
  keep them (\<^verbatim>\<open>opend-daemon.c\<close>, \<^verbatim>\<open>chapter18/client.c\<close>). \<open>find_slot\<close> is the search
  loop of \<open>client_add\<close> (for -1) and of \<open>client_del\<close> (for a descriptor).
\<close>

fun find_slot :: "('c \<Rightarrow> int) \<Rightarrow> int \<Rightarrow> 'c list \<Rightarrow> nat option" where
  "find_slot fdof x [] = None"
| "find_slot fdof x (c # cs) = (if fdof c = x then Some 0 else map_option Suc (find_slot fdof x cs))"

definition live_fds :: "('c \<Rightarrow> int) \<Rightarrow> 'c list \<Rightarrow> int set" where
  "live_fds fdof cs = fdof ` set cs - {-1}"

text \<open>No descriptor is in two entries.\<close>

definition one_slot :: "('c \<Rightarrow> int) \<Rightarrow> 'c list \<Rightarrow> bool" where
  "one_slot fdof cs \<longleftrightarrow> (\<forall>i j. i < length cs \<and> j < length cs \<and> fdof (cs ! i) = fdof (cs ! j) \<and>
     fdof (cs ! i) \<noteq> -1 \<longrightarrow> i = j)"

lemma find_slot_None: "find_slot fdof x cs = None \<longleftrightarrow> x \<notin> fdof ` set cs"
  by (induction cs) auto

lemma find_slot_Some:
  "find_slot fdof x cs = Some i \<Longrightarrow> i < length cs \<and> fdof (cs ! i) = x \<and> (\<forall>j<i. fdof (cs ! j) \<noteq> x)"
proof (induction cs arbitrary: i)
  case (Cons c cs)
  then show ?case by (auto simp: nth_Cons less_Suc_eq_0_disj split: if_splits nat.splits)
qed simp

lemma find_slot_in: "x \<in> fdof ` set cs \<Longrightarrow> \<exists>i. find_slot fdof x cs = Some i"
  using find_slot_None[of fdof x cs] by auto

lemma live_fds_nth: "x \<in> live_fds fdof cs \<longleftrightarrow> x \<noteq> -1 \<and> (\<exists>i<length cs. fdof (cs ! i) = x)"
  by (force simp: live_fds_def image_iff in_set_conv_nth)

lemma live_fds_append: "live_fds fdof (cs @ ds) = live_fds fdof cs \<union> live_fds fdof ds"
  by (auto simp: live_fds_def)

lemma one_slot_append_free:
  assumes "one_slot fdof cs" and "\<And>d. d \<in> set ds \<Longrightarrow> fdof d = -1"
  shows "one_slot fdof (cs @ ds)"
  unfolding one_slot_def
proof (intro allI impI, elim conjE)
  fix i j
  assume *: "i < length (cs @ ds)" "j < length (cs @ ds)" "fdof ((cs @ ds) ! i) = fdof ((cs @ ds) ! j)"
    "fdof ((cs @ ds) ! i) \<noteq> -1"
  have in_cs: "k < length cs" if "k < length (cs @ ds)" "fdof ((cs @ ds) ! k) \<noteq> -1" for k
    using that assms(2)[of "ds ! (k - length cs)"] by (auto simp: nth_append split: if_splits)
  have "i < length cs" "j < length cs" using in_cs * by metis+
  then show "i = j" using assms(1) * by (auto simp: one_slot_def nth_append)
qed

text \<open>The interface: taking an entry sets its descriptor, giving it up resets it.\<close>

locale slot_table =
  fixes fdof :: "'c \<Rightarrow> int" and occupy :: "int \<Rightarrow> int \<Rightarrow> 'c \<Rightarrow> 'c" and vacate :: "'c \<Rightarrow> 'c"
  assumes fdof_occupy: "fdof (occupy fd uid c) = fd" and fdof_vacate: "fdof (vacate c) = -1"
begin

lemma live_occupy:
  assumes "find_slot fdof (-1) cs = Some i" and "fd \<noteq> -1"
  shows "live_fds fdof (cs[i := occupy fd uid (cs ! i)]) = insert fd (live_fds fdof cs)"
proof -
  note i = find_slot_Some[OF assms(1)]
  have "x \<in> live_fds fdof (cs[i := occupy fd uid (cs ! i)]) \<longleftrightarrow> x = fd \<or> x \<in> live_fds fdof cs" for x
    unfolding live_fds_nth using i assms(2) fdof_occupy by (auto simp: nth_list_update) metis+
  then show ?thesis by blast
qed

lemma one_occupy:
  assumes "find_slot fdof (-1) cs = Some i" and "fd \<notin> live_fds fdof cs" and "one_slot fdof cs"
  shows "one_slot fdof (cs[i := occupy fd uid (cs ! i)])"
  using assms find_slot_Some[OF assms(1)]
  by (auto simp: one_slot_def live_fds_nth nth_list_update fdof_occupy)

lemma live_vacate:
  assumes "find_slot fdof fd cs = Some i" and "one_slot fdof cs"
  shows "live_fds fdof (cs[i := vacate (cs ! i)]) = live_fds fdof cs - {fd}"
proof -
  note i = find_slot_Some[OF assms(1)]
  have "x \<in> live_fds fdof (cs[i := vacate (cs ! i)]) \<longleftrightarrow> x \<noteq> fd \<and> x \<in> live_fds fdof cs" for x
    using i assms(2) by (auto simp: live_fds_nth nth_list_update fdof_vacate one_slot_def)
  then show ?thesis by blast
qed

lemma one_vacate:
  assumes "find_slot fdof fd cs = Some i" and "one_slot fdof cs"
  shows "one_slot fdof (cs[i := vacate (cs ! i)])"
  using assms find_slot_Some[OF assms(1)] by (auto simp: one_slot_def nth_list_update fdof_vacate)

end

end
