(* ===== verification/Opend_Model.thy ===== *)
theory Opend_Model
  imports Args Slots
begin

text \<open>
  The open server and its client: \<^verbatim>\<open>opend-daemon.c\<close> and \<^verbatim>\<open>opend-daemon.h\<close> (the client
  array), \<^verbatim>\<open>opend-request.c\<close> (one request), \<^verbatim>\<open>opend-select.c\<close> (the loop),
  \<^verbatim>\<open>open-daemon.c\<close> (the client side); and the version that is a child of its one client,
  \<^verbatim>\<open>opend.c\<close>, \<^verbatim>\<open>open-server.c\<close>.

  The state is the process's view of its connections (\<open>sock\<close>) extended with the globals of
  the server and the locals of \<open>loop\<close>. A null \<open>client\<close> pointer is the empty array.
  \<open>d_junk\<close> is what the uninitialised variable of \<open>send_err\<close> holds and \<open>d_uids\<close> what
  \<open>malloc\<close> leaves in the user ID of a new entry. Log messages are not modelled.
\<close>

definition NALLOC :: nat where "NALLOC = 10"
definition CS_OPEN :: string where "CS_OPEN = ''/home/philip/opend''"
definition CL_OPEN :: string where "CL_OPEN = ''open''"

record oclient =
  oc_fd :: int
  oc_uid :: int

definition sizeof_oclient :: nat where "sizeof_oclient = 8"

record opend = sock +
  d_client :: "oclient list"
  d_errmsg :: string
  d_oflag :: int
  d_pathname :: string
  d_allset :: "int set"
  d_maxfd :: int
  d_maxi :: int
  d_listen :: int
  d_pollfd :: "nat \<Rightarrow> int"
  d_revents :: "nat \<Rightarrow> bool"
  d_junk :: int
  d_uids :: int

subsection \<open>The client array\<close>

definition oclient_alloc :: "(unit, opend) prog" where
  "oclient_alloc =
     bnd (sys_malloc (NALLOC * sizeof_oclient)) (\<lambda>ok.
     if \<not> ok then err_sys ''can't alloc for client array''
     else modify (\<lambda>s. s\<lparr>d_client := d_client s @ replicate NALLOC \<lparr>oc_fd = -1, oc_uid = d_uids s\<rparr>\<rparr>))"

definition ooccupy :: "int \<Rightarrow> int \<Rightarrow> oclient \<Rightarrow> oclient" where
  "ooccupy fd uid c = c\<lparr>oc_fd := fd, oc_uid := uid\<rparr>"

definition ovacate :: "oclient \<Rightarrow> oclient" where
  "ovacate c = c\<lparr>oc_fd := -1\<rparr>"

text \<open>The search that \<open>goto again\<close> repeats after the array has grown.\<close>

fun oclient_search :: "nat \<Rightarrow> int \<Rightarrow> int \<Rightarrow> (nat, opend) prog" where
  "oclient_search 0 fd uid = stop_with (Diverges ''client_add'')"
| "oclient_search (Suc n) fd uid =
     bnd (gets (\<lambda>s. find_slot oc_fd (-1) (d_client s))) (\<lambda>r. case r of
       Some i \<Rightarrow> bnd (modify (\<lambda>s. s\<lparr>d_client := (d_client s)[i := ooccupy fd uid (d_client s ! i)]\<rparr>)) (\<lambda>_. ret i)
     | None \<Rightarrow> bnd oclient_alloc (\<lambda>_. oclient_search n fd uid))"

definition oclient_add :: "int \<Rightarrow> int \<Rightarrow> (nat, opend) prog" where
  "oclient_add fd uid =
     bnd (gets d_client) (\<lambda>c.
     bnd (if c = [] then oclient_alloc else ret ()) (\<lambda>_. oclient_search 2 fd uid))"

definition oclient_del :: "int \<Rightarrow> (unit, opend) prog" where
  "oclient_del fd =
     bnd (gets (\<lambda>s. find_slot oc_fd fd (d_client s))) (\<lambda>r. case r of
       Some i \<Rightarrow> modify (\<lambda>s. s\<lparr>d_client := (d_client s)[i := ovacate (d_client s ! i)]\<rparr>)
     | None \<Rightarrow> log_quit (''can't find client entry for fd '' @ fmt_d fd))"

subsection \<open>One request\<close>

definition ocli_args :: "string list \<Rightarrow> (int, opend) prog" where
  "ocli_args argv =
     (if length argv \<noteq> 3 \<or> argv ! 0 \<noteq> CL_OPEN
      then bnd (modify (\<lambda>s. s\<lparr>d_errmsg := ''usage: <pathname> <oflag>'' @ [NL]\<rparr>)) (\<lambda>_. ret (-1))
      else bnd (modify (\<lambda>s. s\<lparr>d_pathname := argv ! 1, d_oflag := to_int32 (atol (argv ! 2))\<rparr>)) (\<lambda>_. ret 0))"

text \<open>\<open>sprintf\<close> into \<open>errmsg\<close>, which has \<open>MAXLINE\<close> bytes.\<close>

definition set_errmsg :: "string \<Rightarrow> (unit, opend) prog" where
  "set_errmsg m =
     (if length m < MAXLINE then modify (\<lambda>s. s\<lparr>d_errmsg := m\<rparr>) else stop_with (Undefined ''errmsg overflow''))"

definition osend_err :: "int \<Rightarrow> (unit, opend) prog" where
  "osend_err fd =
     bnd (gets (\<lambda>s. (d_junk s, d_errmsg s))) (\<lambda>(n0, m).
     bnd (send_err n0 fd (-1) m) (\<lambda>_. ret ()))"

text \<open>
  \<open>request\<close>: \<open>buf\<close> holds the \<open>nread\<close> bytes that were read. \<open>fatal\<close> is how the
  version ends when the descriptor cannot be sent (\<open>log_sys\<close> or \<open>err_sys\<close>), \<open>who\<close> the
  beginning of its message for a request without a final null byte. The code passes the client's flags
  to \<open>open\<close> without a mode, which C leaves undefined when they contain \<open>O_CREAT\<close>.
\<close>

definition orequest_with :: "(unit, opend) prog \<Rightarrow> string \<Rightarrow> string \<Rightarrow> int \<Rightarrow> (unit, opend) prog" where
  "orequest_with fatal who buf clifd =
     (if last buf \<noteq> NUL
      then bnd (set_errmsg (who @ ''not null terminated: '' @ pad (length buf) (cstr buf) @ [NL])) (\<lambda>_.
           osend_err clifd)
      else bnd (buf_args buf ocli_args) (\<lambda>r.
      if r < 0 then osend_err clifd
      else bnd (gets (\<lambda>s. (d_pathname s, d_oflag s))) (\<lambda>(path, oflag).
      if oflag AND O_CREAT \<noteq> 0 then stop_with (Undefined ''open without a mode'')
      else bnd (sys_open path oflag) (\<lambda>newfd.
      if newfd < 0
      then bnd (gets w_errno) (\<lambda>e.
           bnd (set_errmsg (''can't open '' @ path @ '': '' @ strerror e @ [NL])) (\<lambda>_. osend_err clifd))
      else bnd (send_fd clifd newfd) (\<lambda>r.
      if r < 0 then fatal
      else bnd (sys_close newfd) (\<lambda>_. ret ()))))))"

definition orequest :: "string \<Rightarrow> int \<Rightarrow> int \<Rightarrow> (unit, opend) prog" where
  "orequest buf clifd uid =
     orequest_with (log_sys ''send_fd error'') (''request from uid '' @ fmt_d uid @ '' '') buf clifd"

definition orequest_pipe :: "string \<Rightarrow> int \<Rightarrow> (unit, opend) prog" where
  "orequest_pipe buf fd = orequest_with (err_sys ''send_fd error'') ''request '' buf fd"

text \<open>
  \<^verbatim>\<open>open-server.c\<close>: requests arrive on standard input until the client closes the pipe. The
  loop takes one piece of input per round.
\<close>

fun open_server_loop :: "nat \<Rightarrow> (unit, opend) prog" where
  "open_server_loop 0 = stop_with (Diverges ''main'')"
| "open_server_loop (Suc n) =
     bnd (sock_read 0 MAXLINE) (\<lambda>r. case r of
       None \<Rightarrow> err_sys ''read error on stream pipe''
     | Some buf \<Rightarrow> if buf = [] then stop_with (Exit 0 [])
                  else bnd (orequest_pipe buf 1) (\<lambda>_. open_server_loop n))"

definition open_server_main :: "(unit, opend) prog" where
  "open_server_main = bnd (gets (\<lambda>s. Suc (length (concat (map p_bytes (s_in s 0)))))) open_server_loop"

subsection \<open>The loop\<close>

definition readable :: "'a opend_scheme \<Rightarrow> int \<Rightarrow> bool" where
  "readable s fd \<longleftrightarrow> (if fd = d_listen s then s_pending s \<noteq> [] else s_in s fd \<noteq> [] \<or> s_hup s fd)"

definition oselect :: "(int set, opend) prog" where
  "oselect = (\<lambda>s.
     let rset = Set.filter (\<lambda>fd. fd \<le> d_maxfd s \<and> readable s fd) (d_allset s) in
     if rset = {} then Halt (Blocked ''select'') s else Ok rset s)"

text \<open>\<open>FD_SET\<close> of a descriptor that does not fit into an \<open>fd_set\<close> writes outside of it.\<close>

definition FD_SETSIZE :: int where "FD_SETSIZE = 1024"

definition FD_SET :: "int \<Rightarrow> (unit, opend) prog" where
  "FD_SET fd =
     (if fd \<ge> FD_SETSIZE then stop_with (Undefined ''FD_SET'')
      else modify (\<lambda>s. s\<lparr>d_allset := insert fd (d_allset s)\<rparr>))"

definition oloop_init :: "(unit, opend) prog" where
  "oloop_init =
     bnd (serv_listen CS_OPEN) (\<lambda>listenfd.
     if listenfd < 0 then log_sys ''serv_listen error''
     else bnd (modify (\<lambda>s. s\<lparr>d_listen := listenfd, d_allset := {}\<rparr>)) (\<lambda>_.
     bnd (FD_SET listenfd) (\<lambda>_.
     modify (\<lambda>s. s\<lparr>d_maxfd := listenfd, d_maxi := -1\<rparr>))))"

definition oaccept :: "(unit, opend) prog" where
  "oaccept =
     bnd serv_accept (\<lambda>(clifd, uid).
     if clifd < 0 then log_sys (''serv_accept error: '' @ fmt_d clifd)
     else bnd (oclient_add clifd uid) (\<lambda>i.
     bnd (FD_SET clifd) (\<lambda>_.
     modify (\<lambda>s. s\<lparr>d_maxfd := max clifd (d_maxfd s), d_maxi := max (int i) (d_maxi s)\<rparr>))))"

definition oserve :: "int set \<Rightarrow> nat \<Rightarrow> (unit, opend) prog" where
  "oserve rset i =
     bnd (gets (\<lambda>s. d_client s ! i)) (\<lambda>c.
     let clifd = oc_fd c in
     if clifd < 0 \<or> clifd \<notin> rset then ret ()
     else bnd (sock_read clifd MAXLINE) (\<lambda>r. case r of
       None \<Rightarrow> log_sys (''read error on fd '' @ fmt_d clifd)
     | Some buf \<Rightarrow>
         if buf = []
         then bnd (oclient_del clifd) (\<lambda>_.
              bnd (modify (\<lambda>s. s\<lparr>d_allset := d_allset s - {clifd}\<rparr>)) (\<lambda>_.
              bnd (sys_close clifd) (\<lambda>_. ret ())))
         else orequest buf clifd (oc_uid c)))"

fun oserve_all :: "int set \<Rightarrow> nat list \<Rightarrow> (unit, opend) prog" where
  "oserve_all rset [] = ret ()"
| "oserve_all rset (i # ks) = bnd (oserve rset i) (\<lambda>_. oserve_all rset ks)"

text \<open>One round of the endless loop.\<close>

definition oloop_round :: "(unit, opend) prog" where
  "oloop_round =
     bnd oselect (\<lambda>rset.
     bnd (gets (\<lambda>s. (d_listen s, d_maxi s))) (\<lambda>(listenfd, maxi).
     if listenfd \<in> rset then oaccept
     else oserve_all rset [0..<nat (maxi + 1)]))"

subsection \<open>The loop with poll\<close>

text \<open>
  \<^verbatim>\<open>opend-poll.c\<close>: entry 0 of the array is the listening descriptor. \<open>poll\<close> sets
  \<open>revents\<close> of the entries up to \<open>maxi\<close> only; a later entry has what memory held.
\<close>

definition sizeof_pollfd :: nat where "sizeof_pollfd = 8"

definition opoll_init :: "(unit, opend) prog" where
  "opoll_init =
     bnd (gets w_maxfd) (\<lambda>open_max.
     bnd (sys_malloc (open_max * sizeof_pollfd)) (\<lambda>ok.
     if \<not> ok then err_sys ''malloc error''
     else bnd (serv_listen CS_OPEN) (\<lambda>listenfd.
     if listenfd < 0 then log_sys ''serv_listen error''
     else bnd (oclient_add listenfd 0) (\<lambda>_.
     modify (\<lambda>s. s\<lparr>d_listen := listenfd, d_pollfd := (d_pollfd s)(0 := listenfd), d_maxi := 0\<rparr>)))))"

definition opoll :: "(unit, opend) prog" where
  "opoll = (\<lambda>s.
     let rd = (\<lambda>i. 0 \<le> d_pollfd s i \<and> readable s (d_pollfd s i)) in
     if \<not> list_ex rd [0..<nat (d_maxi s + 1)] then Halt (Blocked ''poll'') s
     else Ok () (s\<lparr>d_revents := (\<lambda>i. if int i \<le> d_maxi s then rd i else d_revents s i)\<rparr>))"

definition opoll_serve :: "nat \<Rightarrow> (unit, opend) prog" where
  "opoll_serve i =
     bnd (gets (\<lambda>s. (d_client s ! i, d_revents s i))) (\<lambda>(c, pollin).
     let clifd = oc_fd c in
     if clifd < 0 \<or> \<not> pollin then ret ()
     else bnd (sock_read clifd MAXLINE) (\<lambda>r. case r of
       None \<Rightarrow> log_sys (''read error on fd '' @ fmt_d clifd)
     | Some buf \<Rightarrow>
         if buf = []
         then bnd (oclient_del clifd) (\<lambda>_.
              bnd (modify (\<lambda>s. s\<lparr>d_pollfd := (d_pollfd s)(i := -1)\<rparr>)) (\<lambda>_.
              bnd (sys_close clifd) (\<lambda>_. ret ())))
         else orequest buf clifd (oc_uid c)))"

fun opoll_serve_all :: "nat list \<Rightarrow> (unit, opend) prog" where
  "opoll_serve_all [] = ret ()"
| "opoll_serve_all (i # ks) = bnd (opoll_serve i) (\<lambda>_. opoll_serve_all ks)"

definition opoll_round :: "(unit, opend) prog" where
  "opoll_round =
     bnd opoll (\<lambda>_.
     bnd (gets (\<lambda>s. d_revents s 0)) (\<lambda>pollin.
     bnd (if pollin
          then bnd serv_accept (\<lambda>(clifd, uid).
               if clifd < 0 then log_sys (''serv_accept error: '' @ fmt_d clifd)
               else bnd (oclient_add clifd uid) (\<lambda>i.
               modify (\<lambda>s. s\<lparr>d_pollfd := (d_pollfd s)(i := clifd), d_maxi := max (int i) (d_maxi s)\<rparr>)))
          else ret ()) (\<lambda>_.
     bnd (gets d_maxi) (\<lambda>maxi. opoll_serve_all [1..<nat (maxi + 1)]))))"

subsection \<open>The client side\<close>

text \<open>
  \<open>csopen\<close> of \<^verbatim>\<open>open-daemon.c\<close>; \<open>csfd\<close> is its static descriptor, which it returns.
  The client's header \<^verbatim>\<open>open.h\<close> has a name of its own for the server.
\<close>

definition CS_OPEN_CLI :: string where "CS_OPEN_CLI = ''/home/philip/open''"

definition csopen_request :: "string \<Rightarrow> int \<Rightarrow> string" where
  "csopen_request name oflag = CL_OPEN @ '' '' @ name @ '' '' @ fmt_d oflag @ [NUL]"

definition csopen :: "int \<Rightarrow> string \<Rightarrow> int \<Rightarrow> (int \<times> int, 'a sock_scheme) prog" where
  "csopen csfd name oflag =
     bnd (if csfd < 0
          then bnd (cli_conn CS_OPEN_CLI) (\<lambda>fd. if fd < 0 then err_sys ''cli_conn error'' else ret fd)
          else ret csfd) (\<lambda>fd.
     if length (fmt_d oflag) + 2 > 10 then stop_with (Undefined ''buf overflow'')
     else bnd (sock_write fd (csopen_request name oflag)) (\<lambda>n.
     if n \<noteq> int (length (csopen_request name oflag)) then err_sys ''writev error''
     else bnd (recv_fd fd (sock_write 2)) (\<lambda>r. ret (fd, r))))"

end
