(* ===== verification/Sock_Props.thy ===== *)
theory Sock_Props
  imports Sock
begin

text \<open>
  What the routines over sockets promise: \<open>writen\<close> and \<open>readn\<close> hide how a stream is cut
  into pieces, \<open>recv_fd\<close> undoes \<open>send_fd\<close> and \<open>send_err\<close> whatever the pieces, and
  \<open>serv_accept\<close> believes only a recent, private socket name.
\<close>

abbreviation sent :: "'a sock_scheme \<Rightarrow> int \<Rightarrow> string" where
  "sent s fd \<equiv> concat (map p_bytes (s_out s fd))"

abbreviation arrived :: "'a sock_scheme \<Rightarrow> int \<Rightarrow> string" where
  "arrived s fd \<equiv> concat (map p_bytes (s_in s fd))"

lemma sock_put_sel [simp]:
  "s_out (sock_put fd p s) = (s_out s)(fd := s_out s fd @ [p])"
  "w_fds (sock_put fd p s) = w_fds s" "s_wr (sock_put fd p s) = s_wr s" "s_in (sock_put fd p s) = s_in s"
  "s_hup (sock_put fd p s) = s_hup s" "s_cmptr (sock_put fd p s) = s_cmptr s" "w_mem (sock_put fd p s) = w_mem s"
  "w_maxfd (sock_put fd p s) = w_maxfd s"
  by (simp_all add: sock_put_def)

subsection \<open>writen\<close>

text \<open>The bytes that were sent when a write returned \<open>r\<close>.\<close>

lemma sock_write_runs:
  assumes "w_fds s fd \<noteq> None" and "bs \<noteq> []"
  shows "runs (sock_write fd bs) s (\<lambda>r t. w_fds t = w_fds s \<and> r \<le> int (length bs) \<and>
    s_wr t = (s_wr s)(fd := tl (s_wr s fd)) \<and> (0 < r \<longleftrightarrow> s_wr s fd = [] \<or> hd (s_wr s fd) \<noteq> 0) \<and>
    sent t fd = sent s fd @ take (nat r) bs \<and> s_in t = s_in s \<and> s_hup t = s_hup s \<and>
    (\<forall>d. d \<noteq> fd \<longrightarrow> s_out t d = s_out s d))"
  using assms by (cases "s_wr s fd") (auto simp: runs_def sock_write_def fail_def Let_def fun_eq_iff min_def)

text \<open>
  \<open>writen\<close> returned \<open>r\<close>: either everything went out and \<open>r\<close> is the count, or a write
  failed and a proper prefix went out.
\<close>

definition wrote :: "'a sock_scheme \<Rightarrow> int \<Rightarrow> string \<Rightarrow> int \<Rightarrow> int \<Rightarrow> 'a sock_scheme \<Rightarrow> bool" where
  "wrote s fd bs n r t \<longleftrightarrow> (\<forall>d. d \<noteq> fd \<longrightarrow> s_out t d = s_out s d) \<and>
     (\<exists>m \<le> length bs. sent t fd = sent s fd @ take m bs \<and>
        (r \<le> 0 \<and> m < length bs \<and> 0 \<in> set (s_wr s fd) \<or> r = n \<and> m = length bs))"

lemma wrote_step:
  assumes "wrote t fd (drop j bs) n q u" and "sent t fd = sent s fd @ take j bs" and "j \<le> length bs"
    and "s_wr t fd = tl (s_wr s fd)" and "\<forall>d. d \<noteq> fd \<longrightarrow> s_out t d = s_out s d"
  shows "wrote s fd bs n q u"
proof -
  from assms(1) obtain m where m: "m \<le> length (drop j bs)" "sent u fd = sent t fd @ take m (drop j bs)"
      "q \<le> 0 \<and> m < length (drop j bs) \<and> 0 \<in> set (s_wr t fd) \<or> q = n \<and> m = length (drop j bs)"
    by (auto simp: wrote_def)
  have "0 \<in> set (s_wr s fd)" if "0 \<in> set (s_wr t fd)" using that assms(4) by (cases "s_wr s fd") auto
  with m assms show ?thesis
    unfolding wrote_def by (intro conjI exI[of _ "j + m"]) (auto simp: take_add)
qed

lemma writen_loop_runs:
  fixes s :: "'a sock_scheme"
  assumes "w_fds s fd \<noteq> None" and "length bs < k"
  shows "runs (writen_loop k n fd bs) s (wrote s fd bs n)"
  using assms
proof (induction k arbitrary: s bs)
  case (Suc k)
  show ?case
  proof (cases "bs = []")
    case False
    show ?thesis
      unfolding writen_loop.simps if_not_P[OF False]
    proof (rule runs_step[OF sock_write_runs[OF Suc.prems(1) False]], elim conjE)
      fix r and t :: "'a sock_scheme"
      assume t: "w_fds t = w_fds s" "r \<le> int (length bs)" "s_wr t = (s_wr s)(fd := tl (s_wr s fd))"
        "(0 < r) = (s_wr s fd = [] \<or> hd (s_wr s fd) \<noteq> 0)" "sent t fd = sent s fd @ take (nat r) bs"
        "\<forall>d. d \<noteq> fd \<longrightarrow> s_out t d = s_out s d"
      have "runs (writen_loop k n fd (drop (nat r) bs)) t (wrote s fd bs n)" if "0 < r"
        using Suc.prems t that False
        by (intro runs_conseq[OF Suc.IH] wrote_step[of t fd "nat r" bs]) auto
      moreover have "wrote s fd bs n r t" if "r \<le> 0"
        using that t False by (cases "s_wr s fd") (auto simp: wrote_def intro!: exI[of _ 0])
      ultimately show "runs (if r \<le> 0 then ret r else writen_loop k n fd (drop (nat r) bs)) t (wrote s fd bs n)"
        by (simp add: wp)
    qed
  qed (simp add: wp wrote_def)
qed simp

lemma writen_runs: "w_fds s fd \<noteq> None \<Longrightarrow> runs (writen fd bs) s (wrote s fd bs (int (length bs)))"
  unfolding writen_def by (rule writen_loop_runs) simp_all

subsection \<open>readn\<close>

lemma readn_loop_runs:
  assumes "w_fds s fd \<noteq> None" and "n < k" and "\<And>p. p \<in> set (s_in s fd) \<Longrightarrow> p_bytes p \<noteq> []"
    and "n \<le> length (arrived s fd) \<or> s_hup s fd"
  shows "runs (readn_loop k fd n got) s (\<lambda>r t. r = Some (got @ take n (arrived s fd)) \<and>
    arrived t fd = drop n (arrived s fd))"
  using assms
proof (induction k arbitrary: s n got)
  case (Suc k)
  show ?case
  proof (cases "n = 0 \<or> s_in s fd = []")
    case True
    then show ?thesis using Suc.prems by (auto simp: runs_def sock_read_def)
  next
    case False
    then obtain p ps where p: "s_in s fd = p # ps" "p_bytes p \<noteq> []" using Suc.prems(3) by (cases "s_in s fd") auto
    let ?rest = "if length (p_bytes p) \<le> n then ps else Pkt (drop n (p_bytes p)) None # ps"
    let ?t = "s\<lparr>s_in := (s_in s)(fd := ?rest)\<rparr>"
    have read: "sock_read fd n s = Ok (Some (take n (p_bytes p))) ?t"
      using Suc.prems(1) p by (simp add: sock_read_def)
    have lt: "n - length (take n (p_bytes p)) < k" using Suc.prems(2) p False by (cases "p_bytes p") auto
    have IH: "runs (readn_loop k fd (n - length (take n (p_bytes p))) (got @ take n (p_bytes p))) ?t
        (\<lambda>r u. r = Some ((got @ take n (p_bytes p)) @ take (n - length (take n (p_bytes p))) (arrived ?t fd)) \<and>
          arrived u fd = drop (n - length (take n (p_bytes p))) (arrived ?t fd))"
      by (rule Suc.IH[OF _ lt]) (use Suc.prems p False in \<open>auto split: if_splits\<close>)
    have "take n (p_bytes p) \<noteq> []" using p False by simp
    then have "readn_loop (Suc k) fd n got s = readn_loop k fd (n - length (take n (p_bytes p))) (got @ take n (p_bytes p)) ?t"
      using False read by simp
    moreover have "(got @ take n (p_bytes p)) @ take (n - length (take n (p_bytes p))) (arrived ?t fd) = got @ take n (arrived s fd)"
      "drop (n - length (take n (p_bytes p))) (arrived ?t fd) = drop n (arrived s fd)"
      using p by auto
    ultimately show ?thesis using IH by (simp only: runs_def)
  qed
qed simp

lemma readn_runs:
  assumes "w_fds s fd \<noteq> None" and "\<And>p. p \<in> set (s_in s fd) \<Longrightarrow> p_bytes p \<noteq> []"
    and "n \<le> length (arrived s fd) \<or> s_hup s fd"
  shows "runs (readn fd n) s (\<lambda>r t. r = Some (take n (arrived s fd)) \<and> arrived t fd = drop n (arrived s fd))"
  using readn_loop_runs[OF assms(1) lessI assms(2,3), of "[]"] by (simp add: readn_def)

subsection \<open>The trailer\<close>

lemma scan_none: "NUL \<notin> set b \<Longrightarrow> scan_trailer b = NoTrailer"
proof -
  assume "NUL \<notin> set b"
  then have "takeWhile (\<lambda>c. c \<noteq> NUL) b = b" by (intro takeWhile_all) auto
  then show ?thesis by (simp only: scan_trailer_def Let_def simp_thms if_True)
qed

lemma scan_trailer_at: "NUL \<notin> set b \<Longrightarrow> scan_trailer (b @ [NUL, c]) = Trailer b (of_char c)"
proof -
  assume "NUL \<notin> set b"
  then have "takeWhile (\<lambda>c. c \<noteq> NUL) (b @ [NUL, c]) = b" by (intro takeWhile_append_stop) auto
  then show ?thesis by (simp add: scan_trailer_def nth_append)
qed

lemma to_char_inv: "of_char (to_char x) = nat (x mod 256)"
  by (simp add: to_char_def)

subsection \<open>recv_fd\<close>

text \<open>A piece of the text that comes before the trailer.\<close>

definition text_piece :: "pkt \<Rightarrow> bool" where
  "text_piece p \<longleftrightarrow> p_bytes p \<noteq> [] \<and> NUL \<notin> set (p_bytes p) \<and> length (p_bytes p) \<le> MAXLINE \<and> p_file p = None"

text \<open>A process that can receive on \<open>sfd\<close> and print on descriptor 2.\<close>

definition can_recv :: "'a sock_scheme \<Rightarrow> int \<Rightarrow> bool" where
  "can_recv s sfd \<longleftrightarrow> w_fds s sfd \<noteq> None \<and> w_fds s 2 \<noteq> None \<and> sfd \<noteq> 2 \<and> s_wr s 2 = [] \<and> s_cmptr s"

lemma write_stderr: "can_recv s sfd \<Longrightarrow> b \<noteq> [] \<Longrightarrow>
    sock_write 2 b s = Ok (int (length b)) (sock_put 2 (Pkt b None) s)"
  by (auto simp: can_recv_def sock_write_def)

lemma recv_text:
  assumes "can_recv s sfd" and "s_in s sfd = p # ps" and "text_piece p"
  shows "recv_fd_loop (Suc k) sfd (sock_write 2) s =
    recv_fd_loop k sfd (sock_write 2) (sock_put 2 (Pkt (p_bytes p) None) (s\<lparr>s_in := (s_in s)(sfd := ps)\<rparr>))"
proof -
  let ?t = "s\<lparr>s_in := (s_in s)(sfd := ps)\<rparr>"
  have "cmptr_alloc s = Ok True s" using assms(1) by (simp add: can_recv_def cmptr_alloc_def)
  moreover have "recvmsg sfd MAXLINE s = Ok (Some (p_bytes p, None)) ?t"
    using assms by (simp add: recvmsg_def can_recv_def text_piece_def)
  moreover have "sock_write 2 (p_bytes p) ?t = Ok (int (length (p_bytes p))) (sock_put 2 (Pkt (p_bytes p) None) ?t)"
    using assms(1,3) by (intro write_stderr[of _ sfd]) (simp_all add: can_recv_def text_piece_def)
  ultimately show ?thesis
    using assms by (simp add: text_piece_def scan_none)
qed

definition got_trailer :: "'a sock_scheme \<Rightarrow> int \<Rightarrow> string \<Rightarrow> char \<Rightarrow> ofile option \<Rightarrow> pkt list \<Rightarrow> int \<Rightarrow> 'a sock_scheme \<Rightarrow> bool" where
  "got_trailer s sfd txt c fo rest r t \<longleftrightarrow>
     r = (if c = NUL then the (new_fd s) else - int (of_char c)) \<and> s_in t sfd = rest \<and>
     sent t 2 = sent s 2 @ txt \<and> (c = NUL \<longrightarrow> w_fds t r = fo)"

lemma recv_trailer:
  assumes "can_recv s sfd" and "s_in s sfd = Pkt (b @ [NUL, c]) fo # rest" and "NUL \<notin> set b"
    and "length b + 2 \<le> MAXLINE" and "if c = NUL then fo \<noteq> None \<and> new_fd s \<noteq> None else fo = None"
  shows "runs (recv_fd_loop (Suc k) sfd (sock_write 2)) s (got_trailer s sfd b c fo rest)"
proof -
  let ?t = "s\<lparr>s_in := (s_in s)(sfd := rest)\<rparr>"
  define u where "u = (if c = NUL then ?t\<lparr>w_fds := (w_fds s)(the (new_fd s) := fo)\<rparr> else ?t)"
  define st where "st = (of_char c :: nat)"
  define d where "d = (if c = NUL then new_fd s else None)"
  have 1: "cmptr_alloc s = Ok True s" using assms(1) by (simp add: can_recv_def cmptr_alloc_def)
  have 2: "recvmsg sfd MAXLINE s = Ok (Some (b @ [NUL, c], d)) u"
    using assms by (auto simp: recvmsg_def can_recv_def u_def d_def split: option.splits if_splits)
  have 3: "sock_write 2 b u = Ok (int (length b)) (sock_put 2 (Pkt b None) u)" if "b \<noteq> []"
    using assms(1,5) that by (intro write_stderr[of _ sfd]) (auto simp: can_recv_def u_def)
  have 4: "st = 0 \<longleftrightarrow> c = NUL" unfolding st_def using of_char_eq_iff[of c NUL, where 'a = nat] by simp
  have 5: "scan_trailer (b @ [NUL, c]) = Trailer b st" unfolding st_def using assms(3) by (rule scan_trailer_at)
  have 6: "\<not> (st = 0 \<and> d = None)" using 4 assms(5) by (auto simp: d_def)
  let ?r = "case d of Some x \<Rightarrow> if st = 0 then x else - int st | None \<Rightarrow> - int st"
  have 7: "?r = (if c = NUL then the (new_fd s) else - int st)"
    using 4 assms(5) by (auto simp: d_def split: option.splits if_splits)
  let ?v = "if b = [] then u else sock_put 2 (Pkt b None) u"
  have "recv_fd_loop (Suc k) sfd (sock_write 2) s = Ok ?r ?v"
    using 1 2 3 5 6 by (cases "b = []") simp_all
  moreover have "got_trailer s sfd b c fo rest ?r ?v"
    unfolding 7 using assms(1) by (simp add: got_trailer_def st_def u_def can_recv_def)
  ultimately show ?thesis by (simp add: runs_def)
qed

lemma recv_fd_loop_runs:
  fixes s :: "'a sock_scheme"
  assumes "can_recv s sfd" and "s_in s sfd = ps @ Pkt (b @ [NUL, c]) fo # rest"
    and "\<forall>p\<in>set ps. text_piece p" and "NUL \<notin> set b" and "length b + 2 \<le> MAXLINE" and "length ps < k"
    and "if c = NUL then fo \<noteq> None \<and> new_fd s \<noteq> None else fo = None"
  shows "runs (recv_fd_loop k sfd (sock_write 2)) s (got_trailer s sfd (concat (map p_bytes ps) @ b) c fo rest)"
  using assms
proof (induction ps arbitrary: s k)
  case Nil
  then obtain j where "k = Suc j" by (cases k) auto
  with recv_trailer[of s sfd b c fo rest] Nil.prems show ?case by simp
next
  case (Cons p ps)
  then obtain j where k: "k = Suc j" by (cases k) auto
  define t where "t = sock_put 2 (Pkt (p_bytes p) None) (s\<lparr>s_in := (s_in s)(sfd := ps @ Pkt (b @ [NUL, c]) fo # rest)\<rparr>)"
  have e: "recv_fd_loop k sfd (sock_write 2) s = recv_fd_loop j sfd (sock_write 2) t"
    unfolding k t_def using Cons.prems by (intro recv_text) simp_all
  have n: "new_fd t = new_fd s" by (simp add: t_def new_fd_def)
  have "can_recv t sfd" "s_in t sfd = ps @ Pkt (b @ [NUL, c]) fo # rest"
    using Cons.prems(1) by (simp_all add: t_def can_recv_def)
  moreover have tx: "sent t 2 = sent s 2 @ p_bytes p" by (simp add: t_def)
  ultimately have "runs (recv_fd_loop j sfd (sock_write 2)) t (got_trailer t sfd (concat (map p_bytes ps) @ b) c fo rest)"
    using Cons.prems k n by (intro Cons.IH) simp_all
  moreover have "got_trailer s sfd (concat (map p_bytes (p # ps)) @ b) c fo rest r u"
    if "got_trailer t sfd (concat (map p_bytes ps) @ b) c fo rest r u" for r u
    using that n tx by (auto simp: got_trailer_def)
  ultimately show ?case unfolding runs_def e by (auto split: res.splits)
qed

lemma recv_fd_runs:
  assumes "can_recv s sfd" and "s_in s sfd = ps @ Pkt (b @ [NUL, c]) fo # rest"
    and "\<forall>p\<in>set ps. text_piece p" and "NUL \<notin> set b" and "length b + 2 \<le> MAXLINE"
    and "if c = NUL then fo \<noteq> None \<and> new_fd s \<noteq> None else fo = None"
  shows "runs (recv_fd sfd (sock_write 2)) s (got_trailer s sfd (concat (map p_bytes ps) @ b) c fo rest)"
proof -
  have "length ps < Suc (length (s_in s sfd))" using assms(2) by simp
  from recv_fd_loop_runs[OF assms(1-5) this assms(6)] show ?thesis
    by (simp add: recv_fd_def wp)
qed

subsection \<open>send_fd and send_err\<close>

lemma sendmsg_ok:
  "w_fds s fd \<noteq> None \<Longrightarrow> sendmsg fd bs None s = Ok (int (length bs)) (sock_put fd (Pkt bs None) s)"
  "w_fds s fd \<noteq> None \<Longrightarrow> w_fds s d = Some f \<Longrightarrow>
     sendmsg fd bs (Some d) s = Ok (int (length bs)) (sock_put fd (Pkt bs (Some f)) s)"
  by (auto simp: sendmsg_def)

lemma malloc_enough: "n \<le> w_mem s \<Longrightarrow> sys_malloc n s = Ok True (s\<lparr>w_mem := w_mem s - n\<rparr>)"
  by (simp add: sys_malloc_def)

lemma send_fd_neg:
  assumes "fd < 0" and "w_fds s cfd \<noteq> None"
  shows "send_fd cfd fd s = Ok 0 (sock_put cfd (Pkt [NUL, if to_char (- fd) = NUL then CHR 0x01 else to_char (- fd)] None) s)"
  using assms by (simp add: send_fd_def sendmsg_ok Let_def)

lemma send_fd_pos:
  assumes "0 \<le> fd" and "w_fds s cfd \<noteq> None" and "w_fds s fd = Some f" and "s_cmptr s \<or> sizeof_cmsg \<le> w_mem s"
  shows "runs (send_fd cfd fd) s (\<lambda>r t. r = 0 \<and> s_out t = (s_out s)(cfd := s_out s cfd @ [Pkt [NUL, NUL] (Some f)]) \<and>
    w_fds t = w_fds s)"
proof -
  obtain t where "cmptr_alloc s = Ok True t" "w_fds t = w_fds s" "s_out t = s_out s"
    using assms(4) by (cases "s_cmptr s") (auto simp: cmptr_alloc_def malloc_enough)
  then show ?thesis using assms(1-3) by (simp add: send_fd_def sendmsg_ok runs_def)
qed

lemma mode_private:
  assumes "m AND (S_IRWXG OR S_IRWXO) = 0" and "m AND S_IRWXU = S_IRWXU"
  shows "m AND 0x1FF = S_IRWXU"
proof -
  have "(0x1FF :: int) = (S_IRWXG OR S_IRWXO) OR S_IRWXU" by (simp add: S_IRWXG_def S_IRWXO_def S_IRWXU_def)
  then have "m AND 0x1FF = (m AND (S_IRWXG OR S_IRWXO)) OR (m AND S_IRWXU)" by (simp only: bit.conj_disj_distrib)
  then show ?thesis using assms by simp
qed

subsection \<open>Concrete processes\<close>

definition a_file :: "string \<Rightarrow> ofile" where
  "a_file p = \<lparr>o_path = p, o_pos = 0, o_oflag = O_RDWR\<rparr>"

text \<open>
  A process with its standard error (2), a connection (4) whose writes the system cuts short,
  and an open file (5); a piece of text is waiting on the connection.
\<close>

definition sock0 :: sock where
  "sock0 = \<lparr>w_files = Map.empty, w_fds = [2 \<mapsto> a_file ''tty'', 4 \<mapsto> a_file [], 5 \<mapsto> a_file ''motd''], w_maxfd = 8,
     w_limit = 1000, w_denied = (\<lambda>_. False), w_locks = (\<lambda>_ _. None), w_others = [], w_mem = 10000, w_errno = E_OK,
     s_in = (\<lambda>_. [])(4 := [Pkt ''ab'' None, Pkt ''cde'' None]), s_hup = (\<lambda>_. False), s_out = (\<lambda>_. []),
     s_wr = (\<lambda>_. [])(4 := [2, 1]), s_pending = [''/var/tmp/00042''],
     s_names = [''/var/tmp/00042'' \<mapsto> \<lparr>u_path = ''/var/tmp/00042'', u_sock = True, u_mode = 0x1C0, u_uid = 7, u_time = 95\<rparr>],
     s_now = 100, s_pid = 42, s_cmptr = True\<rparr>"

subsection \<open>Properties\<close>

text \<open>
  C39. \<open>writen\<close> ends however the system cuts its writes: it returns the count and every byte
  has been sent in order, or a write failed and what was sent is a proper prefix.
\<close>

theorem writen_all_or_prefix:
  assumes "w_fds s fd \<noteq> None"
  shows "\<exists>r t m. writen fd bs s = Ok r t \<and> sent t fd = sent s fd @ take m bs \<and>
    (r = int (length bs) \<and> m = length bs \<or> r \<le> 0 \<and> m < length bs \<and> 0 \<in> set (s_wr s fd))"
  using writen_runs[OF assms, of bs] unfolding runs_iff wrote_def by blast

theorem writen_all_or_prefix_witness:
  "\<exists>t. writen 4 ''hello'' sock0 = Ok 5 t \<and> sent t 4 = ''hello''"
proof -
  obtain r t m where "writen 4 ''hello'' sock0 = Ok r t" "sent t 4 = sent sock0 4 @ take m ''hello''"
    "r = int (length ''hello'') \<and> m = length ''hello'' \<or> r \<le> 0 \<and> m < length ''hello'' \<and> 0 \<in> set (s_wr sock0 4)"
    using writen_all_or_prefix[of sock0 4 "''hello''"] by (auto simp: sock0_def)
  then show ?thesis by (auto simp: sock0_def)
qed

text \<open>
  \<open>readn\<close> returns the next \<open>n\<close> bytes of the stream whatever the pieces it arrives in
  (fewer only at the end of the stream) and leaves the rest.
\<close>

theorem readn_exact:
  assumes "w_fds s fd \<noteq> None" and "\<forall>p\<in>set (s_in s fd). p_bytes p \<noteq> []" and "n \<le> length (arrived s fd) \<or> s_hup s fd"
  shows "\<exists>t. readn fd n s = Ok (Some (take n (arrived s fd))) t \<and> arrived t fd = drop n (arrived s fd)"
  using readn_runs[OF assms(1) bspec[OF assms(2)] assms(3)] by (auto simp: runs_iff)

theorem readn_exact_witness: "\<exists>t. readn 4 3 sock0 = Ok (Some ''abc'') t \<and> arrived t 4 = ''de''"
  using readn_exact[of sock0 4 3] by (auto simp: sock0_def)

text \<open>
  C40. A descriptor that a server passes with \<open>send_fd\<close> arrives: after any text in any
  pieces, \<open>recv_fd\<close> returns a new descriptor for the same open file, and has written the text
  to standard error.
\<close>

theorem pass_descriptor:
  assumes "0 \<le> fd" and "w_fds s cfd \<noteq> None" and "w_fds s fd = Some f" and "s_cmptr s \<or> sizeof_cmsg \<le> w_mem s"
    and "can_recv c sfd" and "new_fd c = Some d" and "\<forall>p\<in>set ps. text_piece p"
    and "\<And>t. send_fd cfd fd s = Ok 0 t \<Longrightarrow> s_in c sfd = ps @ drop (length (s_out s cfd)) (s_out t cfd)"
  shows "\<exists>t c'. send_fd cfd fd s = Ok 0 t \<and> recv_fd sfd (sock_write 2) c = Ok d c' \<and> w_fds c' d = Some f \<and>
    s_in c' sfd = [] \<and> sent c' 2 = sent c 2 @ concat (map p_bytes ps)"
proof -
  obtain t where t: "send_fd cfd fd s = Ok 0 t" "s_out t = (s_out s)(cfd := s_out s cfd @ [Pkt [NUL, NUL] (Some f)])"
    using send_fd_pos[OF assms(1-4)] by (auto simp: runs_iff)
  then have "s_in c sfd = ps @ Pkt ([] @ [NUL, NUL]) (Some f) # []" using assms(8)[OF t(1)] by simp
  from recv_fd_runs[OF assms(5) this assms(7)] assms(6) t(1) show ?thesis
    by (auto simp: runs_iff got_trailer_def MAXLINE_def)
qed

theorem pass_descriptor_witness:
  "\<exists>t c'. send_fd 4 5 sock0 = Ok 0 t \<and>
     recv_fd 4 (sock_write 2) (sock0\<lparr>s_in := (\<lambda>_. [])(4 := [Pkt ''hi'' None, Pkt [NUL, NUL] (Some (a_file ''motd''))])\<rparr>) = Ok 0 c' \<and>
     w_fds c' 0 = Some (a_file ''motd'') \<and> sent c' 2 = ''hi''"
proof -
  let ?c = "sock0\<lparr>s_in := (\<lambda>_. [])(4 := [Pkt ''hi'' None, Pkt [NUL, NUL] (Some (a_file ''motd''))])\<rparr>"
  have snd: "send_fd 4 5 sock0 = Ok 0 t \<Longrightarrow> drop 0 (s_out t 4) = [Pkt [NUL, NUL] (Some (a_file ''motd''))]" for t
    using send_fd_pos[of 5 sock0 4 "a_file ''motd''"] by (auto simp: runs_iff sock0_def)
  have "new_fd ?c = Some 0" by (simp add: new_fd_def sock0_def upt_conv_Cons)
  then show ?thesis
    using pass_descriptor[of 5 sock0 4 "a_file ''motd''" ?c 4 0 "[Pkt ''hi'' None]"] snd
    by (auto simp: sock0_def can_recv_def text_piece_def MAXLINE_def)
qed

text \<open>
  An error code that a server reports with \<open>send_err\<close> arrives as its negative status
  (modulo 256, never 0); but the message is sent only when the uninitialised variable \<open>n\<close>
  happens to hold its length: otherwise the client sees no text.
\<close>

theorem pass_error:
  assumes "errcode < 0" and "w_fds s cfd \<noteq> None" and "n0 \<noteq> int (length msg)"
    and "can_recv c sfd" and "\<And>t. send_err n0 cfd errcode msg s = Ok 0 t \<Longrightarrow> s_in c sfd = drop (length (s_out s cfd)) (s_out t cfd)"
  shows "\<exists>t c'. send_err n0 cfd errcode msg s = Ok 0 t \<and> recv_fd sfd (sock_write 2) c =
      Ok (if (- errcode) mod 256 = 0 then -1 else - ((- errcode) mod 256)) c' \<and> sent c' 2 = sent c 2"
proof -
  let ?b = "if to_char (- errcode) = NUL then CHR 0x01 else to_char (- errcode)"
  have t: "send_err n0 cfd errcode msg s = Ok 0 (sock_put cfd (Pkt [NUL, ?b] None) s)"
    using assms(1-3) by (simp add: send_err_def send_fd_neg)
  then have i: "s_in c sfd = [] @ Pkt ([] @ [NUL, ?b]) None # []" using assms(5) by simp
  have z: "to_char x = NUL \<longleftrightarrow> x mod 256 = 0" for x
    using of_char_eq_iff[of "to_char x" NUL, where 'a = nat] by (simp add: to_char_inv) linarith
  have "?b \<noteq> NUL" by simp
  with recv_fd_runs[OF assms(4) i] obtain c' where "recv_fd sfd (sock_write 2) c = Ok (- int (of_char ?b)) c'" "sent c' 2 = sent c 2"
    by (auto simp: runs_iff got_trailer_def MAXLINE_def)
  moreover have "- int (of_char ?b) = (if (- errcode) mod 256 = 0 then -1 else - ((- errcode) mod 256))"
    using z[of "- errcode"] by (simp add: to_char_inv)
  ultimately show ?thesis using t by auto
qed

theorem pass_error_witness:
  "\<exists>t c'. send_err 0 4 (-1) ''no such file'' sock0 = Ok 0 t \<and>
     recv_fd 4 (sock_write 2) (sock0\<lparr>s_in := (\<lambda>_. [])(4 := [Pkt [NUL, CHR 0x01] None])\<rparr>) = Ok (-1) c' \<and> sent c' 2 = []"
proof -
  have "to_char 1 = CHR 0x01" by code_simp
  then have snd: "send_err 0 4 (-1) ''no such file'' sock0 = Ok 0 t \<Longrightarrow> s_out t 4 = [Pkt [NUL, CHR 0x01] None]" for t
    using send_fd_neg[of "-1" sock0 4] by (auto simp: send_err_def sock0_def sock_put_def)
  then show ?thesis
    using pass_error[of "-1" sock0 4 0 "''no such file''" "sock0\<lparr>s_in := (\<lambda>_. [])(4 := [Pkt [NUL, CHR 0x01] None])\<rparr>" 4]
    by (auto simp: sock0_def can_recv_def)
qed

text \<open>
  \<open>serv_accept\<close> reports a user ID only for a name that exists, is a socket with mode
  \<^verbatim>\<open>rwx------\<close> and is at most 30 seconds old, and the user ID is that of its owner; the name
  is then removed. On a refusal it returns a negative code, and the accepted descriptor stays
  open.
\<close>

theorem serv_accept_checks:
  assumes "s_pending s = a # as" and "new_fd s = Some fd" and "0 \<le> fd"
  shows "\<exists>r uid t. serv_accept s = Ok (r, uid) t \<and> w_fds t fd \<noteq> None \<and>
    (if 0 \<le> r
     then \<exists>u. s_names s a = Some u \<and> r = fd \<and> uid = u_uid u \<and> u_sock u \<and> u_mode u AND 0x1FF = S_IRWXU \<and>
            s_now s - STALE \<le> u_time u \<and> s_names t a = None
     else r = check_addr (s_now s) (s_names s a))"
proof -
  define t where "t = s\<lparr>s_pending := as, w_fds := (w_fds s)(fd \<mapsto> \<lparr>o_path = [], o_pos = 0, o_oflag = O_RDWR\<rparr>),
    s_in := (s_in s)(fd := []), s_out := (s_out s)(fd := []), s_hup := (s_hup s)(fd := False)\<rparr>"
  have acc: "sys_accept s = Ok (fd, a) t" using assms(1,2) by (simp add: sys_accept_def t_def)
  have t: "s_names t = s_names s" "s_now t = s_now s" "w_fds t fd \<noteq> None" by (simp_all add: t_def)
  show ?thesis
  proof (cases "check_addr (s_now s) (s_names s a) < 0")
    case True
    then show ?thesis using acc assms(3) t by (simp add: serv_accept_def)
  next
    case False
    then obtain u where u: "s_names s a = Some u" "u_sock u" "u_mode u AND (S_IRWXG OR S_IRWXO) = 0"
        "u_mode u AND S_IRWXU = S_IRWXU" "s_now s - STALE \<le> u_time u"
      by (auto simp: check_addr_def split: option.splits if_splits)
    have "u_mode u AND 0x1FF = S_IRWXU" using mode_private[OF u(3,4)] .
    then show ?thesis using acc assms(3) t u False by (simp add: serv_accept_def sys_unlink_def)
  qed
qed

theorem serv_accept_checks_witness: "\<exists>t. serv_accept sock0 = Ok (0, 7) t \<and> s_names t ''/var/tmp/00042'' = None"
proof -
  have "check_addr (s_now sock0) (s_names sock0 ''/var/tmp/00042'') = 0"
    by (simp add: sock0_def check_addr_def STALE_def S_IRWXU_def S_IRWXG_def S_IRWXO_def)
  then show ?thesis
    using serv_accept_checks[of sock0 "''/var/tmp/00042''" "[]" 0]
    by (auto simp: sock0_def new_fd_def upt_conv_Cons split: if_splits)
qed

end
