(* ===== verification/Opend_Props.thy ===== *)
theory Opend_Props
  imports Opend_Model Sock_Props
begin

text \<open>
  The open server: its tables stay consistent through every run, it answers only the client
  that asked, leaks no descriptor, and a request written by \<open>csopen\<close> means what it says.
\<close>

interpretation oslots: slot_table oc_fd ooccupy ovacate
  by unfold_locales (simp_all add: ooccupy_def ovacate_def)

subsection \<open>What a request leaves alone\<close>

definition ocore :: "opend \<Rightarrow> _" where
  "ocore s = (d_client s, d_allset s, d_maxi s, d_maxfd s, d_listen s, w_fds s)"

text \<open>A step that only sends on \<open>fd\<close>.\<close>

definition sends_on :: "int \<Rightarrow> opend \<Rightarrow> opend \<Rightarrow> bool" where
  "sends_on fd s t \<longleftrightarrow> ocore t = ocore s \<and> (\<forall>d. d \<noteq> fd \<longrightarrow> s_out t d = s_out s d) \<and> s_in t = s_in s"

lemma sends_on_refl [simp]: "sends_on fd s s"
  by (simp add: sends_on_def)

lemma sends_on_trans: "sends_on fd s t \<Longrightarrow> sends_on fd t u \<Longrightarrow> sends_on fd s u"
  by (simp add: sends_on_def)

lemma sends_on_field [simp]:
  "sends_on fd s (s\<lparr>d_errmsg := m\<rparr>)" "sends_on fd s (s\<lparr>w_errno := e\<rparr>)" "sends_on fd s (sock_put fd p s)"
  "sends_on fd s (s\<lparr>s_cmptr := b\<rparr>)" "sends_on fd s (s\<lparr>w_mem := n\<rparr>)" "sends_on fd s (s\<lparr>s_wr := w\<rparr>)"
  by (simp_all add: sends_on_def ocore_def sock_put_def)

lemma ens_sends_write: "ens (sock_write fd bs) s (\<lambda>_. sends_on fd s)"
  by (auto simp: ens_def sock_write_def fail_def Let_def sends_on_def ocore_def sock_put_def split: list.splits)

lemma ens_sends_msg: "ens (sendmsg fd bs d) s (\<lambda>_. sends_on fd s)"
  by (auto simp: ens_def sendmsg_def fail_def split: option.splits)

lemma ens_sends_cmptr: "ens cmptr_alloc s (\<lambda>_. sends_on fd s)"
  by (auto simp: ens_def cmptr_alloc_def sys_malloc_def bnd_apply sends_on_def ocore_def)

lemma ens_seq: "ens m s (\<lambda>_. sends_on fd s) \<Longrightarrow> (\<And>x t. ens (f x) t (\<lambda>_. sends_on fd t)) \<Longrightarrow>
    ens (bnd m f) s (\<lambda>_. sends_on fd s)"
  by (rule ens_step) (auto intro: ens_conseq sends_on_trans)

lemma ens_sends_basic: "ens (ret x) s (\<lambda>_. sends_on fd s)" "ens (gets g) s (\<lambda>_. sends_on fd s)"
  "ens (stop_with e) s (\<lambda>_. sends_on fd s)" "ens (modify (\<lambda>s. s\<lparr>d_errmsg := m\<rparr>)) s (\<lambda>_. sends_on fd s)"
  by (simp_all add: wlp)

lemma ens_sends_if: "ens m s (\<lambda>_. sends_on fd s) \<Longrightarrow> ens n s (\<lambda>_. sends_on fd s) \<Longrightarrow>
    ens (if b then m else n) s (\<lambda>_. sends_on fd s)"
  by simp

lemma ens_sends_prod: "(\<And>x y. ens (f x y) s (\<lambda>_. sends_on fd s)) \<Longrightarrow>
    ens (case p of (x, y) \<Rightarrow> f x y) s (\<lambda>_. sends_on fd s)"
  by (cases p) simp

lemmas sends_rules = ens_seq ens_sends_basic ens_sends_if ens_sends_prod ens_sends_write ens_sends_msg ens_sends_cmptr

lemma ens_sends_fd: "ens (send_fd fd d) s (\<lambda>_. sends_on fd s)"
  unfolding send_fd_def Let_def by (intro sends_rules)

lemma ens_sends_err: "ens (send_err n0 fd e m) s (\<lambda>_. sends_on fd s)"
  unfolding send_err_def by (intro sends_rules ens_sends_fd)

lemma ens_osend_err: "ens (osend_err fd) s (\<lambda>_. sends_on fd s)"
  unfolding osend_err_def by (intro sends_rules ens_sends_err)

lemma ens_set_errmsg: "ens (set_errmsg m) s (\<lambda>_. sends_on fd s)"
  unfolding set_errmsg_def by (intro sends_rules)

lemma ens_ocli_args: "ens (ocli_args argv) s (\<lambda>_. sends_on fd s)"
  by (auto simp: ocli_args_def wlp sends_on_def ocore_def)

lemma ens_buf_args: "ens (buf_args buf ocli_args) s (\<lambda>_. sends_on fd s)"
  unfolding buf_args_def by (auto split: option.split simp: wlp intro: ens_ocli_args)

lemma open_frame:
  assumes "sys_open p oflag s = Ok fd t"
  shows "d_client t = d_client s" "d_allset t = d_allset s" "d_maxi t = d_maxi s" "d_maxfd t = d_maxfd s"
    "d_listen t = d_listen s" "s_out t = s_out s" "s_in t = s_in s"
  using assms by (auto simp: sys_open_def fail_def Let_def split: option.splits if_splits)

lemma ens_open_block:
  assumes fatal: "\<And>t Q. ens fatal t Q" and err: "\<And>t. ens (err t) t (\<lambda>_. sends_on fd t)"
  shows "ens (bnd (sys_open path oflag) (\<lambda>newfd. if newfd < 0 then (\<lambda>t. err t t)
      else bnd (send_fd fd newfd) (\<lambda>r. if r < 0 then fatal else bnd (sys_close newfd) (\<lambda>_. ret ())))) s
    (\<lambda>_. sends_on fd s)"
proof (rule ens_step[OF ensI[of _ _ "\<lambda>d t. sys_open path oflag s = Ok d t"]], assumption)
  fix newfd t
  assume o: "sys_open path oflag s = Ok newfd t"
  note F = open_frame[OF o] and C = open_cases[OF o]
  have "ens (\<lambda>t. err t t) t (\<lambda>_. sends_on fd s)" if "newfd < 0"
  proof -
    have "sends_on fd s t" using C F that by (simp add: sends_on_def ocore_def)
    then show ?thesis using err[of t] by (auto simp: ens_def split: res.splits intro: sends_on_trans)
  qed
  moreover have "ens (bnd (send_fd fd newfd) (\<lambda>r. if r < 0 then fatal else bnd (sys_close newfd) (\<lambda>_. ret ()))) t
      (\<lambda>_. sends_on fd s)" if "0 \<le> newfd"
  proof (rule ens_step[OF ens_sends_fd])
    fix r u
    assume u: "sends_on fd t u"
    have "ens (sys_close newfd) u (\<lambda>_ v. sends_on fd s v)"
    proof (rule ensI)
      fix x v
      assume "sys_close newfd u = Ok x v"
      then show "sends_on fd s v"
        using u C F that by (auto simp: sys_close_def fail_def sends_on_def ocore_def fun_upd_idem split: option.splits)
    qed
    then show "ens (if r < 0 then fatal else bnd (sys_close newfd) (\<lambda>_. ret ())) u (\<lambda>_. sends_on fd s)"
      using fatal by (simp add: wlp)
  qed
  ultimately show "ens (if newfd < 0 then (\<lambda>t. err t t)
      else bnd (send_fd fd newfd) (\<lambda>r. if r < 0 then fatal else bnd (sys_close newfd) (\<lambda>_. ret ()))) t (\<lambda>_. sends_on fd s)"
    by simp
qed

lemma ens_orequest_with:
  assumes fatal: "\<And>t Q. ens fatal t Q"
  shows "ens (orequest_with fatal who buf fd) s (\<lambda>_. sends_on fd s)"
proof -
  have err: "ens (bnd (gets w_errno) (\<lambda>e. bnd (set_errmsg (m e)) (\<lambda>_. osend_err fd))) t (\<lambda>_. sends_on fd t)" for m t
    by (intro sends_rules ens_set_errmsg ens_osend_err)
  note blk = ens_open_block[of fatal "\<lambda>t. bnd (gets w_errno) (\<lambda>e. bnd (set_errmsg (m e)) (\<lambda>_. osend_err fd))" for m,
      OF fatal err]
  show ?thesis
    unfolding orequest_with_def
    by (intro sends_rules ens_set_errmsg ens_osend_err ens_buf_args blk)
qed

lemma ens_orequest: "ens (orequest buf fd uid) s (\<lambda>_. sends_on fd s)"
  unfolding orequest_def by (rule ens_orequest_with) (simp add: wlp)

subsection \<open>The invariant of the server\<close>

definition oinv :: "opend \<Rightarrow> bool" where
  "oinv s \<longleftrightarrow> one_slot oc_fd (d_client s) \<and> (\<forall>c\<in>set (d_client s). -1 \<le> oc_fd c) \<and>
     d_allset s = insert (d_listen s) (live_fds oc_fd (d_client s)) \<and> d_listen s \<notin> live_fds oc_fd (d_client s) \<and>
     0 \<le> d_listen s \<and> (\<forall>i<length (d_client s). oc_fd (d_client s ! i) \<noteq> -1 \<longrightarrow> int i \<le> d_maxi s) \<and>
     -1 \<le> d_maxi s \<and> d_maxi s < int (length (d_client s)) \<and>
     (\<forall>fd\<in>d_allset s. fd \<le> d_maxfd s \<and> w_fds s fd \<noteq> None)"

lemma oinv_core: "ocore t = ocore s \<Longrightarrow> oinv t = oinv s"
  by (simp add: ocore_def oinv_def)

lemma sends_inv: "sends_on fd s t \<Longrightarrow> oinv t = oinv s" "sends_on fd s t \<Longrightarrow> d_client t = d_client s"
  using oinv_core[of t s] by (simp_all add: sends_on_def ocore_def)

text \<open>A new client goes into a free entry, which exists after at most one \<open>client_alloc\<close>.\<close>

lemma oclient_alloc_ens:
  "ens oclient_alloc s (\<lambda>_ t. ocore t = (d_client s @ replicate NALLOC \<lparr>oc_fd = -1, oc_uid = d_uids s\<rparr>,
     d_allset s, d_maxi s, d_maxfd s, d_listen s, w_fds s))"
  by (auto simp: oclient_alloc_def ens_def bnd_apply sys_malloc_def ocore_def)

text \<open>The array before an entry is taken: as it was, or grown by free entries.\<close>

definition grown :: "oclient list \<Rightarrow> oclient list \<Rightarrow> bool" where
  "grown cs ds \<longleftrightarrow> (\<exists>es. ds = cs @ es \<and> (\<forall>e\<in>set es. oc_fd e = -1))"

definition oadded :: "opend \<Rightarrow> int \<Rightarrow> int \<Rightarrow> nat \<Rightarrow> opend \<Rightarrow> bool" where
  "oadded s fd uid i t \<longleftrightarrow> (\<exists>ds. grown (d_client s) ds \<and> find_slot oc_fd (-1) ds = Some i \<and>
     ocore t = (ds[i := ooccupy fd uid (ds ! i)], d_allset s, d_maxi s, d_maxfd s, d_listen s, w_fds s))"

lemma grown_refl [simp]: "grown cs cs"
  by (auto simp: grown_def)

lemma grown_more: "grown cs ds \<Longrightarrow> (\<And>e. e \<in> set es \<Longrightarrow> oc_fd e = -1) \<Longrightarrow> grown cs (ds @ es)"
  by (auto simp: grown_def)

lemma oclient_search_ens:
  assumes "grown cs (d_client s)" and "cs = d_client s0"
    and "ocore s = (d_client s, d_allset s0, d_maxi s0, d_maxfd s0, d_listen s0, w_fds s0)"
  shows "ens (oclient_search n fd uid) s (oadded s0 fd uid)"
  using assms
proof (induction n arbitrary: s)
  case (Suc n)
  show ?case
  proof (cases "find_slot oc_fd (-1) (d_client s)")
    case None
    have "ens (bnd oclient_alloc (\<lambda>_. oclient_search n fd uid)) s (oadded s0 fd uid)"
    proof (rule ens_step[OF oclient_alloc_ens])
      fix x t
      assume t: "ocore t = (d_client s @ replicate NALLOC \<lparr>oc_fd = -1, oc_uid = d_uids s\<rparr>,
        d_allset s, d_maxi s, d_maxfd s, d_listen s, w_fds s)"
      have "grown cs (d_client s @ replicate NALLOC \<lparr>oc_fd = -1, oc_uid = d_uids s\<rparr>)"
        by (rule grown_more[OF Suc.prems(1)]) simp
      then show "ens (oclient_search n fd uid) t (oadded s0 fd uid)"
        using t Suc.prems by (intro Suc.IH) (simp_all add: ocore_def)
    qed
    then show ?thesis unfolding oclient_search.simps ens_bnd ens_gets None by (simp add: ens_bnd)
  next
    case (Some i)
    then show ?thesis
      unfolding oclient_search.simps ens_bnd ens_gets Some using Suc.prems Some
      by (simp add: wlp oadded_def ocore_def) (intro exI[of _ "d_client s"], simp)
  qed
qed (simp add: wlp)

lemma oclient_add_ens: "ens (oclient_add fd uid) s (oadded s fd uid)"
proof -
  have "ens (oclient_search 2 fd uid) s (oadded s fd uid)"
    by (rule oclient_search_ens) (simp_all add: ocore_def)
  moreover have "ens (bnd oclient_alloc (\<lambda>_. oclient_search 2 fd uid)) s (oadded s fd uid)" if "d_client s = []"
    using that by (intro ens_step[OF oclient_alloc_ens] oclient_search_ens[of "[]"])
      (auto simp: ocore_def grown_def)
  ultimately show ?thesis by (simp add: oclient_add_def wlp)
qed

subsection \<open>Preservation\<close>

lemma accept_ens:
  "ens serv_accept s (\<lambda>(fd, uid) t. 0 \<le> fd \<longrightarrow> w_fds s fd = None \<and>
     ocore t = (d_client s, d_allset s, d_maxi s, d_maxfd s, d_listen s, (w_fds s)(fd \<mapsto> \<lparr>o_path = [], o_pos = 0, o_oflag = O_RDWR\<rparr>)))"
  by (auto simp: serv_accept_def sys_accept_def ens_def bnd_apply ocore_def sys_unlink_def new_fd_free
      split: list.splits option.splits prod.splits)

lemma oinv_added:
  assumes I: "oinv s" and A: "oadded s fd uid i t" and fd: "0 \<le> fd" "fd \<notin> d_allset s" "w_fds s fd \<noteq> None"
  shows "oinv (t\<lparr>d_allset := insert fd (d_allset t), d_maxfd := max fd (d_maxfd t), d_maxi := max (int i) (d_maxi t)\<rparr>)"
proof -
  obtain ds es where ds: "ds = d_client s @ es" "\<forall>e\<in>set es. oc_fd e = -1" "find_slot oc_fd (-1) ds = Some i"
      and t: "ocore t = (ds[i := ooccupy fd uid (ds ! i)], d_allset s, d_maxi s, d_maxfd s, d_listen s, w_fds s)"
    using A by (auto simp: oadded_def grown_def)
  note i = find_slot_Some[OF ds(3)]
  have live: "live_fds oc_fd ds = live_fds oc_fd (d_client s)"
    using ds(1,2) by (auto simp: live_fds_append) (auto simp: live_fds_def)
  have one: "one_slot oc_fd ds" using one_slot_append_free[of oc_fd "d_client s" es] I ds(1,2) by (simp add: oinv_def)
  have nin: "fd \<notin> live_fds oc_fd ds" "fd \<noteq> d_listen s" using fd(2) I live by (auto simp: oinv_def)
  have bound: "\<forall>j<length ds. oc_fd (ds ! j) \<noteq> -1 \<longrightarrow> int j \<le> d_maxi s"
    using I ds(1,2) by (auto simp: oinv_def nth_append)
  have lo: "\<forall>c\<in>set ds. -1 \<le> oc_fd c" using I ds(1,2) by (auto simp: oinv_def)
  have "\<forall>c\<in>set (ds[i := ooccupy fd uid (ds ! i)]). -1 \<le> oc_fd c"
    using lo fd(1) by (auto simp: ooccupy_def dest!: subsetD[OF set_update_subset_insert])
  moreover have "\<forall>j<length ds. oc_fd (ds[i := ooccupy fd uid (ds ! i)] ! j) \<noteq> -1 \<longrightarrow> int j \<le> max (int i) (d_maxi s)"
    using bound i by (auto simp: nth_list_update le_max_iff_disj)
  moreover have "max (int i) (d_maxi s) < int (length ds)" using i I ds(1) by (auto simp: oinv_def)
  ultimately show ?thesis
    using I t fd nin oslots.live_occupy[OF ds(3)] oslots.one_occupy[OF ds(3) nin(1) one] live
    by (auto simp: oinv_def ocore_def le_max_iff_disj)
qed

lemma oinv_open: "oinv s \<Longrightarrow> fd \<in> d_allset s \<Longrightarrow> w_fds s fd \<noteq> None"
  by (simp add: oinv_def)

lemma oadded_set_ens:
  assumes "oinv (u\<lparr>d_allset := insert fd (d_allset u), d_maxfd := max fd (d_maxfd u), d_maxi := max (int i) (d_maxi u)\<rparr>)"
  shows "ens (bnd (FD_SET fd) (\<lambda>_. modify (\<lambda>s. s\<lparr>d_maxfd := max fd (d_maxfd s), d_maxi := max (int i) (d_maxi s)\<rparr>))) u
    (\<lambda>_. oinv)"
  using assms by (simp add: FD_SET_def wlp)

lemma oaccept_ens: "oinv s \<Longrightarrow> ens oaccept s (\<lambda>_. oinv)"
  unfolding oaccept_def
proof (rule ens_step[OF accept_ens], clarify)
  fix fd uid t
  assume I: "oinv s" and t: "0 \<le> fd \<longrightarrow> w_fds s fd = None \<and> ocore t = (d_client s, d_allset s, d_maxi s, d_maxfd s,
    d_listen s, (w_fds s)(fd \<mapsto> \<lparr>o_path = [], o_pos = 0, o_oflag = O_RDWR\<rparr>))"
  have "ens (bnd (oclient_add fd uid) (\<lambda>i. bnd (FD_SET fd) (\<lambda>_. modify (\<lambda>s. s\<lparr>
      d_maxfd := max fd (d_maxfd s), d_maxi := max (int i) (d_maxi s)\<rparr>)))) t (\<lambda>_. oinv)" if "0 \<le> fd"
  proof (rule ens_step[OF oclient_add_ens], rule oadded_set_ens)
    fix i u
    assume "oadded t fd uid i u"
    moreover have nin: "fd \<notin> d_allset s" using oinv_open[OF I, of fd] t that by auto
    moreover have "oinv t" "fd \<notin> d_allset t" "w_fds t fd \<noteq> None"
      using I t that nin by (auto simp: oinv_def ocore_def)
    ultimately show "oinv (u\<lparr>d_allset := insert fd (d_allset u), d_maxfd := max fd (d_maxfd u), d_maxi := max (int i) (d_maxi u)\<rparr>)"
      using oinv_added that by simp
  qed
  then show "ens (if fd < 0 then log_sys (''serv_accept error: '' @ fmt_d fd)
      else bnd (oclient_add fd uid) (\<lambda>i. bnd (FD_SET fd) (\<lambda>_. modify (\<lambda>s. s\<lparr>
        d_maxfd := max fd (d_maxfd s), d_maxi := max (int i) (d_maxi s)\<rparr>)))) t (\<lambda>_. oinv)"
    by (simp add: wlp)
qed

lemma oread_ens: "ens (sock_read fd n) s (\<lambda>r t. ocore t = ocore s \<and> s_out t = s_out s)"
  by (auto simp: sock_read_def ens_def ocore_def Let_def split: list.splits)

text \<open>A client that hung up: its entry is freed, its bit cleared and its descriptor closed.\<close>

definition ogone :: "int \<Rightarrow> (unit, opend) prog" where
  "ogone fd = bnd (oclient_del fd) (\<lambda>_. bnd (modify (\<lambda>s. s\<lparr>d_allset := d_allset s - {fd}\<rparr>)) (\<lambda>_.
     bnd (sys_close fd) (\<lambda>_. ret ())))"

lemma ogone_ens:
  assumes I: "oinv s" and fd: "fd \<in> live_fds oc_fd (d_client s)"
  shows "ens (ogone fd) s (\<lambda>_ t. oinv t \<and> live_fds oc_fd (d_client t) = live_fds oc_fd (d_client s) - {fd} \<and> w_fds t fd = None)"
proof -
  obtain i where i: "find_slot oc_fd fd (d_client s) = Some i"
    using find_slot_in[of fd oc_fd "d_client s"] fd by (auto simp: live_fds_def)
  note F = find_slot_Some[OF i]
  have one: "one_slot oc_fd (d_client s)" using I by (simp add: oinv_def)
  let ?cs = "(d_client s)[i := ovacate (d_client s ! i)]"
  let ?t = "s\<lparr>d_client := ?cs, d_allset := d_allset s - {fd}\<rparr>"
  have "\<forall>c\<in>set ?cs. -1 \<le> oc_fd c"
    using I by (auto simp: oinv_def ovacate_def dest!: subsetD[OF set_update_subset_insert])
  moreover have "\<forall>j<length ?cs. oc_fd (?cs ! j) \<noteq> -1 \<longrightarrow> int j \<le> d_maxi s"
    using I F by (auto simp: oinv_def nth_list_update ovacate_def split: if_splits)
  moreover have "d_listen s \<noteq> fd" using I fd by (auto simp: oinv_def)
  ultimately have J: "oinv (?t\<lparr>w_fds := (w_fds s)(fd := None), w_locks := l\<rparr>)" for l
    using I oslots.live_vacate[OF i one] oslots.one_vacate[OF i one]
    by (auto simp: oinv_def)
  have "w_fds s fd \<noteq> None" using oinv_open[OF I, of fd] fd I by (auto simp: oinv_def)
  then obtain f where "w_fds s fd = Some f" by auto
  then have "ogone fd s = Ok () (?t\<lparr>w_fds := (w_fds s)(fd := None), w_locks := (w_locks s)(o_path f := (\<lambda>_. None))\<rparr>)"
    by (simp add: ogone_def oclient_del_def i sys_close_def)
  then show ?thesis using J oslots.live_vacate[OF i one] by (simp add: ens_def)
qed

lemma ogone_length: "ens (ogone fd) s (\<lambda>_ t. length (d_client t) = length (d_client s))"
  by (auto simp: ogone_def oclient_del_def ens_def bnd_apply sys_close_def fail_def split: option.splits)

lemma oserve_ens:
  assumes I: "oinv s" and i: "i < length (d_client s)"
  shows "ens (oserve rset i) s (\<lambda>_ t. oinv t \<and> length (d_client t) = length (d_client s))"
proof -
  let ?fd = "oc_fd (d_client s ! i)"
  have "ens (bnd (sock_read ?fd MAXLINE) (\<lambda>r. case r of None \<Rightarrow> log_sys (''read error on fd '' @ fmt_d ?fd)
      | Some buf \<Rightarrow> if buf = [] then ogone ?fd else orequest buf ?fd (oc_uid (d_client s ! i)))) s
      (\<lambda>_ t. oinv t \<and> length (d_client t) = length (d_client s))" if "\<not> ?fd < 0"
  proof (rule ens_step[OF oread_ens], elim conjE)
    fix r t
    assume t: "ocore t = ocore s"
    have It: "oinv t" "d_client t = d_client s" using I oinv_core[OF t] t by (simp_all add: ocore_def)
    have fd: "?fd \<in> live_fds oc_fd (d_client t)" using that i It(2) by (auto simp: live_fds_nth)
    have "ens (ogone ?fd) t (\<lambda>_ u. oinv u \<and> length (d_client u) = length (d_client s))"
      using ens_conseq[OF ogone_ens[OF It(1) fd], of "\<lambda>_. oinv"] ogone_length[of ?fd t] It(2) by (simp add: ens_conj)
    moreover have "ens (orequest buf ?fd u) t (\<lambda>_ u. oinv u \<and> length (d_client u) = length (d_client s))" for buf u
      by (rule ens_conseq[OF ens_orequest]) (use It sends_inv in auto)
    ultimately show "ens (case r of None \<Rightarrow> log_sys (''read error on fd '' @ fmt_d ?fd)
      | Some buf \<Rightarrow> if buf = [] then ogone ?fd else orequest buf ?fd (oc_uid (d_client s ! i))) t
      (\<lambda>_ t. oinv t \<and> length (d_client t) = length (d_client s))"
      by (auto simp: wlp split: option.split)
  qed
  then show ?thesis
    using I unfolding oserve_def ogone_def[symmetric] Let_def ens_bnd[of "gets _"] ens_gets
    by (cases "?fd < 0 \<or> ?fd \<notin> rset") (simp_all only: if_True if_False ens_ret de_Morgan_disj simp_thms)
qed

lemma oserve_all_ens:
  assumes "oinv s" and "\<forall>k\<in>set ks. k < length (d_client s)"
  shows "ens (oserve_all rset ks) s (\<lambda>_. oinv)"
  using assms
proof (induction ks arbitrary: s)
  case (Cons k ks)
  then have "k < length (d_client s)" by simp
  from oserve_ens[OF Cons.prems(1) this, of rset] show ?case
    unfolding oserve_all.simps by (rule ens_step) (use Cons in auto)
qed (simp add: wlp)

lemma oround_ens: "oinv s \<Longrightarrow> ens oloop_round s (\<lambda>_. oinv)"
proof -
  assume I: "oinv s"
  then have "ens (oserve_all r [0..<nat (d_maxi s + 1)]) s (\<lambda>_. oinv)" for r
    by (intro oserve_all_ens) (auto simp: oinv_def)
  then show ?thesis
    using oaccept_ens[OF I] by (auto simp: oloop_round_def oselect_def ens_def bnd_apply Let_def)
qed

subsection \<open>Runs of the server\<close>

text \<open>
  Between rounds clients connect (with whatever name they bound), send data in any pieces and
  hang up, and time passes.
\<close>

inductive ostep :: "opend \<Rightarrow> opend \<Rightarrow> bool" where
  round: "oloop_round s = Ok () t \<Longrightarrow> ostep s t"
| connect: "ostep s (s\<lparr>s_pending := s_pending s @ [a], s_names := n\<rparr>)"
| arrive: "ostep s (s\<lparr>s_in := (s_in s)(fd := s_in s fd @ [p])\<rparr>)"
| hangup: "ostep s (s\<lparr>s_hup := (s_hup s)(fd := True)\<rparr>)"
| tick: "0 \<le> d \<Longrightarrow> ostep s (s\<lparr>s_now := s_now s + d\<rparr>)"

inductive_cases ostepE: "ostep s t"

lemma ostep_inv: "ostep s t \<Longrightarrow> oinv s \<Longrightarrow> oinv t"
proof (induction rule: ostep.induct)
  case (round s t)
  then show ?case using ensD[OF oround_ens] by blast
qed (simp_all add: oinv_def)

lemma osteps_inv: "ostep\<^sup>*\<^sup>* s t \<Longrightarrow> oinv s \<Longrightarrow> oinv t"
  by (induction rule: rtranclp_induct) (auto intro: ostep_inv)

lemma oinit_inv:
  assumes "oloop_init s = Ok () t" and "d_client s = []"
  shows "oinv t"
  using assms new_fd_free[of s]
  by (auto simp: oloop_init_def FD_SET_def serv_listen_def sys_socket_def sys_unlink_def sys_bind_def fail_def bnd_eq_Ok
      oinv_def one_slot_def live_fds_def split: option.splits if_splits)

subsection \<open>The request that csopen writes\<close>

lemma word_ok_dec: "word_ok (dec n)"
proof -
  have "c \<notin> WHITE" if "c \<in> set (dec n)" for c
    using dec_isdigit[OF that] isdigit_not_space[of c] by (auto simp: WHITE_def isspace_def)
  then show ?thesis using length_dec_pos[of n] by (auto simp: word_ok_def)
qed

lemma csopen_args:
  assumes "word_ok name" and "0 \<le> oflag"
  shows "arg_vector (csopen_request name oflag) = Some [CL_OPEN, name, fmt_d oflag]"
proof -
  have "word_ok CL_OPEN" by (simp add: CL_OPEN_def word_ok_def is_cstr_def WHITE_def)
  moreover have "csopen_request name oflag = unwords (CL_OPEN # [name]) @ fmt_d oflag @ [NUL]"
    by (simp add: csopen_request_def unwords_def)
  ultimately show ?thesis
    using arg_vector_words[of CL_OPEN "[name]" "fmt_d oflag"] assms word_ok_dec[of "nat oflag"]
    by (simp add: MAXARGC_def fmt_d_nonneg)
qed

lemma csopen_parsed:
  assumes "word_ok name" and "0 \<le> oflag" and "oflag < 2 ^ 31"
  shows "buf_args (csopen_request name oflag) ocli_args s = Ok 0 (s\<lparr>d_pathname := name, d_oflag := oflag\<rparr>)"
  using csopen_args[OF assms(1,2)] assms
  by (simp add: buf_args_def ocli_args_def to_int32_id)

lemma orequest_ok:
  assumes "word_ok name" and "0 \<le> oflag" and "oflag < 2 ^ 31"
    and "new_fd s = Some d" and "\<not> w_denied s name" and "w_files s name \<noteq> None" and "oflag AND O_CREAT = 0" and "oflag AND O_DIRECTORY = 0"
    and "w_fds s clifd \<noteq> None" and "s_cmptr s"
  shows "runs (orequest (csopen_request name oflag) clifd uid) s (\<lambda>_ t. w_fds t = w_fds s \<and>
    s_out t = (s_out s)(clifd := s_out s clifd @ [Pkt [NUL, NUL] (Some \<lparr>o_path = name, o_pos = 0, o_oflag = oflag\<rparr>)]))"
proof -
  let ?f = "\<lparr>o_path = name, o_pos = 0, o_oflag = oflag\<rparr>"
  let ?s = "s\<lparr>d_pathname := name, d_oflag := oflag\<rparr>"
  let ?t = "?s\<lparr>w_files := (w_files s)(name \<mapsto> (if oflag AND O_TRUNC = 0 then file_bytes s name else [])),
    w_fds := (w_fds s)(d \<mapsto> ?f)\<rparr>"
  have d: "0 \<le> d" "w_fds s d = None" using new_fd_free[OF assms(4)] by simp_all
  have nf: "new_fd ?s = Some d" using assms(4) by (simp add: new_fd_def)
  have op: "sys_open name oflag ?s = Ok d ?t"
    using assms(5-8) nf by (auto simp: sys_open_def file_bytes_def open_error_def)
  have ne: "clifd \<noteq> d" using assms(9) d(2) by auto
  have "runs (send_fd clifd d) ?t (\<lambda>r u. r = 0 \<and> s_out u = (s_out ?t)(clifd := s_out ?t clifd @ [Pkt [NUL, NUL] (Some ?f)]) \<and>
      w_fds u = w_fds ?t)"
    using assms(9,10) d ne by (intro send_fd_pos) simp_all
  then obtain u where u: "send_fd clifd d ?t = Ok 0 u" "s_out u = (s_out s)(clifd := s_out s clifd @ [Pkt [NUL, NUL] (Some ?f)])"
      "w_fds u = (w_fds s)(d \<mapsto> ?f)" by (auto simp: runs_iff)
  have "last (csopen_request name oflag) = NUL" by (simp add: csopen_request_def)
  then have "orequest (csopen_request name oflag) clifd uid s = bnd (sys_close d) (\<lambda>_. ret ()) u"
    using csopen_parsed[OF assms(1-3), of s] op u(1) d assms(7) by (simp add: orequest_def orequest_with_def)
  then show ?thesis using u d by (simp add: runs_def sys_close_def fun_upd_idem)
qed

subsection \<open>A concrete server\<close>

definition opend0 :: opend where
  "opend0 = \<lparr>w_files = [''motd'' \<mapsto> ''hello''], w_fds = Map.empty, w_maxfd = 8, w_limit = 1000,
     w_denied = (\<lambda>_. False), w_locks = (\<lambda>_ _. None), w_others = [], w_mem = 10000, w_errno = E_OK,
     s_in = (\<lambda>_. []), s_hup = (\<lambda>_. False), s_out = (\<lambda>_. []), s_wr = (\<lambda>_. []), s_pending = [],
     s_names = Map.empty, s_now = 100, s_pid = 42, s_cmptr = True, d_client = [], d_errmsg = [], d_oflag = 0,
     d_pathname = [], d_allset = {}, d_maxfd = -1, d_maxi = -1, d_listen = -1, d_pollfd = (\<lambda>_. -1),
     d_revents = (\<lambda>_. False), d_junk = 0, d_uids = 0\<rparr>"

abbreviation opend1 :: opend where
  "opend1 \<equiv> opend0\<lparr>w_fds := [0 \<mapsto> a_file [], 1 \<mapsto> a_file []]\<rparr>"

lemma opend0_init: "\<exists>t. oloop_init opend0 = Ok () t"
  by (simp add: oloop_init_def FD_SET_def FD_SETSIZE_def serv_listen_def sys_socket_def sys_unlink_def sys_bind_def opend0_def new_fd_def
      upt_conv_Cons bnd_apply)

lemma word_motd: "word_ok ''motd''"
  by (simp add: word_ok_def is_cstr_def WHITE_def)

subsection \<open>Properties\<close>

text \<open>
  C25. In every run of the open server, whatever its clients send and in whatever pieces, no
  descriptor is in two entries of \<open>client[]\<close>, the select set is exactly the listening
  descriptor and the descriptors of the entries, every entry in use is below \<open>maxi\<close> and every
  descriptor of the set is open and at most \<open>maxfd\<close>.
\<close>

theorem opend_invariant:
  assumes "oloop_init s0 = Ok () s" and "d_client s0 = []" and "ostep\<^sup>*\<^sup>* s t"
  shows "oinv t"
  using osteps_inv[OF assms(3) oinit_inv[OF assms(1,2)]] .

theorem opend_invariant_witness:
  "\<exists>s. oloop_init opend0 = Ok () s \<and> oinv (s\<lparr>s_hup := (s_hup s)(5 := True)\<rparr>)"
proof -
  obtain s where s: "oloop_init opend0 = Ok () s" using opend0_init by blast
  have "ostep\<^sup>*\<^sup>* s (s\<lparr>s_hup := (s_hup s)(5 := True)\<rparr>)" by (rule r_into_rtranclp) (rule ostep.hangup)
  from opend_invariant[OF s _ this] s show ?thesis by (auto simp: opend0_def)
qed

text \<open>
  C26. A request, valid or not, is answered on the connection it came from and nowhere else,
  and leaves the client array, the select set and the descriptor table of the server as they
  were: the file it opened for the client is closed again.
\<close>

theorem opend_request_isolated:
  assumes "orequest buf clifd uid s = Ok () t"
  shows "(\<forall>d. d \<noteq> clifd \<longrightarrow> s_out t d = s_out s d) \<and> w_fds t = w_fds s \<and> d_client t = d_client s \<and>
    d_allset t = d_allset s"
  using ensD[OF ens_orequest assms] by (simp add: sends_on_def ocore_def)

theorem opend_request_isolated_witness:
  "\<exists>t. orequest (csopen_request ''motd'' 0) 1 7 opend1 = Ok () t \<and> w_fds t = w_fds opend1"
proof -
  have "\<exists>t. orequest (csopen_request ''motd'' 0) 1 7 opend1 = Ok () t"
    using orequest_ok[of "''motd''" 0 opend1 2 1 7] word_motd
    by (auto simp: runs_iff opend0_def new_fd_def upt_conv_Cons)
  then show ?thesis using opend_request_isolated by blast
qed

text \<open>
  The buffer that \<open>csopen\<close> writes is the request that \<open>cli_args\<close> understands: the path
  and the flags come back, for a path without white space and a flag that fits an \<open>int\<close>.
\<close>

theorem csopen_roundtrip:
  assumes "word_ok name" and "0 \<le> oflag" and "oflag < 2 ^ 31"
  shows "buf_args (csopen_request name oflag) ocli_args s = Ok 0 (s\<lparr>d_pathname := name, d_oflag := oflag\<rparr>)"
  by (rule csopen_parsed[OF assms])

theorem csopen_roundtrip_witness:
  "buf_args (csopen_request ''motd'' 2) ocli_args opend0 = Ok 0 (opend0\<lparr>d_pathname := ''motd'', d_oflag := 2\<rparr>)"
  using csopen_roundtrip[OF word_motd, of 2 opend0] by simp

text \<open>
  The flags of a request that opens a file as it is: an access mode, perhaps with \<open>O_TRUNC\<close>,
  \<open>O_APPEND\<close> and \<open>O_NONBLOCK\<close>.
\<close>

definition plain_flags :: "int \<Rightarrow> bool" where
  "plain_flags oflag \<longleftrightarrow> (\<exists>m\<in>{O_RDONLY, O_WRONLY, O_RDWR}. \<exists>t\<in>{0, O_TRUNC}. \<exists>a\<in>{0, O_APPEND}.
     \<exists>n\<in>{0, O_NONBLOCK}. oflag = m OR t OR a OR n)"

lemma plain_flagsD:
  assumes "plain_flags oflag"
  shows "0 \<le> oflag" "oflag < 2 ^ 31" "oflag AND O_CREAT = 0" "oflag AND O_DIRECTORY = 0"
  using assms by (auto simp: plain_flags_def oflag_defs)

text \<open>With \<open>O_CREAT\<close> the server calls \<open>open\<close> without the mode it needs.\<close>

lemma orequest_creat:
  assumes "word_ok name" and "0 \<le> oflag" and "oflag < 2 ^ 31" and "oflag AND O_CREAT \<noteq> 0"
  shows "\<exists>t. orequest (csopen_request name oflag) clifd uid s = Halt (Undefined ''open without a mode'') t"
proof -
  have "last (csopen_request name oflag) = NUL" by (simp add: csopen_request_def)
  then show ?thesis
    using csopen_parsed[OF assms(1-3), of s] assms(4) by (simp add: orequest_def orequest_with_def)
qed

text \<open>
  C27. End to end: when the server handles the request that \<open>csopen\<close> wrote for an existing file it may
  open, with an access mode and any of \<open>O_TRUNC\<close>, \<open>O_APPEND\<close> and \<open>O_NONBLOCK\<close>, what it sends
  makes \<open>recv_fd\<close> in the client return a descriptor for that file, at offset 0 and with the flags asked
  for. Requests with \<open>O_CREAT\<close> are left out, as the server passes no mode (\<open>orequest_creat\<close>), and so
  are flags such as \<open>O_EXCL\<close> and \<open>O_DIRECTORY\<close> that make \<open>open\<close> fail or do something else.
\<close>

theorem open_service:
  assumes "word_ok name" and "plain_flags oflag" and "new_fd s = Some d" and "\<not> w_denied s name"
    and "w_files s name \<noteq> None" and "w_fds s clifd \<noteq> None" and "s_cmptr s"
    and "can_recv c sfd" and "new_fd c = Some d'"
    and "\<And>t. orequest (csopen_request name oflag) clifd uid s = Ok () t \<Longrightarrow>
      s_in c sfd = drop (length (s_out s clifd)) (s_out t clifd)"
  shows "\<exists>t c'. orequest (csopen_request name oflag) clifd uid s = Ok () t \<and> recv_fd sfd (sock_write 2) c = Ok d' c' \<and>
    w_fds c' d' = Some \<lparr>o_path = name, o_pos = 0, o_oflag = oflag\<rparr>"
proof -
  note F = plain_flagsD[OF assms(2)]
  obtain t where t: "orequest (csopen_request name oflag) clifd uid s = Ok () t"
      "s_out t = (s_out s)(clifd := s_out s clifd @ [Pkt [NUL, NUL] (Some \<lparr>o_path = name, o_pos = 0, o_oflag = oflag\<rparr>)])"
    using orequest_ok[OF assms(1) F(1,2) assms(3-5) F(3,4) assms(6,7), of uid] by (auto simp: runs_iff)
  then have "s_in c sfd = [] @ Pkt ([] @ [NUL, NUL]) (Some \<lparr>o_path = name, o_pos = 0, o_oflag = oflag\<rparr>) # []"
    using assms(10)[OF t(1)] by simp
  from recv_fd_runs[OF assms(8) this] t(1) assms(9) show ?thesis
    by (auto simp: runs_iff got_trailer_def MAXLINE_def)
qed

lemma plain_rdonly: "plain_flags 0"
  by (auto simp: plain_flags_def oflag_defs)

theorem open_service_witness:
  "\<exists>t c'. orequest (csopen_request ''motd'' 0) 1 7 opend1 = Ok () t \<and>
     recv_fd 4 (sock_write 2) (sock0\<lparr>s_in := (\<lambda>_. [])(4 := [Pkt [NUL, NUL] (Some \<lparr>o_path = ''motd'', o_pos = 0, o_oflag = 0\<rparr>)])\<rparr>) = Ok 0 c' \<and>
     w_fds c' 0 = Some \<lparr>o_path = ''motd'', o_pos = 0, o_oflag = 0\<rparr>"
proof -
  let ?c = "sock0\<lparr>s_in := (\<lambda>_. [])(4 := [Pkt [NUL, NUL] (Some \<lparr>o_path = ''motd'', o_pos = 0, o_oflag = 0\<rparr>)])\<rparr>"
  have fd: "new_fd opend1 = Some 2" "new_fd ?c = Some 0"
    by (simp_all add: opend0_def sock0_def new_fd_def upt_conv_Cons)
  have "s_in ?c 4 = drop (length (s_out opend1 1)) (s_out t 1)" if "orequest (csopen_request ''motd'' 0) 1 7 opend1 = Ok () t" for t
    using orequest_ok[of "''motd''" 0 opend1 2 1 7] word_motd fd(1) that by (auto simp: runs_iff opend0_def)
  then show ?thesis
    using open_service[of "''motd''" 0 opend1 2 1 ?c 4 0 7] word_motd fd plain_rdonly
    by (auto simp: opend0_def sock0_def can_recv_def)
qed

text \<open>
  The client of \<^verbatim>\<open>open-daemon.c\<close> looks for the server under the name of its own header:
  where only the name that the server binds exists, \<open>csopen\<close> exits with "cli_conn error".
\<close>

theorem csopen_wrong_name:
  assumes "csfd < 0" and "new_fd s = Some fd" and "s_names s = [CS_OPEN \<mapsto> u]"
    and "length (fmt_05d (s_pid s)) = 5" and "\<not> w_denied s (CLI_PATH @ fmt_05d (s_pid s))"
  shows "\<exists>t. csopen csfd name oflag s = Halt (Exit 1 ''cli_conn error'') t"
proof -
  define P where "P = CLI_PATH @ fmt_05d (s_pid s)"
  have P: "CLI_PATH @ fmt_05d (s_pid s) = P" "length P = 14" "\<not> w_denied s P"
    using assms(4,5) by (simp_all add: P_def CLI_PATH_def)
  have ne: "CS_OPEN_CLI \<noteq> CS_OPEN" "CS_OPEN_CLI \<noteq> P" by (simp_all add: CS_OPEN_def CS_OPEN_CLI_def P_def CLI_PATH_def)
  define t where "t = s\<lparr>w_fds := (w_fds s)(fd \<mapsto> \<lparr>o_path = [], o_pos = 0, o_oflag = O_RDWR\<rparr>)\<rparr>"
  define t2 where "t2 = t\<lparr>s_names := (s_names s)(P := None)\<rparr>"
  define v where "v = \<lparr>u_path = P, u_sock = True, u_mode = 0x1ED, u_uid = 0, u_time = s_now t2\<rparr>"
  define t3 where "t3 = t2\<lparr>s_names := (s_names t2)(P \<mapsto> v)\<rparr>"
  define t4 where "t4 = t3\<lparr>s_names := (s_names t3)(P \<mapsto> v\<lparr>u_mode := S_IRWXU\<rparr>)\<rparr>"
  have "sys_socket s = Ok fd t" using assms(2) by (simp add: sys_socket_def t_def)
  moreover have "sys_unlink P t = Ok 0 t2" by (simp add: sys_unlink_def t2_def t_def)
  moreover have "sys_bind fd P t2 = Ok 0 t3" using P(3) by (simp add: sys_bind_def t3_def v_def) (simp add: t2_def t_def)
  moreover have "sys_chmod P S_IRWXU t3 = Ok 0 t4" by (simp add: sys_chmod_def t4_def) (simp add: t3_def)
  moreover have "s_names t4 CS_OPEN_CLI = None" using assms(3) ne by (simp add: t4_def t3_def t2_def)
  then have "sys_connect fd CS_OPEN_CLI t4 = Ok (-1) (t4\<lparr>w_errno := ENOENT\<rparr>)" by (simp add: sys_connect_def fail_def)
  moreover have "s_pid t = s_pid s" by (simp add: t_def)
  ultimately have "cli_conn CS_OPEN_CLI s = Ok (-4) (t4\<lparr>w_errno := ENOENT\<rparr>)"
    using P(1,2) new_fd_free(1)[OF assms(2)] by (simp add: cli_conn_def)
  then show ?thesis using assms(1) by (auto simp: csopen_def bnd_apply)
qed

theorem csopen_wrong_name_witness:
  "\<exists>t. csopen (-1) ''motd'' 0 (sock0\<lparr>s_names := [CS_OPEN \<mapsto>
     \<lparr>u_path = CS_OPEN, u_sock = True, u_mode = 0, u_uid = 0, u_time = 0\<rparr>]\<rparr>) = Halt (Exit 1 ''cli_conn error'') t"
proof -
  let ?s = "sock0\<lparr>s_names := [CS_OPEN \<mapsto> \<lparr>u_path = CS_OPEN, u_sock = True, u_mode = 0, u_uid = 0, u_time = 0\<rparr>]\<rparr>"
  have "new_fd ?s = Some 0" by (simp add: sock0_def new_fd_def upt_conv_Cons)
  moreover have "length (fmt_05d 42) = 5" by code_simp
  ultimately show ?thesis using csopen_wrong_name[of "-1" ?s 0] by (auto simp: sock0_def)
qed

end
