(* ===== verification/Term.thy ===== *)
theory Term
  imports Sock
begin

text \<open>
  Terminals: \<^verbatim>\<open>term-func.c\<close> (\<open>isatty\<close>, \<open>ttyname\<close>, \<open>getpass\<close>, and the routines that
  put a terminal into cbreak or raw mode and back) and \<^verbatim>\<open>file-func.c\<close>.

  A terminal is known by its path name: \<open>y_term\<close> gives the attributes of those that are
  terminals. Of the input waiting on a descriptor (\<open>s_in\<close>), the first \<open>y_queued\<close> pieces
  have arrived, which is what a flush of the input queue discards. \<open>y_devdir\<close> is the
  directory \<^verbatim>\<open>/dev\<close>, \<open>y_stat\<close> and \<open>y_fstat\<close> the inode and device numbers.
\<close>

record termios =
  t_cflag :: int
  t_oflag :: int
  t_iflag :: int
  t_lflag :: int
  t_vmin :: int
  t_vtime :: int
  t_veof :: char
  t_vsusp :: char
  t_speed :: int

datatype ttystate = RESET | RAW | CBREAK

record tty = sock +
  y_term :: "string \<Rightarrow> termios option"
  y_queued :: "int \<Rightarrow> nat"
  y_save :: termios
  y_savefd :: int
  y_state :: ttystate
  y_mask :: "int set"
  y_devdir :: "(string \<times> nat) list option"
  y_stat :: "string \<Rightarrow> (nat \<times> nat) option"
  y_fstat :: "int \<Rightarrow> (nat \<times> nat \<times> bool) option"

definition CSIZE :: int where "CSIZE = 0x30"
definition CS7 :: int where "CS7 = 0x20"
definition CS8 :: int where "CS8 = 0x30"
definition CREAD :: int where "CREAD = 0x80"
definition PARENB :: int where "PARENB = 0x100"
definition PARODD :: int where "PARODD = 0x200"
definition HUPCL :: int where "HUPCL = 0x400"
definition CLOCAL :: int where "CLOCAL = 0x800"
definition IGNBRK :: int where "IGNBRK = 0x1"
definition BRKINT :: int where "BRKINT = 0x2"
definition IGNPAR :: int where "IGNPAR = 0x4"
definition INPCK :: int where "INPCK = 0x10"
definition ISTRIP :: int where "ISTRIP = 0x20"
definition IGNCR :: int where "IGNCR = 0x80"
definition ICRNL :: int where "ICRNL = 0x100"
definition IXON :: int where "IXON = 0x400"
definition IXOFF :: int where "IXOFF = 0x1000"
definition OPOST :: int where "OPOST = 0x1"
definition ONLCR :: int where "ONLCR = 0x4"
definition ISIG :: int where "ISIG = 0x1"
definition ICANON :: int where "ICANON = 0x2"
definition ECHO :: int where "ECHO = 0x8"
definition ECHOE :: int where "ECHOE = 0x10"
definition ECHOK :: int where "ECHOK = 0x20"
definition ECHONL :: int where "ECHONL = 0x40"
definition IEXTEN :: int where "IEXTEN = 0x8000"

lemmas termios_defs = CSIZE_def CS7_def CS8_def CREAD_def PARENB_def PARODD_def HUPCL_def CLOCAL_def IGNBRK_def
  BRKINT_def IGNPAR_def INPCK_def ISTRIP_def IGNCR_def ICRNL_def IXON_def IXOFF_def OPOST_def ONLCR_def ISIG_def
  ICANON_def ECHO_def ECHOE_def ECHOK_def ECHONL_def IEXTEN_def

definition SIGINT :: int where "SIGINT = 2"
definition SIGTSTP :: int where "SIGTSTP = 20"

definition tcgetattr :: "int \<Rightarrow> 'a tty_scheme \<Rightarrow> termios option" where
  "tcgetattr fd s = (case w_fds s fd of None \<Rightarrow> None | Some f \<Rightarrow> y_term s (o_path f))"

text \<open>\<open>tcflush(fd, TCIOFLUSH)\<close>: the input that has arrived is lost.\<close>

definition flush_input :: "int \<Rightarrow> 'a tty_scheme \<Rightarrow> 'a tty_scheme" where
  "flush_input fd s =
     s\<lparr>s_in := (s_in s)(fd := drop (y_queued s fd) (s_in s fd)), y_queued := (y_queued s)(fd := 0)\<rparr>"

definition set_term :: "int \<Rightarrow> termios \<Rightarrow> 'a tty_scheme \<Rightarrow> 'a tty_scheme" where
  "set_term fd t s = s\<lparr>y_term := (y_term s)(fd_path s fd \<mapsto> t)\<rparr>"

definition tcsetattr :: "int \<Rightarrow> bool \<Rightarrow> termios \<Rightarrow> (int, 'a tty_scheme) prog" where
  "tcsetattr fd flush t = (\<lambda>s. case tcgetattr fd s of
     None \<Rightarrow> fail EBADF s
   | Some _ \<Rightarrow> Ok 0 (set_term fd t (if flush then flush_input fd s else s)))"

subsection \<open>Flags of an open file\<close>

definition set_fl :: "int \<Rightarrow> int \<Rightarrow> (unit, 'a world_scheme) prog" where
  "set_fl fd flags = (\<lambda>s. case w_fds s fd of
     None \<Rightarrow> Halt (Exit 1 ''fcntl F_GETFL error'') s
   | Some f \<Rightarrow> Ok () (s\<lparr>w_fds := (w_fds s)(fd \<mapsto> f\<lparr>o_oflag := o_oflag f OR flags\<rparr>)\<rparr>))"

definition clr_fl :: "int \<Rightarrow> int \<Rightarrow> (unit, 'a world_scheme) prog" where
  "clr_fl fd flags = (\<lambda>s. case w_fds s fd of
     None \<Rightarrow> Halt (Exit 1 ''fcntl F_GETFL error'') s
   | Some f \<Rightarrow> Ok () (s\<lparr>w_fds := (w_fds s)(fd \<mapsto> f\<lparr>o_oflag := o_oflag f AND NOT flags\<rparr>)\<rparr>))"

subsection \<open>Which terminal\<close>

definition DEV :: string where "DEV = ''/dev/''"
definition PATH_MAX :: nat where "PATH_MAX = 256"

definition ctermid :: string where "ctermid = ''/dev/tty''"

definition isatty :: "int \<Rightarrow> (int, 'a tty_scheme) prog" where
  "isatty fd = gets (\<lambda>s. if tcgetattr fd s = None then 0 else 1)"

text \<open>The search through the directory; a name that cannot be examined is passed over.\<close>

fun ttyname_search :: "(string \<Rightarrow> (nat \<times> nat) option) \<Rightarrow> nat \<Rightarrow> nat \<Rightarrow> (string \<times> nat) list \<Rightarrow> string option" where
  "ttyname_search st ino dev [] = None"
| "ttyname_search st ino dev ((d_name, d_ino) # ds) =
     (let pathname = DEV @ take (PATH_MAX - length DEV) d_name in
      if d_ino \<noteq> ino then ttyname_search st ino dev ds
      else if st pathname = Some (ino, dev) then Some pathname
      else ttyname_search st ino dev ds)"

definition ttyname :: "int \<Rightarrow> (string option, 'a tty_scheme) prog" where
  "ttyname fd =
     bnd (isatty fd) (\<lambda>b.
     if b = 0 then ret None
     else gets (\<lambda>s. case y_fstat s fd of
       None \<Rightarrow> None
     | Some (ino, dev, chr) \<Rightarrow>
         if \<not> chr then None
         else (case y_devdir s of None \<Rightarrow> None | Some ds \<Rightarrow> ttyname_search (y_stat s) ino dev ds)))"

subsection \<open>Reading a password\<close>

definition MAX_PASS_LEN :: nat where "MAX_PASS_LEN = 8"

text \<open>One byte with \<open>getc\<close> on an unbuffered stream: \<open>None\<close> is \<open>EOF\<close>.\<close>

definition getc :: "int \<Rightarrow> (char option, 'a sock_scheme) prog" where
  "getc fd = bnd (sock_read fd 1) (\<lambda>r. ret (case r of Some (c # _) \<Rightarrow> Some c | _ \<Rightarrow> None))"

definition pending_bytes :: "'a sock_scheme \<Rightarrow> int \<Rightarrow> nat" where
  "pending_bytes s fd = length (concat (map p_bytes (s_in s fd)))"

fun pass_loop :: "nat \<Rightarrow> int \<Rightarrow> string \<Rightarrow> (string, 'a sock_scheme) prog" where
  "pass_loop 0 fd buf = stop_with (Diverges ''getpass'')"
| "pass_loop (Suc n) fd buf =
     bnd (getc fd) (\<lambda>c. case c of
       None \<Rightarrow> ret buf
     | Some x \<Rightarrow> if x = NL then ret buf
                else pass_loop n fd (if length buf < MAX_PASS_LEN then buf @ [x] else buf))"

definition noecho :: "termios \<Rightarrow> termios" where
  "noecho t = t\<lparr>t_lflag := t_lflag t AND NOT (ECHO OR ECHOE OR ECHONL)\<rparr>"

definition getpass :: "string \<Rightarrow> (string option, 'a tty_scheme) prog" where
  "getpass prompt =
     bnd (sys_open ctermid O_RDWR) (\<lambda>fd.
     if fd < 0 then ret None
     else bnd (gets y_mask) (\<lambda>sigsave.
     bnd (modify (\<lambda>s. s\<lparr>y_mask := y_mask s \<union> {SIGINT, SIGTSTP}\<rparr>)) (\<lambda>_.
     bnd (gets (tcgetattr fd)) (\<lambda>r. case r of
       None \<Rightarrow> stop_with (Undefined ''termios not filled in'')
     | Some termsave \<Rightarrow>
         bnd (tcsetattr fd True (noecho termsave)) (\<lambda>_.
         bnd (sock_write fd prompt) (\<lambda>_.
         bnd (gets (\<lambda>s. Suc (pending_bytes s fd))) (\<lambda>n.
         bnd (pass_loop n fd []) (\<lambda>buf.
         bnd (sock_write fd [NL]) (\<lambda>_.
         bnd (tcsetattr fd True termsave) (\<lambda>_.
         bnd (modify (\<lambda>s. s\<lparr>y_mask := sigsave\<rparr>)) (\<lambda>_.
         bnd (sys_close fd) (\<lambda>_. ret (Some buf)))))))))))))"

subsection \<open>Modes\<close>

definition cbreak_of :: "termios \<Rightarrow> termios" where
  "cbreak_of t = t\<lparr>t_lflag := t_lflag t AND NOT (ECHO OR ICANON), t_vmin := 1, t_vtime := 0\<rparr>"

definition raw_of :: "termios \<Rightarrow> termios" where
  "raw_of t =
     t\<lparr>t_lflag := t_lflag t AND NOT (ECHO OR ICANON OR IEXTEN OR ISIG),
       t_iflag := t_iflag t AND NOT (BRKINT OR ICRNL OR INPCK OR ISTRIP OR IXON),
       t_cflag := (t_cflag t AND NOT (CSIZE OR PARENB)) OR CS8,
       t_oflag := t_oflag t AND NOT OPOST, t_vmin := 1, t_vtime := 0\<rparr>"

text \<open>The common shape of \<open>tty_cbreak\<close> and \<open>tty_raw\<close>: save, change, remember.\<close>

definition tty_mode :: "(termios \<Rightarrow> termios) \<Rightarrow> ttystate \<Rightarrow> int \<Rightarrow> (int, 'a tty_scheme) prog" where
  "tty_mode f st fd =
     bnd (gets (tcgetattr fd)) (\<lambda>r. case r of
       None \<Rightarrow> ret (-1)
     | Some t \<Rightarrow>
         bnd (modify (\<lambda>s. s\<lparr>y_save := t\<rparr>)) (\<lambda>_.
         bnd (tcsetattr fd True (f t)) (\<lambda>r.
         if r < 0 then ret (-1)
         else bnd (modify (\<lambda>s. s\<lparr>y_state := st, y_savefd := fd\<rparr>)) (\<lambda>_. ret 0))))"

definition tty_cbreak :: "int \<Rightarrow> (int, 'a tty_scheme) prog" where
  "tty_cbreak fd = tty_mode cbreak_of CBREAK fd"

definition tty_raw :: "int \<Rightarrow> (int, 'a tty_scheme) prog" where
  "tty_raw fd = tty_mode raw_of RAW fd"

definition tty_reset :: "int \<Rightarrow> (int, 'a tty_scheme) prog" where
  "tty_reset fd =
     bnd (gets (\<lambda>s. (y_state s, y_save s))) (\<lambda>(st, t).
     if st \<noteq> CBREAK \<and> st \<noteq> RAW then ret 0
     else bnd (tcsetattr fd True t) (\<lambda>r.
     if r < 0 then ret (-1)
     else bnd (modify (\<lambda>s. s\<lparr>y_state := RESET\<rparr>)) (\<lambda>_. ret 0)))"

definition tty_atexit :: "(unit, 'a tty_scheme) prog" where
  "tty_atexit =
     bnd (gets y_savefd) (\<lambda>fd.
     if fd \<ge> 0 then bnd (tty_reset fd) (\<lambda>_. ret ()) else ret ())"

definition tty_termios :: "(termios, 'a tty_scheme) prog" where
  "tty_termios = gets y_save"

subsection \<open>What the routines do\<close>

definition is_tty :: "int \<Rightarrow> 'a tty_scheme \<Rightarrow> bool" where
  "is_tty fd s \<longleftrightarrow> tcgetattr fd s \<noteq> None"

lemma tcgetattr_upd [simp]:
  "tcgetattr fd (s\<lparr>y_save := t\<rparr>) = tcgetattr fd s"
  "tcgetattr fd (s\<lparr>y_state := st, y_savefd := k\<rparr>) = tcgetattr fd s"
  "tcgetattr fd (s\<lparr>y_state := st\<rparr>) = tcgetattr fd s"
  "tcgetattr fd (s\<lparr>y_mask := m\<rparr>) = tcgetattr fd s"
  "tcgetattr fd (flush_input k s) = tcgetattr fd s"
  by (simp_all add: tcgetattr_def flush_input_def split: option.split)

lemma tcgetattr_set_term [simp]: "tcgetattr fd s = Some t0 \<Longrightarrow> tcgetattr fd (set_term fd t s) = Some t"
  by (auto simp: tcgetattr_def set_term_def fd_path_def split: option.splits)

lemma set_term_set_term [simp]: "set_term fd t (set_term fd u s) = set_term fd t s"
  by (simp add: set_term_def fd_path_def)

lemma tcsetattr_ok: "tcgetattr fd s = Some t0 \<Longrightarrow> tcsetattr fd b t s = Ok 0 (set_term fd t (if b then flush_input fd s else s))"
  by (simp add: tcsetattr_def)

lemma tty_mode_ok:
  assumes "tcgetattr fd s = Some t"
  shows "tty_mode f st fd s =
    Ok 0 ((set_term fd (f t) (flush_input fd (s\<lparr>y_save := t\<rparr>)))\<lparr>y_state := st, y_savefd := fd\<rparr>)"
  using assms by (simp add: tty_mode_def bnd_apply tcsetattr_def)

lemma tty_mode_fail: "tcgetattr fd s = None \<Longrightarrow> tty_mode f st fd s = Ok (-1) s"
  by (simp add: tty_mode_def)

lemma tty_reset_ok:
  assumes "tcgetattr fd s = Some t0" and "y_state s \<noteq> RESET"
  shows "tty_reset fd s = Ok 0 ((set_term fd (y_save s) (flush_input fd s))\<lparr>y_state := RESET\<rparr>)"
  using assms by (cases "y_state s") (simp_all add: tty_reset_def bnd_apply tcsetattr_def)

text \<open>The attributes of a terminal on which the properties are tried.\<close>

definition termios0 :: termios where
  "termios0 = \<lparr>t_cflag = 0, t_oflag = 0, t_iflag = 0, t_lflag = 0, t_vmin = 0, t_vtime = 0, t_veof = CHR 0x04, t_vsusp = CHR 0x1A, t_speed = 0\<rparr>"

end
