(* ===== verification/Calld_Base.thy ===== *)
theory Calld_Base
  imports Args Slots Term
begin

text \<open>
  The dial server of chapter 18: its data (\<^verbatim>\<open>calld.h\<close>, \<^verbatim>\<open>server-main.c\<close>), the array of
  clients (\<^verbatim>\<open>client.c\<close>) and the table of device locks (\<^verbatim>\<open>lock.c\<close>).

  The state is the process's view of its connections and terminals extended with the server's globals and the
  locals of \<open>loop\<close>. Where the code reads memory it has not written, the value is a field:
  \<open>k_junk\<close> is what \<open>malloc\<close> leaves in a new client entry, \<open>k_n0\<close> the uninitialised
  variable of \<open>send_err\<close>, \<open>k_stk\<close> the buffer of \<open>expect_str\<close>. \<open>k_pids\<close> are the
  results of the next calls of \<open>fork\<close>, \<open>k_zombies\<close> the children that have ended and wait
  for \<open>waitpid\<close>, with their exit status (none after an abnormal end). \<open>k_sigs\<close> says at
  each of the next points where the server looks for a signal whether one is delivered there.
\<close>

definition CS_CALL :: string where "CS_CALL = ''/home/philip/calld''"
definition CL_CALL :: string where "CL_CALL = ''call''"
definition MAXSYSNAME :: nat where "MAXSYSNAME = 256"
definition MAXSPEEDSTR :: nat where "MAXSPEEDSTR = 256"
definition CNALLOC :: nat where "CNALLOC = 10"
definition SYSTEMS :: string where "SYSTEMS = ''./Systems''"
definition DEVICES :: string where "DEVICES = ''./Devices''"
definition DIALERS :: string where "DIALERS = ''./Dialers''"

datatype parity = NONE | EVEN | ODD

record cclient =
  cc_fd :: int
  cc_pid :: int
  cc_uid :: int
  cc_childdone :: int
  cc_sysftell :: int
  cc_foundone :: int
  cc_Debug :: bool
  cc_parity :: parity
  cc_speed :: string
  cc_sysname :: string

definition sizeof_cclient :: nat where "sizeof_cclient = 552"

record systems =
  sy_name :: "string option"
  sy_time :: string
  sy_type :: string
  sy_class :: string
  sy_phone :: string
  sy_login :: string

record devices =
  dv_type :: "string option"
  dv_line :: string
  dv_line2 :: int
  dv_class :: string
  dv_dialer :: string

record dialers =
  di_dialer :: "string option"
  di_sub :: string
  di_expsend :: string

record clock =
  lk_line :: string
  lk_pid :: int

definition sizeof_clock :: nat where "sizeof_clock = 16"

text \<open>The outcome of a read of one byte from the dialing line.\<close>

datatype rd = Byte char | Timeout | RdErr

record calld = tty +
  k_client :: "cclient list"
  k_junk :: cclient
  k_lock :: "clock list"
  k_lock_size :: nat
  k_fpsys :: "nat option"
  k_fpdev :: "nat option"
  k_fpdial :: "nat option"
  k_syslineno :: int
  k_devlineno :: int
  k_diallineno :: int
  k_systems :: systems
  k_devices :: devices
  k_dialers :: dialers
  k_clifd :: int
  k_Debug :: bool
  k_errmsg :: string
  k_speed :: "string option"
  k_sysname :: string
  k_parity :: parity
  k_chld_flag :: bool
  k_allset :: "int set"
  k_maxfd :: int
  k_maxi :: int
  k_listen :: int
  k_pids :: "int list"
  k_zombies :: "(int \<times> int option) list"
  k_sigs :: "bool list"
  k_n0 :: int
  k_stk :: "nat \<Rightarrow> char"
  k_line :: "rd list"
  k_caught_alrm :: bool
  k_alarm :: bool

subsection \<open>Clients\<close>

definition cclient_alloc :: "(unit, calld) prog" where
  "cclient_alloc =
     bnd (sys_malloc (CNALLOC * sizeof_cclient)) (\<lambda>ok.
     if \<not> ok then err_sys ''can't alloc for client array''
     else modify (\<lambda>s. s\<lparr>k_client := k_client s @ replicate CNALLOC ((k_junk s)\<lparr>cc_fd := -1\<rparr>)\<rparr>))"

definition coccupy :: "int \<Rightarrow> int \<Rightarrow> cclient \<Rightarrow> cclient" where
  "coccupy fd uid c = c\<lparr>cc_fd := fd, cc_uid := uid\<rparr>"

definition cvacate :: "cclient \<Rightarrow> cclient" where
  "cvacate c = c\<lparr>cc_fd := -1\<rparr>"

fun cclient_search :: "nat \<Rightarrow> int \<Rightarrow> int \<Rightarrow> (nat, calld) prog" where
  "cclient_search 0 fd uid = stop_with (Diverges ''client_add'')"
| "cclient_search (Suc n) fd uid =
     bnd (gets (\<lambda>s. find_slot cc_fd (-1) (k_client s))) (\<lambda>r. case r of
       Some i \<Rightarrow> bnd (modify (\<lambda>s. s\<lparr>k_client := (k_client s)[i := coccupy fd uid (k_client s ! i)]\<rparr>)) (\<lambda>_. ret i)
     | None \<Rightarrow> bnd cclient_alloc (\<lambda>_. cclient_search n fd uid))"

definition cclient_add :: "int \<Rightarrow> int \<Rightarrow> (nat, calld) prog" where
  "cclient_add fd uid =
     bnd (gets k_client) (\<lambda>c.
     bnd (if c = [] then cclient_alloc else ret ()) (\<lambda>_. cclient_search 2 fd uid))"

definition cclient_del :: "int \<Rightarrow> (unit, calld) prog" where
  "cclient_del fd =
     bnd (gets (\<lambda>s. find_slot cc_fd fd (k_client s))) (\<lambda>r. case r of
       Some i \<Rightarrow> modify (\<lambda>s. s\<lparr>k_client := (k_client s)[i := cvacate (k_client s ! i)]\<rparr>)
     | None \<Rightarrow> log_quit (''can't find client entry for fd '' @ fmt_d fd))"

text \<open>\<open>client_sigchld\<close>: the first entry with the process ID, in use or not.\<close>

definition cclient_sigchld :: "int \<Rightarrow> int \<Rightarrow> (unit, calld) prog" where
  "cclient_sigchld pid stat =
     bnd (gets (\<lambda>s. find_slot cc_pid pid (k_client s))) (\<lambda>r. case r of
       Some i \<Rightarrow> modify (\<lambda>s. s\<lparr>k_client := (k_client s)[i := (k_client s ! i)\<lparr>cc_childdone := stat\<rparr>]\<rparr>)
     | None \<Rightarrow> log_quit (''can't find client entry for pid '' @ fmt_d pid))"

interpretation cslots: slot_table cc_fd coccupy cvacate
  by unfold_locales (simp_all add: coccupy_def cvacate_def)

subsection \<open>Locks\<close>

fun line_index :: "string \<Rightarrow> clock list \<Rightarrow> nat option" where
  "line_index line [] = None"
| "line_index line (l # ls) = (if line = lk_line l then Some 0 else map_option Suc (line_index line ls))"

text \<open>The index of the entry for the line; a line that was never seen gets a new entry.\<close>

definition find_line :: "string \<Rightarrow> (nat, calld) prog" where
  "find_line line =
     bnd (gets (\<lambda>s. line_index line (k_lock s))) (\<lambda>r. case r of
       Some i \<Rightarrow> ret i
     | None \<Rightarrow>
         bnd (gets (\<lambda>s. length (k_lock s) \<ge> k_lock_size s)) (\<lambda>full.
         bnd (if full
              then bnd (sys_malloc (CNALLOC * sizeof_clock)) (\<lambda>ok.
                   if \<not> ok then err_sys ''can't alloc for lock array''
                   else modify (\<lambda>s. s\<lparr>k_lock_size := k_lock_size s + CNALLOC\<rparr>))
              else ret ()) (\<lambda>_.
         bnd (sys_malloc (length line + 1)) (\<lambda>ok.
         if \<not> ok then log_sys ''malloc error''
         else bnd (modify (\<lambda>s. s\<lparr>k_lock := k_lock s @ [\<lparr>lk_line = line, lk_pid = 0\<rparr>]\<rparr>)) (\<lambda>_.
              gets (\<lambda>s. length (k_lock s) - 1))))))"

definition lock_set :: "string \<Rightarrow> int \<Rightarrow> (unit, calld) prog" where
  "lock_set line pid =
     bnd (find_line line) (\<lambda>i.
     modify (\<lambda>s. s\<lparr>k_lock := (k_lock s)[i := (k_lock s ! i)\<lparr>lk_pid := pid\<rparr>]\<rparr>))"

fun pid_index :: "int \<Rightarrow> clock list \<Rightarrow> nat option" where
  "pid_index pid [] = None"
| "pid_index pid (l # ls) = (if lk_pid l = pid then Some 0 else map_option Suc (pid_index pid ls))"

definition lock_rel :: "int \<Rightarrow> (unit, calld) prog" where
  "lock_rel pid =
     modify (\<lambda>s. case pid_index pid (k_lock s) of
       Some i \<Rightarrow> s\<lparr>k_lock := (k_lock s)[i := (k_lock s ! i)\<lparr>lk_pid := 0\<rparr>]\<rparr>
     | None \<Rightarrow> s)"

definition is_locked :: "string \<Rightarrow> (int, calld) prog" where
  "is_locked line = bnd (find_line line) (\<lambda>i. gets (\<lambda>s. lk_pid (k_lock s ! i)))"

end
