(* ===== verification/Calld_Locks.thy ===== *)
theory Calld_Locks
  imports Calld_Base
begin

text \<open>
  The lock table of the dial server as a map from device lines to the process that holds them
  (0 for none), and the interface through which the rest of the server uses it.
\<close>

locale lock_manager =
  fixes held :: "'s \<Rightarrow> string \<Rightarrow> int" and ok :: "'s \<Rightarrow> bool"
    and test :: "string \<Rightarrow> (int, 's) prog" and acquire :: "string \<Rightarrow> int \<Rightarrow> (unit, 's) prog"
    and release :: "int \<Rightarrow> (unit, 's) prog"
  assumes test_law: "ok s \<Longrightarrow> ens (test l) s (\<lambda>p t. ok t \<and> p = held s l \<and> held t = held s)"
    and acquire_law: "ok s \<Longrightarrow> p \<noteq> 0 \<Longrightarrow> (\<And>k. held s k \<noteq> p) \<Longrightarrow>
      ens (acquire l p) s (\<lambda>_ t. ok t \<and> held t = (held s)(l := p))"
    and release_law: "ok s \<Longrightarrow> p \<noteq> 0 \<Longrightarrow> ens (release p) s (\<lambda>_ t. ok t \<and> held t = (\<lambda>l. if held s l = p then 0 else held s l))"
begin

text \<open>Releasing what was just acquired gives the old map back, when the line was free.\<close>

lemma release_acquire:
  assumes "ok s" and "p \<noteq> 0" and "\<And>k. held s k \<noteq> p" and "held s l = 0"
  shows "ens (bnd (acquire l p) (\<lambda>_. release p)) s (\<lambda>_ t. ok t \<and> held t = held s)"
  by (rule ens_step[OF acquire_law[OF assms(1-3)]], elim conjE)
    (use assms in \<open>auto intro!: ens_conseq[OF release_law] simp: fun_eq_iff\<close>)

text \<open>A line that tested free and was then taken is held by the taker, and no other line changed hands.\<close>

lemma test_acquire:
  assumes "ok s" and "p \<noteq> 0" and "\<And>k. held s k \<noteq> p"
  shows "ens (bnd (test l) (\<lambda>q. if q \<noteq> 0 then ret False else bnd (acquire l p) (\<lambda>_. ret True))) s
    (\<lambda>b t. ok t \<and> (if b then held s l = 0 \<and> held t = (held s)(l := p) else held s l \<noteq> 0 \<and> held t = held s))"
proof (rule ens_step[OF test_law[OF assms(1)]], elim conjE)
  fix q t
  assume t: "ok t" "q = held s l" "held t = held s"
  have "ens (acquire l p) t (\<lambda>_ u. ok u \<and> held u = (held s)(l := p))"
    using acquire_law[OF t(1) assms(2)] assms(3) t(3) by simp
  then show "ens (if q \<noteq> 0 then ret False else bnd (acquire l p) (\<lambda>_. ret True)) t
      (\<lambda>b t. ok t \<and> (if b then held s l = 0 \<and> held t = (held s)(l := p) else held s l \<noteq> 0 \<and> held t = held s))"
    using t by (auto simp: wlp intro: ens_conseq)
qed

end

subsection \<open>The table\<close>

definition lock_held :: "clock list \<Rightarrow> string \<Rightarrow> int" where
  "lock_held ls l = (case line_index l ls of None \<Rightarrow> 0 | Some i \<Rightarrow> lk_pid (ls ! i))"

definition k_held :: "calld \<Rightarrow> string \<Rightarrow> int" where
  "k_held s = lock_held (k_lock s)"

text \<open>A line has one entry, and a process at most one line.\<close>

definition lock_ok :: "clock list \<Rightarrow> bool" where
  "lock_ok ls \<longleftrightarrow> distinct (map lk_line ls) \<and>
     (\<forall>i j. i < length ls \<and> j < length ls \<and> lk_pid (ls ! i) = lk_pid (ls ! j) \<and> lk_pid (ls ! i) \<noteq> 0 \<longrightarrow> i = j)"

lemma line_index_Some: "line_index l ls = Some i \<Longrightarrow> i < length ls \<and> lk_line (ls ! i) = l"
  by (induction ls arbitrary: i) (auto split: if_splits)

lemma line_index_None: "line_index l ls = None \<longleftrightarrow> l \<notin> lk_line ` set ls"
  by (induction ls) auto

lemma pid_index_Some: "pid_index p ls = Some i \<Longrightarrow> i < length ls \<and> lk_pid (ls ! i) = p"
  by (induction ls arbitrary: i) (auto split: if_splits)

lemma pid_index_None: "pid_index p ls = None \<longleftrightarrow> p \<notin> lk_pid ` set ls"
  by (induction ls) auto

lemma line_index_nth: "distinct (map lk_line ls) \<Longrightarrow> i < length ls \<Longrightarrow> line_index (lk_line (ls ! i)) ls = Some i"
proof (induction ls arbitrary: i)
  case (Cons a ls)
  have "lk_line (ls ! j) \<noteq> lk_line a" if "j < length ls" for j
    using Cons.prems(1) imageI[OF nth_mem[OF that], of lk_line] by auto
  then show ?case using Cons by (cases i) auto
qed simp

lemma line_index_update [simp]: "line_index l (ls[i := (ls ! i)\<lparr>lk_pid := p\<rparr>]) = line_index l ls"
proof (induction ls arbitrary: i)
  case (Cons a ls)
  then show ?case by (cases i) auto
qed simp

lemma lock_held_update:
  assumes "distinct (map lk_line ls)" and "i < length ls"
  shows "lock_held (ls[i := (ls ! i)\<lparr>lk_pid := p\<rparr>]) = (lock_held ls)(lk_line (ls ! i) := p)"
proof
  fix l
  show "lock_held (ls[i := (ls ! i)\<lparr>lk_pid := p\<rparr>]) l = ((lock_held ls)(lk_line (ls ! i) := p)) l"
  proof (cases "l = lk_line (ls ! i)")
    case True
    then show ?thesis using line_index_nth[OF assms] assms(2) by (simp add: lock_held_def)
  next
    case False
    have "j \<noteq> i" if "line_index l ls = Some j" for j using line_index_Some[OF that] False by auto
    then show ?thesis using False by (auto simp: lock_held_def split: option.splits)
  qed
qed

lemma map_line_update [simp]: "map lk_line (ls[i := (ls ! i)\<lparr>lk_pid := p\<rparr>]) = map lk_line ls"
  by (cases "i < length ls") (auto simp: map_update list_update_same_conv list_update_beyond)

lemma lock_held_append: "lock_held (ls @ [\<lparr>lk_line = l, lk_pid = 0\<rparr>]) = lock_held ls"
proof
  fix k
  have "line_index k (ls @ [\<lparr>lk_line = l, lk_pid = 0\<rparr>]) = (case line_index k ls of Some i \<Rightarrow> Some i
      | None \<Rightarrow> if k = l then Some (length ls) else None)"
    by (induction ls) (auto split: option.splits)
  then show "lock_held (ls @ [\<lparr>lk_line = l, lk_pid = 0\<rparr>]) k = lock_held ls k"
    by (auto simp: lock_held_def nth_append dest: line_index_Some split: option.splits)
qed

lemma lock_ok_append: "lock_ok ls \<Longrightarrow> line_index l ls = None \<Longrightarrow> lock_ok (ls @ [\<lparr>lk_line = l, lk_pid = 0\<rparr>])"
  by (auto simp: lock_ok_def line_index_None nth_append less_Suc_eq split: if_splits)

lemma lock_held_nth: "lock_ok ls \<Longrightarrow> i < length ls \<Longrightarrow> lock_held ls (lk_line (ls ! i)) = lk_pid (ls ! i)"
  using line_index_nth by (simp add: lock_held_def lock_ok_def)

lemma lock_ok_update:
  assumes "lock_ok ls" and "i < length ls" and "p = 0 \<or> (\<forall>j<length ls. j \<noteq> i \<longrightarrow> lk_pid (ls ! j) \<noteq> p)"
  shows "lock_ok (ls[i := (ls ! i)\<lparr>lk_pid := p\<rparr>])"
proof -
  have "distinct (map lk_line (ls[i := (ls ! i)\<lparr>lk_pid := p\<rparr>]))"
    using assms(1) by (simp only: map_line_update) (simp add: lock_ok_def)
  then show ?thesis
    using assms unfolding lock_ok_def by (auto simp: nth_list_update)
qed

subsection \<open>The server's functions\<close>

abbreviation k_ok :: "calld \<Rightarrow> bool" where
  "k_ok s \<equiv> lock_ok (k_lock s)"

lemma find_line_ens:
  assumes "k_ok s"
  shows "ens (find_line l) s (\<lambda>i t. k_ok t \<and> k_held t = k_held s \<and> i < length (k_lock t) \<and> lk_line (k_lock t ! i) = l)"
proof (cases "line_index l (k_lock s)")
  case None
  then show ?thesis
    using assms by (auto simp: find_line_def ens_def bnd_apply sys_malloc_def k_held_def lock_held_append
        lock_ok_append nth_append)
next
  case (Some i)
  then show ?thesis using assms line_index_Some[OF Some] by (simp add: find_line_def ens_def bnd_apply)
qed

interpretation klocks: lock_manager k_held k_ok is_locked lock_set lock_rel
proof
  fix s l
  assume "k_ok s"
  then show "ens (is_locked l) s (\<lambda>p t. k_ok t \<and> p = k_held s l \<and> k_held t = k_held s)"
    unfolding is_locked_def
    by (intro ens_step[OF find_line_ens]) (auto simp: wlp k_held_def lock_held_nth[symmetric])
next
  fix s l and p :: int
  assume s: "k_ok s" "p \<noteq> 0" "\<And>k. k_held s k \<noteq> p"
  show "ens (lock_set l p) s (\<lambda>_ t. k_ok t \<and> k_held t = (k_held s)(l := p))"
    unfolding lock_set_def
  proof (rule ens_step[OF find_line_ens[OF s(1)]], elim conjE)
    fix i t
    assume t: "k_ok t" "k_held t = k_held s" "i < length (k_lock t)" "lk_line (k_lock t ! i) = l"
    have "\<forall>j<length (k_lock t). j \<noteq> i \<longrightarrow> lk_pid (k_lock t ! j) \<noteq> p"
      using s(3) lock_held_nth[OF t(1)] t(2) by (auto simp: k_held_def)
    then have "lock_ok ((k_lock t)[i := (k_lock t ! i)\<lparr>lk_pid := p\<rparr>])" using lock_ok_update[OF t(1,3)] by blast
    moreover have "lock_held ((k_lock t)[i := (k_lock t ! i)\<lparr>lk_pid := p\<rparr>]) = (k_held s)(l := p)"
      using lock_held_update[OF _ t(3)] t by (simp add: lock_ok_def k_held_def)
    ultimately show "ens (modify (\<lambda>s. s\<lparr>k_lock := (k_lock s)[i := (k_lock s ! i)\<lparr>lk_pid := p\<rparr>]\<rparr>)) t
        (\<lambda>_ t. k_ok t \<and> k_held t = (k_held s)(l := p))"
      by (simp add: wlp k_held_def)
  qed
next
  fix s and p :: int
  assume s: "k_ok s" "p \<noteq> 0"
  show "ens (lock_rel p) s (\<lambda>_ t. k_ok t \<and> k_held t = (\<lambda>l. if k_held s l = p then 0 else k_held s l))"
  proof (cases "pid_index p (k_lock s)")
    case None
    then have "k_held s l \<noteq> p" for l
      using s(2) by (auto simp: k_held_def lock_held_def pid_index_None dest!: line_index_Some split: option.splits)
    then show ?thesis using None s by (simp add: lock_rel_def wlp)
  next
    case (Some i)
    note i = pid_index_Some[OF Some]
    have "k_held s l = p \<longleftrightarrow> l = lk_line (k_lock s ! i)" for l
    proof
      assume "k_held s l = p"
      then obtain j where "line_index l (k_lock s) = Some j" "lk_pid (k_lock s ! j) = p"
        using s(2) by (auto simp: k_held_def lock_held_def split: option.splits)
      moreover from this i s have "j = i" unfolding lock_ok_def by (metis line_index_Some)
      ultimately show "l = lk_line (k_lock s ! i)" by (auto dest: line_index_Some)
    next
      assume "l = lk_line (k_lock s ! i)"
      then show "k_held s l = p" using lock_held_nth[OF s(1)] i by (simp add: k_held_def)
    qed
    then have "(k_held s)(lk_line (k_lock s ! i) := 0) = (\<lambda>l. if k_held s l = p then 0 else k_held s l)"
      by (auto simp: fun_eq_iff)
    moreover have "lock_ok ((k_lock s)[i := (k_lock s ! i)\<lparr>lk_pid := 0\<rparr>])"
      using lock_ok_update[OF s(1)] i by blast
    ultimately show ?thesis
      using Some lock_held_update[of "k_lock s" i 0] i s(1)
      by (simp add: lock_rel_def wlp k_held_def lock_ok_def)
  qed
qed

end
