(* ===== verification/Lines.thy ===== *)
theory Lines
  imports Errors
begin

text \<open>
  What \<open>fgets\<close> with a buffer of \<open>MAXLINE\<close> bytes sees of a file: its lines, of which a long one
  comes in pieces.
\<close>

definition line_of :: "string \<Rightarrow> string" where
  "line_of s = takeWhile (\<lambda>c. c \<noteq> NL) s @ (if NL \<in> set s then [NL] else [])"

text \<open>\<open>fgets(buf, MAXLINE, fp)\<close> at position \<open>pos\<close> of the file \<open>c\<close>.\<close>

definition fgets_at :: "string \<Rightarrow> nat \<Rightarrow> string option" where
  "fgets_at c pos = (if drop pos c = [] then None else Some (take (MAXLINE - 1) (line_of (drop pos c))))"

lemma line_of_Nil: "line_of s = [] \<longleftrightarrow> s = []"
  by (cases s) (auto simp: line_of_def)

lemma fgets_progress: "fgets_at c pos = Some l \<Longrightarrow> l \<noteq> [] \<and> pos < length c"
  using line_of_Nil[of "drop pos c"] by (auto simp: fgets_at_def MAXLINE_def split: if_splits)

lemma length_line_of: "length (line_of s) \<le> length s"
  by (induction s) (auto simp: line_of_def)

text \<open>The whole file.\<close>

function file_lines :: "string \<Rightarrow> string list" where
  "file_lines s = (if s = [] then [] else let l = take (MAXLINE - 1) (line_of s) in l # file_lines (drop (length l) s))"
  by pat_completeness auto
termination by (relation "measure length") (auto simp: MAXLINE_def line_of_Nil)

declare file_lines.simps [simp del]

lemma file_lines_Nil [simp]: "file_lines [] = []"
  by (simp add: file_lines.simps)

lemma file_lines_fgets:
  "file_lines (drop pos c) = (case fgets_at c pos of None \<Rightarrow> [] | Some l \<Rightarrow> l # file_lines (drop (pos + length l) c))"
  by (subst file_lines.simps) (auto simp: fgets_at_def Let_def add.commute split: option.split if_splits)

lemma take_length_drop: "take n xs @ drop (length (take n xs)) xs = xs"
  by (cases "n \<le> length xs") (simp_all add: min_def)

text \<open>The lines are the file.\<close>

lemma concat_file_lines: "concat (file_lines s) = s"
proof (induction s rule: file_lines.induct)
  case (1 s)
  have "take n (line_of s) @ drop (length (take n (line_of s))) s = s" for n
  proof -
    have "\<exists>r. s = line_of s @ r"
      by (induction s) (auto simp: line_of_def)
    then obtain r where "s = line_of s @ r" by blast
    then have "take n s = take n (line_of s) \<or> take n (line_of s) = line_of s \<and> s = line_of s @ r"
      by (cases "n \<le> length (line_of s)") (metis take_append append_Nil2 diff_is_0_eq take_0, simp)
    then show ?thesis
    proof
      assume "take n s = take n (line_of s)"
      then show ?thesis by (metis take_length_drop)
    next
      assume "take n (line_of s) = line_of s \<and> s = line_of s @ r"
      then show ?thesis by (metis append_eq_conv_conj)
    qed
  qed
  then show ?case using 1 by (subst file_lines.simps) (simp add: Let_def)
qed

text \<open>A line that \<open>fgets\<close> reads whole.\<close>

definition line_ok :: "string \<Rightarrow> bool" where
  "line_ok l \<longleftrightarrow> (\<exists>u. l = u @ [NL] \<and> NL \<notin> set u) \<and> length l < MAXLINE"

lemma line_of_line: "line_ok l \<Longrightarrow> line_of (l @ r) = l"
proof -
  assume "line_ok l"
  then obtain u where u: "l = u @ [NL]" "NL \<notin> set u" by (auto simp: line_ok_def)
  then have "takeWhile (\<lambda>c. c \<noteq> NL) (u @ NL # r) = u" by (intro takeWhile_append_stop) auto
  with u(1) show ?thesis by (simp add: line_of_def)
qed

lemma file_lines_concat: "\<forall>l\<in>set ls. line_ok l \<Longrightarrow> file_lines (concat ls) = ls"
proof (induction ls)
  case (Cons l ls)
  have "length l < MAXLINE" "l \<noteq> []" using Cons.prems by (auto simp: line_ok_def)
  then have "take (MAXLINE - 1) l = l" by (intro take_all) arith
  then show ?case
    using Cons line_of_line[of l "concat ls"] \<open>l \<noteq> []\<close> by (subst file_lines.simps) (simp add: Let_def)
qed simp

lemma file_lines_bound: "l \<in> set (file_lines s) \<Longrightarrow> length l < MAXLINE"
proof (induction s rule: file_lines.induct)
  case (1 s)
  then show ?case by (cases "s = []") (auto simp: file_lines.simps[of s] Let_def MAXLINE_def)
qed

end
