(* ===== verification/Calld_Files.thy ===== *)
theory Calld_Files
  imports Calld_Locks Lines
begin

text \<open>
  The configuration files of the dial server: \<^verbatim>\<open>sysfile.c\<close>, \<^verbatim>\<open>devfile.c\<close> and
  \<^verbatim>\<open>dialfile.c\<close>. Each file is read line by line with \<open>fgets\<close> and taken apart with
  \<open>strtok\<close>; empty lines and comments are skipped, an incomplete line ends the server. The
  three reading functions have the same loop, \<open>conf_next\<close>, around their own \<open>parse\<close>.
\<close>

text \<open>
  What a line is: one to skip (with the first token, which the caller's structure then points
  to), one that ends the server with a message, or an entry.
\<close>

datatype 'e parsed = Skip "string option" | Bad string | Good 'e

datatype 'e conf = CEof int "string option" | CQuit string | CEntry 'e nat int

text \<open>The loop \<open>again:\<close>. Every round reads at least one byte of the file.\<close>

function conf_next :: "(int \<Rightarrow> string \<Rightarrow> 'e parsed) \<Rightarrow> string \<Rightarrow> nat \<Rightarrow> int \<Rightarrow> string option \<Rightarrow> 'e conf" where
  "conf_next parse c pos lineno first =
     (case fgets_at c pos of
        None \<Rightarrow> CEof lineno first
      | Some line \<Rightarrow> (case parse (lineno + 1) line of
            Skip f \<Rightarrow> conf_next parse c (pos + length line) (lineno + 1) f
          | Bad msg \<Rightarrow> CQuit msg
          | Good e \<Rightarrow> CEntry e (pos + length line) (lineno + 1)))"
  by pat_completeness auto
termination
  by (relation "measure (\<lambda>(parse, c, pos, lineno, first). length c - pos)") (auto dest!: fgets_progress intro!: diff_less_mono2)

declare conf_next.simps [simp del]

subsection \<open>The three formats\<close>

text \<open>A word in single quotes.\<close>

definition quoted :: "string \<Rightarrow> string" where
  "quoted w = [CHR 0x27] @ w @ [CHR 0x27]"

definition missing :: "string \<Rightarrow> string \<Rightarrow> int \<Rightarrow> string" where
  "missing field file lineno = ''missing '' @ quoted field @ '' in '' @ file @ '' file, line '' @ fmt_d lineno"

fun next_tok :: "string \<Rightarrow> (string \<times> string) option" where
  "next_tok s = (case strtok WHITE s of None \<Rightarrow> None | Some (_, t, r) \<Rightarrow> Some (t, r))"

fun rest_tok :: "string \<Rightarrow> string option" where
  "rest_tok s = (case strtok {NL} s of None \<Rightarrow> None | Some (_, t, r) \<Rightarrow> Some t)"

definition parse_sys :: "int \<Rightarrow> string \<Rightarrow> systems parsed" where
  "parse_sys n line = (case next_tok line of
     None \<Rightarrow> if hd line = NL then Skip None else Bad (missing ''name'' ''Systems'' n)
   | Some (name, r) \<Rightarrow>
     if hd name = CHR ''#'' then Skip (Some name)
     else (case next_tok r of None \<Rightarrow> Bad (missing ''time'' ''Systems'' n)
   | Some (time, r) \<Rightarrow> (case next_tok r of None \<Rightarrow> Bad (missing ''type'' ''Systems'' n)
   | Some (typ, r) \<Rightarrow> (case next_tok r of None \<Rightarrow> Bad (missing ''class'' ''Systems'' n)
   | Some (cls, r) \<Rightarrow> (case next_tok r of None \<Rightarrow> Bad (missing ''phone'' ''Systems'' n)
   | Some (phone, r) \<Rightarrow> (case rest_tok r of None \<Rightarrow> Bad (missing ''login'' ''Systems'' n)
   | Some login \<Rightarrow> Good \<lparr>sy_name = Some name, sy_time = time, sy_type = typ, sy_class = cls, sy_phone = phone, sy_login = login\<rparr>))))))"

text \<open>
  The precedence in \<open>devptr->line2 = strtok(NULL, WHITE) == NULL\<close> makes \<open>line2\<close> the result
  of the comparison, 0 for a line that is accepted.
\<close>

definition parse_dev :: "int \<Rightarrow> string \<Rightarrow> devices parsed" where
  "parse_dev n line = (case next_tok line of
     None \<Rightarrow> if hd line = NL then Skip None else Bad (missing ''type'' ''Devices'' n)
   | Some (typ, r) \<Rightarrow>
     if hd typ = CHR ''#'' then Skip (Some typ)
     else (case next_tok r of None \<Rightarrow> Bad (missing ''line'' ''Devices'' n)
   | Some (ln, r) \<Rightarrow> (case next_tok r of None \<Rightarrow> Bad (missing ''line2'' ''Devices'' n)
   | Some (_, r) \<Rightarrow> (case next_tok r of None \<Rightarrow> Bad (missing ''class'' ''Devices'' n)
   | Some (cls, r) \<Rightarrow> (case next_tok r of None \<Rightarrow> Bad (missing ''dialer'' ''Devices'' n)
   | Some (dialer, r) \<Rightarrow> Good \<lparr>dv_type = Some typ, dv_line = ln, dv_line2 = 0, dv_class = cls, dv_dialer = dialer\<rparr>)))))"

definition parse_dial :: "int \<Rightarrow> string \<Rightarrow> dialers parsed" where
  "parse_dial n line = (case next_tok line of
     None \<Rightarrow> if hd line = NL then Skip None else Bad (missing ''dialer'' ''Dialers'' n)
   | Some (dialer, r) \<Rightarrow>
     if hd dialer = CHR ''#'' then Skip (Some dialer)
     else (case next_tok r of None \<Rightarrow> Bad (missing ''sub'' ''Dialers'' n)
   | Some (sub, r) \<Rightarrow> (case rest_tok r of None \<Rightarrow> Bad (missing ''expsend'' ''Dialers'' n)
   | Some expsend \<Rightarrow> Good \<lparr>di_dialer = Some dialer, di_sub = sub, di_expsend = expsend\<rparr>)))"

subsection \<open>Systems\<close>

definition sys_next :: "(int, calld) prog" where
  "sys_next =
     bnd (gets (\<lambda>s. (k_fpsys s, w_files s SYSTEMS))) (\<lambda>(fp, file).
     case file of
       None \<Rightarrow> log_sys (''can't open '' @ SYSTEMS)
     | Some c \<Rightarrow>
         bnd (if fp = None then modify (\<lambda>s. s\<lparr>k_fpsys := Some 0, k_syslineno := 0\<rparr>) else ret ()) (\<lambda>_.
         bnd (gets (\<lambda>s. conf_next parse_sys c (case k_fpsys s of None \<Rightarrow> 0 | Some p \<Rightarrow> p) (k_syslineno s)
                          (sy_name (k_systems s)))) (\<lambda>r.
         case r of
           CEof n f \<Rightarrow> bnd (modify (\<lambda>s. s\<lparr>k_fpsys := Some (length c), k_syslineno := n,
                              k_systems := (k_systems s)\<lparr>sy_name := f\<rparr>\<rparr>)) (\<lambda>_. ret (-1))
         | CQuit msg \<Rightarrow> log_quit msg
         | CEntry e p n \<Rightarrow> bnd (modify (\<lambda>s. s\<lparr>k_fpsys := Some p, k_syslineno := n, k_systems := e\<rparr>)) (\<lambda>_.
                             ret (int p)))))"

definition sys_rew :: "(unit, calld) prog" where
  "sys_rew = modify (\<lambda>s. s\<lparr>k_fpsys := (case k_fpsys s of None \<Rightarrow> None | Some _ \<Rightarrow> Some 0), k_syslineno := 0\<rparr>)"

definition sys_posn :: "int \<Rightarrow> (unit, calld) prog" where
  "sys_posn posn =
     (if posn = 0 then sys_rew
      else bnd (gets k_fpsys) (\<lambda>fp.
        if fp = None then stop_with (Undefined ''fseek on a null stream'')
        else if posn < 0 then log_sys ''fseek error''
        else modify (\<lambda>s. s\<lparr>k_fpsys := Some (nat posn)\<rparr>)))"

subsection \<open>Devices\<close>

definition dev_next :: "(int, calld) prog" where
  "dev_next =
     bnd (gets (\<lambda>s. (k_fpdev s, w_files s DEVICES))) (\<lambda>(fp, file).
     case file of
       None \<Rightarrow> log_sys (''can't open '' @ DEVICES)
     | Some c \<Rightarrow>
         bnd (if fp = None then modify (\<lambda>s. s\<lparr>k_fpdev := Some 0, k_devlineno := 0\<rparr>) else ret ()) (\<lambda>_.
         bnd (gets (\<lambda>s. conf_next parse_dev c (case k_fpdev s of None \<Rightarrow> 0 | Some p \<Rightarrow> p) (k_devlineno s)
                          (dv_type (k_devices s)))) (\<lambda>r.
         case r of
           CEof n f \<Rightarrow> bnd (modify (\<lambda>s. s\<lparr>k_fpdev := Some (length c), k_devlineno := n,
                              k_devices := (k_devices s)\<lparr>dv_type := f\<rparr>\<rparr>)) (\<lambda>_. ret (-1))
         | CQuit msg \<Rightarrow> log_quit msg
         | CEntry e p n \<Rightarrow> bnd (modify (\<lambda>s. s\<lparr>k_fpdev := Some p, k_devlineno := n, k_devices := e\<rparr>)) (\<lambda>_.
                             ret 0))))"

definition dev_rew :: "(unit, calld) prog" where
  "dev_rew = modify (\<lambda>s. s\<lparr>k_fpdev := (case k_fpdev s of None \<Rightarrow> None | Some _ \<Rightarrow> Some 0), k_devlineno := 0\<rparr>)"

definition kset_errmsg :: "string \<Rightarrow> (unit, calld) prog" where
  "kset_errmsg m =
     (if length m < MAXLINE then modify (\<lambda>s. s\<lparr>k_errmsg := m\<rparr>) else stop_with (Undefined ''errmsg overflow''))"

text \<open>The search loops take an entry per round: at most one per byte of the file.\<close>

fun dev_find_loop :: "nat \<Rightarrow> (int, calld) prog" where
  "dev_find_loop 0 = stop_with (Diverges ''dev_find'')"
| "dev_find_loop (Suc n) =
     bnd dev_next (\<lambda>r.
     if r < 0
     then bnd (gets (\<lambda>s. (sy_type (k_systems s), sy_class (k_systems s)))) (\<lambda>(ty, cl).
          bnd (kset_errmsg (''device '' @ quoted ty @ ''/'' @ quoted cl @ '' not found'' @ [NL])) (\<lambda>_. ret (-1)))
     else bnd (gets (\<lambda>s. dv_type (k_devices s) = Some (sy_type (k_systems s)) \<and>
                         dv_class (k_devices s) = sy_class (k_systems s))) (\<lambda>m.
          if m then ret 0 else dev_find_loop n))"

definition dev_find :: "(int, calld) prog" where
  "dev_find =
     bnd dev_rew (\<lambda>_.
     bnd (gets (\<lambda>s. Suc (length (file_bytes s DEVICES)))) dev_find_loop)"

subsection \<open>Dialers\<close>

definition dial_next :: "(int, calld) prog" where
  "dial_next =
     bnd (gets (\<lambda>s. (k_fpdial s, w_files s DIALERS))) (\<lambda>(fp, file).
     case file of
       None \<Rightarrow> log_sys (''can't open '' @ DIALERS)
     | Some c \<Rightarrow>
         bnd (if fp = None then modify (\<lambda>s. s\<lparr>k_fpdial := Some 0, k_diallineno := 0\<rparr>) else ret ()) (\<lambda>_.
         bnd (gets (\<lambda>s. conf_next parse_dial c (case k_fpdial s of None \<Rightarrow> 0 | Some p \<Rightarrow> p) (k_diallineno s)
                          (di_dialer (k_dialers s)))) (\<lambda>r.
         case r of
           CEof n f \<Rightarrow> bnd (modify (\<lambda>s. s\<lparr>k_fpdial := Some (length c), k_diallineno := n,
                              k_dialers := (k_dialers s)\<lparr>di_dialer := f\<rparr>\<rparr>)) (\<lambda>_. ret (-1))
         | CQuit msg \<Rightarrow> log_quit msg
         | CEntry e p n \<Rightarrow> bnd (modify (\<lambda>s. s\<lparr>k_fpdial := Some p, k_diallineno := n, k_dialers := e\<rparr>)) (\<lambda>_.
                             ret 0))))"

definition dial_rew :: "(unit, calld) prog" where
  "dial_rew = modify (\<lambda>s. s\<lparr>k_fpdial := (case k_fpdial s of None \<Rightarrow> None | Some _ \<Rightarrow> Some 0), k_diallineno := 0\<rparr>)"

text \<open>The error message names the last dialer of the file, not the one that was looked for.\<close>

fun dial_find_loop :: "nat \<Rightarrow> (int, calld) prog" where
  "dial_find_loop 0 = stop_with (Diverges ''dial_find'')"
| "dial_find_loop (Suc n) =
     bnd dial_next (\<lambda>r.
     if r < 0
     then bnd (gets (\<lambda>s. di_dialer (k_dialers s))) (\<lambda>d.
          case d of
            None \<Rightarrow> stop_with (Undefined ''null string printed'')
          | Some name \<Rightarrow> bnd (kset_errmsg (''dialer '' @ quoted name @ '' not found'' @ [NL])) (\<lambda>_. ret (-1)))
     else bnd (gets (\<lambda>s. di_dialer (k_dialers s) = Some (dv_dialer (k_devices s)))) (\<lambda>m.
          if m then ret 0 else dial_find_loop n))"

definition dial_find :: "(int, calld) prog" where
  "dial_find =
     bnd dial_rew (\<lambda>_.
     bnd (gets (\<lambda>s. Suc (length (file_bytes s DIALERS)))) dial_find_loop)"

end
