(* ===== verification/Calld_Dial.thy ===== *)
theory Calld_Dial
  imports Calld_Files Opend_Model
begin

text \<open>
  The dialing child of the server: \<^verbatim>\<open>ctlstr.c\<close>, \<^verbatim>\<open>debug.c\<close>, \<^verbatim>\<open>expectstr.c\<close>,
  \<^verbatim>\<open>sendstr.c\<close>, \<^verbatim>\<open>ttydial.c\<close>, \<^verbatim>\<open>ttyopen.c\<close> and \<^verbatim>\<open>childdial.c\<close>. What the line delivers is the list \<open>k_line\<close>: bytes, an alarm that
  interrupts the read, or an error. Delays are not modelled.
\<close>

subsection \<open>Debug output\<close>

text \<open>A \<open>char\<close> is signed, so the branch for characters above \<open>0177\<close> is never taken.\<close>

definition ctl_str :: "char \<Rightarrow> string" where
  "ctl_str c =
     (let n = (if of_char c < (128::int) then of_char c else of_char c - 256) in
      if n = 0 then [CHR 0x5C, CHR ''0'']
      else if n < 32 then [CHR ''^'', to_char (n + 65 - 1)]
      else if n = 127 then ''DEL''
      else [c])"

definition debug_line :: "string \<Rightarrow> (unit, calld) prog" where
  "debug_line line =
     (if length line < MAXLINE
      then bnd (gets k_clifd) (\<lambda>fd.
           bnd (writen fd line) (\<lambda>r.
           if r \<noteq> int (length line) then log_sys ''writen error'' else ret ()))
      else stop_with (Undefined ''line overflow''))"

definition DEBUG :: "string \<Rightarrow> (unit, calld) prog" where
  "DEBUG msg = bnd (gets k_Debug) (\<lambda>d. if \<not> d then ret () else debug_line (msg @ [NL]))"

definition DEBUG_NONL :: "string \<Rightarrow> (unit, calld) prog" where
  "DEBUG_NONL msg = bnd (gets k_Debug) (\<lambda>d. if \<not> d then ret () else debug_line msg)"

subsection \<open>Expecting\<close>

text \<open>
  The escape sequences of an expect string: the string to wait for, or the error message.
\<close>

fun exp_escape :: "string \<Rightarrow> string \<Rightarrow> string + string" where
  "exp_escape ptr [] = Inr []"
| "exp_escape ptr (c # cs) =
     (if c \<noteq> CHR 0x5C then map_sum id (\<lambda>r. c # r) (exp_escape ptr cs)
      else (case cs of
          [] \<Rightarrow> Inl (''invalid expect string: '' @ ptr @ [NL])
        | e # cs' \<Rightarrow>
            if e = CHR ''r'' then map_sum id (\<lambda>r. CHR 0x0D # r) (exp_escape ptr cs')
            else if e = CHR ''s'' then map_sum id (\<lambda>r. CHR '' '' # r) (exp_escape ptr cs')
            else Inl (''unknown expect escape char: '' @ [CHR 0x5C] @ ctl_str e @ [NL])))"

text \<open>
  \<open>exp_read\<close> has type \<open>size_t\<close> and returns -1 on every path, so that its callers' tests for
  a negative result are never true: all that matters is the byte it stores, if any.
\<close>

definition exp_read :: "(char option, calld) prog" where
  "exp_read =
     bnd (gets k_caught_alrm) (\<lambda>caught.
     if caught then bnd (DEBUG ([NL] @ ''read timeout'')) (\<lambda>_. ret None)
     else bnd (gets k_line) (\<lambda>l. case l of
       [] \<Rightarrow> stop_with (Blocked ''read'')
     | Byte c # l' \<Rightarrow> bnd (modify (\<lambda>s. s\<lparr>k_line := l'\<rparr>)) (\<lambda>_.
                     bnd (DEBUG_NONL (ctl_str c)) (\<lambda>_. ret (Some c)))
     | Timeout # l' \<Rightarrow> bnd (modify (\<lambda>s. s\<lparr>k_line := l', k_caught_alrm := True\<rparr>)) (\<lambda>_.
                      bnd (DEBUG ([NL] @ ''read timeout'')) (\<lambda>_. ret None))
     | RdErr # l' \<Rightarrow> log_sys ''read error''))"

text \<open>
  The loop that skips input up to the first character \<open>e0\<close> of the string; \<open>c\<close> is the
  variable it reads into. After an alarm nothing it looks at changes any more.
\<close>

fun exp_skip :: "nat \<Rightarrow> char \<Rightarrow> char \<Rightarrow> (unit, calld) prog" where
  "exp_skip 0 e0 c = stop_with (Diverges ''expect_str'')"
| "exp_skip (Suc n) e0 c =
     bnd exp_read (\<lambda>r.
     let c' = (case r of None \<Rightarrow> c | Some x \<Rightarrow> x) in
     if c' \<noteq> e0 then exp_skip n e0 c' else ret ())"

text \<open>
  Reading into \<open>inbuf[i]\<close>, which has \<open>MAXLINE\<close> bytes; where nothing is read the byte stays
  what it was.
\<close>

definition exp_store :: "nat \<Rightarrow> (nat \<Rightarrow> char) \<Rightarrow> (nat \<Rightarrow> char, calld) prog" where
  "exp_store i inbuf =
     (if i \<ge> MAXLINE then stop_with (Undefined ''inbuf overflow'')
      else bnd exp_read (\<lambda>r. ret (case r of None \<Rightarrow> inbuf | Some c \<Rightarrow> inbuf(i := c))))"

fun exp_fill :: "nat list \<Rightarrow> (nat \<Rightarrow> char) \<Rightarrow> (nat \<Rightarrow> char, calld) prog" where
  "exp_fill [] inbuf = ret inbuf"
| "exp_fill (i # is) inbuf = bnd (exp_store i inbuf) (exp_fill is)"

text \<open>The sliding comparison; \<open>n\<close> bounds the rounds by the size of the buffer.\<close>

fun exp_match :: "nat \<Rightarrow> string \<Rightarrow> nat \<Rightarrow> (nat \<Rightarrow> char) \<Rightarrow> (unit, calld) prog" where
  "exp_match 0 e p inbuf = stop_with (Diverges ''expect_str'')"
| "exp_match (Suc n) e p inbuf =
     (if map inbuf [p..<p + length e] = e then ret ()
      else bnd (exp_store (p + length e) inbuf) (exp_match n e (Suc p)))"

definition expect_str :: "string option \<Rightarrow> (int, calld) prog" where
  "expect_str ptr = (case ptr of
     None \<Rightarrow> stop_with (Undefined ''null expect string'')
   | Some str \<Rightarrow>
       bnd (if str = [CHR 0x22, CHR 0x22] then ret 0
            else (case exp_escape str str of
              Inl msg \<Rightarrow> bnd (kset_errmsg msg) (\<lambda>_. ret (-1))
            | Inr e \<Rightarrow>
                bnd (modify (\<lambda>s. s\<lparr>k_caught_alrm := False, k_alarm := True\<rparr>)) (\<lambda>_.
                bnd (gets (\<lambda>s. Suc (length (k_line s)))) (\<lambda>n.
                bnd (exp_skip n (case e of [] \<Rightarrow> NUL | x # _ \<Rightarrow> x) NUL) (\<lambda>_.
                bnd (gets (\<lambda>s. (k_stk s)(0 := (case e of [] \<Rightarrow> NUL | x # _ \<Rightarrow> x)))) (\<lambda>inbuf.
                bnd (exp_fill [1..<length e] inbuf) (\<lambda>inbuf.
                bnd (exp_match (Suc MAXLINE) e 0 inbuf) (\<lambda>_. ret 0)))))))) (\<lambda>r::int.
       if r < 0 then ret (-1)
       else bnd (modify (\<lambda>s. s\<lparr>k_alarm := False\<rparr>)) (\<lambda>_.
            bnd (DEBUG ([NL] @ ''expect: got it '')) (\<lambda>_. ret 0))))"

subsection \<open>Sending\<close>

text \<open>The echo check: input is read until the character comes back.\<close>

fun echo_wait :: "nat \<Rightarrow> char \<Rightarrow> (unit, calld) prog" where
  "echo_wait 0 c = stop_with (Diverges ''send_str'')"
| "echo_wait (Suc n) c =
     bnd (gets k_line) (\<lambda>l. case l of
       [] \<Rightarrow> stop_with (Blocked ''read'')
     | Byte x # l' \<Rightarrow> bnd (modify (\<lambda>s. s\<lparr>k_line := l'\<rparr>)) (\<lambda>_.
                     bnd (DEBUG_NONL (''{'' @ ctl_str x @ ''}'')) (\<lambda>_.
                     if x \<noteq> c then echo_wait n c else ret ()))
     | _ # l' \<Rightarrow> log_sys ''read error'')"

definition send_char :: "int \<Rightarrow> char \<Rightarrow> bool \<Rightarrow> (unit, calld) prog" where
  "send_char fd c echocheck =
     bnd (DEBUG_NONL (ctl_str c)) (\<lambda>_.
     bnd (writen fd [c]) (\<lambda>r.
     if r \<noteq> 1 then log_sys ''write error''
     else if echocheck then bnd (gets (\<lambda>s. Suc (length (k_line s)))) (\<lambda>n. echo_wait n c)
     else ret ()))"

definition send_end :: "int \<Rightarrow> (int, calld) prog" where
  "send_end fd =
     bnd (DEBUG_NONL (ctl_str (CHR 0x0D))) (\<lambda>_.
     bnd (sock_write fd [CHR 0x0D]) (\<lambda>r.
     if r \<noteq> 1 then log_sys ''write error'' else bnd (DEBUG []) (\<lambda>_. ret 0)))"

text \<open>
  \<open>send_str\<close>; \<open>d\<close> bounds the depth of the calls for \<open>\T\<close>, the phone number. A phone
  number that contains \<open>\T\<close> makes the code call itself without end.
\<close>

fun send_str :: "nat \<Rightarrow> int \<Rightarrow> string \<Rightarrow> string \<Rightarrow> bool \<Rightarrow> (int, calld) prog" where
  "send_str d fd [] phone echocheck = send_end fd"
| "send_str d fd (c # cs) phone echocheck =
     (if c \<noteq> CHR 0x5C
      then bnd (send_char fd c echocheck) (\<lambda>_. send_str d fd cs phone echocheck)
      else (case cs of
          [] \<Rightarrow> bnd (kset_errmsg (''backslash at end of send string'' @ [NL])) (\<lambda>_. ret (-1))
        | e # cs' \<Rightarrow>
            if e = CHR ''c'' then (if cs' = [] then bnd (DEBUG []) (\<lambda>_. ret 0) else send_str d fd cs' phone echocheck)
            else if e = CHR ''d'' then bnd (DEBUG_NONL ''<delay>'') (\<lambda>_. send_str d fd cs' phone echocheck)
            else if e = CHR ''p'' then bnd (DEBUG_NONL ''<pause>'') (\<lambda>_. send_str d fd cs' phone echocheck)
            else if e = CHR ''e'' then bnd (DEBUG_NONL ''<echo check off>'') (\<lambda>_. send_str d fd cs' phone False)
            else if e = CHR ''E'' then bnd (DEBUG_NONL ''<echo check on>'') (\<lambda>_. send_str d fd cs' phone True)
            else if e = CHR ''T''
            then bnd (case d of 0 \<Rightarrow> stop_with (Diverges ''send_str'')
                      | Suc d' \<Rightarrow> send_str d' fd phone phone echocheck) (\<lambda>_.
                 send_str d fd cs' phone echocheck)
            else if e = CHR ''r'' then bnd (send_char fd (CHR 0x0D) echocheck) (\<lambda>_. send_str d fd cs' phone echocheck)
            else if e = CHR ''s'' then bnd (send_char fd (CHR '' '') echocheck) (\<lambda>_. send_str d fd cs' phone echocheck)
            else bnd (kset_errmsg (''unknown send escape char: '' @ [CHR 0x5C] @ ctl_str e @ [NL])) (\<lambda>_. ret (-1))))"

subsection \<open>A chat\<close>

text \<open>\<open>tty_dial\<close>: expect and send strings in turn.\<close>

fun tty_chat :: "int \<Rightarrow> string \<Rightarrow> string list \<Rightarrow> (int, calld) prog" where
  "tty_chat fd phone [] = ret 0"
| "tty_chat fd phone [e] =
     bnd (DEBUG_NONL (''expect = '' @ e @ [NL] @ ''read: '')) (\<lambda>_.
     bnd (expect_str (Some e)) (\<lambda>r. if r < 0 then ret (-1) else ret 0))"
| "tty_chat fd phone (e # x # rest) =
     bnd (DEBUG_NONL (''expect = '' @ e @ [NL] @ ''read: '')) (\<lambda>_.
     bnd (expect_str (Some e)) (\<lambda>r.
     if r < 0 then ret (-1)
     else bnd (DEBUG_NONL (''send = '' @ x @ [NL] @ ''write: '')) (\<lambda>_.
     bnd (send_str 1 fd x phone False) (\<lambda>r.
     if r < 0 then ret (-1) else tty_chat fd phone rest))))"

definition tty_dial :: "int \<Rightarrow> string \<Rightarrow> string \<Rightarrow> (int, calld) prog" where
  "tty_dial fd phone expsend =
     (case tokens expsend of [] \<Rightarrow> stop_with (Undefined ''null expect string'') | ts \<Rightarrow> tty_chat fd phone ts)"

subsection \<open>The line\<close>

definition baud_rate :: "string \<Rightarrow> int option" where
  "baud_rate cls = map_of [(''38400'', 38400), (''19200'', 19200), (''9600'', 9600), (''4800'', 4800), (''2400'', 2400),
     (''1800'', 1800), (''1200'', 1200), (''600'', 600), (''300'', 300), (''200'', 200), (''150'', 150), (''134'', 134),
     (''110'', 110), (''75'', 75), (''50'', 50)] cls"

definition line_cflag :: "parity \<Rightarrow> bool \<Rightarrow> int" where
  "line_cflag p modem =
     ((case p of NONE \<Rightarrow> CS8 | EVEN \<Rightarrow> CS7 OR PARENB | ODD \<Rightarrow> CS7 OR PARENB OR PARODD) OR (CREAD OR HUPCL)) OR
     (if modem then 0 else CLOCAL)"

definition line_termios :: "parity \<Rightarrow> bool \<Rightarrow> int \<Rightarrow> termios \<Rightarrow> termios" where
  "line_termios p modem baud t =
     t\<lparr>t_cflag := line_cflag p modem, t_oflag := 0, t_iflag := IXON OR IXOFF OR IGNBRK OR ISTRIP OR IGNPAR,
       t_lflag := 0, t_vmin := 1, t_vtime := 0, t_speed := baud\<rparr>"

definition tty_open :: "string \<Rightarrow> string \<Rightarrow> parity \<Rightarrow> bool \<Rightarrow> (int, calld) prog" where
  "tty_open cls line p modem =
     (let devname = ''/dev/'' @ line in
      if length devname \<ge> 100 then stop_with (Undefined ''devname overflow'')
      else bnd (sys_open devname (O_RDWR OR O_NONBLOCK)) (\<lambda>fd.
      if fd < 0
      then bnd (gets w_errno) (\<lambda>e.
           bnd (kset_errmsg (''can't open '' @ devname @ '': '' @ strerror e @ [NL])) (\<lambda>_. ret (-1)))
      else bnd (isatty fd) (\<lambda>b.
      if b = 0 then bnd (kset_errmsg (devname @ '' is not a tty'' @ [NL])) (\<lambda>_. ret (-1))
      else bnd (gets (tcgetattr fd)) (\<lambda>r. case r of
        None \<Rightarrow> log_sys ''tcgetattr error''
      | Some term \<Rightarrow>
          (case baud_rate cls of
            None \<Rightarrow> bnd (kset_errmsg (''invalid baud rate: '' @ cls @ [NL])) (\<lambda>_. ret (-1))
          | Some baud \<Rightarrow>
              bnd (tcsetattr fd False (line_termios p modem baud term)) (\<lambda>r.
              if r < 0 then log_sys ''tcsetattr error''
              else bnd (DEBUG ''tty open'') (\<lambda>_.
              bnd (clr_fl fd O_NONBLOCK) (\<lambda>_. ret fd))))))))"

text \<open>\<open>child_dial\<close>: in the child, for client \<open>i\<close>. It never returns.\<close>

definition child_die :: "int \<Rightarrow> (unit, calld) prog" where
  "child_die clifd =
     bnd (gets k_errmsg) (\<lambda>m.
     bnd (writen clifd m) (\<lambda>r.
     if r \<noteq> int (length m) then log_sys ''writen error'' else stop_with (Exit 1 [])))"

definition child_connect :: "nat \<Rightarrow> (int, calld) prog" where
  "child_connect i =
     bnd (gets (\<lambda>s. (k_systems s, k_devices s, cc_parity (k_client s ! i)))) (\<lambda>(sy, dv, p).
     if dv_dialer dv = ''direct'' then tty_open (sy_class sy) (dv_line dv) p False
     else bnd dial_find (\<lambda>r.
     if r < 0 then ret (-1)
     else bnd (tty_open (sy_class sy) (dv_line dv) p True) (\<lambda>fd.
     if fd < 0 then ret (-1)
     else bnd (gets (\<lambda>s. di_expsend (k_dialers s))) (\<lambda>es.
     bnd (tty_dial fd (sy_phone sy) es) (\<lambda>r.
     if r < 0 then ret (-1) else ret fd)))))"

definition child_dial :: "nat \<Rightarrow> int \<Rightarrow> (unit, calld) prog" where
  "child_dial i pid =
     bnd (modify (\<lambda>s. s\<lparr>k_Debug := cc_Debug (k_client s ! i)\<rparr>)) (\<lambda>_.
     bnd (DEBUG (''child, pid '' @ fmt_d pid)) (\<lambda>_.
     bnd (child_connect i) (\<lambda>fd.
     bnd (gets (\<lambda>s. cc_fd (k_client s ! i))) (\<lambda>clifd.
     if fd < 0 then child_die clifd
     else bnd (DEBUG ''done'') (\<lambda>_.
     bnd (send_fd clifd fd) (\<lambda>r.
     if r < 0 then log_sys ''send_fd error'' else stop_with (Exit 0 [])))))))"

end
