(* ===== verification/Calld_Server.thy ===== *)
theory Calld_Server
  imports Calld_Dial
begin

text \<open>
  The dial server itself: the arguments of a request (\<^verbatim>\<open>cliargs.c\<close>), one request
  (\<^verbatim>\<open>request.c\<close>), the \<open>SIGCHLD\<close> handler (\<^verbatim>\<open>sigchld.c\<close>), the loop with
  \<open>child_done\<close> and \<open>cli_done\<close> (\<^verbatim>\<open>loop.c\<close>) and \<open>main\<close> (\<^verbatim>\<open>server-main.c\<close>).

  \<open>fork\<close> gives the parent the next process ID of \<open>k_pids\<close>; what the child does is
  \<open>child_dial\<close>, run from the same state. The handler runs where \<open>deliver\<close> stands: while
  \<open>select\<close> waits, and before each entry that \<open>child_done\<close> looks at. Log messages and the
  pipes of \<open>TELL_WAIT\<close> are not part of this state.
\<close>

subsection \<open>The arguments of a request\<close>

definition copt :: "opt \<Rightarrow> (int, calld) prog" where
  "copt o' = (case o' of
     Opt c \<Rightarrow>
       bnd (modify (\<lambda>s. if c = CHR ''d'' then s\<lparr>k_Debug := True\<rparr>
                         else s\<lparr>k_parity := (if c = CHR ''e'' then EVEN else ODD)\<rparr>)) (\<lambda>_. ret 0)
   | OptArg c a \<Rightarrow> bnd (modify (\<lambda>s. s\<lparr>k_speed := Some a\<rparr>)) (\<lambda>_. ret 0)
   | BadOpt c \<Rightarrow> bnd (kset_errmsg (''unrecognized option: -'' @ [c, NL])) (\<lambda>_. ret (-1)))"

fun copts :: "opt list \<Rightarrow> (int, calld) prog" where
  "copts [] = ret 0"
| "copts (o' # os) = bnd (copt o') (\<lambda>r. if r < 0 then ret r else copts os)"

definition kcli_args :: "string list \<Rightarrow> (int, calld) prog" where
  "kcli_args argv =
     (if length argv < 2 \<or> argv ! 0 \<noteq> CL_CALL
      then bnd (kset_errmsg ''usage: call <options><hostname>'') (\<lambda>_. ret (-1))
      else bnd (modify (\<lambda>s. s\<lparr>k_Debug := False, k_parity := NONE, k_speed := None\<rparr>)) (\<lambda>_.
      case getopts ''deo'' ''s'' [] (tl argv) of (os, rest) \<Rightarrow>
        bnd (copts os) (\<lambda>r.
        if r < 0 then ret (-1)
        else (case rest of
            host # _ \<Rightarrow> bnd (modify (\<lambda>s. s\<lparr>k_sysname := host\<rparr>)) (\<lambda>_. ret 0)
          | [] \<Rightarrow> bnd (kset_errmsg (''missing <hostname> to call'' @ [NL])) (\<lambda>_. ret (-1))))))"

subsection \<open>One request\<close>

definition upd_client :: "nat \<Rightarrow> (cclient \<Rightarrow> cclient) \<Rightarrow> (unit, calld) prog" where
  "upd_client i f = modify (\<lambda>s. s\<lparr>k_client := (k_client s)[i := f (k_client s ! i)]\<rparr>)"

definition fork_child :: "(int, calld) prog" where
  "fork_child = (\<lambda>s. case k_pids s of
     [] \<Rightarrow> fail EAGAIN s
   | p # ps \<Rightarrow> Ok p (s\<lparr>k_pids := ps\<rparr>))"

definition start_child :: "nat \<Rightarrow> (int, calld) prog" where
  "start_child i =
     bnd fork_child (\<lambda>pid.
     bnd (upd_client i (\<lambda>c. c\<lparr>cc_pid := pid\<rparr>)) (\<lambda>_.
     if pid < 0 then log_sys ''fork error''
     else bnd (gets (\<lambda>s. dv_line (k_devices s))) (\<lambda>line.
     bnd (lock_set line pid) (\<lambda>_. ret 0))))"

text \<open>What follows the loop over the \<^verbatim>\<open>Systems\<close> file.\<close>

definition request_fails :: "nat \<Rightarrow> (int, calld) prog" where
  "request_fails i =
     bnd (gets (\<lambda>s. (k_client s ! i, k_errmsg s))) (\<lambda>(c, m).
     bnd (if cc_foundone c = 0 then kset_errmsg (''system '' @ quoted (cc_sysname c) @ '' not found'' @ [NL])
          else if m = [] then kset_errmsg (''unable to connect to system '' @ quoted (cc_sysname c) @ [NL])
          else ret ()) (\<lambda>_.
     ret (-1)))"

definition sys_matches :: "cclient \<Rightarrow> systems \<Rightarrow> bool" where
  "sys_matches c sy \<longleftrightarrow> sy_name sy = Some (cc_sysname c) \<and> (cc_speed c = [] \<or> cc_speed c = sy_class sy)"

definition debug_sys :: "systems \<Rightarrow> string" where
  "debug_sys sy = ''trying sys: '' @ (case sy_name sy of None \<Rightarrow> [] | Some n \<Rightarrow> n) @ '', '' @ sy_type sy @ '', '' @
     sy_class sy @ '', '' @ sy_phone sy"

definition debug_dev :: "devices \<Rightarrow> string" where
  "debug_dev dv = ''trying dev: '' @ (case dv_type dv of None \<Rightarrow> [] | Some n \<Rightarrow> n) @ '', '' @ dv_line dv @ '', '' @
     dv_class dv @ '', '' @ dv_dialer dv"

text \<open>An entry of \<^verbatim>\<open>Systems\<close> that matches; \<open>again\<close> is the rest of the loop.\<close>

definition try_device :: "(int, calld) prog \<Rightarrow> nat \<Rightarrow> (int, calld) prog" where
  "try_device again i =
     bnd dev_find (\<lambda>r.
     if r < 0 then request_fails i
     else bnd (gets k_devices) (\<lambda>dv.
     bnd (DEBUG (debug_dev dv)) (\<lambda>_.
     bnd (is_locked (dv_line dv)) (\<lambda>pid.
     if pid \<noteq> 0
     then bnd (kset_errmsg (''device '' @ quoted (dv_line dv) @ '' already locked by pid '' @ fmt_d pid @ [NL])) (\<lambda>_.
          again)
     else start_child i))))"

text \<open>The loop reads an entry of the file per round: at most one per byte.\<close>

fun request_loop :: "nat \<Rightarrow> nat \<Rightarrow> (int, calld) prog" where
  "request_loop 0 i = stop_with (Diverges ''request'')"
| "request_loop (Suc n) i =
     bnd sys_next (\<lambda>pos.
     bnd (upd_client i (\<lambda>c. c\<lparr>cc_sysftell := pos\<rparr>)) (\<lambda>_.
     if pos < 0 then request_fails i
     else bnd (gets (\<lambda>s. (sys_matches (k_client s ! i) (k_systems s), k_systems s))) (\<lambda>(m, sy).
     if \<not> m then request_loop n i
     else bnd (DEBUG (debug_sys sy)) (\<lambda>_.
     bnd (upd_client i (\<lambda>c. c\<lparr>cc_foundone := cc_foundone c + 1\<rparr>)) (\<lambda>_.
     try_device (request_loop n i) i)))))"

definition request :: "nat \<Rightarrow> (int, calld) prog" where
  "request i =
     bnd (modify (\<lambda>s. s\<lparr>k_errmsg := []\<rparr>)) (\<lambda>_.
     bnd (gets (\<lambda>s. cc_sysftell (k_client s ! i))) (\<lambda>pos.
     bnd (sys_posn pos) (\<lambda>_.
     bnd (gets (\<lambda>s. Suc (length (file_bytes s SYSTEMS)))) (\<lambda>n. request_loop n i))))"

subsection \<open>Children that end\<close>

definition sig_chld :: "(unit, calld) prog" where
  "sig_chld =
     bnd (modify (\<lambda>s. s\<lparr>k_chld_flag := True\<rparr>)) (\<lambda>_.
     bnd (gets k_zombies) (\<lambda>z. case z of
       [] \<Rightarrow> log_sys ''waitpid error''
     | (pid, st) # zs \<Rightarrow>
         bnd (modify (\<lambda>s. s\<lparr>k_zombies := zs\<rparr>)) (\<lambda>_.
         case st of None \<Rightarrow> ret () | Some x \<Rightarrow> cclient_sigchld pid (x + 1))))"

text \<open>Whether a signal arrives here; one is sent for every child that ends.\<close>

definition deliver :: "(bool, calld) prog" where
  "deliver =
     bnd (gets (\<lambda>s. (k_sigs s, k_zombies s))) (\<lambda>(b, z).
     bnd (modify (\<lambda>s. s\<lparr>k_sigs := tl b\<rparr>)) (\<lambda>_.
     if b \<noteq> [] \<and> hd b \<and> z \<noteq> [] then bnd sig_chld (\<lambda>_. ret True) else ret False))"

definition cli_done :: "int \<Rightarrow> (unit, calld) prog" where
  "cli_done fd =
     bnd (cclient_del fd) (\<lambda>_.
     bnd (modify (\<lambda>s. s\<lparr>k_allset := k_allset s - {fd}\<rparr>)) (\<lambda>_.
     bnd (sys_close fd) (\<lambda>_. ret ())))"

text \<open>A client that is told that its request failed, and dropped.\<close>

definition cli_refuse :: "nat \<Rightarrow> (unit, calld) prog" where
  "cli_refuse i =
     bnd (gets (\<lambda>s. (k_n0 s, cc_fd (k_client s ! i), k_errmsg s, k_clifd s))) (\<lambda>(n0, fd, m, clifd).
     bnd (send_err n0 fd (-1) m) (\<lambda>r.
     if r < 0 then log_sys ''send_err error'' else cli_done clifd))"

definition child_done_one :: "nat \<Rightarrow> (unit, calld) prog" where
  "child_done_one i =
     bnd deliver (\<lambda>_.
     bnd (modify (\<lambda>s. s\<lparr>k_clifd := cc_fd (k_client s ! i)\<rparr>)) (\<lambda>_.
     bnd (gets (\<lambda>s. k_client s ! i)) (\<lambda>c.
     if cc_fd c < 0 \<or> cc_childdone c = 0 then ret ()
     else bnd (upd_client i (\<lambda>c. c\<lparr>cc_childdone := 0\<rparr>)) (\<lambda>_.
     if cc_childdone c = 1 then ret ()
     else bnd (lock_rel (cc_pid c)) (\<lambda>_.
     bnd (request i) (\<lambda>r.
     if r < 0 then cli_refuse i else ret ()))))))"

fun child_done_pass :: "nat list \<Rightarrow> (unit, calld) prog" where
  "child_done_pass [] = ret ()"
| "child_done_pass (i # ks) = bnd (child_done_one i) (\<lambda>_. child_done_pass ks)"

text \<open>The label \<open>again\<close>: another pass when a signal was caught. Each signal takes a child from \<open>k_zombies\<close>.\<close>

fun child_done_again :: "nat \<Rightarrow> int \<Rightarrow> (unit, calld) prog" where
  "child_done_again 0 maxi = stop_with (Diverges ''child_done'')"
| "child_done_again (Suc n) maxi =
     bnd (modify (\<lambda>s. s\<lparr>k_chld_flag := False\<rparr>)) (\<lambda>_.
     bnd (child_done_pass [0..<nat (maxi + 1)]) (\<lambda>_.
     bnd (gets k_chld_flag) (\<lambda>b. if b then child_done_again n maxi else ret ())))"

definition child_done :: "int \<Rightarrow> (unit, calld) prog" where
  "child_done maxi = bnd (gets (\<lambda>s. Suc (length (k_zombies s)))) (\<lambda>n. child_done_again n maxi)"

subsection \<open>The loop\<close>

definition kreadable :: "calld \<Rightarrow> int \<Rightarrow> bool" where
  "kreadable s fd \<longleftrightarrow> (if fd = k_listen s then s_pending s \<noteq> [] else s_in s fd \<noteq> [] \<or> s_hup s fd)"

text \<open>\<open>None\<close> when a signal interrupts the call.\<close>

definition kselect :: "(int set option, calld) prog" where
  "kselect =
     bnd deliver (\<lambda>sig.
     if sig then ret None
     else (\<lambda>s. let rset = Set.filter (\<lambda>fd. fd \<le> k_maxfd s \<and> kreadable s fd) (k_allset s) in
               if rset = {} then Halt (Blocked ''select'') s else Ok (Some rset) s))"

definition kloop_init :: "(unit, calld) prog" where
  "kloop_init =
     bnd (serv_listen CS_CALL) (\<lambda>listenfd.
     if listenfd < 0 then log_sys ''serv_listen error''
     else modify (\<lambda>s. s\<lparr>k_listen := listenfd, k_allset := {listenfd}, k_maxfd := listenfd, k_maxi := -1\<rparr>))"

definition kaccept :: "(unit, calld) prog" where
  "kaccept =
     bnd serv_accept (\<lambda>(clifd, uid).
     bnd (modify (\<lambda>s. s\<lparr>k_clifd := clifd\<rparr>)) (\<lambda>_.
     if clifd < 0 then log_sys (''serv_accept error: '' @ fmt_d clifd)
     else bnd (cclient_add clifd uid) (\<lambda>i.
     modify (\<lambda>s. s\<lparr>k_allset := insert clifd (k_allset s), k_maxfd := max clifd (k_maxfd s),
                   k_maxi := max (int i) (k_maxi s)\<rparr>))))"

text \<open>
  The options of the request are saved in the client's entry, in arrays of 256 bytes that
  \<open>strcpy\<close> does not check.
\<close>

definition save_options :: "nat \<Rightarrow> (unit, calld) prog" where
  "save_options i =
     bnd (gets (\<lambda>s. (k_Debug s, k_parity s, k_sysname s, case k_speed s of None \<Rightarrow> [] | Some x \<Rightarrow> x)))
       (\<lambda>(dbg, par, name, spd).
     if length name \<ge> MAXSYSNAME \<or> length spd \<ge> MAXSPEEDSTR then stop_with (Undefined ''strcpy overflow'')
     else upd_client i (\<lambda>c. c\<lparr>cc_Debug := dbg, cc_parity := par, cc_sysname := name, cc_speed := spd,
            cc_childdone := 0, cc_sysftell := 0, cc_foundone := 0\<rparr>))"

definition krequest :: "nat \<Rightarrow> string \<Rightarrow> (unit, calld) prog" where
  "krequest i buf =
     (if last buf \<noteq> NUL then log_quit ''request not null terminated''
      else bnd (buf_args buf kcli_args) (\<lambda>r.
      if r < 0 then log_quit ''command line error''
      else bnd (save_options i) (\<lambda>_.
      bnd (request i) (\<lambda>r.
      if r < 0 then cli_refuse i else ret ()))))"

definition kserve :: "int set \<Rightarrow> nat \<Rightarrow> (unit, calld) prog" where
  "kserve rset i =
     bnd (modify (\<lambda>s. s\<lparr>k_clifd := cc_fd (k_client s ! i)\<rparr>)) (\<lambda>_.
     bnd (gets (\<lambda>s. (k_clifd s, cc_pid (k_client s ! i)))) (\<lambda>(clifd, pid).
     if clifd < 0 \<or> clifd \<notin> rset then ret ()
     else bnd (sock_read clifd MAXLINE) (\<lambda>r. case r of
       None \<Rightarrow> log_sys (''read error on fd '' @ fmt_d clifd)
     | Some buf \<Rightarrow> if buf = [] then bnd (lock_rel pid) (\<lambda>_. cli_done clifd) else krequest i buf)))"

fun kserve_all :: "int set \<Rightarrow> nat list \<Rightarrow> (unit, calld) prog" where
  "kserve_all rset [] = ret ()"
| "kserve_all rset (i # ks) = bnd (kserve rset i) (\<lambda>_. kserve_all rset ks)"

definition kloop_round :: "(unit, calld) prog" where
  "kloop_round =
     bnd (gets (\<lambda>s. (k_chld_flag s, k_maxi s))) (\<lambda>(flag, maxi).
     bnd (if flag then child_done maxi else ret ()) (\<lambda>_.
     bnd kselect (\<lambda>r. case r of
       None \<Rightarrow> child_done maxi
     | Some rset \<Rightarrow>
         bnd (gets k_listen) (\<lambda>listenfd.
         if listenfd \<in> rset then kaccept else kserve_all rset [0..<nat (maxi + 1)]))))"

text \<open>The daemon's own options, and how it starts.\<close>

definition server_options :: "string list \<Rightarrow> (bool, calld) prog" where
  "server_options argv = (case getopts ''d'' [] [] (tl argv) of (os, _) \<Rightarrow>
     (case find (\<lambda>o'. case o' of BadOpt _ \<Rightarrow> True | _ \<Rightarrow> False) os of
        Some (BadOpt c) \<Rightarrow> log_quit (''unrecognized option:  -'' @ [c])
      | _ \<Rightarrow> ret (os \<noteq> [])))"

definition calld_main :: "string list \<Rightarrow> (unit, calld) prog \<Rightarrow> (unit, calld) prog" where
  "calld_main argv daemon_init =
     bnd (server_options argv) (\<lambda>debug.
     bnd (if debug then ret () else daemon_init) (\<lambda>_. kloop_init))"

end
