(* ===== verification/Calld_Frames.thy ===== *)
theory Calld_Frames
  imports Calld_Server
begin

text \<open>
  What the functions of the dial server leave alone. The lock table and the process IDs that
  \<open>fork\<close> will give (\<open>klk\<close>) change only where a child is started, where a lock is released and
  where the table gets an entry for a new line.
\<close>

lemma keeps_conf [frame]:
  "(\<And>n f. keeps R (a n f)) \<Longrightarrow> (\<And>m. keeps R (b m)) \<Longrightarrow> (\<And>e p n. keeps R (d e p n)) \<Longrightarrow>
    keeps R (case r of CEof n f \<Rightarrow> a n f | CQuit m \<Rightarrow> b m | CEntry e p n \<Rightarrow> d e p n)"
  by (simp split: conf.split)

subsection \<open>Parts of the state\<close>

text \<open>
  A part of the state that does not depend on what a group of functions changes is left alone by
  them: output to the client, the search through \<^verbatim>\<open>Devices\<close>, and the lock table's memory.
\<close>

locale quiet_part =
  fixes part :: "calld \<Rightarrow> 'v"
  assumes part_out: "part (s\<lparr>s_out := a\<rparr>) = part s" and part_wr: "part (s\<lparr>s_wr := b\<rparr>) = part s"
    and part_errno: "part (s\<lparr>w_errno := e\<rparr>) = part s"
begin

lemma part_write [frame]: "keeps (same part) (sock_write fd bs)"
  by (auto simp: keeps_def same_def sock_write_def fail_def sock_put_def Let_def part_out part_wr part_errno split: list.splits)

lemma part_writen_loop: "keeps (same part) (writen_loop k n fd bs)"
  by (induction k arbitrary: bs; unfold writen_loop.simps; intro frame)

lemma part_writen [frame]: "keeps (same part) (writen fd bs)"
  unfolding writen_def by (rule part_writen_loop)

lemma part_err [frame]:
  "keeps (same part) (err_sys m)" "keeps (same part) (err_quit m)" "keeps (same part) (err_dump m)"
  "keeps (same part) (log_sys m)" "keeps (same part) (log_quit m)"
  unfolding err_sys_def err_quit_def err_dump_def log_sys_def log_quit_def by (intro frame)+

lemma part_DEBUG [frame]: "keeps (same part) (DEBUG m)" "keeps (same part) (DEBUG_NONL m)"
  unfolding DEBUG_def DEBUG_NONL_def debug_line_def by (intro frame)+

end

locale device_part = quiet_part part for part :: "calld \<Rightarrow> 'v" +
  assumes part_fpdev: "part (s\<lparr>k_fpdev := a\<rparr>) = part s" and part_devlineno: "part (s\<lparr>k_devlineno := b\<rparr>) = part s"
    and part_devices: "part (s\<lparr>k_devices := d\<rparr>) = part s" and part_errmsg: "part (s\<lparr>k_errmsg := m\<rparr>) = part s"
begin

lemma part_kset_errmsg [frame]: "keeps (same part) (kset_errmsg m)"
  unfolding kset_errmsg_def by (intro frame keeps_same_modify) (simp_all add: part_errmsg)

lemma part_dev_next [frame]: "keeps (same part) dev_next" "keeps (same part) dev_rew"
  unfolding dev_next_def dev_rew_def
  by (intro frame keeps_same_modify; simp add: part_fpdev part_devlineno part_devices)+

lemma part_dev_find_loop: "keeps (same part) (dev_find_loop n)"
  by (induction n; unfold dev_find_loop.simps; intro frame)

lemma part_dev_find [frame]: "keeps (same part) dev_find"
  unfolding dev_find_def by (intro frame part_dev_find_loop)

end

locale table_part = quiet_part part for part :: "calld \<Rightarrow> 'v" +
  assumes part_mem: "part (s\<lparr>w_mem := n\<rparr>) = part s" and part_lock_size: "part (s\<lparr>k_lock_size := n\<rparr>) = part s"
    and part_lock: "part (s\<lparr>k_lock := ls\<rparr>) = part s"
begin

lemma part_malloc [frame]: "keeps (same part) (sys_malloc n)"
  by (simp add: keeps_def same_def sys_malloc_def part_mem)

lemma part_find_line [frame]: "keeps (same part) (find_line l)"
  unfolding find_line_def by (intro frame keeps_same_modify) (simp_all add: part_lock_size part_lock)

lemma part_is_locked [frame]: "keeps (same part) (is_locked l)"
  unfolding is_locked_def by (intro frame)

lemma part_lock_set [frame]: "keeps (same part) (lock_set l p)"
  unfolding lock_set_def by (intro frame keeps_same_modify) (simp add: part_lock)

end

subsection \<open>The lock table\<close>

definition klk :: "calld \<Rightarrow> clock list \<times> int list" where
  "klk s = (k_lock s, k_pids s)"

abbreviation leaves :: "('a, calld) prog \<Rightarrow> bool" where
  "leaves m \<equiv> keeps (same klk) m"

interpretation klk: device_part klk
  by unfold_locales (simp_all add: klk_def)

lemma leavesI: "(\<And>s. klk (final (m s)) = klk s) \<Longrightarrow> leaves m"
  by (simp add: keeps_def same_def)

lemma leaves_modify: "(\<And>s. k_lock (g s) = k_lock s) \<Longrightarrow> (\<And>s. k_pids (g s) = k_pids s) \<Longrightarrow> leaves (modify g)"
  by (simp add: keeps_same_modify klk_def)

subsection \<open>System calls\<close>

lemma leaves_fail [frame]: "leaves (fail e)"
  by (rule leavesI) (simp add: fail_def klk_def)

lemma leaves_sock [frame]: "leaves (sock_read fd n)" "leaves (sendmsg fd bs d)"
  by (rule leavesI, auto simp: sock_read_def sendmsg_def fail_def klk_def sock_put_def Let_def
      split: list.splits option.splits)+

lemma leaves_malloc [frame]: "leaves (sys_malloc n)"
  by (rule leavesI) (simp add: sys_malloc_def klk_def)

lemma leaves_close [frame]: "leaves (sys_close fd)"
  by (rule leavesI) (simp add: sys_close_def fail_def klk_def split: option.split)

lemma leaves_accept [frame]: "leaves sys_accept"
  by (rule leavesI) (simp add: sys_accept_def klk_def split: list.split option.split)

lemma leaves_unlink [frame]: "leaves (sys_unlink a)"
  by (rule leavesI) (simp add: sys_unlink_def klk_def)

lemma leaves_cmptr [frame]: "leaves cmptr_alloc"
  unfolding cmptr_alloc_def by (intro frame leaves_modify) simp_all

lemma leaves_send_fd [frame]: "leaves (send_fd c fd)"
  unfolding send_fd_def Let_def by (intro frame)

lemma leaves_send_err [frame]: "leaves (send_err n0 c e m)"
  unfolding send_err_def by (intro frame)

lemma leaves_serv_accept [frame]: "leaves serv_accept"
  unfolding serv_accept_def by (intro frame)

subsection \<open>Messages and files\<close>

lemma leaves_upd_client [frame]: "leaves (upd_client i f)"
  unfolding upd_client_def by (rule leaves_modify) simp_all

lemma leaves_sys [frame]: "leaves sys_next" "leaves sys_rew" "leaves (sys_posn p)"
  unfolding sys_next_def sys_rew_def sys_posn_def by (intro frame leaves_modify; simp)+

subsection \<open>Requests and clients\<close>

lemma leaves_copts: "leaves (copts os)"
proof (induction os)
  case (Cons o' os)
  have "leaves (copt o')"
    unfolding copt_def by (cases o') (auto intro!: frame leaves_modify)
  then show ?case using Cons unfolding copts.simps by (intro frame)
qed (unfold copts.simps, intro frame)

lemma leaves_cli_args [frame]: "leaves (kcli_args argv)"
  unfolding kcli_args_def by (auto intro!: frame leaves_modify leaves_copts split: list.split)

lemma leaves_buf_args [frame]: "leaves (buf_args buf kcli_args)"
  unfolding buf_args_def by (intro frame)

lemma leaves_save_options [frame]: "leaves (save_options i)"
  unfolding save_options_def by (auto intro!: frame)

lemma leaves_request_fails [frame]: "leaves (request_fails i)"
  unfolding request_fails_def by (intro frame)

lemma leaves_client_del [frame]: "leaves (cclient_del fd)"
  unfolding cclient_del_def by (intro frame leaves_modify) simp_all

lemma leaves_client_sigchld [frame]: "leaves (cclient_sigchld pid st)"
  unfolding cclient_sigchld_def by (intro frame leaves_modify) simp_all

lemma leaves_client_alloc [frame]: "leaves cclient_alloc"
  unfolding cclient_alloc_def by (intro frame leaves_modify) simp_all

lemma leaves_client_search: "leaves (cclient_search n fd uid)"
  by (induction n; unfold cclient_search.simps; intro frame leaves_modify; simp)

lemma leaves_client_add [frame]: "leaves (cclient_add fd uid)"
  unfolding cclient_add_def by (intro frame leaves_client_search)

lemma leaves_sig_chld [frame]: "leaves sig_chld"
  unfolding sig_chld_def by (auto intro!: frame leaves_modify split: list.split)

lemma leaves_deliver [frame]: "leaves deliver"
  unfolding deliver_def by (auto intro!: frame leaves_modify)

lemma leaves_cli_done [frame]: "leaves (cli_done fd)"
  unfolding cli_done_def by (intro frame leaves_modify) simp_all

lemma leaves_cli_refuse [frame]: "leaves (cli_refuse i)"
  unfolding cli_refuse_def by (auto intro!: frame)

lemma leaves_kselect [frame]: "leaves kselect"
proof -
  have "leaves (\<lambda>s. let rset = Set.filter (\<lambda>fd. fd \<le> k_maxfd s \<and> kreadable s fd) (k_allset s) in
      if rset = {} then Halt (Blocked ''select'') s else Ok (Some rset) s)"
    by (rule leavesI) (simp add: Let_def)
  then show ?thesis unfolding kselect_def by (auto intro!: frame)
qed

lemma leaves_kaccept [frame]: "leaves kaccept"
  unfolding kaccept_def by (auto intro!: frame leaves_modify)

end
