(* ===== verification/Calld_Inv.thy ===== *)
theory Calld_Inv
  imports Calld_Frames
begin

text \<open>
  The lock table through the life of the server: a request takes a line only when it is free,
  and every step of the server keeps the table in order.
\<close>

text \<open>
  Every line has one entry, no process holds two lines, and the process IDs that \<open>fork\<close> is
  going to give are new: positive, different, and holding no line.
\<close>

definition klock_inv :: "calld \<Rightarrow> bool" where
  "klock_inv s \<longleftrightarrow> k_ok s \<and> distinct (k_pids s) \<and> (\<forall>p\<in>set (k_pids s). 0 < p \<and> (\<forall>l. k_held s l \<noteq> p))"

lemma klk_same: "klk t = klk s \<Longrightarrow> klock_inv t = klock_inv s \<and> k_held t = k_held s \<and> k_pids t = k_pids s"
  by (simp add: klk_def klock_inv_def k_held_def)

lemma leaves_inv:
  assumes "leaves m" and "klock_inv s"
  shows "ens m s (\<lambda>_ t. klock_inv t \<and> k_held t = k_held s \<and> k_pids t = k_pids s)"
proof (rule ens_conseq[OF keeps_ens[OF assms(1)]])
  fix x t
  assume "klk t = klk s"
  from klk_same[OF this] assms(2) show "klock_inv t \<and> k_held t = k_held s \<and> k_pids t = k_pids s" by simp
qed

lemma leaves_step:
  assumes "leaves m" and "klock_inv s"
    and "\<And>x t. klock_inv t \<Longrightarrow> k_held t = k_held s \<Longrightarrow> k_pids t = k_pids s \<Longrightarrow> ens (f x) t Q"
  shows "ens (bnd m f) s Q"
  by (rule ens_step[OF leaves_inv[OF assms(1,2)]]) (use assms(3) in auto)

subsection \<open>Testing, taking and releasing\<close>

lemma find_line_pids: "ens (find_line l) s (\<lambda>_ t. k_pids t = k_pids s \<and> k_client t = k_client s \<and> k_devices t = k_devices s)"
  by (auto simp: find_line_def ens_def bnd_apply sys_malloc_def split: option.split)

lemma is_locked_inv:
  assumes "klock_inv s"
  shows "ens (is_locked l) s (\<lambda>p t. klock_inv t \<and> p = k_held s l \<and> k_held t = k_held s \<and> k_pids t = k_pids s \<and>
    k_devices t = k_devices s)"
proof -
  have "k_ok s" using assms by (simp add: klock_inv_def)
  moreover have "ens (is_locked l) s (\<lambda>_ t. k_pids t = k_pids s \<and> k_client t = k_client s \<and> k_devices t = k_devices s)"
    unfolding is_locked_def by (intro ens_step[OF find_line_pids]) (simp add: wlp)
  ultimately have "ens (is_locked l) s (\<lambda>p t. (k_ok t \<and> p = k_held s l \<and> k_held t = k_held s) \<and>
      (k_pids t = k_pids s \<and> k_client t = k_client s \<and> k_devices t = k_devices s))"
    using klocks.test_law[of s l] by (simp only: ens_conj)
  then show ?thesis by (rule ens_conseq) (use assms in \<open>auto simp: klock_inv_def\<close>)
qed

text \<open>The step from \<open>s\<close> to \<open>t\<close> gave a free line to the new child of client \<open>i\<close>.\<close>

definition took :: "nat \<Rightarrow> calld \<Rightarrow> calld \<Rightarrow> bool" where
  "took i s t \<longleftrightarrow> (\<exists>p. k_pids s = p # k_pids t \<and> k_held s (dv_line (k_devices t)) = 0 \<and>
     k_held t = (k_held s)(dv_line (k_devices t) := p) \<and> (i < length (k_client t) \<longrightarrow> cc_pid (k_client t ! i) = p))"

lemma start_child_ens:
  assumes inv: "klock_inv s" and free: "k_held s (dv_line (k_devices s)) = 0"
  shows "ens (start_child i) s (\<lambda>r t. r = 0 \<and> klock_inv t \<and> took i s t)"
proof (cases "k_pids s")
  case Nil
  then show ?thesis by (simp add: start_child_def fork_child_def fail_def upd_client_def ens_def bnd_apply)
next
  case (Cons p ps)
  define u where "u = s\<lparr>k_pids := ps, k_client := (k_client s)[i := (k_client s ! i)\<lparr>cc_pid := p\<rparr>]\<rparr>"
  have hu: "k_held u = k_held s" by (simp add: u_def k_held_def)
  have p: "0 < p" "\<And>l. k_held u l \<noteq> p" "k_ok u" using inv Cons hu by (auto simp: klock_inv_def u_def)
  have run: "start_child i s = bnd (lock_set (dv_line (k_devices s)) p) (\<lambda>_. ret 0) u"
    using p(1) Cons by (simp add: start_child_def fork_child_def upd_client_def u_def)
  have law: "ens (lock_set (dv_line (k_devices s)) p) u (\<lambda>_ t. k_ok t \<and> k_held t = (k_held u)(dv_line (k_devices s) := p))"
    using p by (intro klocks.acquire_law) auto
  have fr: "ens (lock_set (dv_line (k_devices s)) p) u
      (\<lambda>_ t. k_pids t = k_pids u \<and> k_client t = k_client u \<and> k_devices t = k_devices u)"
    unfolding lock_set_def by (intro ens_step[OF find_line_pids]) (simp add: wlp)
  have "ens (lock_set (dv_line (k_devices s)) p) u (\<lambda>_ t. klock_inv t \<and> took i s t)"
    using law fr
    by (rule ens_conseq[OF iffD2[OF ens_conj, OF conjI]])
      (use inv Cons free hu p(1) in \<open>auto simp: klock_inv_def took_def u_def\<close>)
  then have "ens (bnd (lock_set (dv_line (k_devices s)) p) (\<lambda>_. ret 0)) u (\<lambda>r t. r = 0 \<and> klock_inv t \<and> took i s t)"
    by (simp add: wlp)
  then show ?thesis unfolding ens_def run .
qed

subsection \<open>A request\<close>

definition req_post :: "nat \<Rightarrow> calld \<Rightarrow> int \<Rightarrow> calld \<Rightarrow> bool" where
  "req_post i s r t \<longleftrightarrow> klock_inv t \<and>
     (if r < 0 then k_held t = k_held s \<and> k_pids t = k_pids s else r = 0 \<and> took i s t)"

lemma req_post_from:
  "req_post i u r t \<Longrightarrow> k_held u = k_held s \<Longrightarrow> k_pids u = k_pids s \<Longrightarrow> req_post i s r t"
  by (auto simp: req_post_def took_def split: if_splits)

lemma request_fails_ens: "klock_inv s \<Longrightarrow> ens (request_fails i) s (req_post i s)"
proof -
  assume inv: "klock_inv s"
  have "ens (request_fails i) s (\<lambda>r _. r = -1)"
    unfolding request_fails_def ens_bnd ens_gets prod.case ens_ret by (rule ens_conseq[OF ens_True]) simp
  with leaves_inv[OF leaves_request_fails inv, of i] show ?thesis
    by (rule ens_conseq[OF iffD2[OF ens_conj, OF conjI]]) (simp add: req_post_def)
qed

lemma req_post_back:
  "ens m u (req_post i u) \<Longrightarrow> k_held u = k_held s \<Longrightarrow> k_pids u = k_pids s \<Longrightarrow> ens m u (req_post i s)"
  by (erule ens_conseq) (rule req_post_from)

interpretation kdv: quiet_part "\<lambda>s. (klk s, k_devices s)"
  by unfold_locales (simp_all add: klk_def)

lemma try_device_ens:
  assumes inv: "klock_inv s" and again: "\<And>u. klock_inv u \<Longrightarrow> ens again u (req_post i u)"
  shows "ens (try_device again i) s (req_post i s)"
  unfolding try_device_def
proof (rule leaves_step[OF klk.part_dev_find inv])
  fix r :: int and t
  assume t: "klock_inv t" "k_held t = k_held s" "k_pids t = k_pids s"
  have "ens (bnd (DEBUG m) (\<lambda>_. bnd (is_locked (dv_line (k_devices t))) (\<lambda>pid.
      if pid \<noteq> 0 then bnd (kset_errmsg (m' pid)) (\<lambda>_. again) else start_child i))) t (req_post i s)" for m m'
  proof (rule ens_step[of _ _ "\<lambda>_ u. klk u = klk t \<and> k_devices u = k_devices t"])
    show "ens (DEBUG m) t (\<lambda>_ u. klk u = klk t \<and> k_devices u = k_devices t)"
      using keeps_ens[OF kdv.part_DEBUG(1), of m t] by simp
    fix x u
    assume "klk u = klk t \<and> k_devices u = k_devices t"
    then have u: "klock_inv u" "k_held u = k_held s" "k_pids u = k_pids s" "k_devices u = k_devices t"
      using klk_same[of u t] t by simp_all
    show "ens (bnd (is_locked (dv_line (k_devices t))) (\<lambda>pid.
      if pid \<noteq> 0 then bnd (kset_errmsg (m' pid)) (\<lambda>_. again) else start_child i)) u (req_post i s)"
    proof (rule ens_step[OF is_locked_inv[OF u(1)]], elim conjE)
      fix pid v
      assume v: "klock_inv v" "pid = k_held u (dv_line (k_devices t))" "k_held v = k_held u" "k_pids v = k_pids u"
        "k_devices v = k_devices u"
      have "ens (start_child i) v (req_post i s)" if "pid = 0"
      proof (rule req_post_back)
        show "ens (start_child i) v (req_post i v)"
          by (rule ens_conseq[OF start_child_ens[OF v(1)]]) (use v u that in \<open>auto simp: req_post_def\<close>)
      qed (use u v in simp_all)
      moreover have "ens (bnd (kset_errmsg (m' pid)) (\<lambda>_. again)) v (req_post i s)"
        by (rule leaves_step[OF klk.part_kset_errmsg v(1)]) (use u v in \<open>auto intro: req_post_back again\<close>)
      ultimately show "ens (if pid \<noteq> 0 then bnd (kset_errmsg (m' pid)) (\<lambda>_. again) else start_child i) v (req_post i s)"
        by simp
    qed
  qed
  moreover have "ens (request_fails i) t (req_post i s)"
    using request_fails_ens[OF t(1)] t(2,3) by (rule req_post_back)
  ultimately show "ens (if r < 0 then request_fails i
      else bnd (gets k_devices) (\<lambda>dv. bnd (DEBUG (debug_dev dv)) (\<lambda>_. bnd (is_locked (dv_line dv)) (\<lambda>pid.
        if pid \<noteq> 0
        then bnd (kset_errmsg (''device '' @ quoted (dv_line dv) @ '' already locked by pid '' @ fmt_d pid @ [NL])) (\<lambda>_.
          again)
        else start_child i)))) t (req_post i s)"
    by (simp only: ens_if ens_bnd[of "gets k_devices"] ens_gets) simp
qed

lemma request_loop_ens: "klock_inv s \<Longrightarrow> ens (request_loop n i) s (req_post i s)"
proof (induction n arbitrary: s)
  case (Suc n)
  show ?case
    unfolding request_loop.simps
  proof (rule leaves_step[OF leaves_sys(1) Suc.prems], rule leaves_step[OF leaves_upd_client], assumption)
    fix pos :: int and t x u
    assume "klock_inv t" "k_held t = k_held s" "k_pids t = k_pids s" "klock_inv u" "k_held u = k_held t" "k_pids u = k_pids t"
    then have u: "klock_inv u" "k_held u = k_held s" "k_pids u = k_pids s" by simp_all
    have "ens (bnd (DEBUG m) (\<lambda>_. bnd (upd_client i f) (\<lambda>_. try_device (request_loop n i) i))) u (req_post i s)" for m f
      by (rule leaves_step[OF klk.part_DEBUG(1) u(1)], rule leaves_step[OF leaves_upd_client], assumption)
        (rule req_post_back[OF try_device_ens[OF _ Suc.IH]]; simp add: u)
    moreover have "ens (request_loop n i) u (req_post i s)" using Suc.IH[OF u(1)] u(2,3) by (rule req_post_back)
    moreover have "ens (request_fails i) u (req_post i s)" using request_fails_ens[OF u(1)] u(2,3) by (rule req_post_back)
    ultimately show "ens (if pos < 0 then request_fails i
       else bnd (gets (\<lambda>s. (sys_matches (k_client s ! i) (k_systems s), k_systems s))) (\<lambda>(m, sy).
            if \<not> m then request_loop n i
            else bnd (DEBUG (debug_sys sy)) (\<lambda>_.
            bnd (upd_client i (\<lambda>c. c\<lparr>cc_foundone := cc_foundone c + 1\<rparr>)) (\<lambda>_.
            try_device (request_loop n i) i)))) u (req_post i s)"
      by (simp only: ens_if ens_bnd[of "gets (\<lambda>s. (sys_matches (k_client s ! i) (k_systems s), k_systems s))"] ens_gets prod.case) simp
  qed
qed (simp add: wlp)

lemma request_ens: "klock_inv s \<Longrightarrow> ens (request i) s (req_post i s)"
proof -
  assume "klock_inv s"
  moreover have "leaves (modify (\<lambda>s. s\<lparr>k_errmsg := []\<rparr>))" by (rule leaves_modify) simp_all
  ultimately show ?thesis
    unfolding request_def
    apply -
    apply (rule leaves_step, assumption, assumption)
    apply (rule leaves_step, intro frame, assumption)
    apply (rule leaves_step, intro frame, assumption)
    apply (rule leaves_step, intro frame, assumption)
    apply (rule req_post_back[OF request_loop_ens]; simp)
    done
qed

text \<open>The array of clients keeps its length.\<close>

definition nclients :: "calld \<Rightarrow> nat" where
  "nclients s = length (k_client s)"

interpretation ncd: device_part nclients
  by unfold_locales (simp_all add: nclients_def)

interpretation nct: table_part nclients
  by unfold_locales (simp_all add: nclients_def)

lemma nclients_upd [frame]: "keeps (same nclients) (upd_client i f)"
  unfolding upd_client_def by (rule keeps_same_modify) (simp add: nclients_def)

lemma nclients_sys [frame]: "keeps (same nclients) sys_next" "keeps (same nclients) (sys_posn p)"
  unfolding sys_next_def sys_posn_def sys_rew_def by (intro frame keeps_same_modify; simp add: nclients_def)+

lemma nclients_fork [frame]: "keeps (same nclients) fork_child"
  by (auto simp: keeps_def same_def fork_child_def fail_def nclients_def split: list.splits)

lemma nclients_parts [frame]: "keeps (same nclients) (start_child i)" "keeps (same nclients) (request_fails i)"
  unfolding start_child_def request_fails_def by (intro frame)+

lemma nclients_request_loop: "keeps (same nclients) (request_loop n i)"
  by (induction n; unfold request_loop.simps try_device_def; intro frame)

lemma request_nclients: "keeps (same nclients) (request i)"
  unfolding request_def by (intro frame nclients_request_loop keeps_same_modify) (simp add: nclients_def)

subsection \<open>The rest of the server\<close>

abbreviation keeps_locks :: "('a, calld) prog \<Rightarrow> bool" where
  "keeps_locks m \<equiv> \<forall>s. klock_inv s \<longrightarrow> ens m s (\<lambda>_. klock_inv)"

named_theorems klock "functions that keep the lock table in order"

lemma klock_leaves: "leaves m \<Longrightarrow> keeps_locks m"
  using leaves_inv by (blast intro: ens_conseq)

lemma klock_bnd [klock]: "keeps_locks m \<Longrightarrow> (\<And>x. keeps_locks (f x)) \<Longrightarrow> keeps_locks (bnd m f)"
  by (auto intro: ens_step)

lemma klock_if [klock]: "keeps_locks m \<Longrightarrow> keeps_locks n \<Longrightarrow> keeps_locks (if b then m else n)"
  by simp

lemma klock_option [klock]:
  "keeps_locks m \<Longrightarrow> (\<And>x. keeps_locks (g x)) \<Longrightarrow> keeps_locks (case y of None \<Rightarrow> m | Some x \<Rightarrow> g x)"
  by (simp split: option.split)

lemma klock_prod [klock]: "(\<And>x y. keeps_locks (g x y)) \<Longrightarrow> keeps_locks (case p of (x, y) \<Rightarrow> g x y)"
  by (simp split: prod.split)

lemma klock_request [klock]: "keeps_locks (request i)"
proof (intro allI impI)
  fix s
  assume "klock_inv s"
  from request_ens[OF this] show "ens (request i) s (\<lambda>_. klock_inv)"
    by (rule ens_conseq) (simp add: req_post_def)
qed

lemma lock_rel_ens:
  assumes "klock_inv s"
  shows "ens (lock_rel p) s (\<lambda>_ t. klock_inv t \<and> k_held t = (\<lambda>l. if k_held s l = p then 0 else k_held s l))"
proof -
  have fr: "ens (lock_rel p) s (\<lambda>_ t. k_pids t = k_pids s)"
    by (auto simp: lock_rel_def wlp split: option.split)
  have "ens (lock_rel p) s (\<lambda>_ t. k_ok t \<and> k_held t = (\<lambda>l. if k_held s l = p then 0 else k_held s l))"
  proof (cases "p = 0")
    case True
    have "(k_lock s)[i := (k_lock s ! i)\<lparr>lk_pid := 0\<rparr>] = k_lock s" if "pid_index p (k_lock s) = Some i" for i
      using pid_index_Some[OF that] True by (simp add: list_update_same_conv)
    then have "lock_rel p s = Ok () s" by (simp add: lock_rel_def split: option.split)
    moreover have "(\<lambda>l. if k_held s l = p then 0 else k_held s l) = k_held s" using True by (simp add: fun_eq_iff)
    ultimately show ?thesis using assms by (simp add: ens_def klock_inv_def)
  next
    case False
    then show ?thesis using klocks.release_law assms by (simp add: klock_inv_def)
  qed
  with fr show ?thesis
    by (rule ens_conseq[OF iffD2[OF ens_conj, OF conjI]]) (use assms in \<open>auto simp: klock_inv_def\<close>)
qed

lemma klock_rel [klock]: "keeps_locks (lock_rel p)"
  using lock_rel_ens by (auto intro: ens_conseq)

lemma klock_child_done_one: "keeps_locks (child_done_one i)"
  unfolding child_done_one_def
  by (intro klock) (intro klock_leaves frame leaves_modify; simp)+

lemma klock_child_done_pass: "keeps_locks (child_done_pass ks)"
  by (induction ks; unfold child_done_pass.simps; intro klock klock_child_done_one klock_leaves[OF keeps_same_ret])

lemma klock_child_done_again: "keeps_locks (child_done_again n maxi)"
proof (induction n)
  case 0
  show ?case unfolding child_done_again.simps by (intro klock_leaves frame)
next
  case (Suc n)
  have "leaves (modify (\<lambda>s. s\<lparr>k_chld_flag := False\<rparr>))" by (rule leaves_modify) simp_all
  then show ?case
    unfolding child_done_again.simps
    by (intro klock klock_child_done_pass Suc klock_leaves; (intro frame)?)
qed

lemma klock_child_done [klock]: "keeps_locks (child_done maxi)"
  unfolding child_done_def by (intro klock klock_child_done_again klock_leaves[OF keeps_same_gets])

lemma klock_krequest [klock]: "keeps_locks (krequest i buf)"
  unfolding krequest_def by (intro klock; intro klock_leaves frame)

lemma klock_kserve: "keeps_locks (kserve rset i)"
  unfolding kserve_def by (intro klock) (intro klock_leaves frame leaves_modify; simp)+

lemma klock_kserve_all [klock]: "keeps_locks (kserve_all rset ks)"
  by (induction ks; unfold kserve_all.simps; intro klock klock_kserve klock_leaves[OF keeps_same_ret])

lemma klock_round: "keeps_locks kloop_round"
  unfolding kloop_round_def by (intro klock; intro klock_leaves frame)

subsection \<open>Every run\<close>

text \<open>
  A step of the server: a round of its loop, the handler of \<open>SIGCHLD\<close> between two rounds, or
  something outside the server, which can change anything but its lock table and the process
  IDs to come.
\<close>

inductive kstep :: "calld \<Rightarrow> calld \<Rightarrow> bool" where
  round: "kloop_round s = Ok () t \<Longrightarrow> kstep s t"
| handler: "sig_chld s = Ok () t \<Longrightarrow> kstep s t"
| environment: "klk t = klk s \<Longrightarrow> kstep s t"

inductive_cases kstepE: "kstep s t"

lemma kstep_inv: "kstep s t \<Longrightarrow> klock_inv s \<Longrightarrow> klock_inv t"
proof (induction rule: kstep.induct)
  case (round s t)
  show ?case by (rule ensD[OF klock_round[rule_format, OF round(2)] round(1)])
next
  case (handler s t)
  then show ?case using klk_same[OF keeps_sameD[OF leaves_sig_chld handler(1)]] by simp
next
  case (environment t s)
  then show ?case using klk_same[OF environment(1)] by simp
qed

lemma ksteps_inv: "kstep\<^sup>*\<^sup>* s t \<Longrightarrow> klock_inv s \<Longrightarrow> klock_inv t"
  by (induction rule: rtranclp_induct) (auto intro: kstep_inv)

end
