(* ===== verification/Calld_Term.thy ===== *)
theory Calld_Term
  imports Calld_Frames Sock_Props
begin

text \<open>
  The loops over the configuration files end: every round reads at least one byte, and nothing
  else that a request does moves the position in the file.
\<close>

abbreviation halts :: "('a, calld) prog \<Rightarrow> bool" where
  "halts m \<equiv> \<forall>s. ends m s (\<lambda>_ _. True)"

named_theorems halting "programs that end"

lemma halts_bnd [halting]: "halts m \<Longrightarrow> (\<And>x. halts (f x)) \<Longrightarrow> halts (bnd m f)"
  by (auto intro: ends_step)

lemma halts_if [halting]: "halts m \<Longrightarrow> halts n \<Longrightarrow> halts (if b then m else n)"
  by simp

lemma halts_option [halting]: "halts m \<Longrightarrow> (\<And>x. halts (g x)) \<Longrightarrow> halts (case y of None \<Rightarrow> m | Some x \<Rightarrow> g x)"
  by (simp split: option.split)

lemma halts_prod [halting]: "(\<And>x y. halts (g x y)) \<Longrightarrow> halts (case p of (x, y) \<Rightarrow> g x y)"
  by (simp split: prod.split)

lemma halts_conf [halting]:
  "(\<And>n f. halts (a n f)) \<Longrightarrow> (\<And>m. halts (b m)) \<Longrightarrow> (\<And>e p n. halts (d e p n)) \<Longrightarrow>
    halts (case r of CEof n f \<Rightarrow> a n f | CQuit m \<Rightarrow> b m | CEntry e p n \<Rightarrow> d e p n)"
  by (simp split: conf.split)

lemma halts_basic [halting]:
  "halts (ret x)" "halts (gets g)" "halts (modify h)" "halts (stop_with (Exit c m))" "halts (stop_with (Undefined m))"
  "halts (log_sys m)" "halts (log_quit m)" "halts (err_sys m)"
  by (simp_all add: ends_simps log_sys_def log_quit_def err_sys_def)

lemma halts_writen [halting]: "halts (writen fd bs)"
proof
  fix s :: calld
  show "ends (writen fd bs) s (\<lambda>_ _. True)"
  proof (cases "w_fds s fd")
    case None
    then show ?thesis by (simp add: writen_def ends_def bnd_apply sock_write_def fail_def)
  next
    case (Some f)
    then show ?thesis using writen_runs[of s fd bs] by (auto intro: ends_conseq runs_ends)
  qed
qed

lemma halts_DEBUG [halting]: "halts (DEBUG m)"
  unfolding DEBUG_def debug_line_def by (intro halting)

lemma halts_errmsg [halting]: "halts (kset_errmsg m)"
  unfolding kset_errmsg_def by (intro halting)

lemma halts_malloc [halting]: "halts (sys_malloc n)"
  by (simp add: sys_malloc_def ends_def)

lemma halts_is_locked [halting]: "halts (is_locked l)"
  unfolding is_locked_def find_line_def by (intro halting)

lemma halts_lock_set [halting]: "halts (lock_set l p)"
  unfolding lock_set_def find_line_def by (intro halting)

lemma halts_fork [halting]: "halts fork_child"
  by (simp add: fork_child_def fail_def ends_def split: list.split)

lemma halts_upd_client [halting]: "halts (upd_client i f)"
  unfolding upd_client_def by (intro halting)

lemma halts_start_child [halting]: "halts (start_child i)"
  unfolding start_child_def by (intro halting)

lemma halts_request_fails [halting]: "halts (request_fails i)"
  unfolding request_fails_def by (intro halting)

lemma halts_next [halting]: "halts dev_next" "halts dev_rew" "halts sys_next" "halts (sys_posn p)"
  unfolding dev_next_def dev_rew_def sys_next_def sys_posn_def sys_rew_def by (intro halting)+

subsection \<open>The position in a file\<close>

definition fpos :: "nat option \<Rightarrow> nat" where
  "fpos fp = (case fp of None \<Rightarrow> 0 | Some p \<Rightarrow> p)"

lemma fpos_simps [simp]: "fpos None = 0" "fpos (Some p) = p"
  by (simp_all add: fpos_def)

lemma conf_next_progress:
  "conf_next parse c pos n f = CEntry e p m \<Longrightarrow> pos < p \<and> p \<le> length c"
proof (induction parse c pos n f rule: conf_next.induct)
  case (1 parse c pos n f)
  obtain l where l: "fgets_at c pos = Some l"
    using "1.prems" by (subst (asm) conf_next.simps) (auto split: option.splits)
  have len: "l \<noteq> []" "pos + length l \<le> length c"
  proof -
    show "l \<noteq> []" using fgets_progress[OF l] by simp
    show "pos + length l \<le> length c"
      using l fgets_progress[OF l] length_line_of[of "drop pos c"] by (auto simp: fgets_at_def split: if_splits)
  qed
  show ?case
  proof (cases "parse (n + 1) l")
    case (Skip g)
    then have "conf_next parse c (pos + length l) (n + 1) g = CEntry e p m"
      using "1.prems" l by (subst (asm) conf_next.simps) simp
    then show ?thesis using "1.IH"[OF l Skip] by simp
  qed (use "1.prems" l len in \<open>(subst (asm) conf_next.simps, auto)+\<close>)
qed

definition dev_left :: "calld \<Rightarrow> nat" where
  "dev_left s = length (file_bytes s DEVICES) - fpos (k_fpdev s)"

lemma dev_next_ends: "ends dev_next s (\<lambda>r t. 0 \<le> r \<longrightarrow> dev_left t < dev_left s)"
proof (cases "w_files s DEVICES")
  case None
  then show ?thesis by (simp add: dev_next_def ends_def bnd_apply)
next
  case (Some c)
  define r where "r = conf_next parse_dev c (fpos (k_fpdev s)) (if k_fpdev s = None then 0 else k_devlineno s)
    (dv_type (k_devices s))"
  have "dev_next s = (case r of
      CEof n f \<Rightarrow> bnd (modify (\<lambda>s. s\<lparr>k_fpdev := Some (length c), k_devlineno := n,
                        k_devices := (k_devices s)\<lparr>dv_type := f\<rparr>\<rparr>)) (\<lambda>_. ret (-1))
    | CQuit msg \<Rightarrow> log_quit msg
    | CEntry e p n \<Rightarrow> bnd (modify (\<lambda>s. s\<lparr>k_fpdev := Some p, k_devlineno := n, k_devices := e\<rparr>)) (\<lambda>_. ret 0))
      (if k_fpdev s = None then s\<lparr>k_fpdev := Some 0, k_devlineno := 0\<rparr> else s)"
    using Some by (auto simp: dev_next_def bnd_apply r_def)
  moreover have "fpos (k_fpdev s) < p \<and> p \<le> length c" if "r = CEntry e p n" for e p n
    using conf_next_progress[OF that[unfolded r_def]] .
  ultimately show ?thesis
    using Some by (cases r) (auto simp: ends_def dev_left_def file_bytes_def)
qed

lemma dev_find_loop_ends: "dev_left s < n \<Longrightarrow> ends (dev_find_loop n) s (\<lambda>_ _. True)"
proof (induction n arbitrary: s)
  case (Suc n)
  have err: "halts (bnd (gets (\<lambda>s. (sy_type (k_systems s), sy_class (k_systems s)))) (\<lambda>(ty, cl).
      bnd (kset_errmsg (''device '' @ quoted ty @ ''/'' @ quoted cl @ '' not found'' @ [NL])) (\<lambda>_. ret (-1))))"
    by (intro halting)
  show ?case
    unfolding dev_find_loop.simps
  proof (rule ends_step[OF dev_next_ends])
    fix r :: int and t
    assume t: "0 \<le> r \<longrightarrow> dev_left t < dev_left s"
    have "ends (dev_find_loop n) t (\<lambda>_ _. True)" if "0 \<le> r" using t that Suc.prems by (intro Suc.IH) simp
    then show "ends (if r < 0
        then bnd (gets (\<lambda>s. (sy_type (k_systems s), sy_class (k_systems s)))) (\<lambda>(ty, cl).
             bnd (kset_errmsg (''device '' @ quoted ty @ ''/'' @ quoted cl @ '' not found'' @ [NL])) (\<lambda>_. ret (-1)))
        else bnd (gets (\<lambda>s. dv_type (k_devices s) = Some (sy_type (k_systems s)) \<and>
                            dv_class (k_devices s) = sy_class (k_systems s))) (\<lambda>m.
             if m then ret 0 else dev_find_loop n)) t (\<lambda>_ _. True)"
      using err[rule_format, of t] by (simp only: ends_if) (simp add: ends_bnd ends_gets ends_ret)
  qed
qed simp

lemma halts_dev_find [halting]: "halts dev_find"
proof
  fix s
  show "ends dev_find s (\<lambda>_ _. True)"
    unfolding dev_find_def ends_bnd dev_rew_def ends_modify ends_gets
    by (rule dev_find_loop_ends) (simp add: dev_left_def file_bytes_def)
qed

subsection \<open>A request ends\<close>

definition sys_left :: "calld \<Rightarrow> nat" where
  "sys_left s = length (file_bytes s SYSTEMS) - fpos (k_fpsys s)"

lemma sys_next_ends: "ends sys_next s (\<lambda>r t. 0 \<le> r \<longrightarrow> sys_left t < sys_left s)"
proof (cases "w_files s SYSTEMS")
  case None
  then show ?thesis by (simp add: sys_next_def ends_def bnd_apply)
next
  case (Some c)
  define r where "r = conf_next parse_sys c (fpos (k_fpsys s)) (if k_fpsys s = None then 0 else k_syslineno s)
    (sy_name (k_systems s))"
  have "sys_next s = (case r of
      CEof n f \<Rightarrow> bnd (modify (\<lambda>s. s\<lparr>k_fpsys := Some (length c), k_syslineno := n,
                        k_systems := (k_systems s)\<lparr>sy_name := f\<rparr>\<rparr>)) (\<lambda>_. ret (-1))
    | CQuit msg \<Rightarrow> log_quit msg
    | CEntry e p n \<Rightarrow> bnd (modify (\<lambda>s. s\<lparr>k_fpsys := Some p, k_syslineno := n, k_systems := e\<rparr>)) (\<lambda>_. ret (int p)))
      (if k_fpsys s = None then s\<lparr>k_fpsys := Some 0, k_syslineno := 0\<rparr> else s)"
    using Some by (auto simp: sys_next_def bnd_apply r_def)
  moreover have "fpos (k_fpsys s) < p \<and> p \<le> length c" if "r = CEntry e p n" for e p n
    using conf_next_progress[OF that[unfolded r_def]] .
  ultimately show ?thesis
    using Some by (cases r) (auto simp: ends_def sys_left_def file_bytes_def)
qed

text \<open>What a request does between two reads of \<^verbatim>\<open>Systems\<close> leaves the position there alone.\<close>

definition syspos :: "calld \<Rightarrow> (string \<Rightarrow> string option) \<times> nat option" where
  "syspos s = (w_files s, k_fpsys s)"

lemma syspos_left: "syspos t = syspos s \<Longrightarrow> sys_left t = sys_left s"
  by (simp add: syspos_def sys_left_def file_bytes_def)

interpretation spd: device_part syspos
  by unfold_locales (simp_all add: syspos_def)

interpretation spt: table_part syspos
  by unfold_locales (simp_all add: syspos_def)

lemma syspos_upd_client [frame]: "keeps (same syspos) (upd_client i f)"
  unfolding upd_client_def by (rule keeps_same_modify) (simp add: syspos_def)

lemma left_step:
  assumes "halts m" and "keeps (same syspos) m" and "\<And>x t. sys_left t = sys_left s \<Longrightarrow> ends (f x) t Q"
  shows "ends (bnd m f) s Q"
  by (rule ends_step[OF ends_ens[OF assms(1)[rule_format] keeps_ens[OF assms(2)]]]) (auto intro: assms(3) syspos_left)

lemma try_device_ends:
  assumes again: "\<And>t. sys_left t = sys_left s \<Longrightarrow> ends again t (\<lambda>_ _. True)"
  shows "ends (try_device again i) s (\<lambda>_ _. True)"
proof -
  have start: "halts (start_child i)" and fails: "halts (request_fails i)" by (intro halting)+
  have lk: "ends (bnd (is_locked l) (\<lambda>pid. if pid \<noteq> 0 then bnd (kset_errmsg (m pid)) (\<lambda>_. again) else start_child i)) t
      (\<lambda>_ _. True)" if "sys_left t = sys_left s" for l m t
  proof (rule left_step, intro halting, intro frame)
    fix pid :: int and u
    assume "sys_left u = sys_left t"
    then have "ends (bnd (kset_errmsg (m pid)) (\<lambda>_. again)) u (\<lambda>_ _. True)"
      using that by (intro left_step halting frame again) simp
    then show "ends (if pid \<noteq> 0 then bnd (kset_errmsg (m pid)) (\<lambda>_. again) else start_child i) u (\<lambda>_ _. True)"
      using start by simp
  qed
  show ?thesis
    unfolding try_device_def
  proof (rule left_step, intro halting, intro frame)
    fix r :: int and t
    assume t: "sys_left t = sys_left s"
    have "ends (bnd (gets k_devices) (\<lambda>dv. bnd (DEBUG (debug_dev dv)) (\<lambda>_. bnd (is_locked (dv_line dv)) (\<lambda>pid.
        if pid \<noteq> 0 then bnd (kset_errmsg (m dv pid)) (\<lambda>_. again) else start_child i)))) t (\<lambda>_ _. True)" for m
      unfolding ends_bnd[of "gets k_devices"] ends_gets using t by (intro left_step halting frame lk) simp
    then show "ends (if r < 0 then request_fails i else bnd (gets k_devices) (\<lambda>dv. bnd (DEBUG (debug_dev dv)) (\<lambda>_.
        bnd (is_locked (dv_line dv)) (\<lambda>pid. if pid \<noteq> 0
        then bnd (kset_errmsg (''device '' @ quoted (dv_line dv) @ '' already locked by pid '' @ fmt_d pid @ [NL])) (\<lambda>_. again)
        else start_child i)))) t (\<lambda>_ _. True)"
      using fails by (simp only: ends_if) simp
  qed
qed

lemma request_loop_ends: "sys_left s < n \<Longrightarrow> ends (request_loop n i) s (\<lambda>_ _. True)"
proof (induction n arbitrary: s)
  case (Suc n)
  show ?case
    unfolding request_loop.simps
  proof (rule ends_step[OF sys_next_ends], rule left_step, intro halting, intro frame)
    fix pos :: int and t x u
    assume "0 \<le> pos \<longrightarrow> sys_left t < sys_left s" "sys_left u = sys_left t"
    then have less: "sys_left u < n" if "0 \<le> pos" using that Suc.prems by simp
    have "ends (bnd (DEBUG m) (\<lambda>_. bnd (upd_client i f) (\<lambda>_. try_device (request_loop n i) i))) u (\<lambda>_ _. True)"
      if "0 \<le> pos" for m f
      using less[OF that] by (intro left_step halting frame try_device_ends Suc.IH) simp
    moreover have "ends (request_loop n i) u (\<lambda>_ _. True)" if "0 \<le> pos" using less[OF that] by (rule Suc.IH)
    moreover have "halts (request_fails i)" by (intro halting)
    ultimately show "ends (if pos < 0 then request_fails i
       else bnd (gets (\<lambda>s. (sys_matches (k_client s ! i) (k_systems s), k_systems s))) (\<lambda>(m, sy).
            if \<not> m then request_loop n i
            else bnd (DEBUG (debug_sys sy)) (\<lambda>_.
            bnd (upd_client i (\<lambda>c. c\<lparr>cc_foundone := cc_foundone c + 1\<rparr>)) (\<lambda>_.
            try_device (request_loop n i) i)))) u (\<lambda>_ _. True)"
      by (simp only: ends_if ends_bnd[of "gets (\<lambda>s. (sys_matches (k_client s ! i) (k_systems s), k_systems s))"] ends_gets
          prod.case) simp
  qed
qed simp

lemma request_ends: "ends (request i) s (\<lambda>_ _. True)"
  unfolding request_def ends_bnd ends_modify ends_gets
  by (rule ends_conseq[OF halts_next(4)[rule_format]], rule request_loop_ends) (simp add: sys_left_def)

end
