(* ===== verification/Calld_Conf.thy ===== *)
theory Calld_Conf
  imports Calld_Term
begin

text \<open>
  The configuration files as lists of entries: what the reading functions see of a file, that
  \<open>dev_find\<close> returns the first device of the list that fits, and that a file written from a
  list of entries is read back as that list.
\<close>

subsection \<open>A file as lines and entries\<close>

fun parse_lines :: "(int \<Rightarrow> string \<Rightarrow> 'e parsed) \<Rightarrow> int \<Rightarrow> string list \<Rightarrow> string + 'e list" where
  "parse_lines parse n [] = Inr []"
| "parse_lines parse n (l # ls) = (case parse (n + 1) l of
     Skip _ \<Rightarrow> parse_lines parse (n + 1) ls
   | Bad m \<Rightarrow> Inl m
   | Good e \<Rightarrow> map_sum id (\<lambda>es. e # es) (parse_lines parse (n + 1) ls))"

definition entries :: "(int \<Rightarrow> string \<Rightarrow> 'e parsed) \<Rightarrow> string \<Rightarrow> string + 'e list" where
  "entries parse c = parse_lines parse 0 (file_lines c)"

lemma map_sum_Inr: "map_sum id g x = Inr y \<longleftrightarrow> (\<exists>z. x = Inr z \<and> y = g z)"
  by (cases x) auto

text \<open>The loop \<open>again:\<close> goes to the next entry.\<close>

lemma conf_next_entry:
  "parse_lines parse n (file_lines (drop pos c)) = Inr (e # es) \<Longrightarrow>
    \<exists>p m. conf_next parse c pos n f = CEntry e p m \<and> parse_lines parse m (file_lines (drop p c)) = Inr es"
proof (induction parse c pos n f rule: conf_next.induct)
  case (1 parse c pos n f)
  obtain l where l: "fgets_at c pos = Some l"
    using "1.prems" file_lines_fgets[of pos c] by (cases "fgets_at c pos") auto
  note ls = file_lines_fgets[of pos c, unfolded l option.case]
  show ?case
  proof (cases "parse (n + 1) l")
    case (Skip g)
    then show ?thesis using "1.IH"[OF l Skip] "1.prems" l ls by (subst conf_next.simps) simp
  next
    case (Good e')
    then show ?thesis using "1.prems" l ls by (subst conf_next.simps) (auto simp: map_sum_Inr)
  qed (use "1.prems" ls in simp)
qed

lemma conf_next_eof:
  "parse_lines parse n (file_lines (drop pos c)) = Inr [] \<Longrightarrow> \<exists>m g. conf_next parse c pos n f = CEof m g"
proof (induction parse c pos n f rule: conf_next.induct)
  case (1 parse c pos n f)
  show ?case
  proof (cases "fgets_at c pos")
    case None
    then show ?thesis by (subst conf_next.simps) simp
  next
    case (Some l)
    note ls = file_lines_fgets[of pos c, unfolded Some option.case]
    then obtain g where "parse (n + 1) l = Skip g"
      using "1.prems" by (cases "parse (n + 1) l") (auto simp: map_sum_Inr)
    then show ?thesis using "1.IH"[OF Some] "1.prems" Some ls by (subst conf_next.simps) simp
  qed
qed

lemma parse_lines_length: "parse_lines parse n ls = Inr es \<Longrightarrow> length es \<le> length ls"
  by (induction ls arbitrary: n es) (auto simp: map_sum_Inr le_SucI split: parsed.splits)

lemma file_lines_length: "length (file_lines s) \<le> length s"
proof (induction s rule: file_lines.induct)
  case (1 s)
  show ?case
  proof (cases "s = []")
    case False
    define l where "l = take (MAXLINE - 1) (line_of s)"
    have "l \<noteq> []" using False by (simp add: l_def MAXLINE_def line_of_Nil)
    then have "Suc (length (drop (length l) s)) \<le> length s" using False by (cases l; cases s) auto
    moreover have "file_lines s = l # file_lines (drop (length l) s)"
      using False by (subst file_lines.simps) (simp add: l_def Let_def)
    ultimately show ?thesis using "1.IH"[OF False l_def] by simp
  qed simp
qed

subsection \<open>Looking for a device\<close>

definition dev_matches :: "systems \<Rightarrow> devices \<Rightarrow> bool" where
  "dev_matches sy d \<longleftrightarrow> dv_type d = Some (sy_type sy) \<and> dv_class d = sy_class sy"

lemma dev_next_run:
  assumes "w_files s DEVICES = Some c" and "k_fpdev s = None \<longrightarrow> k_devlineno s = 0"
    and "conf_next parse_dev c (fpos (k_fpdev s)) (k_devlineno s) (dv_type (k_devices s)) = r"
  shows "r = CEntry e p n \<Longrightarrow> dev_next s = Ok 0 (s\<lparr>k_fpdev := Some p, k_devlineno := n, k_devices := e\<rparr>)"
    and "r = CEof n g \<Longrightarrow> dev_next s = Ok (-1) (s\<lparr>k_fpdev := Some (length c), k_devlineno := n,
      k_devices := (k_devices s)\<lparr>dv_type := g\<rparr>\<rparr>)"
  using assms by (auto simp: dev_next_def bnd_apply fpos_def)

definition no_device :: "systems \<Rightarrow> string" where
  "no_device sy = ''device '' @ quoted (sy_type sy) @ ''/'' @ quoted (sy_class sy) @ '' not found'' @ [NL]"

definition dev_found :: "devices list \<Rightarrow> calld \<Rightarrow> int \<Rightarrow> calld \<Rightarrow> bool" where
  "dev_found ds s r t \<longleftrightarrow> k_systems t = k_systems s \<and> klk t = klk s \<and>
     (case find (dev_matches (k_systems s)) ds of
        Some d \<Rightarrow> r = 0 \<and> k_devices t = d \<and> k_errmsg t = k_errmsg s
      | None \<Rightarrow> r = -1 \<and> k_errmsg t = no_device (k_systems s))"

lemma dev_found_from:
  "k_systems u = k_systems s \<Longrightarrow> klk u = klk s \<Longrightarrow> k_errmsg u = k_errmsg s \<Longrightarrow> dev_found ds u = dev_found ds s"
  by (intro ext) (simp add: dev_found_def split: option.split)

lemma dev_find_loop_runs:
  assumes "w_files s DEVICES = Some c" and "k_fpdev s = None \<longrightarrow> k_devlineno s = 0"
    and "parse_lines parse_dev (k_devlineno s) (file_lines (drop (fpos (k_fpdev s)) c)) = Inr ds"
    and "length ds < n" and "length (no_device (k_systems s)) < MAXLINE"
  shows "runs (dev_find_loop n) s (dev_found ds s)"
  using assms
proof (induction ds arbitrary: s n)
  case Nil
  obtain k where n: "n = Suc k" using Nil.prems(4) by (cases n) auto
  obtain m g where "conf_next parse_dev c (fpos (k_fpdev s)) (k_devlineno s) (dv_type (k_devices s)) = CEof m g"
    using conf_next_eof[OF Nil.prems(3)] by blast
  from dev_next_run(2)[OF Nil.prems(1,2) this refl] show ?case
    using Nil.prems(5) by (simp add: n runs_def bnd_apply kset_errmsg_def dev_found_def no_device_def klk_def)
next
  case (Cons d ds)
  obtain k where n: "n = Suc k" "length ds < k" using Cons.prems(4) by (cases n) auto
  obtain p m where e: "conf_next parse_dev c (fpos (k_fpdev s)) (k_devlineno s) (dv_type (k_devices s)) = CEntry d p m"
      "parse_lines parse_dev m (file_lines (drop p c)) = Inr ds"
    using conf_next_entry[OF Cons.prems(3)] by blast
  define t where "t = s\<lparr>k_fpdev := Some p, k_devlineno := m, k_devices := d\<rparr>"
  have nx: "dev_next s = Ok 0 t" using dev_next_run(1)[OF Cons.prems(1,2) e(1) refl] by (simp add: t_def)
  have step: "dev_find_loop n s = (if dev_matches (k_systems s) d then Ok 0 t else dev_find_loop k t)"
    using nx by (simp add: n bnd_apply dev_matches_def t_def)
  show ?case
  proof (cases "dev_matches (k_systems s) d")
    case True
    then show ?thesis using step by (simp add: runs_def dev_found_def t_def klk_def)
  next
    case False
    have "runs (dev_find_loop k) t (dev_found ds t)"
      using Cons.prems e(2) n by (intro Cons.IH) (simp_all add: t_def)
    moreover have "dev_found ds t = dev_found ds s" by (rule dev_found_from) (simp_all add: t_def klk_def)
    moreover have "dev_found (d # ds) s = dev_found ds s" using False by (intro ext) (simp add: dev_found_def)
    ultimately have "runs (dev_find_loop k) t (dev_found (d # ds) s)" by simp
    then show ?thesis using step False by (simp add: runs_def)
  qed
qed

lemma dev_find_runs:
  assumes "w_files s DEVICES = Some c" and "entries parse_dev c = Inr ds"
    and "length (no_device (k_systems s)) < MAXLINE"
  shows "runs dev_find s (dev_found ds s)"
proof -
  define t where "t = s\<lparr>k_fpdev := (case k_fpdev s of None \<Rightarrow> None | Some _ \<Rightarrow> Some 0), k_devlineno := 0\<rparr>"
  have "length ds \<le> length c"
    using parse_lines_length[OF assms(2)[unfolded entries_def]] file_lines_length[of c] by simp
  then have "runs (dev_find_loop (Suc (length c))) t (dev_found ds t)"
    using assms by (intro dev_find_loop_runs[where c = c]) (auto simp: t_def entries_def fpos_def split: option.splits)
  moreover have "dev_find s = dev_find_loop (Suc (length c)) t"
    using assms(1) by (simp add: dev_find_def dev_rew_def t_def file_bytes_def del: dev_find_loop.simps)
  moreover have "dev_found ds t = dev_found ds s" by (rule dev_found_from) (simp_all add: t_def klk_def)
  ultimately show ?thesis unfolding runs_def by (simp only:)
qed

subsection \<open>Writing a file and reading it back\<close>

definition plain :: "string \<Rightarrow> bool" where
  "plain w \<longleftrightarrow> word_ok w \<and> hd w \<noteq> CHR ''#''"

text \<open>The last field is the rest of the line: it may contain blanks.\<close>

definition rest_ok :: "string \<Rightarrow> bool" where
  "rest_ok w \<longleftrightarrow> w \<noteq> [] \<and> is_cstr w \<and> NL \<notin> set w"

definition sys_ok :: "systems \<Rightarrow> bool" where
  "sys_ok e \<longleftrightarrow> (\<exists>name. sy_name e = Some name \<and> plain name) \<and> word_ok (sy_time e) \<and> word_ok (sy_type e) \<and>
     word_ok (sy_class e) \<and> word_ok (sy_phone e) \<and> rest_ok (sy_login e)"

definition print_sys :: "systems \<Rightarrow> string" where
  "print_sys e = unwords [the (sy_name e), sy_time e, sy_type e, sy_class e, sy_phone e] @ sy_login e @ [NL]"

lemma is_cstr_word: "word_ok w \<Longrightarrow> is_cstr w"
  by (simp add: word_ok_def)

lemma next_tok_word:
  "word_ok w \<Longrightarrow> is_cstr r \<Longrightarrow> next_tok (w @ CHR '' '' # r) = Some (w, r)"
  using strtok_blank[of w r] by (simp add: word_ok_def)

lemma rest_tok_line: "rest_ok w \<Longrightarrow> rest_tok (w @ [NL]) = Some w"
proof -
  assume "rest_ok w"
  then have "strtok {NL} (w @ [NL]) = Some (0, w, [])"
    by (intro strtok_cons_delim) (auto simp: rest_ok_def)
  then show ?thesis by simp
qed

lemma parse_sys_print: "sys_ok e \<Longrightarrow> parse_sys n (print_sys e) = Good e"
  by (auto simp: sys_ok_def print_sys_def parse_sys_def unwords_def next_tok_word rest_tok_line plain_def
      is_cstr_word rest_ok_def simp del: next_tok.simps rest_tok.simps)

lemma NL_notin_word: "word_ok w \<Longrightarrow> NL \<notin> set w"
  by (auto simp: word_ok_def WHITE_def)

lemma line_ok_print: "sys_ok e \<Longrightarrow> length (print_sys e) < MAXLINE \<Longrightarrow> line_ok (print_sys e)"
  using NL_notin_word
  by (auto simp: line_ok_def print_sys_def sys_ok_def plain_def rest_ok_def unwords_def)

lemma parse_lines_print: "\<forall>e\<in>set es. sys_ok e \<Longrightarrow> parse_lines parse_sys n (map print_sys es) = Inr es"
  by (induction es arbitrary: n) (simp_all add: parse_sys_print)

lemma entries_print:
  "\<forall>e\<in>set es. sys_ok e \<and> length (print_sys e) < MAXLINE \<Longrightarrow> entries parse_sys (concat (map print_sys es)) = Inr es"
  by (simp add: entries_def file_lines_concat line_ok_print parse_lines_print)

text \<open>The same for \<^verbatim>\<open>Devices\<close>, whose third field is not kept.\<close>

definition dev_ok :: "devices \<Rightarrow> bool" where
  "dev_ok d \<longleftrightarrow> (\<exists>ty. dv_type d = Some ty \<and> plain ty) \<and> word_ok (dv_line d) \<and> dv_line2 d = 0 \<and>
     word_ok (dv_class d) \<and> word_ok (dv_dialer d)"

definition print_dev :: "devices \<Rightarrow> string" where
  "print_dev d = unwords [the (dv_type d), dv_line d, ''-'', dv_class d] @ dv_dialer d @ [NL]"

lemma next_tok_end: "word_ok w \<Longrightarrow> next_tok (w @ [NL]) = Some (w, [])"
proof -
  assume "word_ok w"
  then have "strtok WHITE (w @ NL # []) = Some (0, w, [])"
    by (intro strtok_cons_delim) (auto simp: word_ok_def, auto simp: WHITE_def)
  then show ?thesis by simp
qed

lemma word_ok_dash: "word_ok ''-''"
  by (simp add: word_ok_def WHITE_def is_cstr_def)

lemma parse_dev_print: "dev_ok d \<Longrightarrow> parse_dev n (print_dev d) = Good d"
  using word_ok_dash next_tok_word[of "''-''"]
  by (auto simp: dev_ok_def print_dev_def parse_dev_def unwords_def next_tok_word next_tok_end plain_def
      is_cstr_word simp del: next_tok.simps)

lemma line_ok_print_dev: "dev_ok d \<Longrightarrow> length (print_dev d) < MAXLINE \<Longrightarrow> line_ok (print_dev d)"
  using NL_notin_word
  by (auto simp: line_ok_def print_dev_def dev_ok_def plain_def unwords_def)

lemma entries_print_dev:
  assumes "\<forall>d\<in>set ds. dev_ok d \<and> length (print_dev d) < MAXLINE"
  shows "entries parse_dev (concat (map print_dev ds)) = Inr ds"
proof -
  have "parse_lines parse_dev n (map print_dev ds) = Inr ds" for n
    using assms by (induction ds arbitrary: n) (simp_all add: parse_dev_print)
  then show ?thesis using assms by (simp add: entries_def file_lines_concat line_ok_print_dev)
qed

end
