(* ===== verification/Calld_Expect.thy ===== *)
theory Calld_Expect
  imports Calld_Dial
begin

text \<open>
  What \<open>expect_str\<close> and \<open>send_str\<close> do on the line, for a client that has not asked for debug
  output: the one consumes the input up to the first occurrence of its string, the other writes
  the text that its escape sequences stand for.
\<close>

named_theorems quiet "statements of a child without debug output"

lemma DEBUG_off [quiet]: "\<not> k_Debug s \<Longrightarrow> DEBUG m s = Ok () s" "\<not> k_Debug s \<Longrightarrow> DEBUG_NONL m s = Ok () s"
  by (simp_all add: DEBUG_def DEBUG_NONL_def)

subsection \<open>Expecting\<close>

lemma exp_read_byte [quiet]:
  assumes "\<not> k_Debug s" and "\<not> k_caught_alrm s" and "k_line s = Byte c # l"
  shows "exp_read s = Ok (Some c) (s\<lparr>k_line := l\<rparr>)"
  using assms by (simp add: exp_read_def bnd_apply quiet)

text \<open>A list holds the string \<open>e\<close> at position \<open>k\<close>, and at none before it.\<close>

definition first_at :: "string \<Rightarrow> string \<Rightarrow> nat \<Rightarrow> bool" where
  "first_at e w k \<longleftrightarrow> k + length e \<le> length w \<and> take (length e) (drop k w) = e \<and>
     (\<forall>j<k. take (length e) (drop j w) \<noteq> e)"

text \<open>The index of the first occurrence, computed by trying one position after the other.\<close>

fun find_sub :: "string \<Rightarrow> string \<Rightarrow> nat option" where
  "find_sub e w =
     (if take (length e) w = e then Some 0
      else (case w of [] \<Rightarrow> None | c # cs \<Rightarrow> map_option Suc (find_sub e cs)))"

declare find_sub.simps [simp del]

lemma find_sub_first: "find_sub e w = Some k \<Longrightarrow> first_at e w k"
proof (induction w arbitrary: k)
  case Nil
  then show ?case by (auto simp: find_sub.simps[of _ "[]"] first_at_def split: if_splits)
next
  case (Cons c cs)
  show ?case
  proof (cases "take (length e) (c # cs) = e")
    case True
    then have "length e \<le> length (c # cs)" using length_take[of "length e" "c # cs"] by (metis min.cobounded1)
    then show ?thesis using True Cons.prems by (simp add: find_sub.simps[of _ "c # cs"] first_at_def)
  next
    case False
    then obtain j where j: "find_sub e cs = Some j" "k = Suc j"
      using Cons.prems by (auto simp: find_sub.simps[of _ "c # cs"])
    note IH = Cons.IH[OF j(1), unfolded first_at_def]
    have "take (length e) (drop i (c # cs)) \<noteq> e" if "i < k" for i
    proof (cases i)
      case (Suc m)
      then have "take (length e) (drop m cs) \<noteq> e" using that j(2) IH by blast
      then show ?thesis unfolding Suc drop_Suc_Cons .
    qed (use False in simp)
    moreover have "k + length e \<le> length (c # cs)" using IH[THEN conjunct1] j(2) by simp
    moreover have "take (length e) (drop k (c # cs)) = e" unfolding j(2) drop_Suc_Cons by (rule IH[THEN conjunct2, THEN conjunct1])
    ultimately show ?thesis unfolding first_at_def by blast
  qed
qed

lemma exp_skip_run:
  assumes "\<not> k_Debug s" and "\<not> k_caught_alrm s" and "k_line s = map Byte u @ Byte e0 # l"
    and "e0 \<notin> set u" and "length u < n"
  shows "exp_skip n e0 c s = Ok () (s\<lparr>k_line := l\<rparr>)"
  using assms
proof (induction u arbitrary: n c s)
  case Nil
  then have "exp_read s = Ok (Some e0) (s\<lparr>k_line := l\<rparr>)" by (intro exp_read_byte) auto
  moreover obtain m where "n = Suc m" using Nil.prems(5) by (cases n) auto
  ultimately show ?case by simp
next
  case (Cons x u)
  have rd: "exp_read s = Ok (Some x) (s\<lparr>k_line := map Byte u @ Byte e0 # l\<rparr>)"
    using Cons.prems by (intro exp_read_byte) auto
  obtain m where n: "n = Suc m" "length u < m" using Cons.prems(5) by (cases n) auto
  have "exp_skip m e0 x (s\<lparr>k_line := map Byte u @ Byte e0 # l\<rparr>) = Ok () (s\<lparr>k_line := map Byte u @ Byte e0 # l, k_line := l\<rparr>)"
    using Cons.prems n by (intro Cons.IH) auto
  moreover have "x \<noteq> e0" using Cons.prems(4) by auto
  ultimately show ?case using n rd by simp
qed

lemma exp_store_run [quiet]:
  assumes "\<not> k_Debug s" and "\<not> k_caught_alrm s" and "k_line s = Byte c # l" and "i < MAXLINE"
  shows "exp_store i inbuf s = Ok (inbuf(i := c)) (s\<lparr>k_line := l\<rparr>)"
  using assms by (simp add: exp_store_def bnd_apply quiet)

lemma exp_fill_run:
  assumes "\<not> k_Debug s" and "\<not> k_caught_alrm s" and "k_line s = map Byte (drop i (take m y)) @ l"
    and "i \<le> m" and "m \<le> length y" and "m \<le> MAXLINE" and "\<forall>j<i. inbuf j = y ! j"
  shows "\<exists>b. exp_fill [i..<m] inbuf s = Ok b (s\<lparr>k_line := l\<rparr>) \<and> (\<forall>j<m. b j = y ! j)"
  using assms
proof (induction "m - i" arbitrary: i inbuf s)
  case 0
  then show ?case by auto
next
  case (Suc d)
  then have i: "i < m" by simp
  have "drop i (take m y) = y ! i # drop (Suc i) (take m y)"
    using i Suc.prems(5) by (simp add: Cons_nth_drop_Suc[symmetric])
  then have line: "k_line s = Byte (y ! i) # map Byte (drop (Suc i) (take m y)) @ l" using Suc.prems(3) by simp
  have st: "exp_store i inbuf s = Ok (inbuf(i := y ! i)) (s\<lparr>k_line := map Byte (drop (Suc i) (take m y)) @ l\<rparr>)"
    using Suc.prems i line by (intro exp_store_run) auto
  have "\<exists>b. exp_fill [Suc i..<m] (inbuf(i := y ! i)) (s\<lparr>k_line := map Byte (drop (Suc i) (take m y)) @ l\<rparr>) =
      Ok b (s\<lparr>k_line := map Byte (drop (Suc i) (take m y)) @ l, k_line := l\<rparr>) \<and> (\<forall>j<m. b j = y ! j)"
    using Suc.prems i Suc.hyps(2) by (intro Suc.hyps(1)) (auto simp: less_Suc_eq)
  then show ?case using st i by (simp add: upt_conv_Cons)
qed

lemma window_eq:
  assumes "\<forall>j<p + length e. inbuf j = y ! j" and "p + length e \<le> length y"
  shows "map inbuf [p..<p + length e] = take (length e) (drop p y)"
  using assms by (intro nth_equalityI) auto

lemma exp_match_run:
  assumes "\<not> k_Debug s" and "\<not> k_caught_alrm s" and "k_line s = map Byte (drop (p + length e) y) @ rest"
    and "\<forall>j<p + length e. inbuf j = y ! j" and "first_at e y k" and "p \<le> k" and "k - p < n"
    and "k + length e \<le> MAXLINE"
  shows "exp_match n e p inbuf s = Ok () (s\<lparr>k_line := map Byte (drop (k + length e) y) @ rest\<rparr>)"
  using assms
proof (induction n arbitrary: p inbuf s)
  case 0
  then show ?case by simp
next
  case (Suc n)
  have le: "k + length e \<le> length y" using Suc.prems(5) by (simp add: first_at_def)
  then have win: "map inbuf [p..<p + length e] = take (length e) (drop p y)"
    using Suc.prems(4,6) by (intro window_eq) auto
  show ?case
  proof (cases "p = k")
    case True
    then show ?thesis using Suc.prems win by (simp add: first_at_def)
  next
    case False
    then have p: "p < k" using Suc.prems(6) by simp
    then have ne: "map inbuf [p..<p + length e] \<noteq> e" using Suc.prems(5) win by (simp add: first_at_def)
    define q where "q = p + length e"
    have q: "q < length y" "q < MAXLINE" using p le Suc.prems(8) by (auto simp: q_def)
    define t where "t = s\<lparr>k_line := map Byte (drop (Suc q) y) @ rest\<rparr>"
    have "k_line s = Byte (y ! q) # map Byte (drop (Suc q) y) @ rest"
      using Suc.prems(3) q by (simp add: q_def[symmetric] Cons_nth_drop_Suc[symmetric])
    then have st: "exp_store q inbuf s = Ok (inbuf(q := y ! q)) t"
      using Suc.prems(1,2) q unfolding t_def by (intro exp_store_run) auto
    have "exp_match n e (Suc p) (inbuf(q := y ! q)) t = Ok () (t\<lparr>k_line := map Byte (drop (k + length e) y) @ rest\<rparr>)"
      using Suc.prems p by (intro Suc.IH) (auto simp: t_def q_def less_Suc_eq)
    then show ?thesis using ne st by (simp add: q_def[symmetric] t_def)
  qed
qed

text \<open>The skipped part in front of the first character of the string.\<close>

lemma first_at_skip:
  assumes "first_at e w k" and "e \<noteq> []"
  defines "u \<equiv> takeWhile (\<lambda>c. c \<noteq> hd e) w"
  shows "length u \<le> k" and "first_at e (drop (length u) w) (k - length u)"
    and "drop (length u) w \<noteq> []" and "hd (drop (length u) w) = hd e"
proof -
  have k: "k + length e \<le> length w" "take (length e) (drop k w) = e" using assms(1) by (auto simp: first_at_def)
  have kw: "k < length w" using k(1) assms(2) by (cases e) auto
  have hk: "w ! k = hd e" using k assms(2) hd_drop_conv_nth[OF kw] by (metis hd_take length_greater_0_conv)
  show le: "length u \<le> k"
  proof (rule ccontr)
    assume "\<not> length u \<le> k"
    then have "k < length u" by simp
    then have "u ! k \<noteq> hd e" and "u ! k = w ! k"
      using nth_mem[of k u] set_takeWhileD[of "u ! k" "\<lambda>c. c \<noteq> hd e" w] takeWhile_nth[of k "\<lambda>c. c \<noteq> hd e" w]
      by (auto simp: u_def)
    then show False using hk by simp
  qed
  then have "length u < length w" using kw by simp
  then show ne: "drop (length u) w \<noteq> []" by simp
  show "hd (drop (length u) w) = hd e"
    using nth_length_takeWhile[of "\<lambda>c. c \<noteq> hd e" w] \<open>length u < length w\<close> by (simp add: u_def hd_drop_conv_nth)
  show "first_at e (drop (length u) w) (k - length u)"
    using assms(1) le by (auto simp: first_at_def)
qed

lemma expect_str_run:
  assumes "ptr \<noteq> [CHR 0x22, CHR 0x22]" and "exp_escape ptr ptr = Inr e" and "e \<noteq> []" and "\<not> k_Debug s"
    and "k_line s = map Byte w @ rest" and "first_at e w k"
    and "k + length e \<le> length (takeWhile (\<lambda>c. c \<noteq> hd e) w) + MAXLINE"
  shows "expect_str (Some ptr) s =
    Ok 0 (s\<lparr>k_caught_alrm := False, k_line := map Byte (drop (k + length e) w) @ rest, k_alarm := False\<rparr>)"
proof -
  define u where "u = takeWhile (\<lambda>c. c \<noteq> hd e) w"
  define y where "y = drop (length u) w"
  note fs = first_at_skip[OF assms(6,3), folded u_def, folded y_def]
  obtain e0 es where e: "e = e0 # es" using assms(3) by (cases e) auto
  have y0: "y = e0 # tl y" using fs(3,4) e by (cases y) auto
  have "w = u @ y" by (simp add: u_def y_def dropWhile_eq_drop[symmetric])
  then have w: "w = u @ e0 # tl y" using y0 by simp
  define k' where "k' = k - length u"
  have k: "k = length u + k'" using fs(1) by (simp add: k'_def)
  have fy: "first_at e y k'" using fs(2) by (simp add: k'_def)
  have le: "k' + length e \<le> length y" "k' + length e \<le> MAXLINE"
    using fy assms(7) k by (auto simp: first_at_def u_def[symmetric])
  define s1 where "s1 = s\<lparr>k_caught_alrm := False, k_alarm := True\<rparr>"
  define s2 where "s2 = s1\<lparr>k_line := map Byte (tl y) @ rest\<rparr>"
  define s3 where "s3 = s1\<lparr>k_line := map Byte (drop (length e) y) @ rest\<rparr>"
  define s4 where "s4 = s1\<lparr>k_line := map Byte (drop (k' + length e) y) @ rest\<rparr>"
  have sk: "exp_skip (Suc (length (k_line s1))) e0 NUL s1 = Ok () s2"
    unfolding s2_def
  proof (rule exp_skip_run[where u = u])
    show "k_line s1 = map Byte u @ Byte e0 # map Byte (tl y) @ rest"
      using assms(5) by (simp add: s1_def w[symmetric] flip: map_append) (simp add: w)
    show "e0 \<notin> set u" using e by (auto simp: u_def dest: set_takeWhileD)
    have "length u < length w" by (subst w) simp
    then show "length u < Suc (length (k_line s1))" using assms(5) by (simp add: s1_def)
  qed (use assms(4) in \<open>simp_all add: s1_def\<close>)
  define b0 where "b0 = (k_stk s2)(0 := e0)"
  have "y ! 0 = e0" using y0 by (metis nth_Cons_0)
  have "map Byte (tl y) @ rest = map Byte (drop 1 (take (length e) y)) @ map Byte (drop (length e) y) @ rest"
  proof -
    have "take (length e) y = e0 # take (length es) (tl y)" using e y0 by (metis length_Cons take_Suc_Cons)
    moreover have "drop (length e) y = drop (length es) (tl y)" using e by (simp add: drop_Suc)
    ultimately have "tl y = drop 1 (take (length e) y) @ drop (length e) y" by simp
    then show ?thesis by (metis append_assoc map_append)
  qed
  then obtain b where b: "exp_fill [1..<length e] b0 s2 = Ok b s3" "\<forall>j<length e. b j = y ! j"
    using exp_fill_run[of s2 1 "length e" y "map Byte (drop (length e) y) @ rest" b0] assms(4) e le \<open>y ! 0 = e0\<close>
    by (auto simp: s2_def s1_def s3_def b0_def)
  have m: "exp_match (Suc MAXLINE) e 0 b s3 = Ok () s4"
    using exp_match_run[of s3 0 e y rest b k' "Suc MAXLINE"] assms(4) b(2) fy le
    by (simp add: s3_def s1_def s4_def)
  have "drop (k' + length e) y = drop (k + length e) w" by (simp add: y_def k add_ac)
  then have fin: "s4\<lparr>k_alarm := False\<rparr> =
      s\<lparr>k_caught_alrm := False, k_line := map Byte (drop (k + length e) w) @ rest, k_alarm := False\<rparr>"
    by (simp add: s4_def s1_def)
  have dbg: "DEBUG x (s4\<lparr>k_alarm := False\<rparr>) = Ok () (s4\<lparr>k_alarm := False\<rparr>)" for x
    using assms(4) by (simp add: quiet s4_def s1_def)
  have main: "(bnd (modify (\<lambda>s. s\<lparr>k_caught_alrm := False, k_alarm := True\<rparr>)) (\<lambda>_.
      bnd (gets (\<lambda>s. Suc (length (k_line s)))) (\<lambda>n.
      bnd (exp_skip n e0 NUL) (\<lambda>_.
      bnd (gets (\<lambda>s. (k_stk s)(0 := e0))) (\<lambda>inbuf.
      bnd (exp_fill [1..<length e] inbuf) (\<lambda>inbuf.
      bnd (exp_match (Suc MAXLINE) e 0 inbuf) (\<lambda>_. ret (0::int)))))))) s = Ok 0 s4"
    using sk b(1) m by (simp add: s1_def[symmetric] b0_def[symmetric] del: exp_skip.simps exp_match.simps)
  show ?thesis
    unfolding fin[symmetric]
    using assms(1,2) main dbg by (simp add: expect_str_def e del: exp_skip.simps exp_match.simps)
qed

text \<open>
  After an alarm \<open>exp_read\<close> stores nothing, and since the code never sees its result as
  negative, the loop that skips input goes on for ever.
\<close>

lemma exp_skip_caught:
  "\<not> k_Debug s \<Longrightarrow> k_caught_alrm s \<Longrightarrow> c \<noteq> e0 \<Longrightarrow> exp_skip n e0 c s = Halt (Diverges ''expect_str'') s"
  by (induction n) (simp_all add: exp_read_def DEBUG_off)

lemma exp_skip_alarm:
  assumes "\<not> k_Debug s" and "\<not> k_caught_alrm s" and "k_line s = map Byte u @ Timeout # l"
    and "e0 \<notin> set u" and "c \<noteq> e0"
  shows "\<exists>t. exp_skip n e0 c s = Halt (Diverges ''expect_str'') t"
  using assms
proof (induction u arbitrary: n c s)
  case Nil
  define t where "t = s\<lparr>k_line := l, k_caught_alrm := True\<rparr>"
  have "exp_read s = Ok None t" using Nil.prems by (simp add: exp_read_def bnd_apply DEBUG_off t_def)
  moreover have "exp_skip m e0 c t = Halt (Diverges ''expect_str'') t" for m
    using Nil.prems by (intro exp_skip_caught) (simp_all add: t_def)
  ultimately show ?case using Nil.prems(5) by (cases n) simp_all
next
  case (Cons x u)
  define t where "t = s\<lparr>k_line := map Byte u @ Timeout # l\<rparr>"
  have rd: "exp_read s = Ok (Some x) t" using Cons.prems unfolding t_def by (intro exp_read_byte) auto
  have "\<exists>v. exp_skip m e0 x t = Halt (Diverges ''expect_str'') v" for m
    using Cons.prems by (intro Cons.IH) (auto simp: t_def)
  moreover have "x \<noteq> e0" using Cons.prems(4) by auto
  ultimately show ?case using rd by (cases n) simp_all
qed

lemma exp_escape_cstr: "is_cstr ptr \<Longrightarrow> exp_escape msg ptr = Inr e \<Longrightarrow> is_cstr e"
proof (induction msg ptr arbitrary: e rule: exp_escape.induct)
  case (2 msg c cs)
  show ?case
  proof (cases "c = CHR 0x5C")
    case False
    then show ?thesis using "2.prems" "2.IH"(1) by (cases "exp_escape msg cs") auto
  next
    case True
    then obtain x cs' where cs: "cs = x # cs'" using "2.prems"(2) by (cases cs) auto
    show ?thesis
      using "2.prems" "2.IH"(2,3)[of x cs'] True cs
      by (cases "exp_escape msg cs'") (auto split: if_splits)
  qed
qed simp

lemma expect_str_alarm:
  assumes "ptr \<noteq> [CHR 0x22, CHR 0x22]" and "is_cstr ptr" and "exp_escape ptr ptr = Inr e" and "e \<noteq> []" and "\<not> k_Debug s"
    and "k_line s = map Byte u @ Timeout # rest" and "hd e \<notin> set u"
  shows "\<exists>t. expect_str (Some ptr) s = Halt (Diverges ''expect_str'') t"
proof -
  obtain e0 es where e: "e = e0 # es" using assms(4) by (cases e) auto
  have ne: "NUL \<noteq> e0" using exp_escape_cstr[OF assms(2,3)] e by (auto simp: is_cstr_def)
  define s1 where "s1 = s\<lparr>k_caught_alrm := False, k_alarm := True\<rparr>"
  obtain t where "exp_skip (Suc (length (k_line s1))) e0 NUL s1 = Halt (Diverges ''expect_str'') t"
    using exp_skip_alarm[of s1 u rest e0 NUL] assms(5-7) e ne by (auto simp: s1_def simp del: exp_skip.simps)
  then show ?thesis
    using assms(1,3) by (simp add: expect_str_def e s1_def del: exp_skip.simps)
qed

subsection \<open>Sending\<close>

text \<open>
  The text a send string stands for, \<open>None\<close> for one that ends in a backslash or has an unknown
  escape sequence (the request for an echo check is left out). The phone number goes through
  \<open>send_str\<close> as well and is therefore followed by a carriage return.
\<close>

fun send_text :: "string \<Rightarrow> string \<Rightarrow> string option" where
  "send_text phone [] = Some [CHR 0x0D]"
| "send_text phone (c # cs) =
     (if c \<noteq> CHR 0x5C then map_option (\<lambda>t. c # t) (send_text phone cs)
      else (case cs of
          [] \<Rightarrow> None
        | e # cs' \<Rightarrow>
            if e = CHR ''c'' then (if cs' = [] then Some [] else send_text phone cs')
            else if e \<in> {CHR ''d'', CHR ''p'', CHR ''e''} then send_text phone cs'
            else if e = CHR ''T'' then map_option (\<lambda>t. phone @ CHR 0x0D # t) (send_text phone cs')
            else if e = CHR ''r'' then map_option (\<lambda>t. CHR 0x0D # t) (send_text phone cs')
            else if e = CHR ''s'' then map_option (\<lambda>t. CHR '' '' # t) (send_text phone cs')
            else None))"

text \<open>The line after bytes were written to it one by one.\<close>

definition emit :: "int \<Rightarrow> string \<Rightarrow> calld \<Rightarrow> calld" where
  "emit fd t s = s\<lparr>s_out := (s_out s)(fd := s_out s fd @ map (\<lambda>c. Pkt [c] None) t)\<rparr>"

definition line_ready :: "int \<Rightarrow> calld \<Rightarrow> bool" where
  "line_ready fd s \<longleftrightarrow> \<not> k_Debug s \<and> w_fds s fd \<noteq> None \<and> s_wr s fd = []"

lemma emit_Nil [simp]: "emit fd [] s = s"
  by (simp add: emit_def)

lemma emit_emit [simp]: "emit fd u (emit fd t s) = emit fd (t @ u) s"
  by (simp add: emit_def)

lemma line_ready_emit [simp]: "line_ready fd (emit fd t s) = line_ready fd s"
  by (simp add: line_ready_def emit_def)

lemma line_ready_quiet: "line_ready fd s \<Longrightarrow> \<not> k_Debug s"
  by (simp add: line_ready_def)

lemma sock_write_emit: "line_ready fd s \<Longrightarrow> sock_write fd [c] s = Ok 1 (emit fd [c] s)"
  by (auto simp: line_ready_def sock_write_def emit_def sock_put_def)

lemma writen_emit: "line_ready fd s \<Longrightarrow> writen fd [c] s = Ok 1 (emit fd [c] s)"
  by (simp add: writen_def sock_write_emit)

lemma send_char_emit: "line_ready fd s \<Longrightarrow> send_char fd c False s = Ok () (emit fd [c] s)"
  by (simp add: send_char_def DEBUG_off line_ready_quiet writen_emit)

lemma send_end_emit: "line_ready fd s \<Longrightarrow> send_end fd s = Ok 0 (emit fd [CHR 0x0D] s)"
  by (simp add: send_end_def DEBUG_off line_ready_quiet sock_write_emit)
    (simp add: DEBUG_off line_ready_quiet[of fd])

lemma send_str_step:
  "c \<noteq> CHR 0x5C \<Longrightarrow> send_str d fd (c # cs) phone ec s = bnd (send_char fd c ec) (\<lambda>_. send_str d fd cs phone ec) s"
  by simp

lemma send_str_escape:
  assumes "line_ready fd s"
  shows
    "send_str d fd [CHR 0x5C, CHR ''c''] phone False s = Ok 0 s"
    "cs \<noteq> [] \<Longrightarrow> send_str d fd (CHR 0x5C # CHR ''c'' # cs) phone False s = send_str d fd cs phone False s"
    "e \<in> {CHR ''d'', CHR ''p'', CHR ''e''} \<Longrightarrow>
      send_str d fd (CHR 0x5C # e # cs) phone False s = send_str d fd cs phone False s"
    "send_str d fd (CHR 0x5C # CHR ''r'' # cs) phone False s = send_str d fd cs phone False (emit fd [CHR 0x0D] s)"
    "send_str d fd (CHR 0x5C # CHR ''s'' # cs) phone False s = send_str d fd cs phone False (emit fd [CHR '' ''] s)"
  using assms by (auto simp: DEBUG_off line_ready_quiet send_char_emit)

declare send_str.simps(2) [simp del]

lemma send_str_plain:
  "line_ready fd s \<Longrightarrow> CHR 0x5C \<notin> set t \<Longrightarrow> send_str d fd t phone False s = Ok 0 (emit fd (t @ [CHR 0x0D]) s)"
  by (induction t arbitrary: s) (auto simp: send_end_emit send_char_emit send_str_step)

lemma send_str_phone:
  assumes "line_ready fd s" and "CHR 0x5C \<notin> set phone"
  shows "send_str (Suc d) fd (CHR 0x5C # CHR ''T'' # cs) phone False s =
    send_str (Suc d) fd cs phone False (emit fd (phone @ [CHR 0x0D]) s)"
  using assms by (simp add: send_str.simps(2) send_str_plain)

lemma send_str_run:
  assumes "line_ready fd s" and "CHR 0x5C \<notin> set phone" and "send_text phone ptr = Some t"
  shows "send_str (Suc d) fd ptr phone False s = Ok 0 (emit fd t s)"
  using assms
proof (induction "length ptr" arbitrary: ptr s t rule: less_induct)
  case less
  show ?case
  proof (cases ptr)
    case Nil
    then show ?thesis using less.prems by (simp add: send_end_emit)
  next
    case (Cons c cs)
    note IH = less.hyps[OF _ _ less.prems(2)]
    show ?thesis
    proof (cases "c = CHR 0x5C")
      case False
      then obtain t' where "send_text phone cs = Some t'" "t = c # t'" using less.prems(3) Cons by auto
      then show ?thesis
        using False Cons less.prems(1) IH[of cs "emit fd [c] s" t'] by (simp add: send_char_emit send_str_step)
    next
      case True
      then obtain e cs' where cs: "cs = e # cs'" using less.prems(3) Cons by (cases cs) auto
      have IH': "send_str (Suc d) fd cs' phone False (emit fd x s) = Ok 0 (emit fd (x @ t') s)"
        if "send_text phone cs' = Some t'" for x t'
        using IH[of cs' "emit fd x s" t'] that less.prems(1) Cons cs by simp
      note IH0 = IH'[of _ "[]", simplified]
      show ?thesis
        using less.prems(1,3) IH' IH0 send_str_phone[OF less.prems(1,2)]
        by (auto simp: Cons cs True send_str_escape split: if_splits)
    qed
  qed
qed

end
