(* ===== verification/Calld_Request.thy ===== *)
theory Calld_Request
  imports Calld_Inv Calld_Conf Calld_Expect
begin

text \<open>
  A request that succeeds: with the configuration files in order, the first entry for the
  system whose device is free gets a child and the lock. Total correctness, for a client
  without debug output.
\<close>

lemma sys_next_run:
  assumes "w_files s SYSTEMS = Some c" and "k_fpsys s = None \<longrightarrow> k_syslineno s = 0"
    and "parse_lines parse_sys (k_syslineno s) (file_lines (drop (fpos (k_fpsys s)) c)) = Inr (e # es)"
  shows "\<exists>p n. sys_next s = Ok (int p) (s\<lparr>k_fpsys := Some p, k_syslineno := n, k_systems := e\<rparr>) \<and>
    parse_lines parse_sys n (file_lines (drop p c)) = Inr es"
proof -
  obtain p n where "conf_next parse_sys c (fpos (k_fpsys s)) (k_syslineno s) (sy_name (k_systems s)) = CEntry e p n"
      "parse_lines parse_sys n (file_lines (drop p c)) = Inr es"
    using conf_next_entry[OF assms(3)] by blast
  then show ?thesis using assms(1,2) by (intro exI[of _ p] exI[of _ n]) (auto simp: sys_next_def bnd_apply fpos_def)
qed

text \<open>Reading the whole file, entry by entry.\<close>

fun read_systems :: "nat \<Rightarrow> (systems list, calld) prog" where
  "read_systems 0 = ret []"
| "read_systems (Suc n) =
     bnd sys_next (\<lambda>pos.
     if pos < 0 then ret []
     else bnd (gets k_systems) (\<lambda>e. bnd (read_systems n) (\<lambda>es. ret (e # es))))"

lemma read_systems_runs:
  assumes "w_files s SYSTEMS = Some c" and "k_fpsys s = None \<longrightarrow> k_syslineno s = 0"
    and "parse_lines parse_sys (k_syslineno s) (file_lines (drop (fpos (k_fpsys s)) c)) = Inr es"
  shows "runs (read_systems (Suc (length es))) s (\<lambda>r _. r = es)"
  using assms
proof (induction es arbitrary: s)
  case Nil
  obtain m g where "conf_next parse_sys c (fpos (k_fpsys s)) (k_syslineno s) (sy_name (k_systems s)) = CEof m g"
    using conf_next_eof[OF Nil(3)] by blast
  then show ?case using Nil(1,2) by (auto simp: runs_def bnd_apply sys_next_def fpos_def)
next
  case (Cons e es)
  obtain p n where nx: "sys_next s = Ok (int p) (s\<lparr>k_fpsys := Some p, k_syslineno := n, k_systems := e\<rparr>)"
      "parse_lines parse_sys n (file_lines (drop p c)) = Inr es"
    using sys_next_run[OF Cons.prems] by blast
  have "runs (read_systems (Suc (length es))) (s\<lparr>k_fpsys := Some p, k_syslineno := n, k_systems := e\<rparr>) (\<lambda>r _. r = es)"
    using Cons.prems(1) nx(2) by (intro Cons.IH) simp_all
  then show ?case
    unfolding read_systems.simps(2)[of "length (e # es)"] runs_bnd runs_Ok[of sys_next, OF nx(1)]
    by (simp add: wp del: read_systems.simps)
qed

subsection \<open>Locks\<close>

definition lock_room :: "calld \<Rightarrow> string \<Rightarrow> bool" where
  "lock_room s l \<longleftrightarrow> CNALLOC * sizeof_clock + length l + 1 \<le> w_mem s"

lemma line_index_new: "line_index l ls = None \<Longrightarrow> line_index l (ls @ [\<lparr>lk_line = l, lk_pid = p\<rparr>]) = Some (length ls)"
  by (induction ls) (auto split: if_splits)

text \<open>What \<open>find_line\<close> does to the state when there is memory.\<close>

definition with_line :: "string \<Rightarrow> calld \<Rightarrow> nat \<Rightarrow> calld \<Rightarrow> bool" where
  "with_line l s i t \<longleftrightarrow> k_devices t = k_devices s \<and> k_systems t = k_systems s \<and> k_pids t = k_pids s \<and>
     line_index l (k_lock t) = Some i \<and> k_held t = k_held s"

lemma find_line_runs:
  assumes "lock_room s l"
  shows "runs (find_line l) s (with_line l s)"
proof (cases "line_index l (k_lock s)")
  case (Some i)
  then show ?thesis by (simp add: with_line_def runs_def find_line_def bnd_apply)
next
  case None
  have mem: "CNALLOC * sizeof_clock \<le> w_mem s" "Suc (length l) \<le> w_mem s - CNALLOC * sizeof_clock" "Suc (length l) \<le> w_mem s"
    using assms by (auto simp: lock_room_def)
  show ?thesis
    using None mem
    by (cases "length (k_lock s) \<ge> k_lock_size s")
      (simp_all add: runs_def with_line_def find_line_def bnd_apply sys_malloc_def line_index_new k_held_def lock_held_append)
qed

lemma is_locked_runs:
  assumes "lock_room s l"
  shows "runs (is_locked l) s (\<lambda>p t. p = k_held s l \<and> (\<exists>i. with_line l s i t))"
  unfolding is_locked_def
proof (rule runs_step[OF find_line_runs[OF assms]])
  fix i t
  assume t: "with_line l s i t"
  then have "lk_pid (k_lock t ! i) = lock_held (k_lock t) l" by (simp add: with_line_def lock_held_def)
  then have "lk_pid (k_lock t ! i) = k_held s l" using t by (simp add: with_line_def k_held_def)
  then show "runs (gets (\<lambda>s. lk_pid (k_lock s ! i))) t (\<lambda>p t. p = k_held s l \<and> (\<exists>i. with_line l s i t))"
    using t by (auto simp: wp with_line_def)
qed

lemma start_child_runs:
  assumes "k_pids s = p # ps" and "0 < p" and "line_index (dv_line (k_devices s)) (k_lock s) = Some j"
  shows "runs (start_child i) s (\<lambda>r t. r = 0 \<and> k_devices t = k_devices s \<and> k_systems t = k_systems s)"
  using assms by (simp add: runs_def start_child_def fork_child_def upd_client_def lock_set_def find_line_def)

subsection \<open>The request\<close>

text \<open>
  The device for the entry \<open>e\<close> is \<open>d\<close>: it is the first that fits, it is free, and there is a
  process ID and memory.
\<close>

definition can_start :: "calld \<Rightarrow> systems \<Rightarrow> devices \<Rightarrow> bool" where
  "can_start s e d \<longleftrightarrow> (\<exists>c ds. w_files s DEVICES = Some c \<and> entries parse_dev c = Inr ds \<and> find (dev_matches e) ds = Some d) \<and>
     length (no_device e) < MAXLINE \<and> k_held s (dv_line d) = 0 \<and> k_pids s \<noteq> [] \<and> 0 < hd (k_pids s) \<and> lock_room s (dv_line d)"

lemma can_start_cong:
  "w_files t = w_files s \<Longrightarrow> klk t = klk s \<Longrightarrow> w_mem t = w_mem s \<Longrightarrow> can_start t e d = can_start s e d"
  by (simp add: can_start_def lock_room_def klk_def k_held_def)

interpretation mdp: device_part "\<lambda>s. (w_mem s, k_Debug s)"
  by unfold_locales simp_all

lemma try_device_runs:
  assumes "\<not> k_Debug s" and "can_start s (k_systems s) d"
  shows "runs (try_device again i) s (\<lambda>r t. r = 0 \<and> k_devices t = d \<and> k_systems t = k_systems s)"
proof -
  obtain c ds where c: "w_files s DEVICES = Some c" "entries parse_dev c = Inr ds" "find (dev_matches (k_systems s)) ds = Some d"
    using assms(2) by (auto simp: can_start_def)
  obtain t where t: "dev_find s = Ok 0 t" "k_devices t = d" "k_systems t = k_systems s" "klk t = klk s"
    using dev_find_runs[OF c(1,2)] assms(2) c(3) by (auto simp: runs_iff dev_found_def can_start_def)
  have fr: "w_mem t = w_mem s" "k_Debug t = k_Debug s" using keeps_sameD[OF mdp.part_dev_find t(1)] by simp_all
  have room: "lock_room t (dv_line d)" "k_held t (dv_line d) = 0" "k_pids t \<noteq> []" "0 < hd (k_pids t)"
    using assms(2) fr t(4) by (auto simp: can_start_def lock_room_def k_held_def klk_def)
  have "runs (bnd (is_locked (dv_line d)) (\<lambda>pid. if pid \<noteq> 0 then bnd (kset_errmsg (m pid)) (\<lambda>_. again) else start_child i)) t
      (\<lambda>r t. r = 0 \<and> k_devices t = d \<and> k_systems t = k_systems s)" for m
  proof (rule runs_step[OF is_locked_runs[OF room(1)]], elim conjE exE)
    fix pid u j
    assume u: "pid = k_held t (dv_line d)" "with_line (dv_line d) t j u"
    then have "k_devices u = k_devices t" "k_systems u = k_systems t" "k_pids u = k_pids t"
      by (simp_all add: with_line_def)
    moreover obtain p ps where "k_pids t = p # ps" "0 < p" using room(3,4) by (cases "k_pids t") auto
    ultimately show "runs (if pid \<noteq> 0 then bnd (kset_errmsg (m pid)) (\<lambda>_. again) else start_child i) u
        (\<lambda>r t. r = 0 \<and> k_devices t = d \<and> k_systems t = k_systems s)"
      using start_child_runs[of u p ps j i] u room(2) t(2,3) by (simp add: with_line_def)
  qed
  then show ?thesis
    unfolding try_device_def runs_bnd[of dev_find] runs_Ok[of dev_find, OF t(1)]
    using assms(1) fr(2) t(2) by (simp add: runs_bnd runs_gets runs_Ok[OF DEBUG_off(1)])
qed

lemma sys_matches_same:
  "cc_sysname c' = cc_sysname c \<Longrightarrow> cc_speed c' = cc_speed c \<Longrightarrow> sys_matches c' = sys_matches c"
  by (intro ext) (simp add: sys_matches_def)

lemma request_loop_runs:
  assumes "w_files s SYSTEMS = Some c" and "k_fpsys s = None \<longrightarrow> k_syslineno s = 0"
    and "parse_lines parse_sys (k_syslineno s) (file_lines (drop (fpos (k_fpsys s)) c)) = Inr (xs @ e # ys)"
    and "\<forall>x\<in>set xs. \<not> sys_matches (k_client s ! i) x" and "sys_matches (k_client s ! i) e"
    and "\<not> k_Debug s" and "i < length (k_client s)" and "length xs < n" and "can_start s e d"
  shows "runs (request_loop n i) s (\<lambda>r t. r = 0 \<and> k_devices t = d \<and> k_systems t = e)"
  using assms
proof (induction xs arbitrary: s n)
  case Nil
  obtain k where n: "n = Suc k" using Nil.prems(8) by (cases n) auto
  obtain p m where nx: "sys_next s = Ok (int p) (s\<lparr>k_fpsys := Some p, k_syslineno := m, k_systems := e\<rparr>)"
    using sys_next_run[OF Nil.prems(1,2)] Nil.prems(3) by fastforce
  define f :: "cclient \<Rightarrow> cclient" where "f = (\<lambda>c. c\<lparr>cc_sysftell := int p\<rparr>)"
  define g :: "cclient \<Rightarrow> cclient" where "g = (\<lambda>c. c\<lparr>cc_foundone := cc_foundone c + 1\<rparr>)"
  define u where "u = s\<lparr>k_fpsys := Some p, k_syslineno := m, k_systems := e, k_client := (k_client s)[i := f (k_client s ! i)]\<rparr>"
  define v where "v = u\<lparr>k_client := (k_client u)[i := g (k_client u ! i)]\<rparr>"
  have m: "sys_matches (k_client u ! i) e"
    using Nil.prems(5,7) sys_matches_same[of "k_client u ! i" "k_client s ! i"] by (simp add: u_def f_def)
  have "request_loop n i s = try_device (request_loop k i) i v"
    using nx m Nil.prems(6) unfolding n request_loop.simps upd_client_def f_def[symmetric] g_def[symmetric]
    by (simp add: u_def[symmetric] f_def[symmetric])
      (simp add: bnd_apply u_def v_def DEBUG_off)
  moreover have "runs (try_device (request_loop k i) i) v (\<lambda>r t. r = 0 \<and> k_devices t = d \<and> k_systems t = k_systems v)"
    using Nil.prems(6,9) can_start_cong[of v s e d] by (intro try_device_runs) (simp_all add: v_def u_def klk_def)
  ultimately show ?case by (simp add: runs_def v_def u_def)
next
  case (Cons x xs)
  obtain k where n: "n = Suc k" "length xs < k" using Cons.prems(8) by (cases n) auto
  obtain p m where nx: "sys_next s = Ok (int p) (s\<lparr>k_fpsys := Some p, k_syslineno := m, k_systems := x\<rparr>)"
      "parse_lines parse_sys m (file_lines (drop p c)) = Inr (xs @ e # ys)"
    using sys_next_run[OF Cons.prems(1,2)] Cons.prems(3) by fastforce
  define f :: "cclient \<Rightarrow> cclient" where "f = (\<lambda>c. c\<lparr>cc_sysftell := int p\<rparr>)"
  define u where "u = s\<lparr>k_fpsys := Some p, k_syslineno := m, k_systems := x, k_client := (k_client s)[i := f (k_client s ! i)]\<rparr>"
  have m: "sys_matches (k_client u ! i) = sys_matches (k_client s ! i)"
    using Cons.prems(7) by (intro sys_matches_same) (simp_all add: u_def f_def)
  have "request_loop n i s = request_loop k i u"
    using nx(1) m Cons.prems(4) unfolding n request_loop.simps upd_client_def f_def[symmetric]
    by (simp add: bnd_apply u_def f_def)
  moreover have "runs (request_loop k i) u (\<lambda>r t. r = 0 \<and> k_devices t = d \<and> k_systems t = e)"
    using Cons.prems nx(2) n m can_start_cong[of u s e d] by (intro Cons.IH) (simp_all add: u_def klk_def)
  ultimately show ?case by (simp add: runs_def)
qed

lemma request_runs:
  assumes "w_files s SYSTEMS = Some c" and "entries parse_sys c = Inr (xs @ e # ys)" and "cc_sysftell (k_client s ! i) = 0"
    and "\<forall>x\<in>set xs. \<not> sys_matches (k_client s ! i) x" and "sys_matches (k_client s ! i) e"
    and "\<not> k_Debug s" and "i < length (k_client s)" and "can_start s e d"
  shows "runs (request i) s (\<lambda>r t. r = 0 \<and> k_devices t = d \<and> k_systems t = e)"
proof -
  define u where "u = s\<lparr>k_errmsg := [], k_fpsys := (case k_fpsys s of None \<Rightarrow> None | Some _ \<Rightarrow> Some 0), k_syslineno := 0\<rparr>"
  have "request i s = request_loop (Suc (length c)) i u"
    using assms(1,3) by (simp add: request_def sys_posn_def sys_rew_def u_def file_bytes_def del: request_loop.simps)
  moreover have "length (xs @ e # ys) \<le> length c"
    using parse_lines_length[OF assms(2)[unfolded entries_def]] file_lines_length[of c] by simp
  then have "runs (request_loop (Suc (length c)) i) u (\<lambda>r t. r = 0 \<and> k_devices t = d \<and> k_systems t = e)"
    using assms can_start_cong[of u s e d]
    by (intro request_loop_runs[where c = c and xs = xs and ys = ys])
      (auto simp: u_def entries_def klk_def split: option.split)
  ultimately show ?thesis by (simp add: runs_def)
qed

end
