(* ===== verification/Calld_Props.thy ===== *)
theory Calld_Props
  imports Calld_Request
begin

text \<open>The properties of the dial server, with a server state on which they are tried.\<close>

subsection \<open>A server with one client\<close>

definition sys0 :: systems where
  "sys0 = \<lparr>sy_name = Some ''host'', sy_time = ''Any'', sy_type = ''ACU'', sy_class = ''9600'', sy_phone = ''555'', sy_login = ''x y''\<rparr>"

definition dev0 :: devices where
  "dev0 = \<lparr>dv_type = Some ''ACU'', dv_line = ''cua0'', dv_line2 = 0, dv_class = ''9600'', dv_dialer = ''direct''\<rparr>"

definition dev1 :: devices where
  "dev1 = dev0\<lparr>dv_line := ''cua1''\<rparr>"

definition cclient0 :: cclient where
  "cclient0 = \<lparr>cc_fd = 4, cc_pid = 0, cc_uid = 7, cc_childdone = 0, cc_sysftell = 0, cc_foundone = 0, cc_Debug = False,
     cc_parity = NONE, cc_speed = [], cc_sysname = ''host''\<rparr>"

definition calld0 :: calld where
  "calld0 = \<lparr>w_files = [SYSTEMS \<mapsto> concat (map print_sys [sys0]), DEVICES \<mapsto> concat (map print_dev [dev0, dev1])],
     w_fds = [3 \<mapsto> a_file [], 4 \<mapsto> a_file []], w_maxfd = 20,
     w_limit = 1000, w_denied = (\<lambda>_. False), w_locks = (\<lambda>_ _. None), w_others = [], w_mem = 100000, w_errno = E_OK,
     s_in = (\<lambda>_. []), s_hup = (\<lambda>_. False), s_out = (\<lambda>_. []), s_wr = (\<lambda>_. []), s_pending = [], s_names = (\<lambda>_. None),
     s_now = 100, s_pid = 42, s_cmptr = False,
     y_term = (\<lambda>_. None), y_queued = (\<lambda>_. 0), y_save = termios0,
     y_savefd = -1, y_state = RESET, y_mask = {}, y_devdir = None, y_stat = (\<lambda>_. None), y_fstat = (\<lambda>_. None),
     k_client = [cclient0], k_junk = cclient0,
     k_lock = [], k_lock_size = 0, k_fpsys = None, k_fpdev = None, k_fpdial = None, k_syslineno = 0, k_devlineno = 0, k_diallineno = 0,
     k_systems = sys0\<lparr>sy_name := None\<rparr>, k_devices = dev0\<lparr>dv_type := None\<rparr>,
     k_dialers = \<lparr>di_dialer = None, di_sub = [], di_expsend = []\<rparr>,
     k_clifd = 4, k_Debug = False, k_errmsg = [], k_speed = None, k_sysname = [], k_parity = NONE, k_chld_flag = False,
     k_allset = {3, 4}, k_maxfd = 4, k_maxi = 0, k_listen = 3, k_pids = [77, 78], k_zombies = [], k_sigs = [], k_n0 = 0,
     k_stk = (\<lambda>_. NUL), k_line = map Byte ''noise login: '', k_caught_alrm = False, k_alarm = False\<rparr>"

lemma sys0_ok: "sys_ok sys0" "length (print_sys sys0) < MAXLINE"
  by (simp_all add: sys_ok_def sys0_def plain_def word_ok_def rest_ok_def WHITE_def is_cstr_def print_sys_def unwords_def MAXLINE_def)

lemma dev0_ok: "dev_ok dev0" "dev_ok dev1" "length (print_dev dev0) < MAXLINE" "length (print_dev dev1) < MAXLINE"
  by (simp_all add: dev_ok_def dev0_def dev1_def plain_def word_ok_def WHITE_def is_cstr_def print_dev_def unwords_def MAXLINE_def)

lemma calld0_entries:
  "w_files calld0 SYSTEMS = Some (concat (map print_sys [sys0]))"
  "w_files calld0 DEVICES = Some (concat (map print_dev [dev0, dev1]))"
  "entries parse_sys (concat (map print_sys [sys0])) = Inr [sys0]"
  "entries parse_dev (concat (map print_dev [dev0, dev1])) = Inr [dev0, dev1]"
proof -
  show "w_files calld0 SYSTEMS = Some (concat (map print_sys [sys0]))"
    "w_files calld0 DEVICES = Some (concat (map print_dev [dev0, dev1]))"
    by (simp_all add: calld0_def SYSTEMS_def DEVICES_def)
  show "entries parse_sys (concat (map print_sys [sys0])) = Inr [sys0]"
    by (rule entries_print) (simp add: sys0_ok)
  show "entries parse_dev (concat (map print_dev [dev0, dev1])) = Inr [dev0, dev1]"
    by (rule entries_print_dev) (simp add: dev0_ok)
qed

lemma calld0_sel:
  "k_client calld0 = [cclient0]" "\<not> k_Debug calld0" "k_lock calld0 = []" "k_pids calld0 = [77, 78]" "w_mem calld0 = 100000"
  "k_fpsys calld0 = None" "k_syslineno calld0 = 0" "k_line calld0 = map Byte ''noise login: ''" "w_fds calld0 4 \<noteq> None" "s_wr calld0 4 = []"
  by (simp_all add: calld0_def)

lemma calld0_inv: "klock_inv calld0"
  by (simp add: klock_inv_def calld0_sel lock_ok_def k_held_def lock_held_def)

lemma dev0_matches: "dev_matches sys0 dev0" "length (no_device sys0) < MAXLINE" "sys_matches cclient0 sys0"
  by (simp_all add: dev_matches_def sys0_def dev0_def no_device_def quoted_def MAXLINE_def sys_matches_def cclient0_def)

lemma calld0_can_start: "can_start calld0 sys0 dev0"
proof -
  have "\<exists>c ds. w_files calld0 DEVICES = Some c \<and> entries parse_dev c = Inr ds \<and> find (dev_matches sys0) ds = Some dev0"
    using calld0_entries(2,4) dev0_matches(1) by auto
  moreover have "k_held calld0 (dv_line dev0) = 0" by (simp add: k_held_def lock_held_def calld0_sel)
  moreover have "lock_room calld0 (dv_line dev0)"
    by (simp add: lock_room_def calld0_sel CNALLOC_def sizeof_clock_def dev0_def)
  ultimately show ?thesis using dev0_matches(2) by (simp add: can_start_def calld0_sel)
qed

subsection \<open>Locks\<close>




text \<open>
  C12. A request that starts a child gives it a line that was free, changes no other line, and
  uses up one process ID; a request that fails leaves the table as it was.
\<close>

theorem request_takes_free_line:
  assumes "klock_inv s" and "request i s = Ok r t"
  shows "(if r < 0 then k_held t = k_held s
    else \<exists>p. k_pids s = p # k_pids t \<and> k_held s (dv_line (k_devices t)) = 0 \<and>
      k_held t = (k_held s)(dv_line (k_devices t) := p)) \<and> klock_inv t"
  using ensD[OF request_ens[OF assms(1)] assms(2)] by (auto simp: req_post_def took_def split: if_splits)

lemma calld0_request: "\<exists>t. request 0 calld0 = Ok 0 t \<and> k_devices t = dev0 \<and> k_systems t = sys0"
proof -
  have "runs (request 0) calld0 (\<lambda>r t. r = 0 \<and> k_devices t = dev0 \<and> k_systems t = sys0)"
    using calld0_entries(1,3) dev0_matches(3) calld0_can_start
    by (intro request_runs[where xs = "[]" and ys = "[]"]) (auto simp: calld0_sel cclient0_def)
  then show ?thesis by (auto simp: runs_iff)
qed

theorem request_takes_free_line_witness:
  "\<exists>t. request 0 calld0 = Ok 0 t \<and> k_held t ''cua0'' = 77 \<and> k_held t ''cua1'' = 0"
proof -
  obtain t where t: "request 0 calld0 = Ok 0 t" "k_devices t = dev0" using calld0_request by blast
  show ?thesis
    using request_takes_free_line[OF calld0_inv t(1)] t
    by (auto simp: calld0_sel dev0_def) (simp_all add: k_held_def lock_held_def calld0_sel)
qed

text \<open>
  C13. With the files in order, a request for a system succeeds when the device that comes first
  for the system's first fitting entry is free: the child's line is that device's, and the child
  is the one the client's entry names.
\<close>

theorem request_connects:
  assumes "klock_inv s" and "w_files s SYSTEMS = Some c" and "entries parse_sys c = Inr (xs @ e # ys)"
    and "cc_sysftell (k_client s ! i) = 0" and "\<forall>x\<in>set xs. \<not> sys_matches (k_client s ! i) x"
    and "sys_matches (k_client s ! i) e" and "\<not> k_Debug s" and "i < length (k_client s)" and "can_start s e d"
  shows "\<exists>t. request i s = Ok 0 t \<and> k_systems t = e \<and> k_devices t = d \<and>
    k_held t = (k_held s)(dv_line d := hd (k_pids s)) \<and> cc_pid (k_client t ! i) = hd (k_pids s)"
proof -
  obtain t where t: "request i s = Ok 0 t" "k_devices t = d" "k_systems t = e"
    using request_runs[OF assms(2-9)] by (auto simp: runs_iff)
  have "took i s t" using ensD[OF request_ens[OF assms(1)] t(1)] by (simp add: req_post_def)
  moreover have "length (k_client t) = length (k_client s)"
    using keeps_sameD[OF request_nclients t(1)] by (simp add: nclients_def)
  ultimately show ?thesis using t assms(8) by (auto simp: took_def)
qed

theorem request_connects_witness:
  "\<exists>t. request 0 calld0 = Ok 0 t \<and> k_held t = (k_held calld0)(''cua0'' := 77) \<and> cc_pid (k_client t ! 0) = 77"
  using request_connects[of calld0 "concat (map print_sys [sys0])" "[]" sys0 "[]" 0 dev0]
    calld0_inv calld0_entries(1,3) dev0_matches(3) calld0_can_start
  by (auto simp: calld0_sel cclient0_def dev0_def)

text \<open>
  A client that already holds a line and makes a second request gets a second line, and its
  entry names the second child only. When the client hangs up, the server releases the locks of
  the child that the entry names: the first line stays locked for good.
\<close>

theorem second_request_leaks_lock:
  assumes "klock_inv s" and "k_held s l = p" and "p \<noteq> 0" and "i < length (k_client s)" and "request i s = Ok 0 t"
    and "lock_rel (cc_pid (k_client t ! i)) t = Ok () u"
  shows "k_held u l = p \<and> cc_pid (k_client t ! i) \<noteq> p"
proof -
  have R: "klock_inv t" "took i s t" using ensD[OF request_ens[OF assms(1)] assms(5)] by (auto simp: req_post_def)
  moreover have "i < length (k_client t)"
    using keeps_sameD[OF request_nclients assms(5)] assms(4) by (simp add: nclients_def)
  ultimately obtain q where q: "k_pids s = q # k_pids t" "k_held s (dv_line (k_devices t)) = 0"
      "k_held t = (k_held s)(dv_line (k_devices t) := q)" "cc_pid (k_client t ! i) = q"
    by (auto simp: took_def)
  have "q \<noteq> p" using assms(1,2) q(1) by (auto simp: klock_inv_def)
  moreover have "k_held u = (\<lambda>l. if k_held t l = q then 0 else k_held t l)"
    using ensD[OF lock_rel_ens[OF R(1)] assms(6)] q(4) by simp
  moreover have "k_held t l = p" using q assms(2,3) by auto
  ultimately show ?thesis using q(4) by auto
qed

definition calld1 :: calld where
  "calld1 = calld0\<lparr>k_lock := [\<lparr>lk_line = ''ttya'', lk_pid = 50\<rparr>], k_client := [cclient0\<lparr>cc_pid := 50\<rparr>]\<rparr>"

theorem second_request_leaks_lock_witness:
  "\<exists>t u. request 0 calld1 = Ok 0 t \<and> lock_rel (cc_pid (k_client t ! 0)) t = Ok () u \<and> k_held u ''ttya'' = 50"
proof -
  have h: "k_held calld1 = (\<lambda>_. 0)(''ttya'' := 50)" by (simp add: calld1_def k_held_def lock_held_def fun_eq_iff)
  have inv: "klock_inv calld1" using h by (simp add: klock_inv_def lock_ok_def) (simp add: calld1_def calld0_sel)
  have cs: "can_start calld1 sys0 dev0"
    using calld0_can_start h by (simp add: can_start_def lock_room_def calld1_def dev0_def)
  have m: "sys_matches (cclient0\<lparr>cc_pid := 50\<rparr>) sys0" using dev0_matches(3) by (simp add: sys_matches_def)
  have "runs (request 0) calld1 (\<lambda>r t. r = 0 \<and> k_devices t = dev0 \<and> k_systems t = sys0)"
    using calld0_entries(1,3) m cs
    by (intro request_runs[where xs = "[]" and ys = "[]"]) (auto simp: calld1_def calld0_sel cclient0_def)
  then obtain t where t: "request 0 calld1 = Ok 0 t" by (auto simp: runs_iff)
  obtain u where u: "lock_rel (cc_pid (k_client t ! 0)) t = Ok () u" by (simp add: lock_rel_def)
  have "k_held u ''ttya'' = 50"
    using second_request_leaks_lock[OF inv, of "''ttya''" 50 0 t u] t u h by (simp add: calld1_def)
  then show ?thesis using t u by blast
qed

subsection \<open>The configuration files\<close>

text \<open>
  \<open>dev_find\<close> is a search in the list of entries of \<^verbatim>\<open>Devices\<close>: it leaves the first
  entry of the wanted type and class in \<open>devices\<close>, or reports that there is none.
\<close>

theorem dev_find_first_match:
  assumes "w_files s DEVICES = Some c" and "entries parse_dev c = Inr ds" and "length (no_device (k_systems s)) < MAXLINE"
  shows "\<exists>t. dev_find s = Ok (if find (dev_matches (k_systems s)) ds = None then -1 else 0) t \<and>
    (case find (dev_matches (k_systems s)) ds of Some d \<Rightarrow> k_devices t = d | None \<Rightarrow> k_errmsg t = no_device (k_systems s))"
  using dev_find_runs[OF assms] by (auto simp: runs_iff dev_found_def split: option.splits)

theorem dev_find_first_match_witness:
  "\<exists>t. dev_find (calld0\<lparr>k_systems := sys0\<rparr>) = Ok 0 t \<and> k_devices t = dev0"
  using dev_find_first_match[of "calld0\<lparr>k_systems := sys0\<rparr>" "concat (map print_dev [dev0, dev1])" "[dev0, dev1]"]
    calld0_entries(2,4) dev0_matches by auto

text \<open>
  C14. A \<^verbatim>\<open>Systems\<close> file written from a list of entries is read back, entry by entry, as
  that list.
\<close>

theorem systems_file_roundtrip:
  assumes "w_files s SYSTEMS = Some (concat (map print_sys es))" and "k_fpsys s = None" and "k_syslineno s = 0"
    and "\<forall>e\<in>set es. sys_ok e \<and> length (print_sys e) < MAXLINE"
  shows "\<exists>t. read_systems (Suc (length es)) s = Ok es t"
proof -
  have "parse_lines parse_sys (k_syslineno s) (file_lines (drop (fpos (k_fpsys s)) (concat (map print_sys es)))) = Inr es"
    using entries_print[OF assms(4)] assms(2,3) by (simp add: entries_def)
  from read_systems_runs[OF assms(1) _ this] show ?thesis
    using assms(3) unfolding runs_iff by blast
qed

theorem systems_file_roundtrip_witness: "\<exists>t. read_systems 2 calld0 = Ok [sys0] t"
  using systems_file_roundtrip[of calld0 "[sys0]"] calld0_entries(1) sys0_ok
  by (simp add: calld0_sel numeral_2_eq_2 del: read_systems.simps)

subsection \<open>Dialing\<close>

text \<open>
  C15. \<open>expect_str\<close> reads up to the end of the first occurrence of the string it expects and
  no further, as long as what it has to keep fits its buffer.
\<close>

theorem expect_str_first_match:
  assumes "ptr \<noteq> [CHR 0x22, CHR 0x22]" and "exp_escape ptr ptr = Inr e" and "e \<noteq> []" and "\<not> k_Debug s"
    and "k_line s = map Byte w @ rest" and "find_sub e w = Some k"
    and "k + length e \<le> length (takeWhile (\<lambda>c. c \<noteq> hd e) w) + MAXLINE"
  shows "\<exists>t. expect_str (Some ptr) s = Ok 0 t \<and> k_line t = map Byte (drop (k + length e) w) @ rest \<and> \<not> k_alarm t"
  using expect_str_run[OF assms(1-5) find_sub_first[OF assms(6)] assms(7)] by simp

theorem expect_str_first_match_witness:
  "\<exists>t. expect_str (Some ''login:'') calld0 = Ok 0 t \<and> k_line t = [Byte (CHR '' '')]"
proof -
  have "find_sub ''login:'' ''noise login: '' = Some 6" by code_simp
  from expect_str_first_match[OF _ _ _ _ _ this, of "''login:''" calld0 "[]"] show ?thesis
    by (simp add: calld0_sel MAXLINE_def) blast
qed

text \<open>
  When the alarm goes off before the first character of the expected string has arrived,
  \<open>expect_str\<close> does not return -1: it never returns.
\<close>

theorem expect_str_timeout_hangs:
  assumes "ptr \<noteq> [CHR 0x22, CHR 0x22]" and "is_cstr ptr" and "exp_escape ptr ptr = Inr e" and "e \<noteq> []" and "\<not> k_Debug s"
    and "k_line s = map Byte u @ Timeout # rest" and "hd e \<notin> set u"
  shows "halted (expect_str (Some ptr) s) = Some (Diverges ''expect_str'')"
  using expect_str_alarm[OF assms] by auto

theorem expect_str_timeout_hangs_witness:
  "halted (expect_str (Some ''ogin:'') (calld0\<lparr>k_line := map Byte ''busy'' @ [Timeout]\<rparr>)) = Some (Diverges ''expect_str'')"
  using expect_str_timeout_hangs[of "''ogin:''" "''ogin:''" "calld0\<lparr>k_line := map Byte ''busy'' @ [Timeout]\<rparr>" "''busy''" "[]"]
  by (simp add: calld0_sel is_cstr_def)

text \<open>
  \<open>send_str\<close> writes to the line the text its string stands for, byte by byte: escapes
  replaced, the phone number in place of \<open>\T\<close>, a carriage return at the end unless the string
  ends in \<open>\c\<close>.
\<close>

theorem send_str_writes_text:
  assumes "line_ready fd s" and "CHR 0x5C \<notin> set phone" and "send_text phone ptr = Some t"
  shows "\<exists>u. send_str 1 fd ptr phone False s = Ok 0 u \<and> sent u fd = sent s fd @ t"
proof -
  have "concat (map p_bytes (map (\<lambda>c. Pkt [c] None) t)) = t" by (induction t) auto
  then show ?thesis
    using send_str_run[OF assms, of 0] by (simp add: emit_def One_nat_def[symmetric] del: One_nat_def)
qed

theorem send_str_writes_text_witness:
  "\<exists>u. send_str 1 4 [CHR ''A'', CHR 0x5C, CHR ''T'', CHR 0x5C, CHR ''c''] ''55'' False calld0 = Ok 0 u \<and>
    sent u 4 = [CHR ''A'', CHR ''5'', CHR ''5'', CHR 0x0D]"
  using send_str_writes_text[of 4 calld0 "''55''" "[CHR ''A'', CHR 0x5C, CHR ''T'', CHR 0x5C, CHR ''c'']"]
  by (simp add: line_ready_def calld0_sel) (simp add: calld0_def)

text \<open>A request always ends: no file makes its loops run forever.\<close>

theorem request_terminates: "halted (request i s) \<noteq> Some (Diverges w)"
  by (rule ends_halted[OF request_ends])

end
