(* ===== verification/Lprps_Model.thy ===== *)
theory Lprps_Model
  imports Args Term
begin

text \<open>
  The PostScript printer filter: \<^verbatim>\<open>lprps.c\<close>, \<^verbatim>\<open>lprps.h\<close>, \<^verbatim>\<open>vars.c\<close>,
  \<^verbatim>\<open>input.c\<close>, \<^verbatim>\<open>output.c\<close>, \<^verbatim>\<open>message.c\<close>, \<^verbatim>\<open>mail.c\<close>, \<^verbatim>\<open>tty.c\<close>,
  \<^verbatim>\<open>alarm.c\<close>, \<^verbatim>\<open>interrupt.c\<close>, \<^verbatim>\<open>getstatus.c\<close>, \<^verbatim>\<open>pagecount.c\<close>,
  \<^verbatim>\<open>sendfile.c\<close> and \<^verbatim>\<open>acct.c\<close>.

  What happens on the printer line is the list \<open>lp_ev\<close>: bytes arrive (with the flag that the
  line takes output as well), the line takes output and nothing arrives, or a signal
  interrupts \<open>select\<close>. \<open>lp_flush\<close> says how many of the next events have happened when the
  queues are flushed. The pointer \<open>val\<close> of \<open>proc_msg\<close> is never set; \<open>lp_val\<close> is the
  string it happens to point to, none when it points to no string at all. Delays and log
  messages are not modelled.
\<close>

definition EXIT_SUCCESS :: int where "EXIT_SUCCESS = 0"
definition EXIT_REPRINT :: int where "EXIT_REPRINT = 1"
definition EXIT_THROW_AWAY :: int where "EXIT_THROW_AWAY = 2"
definition DEF_DEVICE :: string where "DEF_DEVICE = ''/dev/ttyb''"
definition OBSIZE :: nat where "OBSIZE = 1024"
definition IBSIZE :: nat where "IBSIZE = 1024"
definition MBSIZE :: nat where "MBSIZE = 1024"
definition eofc :: char where "eofc = CHR 0x04"

datatype status = INVALID | UNKNOWN | IDLE | BUSY | WAITING

datatype parse_state = NORMAL | HAD_ONE_PERCENT | HAD_TWO_PERCENT | IN_MESSAGE | HAD_RIGHT_BRACKET
  | HAD_RIGHT_BRACKET_AND_PERCENT

datatype disposition = SIG_DFL | SIG_IGN | SIG_CATCH

datatype ev = Data string bool | Quiet | Intr | Alrm

record lprps = tty +
  lp_loginname :: "string option"
  lp_hostname :: "string option"
  lp_acct_file :: "string option"
  lp_psfd :: int
  lp_start_page :: int
  lp_end_page :: int
  lp_debug :: bool
  lp_in_job :: bool
  lp_intr_flag :: bool
  lp_alrm_flag :: bool
  lp_status :: status
  lp_eof_count :: nat
  lp_ignore_input :: bool
  lp_parse :: parse_state
  lp_msgbuf :: string          \<comment> \<open>the first \<open>msgcnt\<close> bytes\<close>
  lp_outbuf :: string          \<comment> \<open>the bytes stored, \<open>OBSIZE\<close> less \<open>outcnt\<close>\<close>
  lp_mailfp :: "string option" \<comment> \<open>the text written to the mail file, when it is open\<close>
  lp_done_intro :: bool
  lp_sent :: "(string \<times> string) list" \<comment> \<open>mail commands run, with the text they were given\<close>
  lp_block_flag :: bool
  lp_int :: disposition
  lp_alrm :: disposition
  lp_val :: "string option"
  lp_tmpnam :: string
  lp_stdin :: string
  lp_ev :: "ev list"
  lp_flush :: "nat list"

subsection \<open>The line\<close>

definition lp_fcntl :: "string \<Rightarrow> (int \<Rightarrow> int) \<Rightarrow> (unit, lprps) prog" where
  "lp_fcntl who f =
     bnd (gets (\<lambda>s. (lp_psfd s, w_fds s (lp_psfd s)))) (\<lambda>(fd, r). case r of
       None \<Rightarrow> log_sys (who @ '': fcntl F_GETFL error'')
     | Some h \<Rightarrow> modify (\<lambda>s. s\<lparr>w_fds := (w_fds s)(fd \<mapsto> h\<lparr>o_oflag := f (o_oflag h)\<rparr>)\<rparr>))"

definition set_block :: "(unit, lprps) prog" where
  "set_block =
     bnd (gets lp_block_flag) (\<lambda>b.
     if b then ret ()
     else bnd (lp_fcntl ''set_block'' (\<lambda>v. v AND NOT O_NONBLOCK)) (\<lambda>_.
          modify (\<lambda>s. s\<lparr>lp_block_flag := True\<rparr>)))"

definition set_nonblock :: "(unit, lprps) prog" where
  "set_nonblock =
     bnd (gets lp_block_flag) (\<lambda>b.
     if \<not> b then ret ()
     else bnd (lp_fcntl ''set_nonblock'' (\<lambda>v. v OR O_NONBLOCK)) (\<lambda>_.
          modify (\<lambda>s. s\<lparr>lp_block_flag := False\<rparr>)))"

definition block_write :: "string \<Rightarrow> (unit, lprps) prog" where
  "block_write buf =
     bnd set_block (\<lambda>_.
     bnd (gets lp_psfd) (\<lambda>fd.
     bnd (sock_write fd buf) (\<lambda>r.
     if r \<noteq> int (length buf) then log_sys ''block_write: write error'' else ret ())))"

definition is_input :: "ev \<Rightarrow> bool" where
  "is_input e = (case e of Data _ _ \<Rightarrow> True | _ \<Rightarrow> False)"

text \<open>\<open>tcflush\<close> drops the bytes among the events that have happened; signals are not lost.\<close>

definition tty_flush :: "(unit, lprps) prog" where
  "tty_flush =
     bnd (gets (\<lambda>s. tcgetattr (lp_psfd s) s)) (\<lambda>r.
     if r = None then log_sys ''tty_flush: tcflush error''
     else modify (\<lambda>s. let k = (case lp_flush s of [] \<Rightarrow> 0 | n # _ \<Rightarrow> n) in
            s\<lparr>lp_ev := filter (\<lambda>e. \<not> is_input e) (take k (lp_ev s)) @ drop k (lp_ev s), lp_flush := tl (lp_flush s)\<rparr>))"

definition printer_termios :: "termios \<Rightarrow> termios" where
  "printer_termios t =
     t\<lparr>t_cflag := CS8 OR CREAD OR CLOCAL, t_oflag := t_oflag t AND NOT OPOST,
       t_iflag := IXON OR IXOFF OR IGNBRK OR ISTRIP OR IGNCR, t_lflag := 0, t_vmin := 1, t_vtime := 0, t_speed := 19200\<rparr>"

definition lp_tty_open :: "(unit, lprps) prog" where
  "lp_tty_open =
     bnd (sys_open DEF_DEVICE O_RDWR) (\<lambda>fd.
     bnd (modify (\<lambda>s. s\<lparr>lp_psfd := fd\<rparr>)) (\<lambda>_.
     if fd < 0 then log_sys ''tty_open: open error''
     else bnd (gets (tcgetattr fd)) (\<lambda>r. case r of
       None \<Rightarrow> log_sys ''tty_open: tcgetattr error''
     | Some t \<Rightarrow>
         bnd (tcsetattr fd False (printer_termios t)) (\<lambda>r.
         if r < 0 then log_sys ''tty_open: tcsetattr error'' else ret ()))))"

subsection \<open>Signals\<close>

definition set_alrm :: "(unit, lprps) prog" where
  "set_alrm = modify (\<lambda>s. s\<lparr>lp_alrm_flag := False, lp_alrm := SIG_CATCH\<rparr>)"

definition clear_alrm :: "(unit, lprps) prog" where
  "clear_alrm = modify (\<lambda>s. s\<lparr>lp_alrm := SIG_IGN, lp_alrm_flag := False\<rparr>)"

definition handle_alrm :: "('a, lprps) prog" where
  "handle_alrm = stop_with (Exit EXIT_REPRINT ''printer not responding'')"

definition set_intr :: "(unit, lprps) prog" where
  "set_intr = modify (\<lambda>s. s\<lparr>lp_int := SIG_CATCH\<rparr>)"

definition clear_intr :: "(unit, lprps) prog" where
  "clear_intr = modify (\<lambda>s. s\<lparr>lp_int := SIG_IGN\<rparr>)"

text \<open>A signal arrives: what its disposition does (\<open>sig_int\<close> and \<open>sig_alrm\<close> set their flags).\<close>

definition take_signal :: "ev \<Rightarrow> (unit, lprps) prog" where
  "take_signal e = (\<lambda>s. case e of
     Intr \<Rightarrow> (case lp_int s of
         SIG_DFL \<Rightarrow> Halt (Abort ''killed by SIGINT'') s
       | SIG_IGN \<Rightarrow> Ok () s
       | SIG_CATCH \<Rightarrow> Ok () (s\<lparr>lp_intr_flag := True\<rparr>))
   | Alrm \<Rightarrow> (case lp_alrm s of
         SIG_CATCH \<Rightarrow> Ok () (s\<lparr>lp_alrm_flag := True\<rparr>)
       | _ \<Rightarrow> Ok () s)
   | _ \<Rightarrow> Ok () s)"

subsection \<open>Accounting and mail\<close>

text \<open>\<open>%7.2f\<close> of a number that is an integer.\<close>

definition fmt_pages :: "int \<Rightarrow> string" where
  "fmt_pages n = pad 7 (fmt_d n @ ''.00'')"

definition acct_line :: "int \<Rightarrow> string \<Rightarrow> string \<Rightarrow> string" where
  "acct_line n host login = fmt_pages n @ '' '' @ host @ '':'' @ login @ [NL]"

definition do_acct :: "(unit, lprps) prog" where
  "do_acct = modify (\<lambda>s. case (lp_acct_file s, lp_hostname s, lp_loginname s) of
     (Some f, Some h, Some l) \<Rightarrow>
       if lp_end_page s > lp_start_page s \<and> \<not> w_denied s f
       then s\<lparr>w_files := (w_files s)(f \<mapsto> file_bytes s f @ acct_line (lp_end_page s - lp_start_page s) h l)\<rparr>
       else s
   | _ \<Rightarrow> s)"

definition open_mailfp :: "(unit, lprps) prog" where
  "open_mailfp =
     bnd (gets (\<lambda>s. (lp_mailfp s, w_denied s (lp_tmpnam s)))) (\<lambda>(fp, bad).
     if fp \<noteq> None then ret ()
     else if bad then log_sys ''open_mailfp: fopen error''
     else modify (\<lambda>s. s\<lparr>lp_mailfp := Some []\<rparr>))"

definition mail_put :: "string \<Rightarrow> (unit, lprps) prog" where
  "mail_put t = modify (\<lambda>s. s\<lparr>lp_mailfp := map_option (\<lambda>m. m @ t) (lp_mailfp s)\<rparr>)"

definition mail_intro :: string where
  "mail_intro = ''Your PostScript printer jobproduced the following output:'' @ [NL]"

definition mail_char :: "char \<Rightarrow> (unit, lprps) prog" where
  "mail_char c =
     bnd (gets (\<lambda>s. lp_in_job s \<and> (lp_done_intro s \<or> c \<noteq> NL))) (\<lambda>b.
     if \<not> b then ret ()
     else bnd open_mailfp (\<lambda>_.
     bnd (gets lp_done_intro) (\<lambda>d.
     bnd (if d then ret ()
          else bnd (mail_put mail_intro) (\<lambda>_. modify (\<lambda>s. s\<lparr>lp_done_intro := True\<rparr>))) (\<lambda>_.
     mail_put [c]))))"

definition mail_line :: "(string \<Rightarrow> string) \<Rightarrow> string \<Rightarrow> (unit, lprps) prog" where
  "mail_line msg v =
     bnd (gets lp_in_job) (\<lambda>b. if \<not> b then ret () else bnd open_mailfp (\<lambda>_. mail_put (msg v)))"

definition mail_command :: "string \<Rightarrow> string \<Rightarrow> string \<Rightarrow> string" where
  "mail_command login host file =
     ''mail -s '' @ [CHR 0x22] @ ''printer job'' @ [CHR 0x22] @ '' '' @ login @ ''@'' @ host @ '' < '' @ file"

text \<open>Run at exit.\<close>

definition close_mailfp :: "(unit, lprps) prog" where
  "close_mailfp =
     bnd (gets (\<lambda>s. (lp_mailfp s, lp_loginname s, lp_hostname s, lp_tmpnam s))) (\<lambda>(fp, login, host, file).
     case fp of
       None \<Rightarrow> ret ()
     | Some text' \<Rightarrow> (case (login, host) of
         (Some l, Some h) \<Rightarrow>
           if length (mail_command l h file) \<ge> 1024 then stop_with (Undefined ''command overflow'')
           else modify (\<lambda>s. s\<lparr>lp_sent := lp_sent s @ [(mail_command l h file, text')]\<rparr>)
       | _ \<Rightarrow> stop_with (Undefined ''null string printed'')))"

subsection \<open>Messages\<close>

definition msg_init :: "(unit, lprps) prog" where
  "msg_init = modify (\<lambda>s. s\<lparr>lp_msgbuf := []\<rparr>)"

definition msg_char :: "char \<Rightarrow> (unit, lprps) prog" where
  "msg_char c =
     modify (\<lambda>s. if c \<noteq> NUL \<and> length (lp_msgbuf s) < MBSIZE - 1 then s\<lparr>lp_msgbuf := lp_msgbuf s @ [c]\<rparr> else s)"

definition rtrim :: "string \<Rightarrow> string" where
  "rtrim v = rev (dropWhile isspace (rev v))"

text \<open>The key of a pair, \<open>None\<close> without a colon.\<close>

definition pair_key :: "string \<Rightarrow> string option" where
  "pair_key tok = (let p = dropWhile isspace tok in
     if CHR '':'' \<in> set p then Some (takeWhile (\<lambda>c. c \<noteq> CHR '':'') p) else None)"

definition status_of :: "string \<Rightarrow> status" where
  "status_of v = (if v = ''idle'' then IDLE else if v = ''busy'' then BUSY else if v = ''waiting'' then WAITING else UNKNOWN)"

definition set_pagecount :: "string \<Rightarrow> lprps \<Rightarrow> lprps" where
  "set_pagecount v s = (case sscanf_d v of
     None \<Rightarrow> s
   | Some n0 \<Rightarrow> (let n = to_int32 n0 in
       if n < 0 then s
       else if lp_start_page s < 0 then s\<lparr>lp_start_page := n\<rparr> else s\<lparr>lp_end_page := n\<rparr>))"

definition error_text :: "string \<Rightarrow> string" where
  "error_text v = ''Your PostScript printer job produced the error '' @ [CHR 0x27] @ v @ [CHR 0x27] @ ''.'' @ [NL]"

definition command_text :: "string \<Rightarrow> string" where
  "command_text v = ''The offending command was '' @ [CHR 0x27] @ v @ [CHR 0x27] @ ''. '' @ [NL]"

text \<open>What a key does with a value.\<close>

definition proc_key :: "(unit, lprps) prog \<Rightarrow> string \<Rightarrow> string \<Rightarrow> (unit, lprps) prog" where
  "proc_key flushing key v =
     (if key = ''Flushing'' then flushing
      else if key = ''PrinterError'' then ret ()
      else if key = ''Error'' then mail_line error_text v
      else if key = ''status'' then modify (\<lambda>s. s\<lparr>lp_status := status_of v\<rparr>)
      else if key = ''OffendingCommand'' then mail_line command_text v
      else if key = ''pagecount'' then modify (set_pagecount v)
      else ret ())"

text \<open>
  One \<open>key: val\<close> pair. The loop that skips the blanks before the value moves \<open>ptr\<close>, but
  \<open>val\<close> is not set from it: the code goes on with what \<open>val\<close> pointed to before.
\<close>

definition proc_pair :: "(unit, lprps) prog \<Rightarrow> string \<Rightarrow> (unit, lprps) prog" where
  "proc_pair flushing tok = (case pair_key tok of
     None \<Rightarrow> ret ()
   | Some key \<Rightarrow>
       bnd (gets lp_val) (\<lambda>v. case v of
         None \<Rightarrow> stop_with (Undefined ''val is not initialised'')
       | Some v \<Rightarrow>
           bnd (modify (\<lambda>s. s\<lparr>lp_val := Some (rtrim v)\<rparr>)) (\<lambda>_.
           proc_key flushing key (rtrim v))))"

fun proc_pairs :: "(unit, lprps) prog \<Rightarrow> string list \<Rightarrow> (unit, lprps) prog" where
  "proc_pairs flushing [] = ret ()"
| "proc_pairs flushing (t # ts) = bnd (proc_pair flushing t) (\<lambda>_. proc_pairs flushing ts)"

function semi_tokens :: "string \<Rightarrow> string list" where
  "semi_tokens s = (case strtok {CHR '';''} s of None \<Rightarrow> [] | Some (_, t, r) \<Rightarrow> t # semi_tokens r)"
  by pat_completeness auto
termination by (relation "measure length") (auto dest: strtok_rest_shorter)

declare semi_tokens.simps [simp del]

definition proc_msg :: "(unit, lprps) prog \<Rightarrow> (unit, lprps) prog" where
  "proc_msg flushing = bnd (gets (\<lambda>s. semi_tokens (lp_msgbuf s))) (proc_pairs flushing)"

subsection \<open>Input\<close>

definition init_input :: "bool \<Rightarrow> (unit, lprps) prog" where
  "init_input job = modify (\<lambda>s. s\<lparr>lp_in_job := job, lp_parse := NORMAL, lp_ignore_input := False\<rparr>)"

definition set_parse :: "parse_state \<Rightarrow> (unit, lprps) prog" where
  "set_parse p = modify (\<lambda>s. s\<lparr>lp_parse := p\<rparr>)"

fun mail_chars :: "string \<Rightarrow> (unit, lprps) prog" where
  "mail_chars [] = ret ()"
| "mail_chars (c # cs) = bnd (mail_char c) (\<lambda>_. mail_chars cs)"

fun msg_chars :: "string \<Rightarrow> (unit, lprps) prog" where
  "msg_chars [] = ret ()"
| "msg_chars (c # cs) = bnd (msg_char c) (\<lambda>_. msg_chars cs)"

definition proc_input_char :: "(unit, lprps) prog \<Rightarrow> char \<Rightarrow> (unit, lprps) prog" where
  "proc_input_char flushing c =
     bnd (gets (\<lambda>s. (lp_ignore_input s, lp_parse s))) (\<lambda>(ign, p).
     if c = eofc then modify (\<lambda>s. s\<lparr>lp_eof_count := lp_eof_count s + 1\<rparr>)
     else if ign then ret ()
     else (case p of
         NORMAL \<Rightarrow> if c = CHR ''%'' then set_parse HAD_ONE_PERCENT else mail_char c
       | HAD_ONE_PERCENT \<Rightarrow>
           if c = CHR ''%'' then set_parse HAD_TWO_PERCENT
           else bnd (mail_chars [CHR ''%'', c]) (\<lambda>_. set_parse NORMAL)
       | HAD_TWO_PERCENT \<Rightarrow>
           if c = CHR ''['' then bnd msg_init (\<lambda>_. set_parse IN_MESSAGE)
           else bnd (mail_chars [CHR ''%'', CHR ''%'', c]) (\<lambda>_. set_parse NORMAL)
       | IN_MESSAGE \<Rightarrow> if c = CHR '']'' then set_parse HAD_RIGHT_BRACKET else msg_char c
       | HAD_RIGHT_BRACKET \<Rightarrow>
           if c = CHR ''%'' then set_parse HAD_RIGHT_BRACKET_AND_PERCENT
           else bnd (msg_chars [CHR '']'', c]) (\<lambda>_. set_parse IN_MESSAGE)
       | HAD_RIGHT_BRACKET_AND_PERCENT \<Rightarrow>
           if c = CHR ''%'' then bnd (set_parse NORMAL) (\<lambda>_. proc_msg flushing)
           else bnd (msg_chars [CHR '']'', CHR ''%'', c]) (\<lambda>_. set_parse IN_MESSAGE)))"

fun proc_input_chars :: "(unit, lprps) prog \<Rightarrow> string \<Rightarrow> (unit, lprps) prog" where
  "proc_input_chars flushing [] = ret ()"
| "proc_input_chars flushing (c # cs) = bnd (proc_input_char flushing c) (\<lambda>_. proc_input_chars flushing cs)"

text \<open>
  The waiting loops, over \<open>some\<close>, a call of \<open>proc_some_input\<close>. Each call takes at least one
  event or does not return, so that \<open>n\<close> rounds are enough when \<open>n\<close> exceeds the events left.
\<close>

fun wait_while :: "nat \<Rightarrow> (lprps \<Rightarrow> bool) \<Rightarrow> (unit, lprps) prog \<Rightarrow> (unit, lprps) prog" where
  "wait_while n b some =
     bnd (gets b) (\<lambda>go.
     if \<not> go then ret ()
     else (case n of 0 \<Rightarrow> stop_with (Diverges ''waiting for the printer'')
                   | Suc m \<Rightarrow> bnd some (\<lambda>_. wait_while m b some)))"

declare wait_while.simps [simp del]

definition proc_upto_eof_with :: "nat \<Rightarrow> (unit, lprps) prog \<Rightarrow> bool \<Rightarrow> (unit, lprps) prog" where
  "proc_upto_eof_with n some ign =
     bnd (modify (\<lambda>s. s\<lparr>lp_ignore_input := ign\<rparr>)) (\<lambda>_.
     bnd (gets lp_eof_count) (\<lambda>ec. wait_while n (\<lambda>s. lp_eof_count s = ec) some))"

definition pagecount_string :: string where
  "pagecount_string =
     ''(%%[ pagecount: ) print '' @ ''statusdict begin pagecount end '' @ ''20 string '' @ ''cvs '' @ ''print '' @
     ''( ]%% ) print '' @ ''flush'' @ [NL]"

text \<open>\<open>get_page(&start_page)\<close> or, with \<open>endp\<close>, \<open>get_page(&end_page)\<close>.\<close>

definition page_of :: "bool \<Rightarrow> lprps \<Rightarrow> int" where
  "page_of endp s = (if endp then lp_end_page s else lp_start_page s)"

definition get_page_with :: "nat \<Rightarrow> (unit, lprps) prog \<Rightarrow> bool \<Rightarrow> (unit, lprps) prog" where
  "get_page_with n some endp =
     bnd set_alrm (\<lambda>_.
     bnd tty_flush (\<lambda>_.
     bnd (block_write pagecount_string) (\<lambda>_.
     bnd (init_input False) (\<lambda>_.
     bnd (modify (\<lambda>s. if endp then s\<lparr>lp_end_page := -1\<rparr> else s\<lparr>lp_start_page := -1\<rparr>)) (\<lambda>_.
     bnd (wait_while n (\<lambda>s. page_of endp s < 0) some) (\<lambda>_.
     bnd (block_write [eofc]) (\<lambda>_.
     bnd (proc_upto_eof_with n some False) (\<lambda>_. clear_alrm))))))))"

definition job_over :: "nat \<Rightarrow> (unit, lprps) prog \<Rightarrow> (unit, lprps) prog" where
  "job_over n some =
     bnd (get_page_with n some True) (\<lambda>_.
     bnd do_acct (\<lambda>_. stop_with (Exit EXIT_SUCCESS [])))"

definition printer_flushing_with :: "nat \<Rightarrow> (unit, lprps) prog \<Rightarrow> (unit, lprps) prog" where
  "printer_flushing_with n some =
     bnd clear_intr (\<lambda>_.
     bnd tty_flush (\<lambda>_.
     bnd (block_write [eofc]) (\<lambda>_.
     bnd (proc_upto_eof_with n some True) (\<lambda>_. job_over n some))))"

definition handle_intr_with :: "nat \<Rightarrow> (unit, lprps) prog \<Rightarrow> (unit, lprps) prog" where
  "handle_intr_with n some =
     bnd (modify (\<lambda>s. s\<lparr>lp_intr_flag := False\<rparr>)) (\<lambda>_.
     bnd set_alrm (\<lambda>_.
     bnd tty_flush (\<lambda>_.
     bnd (block_write [CHR 0x03]) (\<lambda>_.
     bnd (block_write [eofc]) (\<lambda>_.
     bnd (proc_upto_eof_with n some True) (\<lambda>_.
     bnd clear_alrm (\<lambda>_. job_over n some)))))))"

text \<open>
  The rest of \<open>proc_some_input\<close> once the flags have been looked at: \<open>select\<close> until input is
  there, then one \<open>read\<close>. The events are taken one by one; what a read leaves stays.
\<close>

fun some_input_events :: "(unit, lprps) prog \<Rightarrow> (unit, lprps) prog \<Rightarrow> ev list \<Rightarrow> (unit, lprps) prog" where
  "some_input_events intr flushing [] = bnd (modify (\<lambda>s. s\<lparr>lp_ev := []\<rparr>)) (\<lambda>_. stop_with (Blocked ''select''))"
| "some_input_events intr flushing (Data bs w # es) =
     bnd (modify (\<lambda>s. s\<lparr>lp_ev := (if length bs \<le> IBSIZE then es else Data (drop IBSIZE bs) w # es)\<rparr>)) (\<lambda>_.
     if bs = [] then log_sys ''proc_some_input: read returned 0''
     else proc_input_chars flushing (take IBSIZE bs))"
| "some_input_events intr flushing (Quiet # es) =
     bnd (modify (\<lambda>s. s\<lparr>lp_ev := es\<rparr>)) (\<lambda>_. some_input_events intr flushing es)"
| "some_input_events intr flushing (e # es) =
     bnd (modify (\<lambda>s. s\<lparr>lp_ev := es\<rparr>)) (\<lambda>_.
     bnd (take_signal e) (\<lambda>_.
     bnd (gets (\<lambda>s. (lp_alrm_flag s, lp_intr_flag s))) (\<lambda>(al, it).
     if al then handle_alrm else if it then intr
     else some_input_events intr flushing es)))"

text \<open>
  \<open>proc_some_input\<close> and, through a message or an interrupt, itself again: \<open>n\<close> bounds the
  depth of the calls. Every inner call has fewer bytes and events before it.
\<close>

fun proc_some_input :: "nat \<Rightarrow> (unit, lprps) prog" where
  "proc_some_input 0 = stop_with (Diverges ''proc_some_input'')"
| "proc_some_input (Suc n) =
     bnd set_nonblock (\<lambda>_.
     bnd (gets (\<lambda>s. (lp_intr_flag s, lp_alrm_flag s))) (\<lambda>(it, al).
     if it then handle_intr_with n (proc_some_input n)
     else if al then handle_alrm
     else bnd (gets lp_ev) (\<lambda>es.
     some_input_events (handle_intr_with n (proc_some_input n)) (printer_flushing_with n (proc_some_input n)) es)))"

definition ev_size :: "ev \<Rightarrow> nat" where
  "ev_size e = (case e of Data bs _ \<Rightarrow> Suc (length bs) | _ \<Rightarrow> 1)"

definition ev_fuel :: "lprps \<Rightarrow> nat" where
  "ev_fuel s = Suc (sum_list (map ev_size (lp_ev s)))"

definition proc_upto_eof :: "bool \<Rightarrow> (unit, lprps) prog" where
  "proc_upto_eof ign = bnd (gets ev_fuel) (\<lambda>n. proc_upto_eof_with n (proc_some_input n) ign)"

definition get_page :: "bool \<Rightarrow> (unit, lprps) prog" where
  "get_page endp = bnd (gets ev_fuel) (\<lambda>n. get_page_with n (proc_some_input n) endp)"

definition printer_flushing :: "(unit, lprps) prog" where
  "printer_flushing = bnd (gets ev_fuel) (\<lambda>n. printer_flushing_with n (proc_some_input n))"

definition handle_intr :: "(unit, lprps) prog" where
  "handle_intr = bnd (gets ev_fuel) (\<lambda>n. handle_intr_with n (proc_some_input n))"

subsection \<open>Output\<close>

text \<open>
  \<open>out_buf\<close>: \<open>bs\<close> is what is left to write. A round handles what \<open>select\<close> reports: input
  first, then a write of as much as the line takes.
\<close>

definition out_write :: "string \<Rightarrow> (string, lprps) prog" where
  "out_write bs =
     bnd (gets lp_psfd) (\<lambda>fd.
     bnd (sock_write fd bs) (\<lambda>n.
     if n < 0 then log_sys ''out_buf: write error'' else ret (drop (nat n) bs)))"

definition out_select :: "string \<Rightarrow> (string, lprps) prog" where
  "out_select bs =
     bnd (gets lp_ev) (\<lambda>es. case es of
       [] \<Rightarrow> out_write bs
     | Quiet # es' \<Rightarrow> bnd (modify (\<lambda>s. s\<lparr>lp_ev := es'\<rparr>)) (\<lambda>_. out_write bs)
     | Data ib w # es' \<Rightarrow>
         bnd (modify (\<lambda>s. s\<lparr>lp_ev := (if length ib \<le> IBSIZE then es' else Data (drop IBSIZE ib) w # es')\<rparr>)) (\<lambda>_.
         bnd (proc_input_chars printer_flushing (take IBSIZE ib)) (\<lambda>_.
         if w then out_write bs else ret bs))
     | e # es' \<Rightarrow>
         bnd (modify (\<lambda>s. s\<lparr>lp_ev := es'\<rparr>)) (\<lambda>_.
         bnd (take_signal e) (\<lambda>_.
         bnd (gets lp_intr_flag) (\<lambda>it. if it then bnd handle_intr (\<lambda>_. ret bs) else ret bs))))"

fun out_loop :: "nat \<Rightarrow> string \<Rightarrow> (unit, lprps) prog" where
  "out_loop 0 bs = stop_with (Diverges ''out_buf'')"
| "out_loop (Suc n) bs =
     (if bs = [] then ret ()
      else bnd (gets lp_intr_flag) (\<lambda>it.
           bnd (if it then handle_intr else ret ()) (\<lambda>_.
           bnd (out_select bs) (\<lambda>rest. out_loop n rest))))"

definition out_buf :: "(unit, lprps) prog" where
  "out_buf =
     bnd set_nonblock (\<lambda>_.
     bnd (gets (\<lambda>s. (lp_outbuf s, ev_fuel s))) (\<lambda>(bs, n).
     bnd (out_loop (n + length bs) bs) (\<lambda>_.
     modify (\<lambda>s. s\<lparr>lp_outbuf := []\<rparr>))))"

text \<open>\<open>None\<close> is \<open>EOF\<close>.\<close>

definition out_char :: "char option \<Rightarrow> (unit, lprps) prog" where
  "out_char c' = (case c' of
     None \<Rightarrow> out_buf
   | Some c \<Rightarrow>
       bnd (gets (\<lambda>s. length (lp_outbuf s) \<ge> OBSIZE)) (\<lambda>full.
       bnd (if full then out_buf else ret ()) (\<lambda>_.
       modify (\<lambda>s. s\<lparr>lp_outbuf := lp_outbuf s @ [c]\<rparr>))))"

fun out_chars :: "string \<Rightarrow> (unit, lprps) prog" where
  "out_chars [] = ret ()"
| "out_chars (c # cs) = bnd (out_char (Some c)) (\<lambda>_. out_chars cs)"

definition send_file :: "(unit, lprps) prog" where
  "send_file =
     bnd (init_input True) (\<lambda>_.
     bnd set_intr (\<lambda>_.
     bnd (gets lp_stdin) (\<lambda>inp.
     bnd (out_chars inp) (\<lambda>_.
     bnd (out_char None) (\<lambda>_.
     bnd (block_write [eofc]) (\<lambda>_.
     proc_upto_eof False))))))"

subsection \<open>The job\<close>

definition get_status :: "(unit, lprps) prog" where
  "get_status =
     bnd set_alrm (\<lambda>_.
     bnd tty_flush (\<lambda>_.
     bnd (block_write [CHR 0x14]) (\<lambda>_.
     bnd (init_input False) (\<lambda>_.
     bnd (gets ev_fuel) (\<lambda>n.
     bnd (wait_while n (\<lambda>s. lp_status s = INVALID) (proc_some_input n)) (\<lambda>_.
     bnd (gets lp_status) (\<lambda>st. case st of
       IDLE \<Rightarrow> clear_alrm
     | WAITING \<Rightarrow> bnd (block_write [eofc]) (\<lambda>_. stop_with (Exit EXIT_REPRINT []))
     | INVALID \<Rightarrow> ret ()
     | _ \<Rightarrow> stop_with (Exit EXIT_REPRINT []))))))))"

definition lp_usage :: "('a, lprps) prog" where
  "lp_usage = stop_with (Exit EXIT_THROW_AWAY ''lprps: invalid arguments'')"

fun lp_options :: "opt list \<Rightarrow> (unit, lprps) prog" where
  "lp_options [] = ret ()"
| "lp_options (Opt c # os) =
     bnd (if c = CHR ''d'' then modify (\<lambda>s. s\<lparr>lp_debug := True\<rparr>) else ret ()) (\<lambda>_. lp_options os)"
| "lp_options (OptArg c a # os) =
     bnd (modify (\<lambda>s. if c = CHR ''n'' then s\<lparr>lp_loginname := Some a\<rparr>
                      else if c = CHR ''h'' then s\<lparr>lp_hostname := Some a\<rparr> else s)) (\<lambda>_. lp_options os)"
| "lp_options (BadOpt c # os) = lp_usage"

definition lprps_body :: "string list \<Rightarrow> (unit, lprps) prog" where
  "lprps_body argv = (case getopts ''cdw'' ''hilnxy'' [] (tl argv) of (os, rest) \<Rightarrow>
     bnd (lp_options os) (\<lambda>_.
     bnd (gets (\<lambda>s. lp_hostname s = None \<or> lp_loginname s = None)) (\<lambda>bad.
     if bad then lp_usage
     else bnd (modify (\<lambda>s. case rest of [] \<Rightarrow> s | f # _ \<Rightarrow> s\<lparr>lp_acct_file := Some f\<rparr>)) (\<lambda>_.
     bnd (gets lp_debug) (\<lambda>d.
     bnd (if d then lp_tty_open else ret ()) (\<lambda>_.
     bnd get_status (\<lambda>_.
     bnd (get_page False) (\<lambda>_.
     bnd send_file (\<lambda>_.
     bnd (get_page True) (\<lambda>_.
     bnd do_acct (\<lambda>_. stop_with (Exit EXIT_SUCCESS []))))))))))))"

definition lprps_main :: "string list \<Rightarrow> (unit, lprps) prog" where
  "lprps_main argv = at_exit close_mailfp (lprps_body argv)"

end
