(* ===== verification/Lprps_Inv.thy ===== *)
theory Lprps_Inv
  imports Lprps_Model
begin

text \<open>
  The buffers of the printer filter: however a run goes on and however it ends, the message
  buffer and the output buffer hold no more than they have room for.
\<close>

definition lp_ok :: "lprps \<Rightarrow> bool" where
  "lp_ok s \<longleftrightarrow> length (lp_msgbuf s) < MBSIZE \<and> is_cstr (lp_msgbuf s) \<and> length (lp_outbuf s) \<le> OBSIZE"

definition lp_within :: "lprps \<Rightarrow> lprps \<Rightarrow> bool" where
  "lp_within s t \<longleftrightarrow> (lp_ok s \<longrightarrow> lp_ok t)"

abbreviation bounded :: "('a, lprps) prog \<Rightarrow> bool" where
  "bounded m \<equiv> keeps lp_within m"

named_theorems bnds "programs that stay within the buffers"

lemma within_reflp: "reflp lp_within"
  by (simp add: reflp_def lp_within_def)

lemma within_transp: "transp lp_within"
  by (rule transpI) (simp add: lp_within_def)

lemmas bounded_bnd [bnds] = keeps_bnd[OF within_transp]
  and bounded_ret [bnds] = keeps_ret[OF within_reflp]
  and bounded_gets [bnds] = keeps_gets[OF within_reflp]
  and bounded_stop [bnds] = keeps_stop_with[OF within_reflp]
  and bounded_if [bnds] = keeps_if[of lp_within]
  and bounded_option [bnds] = keeps_option[of lp_within]
  and bounded_prod [bnds] = keeps_prod[of lp_within]

lemma boundedI: "(\<And>s. lp_msgbuf (final (m s)) = lp_msgbuf s \<and> lp_outbuf (final (m s)) = lp_outbuf s) \<Longrightarrow> bounded m"
  by (simp add: keeps_def lp_within_def lp_ok_def)

lemma bounded_modify: "(\<And>s. lp_msgbuf (g s) = lp_msgbuf s \<and> lp_outbuf (g s) = lp_outbuf s) \<Longrightarrow> bounded (modify g)"
  by (rule boundedI) simp

lemma bounded_err [bnds]: "bounded (log_sys m)" "bounded (err_sys m)"
  unfolding log_sys_def err_sys_def by (intro bnds)+

lemma bounded_sys [bnds]: "bounded (sock_write fd bs)" "bounded (sys_open p fl)" "bounded (tcsetattr fd b t)" "bounded (take_signal e)"
  by (rule boundedI, auto simp: sock_write_def sys_open_def fail_def sock_put_def Let_def tcsetattr_def take_signal_def set_term_def
      flush_input_def split: list.splits option.splits ev.splits disposition.splits)+

lemma bounded_tty [bnds]: "bounded set_block" "bounded set_nonblock" "bounded tty_flush" "bounded lp_tty_open"
  unfolding set_block_def set_nonblock_def tty_flush_def lp_tty_open_def lp_fcntl_def
  by (intro bnds bounded_modify; simp add: Let_def)+

lemma bounded_block_write [bnds]: "bounded (block_write b)"
  unfolding block_write_def by (intro bnds)

lemma bounded_signals [bnds]: "bounded set_alrm" "bounded clear_alrm" "bounded handle_alrm" "bounded set_intr" "bounded clear_intr"
  unfolding set_alrm_def clear_alrm_def handle_alrm_def set_intr_def clear_intr_def
  by (intro bnds bounded_modify; simp)+

lemma bounded_acct [bnds]: "bounded do_acct"
  unfolding do_acct_def by (rule bounded_modify) (simp split: option.split prod.split)

lemma bounded_mail [bnds]: "bounded open_mailfp" "bounded (mail_put x)" "bounded (mail_char c)" "bounded (mail_line f v)" "bounded close_mailfp"
  unfolding mail_char_def mail_line_def close_mailfp_def open_mailfp_def mail_put_def
  by (intro bnds bounded_modify; simp)+

lemma bounded_msg [bnds]: "bounded msg_init" "bounded (msg_char c)"
  unfolding msg_init_def msg_char_def
  by (auto simp: keeps_def lp_within_def lp_ok_def MBSIZE_def)

lemma bounded_mail_chars [bnds]: "bounded (mail_chars cs)"
  by (induction cs; unfold mail_chars.simps; intro bnds)

lemma bounded_msg_chars [bnds]: "bounded (msg_chars cs)"
  by (induction cs; unfold msg_chars.simps; intro bnds)

lemma bounded_parse [bnds]: "bounded (set_parse p)" "bounded (init_input j)"
  unfolding set_parse_def init_input_def by (intro bounded_modify; simp)+

lemma bounded_proc_key: "bounded fl \<Longrightarrow> bounded (proc_key fl k v)"
  unfolding proc_key_def
  by (intro bnds bounded_modify; simp add: set_pagecount_def Let_def split: option.split)

lemma bounded_proc_pair: "bounded fl \<Longrightarrow> bounded (proc_pair fl t)"
  unfolding proc_pair_def by (intro bnds bounded_proc_key bounded_modify) simp_all

lemma bounded_proc_pairs: "bounded fl \<Longrightarrow> bounded (proc_pairs fl ts)"
  by (induction ts; unfold proc_pairs.simps; intro bnds bounded_proc_pair)

lemma bounded_proc_msg: "bounded fl \<Longrightarrow> bounded (proc_msg fl)"
  unfolding proc_msg_def by (intro bnds bounded_proc_pairs)

lemma bounded_parse_case [bnds]:
  "bounded a \<Longrightarrow> bounded b \<Longrightarrow> bounded c \<Longrightarrow> bounded d \<Longrightarrow> bounded e \<Longrightarrow> bounded f \<Longrightarrow>
    bounded (case p of NORMAL \<Rightarrow> a | HAD_ONE_PERCENT \<Rightarrow> b | HAD_TWO_PERCENT \<Rightarrow> c | IN_MESSAGE \<Rightarrow> d
      | HAD_RIGHT_BRACKET \<Rightarrow> e | HAD_RIGHT_BRACKET_AND_PERCENT \<Rightarrow> f)"
  by (cases p) simp_all

lemma bounded_input_char: "bounded fl \<Longrightarrow> bounded (proc_input_char fl c)"
  unfolding proc_input_char_def by (intro bnds bounded_proc_msg bounded_modify) simp_all

lemma bounded_input_chars: "bounded fl \<Longrightarrow> bounded (proc_input_chars fl cs)"
  by (induction cs; unfold proc_input_chars.simps; intro bnds bounded_input_char)

lemma bounded_wait: "bounded some \<Longrightarrow> bounded (wait_while n b some)"
  by (induction n; subst wait_while.simps; intro bnds; simp add: bnds)

lemma bounded_upto_eof: "bounded some \<Longrightarrow> bounded (proc_upto_eof_with n some i)"
  unfolding proc_upto_eof_with_def by (intro bnds bounded_wait bounded_modify) simp_all

lemma bounded_get_page: "bounded some \<Longrightarrow> bounded (get_page_with n some e)"
  unfolding get_page_with_def by (intro bnds bounded_wait bounded_upto_eof bounded_modify) simp_all

lemma bounded_ends: "bounded some \<Longrightarrow> bounded (printer_flushing_with n some)" "bounded some \<Longrightarrow> bounded (handle_intr_with n some)"
  unfolding printer_flushing_with_def handle_intr_with_def job_over_def
  by (intro bnds bounded_upto_eof bounded_get_page bounded_modify; simp)+

lemma bounded_events: "bounded it \<Longrightarrow> bounded fl \<Longrightarrow> bounded (some_input_events it fl es)"
proof (induction es)
  case Nil
  show ?case unfolding some_input_events.simps by (intro bnds bounded_modify) simp
next
  case (Cons e es)
  then show ?case
    by (cases e; simp only: some_input_events.simps) (intro bnds bounded_input_chars bounded_modify; simp)+
qed

lemma bounded_some_input: "bounded (proc_some_input n)"
proof (induction n)
  case 0
  show ?case unfolding proc_some_input.simps by (intro bnds)
next
  case (Suc n)
  show ?case unfolding proc_some_input.simps by (intro bnds bounded_ends bounded_events Suc)
qed

lemma bounded_top [bnds]: "bounded (proc_upto_eof i)" "bounded (get_page e)" "bounded printer_flushing" "bounded handle_intr"
  unfolding proc_upto_eof_def get_page_def printer_flushing_def handle_intr_def
  by (intro bnds bounded_upto_eof bounded_get_page bounded_ends bounded_some_input)+

lemma bounded_out_write [bnds]: "bounded (out_write b)"
  unfolding out_write_def by (intro bnds)

lemma bounded_out_select: "bounded (out_select b)"
proof -
  have "bounded (case es of [] \<Rightarrow> out_write b
     | Quiet # es' \<Rightarrow> bnd (modify (\<lambda>s. s\<lparr>lp_ev := es'\<rparr>)) (\<lambda>_. out_write b)
     | Data ib w # es' \<Rightarrow>
         bnd (modify (\<lambda>s. s\<lparr>lp_ev := (if length ib \<le> IBSIZE then es' else Data (drop IBSIZE ib) w # es')\<rparr>)) (\<lambda>_.
         bnd (proc_input_chars printer_flushing (take IBSIZE ib)) (\<lambda>_. if w then out_write b else ret b))
     | e # es' \<Rightarrow>
         bnd (modify (\<lambda>s. s\<lparr>lp_ev := es'\<rparr>)) (\<lambda>_.
         bnd (take_signal e) (\<lambda>_.
         bnd (gets lp_intr_flag) (\<lambda>it. if it then bnd handle_intr (\<lambda>_. ret b) else ret b))))" for es
  proof (cases es)
    case (Cons e es')
    then show ?thesis
      by (cases e; simp only: list.case ev.case) (intro bnds bounded_input_chars bounded_modify; simp)+
  qed (simp add: bnds)
  then show ?thesis unfolding out_select_def by (intro bnds)
qed

lemma bounded_out_loop: "bounded (out_loop n b)"
  by (induction n arbitrary: b; unfold out_loop.simps; intro bnds bounded_out_select)

lemma bounded_out_buf [bnds]: "bounded out_buf"
proof -
  have "bounded (modify (\<lambda>s. s\<lparr>lp_outbuf := []\<rparr>))" by (simp add: keeps_def lp_within_def lp_ok_def)
  then show ?thesis unfolding out_buf_def by (intro bnds bounded_out_loop)
qed

text \<open>A full buffer is written before the next byte goes in.\<close>

lemma out_buf_empties: "out_buf s = Ok () t \<Longrightarrow> lp_outbuf t = []"
  by (auto simp: out_buf_def bnd_eq_Ok)

lemma bounded_out_char [bnds]: "bounded (out_char c)"
proof (cases c)
  case (Some x)
  have "lp_ok (final (out_char (Some x) s))" if ok: "lp_ok s" for s
  proof (cases "length (lp_outbuf s) \<ge> OBSIZE")
    case True
    have k: "lp_ok (final (out_buf s))" using keepsD[OF bounded_out_buf] ok by (auto simp: lp_within_def)
    show ?thesis
    proof (cases "out_buf s")
      case (Ok u t)
      then have "lp_outbuf t = []" "lp_ok t" using out_buf_empties k by auto
      then show ?thesis using True Ok by (simp add: out_char_def lp_ok_def OBSIZE_def)
    next
      case (Halt e t)
      then show ?thesis using True k by (simp add: out_char_def)
    qed
  next
    case False
    then show ?thesis using ok by (simp add: out_char_def lp_ok_def)
  qed
  then show ?thesis using Some by (simp add: keeps_def lp_within_def)
qed (simp add: out_char_def bnds)

lemma bounded_out_chars [bnds]: "bounded (out_chars cs)"
  by (induction cs; unfold out_chars.simps; intro bnds)

lemma bounded_send_file [bnds]: "bounded send_file"
  unfolding send_file_def by (intro bnds)

lemma bounded_status_case [bnds]:
  "bounded a \<Longrightarrow> bounded b \<Longrightarrow> bounded c \<Longrightarrow> bounded d \<Longrightarrow> bounded e \<Longrightarrow>
    bounded (case p of INVALID \<Rightarrow> a | UNKNOWN \<Rightarrow> b | IDLE \<Rightarrow> c | BUSY \<Rightarrow> d | WAITING \<Rightarrow> e)"
  by (cases p) simp_all

lemma bounded_get_status [bnds]: "bounded get_status"
  unfolding get_status_def by (intro bnds bounded_wait bounded_some_input)

lemma bounded_options: "bounded (lp_options os)"
  by (induction os rule: lp_options.induct; unfold lp_options.simps lp_usage_def; intro bnds bounded_modify; simp)

lemma bounded_body: "bounded (lprps_body argv)"
  unfolding lprps_body_def lp_usage_def
  by (intro bnds bounded_options bounded_modify; simp split: list.split)

lemma bounded_main: "bounded (lprps_main argv)"
proof (rule keepsI)
  fix s
  let ?r = "lprps_body argv s"
  have b: "lp_within s (final ?r)" by (rule keepsD[OF bounded_body])
  have c: "lp_within t (final (close_mailfp t))" for t by (rule keepsD[OF bounded_mail(5)])
  show "lp_within s (final (lprps_main argv s))"
    using b c[of "final ?r"]
    by (auto simp: lprps_main_def at_exit_def lp_within_def split: res.splits stop.splits)
qed

end
