(* ===== verification/Lprps_Props.thy ===== *)
theory Lprps_Props
  imports Lprps_Inv Sock_Props
begin

text \<open>
  The properties of the printer filter: its buffers, how it takes the printer's output apart,
  that it copies the job, and what it makes of a message.
\<close>

subsection \<open>The grammar of the printer's output\<close>

text \<open>
  What the machine takes for text and for the inside of a message, one rule for each unit after which it is back where
  it was: a percent sign that turns out not to begin \<open>%%[\<close> is text together with what follows it, and a bracket
  that turns out not to begin \<open>]%%\<close> belongs to the message together with what follows it.
\<close>

inductive mail_text :: "string \<Rightarrow> bool" where
  mt_nil: "mail_text []"
| mt_char: "c \<noteq> CHR ''%'' \<Longrightarrow> mail_text t \<Longrightarrow> mail_text (c # t)"
| mt_one: "c \<noteq> CHR ''%'' \<Longrightarrow> mail_text t \<Longrightarrow> mail_text (CHR ''%'' # c # t)"
| mt_two: "c \<noteq> CHR ''['' \<Longrightarrow> mail_text t \<Longrightarrow> mail_text (CHR ''%'' # CHR ''%'' # c # t)"

inductive msg_text :: "string \<Rightarrow> bool" where
  ms_nil: "msg_text []"
| ms_char: "c \<noteq> CHR '']'' \<Longrightarrow> msg_text m \<Longrightarrow> msg_text (c # m)"
| ms_one: "c \<noteq> CHR ''%'' \<Longrightarrow> msg_text m \<Longrightarrow> msg_text (CHR '']'' # c # m)"
| ms_two: "c \<noteq> CHR ''%'' \<Longrightarrow> msg_text m \<Longrightarrow> msg_text (CHR '']'' # CHR ''%'' # c # m)"

inductive_simps mail_text_units: "mail_text []" "mail_text (c # t)"

text \<open>Every input is text up to a start of a message, or up to the beginning of one at its end.\<close>

lemma mail_split:
  "\<exists>t p. inp = t @ p \<and> mail_text t \<and> (p \<in> {[], ''%'', ''%%''} \<or> (\<exists>r. p = ''%%['' @ r))"
proof (induction inp rule: length_induct)
  case (1 inp)
  then have IH: "\<exists>t p. r = t @ p \<and> mail_text t \<and> (p \<in> {[], ''%'', ''%%''} \<or> (\<exists>r. p = ''%%['' @ r))"
    if "length r < length inp" for r using that by blast
  have ext: ?case if r: "length r < length inp" and e: "inp = u @ r" and m: "\<And>t. mail_text t \<Longrightarrow> mail_text (u @ t)" for u r
  proof -
    obtain t p where "r = t @ p" "mail_text t" "p \<in> {[], ''%'', ''%%''} \<or> (\<exists>r. p = ''%%['' @ r)" using IH[OF r] by blast
    then show ?thesis using e m by (intro exI[of _ "u @ t"] exI[of _ p]) simp
  qed
  consider "inp \<in> {[], ''%'', ''%%''}" | r where "inp = ''%%['' @ r" | c r where "inp = c # r" "c \<noteq> CHR ''%''"
    | c r where "inp = CHR ''%'' # c # r" "c \<noteq> CHR ''%''" | c r where "inp = CHR ''%'' # CHR ''%'' # c # r" "c \<noteq> CHR ''[''"
    by (cases inp; cases "tl inp"; cases "tl (tl inp)"; simp; metis)
  then show ?case
  proof cases
    case 1
    then show ?thesis by (intro exI[of _ "[]"] exI[of _ inp]) (simp add: mt_nil)
  next
    case 2
    then show ?thesis by (intro exI[of _ "[]"] exI[of _ inp]) (auto simp: mt_nil)
  next
    case (3 c r)
    then show ?thesis by (intro ext[of r "[c]"]) (auto intro: mt_char)
  next
    case (4 c r)
    then show ?thesis by (intro ext[of r "[CHR ''%'', c]"]) (auto intro: mt_one)
  next
    case (5 c r)
    then show ?thesis by (intro ext[of r "[CHR ''%'', CHR ''%'', c]"]) (auto intro: mt_two)
  qed
qed

lemma msg_split:
  "\<exists>m p. inp = m @ p \<and> msg_text m \<and> (p \<in> {[], '']'', '']%''} \<or> (\<exists>r. p = '']%%'' @ r))"
proof (induction inp rule: length_induct)
  case (1 inp)
  then have IH: "\<exists>m p. r = m @ p \<and> msg_text m \<and> (p \<in> {[], '']'', '']%''} \<or> (\<exists>r. p = '']%%'' @ r))"
    if "length r < length inp" for r using that by blast
  have ext: ?case if r: "length r < length inp" and e: "inp = u @ r" and m: "\<And>t. msg_text t \<Longrightarrow> msg_text (u @ t)" for u r
  proof -
    obtain t p where "r = t @ p" "msg_text t" "p \<in> {[], '']'', '']%''} \<or> (\<exists>r. p = '']%%'' @ r)" using IH[OF r] by blast
    then show ?thesis using e m by (intro exI[of _ "u @ t"] exI[of _ p]) simp
  qed
  consider "inp \<in> {[], '']'', '']%''}" | r where "inp = '']%%'' @ r" | c r where "inp = c # r" "c \<noteq> CHR '']''"
    | c r where "inp = CHR '']'' # c # r" "c \<noteq> CHR ''%''" | c r where "inp = CHR '']'' # CHR ''%'' # c # r" "c \<noteq> CHR ''%''"
    by (cases inp; cases "tl inp"; cases "tl (tl inp)"; simp; metis)
  then show ?case
  proof cases
    case 1
    then show ?thesis by (intro exI[of _ "[]"] exI[of _ inp]) (simp add: ms_nil)
  next
    case 2
    then show ?thesis by (intro exI[of _ "[]"] exI[of _ inp]) (auto simp: ms_nil)
  next
    case (3 c r)
    then show ?thesis by (intro ext[of r "[c]"]) (auto intro: ms_char)
  next
    case (4 c r)
    then show ?thesis by (intro ext[of r "[CHR '']'', c]"]) (auto intro: ms_one)
  next
    case (5 c r)
    then show ?thesis by (intro ext[of r "[CHR '']'', CHR ''%'', c]"]) (auto intro: ms_two)
  qed
qed

subsection \<open>The input machine\<close>

definition pstate :: "lprps \<Rightarrow> parse_state \<times> bool" where
  "pstate s = (lp_parse s, lp_ignore_input s)"

lemma input_text_char:
  "pstate s = (NORMAL, False) \<Longrightarrow> c \<noteq> CHR ''%'' \<Longrightarrow> c \<noteq> eofc \<Longrightarrow> proc_input_char fl c s = mail_char c s"
  by (simp add: proc_input_char_def pstate_def)

text \<open>The printer's output is not ignored, the machine is in the state \<open>p\<close>, and the mail can be written.\<close>

definition machine_at :: "parse_state \<Rightarrow> lprps \<Rightarrow> bool" where
  "machine_at p s \<longleftrightarrow> lp_parse s = p \<and> \<not> lp_ignore_input s \<and> \<not> w_denied s (lp_tmpnam s)"

text \<open>The mail file after one more character.\<close>

definition mailed :: "char \<Rightarrow> lprps \<Rightarrow> lprps" where
  "mailed c s = (if lp_in_job s \<and> (lp_done_intro s \<or> c \<noteq> NL) then
     s\<lparr>lp_mailfp := Some ((case lp_mailfp s of None \<Rightarrow> [] | Some m \<Rightarrow> m) @ (if lp_done_intro s then [] else mail_intro) @ [c]),
       lp_done_intro := True\<rparr> else s)"

lemma open_mailfp_ok:
  "\<not> w_denied s (lp_tmpnam s) \<Longrightarrow> open_mailfp s = Ok () (s\<lparr>lp_mailfp := Some (case lp_mailfp s of None \<Rightarrow> [] | Some m \<Rightarrow> m)\<rparr>)"
  by (cases "lp_mailfp s") (simp_all add: open_mailfp_def)

lemma mail_char_ok: "\<not> w_denied s (lp_tmpnam s) \<Longrightarrow> mail_char c s = Ok () (mailed c s)"
  by (cases "lp_done_intro s") (simp_all add: mail_char_def open_mailfp_ok mail_put_def mailed_def)

lemma mailed_at:
  "machine_at p s \<Longrightarrow> machine_at p (mailed c s)" "mailed c (s\<lparr>lp_parse := q\<rparr>) = (mailed c s)\<lparr>lp_parse := q\<rparr>"
  by (auto simp: mailed_def machine_at_def)

lemma mail_chars_ok:
  "machine_at p s \<Longrightarrow> mail_chars cs s = Ok () (fold mailed cs s) \<and> machine_at p (fold mailed cs s)"
proof (induction cs arbitrary: s)
  case (Cons c cs)
  then show ?case using Cons.IH[OF mailed_at(1)[OF Cons.prems]] mail_char_ok[of s c] by (simp add: machine_at_def)
qed simp

lemma mailed_parse: "fold mailed cs (s\<lparr>lp_parse := q\<rparr>) = (fold mailed cs s)\<lparr>lp_parse := q\<rparr>"
  by (induction cs arbitrary: s) (simp_all add: mailed_at)

text \<open>A unit of text.\<close>

lemma unit_mail:
  assumes "machine_at NORMAL s" and "eofc \<noteq> c"
    and "u = [] \<and> c \<noteq> CHR ''%'' \<or> u = ''%'' \<and> c \<noteq> CHR ''%'' \<or> u = ''%%'' \<and> c \<noteq> CHR ''[''"
  shows "proc_input_chars fl (u @ c # r) s = proc_input_chars fl r (fold mailed (u @ [c]) s)"
proof -
  have m: "mail_chars cs (s\<lparr>lp_parse := q\<rparr>) = Ok () ((fold mailed cs s)\<lparr>lp_parse := q\<rparr>)" for cs q
  proof -
    have "machine_at q (s\<lparr>lp_parse := q\<rparr>)" using assms(1) by (simp add: machine_at_def)
    from mail_chars_ok[OF this, of cs] show ?thesis by (simp add: mailed_parse)
  qed
  have n: "(fold mailed cs s)\<lparr>lp_parse := NORMAL\<rparr> = fold mailed cs s" for cs
    using mail_chars_ok[OF assms(1), of cs] by (simp add: machine_at_def)
  have e: "CHR ''%'' \<noteq> eofc" "c \<noteq> eofc" using assms(2) by (simp_all add: eofc_def)
  from assms(3) show ?thesis
  proof (elim disjE conjE)
    assume u: "u = []" "c \<noteq> CHR ''%''"
    have "mail_char c s = Ok () (mailed c s)" using assms(1) by (simp add: mail_char_ok machine_at_def)
    then show ?thesis using u assms(1) e by (simp add: proc_input_char_def machine_at_def)
  next
    assume u: "u = ''%''" "c \<noteq> CHR ''%''"
    show ?thesis using u assms(1) n[of "u @ [c]"] m[of "u @ [c]" HAD_ONE_PERCENT] e
      by (simp add: proc_input_char_def machine_at_def set_parse_def bnd_Ok[of "mail_chars _"] del: mail_chars.simps)
  next
    assume u: "u = ''%%''" "c \<noteq> CHR ''[''"
    show ?thesis using u assms(1) n[of "u @ [c]"] m[of "u @ [c]" HAD_TWO_PERCENT] e
      by (simp add: proc_input_char_def machine_at_def set_parse_def bnd_Ok[of "mail_chars _"] del: mail_chars.simps)
  qed
qed

lemma input_text:
  assumes "mail_text t" and "machine_at NORMAL s" and "eofc \<notin> set t"
  shows "proc_input_chars fl (t @ r) s = proc_input_chars fl r (fold mailed t s)"
  using assms
proof (induction arbitrary: s rule: mail_text.induct)
  case mt_nil
  then show ?case by simp
next
  case (mt_char c t)
  then show ?case using unit_mail[of s c "[]" fl "t @ r"] mailed_at(1)[of NORMAL s] by simp
next
  case (mt_one c t)
  then show ?case using unit_mail[of s c "''%''" fl "t @ r"] mailed_at(1) by simp
next
  case (mt_two c t)
  then show ?case using unit_mail[of s c "''%%''" fl "t @ r"] mailed_at(1) by simp
qed

text \<open>What the message buffer keeps of a message.\<close>

definition kept :: "string \<Rightarrow> string" where
  "kept m = take (MBSIZE - 1) (filter (\<lambda>c. c \<noteq> NUL) m)"

lemma kept_append: "kept (a @ b) = take (MBSIZE - 1) (kept a @ filter (\<lambda>c. c \<noteq> NUL) b)"
  by (simp add: kept_def take_append min_def)

lemma kept_same: "lp_msgbuf s = kept a \<Longrightarrow> s\<lparr>lp_msgbuf := kept a\<rparr> = s"
  by (erule subst) simp

lemma kept_char:
  "kept (a @ [c]) = (if c \<noteq> NUL \<and> length (kept a) < MBSIZE - 1 then kept a @ [c] else kept a)"
proof -
  have "length (kept a) \<le> MBSIZE - 1" by (simp add: kept_def)
  then show ?thesis unfolding kept_append[of a "[c]"] by (auto simp: MBSIZE_def)
qed

lemma msg_char_run:
  assumes "lp_msgbuf s = kept a"
  shows "msg_char c s = Ok () (s\<lparr>lp_msgbuf := kept (a @ [c])\<rparr>)"
  using assms kept_same[OF assms] by (simp add: msg_char_def kept_char)

lemma msg_chars_run: "lp_msgbuf s = kept a \<Longrightarrow> msg_chars cs s = Ok () (s\<lparr>lp_msgbuf := kept (a @ cs)\<rparr>)"
proof (induction cs arbitrary: s a)
  case Nil
  then show ?case by (simp add: kept_same)
next
  case (Cons c cs)
  show ?case using msg_char_run[OF Cons.prems, of c] Cons.IH[of "s\<lparr>lp_msgbuf := kept (a @ [c])\<rparr>" "a @ [c]"] by simp
qed

text \<open>A unit of a message.\<close>

lemma unit_msg:
  assumes "machine_at IN_MESSAGE s" and "eofc \<noteq> c" and "lp_msgbuf s = kept a"
    and "u = [] \<and> c \<noteq> CHR '']'' \<or> u = '']'' \<and> c \<noteq> CHR ''%'' \<or> u = '']%'' \<and> c \<noteq> CHR ''%''"
  shows "proc_input_chars fl (u @ c # r) s = proc_input_chars fl r (s\<lparr>lp_msgbuf := kept (a @ u @ [c])\<rparr>)"
proof -
  have m: "msg_chars (u @ [c]) (s\<lparr>lp_parse := q\<rparr>) = Ok () (s\<lparr>lp_parse := q, lp_msgbuf := kept (a @ u @ [c])\<rparr>)" for q
    using msg_chars_run[of "s\<lparr>lp_parse := q\<rparr>" a "u @ [c]"] assms(3) by simp
  have n: "s\<lparr>lp_msgbuf := k, lp_parse := IN_MESSAGE\<rparr> = s\<lparr>lp_msgbuf := k\<rparr>" for k using assms(1) by (simp add: machine_at_def)
  have e: "CHR '']'' \<noteq> eofc" "CHR ''%'' \<noteq> eofc" "c \<noteq> eofc" using assms(2) by (simp_all add: eofc_def)
  from assms(4) show ?thesis
  proof (elim disjE conjE)
    assume u: "u = []" "c \<noteq> CHR '']''"
    have "msg_char c s = Ok () (s\<lparr>lp_msgbuf := kept (a @ [c])\<rparr>)" using assms(3) by (rule msg_char_run)
    then show ?thesis using u assms(1) e by (simp add: proc_input_char_def machine_at_def)
  next
    assume u: "u = '']''" "c \<noteq> CHR ''%''"
    have "proc_input_char fl c (s\<lparr>lp_parse := HAD_RIGHT_BRACKET\<rparr>) = bnd (msg_chars (u @ [c])) (\<lambda>_. set_parse IN_MESSAGE) (s\<lparr>lp_parse := HAD_RIGHT_BRACKET\<rparr>)"
      using u assms(1) e(3) by (simp add: proc_input_char_def machine_at_def del: msg_chars.simps)
    then have "proc_input_char fl c (s\<lparr>lp_parse := HAD_RIGHT_BRACKET\<rparr>) = Ok () (s\<lparr>lp_msgbuf := kept (a @ u @ [c])\<rparr>)"
      using m[of HAD_RIGHT_BRACKET] n by (simp add: set_parse_def del: msg_chars.simps)
    moreover have "proc_input_chars fl (u @ c # r) s = proc_input_chars fl (c # r) (s\<lparr>lp_parse := HAD_RIGHT_BRACKET\<rparr>)"
      using u(1) assms(1) e by (simp add: proc_input_char_def machine_at_def set_parse_def)
    ultimately show ?thesis by simp
  next
    assume u: "u = '']%''" "c \<noteq> CHR ''%''"
    have "proc_input_char fl c (s\<lparr>lp_parse := HAD_RIGHT_BRACKET_AND_PERCENT\<rparr>) = bnd (msg_chars (u @ [c])) (\<lambda>_. set_parse IN_MESSAGE) (s\<lparr>lp_parse := HAD_RIGHT_BRACKET_AND_PERCENT\<rparr>)"
      using u assms(1) e(3) by (simp add: proc_input_char_def machine_at_def del: msg_chars.simps)
    then have "proc_input_char fl c (s\<lparr>lp_parse := HAD_RIGHT_BRACKET_AND_PERCENT\<rparr>) = Ok () (s\<lparr>lp_msgbuf := kept (a @ u @ [c])\<rparr>)"
      using m[of HAD_RIGHT_BRACKET_AND_PERCENT] n by (simp add: set_parse_def del: msg_chars.simps)
    moreover have "proc_input_chars fl (u @ c # r) s = proc_input_chars fl (c # r) (s\<lparr>lp_parse := HAD_RIGHT_BRACKET_AND_PERCENT\<rparr>)"
      using u(1) assms(1) e by (simp add: proc_input_char_def machine_at_def set_parse_def)
    ultimately show ?thesis by simp
  qed
qed

lemma input_message:
  assumes "msg_text m" and "machine_at IN_MESSAGE s" and "eofc \<notin> set m" and "lp_msgbuf s = kept a"
  shows "proc_input_chars fl (m @ r) s = proc_input_chars fl r (s\<lparr>lp_msgbuf := kept (a @ m)\<rparr>)"
  using assms
proof (induction arbitrary: s a rule: msg_text.induct)
  case ms_nil
  then show ?case by (simp add: kept_same)
next
  case (ms_char c m)
  then show ?case using unit_msg[of s c a "[]" fl "m @ r"] ms_char.IH[of "s\<lparr>lp_msgbuf := kept (a @ [c])\<rparr>" "a @ [c]"]
    by (simp add: machine_at_def)
next
  case (ms_one c m)
  then show ?case using unit_msg[of s c a "'']''" fl "m @ r"] ms_one.IH[of "s\<lparr>lp_msgbuf := kept (a @ '']'' @ [c])\<rparr>" "a @ '']'' @ [c]"]
    by (simp add: machine_at_def)
next
  case (ms_two c m)
  then show ?case using unit_msg[of s c a "'']%''" fl "m @ r"] ms_two.IH[of "s\<lparr>lp_msgbuf := kept (a @ '']%'' @ [c])\<rparr>" "a @ '']%'' @ [c]"]
    by (simp add: machine_at_def)
qed

text \<open>The beginning and the end of a message, and the state in which the machine is left in the middle of either.\<close>

fun half_out :: "string \<Rightarrow> parse_state" where
  "half_out [] = NORMAL"
| "half_out [c] = HAD_ONE_PERCENT"
| "half_out (c # d # cs) = HAD_TWO_PERCENT"

fun half_in :: "string \<Rightarrow> parse_state" where
  "half_in [] = IN_MESSAGE"
| "half_in [c] = HAD_RIGHT_BRACKET"
| "half_in (c # d # cs) = HAD_RIGHT_BRACKET_AND_PERCENT"

lemma input_half_out:
  "machine_at NORMAL s \<Longrightarrow> p \<in> {[], ''%'', ''%%''} \<Longrightarrow> proc_input_chars fl p s = Ok () (s\<lparr>lp_parse := half_out p\<rparr>)"
  by (auto simp: proc_input_char_def machine_at_def set_parse_def eofc_def)

lemma input_half_in:
  "machine_at IN_MESSAGE s \<Longrightarrow> p \<in> {[], '']'', '']%''} \<Longrightarrow> proc_input_chars fl p s = Ok () (s\<lparr>lp_parse := half_in p\<rparr>)"
  by (auto simp: proc_input_char_def machine_at_def set_parse_def eofc_def)

lemma input_start:
  assumes "machine_at NORMAL s"
  shows "proc_input_chars fl (''%%['' @ r) s = proc_input_chars fl r (s\<lparr>lp_msgbuf := kept [], lp_parse := IN_MESSAGE\<rparr>)"
  using assms by (simp add: proc_input_char_def machine_at_def set_parse_def msg_init_def eofc_def kept_def)

lemma input_end:
  assumes "machine_at IN_MESSAGE s"
  shows "proc_input_chars fl ('']%%'' @ r) s = bnd (proc_msg fl) (\<lambda>_. proc_input_chars fl r) (s\<lparr>lp_parse := NORMAL\<rparr>)"
  using assms by (simp add: proc_input_char_def machine_at_def set_parse_def eofc_def bnd_apply)

text \<open>
  A message whose text ends with a bracket does not end where it ends: the machine takes that bracket for the beginning of
  the end, the next one for a character of the message, and waits for another \<open>]%%\<close>.
\<close>

lemma msg_text_append: "msg_text a \<Longrightarrow> msg_text b \<Longrightarrow> msg_text (a @ b)"
  by (induction rule: msg_text.induct) (auto intro: msg_text.intros)

lemma bracket_hides_end:
  assumes "machine_at NORMAL s" and "msg_text m" and "eofc \<notin> set m"
  shows "proc_input_chars fl (''%%['' @ m @ '']]%%'') s =
    Ok () (s\<lparr>lp_msgbuf := kept (m @ '']]%%''), lp_parse := IN_MESSAGE\<rparr>)"
proof -
  define v where "v = s\<lparr>lp_msgbuf := kept [], lp_parse := IN_MESSAGE\<rparr>"
  have v: "machine_at IN_MESSAGE v" "lp_msgbuf v = kept []" using assms(1) by (simp_all add: machine_at_def v_def)
  have "msg_text ('']]%%'')" by (auto intro!: msg_text.intros)
  then have m: "msg_text (m @ '']]%%'')" "eofc \<notin> set (m @ '']]%%'')"
    using msg_text_append[OF assms(2)] assms(3) by (simp_all add: eofc_def)
  have "proc_input_chars fl (m @ '']]%%'') v = Ok () (v\<lparr>lp_msgbuf := kept (m @ '']]%%'')\<rparr>)"
    using input_message[OF m(1) v(1) m(2) v(2), of fl "[]"] by simp
  then show ?thesis unfolding input_start[OF assms(1)] v_def by simp
qed

subsection \<open>Copying the job\<close>

text \<open>
  A printer that behaves: it sends text, in pieces, but no message; the line takes output in
  pieces; no signal arrives.
\<close>

definition harmless :: "ev \<Rightarrow> bool" where
  "harmless e = (case e of Data bs _ \<Rightarrow> CHR ''%'' \<notin> set bs | Quiet \<Rightarrow> True | _ \<Rightarrow> False)"

definition lfine :: "lprps \<Rightarrow> bool" where
  "lfine s \<longleftrightarrow> w_fds s (lp_psfd s) \<noteq> None \<and> 0 \<notin> set (s_wr s (lp_psfd s)) \<and> list_all harmless (lp_ev s) \<and>
     lp_parse s = NORMAL \<and> \<not> lp_intr_flag s \<and> \<not> w_denied s (lp_tmpnam s)"

text \<open>What taking a piece of text from the printer leaves alone.\<close>

definition lcore :: "lprps \<Rightarrow> _" where
  "lcore s = (w_fds s, s_wr s, s_out s, lp_psfd s, lp_ev s, lp_outbuf s, lp_parse s, lp_intr_flag s, w_denied s, lp_tmpnam s,
     lp_block_flag s)"

lemma lfine_core: "lcore t = lcore s \<Longrightarrow> lfine t = lfine s"
  by (simp add: lcore_def lfine_def)

lemma mail_char_runs: "\<not> w_denied s (lp_tmpnam s) \<Longrightarrow> runs (mail_char c) s (\<lambda>_ t. lcore t = lcore s)"
  by (auto simp: mail_char_def open_mailfp_def mail_put_def runs_def bnd_apply lcore_def)

lemma input_chars_runs:
  "CHR ''%'' \<notin> set bs \<Longrightarrow> lp_parse s = NORMAL \<Longrightarrow> \<not> w_denied s (lp_tmpnam s) \<Longrightarrow>
    runs (proc_input_chars fl bs) s (\<lambda>_ t. lcore t = lcore s)"
proof (induction bs arbitrary: s)
  case (Cons c bs)
  have "runs (proc_input_char fl c) s (\<lambda>_ t. lcore t = lcore s)"
  proof (cases "c = eofc \<or> lp_ignore_input s")
    case True
    then show ?thesis by (auto simp: proc_input_char_def runs_def lcore_def)
  next
    case False
    then have "proc_input_char fl c s = mail_char c s"
      using Cons.prems by (intro input_text_char) (auto simp: pstate_def)
    then show ?thesis using mail_char_runs[OF Cons.prems(3)] by (simp add: runs_def)
  qed
  then show ?case
    unfolding proc_input_chars.simps
  proof (rule runs_step)
    fix x t
    assume t: "lcore t = lcore s"
    then have "runs (proc_input_chars fl bs) t (\<lambda>_ u. lcore u = lcore t)"
      using Cons.prems by (intro Cons.IH) (auto simp: lcore_def)
    then show "runs (proc_input_chars fl bs) t (\<lambda>_ t. lcore t = lcore s)" by (rule runs_conseq) (simp add: t)
  qed
qed (simp add: wp)

text \<open>
  Progress of the writing loop from \<open>s\<close>, with \<open>bs\<close> to write, to \<open>t\<close>, with \<open>rest\<close>.
\<close>

definition wrote_some :: "lprps \<Rightarrow> string \<Rightarrow> string \<Rightarrow> lprps \<Rightarrow> bool" where
  "wrote_some s bs rest t \<longleftrightarrow> lfine t \<and> lp_psfd t = lp_psfd s \<and> lp_outbuf t = lp_outbuf s \<and>
     lp_block_flag t = lp_block_flag s \<and> sent t (lp_psfd s) @ rest = sent s (lp_psfd s) @ bs \<and>
     ev_fuel t + length rest < ev_fuel s + length bs"

definition lrest :: "lprps \<Rightarrow> _" where
  "lrest s = (lp_psfd s, lp_ev s, lp_outbuf s, lp_parse s, lp_intr_flag s, w_denied s, lp_tmpnam s, lp_block_flag s)"

lemma lrest_write: "keeps (same lrest) (sock_write fd bs)"
  by (auto simp: keeps_def same_def sock_write_def fail_def sock_put_def Let_def lrest_def split: list.splits)

lemma out_write_runs:
  assumes "lfine s" and "bs \<noteq> []"
  shows "runs (out_write bs) s (\<lambda>rest t. wrote_some s bs rest t \<and> lp_ev t = lp_ev s)"
proof -
  define fd where "fd = lp_psfd s"
  have fd: "w_fds s fd \<noteq> None" "0 \<notin> set (s_wr s fd)" using assms(1) by (simp_all add: lfine_def fd_def)
  have "runs (bnd (sock_write fd bs) (\<lambda>n. if n < 0 then log_sys m else ret (drop (nat n) bs))) s
      (\<lambda>rest t. wrote_some s bs rest t \<and> lp_ev t = lp_ev s)" for m
  proof (rule runs_step[OF runs_keeps[OF sock_write_runs[OF fd(1) assms(2)] lrest_write]], elim conjE)
    fix r t
    assume t: "w_fds t = w_fds s" "s_wr t = (s_wr s)(fd := tl (s_wr s fd))" "(0 < r) = (s_wr s fd = [] \<or> hd (s_wr s fd) \<noteq> 0)"
      "sent t fd = sent s fd @ take (nat r) bs" "lrest t = lrest s"
    have "0 < r" using t(3) fd(2) by (cases "s_wr s fd") auto
    moreover have "0 \<notin> set (tl (s_wr s fd))" using fd(2) by (cases "s_wr s fd") auto
    moreover have "length (drop (nat r) bs) < length bs" using \<open>0 < r\<close> assms(2) by (cases bs) auto
    ultimately show "runs (if r < 0 then log_sys m else ret (drop (nat r) bs)) t (\<lambda>rest t. wrote_some s bs rest t \<and> lp_ev t = lp_ev s)"
      using assms(1) t by (simp add: wp wrote_some_def lfine_def fd_def lrest_def ev_fuel_def)
  qed
  then show ?thesis unfolding out_write_def by (simp add: wp fd_def)
qed

lemma wrote_some_from:
  assumes "wrote_some u bs rest t" and "lp_psfd u = lp_psfd s" and "lp_outbuf u = lp_outbuf s" and "s_out u = s_out s"
    and "lp_block_flag u = lp_block_flag s" and "ev_fuel u < ev_fuel s"
  shows "wrote_some s bs rest t"
  using assms by (simp add: wrote_some_def)

lemma out_select_runs:
  assumes fine: "lfine s" and bs: "bs \<noteq> []"
  shows "runs (out_select bs) s (wrote_some s bs)"
proof (cases "lp_ev s")
  case Nil
  then show ?thesis
    using out_write_runs[OF fine bs] by (simp add: out_select_def wp) (erule runs_conseq, simp)
next
  case (Cons e es)
  have h: "harmless e" "list_all harmless es" using fine Cons by (simp_all add: lfine_def)
  show ?thesis
  proof (cases e)
    case Quiet
    have "lfine (s\<lparr>lp_ev := es\<rparr>)" using fine Cons by (simp add: lfine_def)
    from out_write_runs[OF this bs] have "runs (out_write bs) (s\<lparr>lp_ev := es\<rparr>) (wrote_some s bs)"
      by (rule runs_conseq) (auto intro: wrote_some_from simp: ev_fuel_def Cons ev_size_def Quiet)
    then show ?thesis using Cons Quiet by (simp add: out_select_def wp)
  next
    case (Data ib w)
    define u where "u = s\<lparr>lp_ev := (if length ib \<le> IBSIZE then es else Data (drop IBSIZE ib) w # es)\<rparr>"
    have pc: "CHR ''%'' \<notin> set ib" using h(1) Data by (simp add: harmless_def)
    have u: "lfine u" using fine h pc by (auto simp: lfine_def u_def harmless_def dest: in_set_dropD)
    have less: "ev_fuel u < ev_fuel s"
      using Cons Data by (auto simp: ev_fuel_def u_def ev_size_def IBSIZE_def)
    have "runs (bnd (proc_input_chars printer_flushing (take IBSIZE ib)) (\<lambda>_. if w then out_write bs else ret bs)) u (wrote_some s bs)"
    proof (rule runs_step[OF input_chars_runs])
      show "CHR ''%'' \<notin> set (take IBSIZE ib)" using pc by (auto dest: in_set_takeD)
      show "lp_parse u = NORMAL" "\<not> w_denied u (lp_tmpnam u)" using u by (auto simp: lfine_def)
      fix x t
      assume t: "lcore t = lcore u"
      have ft: "lfine t" using lfine_core[OF t] u by simp
      have e: "ev_fuel t = ev_fuel u" using t by (simp add: lcore_def ev_fuel_def)
      have "runs (out_write bs) t (wrote_some s bs)"
        by (rule runs_conseq[OF out_write_runs[OF ft bs]])
          (use t e less in \<open>auto intro!: wrote_some_from[of t bs] simp: lcore_def u_def\<close>)
      moreover have "wrote_some s bs bs t"
        using ft t e less by (simp add: wrote_some_def lcore_def u_def)
      ultimately show "runs (if w then out_write bs else ret bs) t (wrote_some s bs)" by (simp add: wp)
    qed
    then show ?thesis using Cons Data by (simp add: out_select_def wp u_def)
  qed (use h in \<open>simp_all add: harmless_def\<close>)
qed

lemma out_loop_runs:
  assumes "lfine s" and "ev_fuel s + length bs \<le> n"
  shows "runs (out_loop n bs) s (\<lambda>_ t. lfine t \<and> lp_psfd t = lp_psfd s \<and> lp_outbuf t = lp_outbuf s \<and>
    lp_block_flag t = lp_block_flag s \<and> sent t (lp_psfd s) = sent s (lp_psfd s) @ bs)"
  using assms
proof (induction n arbitrary: s bs)
  case 0
  then show ?case by (simp add: ev_fuel_def)
next
  case (Suc n)
  show ?case
  proof (cases "bs = []")
    case True
    then show ?thesis using Suc.prems(1) by (simp add: wp)
  next
    case False
    have "runs (bnd (out_select bs) (\<lambda>rest. out_loop n rest)) s (\<lambda>_ t. lfine t \<and> lp_psfd t = lp_psfd s \<and>
        lp_outbuf t = lp_outbuf s \<and> lp_block_flag t = lp_block_flag s \<and> sent t (lp_psfd s) = sent s (lp_psfd s) @ bs)"
    proof (rule runs_step[OF out_select_runs[OF Suc.prems(1) False]])
      fix rest t
      assume t: "wrote_some s bs rest t"
      have "runs (out_loop n rest) t (\<lambda>_ u. lfine u \<and> lp_psfd u = lp_psfd t \<and> lp_outbuf u = lp_outbuf t \<and>
          lp_block_flag u = lp_block_flag t \<and> sent u (lp_psfd t) = sent t (lp_psfd t) @ rest)"
        using t Suc.prems(2) by (intro Suc.IH) (auto simp: wrote_some_def)
      then show "runs (out_loop n rest) t (\<lambda>_ t. lfine t \<and> lp_psfd t = lp_psfd s \<and> lp_outbuf t = lp_outbuf s \<and>
          lp_block_flag t = lp_block_flag s \<and> sent t (lp_psfd s) = sent s (lp_psfd s) @ bs)"
        by (rule runs_conseq) (use t in \<open>auto simp: wrote_some_def\<close>)
    qed
    moreover have "out_loop (Suc n) bs s = bnd (out_select bs) (\<lambda>rest. out_loop n rest) s"
      using False Suc.prems(1) by (simp add: lfine_def)
    ultimately show ?thesis unfolding runs_def by (simp only:)
  qed
qed

lemma lfine_outbuf [simp]: "lfine (s\<lparr>lp_outbuf := b\<rparr>) = lfine s"
  by (simp add: lfine_def)

lemma set_nonblock_runs:
  assumes "lfine s"
  shows "runs set_nonblock s (\<lambda>_ t. lfine t \<and> lp_psfd t = lp_psfd s \<and> lp_outbuf t = lp_outbuf s \<and> s_out t = s_out s)"
  using assms by (auto simp: set_nonblock_def lp_fcntl_def runs_def bnd_apply lfine_def)

lemma out_buf_runs:
  assumes "lfine s"
  shows "runs out_buf s (\<lambda>_ t. lfine t \<and> lp_psfd t = lp_psfd s \<and> lp_outbuf t = [] \<and>
    sent t (lp_psfd s) = sent s (lp_psfd s) @ lp_outbuf s)"
  unfolding out_buf_def
proof (rule runs_step[OF set_nonblock_runs[OF assms]], elim conjE)
  fix x t
  assume t: "lfine t" "lp_psfd t = lp_psfd s" "lp_outbuf t = lp_outbuf s" "s_out t = s_out s"
  have "runs (bnd (out_loop (ev_fuel t + length (lp_outbuf t)) (lp_outbuf t)) (\<lambda>_. modify (\<lambda>s. s\<lparr>lp_outbuf := []\<rparr>))) t
      (\<lambda>_ t. lfine t \<and> lp_psfd t = lp_psfd s \<and> lp_outbuf t = [] \<and> sent t (lp_psfd s) = sent s (lp_psfd s) @ lp_outbuf s)"
    by (rule runs_step[OF out_loop_runs[OF t(1) le_refl]]) (use t in \<open>simp add: wp\<close>)
  then show "runs (bnd (gets (\<lambda>s. (lp_outbuf s, ev_fuel s))) (\<lambda>(bs, n). bnd (out_loop (n + length bs) bs) (\<lambda>_.
      modify (\<lambda>s. s\<lparr>lp_outbuf := []\<rparr>)))) t
      (\<lambda>_ t. lfine t \<and> lp_psfd t = lp_psfd s \<and> lp_outbuf t = [] \<and> sent t (lp_psfd s) = sent s (lp_psfd s) @ lp_outbuf s)"
    unfolding runs_bnd[of "gets (\<lambda>s. (lp_outbuf s, ev_fuel s))"] runs_gets prod.case .
qed

text \<open>What has been sent, and what still is in the buffer.\<close>

definition through :: "lprps \<Rightarrow> string" where
  "through s = sent s (lp_psfd s) @ lp_outbuf s"

lemma out_char_runs:
  assumes "lfine s"
  shows "runs (out_char (Some c)) s (\<lambda>_ t. lfine t \<and> lp_psfd t = lp_psfd s \<and> through t = through s @ [c])"
proof (cases "length (lp_outbuf s) \<ge> OBSIZE")
  case True
  have "runs (bnd out_buf (\<lambda>_. modify (\<lambda>s. s\<lparr>lp_outbuf := lp_outbuf s @ [c]\<rparr>))) s
      (\<lambda>_ t. lfine t \<and> lp_psfd t = lp_psfd s \<and> through t = through s @ [c])"
    by (rule runs_step[OF out_buf_runs[OF assms]]) (simp add: wp through_def)
  then show ?thesis using True by (simp add: out_char_def runs_def)
next
  case False
  then show ?thesis using assms by (simp add: out_char_def runs_def through_def)
qed

lemma out_chars_runs:
  "lfine s \<Longrightarrow> runs (out_chars cs) s (\<lambda>_ t. lfine t \<and> lp_psfd t = lp_psfd s \<and> through t = through s @ cs)"
proof (induction cs arbitrary: s)
  case (Cons c cs)
  show ?case
    unfolding out_chars.simps
  proof (rule runs_step[OF out_char_runs[OF Cons.prems]], elim conjE)
    fix x t
    assume t: "lfine t" "lp_psfd t = lp_psfd s" "through t = through s @ [c]"
    show "runs (out_chars cs) t (\<lambda>_ t. lfine t \<and> lp_psfd t = lp_psfd s \<and> through t = through s @ c # cs)"
      by (rule runs_conseq[OF Cons.IH[OF t(1)]]) (use t in auto)
  qed
qed (simp add: wp)

subsection \<open>Messages\<close>

lemma proc_pair_key: "pair_key t = pair_key u \<Longrightarrow> proc_pair fl t = proc_pair fl u"
  by (simp add: proc_pair_def)

lemma proc_pairs_keys: "map pair_key ts = map pair_key us \<Longrightarrow> proc_pairs fl ts = proc_pairs fl us"
proof (induction ts arbitrary: us)
  case (Cons t ts)
  then obtain u us' where u: "us = u # us'" "pair_key t = pair_key u" "map pair_key ts = map pair_key us'" by (cases us) auto
  show ?case unfolding u(1) proc_pairs.simps proc_pair_key[OF u(2)] Cons.IH[OF u(3)] ..
qed simp

lemma proc_pairs_undefined:
  "lp_val s = None \<Longrightarrow> \<exists>t\<in>set ts. pair_key t \<noteq> None \<Longrightarrow>
    proc_pairs fl ts s = Halt (Undefined ''val is not initialised'') s"
  by (induction ts) (auto simp: proc_pair_def bnd_apply split: option.splits)

subsection \<open>A concrete job\<close>

definition lprps0 :: lprps where
  "lprps0 = \<lparr>w_files = Map.empty, w_fds = [1 \<mapsto> a_file ''/dev/lp''], w_maxfd = 20, w_limit = 1000, w_denied = (\<lambda>_. False),
     w_locks = (\<lambda>_ _. None), w_others = [], w_mem = 1000, w_errno = E_OK,
     s_in = (\<lambda>_. []), s_hup = (\<lambda>_. False), s_out = (\<lambda>_. []), s_wr = (\<lambda>_. [])(1 := [1]), s_pending = [], s_names = Map.empty,
     s_now = 100, s_pid = 42, s_cmptr = False,
     y_term = [''/dev/lp'' \<mapsto> termios0], y_queued = (\<lambda>_. 0), y_save = termios0, y_savefd = -1, y_state = RESET, y_mask = {},
     y_devdir = None, y_stat = (\<lambda>_. None), y_fstat = (\<lambda>_. None),
     lp_loginname = Some ''joe'', lp_hostname = Some ''hera'', lp_acct_file = None, lp_psfd = 1, lp_start_page = -1, lp_end_page = -1,
     lp_debug = False, lp_in_job = True, lp_intr_flag = False, lp_alrm_flag = False, lp_status = INVALID, lp_eof_count = 0,
     lp_ignore_input = False, lp_parse = NORMAL, lp_msgbuf = [], lp_outbuf = [], lp_mailfp = None, lp_done_intro = False,
     lp_sent = [], lp_block_flag = True, lp_int = SIG_CATCH, lp_alrm = SIG_IGN, lp_val = None, lp_tmpnam = ''/tmp/x'',
     lp_stdin = ''job'', lp_ev = [Data ''text'' False, Quiet, Data ''more'' True], lp_flush = []\<rparr>"

lemma lprps0_fine: "lfine lprps0"
  by (simp add: lfine_def lprps0_def harmless_def a_file_def)

subsection \<open>Properties\<close>

text \<open>
  C28. From start to exit, and at every exit, the message buffer holds a C string shorter than
  its array and the output buffer no more than its size.
\<close>

theorem lprps_buffers_bounded:
  assumes "length (lp_msgbuf s) < MBSIZE" and "is_cstr (lp_msgbuf s)" and "length (lp_outbuf s) \<le> OBSIZE"
  shows "length (lp_msgbuf (final (lprps_main argv s))) < MBSIZE \<and> is_cstr (lp_msgbuf (final (lprps_main argv s))) \<and>
    length (lp_outbuf (final (lprps_main argv s))) \<le> OBSIZE"
  using keepsD[OF bounded_main, of s argv] assms by (simp add: lp_within_def lp_ok_def)

theorem lprps_buffers_bounded_witness:
  "length (lp_outbuf (final (lprps_main [''lprps'', ''-n'', ''joe'', ''-h'', ''hera''] lprps0))) \<le> OBSIZE"
  using lprps_buffers_bounded[of lprps0 "[''lprps'', ''-n'', ''joe'', ''-h'', ''hera'']"]
  by (simp add: lprps0_def MBSIZE_def is_cstr_def)

text \<open>
  C29. The printer's output, whatever it is (without EOF characters, which are only counted): it is text up to the first
  start of a message, by the grammar above, and every character of the text is given to \<open>mail_char\<close>; what follows is a
  message up to its end, which goes to \<open>proc_msg\<close> without null bytes and cut off at the size of the message buffer, and the rest of
  the output is then treated in the same way. Where the output stops in the middle nothing of it is lost: the text has
  been given to the mail, the message so far in its buffer and the machine in the state that belongs to what it has seen of a
  \<open>%%[\<close> or \<open>]%%\<close>. The output is not being ignored and the file for the mail can be opened.
\<close>

theorem printer_output_parsed:
  assumes "lp_parse s = NORMAL" and "\<not> lp_ignore_input s" and "\<not> w_denied s (lp_tmpnam s)" and "eofc \<notin> set inp"
  shows "(\<exists>t p u. inp = t @ p \<and> mail_text t \<and> p \<in> {[], ''%'', ''%%''} \<and> mail_chars t s = Ok () u \<and>
      proc_input_chars fl inp s = Ok () (u\<lparr>lp_parse := half_out p\<rparr>)) \<or>
    (\<exists>t m p u. inp = t @ ''%%['' @ m @ p \<and> mail_text t \<and> msg_text m \<and> p \<in> {[], '']'', '']%''} \<and> mail_chars t s = Ok () u \<and>
      proc_input_chars fl inp s = Ok () (u\<lparr>lp_parse := half_in p, lp_msgbuf := take (MBSIZE - 1) (filter (\<lambda>c. c \<noteq> NUL) m)\<rparr>)) \<or>
    (\<exists>t m r u. inp = t @ ''%%['' @ m @ '']%%'' @ r \<and> mail_text t \<and> msg_text m \<and> mail_chars t s = Ok () u \<and>
      proc_input_chars fl inp s = bnd (proc_msg fl) (\<lambda>_. proc_input_chars fl r)
        (u\<lparr>lp_msgbuf := take (MBSIZE - 1) (filter (\<lambda>c. c \<noteq> NUL) m)\<rparr>))"
proof -
  have a: "machine_at NORMAL s" using assms(1-3) by (simp add: machine_at_def)
  obtain t p where t: "inp = t @ p" "mail_text t" "p \<in> {[], ''%'', ''%%''} \<or> (\<exists>r. p = ''%%['' @ r)"
    using mail_split[of inp] by blast
  define u where "u = fold mailed t s"
  have u: "mail_chars t s = Ok () u" "machine_at NORMAL u" "proc_input_chars fl inp s = proc_input_chars fl p u"
    using input_text[OF t(2) a, of fl p] mail_chars_ok[OF a, of t] assms(4) t(1) by (auto simp: u_def)
  show ?thesis
  proof (cases "p \<in> {[], ''%'', ''%%''}")
    case True
    then show ?thesis using t(1,2) u(1,3) input_half_out[OF u(2) True, of fl]
      by (intro disjI1 exI[of _ t] exI[of _ p] exI[of _ u]) simp
  next
    case False
    then obtain r where r: "p = ''%%['' @ r" using t(3) by blast
    obtain m q where m: "r = m @ q" "msg_text m" "q \<in> {[], '']'', '']%''} \<or> (\<exists>r. q = '']%%'' @ r)"
      using msg_split[of r] by blast
    define v where "v = u\<lparr>lp_msgbuf := kept [], lp_parse := IN_MESSAGE\<rparr>"
    define w where "w = v\<lparr>lp_msgbuf := kept ([] @ m)\<rparr>"
    have v: "machine_at IN_MESSAGE v" "machine_at IN_MESSAGE w" using u(2) by (simp_all add: machine_at_def v_def w_def)
    have e: "proc_input_chars fl inp s = proc_input_chars fl q w"
      using u(3) input_start[OF u(2), of fl r] input_message[OF m(2) v(1), of "[]" fl q] assms(4) t(1) r m(1)
      by (simp add: v_def w_def)
    have n: "w\<lparr>lp_parse := NORMAL\<rparr> = u\<lparr>lp_msgbuf := kept m\<rparr>" using u(2) by (simp add: w_def v_def machine_at_def)
    show ?thesis
    proof (cases "q \<in> {[], '']'', '']%''}")
      case True
      have "proc_input_chars fl inp s = Ok () (u\<lparr>lp_parse := half_in q, lp_msgbuf := kept m\<rparr>)"
        using e input_half_in[OF v(2) True, of fl] by (simp add: w_def v_def)
      then show ?thesis using t(1,2) u(1) r m(1,2) True unfolding kept_def
        by (intro disjI2 disjI1 exI[of _ t] exI[of _ m] exI[of _ q] exI[of _ u]) simp
    next
      case False
      then obtain r' where r': "q = '']%%'' @ r'" using m(3) by blast
      have "proc_input_chars fl inp s = bnd (proc_msg fl) (\<lambda>_. proc_input_chars fl r') (u\<lparr>lp_msgbuf := kept m\<rparr>)"
        using e input_end[OF v(2), of fl r'] r' n by simp
      then show ?thesis using t(1,2) u(1) r m(1,2) r' unfolding kept_def
        by (intro disjI2 exI[of _ t] exI[of _ m] exI[of _ r'] exI[of _ u]) simp
    qed
  qed
qed

text \<open>A message with a bracket inside, of which nothing is lost.\<close>

theorem printer_output_parsed_witness:
  "\<exists>u. mail_chars ''ok'' lprps0 = Ok () u \<and> proc_input_chars printer_flushing ''ok%%[a]b'' lprps0 =
    Ok () (u\<lparr>lp_parse := IN_MESSAGE, lp_msgbuf := ''a]b''\<rparr>)"
proof -
  let ?P = "\<lambda>t m p u. mail_chars t lprps0 = Ok () u \<and> proc_input_chars printer_flushing ''ok%%[a]b'' lprps0 =
    Ok () (u\<lparr>lp_parse := half_in p, lp_msgbuf := take (MBSIZE - 1) (filter (\<lambda>c. c \<noteq> NUL) m)\<rparr>)"
  have cut: "u = take (length x - length v) x" if "x = u @ v" for x u v :: string using that by simp
  have one: False if "''ok%%[a]b'' = t @ p" "mail_text t" "p \<in> {[], ''%'', ''%%''}" for t p
    using that cut[OF that(1)] by (auto simp: mail_text_units)
  have two: "t = ''ok'' \<and> m @ p = ''a]b''" if "''ok%%[a]b'' = t @ ''%%['' @ m @ p" "mail_text t" for t m p
    using that by (auto simp: mail_text_units Cons_eq_append_conv)
  have three: "m = ''a]b'' \<and> p = []" if "m @ p = ''a]b''" "p \<in> {[], '']'', '']%''}" "msg_text m" for m p
    using that by (auto simp: append_eq_Cons_conv)
  have four: "m @ '']%%'' @ p \<noteq> ''a]b''" for m p by (auto simp: append_eq_Cons_conv)
  have hyps: "lp_parse lprps0 = NORMAL" "\<not> lp_ignore_input lprps0" "\<not> w_denied lprps0 (lp_tmpnam lprps0)" "eofc \<notin> set ''ok%%[a]b''"
    by (simp_all add: lprps0_def eofc_def)
  from printer_output_parsed[OF hyps, of printer_flushing] consider t p where "''ok%%[a]b'' = t @ p" "mail_text t" "p \<in> {[], ''%'', ''%%''}"
    | t m p u where "''ok%%[a]b'' = t @ ''%%['' @ m @ p" "mail_text t" "msg_text m" "p \<in> {[], '']'', '']%''}" "?P t m p u"
    | t m r where "''ok%%[a]b'' = t @ ''%%['' @ m @ '']%%'' @ r" "mail_text t"
    by blast
  then show ?thesis
  proof cases
    case (2 t m p u)
    then have "t = ''ok''" "m = ''a]b''" "p = []" using two three by blast+
    then have "?P ''ok'' ''a]b'' [] u" using 2(5) by blast
    then show ?thesis by (intro exI[of _ u]) (simp add: MBSIZE_def del: mail_chars.simps proc_input_chars.simps)
  qed (use one two four in blast)+
qed

text \<open>
  C30. A job is copied to the printer byte for byte and in order, however the line cuts the
  writes and whatever text the printer sends in between; the copying ends.
\<close>

theorem lprps_copies_job:
  assumes "lfine s" and "lp_outbuf s = []"
  shows "\<exists>t. bnd (out_chars inp) (\<lambda>_. out_char None) s = Ok () t \<and>
    sent t (lp_psfd s) = sent s (lp_psfd s) @ inp \<and> lp_outbuf t = []"
proof -
  have "runs (bnd (out_chars inp) (\<lambda>_. out_char None)) s
      (\<lambda>_ t. sent t (lp_psfd s) = sent s (lp_psfd s) @ inp \<and> lp_outbuf t = [])"
  proof (rule runs_step[OF out_chars_runs[OF assms(1)]], elim conjE)
    fix x t
    assume t: "lfine t" "lp_psfd t = lp_psfd s" "through t = through s @ inp"
    show "runs (out_char None) t (\<lambda>_ t. sent t (lp_psfd s) = sent s (lp_psfd s) @ inp \<and> lp_outbuf t = [])"
      unfolding out_char_def option.case
      by (rule runs_conseq[OF out_buf_runs[OF t(1)]]) (use t assms(2) in \<open>simp add: through_def\<close>)
  qed
  then show ?thesis by (auto simp: runs_iff)
qed

theorem lprps_copies_job_witness:
  "\<exists>t. bnd (out_chars ''job'') (\<lambda>_. out_char None) lprps0 = Ok () t \<and> sent t 1 = ''job''"
proof -
  have "lp_outbuf lprps0 = []" "lp_psfd lprps0 = 1" "s_out lprps0 1 = []" by (simp_all add: lprps0_def)
  then show ?thesis using lprps_copies_job[OF lprps0_fine, of "''job''"] by auto
qed

text \<open>
  \<open>proc_msg\<close> never looks at the values of a message: two messages with the same keys have
  the same effect, and unless \<open>val\<close> happens to point to a string, a message with a key is
  undefined behaviour.
\<close>

theorem printer_values_ignored:
  assumes "map pair_key (semi_tokens m) = map pair_key (semi_tokens m')"
  shows "proc_pairs fl (semi_tokens m) = proc_pairs fl (semi_tokens m') \<and>
    (lp_val s = None \<and> lp_msgbuf s = m \<and> (\<exists>t\<in>set (semi_tokens m). pair_key t \<noteq> None) \<longrightarrow>
      proc_msg fl s = Halt (Undefined ''val is not initialised'') s)"
  using proc_pairs_keys[OF assms, of fl] proc_pairs_undefined[of s "semi_tokens m" fl] by (simp add: proc_msg_def)

theorem printer_values_ignored_witness:
  "proc_pairs printer_flushing (semi_tokens ''status: idle'') = proc_pairs printer_flushing (semi_tokens ''status: busy'') \<and>
    proc_msg printer_flushing (lprps0\<lparr>lp_msgbuf := ''status: idle''\<rparr>) =
      Halt (Undefined ''val is not initialised'') (lprps0\<lparr>lp_msgbuf := ''status: idle''\<rparr>)"
proof -
  have idle: "semi_tokens ''status: idle'' = [''status: idle'']"
    by (subst semi_tokens.simps) (simp add: strtok_def cstr_def, subst semi_tokens.simps, simp add: strtok_def cstr_def)
  have busy: "semi_tokens ''status: busy'' = [''status: busy'']"
    by (subst semi_tokens.simps) (simp add: strtok_def cstr_def, subst semi_tokens.simps, simp add: strtok_def cstr_def)
  have k: "pair_key ''status: idle'' = Some ''status''" "pair_key ''status: busy'' = Some ''status''"
    by (simp_all add: pair_key_def isspace_def)
  show ?thesis
    using printer_values_ignored[of "''status: idle''" "''status: busy''" printer_flushing "lprps0\<lparr>lp_msgbuf := ''status: idle''\<rparr>"]
    by (simp add: idle busy k lprps0_def)
qed

end
