(* ===== verification/Call_Model.thy ===== *)
theory Call_Model
  imports Opend_Model Term
begin

text \<open>
  The client of the dial server: \<^verbatim>\<open>client-main.c\<close>, \<^verbatim>\<open>call.c\<close>, \<^verbatim>\<open>cli_loop.c\<close>,
  \<^verbatim>\<open>doescape.c\<close>, \<^verbatim>\<open>cli_assist.c\<close>, \<^verbatim>\<open>take.c\<close> and \<^verbatim>\<open>put.c\<close>.

  Standard input, output and error are the descriptors 0, 1 and 2. \<open>c_rem\<close> is the part of
  \<open>rem_buf\<close> that has not been parcelled out, \<open>c_bol0\<close> what the uninitialised variable
  \<open>bol\<close> of \<open>loop\<close> holds. Delays are not modelled.
\<close>

definition CS_CALL_CLI :: string where "CS_CALL_CLI = ''/home/philip/calld''"
definition CALL_CMD :: string where "CALL_CMD = ''call''"
definition BUFFSIZE :: nat where "BUFFSIZE = 512"
definition CTRLA :: char where "CTRLA = CHR 0x01"
definition CR :: char where "CR = CHR 0x0D"
definition escapec :: char where "escapec = CHR ''~''"

record callc = tty +
  c_src :: string
  c_dst :: string
  c_rem :: string
  c_bol0 :: bool
  c_breaks :: nat   \<comment> \<open>breaks sent\<close>
  c_stops :: nat    \<comment> \<open>times the process stopped itself\<close>

subsection \<open>Placing the call\<close>

fun add_options :: "opt list \<Rightarrow> string \<Rightarrow> (string, callc) prog" where
  "add_options [] args = ret args"
| "add_options (Opt c # os) args = add_options os (args @ [CHR ''-'', c, CHR '' ''])"
| "add_options (OptArg c a # os) args = add_options os (args @ [CHR ''-'', c, CHR '' ''] @ a @ '' '')"
| "add_options (BadOpt c # os) args =
     err_quit (''unrecognized option'' @ [NL] @ ''usage: call -d -e -o -s<speed> <hostname>'')"

text \<open>The argument list for the server; it is built with \<open>strcat\<close> in \<open>MAXLINE\<close> bytes.\<close>

definition client_args :: "string list \<Rightarrow> (string, callc) prog" where
  "client_args argv = (case getopts ''deo'' ''s'' [] (tl argv) of (os, rest) \<Rightarrow>
     bnd (add_options os []) (\<lambda>args.
     case rest of
       [] \<Rightarrow> err_quit (''missing <hostname> to call'' @ [NL] @ ''usage: call -d -e -o -s<speed> <hostname>'')
     | host # _ \<Rightarrow>
         if length (args @ host) \<ge> MAXLINE then stop_with (Undefined ''args overflow'') else ret (args @ host)))"

definition call_request :: "string \<Rightarrow> string" where
  "call_request args = CALL_CMD @ '' '' @ args @ [NUL]"

definition call :: "string \<Rightarrow> (int, callc) prog" where
  "call args =
     bnd (cli_conn CS_CALL_CLI) (\<lambda>csfd.
     if csfd < 0 then err_sys ''cli_conn error''
     else bnd (sock_write csfd (call_request args)) (\<lambda>n.
     if n \<noteq> int (length (call_request args)) then err_sys ''writev error''
     else recv_fd csfd (sock_write 2)))"

subsection \<open>Prompting\<close>

definition take_put_args :: "string list \<Rightarrow> (int, callc) prog" where
  "take_put_args argv = (case argv of
     [a] \<Rightarrow> bnd (modify (\<lambda>s. s\<lparr>c_src := a, c_dst := a\<rparr>)) (\<lambda>_. ret 0)
   | [a, b] \<Rightarrow> bnd (modify (\<lambda>s. s\<lparr>c_src := a, c_dst := b\<rparr>)) (\<lambda>_. ret 0)
   | _ \<Rightarrow> ret (-1))"

text \<open>A line from standard input, of which the first \<open>MAXLINE - 2\<close> bytes are kept.\<close>

fun read_cmd :: "nat \<Rightarrow> string \<Rightarrow> (string, callc) prog" where
  "read_cmd 0 buf = stop_with (Diverges ''prompt_read'')"
| "read_cmd (Suc n) buf =
     bnd (sock_read 0 1) (\<lambda>r. case r of
       None \<Rightarrow> err_sys ''read error''
     | Some [] \<Rightarrow> ret buf
     | Some (c # _) \<Rightarrow> if c = NL then ret buf else read_cmd n (if length buf < MAXLINE - 2 then buf @ [c] else buf))"

definition prompt_read :: "string \<Rightarrow> (string list \<Rightarrow> (int, callc) prog) \<Rightarrow> (int, callc) prog" where
  "prompt_read prompt userfunc =
     bnd (tty_reset 0) (\<lambda>_.
     bnd (sock_write 1 prompt) (\<lambda>n.
     if n \<noteq> int (length prompt) then err_sys ''write error''
     else bnd (gets (\<lambda>s. Suc (pending_bytes s 0))) (\<lambda>k.
     bnd (read_cmd k []) (\<lambda>buf.
     bnd (tty_raw 0) (\<lambda>_.
     buf_args buf userfunc)))))"

text \<open>\<open>printf\<close>, \<open>err_ret\<close> and \<open>err_msg\<close> with the carriage return that follows them.\<close>

definition put_out :: "int \<Rightarrow> string \<Rightarrow> (unit, 'a sock_scheme) prog" where
  "put_out fd t = bnd (sock_write fd t) (\<lambda>_. ret ())"

definition err_note :: "bool \<Rightarrow> string \<Rightarrow> (unit, callc) prog" where
  "err_note errnoflag msg =
     bnd (gets w_errno) (\<lambda>e. case err_doit errnoflag (strerror e) msg of
       None \<Rightarrow> stop_with (Undefined ''buf overflow'')
     | Some t \<Rightarrow> bnd (put_out 2 t) (\<lambda>_. put_out 2 [CR]))"

subsection \<open>Taking a file\<close>

definition strip7 :: "char \<Rightarrow> char" where
  "strip7 c = char_of (of_char c mod (128::nat))"

definition rem_read :: "int \<Rightarrow> (char, callc) prog" where
  "rem_read remfd =
     bnd (gets c_rem) (\<lambda>b.
     bnd (if b \<noteq> [] then ret b
          else bnd (sock_read remfd MAXLINE) (\<lambda>r. case r of None \<Rightarrow> err_sys ''read error'' | Some x \<Rightarrow> ret x)) (\<lambda>b.
     case b of
       [] \<Rightarrow> bnd (modify (\<lambda>s. s\<lparr>c_rem := []\<rparr>)) (\<lambda>_. ret NUL)
     | c # cs \<Rightarrow> bnd (modify (\<lambda>s. s\<lparr>c_rem := cs\<rparr>)) (\<lambda>_. ret (strip7 c))))"

text \<open>The echo of the command line; \<open>False\<close> when the line has dropped.\<close>

fun take_echo :: "nat \<Rightarrow> int \<Rightarrow> (bool, callc) prog" where
  "take_echo 0 remfd = stop_with (Diverges ''take'')"
| "take_echo (Suc n) remfd =
     bnd (rem_read remfd) (\<lambda>c. if c = NUL then ret False else if c = NL then ret True else take_echo n remfd)"

fun take_text :: "nat \<Rightarrow> int \<Rightarrow> int \<Rightarrow> string \<Rightarrow> (string, callc) prog" where
  "take_text 0 remfd cnt acc = stop_with (Diverges ''take'')"
| "take_text (Suc n) remfd cnt acc =
     bnd (rem_read remfd) (\<lambda>c.
     if c = NUL \<or> c = CTRLA then ret acc
     else if c = CR then take_text n remfd cnt acc
     else if c = NL then bnd (put_out 1 (CR # fmt_d (cnt + 1))) (\<lambda>_. take_text n remfd (cnt + 1) (acc @ [c]))
     else take_text n remfd cnt (acc @ [c]))"

definition take_command :: "string \<Rightarrow> string" where
  "take_command src = ''cat '' @ src @ ''; echo '' @ [CTRLA, CR]"

definition rem_fuel :: "int \<Rightarrow> callc \<Rightarrow> nat" where
  "rem_fuel remfd s = Suc (pending_bytes s remfd + length (c_rem s))"

definition take_file :: "int \<Rightarrow> (unit, callc) prog" where
  "take_file remfd =
     bnd (prompt_read ''~[take] '' take_put_args) (\<lambda>r.
     if r < 0 then put_out 1 (''usage: [take] <sourcefile> <destfile>'' @ [NL, CR])
     else bnd (gets (\<lambda>s. (c_src s, c_dst s, w_denied s (c_dst s), w_limit s))) (\<lambda>(src, dst, bad, lim).
     if bad then bnd (modify (\<lambda>s. s\<lparr>w_errno := EACCES\<rparr>)) (\<lambda>_. err_note True (''can't open '' @ dst @ '' for writing''))
     else bnd (modify (set_bytes dst [])) (\<lambda>_.
     if length (take_command src) \<ge> MAXLINE then stop_with (Undefined ''cmd overflow'')
     else bnd (sock_write remfd (take_command src)) (\<lambda>n.
     if n \<noteq> int (length (take_command src)) then err_sys ''write error''
     else bnd (modify (\<lambda>s. s\<lparr>c_rem := []\<rparr>)) (\<lambda>_.
     bnd (gets (rem_fuel remfd)) (\<lambda>k.
     bnd (take_echo k remfd) (\<lambda>ok.
     if \<not> ok then ret ()
     else bnd (gets (rem_fuel remfd)) (\<lambda>k.
     bnd (take_text k remfd 0 []) (\<lambda>t.
     bnd (modify (set_bytes dst (take lim t))) (\<lambda>_.
     bnd (if length t > lim then err_note False ''output error to local file'' else ret ()) (\<lambda>_.
     put_out remfd [NL])))))))))))"

subsection \<open>Putting a file\<close>

definition put_command :: "string \<Rightarrow> string" where
  "put_command dst = ''stty -echo; cat >'' @ dst @ ''; stty echo'' @ [CR]"

text \<open>The bytes of the file one by one; the loop ends when a write fails.\<close>

fun put_text :: "int \<Rightarrow> int \<Rightarrow> string \<Rightarrow> (unit, callc) prog" where
  "put_text remfd cnt [] = ret ()"
| "put_text remfd cnt (c # cs) =
     bnd (sock_write remfd [c]) (\<lambda>n.
     if n \<noteq> 1 then ret ()
     else if c = NL then bnd (put_out 1 (CR # fmt_d (cnt + 1))) (\<lambda>_. put_text remfd (cnt + 1) cs)
     else put_text remfd cnt cs)"

definition put_file :: "int \<Rightarrow> (unit, callc) prog" where
  "put_file remfd =
     bnd (prompt_read ''~[put] '' take_put_args) (\<lambda>r.
     if r < 0 then put_out 1 (''usage: [put] <sourcefile><destfile>'' @ [NL, CR])
     else bnd (gets (\<lambda>s. (c_src s, c_dst s, if w_denied s (c_src s) then None else w_files s (c_src s))))
       (\<lambda>(src, dst, file).
     case file of
       None \<Rightarrow> bnd (modify (\<lambda>s. s\<lparr>w_errno := (if w_denied s src then EACCES else ENOENT)\<rparr>)) (\<lambda>_.
               err_note True (''can't open '' @ src @ '' for reading''))
     | Some t \<Rightarrow>
         if length (put_command dst) \<ge> MAXLINE then stop_with (Undefined ''cmd overflow'')
         else bnd (sock_write remfd (put_command dst)) (\<lambda>n.
         if n \<noteq> int (length (put_command dst)) then err_sys ''write error''
         else bnd (put_text remfd 0 t) (\<lambda>_.
         bnd (gets (\<lambda>s. t_veof (y_save s))) (\<lambda>eof.
         bnd (put_out remfd [eof]) (\<lambda>_.
         bnd (modify (flush_input remfd)) (\<lambda>_.
         put_out remfd [NL])))))))"

subsection \<open>The escape character\<close>

text \<open>The result is -1 to terminate, 0 when the command has been done, or a character.\<close>

definition doescape :: "int \<Rightarrow> (int, callc) prog" where
  "doescape remfd =
     bnd (sock_read 0 1) (\<lambda>r. case r of
       Some (c # _) \<Rightarrow>
         bnd (gets (\<lambda>s. t_vsusp (y_save s))) (\<lambda>vsusp.
         if c = escapec then ret (of_char escapec)
         else if c = CHR ''.'' then bnd (put_out 1 (''~.'' @ [NL, CR])) (\<lambda>_. ret (-1))
         else if c = vsusp
         then bnd (tty_reset 0) (\<lambda>_.
              bnd (modify (\<lambda>s. s\<lparr>c_stops := c_stops s + 1\<rparr>)) (\<lambda>_.
              bnd (tty_raw 0) (\<lambda>_. ret 0)))
         else if c = CHR ''#'' then bnd (modify (\<lambda>s. s\<lparr>c_breaks := c_breaks s + 1\<rparr>)) (\<lambda>_. ret 0)
         else if c = CHR ''t'' then bnd (take_file remfd) (\<lambda>_. ret 0)
         else if c = CHR ''p'' then bnd (put_file remfd) (\<lambda>_. ret 0)
         else ret (if of_char c < (128::int) then of_char c else of_char c - 256))
     | _ \<Rightarrow> err_sys ''read error from stdin'')"

subsection \<open>The loop\<close>

definition poll_in :: "callc \<Rightarrow> int \<Rightarrow> bool" where
  "poll_in s fd \<longleftrightarrow> s_in s fd \<noteq> []"

text \<open>
  The half of a round that handles standard input: \<open>None\<close> ends the loop, \<open>Some (bol, True)\<close>
  is the \<open>continue\<close> after an escape.
\<close>

definition from_stdin :: "int \<Rightarrow> bool \<Rightarrow> ((bool \<times> bool) option, callc) prog" where
  "from_stdin remfd bol =
     bnd (sock_read 0 1) (\<lambda>r. case r of
       Some (c # _) \<Rightarrow>
         bnd (if c = escapec \<and> bol then doescape remfd else ret 1) (\<lambda>n.
         if n < 0 then ret None
         else if n = 0 then ret (Some (bol, True))
         else (let c' = (if c = escapec \<and> bol then to_char n else c) in
              bnd (sock_write remfd [c']) (\<lambda>w.
              if w \<noteq> 1 then err_sys ''writer error'' else ret (Some (c' = CR \<or> c' = NL, False)))))
     | _ \<Rightarrow> err_sys ''read error from stdin'')"

text \<open>
  The half that handles the remote side, with \<open>rev\<close> for \<open>fds[1].revents\<close> being nonzero. The
  code tests \<open>revents && POLLIN\<close> and \<open>revents && POLLHUP\<close>, which are both just that.
\<close>

definition from_remote :: "int \<Rightarrow> bool \<Rightarrow> (bool, callc) prog" where
  "from_remote remfd rev' =
     (if \<not> rev' then ret True
      else bnd (sock_read remfd BUFFSIZE) (\<lambda>r. case r of
        None \<Rightarrow> ret False
      | Some b \<Rightarrow>
          if b = [] then ret False
          else bnd (writen 1 b) (\<lambda>n.
               if n \<noteq> int (length b) then err_sys ''writen error to stdout'' else ret False)))"

fun call_loop :: "nat \<Rightarrow> int \<Rightarrow> bool \<Rightarrow> (unit, callc) prog" where
  "call_loop 0 remfd bol = stop_with (Diverges ''loop'')"
| "call_loop (Suc k) remfd bol =
     bnd (gets (\<lambda>s. (poll_in s 0, s_hup s 0, poll_in s remfd \<or> s_hup s remfd))) (\<lambda>(in0, hup0, rev1).
     if \<not> in0 \<and> \<not> hup0 \<and> \<not> rev1 then stop_with (Blocked ''poll'')
     else bnd (if in0 then from_stdin remfd bol else ret (Some (bol, False))) (\<lambda>r.
     case r of
       None \<Rightarrow> ret ()
     | Some (bol', cont) \<Rightarrow>
         if cont then call_loop k remfd bol'
         else if hup0 then ret ()
         else bnd (from_remote remfd rev1) (\<lambda>more.
         if more then call_loop k remfd bol' else ret ())))"

definition call_body :: "string list \<Rightarrow> (unit, callc) prog" where
  "call_body argv =
     bnd (client_args argv) (\<lambda>args.
     bnd (call args) (\<lambda>remfd.
     if remfd < 0 then stop_with (Exit 1 [])
     else bnd (put_out 1 (''Connected'' @ [NL])) (\<lambda>_.
     bnd (tty_raw 0) (\<lambda>r.
     if r < 0 then err_sys ''tty_raw error''
     else bnd (gets (\<lambda>s. (Suc (pending_bytes s 0), c_bol0 s))) (\<lambda>(k, bol).
     bnd (call_loop k remfd bol) (\<lambda>_.
     bnd (put_out 1 (''Disconnected'' @ [NL, CR])) (\<lambda>_.
     stop_with (Exit 0 []))))))))"

definition call_main :: "string list \<Rightarrow> (unit, callc) prog" where
  "call_main argv = at_exit tty_atexit (call_body argv)"

end
