(* ===== verification/Call_Props.thy ===== *)
theory Call_Props
  imports Call_Model Calld_Props
begin

text \<open>
  The client and the dial server together: the options a user gives arrive at the server as they
  were given; and what the client does with the connection.
\<close>

subsection \<open>From the command line to the server's options\<close>

definition copt_ok :: "opt \<Rightarrow> bool" where
  "copt_ok o' = (case o' of Opt c \<Rightarrow> c \<in> set ''deo'' | OptArg c a \<Rightarrow> c = CHR ''s'' \<and> word_ok a | BadOpt _ \<Rightarrow> False)"

definition opt_words :: "opt \<Rightarrow> string list" where
  "opt_words o' = (case o' of Opt c \<Rightarrow> [[CHR ''-'', c]] | OptArg c a \<Rightarrow> [[CHR ''-'', c], a] | BadOpt _ \<Rightarrow> [])"

lemma opt_words_simps [simp]:
  "opt_words (Opt c) = [[CHR ''-'', c]]" "opt_words (OptArg c a) = [[CHR ''-'', c], a]"
  by (simp_all add: opt_words_def)

lemma add_options_run:
  "\<forall>o'\<in>set os. copt_ok o' \<Longrightarrow> add_options os args = ret (args @ unwords (concat (map opt_words os)))"
proof (induction os arbitrary: args)
  case (Cons o' os)
  then show ?case by (cases o') (auto simp: copt_ok_def opt_words_def unwords_def)
qed (simp add: unwords_def)

lemma getopts_flag:
  "c \<in> set f \<Longrightarrow> c \<noteq> CHR ''-'' \<Longrightarrow>
   getopts f w [] ([CHR ''-'', c] # as) = (Opt c # fst (getopts f w [] as), snd (getopts f w [] as))"
  by (simp add: case_prod_beta Let_def)

lemma getopts_arg:
  "c \<notin> set f \<Longrightarrow> c \<in> set w \<Longrightarrow> c \<noteq> CHR ''-'' \<Longrightarrow>
   getopts f w [] ([CHR ''-'', c] # a # as) = (OptArg c a # fst (getopts f w [] as), snd (getopts f w [] as))"
  by (simp add: case_prod_beta Let_def)

lemma getopts_words:
  assumes "\<forall>o'\<in>set os. copt_ok o'" and "hd host \<noteq> CHR ''-''" and "host \<noteq> ''--''"
  shows "getopts ''deo'' ''s'' [] (concat (map opt_words os) @ [host]) = (os, [host])"
  using assms(1)
proof (induction os)
  case (Cons o' os)
  then have ih: "getopts ''deo'' ''s'' [] (concat (map opt_words os) @ [host]) = (os, [host])"
    and ok: "copt_ok o'" by simp_all
  show ?case
  proof (cases o')
    case (Opt c)
    with ok have "c \<in> set ''deo''" "c \<noteq> CHR ''-''" by (auto simp: copt_ok_def)
    with getopts_flag[OF this] ih Opt show ?thesis by (simp del: getopts.simps)
  next
    case (OptArg c a)
    with ok have "c \<notin> set ''deo''" "c \<in> set ''s''" "c \<noteq> CHR ''-''" by (auto simp: copt_ok_def)
    with getopts_arg[OF this] ih OptArg show ?thesis by (simp del: getopts.simps)
  qed (use ok in \<open>simp add: copt_ok_def\<close>)
qed (use assms(2,3) in simp)

lemma word_ok_opt:
  assumes "copt_ok o'" and "w \<in> set (opt_words o')"
  shows "word_ok w"
proof (cases o')
  case (Opt c)
  with assms have "c = CHR ''d'' \<or> c = CHR ''e'' \<or> c = CHR ''o''" "w = [CHR ''-'', c]" by (auto simp: copt_ok_def)
  then show ?thesis by (elim disjE) (simp_all add: word_ok_def WHITE_def is_cstr_def)
next
  case (OptArg c a)
  with assms have "w = ''-s'' \<or> w = a" "word_ok a" by (auto simp: copt_ok_def)
  then show ?thesis by (elim disjE) (simp_all add: word_ok_def WHITE_def is_cstr_def)
qed (use assms in \<open>simp add: copt_ok_def\<close>)

text \<open>What the options do to the server's globals.\<close>

definition opt_apply :: "opt \<Rightarrow> calld \<Rightarrow> calld" where
  "opt_apply o' s = (case o' of
     Opt c \<Rightarrow> if c = CHR ''d'' then s\<lparr>k_Debug := True\<rparr> else s\<lparr>k_parity := (if c = CHR ''e'' then EVEN else ODD)\<rparr>
   | OptArg c a \<Rightarrow> s\<lparr>k_speed := Some a\<rparr>
   | BadOpt c \<Rightarrow> s)"

lemma copts_run: "\<forall>o'\<in>set os. copt_ok o' \<Longrightarrow> copts os s = Ok 0 (fold opt_apply os s)"
proof (induction os arbitrary: s)
  case (Cons o' os)
  then show ?case by (cases o') (auto simp: copt_def opt_apply_def copt_ok_def bnd_apply)
qed simp

definition speeds :: "opt list \<Rightarrow> string list" where
  "speeds os = concat (map (\<lambda>o'. case o' of OptArg c a \<Rightarrow> [a] | _ \<Rightarrow> []) os)"

definition parities :: "opt list \<Rightarrow> parity list" where
  "parities os = concat (map (\<lambda>o'. case o' of Opt c \<Rightarrow> if c = CHR ''d'' then [] else [if c = CHR ''e'' then EVEN else ODD] | _ \<Rightarrow> []) os)"

lemma fold_opts:
  "k_Debug (fold opt_apply os s) \<longleftrightarrow> k_Debug s \<or> Opt (CHR ''d'') \<in> set os"
  "k_speed (fold opt_apply os s) = (if speeds os = [] then k_speed s else Some (last (speeds os)))"
  "k_parity (fold opt_apply os s) = (if parities os = [] then k_parity s else last (parities os))"
  by (induction os arbitrary: s) (auto simp: opt_apply_def speeds_def parities_def split: opt.splits)

lemma kcli_args_run:
  assumes "\<forall>o'\<in>set os. copt_ok o'" and "hd host \<noteq> CHR ''-''" and "host \<noteq> ''--''"
  shows "kcli_args (CL_CALL # concat (map opt_words os) @ [host]) s =
    Ok 0 ((fold opt_apply os (s\<lparr>k_Debug := False, k_parity := NONE, k_speed := None\<rparr>))\<lparr>k_sysname := host\<rparr>)"
  using copts_run[OF assms(1)] getopts_words[OF assms] by (simp add: kcli_args_def bnd_apply)

lemma call_request_vector:
  assumes "\<forall>o'\<in>set os. copt_ok o'" and "word_ok host" and "length (concat (map opt_words os)) < MAXARGC - 2"
  shows "arg_vector (call_request (unwords (concat (map opt_words os)) @ host)) = Some (CL_CALL # concat (map opt_words os) @ [host])"
proof -
  have "word_ok CL_CALL" by (simp add: CL_CALL_def word_ok_def WHITE_def is_cstr_def)
  moreover have "\<forall>w\<in>set (concat (map opt_words os)). word_ok w" using assms(1) word_ok_opt by auto
  ultimately have "arg_vector (unwords (CL_CALL # concat (map opt_words os)) @ host @ [NUL]) =
      Some (CL_CALL # concat (map opt_words os) @ [host])"
    using assms(2,3) by (intro arg_vector_words)
  moreover have "call_request (unwords (concat (map opt_words os)) @ host) = unwords (CL_CALL # concat (map opt_words os)) @ host @ [NUL]"
    by (simp add: call_request_def CALL_CMD_def CL_CALL_def unwords_def)
  ultimately show ?thesis by simp
qed

subsection \<open>Reading from the remote side\<close>

text \<open>The bytes still to come, and pieces that carry some.\<close>

definition rbytes :: "callc \<Rightarrow> int \<Rightarrow> string" where
  "rbytes s fd = c_rem s @ arrived s fd"

definition rem_ok :: "callc \<Rightarrow> int \<Rightarrow> bool" where
  "rem_ok s fd \<longleftrightarrow> w_fds s fd \<noteq> None \<and> (\<forall>p\<in>set (s_in s fd). p_bytes p \<noteq> [])"

lemma rem_read_runs:
  assumes "rem_ok s fd" and "rbytes s fd = c # cs"
  shows "runs (rem_read fd) s (\<lambda>r t. r = strip7 c \<and> rem_ok t fd \<and> rbytes t fd = cs \<and> w_fds t = w_fds s)"
proof (cases "c_rem s")
  case (Cons x xs)
  then show ?thesis using assms by (auto simp: rem_read_def runs_def bnd_apply rbytes_def rem_ok_def)
next
  case Nil
  then obtain p ps where ps: "s_in s fd = p # ps" using assms(2) by (cases "s_in s fd") (auto simp: rbytes_def)
  obtain b bs where b: "p_bytes p = b # bs" using assms(1) ps by (cases "p_bytes p") (auto simp: rem_ok_def)
  have c: "c = b" "cs = bs @ concat (map p_bytes ps)" using assms(2) Nil ps b by (simp_all add: rbytes_def)
  obtain f where f: "w_fds s fd = Some f" using assms(1) by (auto simp: rem_ok_def)
  have tk: "take MAXLINE (b # bs) = b # take (MAXLINE - 1) bs" by (simp add: MAXLINE_def)
  show ?thesis
    using assms(1) Nil ps b c f
    by (auto simp: rem_read_def runs_def bnd_apply sock_read_def tk rbytes_def rem_ok_def MAXLINE_def simp del: take_Suc_Cons)
qed

text \<open>What a file looks like when the remote host types it: a carriage return before each newline.\<close>

definition crlf :: "string \<Rightarrow> string" where
  "crlf t = concat (map (\<lambda>c. if c = NL then [CR, NL] else [c]) t)"

definition text_ok :: "string \<Rightarrow> bool" where
  "text_ok t \<longleftrightarrow> (\<forall>c\<in>set t. c \<noteq> NUL \<and> c \<noteq> CTRLA \<and> c \<noteq> CR \<and> of_char c < (128::nat))"

subsection \<open>A client on a terminal\<close>

definition callc0 :: callc where
  "callc0 = \<lparr>w_files = Map.empty, w_fds = [0 \<mapsto> a_file ''/dev/tty1'', 1 \<mapsto> a_file ''/dev/tty1'', 2 \<mapsto> a_file ''/dev/tty1'', 5 \<mapsto> a_file ''/dev/cua0''],
     w_maxfd = 20, w_limit = 1000, w_denied = (\<lambda>_. False), w_locks = (\<lambda>_ _. None), w_others = [], w_mem = 100000, w_errno = E_OK,
     s_in = (\<lambda>_. []), s_hup = (\<lambda>_. False), s_out = (\<lambda>_. []), s_wr = (\<lambda>_. []), s_pending = [], s_names = (\<lambda>_. None),
     s_now = 100, s_pid = 43, s_cmptr = False,
     y_term = [''/dev/tty1'' \<mapsto> termios0\<lparr>t_lflag := ECHO OR ICANON\<rparr>], y_queued = (\<lambda>_. 0), y_save = termios0,
     y_savefd = -1, y_state = RESET, y_mask = {}, y_devdir = None, y_stat = (\<lambda>_. None), y_fstat = (\<lambda>_. None),
     c_src = [], c_dst = [], c_rem = [], c_bol0 = False, c_breaks = 0, c_stops = 0\<rparr>"

text \<open>
  C31. The command line of the client arrives at the server: from the words the client sends,
  \<open>buf_args\<close> and \<open>cli_args\<close> of the server recover the options and the host name that
  \<open>getopt\<close> found in the client, the last of several speeds or parities counting.
\<close>

theorem call_args_roundtrip:
  assumes "getopts ''deo'' ''s'' [] (tl argv) = (os, host # rest)"
    and "\<forall>o'\<in>set os. copt_ok o'" and "word_ok host" and "hd host \<noteq> CHR ''-''"
    and "length (concat (map opt_words os)) < MAXARGC - 2"
    and "length (unwords (concat (map opt_words os)) @ host) < MAXLINE"
  shows "\<exists>args t. client_args argv c = Ok args c \<and> buf_args (call_request args) kcli_args k = Ok 0 t \<and>
    k_sysname t = host \<and> (k_Debug t \<longleftrightarrow> Opt (CHR ''d'') \<in> set os) \<and>
    k_speed t = (if speeds os = [] then None else Some (last (speeds os))) \<and>
    k_parity t = (if parities os = [] then NONE else last (parities os))"
proof -
  let ?args = "unwords (concat (map opt_words os)) @ host"
  have "client_args argv c = Ok ?args c"
    using assms(1,6) add_options_run[OF assms(2), of "[]"] by (simp add: client_args_def)
  moreover have "host \<noteq> ''--''" using assms(4) by auto
  ultimately show ?thesis
    using call_request_vector[OF assms(2,3,5)] kcli_args_run[OF assms(2,4), of k]
    by (simp add: buf_args_def fold_opts)
qed

theorem call_args_roundtrip_witness:
  "\<exists>args t. client_args [''call'', ''-e'', ''-s'', ''2400'', ''host''] callc0 = Ok args callc0 \<and>
    buf_args (call_request args) kcli_args calld0 = Ok 0 t \<and>
    k_sysname t = ''host'' \<and> \<not> k_Debug t \<and> k_speed t = Some ''2400'' \<and> k_parity t = EVEN"
  using call_args_roundtrip[of "[''call'', ''-e'', ''-s'', ''2400'', ''host'']"
      "[Opt (CHR ''e''), OptArg (CHR ''s'') ''2400'']" "''host''" "[]" callc0 calld0]
  by (simp add: copt_ok_def word_ok_def WHITE_def is_cstr_def MAXARGC_def MAXLINE_def unwords_def speeds_def parities_def)

subsection \<open>The loop and the terminal\<close>

lemma sock_write_all:
  "w_fds s fd \<noteq> None \<Longrightarrow> s_wr s fd = [] \<Longrightarrow> bs \<noteq> [] \<Longrightarrow>
   sock_write fd bs s = Ok (int (length bs)) (sock_put fd (Pkt bs None) s)"
  by (auto simp: sock_write_def)

lemma writen_all:
  assumes "w_fds s fd \<noteq> None" and "s_wr s fd = []" and "bs \<noteq> []"
  shows "writen fd bs s = Ok (int (length bs)) (sock_put fd (Pkt bs None) s)"
proof -
  obtain n where n: "length bs = Suc n" using assms(3) by (cases bs) auto
  show ?thesis using assms n by (auto simp: writen_def sock_write_def bnd_apply)
qed

lemma sock_read_piece:
  assumes "w_fds s fd \<noteq> None" and "s_in s fd = p # ps"
  shows "sock_read fd n s = Ok (Some (take n (p_bytes p)))
    (s\<lparr>s_in := (s_in s)(fd := (if length (p_bytes p) \<le> n then ps else Pkt (drop n (p_bytes p)) None # ps))\<rparr>)"
  using assms by (simp add: sock_read_def)

text \<open>
  The client's loop ends, and with it the connection, as soon as the remote side has sent
  anything: it copies the first piece, at most \<open>BUFFSIZE\<close> bytes, and leaves the rest unread,
  although nobody has hung up.
\<close>

theorem call_loop_stops_after_first_data:
  assumes "s_in s 0 = []" and "\<not> s_hup s 0" and "w_fds s remfd \<noteq> None" and "w_fds s 1 \<noteq> None" and "s_wr s 1 = []"
    and "s_in s remfd = p # ps" and "p_bytes p \<noteq> []"
  shows "\<exists>t. call_loop (Suc k) remfd bol s = Ok () t \<and> sent t 1 = sent s 1 @ take BUFFSIZE (p_bytes p) \<and>
    arrived t remfd = drop BUFFSIZE (p_bytes p) @ concat (map p_bytes ps)"
proof -
  let ?b = "take BUFFSIZE (p_bytes p)"
  define u where "u = s\<lparr>s_in := (s_in s)(remfd := (if length (p_bytes p) \<le> BUFFSIZE then ps else Pkt (drop BUFFSIZE (p_bytes p)) None # ps))\<rparr>"
  have "?b \<noteq> []" using assms(7) by (simp add: BUFFSIZE_def)
  moreover from this have "writen 1 ?b u = Ok (int (length ?b)) (sock_put 1 (Pkt ?b None) u)"
    using assms(4,5) by (intro writen_all) (simp_all add: u_def)
  moreover have "sock_read remfd BUFFSIZE s = Ok (Some ?b) u"
    using sock_read_piece[OF assms(3,6)] by (simp only: u_def)
  ultimately have "from_remote remfd True s = Ok False (sock_put 1 (Pkt ?b None) u)"
    by (simp add: from_remote_def)
  then have "call_loop (Suc k) remfd bol s = Ok () (sock_put 1 (Pkt ?b None) u)"
    using assms(1,2,6) by (simp add: poll_in_def)
  then show ?thesis by (simp add: u_def)
qed

theorem call_loop_stops_after_first_data_witness:
  "\<exists>t. call_loop 5 5 False (callc0\<lparr>s_in := (\<lambda>_. [])(5 := [Pkt ''log'' None, Pkt ''in: '' None])\<rparr>) = Ok () t \<and>
    sent t 1 = ''log'' \<and> arrived t 5 = ''in: ''"
  using call_loop_stops_after_first_data[of "callc0\<lparr>s_in := (\<lambda>_. [])(5 := [Pkt ''log'' None, Pkt ''in: '' None])\<rparr>" 5
      "Pkt ''log'' None" "[Pkt ''in: '' None]" 4 False]
  by (simp add: callc0_def BUFFSIZE_def del: call_loop.simps)

text \<open>
  While the client talks to the host its terminal is in raw mode, and \<open>tty_reset\<close>, by
  whatever way the process gets there, gives it back the attributes it had.
\<close>

theorem tty_raw_reset_roundtrip:
  fixes s :: "'a tty_scheme"
  assumes "tcgetattr fd s = Some t"
  shows "\<exists>u v. tty_raw fd s = Ok 0 u \<and> tcgetattr fd u = Some (raw_of t) \<and>
    (t_lflag (raw_of t) AND (ECHO OR ICANON OR IEXTEN OR ISIG)) = 0 \<and> (t_cflag (raw_of t) AND CSIZE) = CS8 \<and>
    tty_reset fd u = Ok 0 v \<and> y_term v = y_term s"
proof -
  define u where "u = (set_term fd (raw_of t) (flush_input fd (s\<lparr>y_save := t\<rparr>)))\<lparr>y_state := RAW, y_savefd := fd\<rparr>"
  have run: "tty_raw fd s = Ok 0 u" unfolding tty_raw_def u_def by (rule tty_mode_ok[OF assms])
  have attr: "tcgetattr fd u = Some (raw_of t)" using assms by (simp add: u_def)
  have "y_state u \<noteq> RESET" by (simp add: u_def)
  note reset = tty_reset_ok[OF attr this]
  have "y_term (set_term fd (y_save u) (flush_input fd u)) = y_term s"
    using assms by (auto simp: u_def set_term_def flush_input_def tcgetattr_def fd_path_def fun_eq_iff split: option.splits)
  moreover have "(t_lflag (raw_of t) AND (ECHO OR ICANON OR IEXTEN OR ISIG)) = 0"
    by (auto simp: raw_of_def bit_eq_iff bit_simps)
  moreover have "(t_cflag (raw_of t) AND CSIZE) = CS8"
  proof -
    have "CS8 AND CSIZE = CS8" by (simp add: CS8_def CSIZE_def)
    moreover have "(t_cflag t AND NOT (CSIZE OR PARENB)) AND CSIZE = 0" by (auto simp: bit_eq_iff bit_simps)
    ultimately show ?thesis by (simp add: raw_of_def bit.conj_disj_distrib2)
  qed
  ultimately show ?thesis using run attr reset by simp
qed

theorem tty_raw_reset_roundtrip_witness:
  "\<exists>u v. tty_raw 0 callc0 = Ok 0 u \<and> tcgetattr 0 u = Some (raw_of (termios0\<lparr>t_lflag := ECHO OR ICANON\<rparr>)) \<and>
    tty_reset 0 u = Ok 0 v \<and> y_term v = y_term callc0"
proof -
  have "tcgetattr 0 callc0 = Some (termios0\<lparr>t_lflag := ECHO OR ICANON\<rparr>)" by (simp add: tcgetattr_def callc0_def a_file_def)
  from tty_raw_reset_roundtrip[OF this] show ?thesis by blast
qed

subsection \<open>Taking a file\<close>

text \<open>
  What a step of the transfer leaves alone: everything but standard input and output, the input
  from the host, and the terminal. \<open>inq\<close> is what has come from the host and is still unread.
\<close>

definition side :: "int \<Rightarrow> callc \<Rightarrow> _" where
  "side fd s = (w_fds s, s_out s fd, s_wr s fd, w_files s, w_limit s, w_denied s)"

definition inq :: "int \<Rightarrow> callc \<Rightarrow> pkt list \<times> string" where
  "inq fd s = (s_in s fd, c_rem s)"

lemma inq_eq: "inq fd t = inq fd s \<Longrightarrow> w_fds t = w_fds s \<Longrightarrow> rbytes t fd = rbytes s fd \<and> (rem_ok t fd \<longleftrightarrow> rem_ok s fd)"
  by (simp add: inq_def rbytes_def rem_ok_def)

lemma side_w_fds: "side fd t = side fd s \<Longrightarrow> w_fds t = w_fds s"
  by (simp add: side_def)

lemma side_read: "keeps (same (side fd)) (sock_read k n)"
  by (rule keepsI) (auto simp: same_def side_def sock_read_def split: list.splits)

lemma side_write: "k \<noteq> fd \<Longrightarrow> keeps (same (side fd)) (sock_write k b)" "k \<noteq> fd \<Longrightarrow> keeps (same (side fd)) (put_out k b)"
proof -
  assume "k \<noteq> fd"
  then show w: "keeps (same (side fd)) (sock_write k b)"
    by (intro keepsI) (auto simp: same_def side_def sock_write_def fail_def sock_put_def Let_def split: list.splits)
  then show "keeps (same (side fd)) (put_out k b)" unfolding put_out_def by (intro frame)
qed

lemma inq_write: "keeps (same (inq fd)) (sock_write k b)" "keeps (same (inq fd)) (put_out k b)"
proof -
  show w: "keeps (same (inq fd)) (sock_write k b)"
    by (intro keepsI) (auto simp: same_def inq_def sock_write_def fail_def sock_put_def Let_def split: list.splits)
  then show "keeps (same (inq fd)) (put_out k b)" unfolding put_out_def by (intro frame)
qed

lemma inq_read: "k \<noteq> fd \<Longrightarrow> keeps (same (inq fd)) (sock_read k n)"
  by (rule keepsI) (auto simp: same_def inq_def sock_read_def split: list.splits)

lemma put_out_returns: "runs (put_out k b) s (\<lambda>_ _. True)"
  by (auto simp: put_out_def runs_def bnd_apply sock_write_def fail_def Let_def split: list.splits)

lemma keeps_list [frame]:
  "keeps R m \<Longrightarrow> (\<And>x xs. keeps R (g x xs)) \<Longrightarrow> keeps R (case y of [] \<Rightarrow> m | x # xs \<Rightarrow> g x xs)"
  by (simp split: list.split)

lemma side_rem_read: "keeps (same (side fd)) (rem_read k)"
  unfolding rem_read_def err_sys_def
  by (intro frame side_read keeps_same_modify) (simp_all add: side_def)

lemma rem_read_byte:
  assumes "rem_ok s fd" and "rbytes s fd = c # cs"
  shows "runs (rem_read fd) s (\<lambda>r t. r = strip7 c \<and> rem_ok t fd \<and> rbytes t fd = cs \<and> side fd t = side fd s)"
  by (rule runs_conseq[OF runs_keeps[OF rem_read_runs[OF assms] side_rem_read[of fd]]]) simp

lemma strip7_id: "of_char c < (128::nat) \<Longrightarrow> strip7 c = c"
  by (simp add: strip7_def)

text \<open>The echo of the command is skipped.\<close>

definition taken :: "int \<Rightarrow> callc \<Rightarrow> string \<Rightarrow> callc \<Rightarrow> bool" where
  "taken fd s rest t \<longleftrightarrow> rem_ok t fd \<and> rbytes t fd = rest \<and> side fd t = side fd s"

lemma take_echo_runs:
  assumes "rem_ok s fd" and "rbytes s fd = e @ NL # rest" and "\<forall>c\<in>set e. strip7 c \<noteq> NUL \<and> strip7 c \<noteq> NL" and "length e < n"
  shows "runs (take_echo n fd) s (\<lambda>r t. r \<and> taken fd s rest t)"
  using assms
proof (induction e arbitrary: s n)
  case Nil
  then obtain m where n: "n = Suc m" by (cases n) auto
  have nl: "strip7 NL = NL" "NL \<noteq> NUL" by (simp_all add: strip7_id)
  show ?case unfolding n take_echo.simps
    by (rule runs_step[OF rem_read_byte[OF Nil.prems(1)]]) (use Nil.prems nl in \<open>auto simp: wp taken_def\<close>)
next
  case (Cons c e)
  then obtain m where n: "n = Suc m" by (cases n) auto
  show ?case unfolding n take_echo.simps
  proof (rule runs_step[OF rem_read_byte[OF Cons.prems(1)]])
    show "rbytes s fd = c # e @ NL # rest" using Cons.prems(2) by simp
    fix x t
    assume t: "x = strip7 c \<and> rem_ok t fd \<and> rbytes t fd = e @ NL # rest \<and> side fd t = side fd s"
    then have "runs (take_echo m fd) t (\<lambda>r u. r \<and> taken fd t rest u)" using Cons.prems(3,4) n by (intro Cons.IH) auto
    then have "runs (take_echo m fd) t (\<lambda>r u. r \<and> taken fd s rest u)" using t by (simp add: taken_def)
    then show "runs (if x = NUL then ret False else if x = NL then ret True else take_echo m fd) t (\<lambda>r u. r \<and> taken fd s rest u)"
      using t Cons.prems(3) by (simp add: wp)
  qed
qed

text \<open>One step of the loop that reads the file, for each kind of character.\<close>

lemma take_text_step:
  assumes "rem_ok s fd" and "rbytes s fd = c # cs" and "of_char c < (128::nat)" and "c \<noteq> NUL" and "c \<noteq> CTRLA" and "fd \<noteq> 1"
    and "\<And>t n'. taken fd s cs t \<Longrightarrow> runs (take_text n fd n' (if c = CR then acc else acc @ [c])) t (\<lambda>r u. Q r \<and> taken fd t rest u)"
  shows "runs (take_text (Suc n) fd cnt acc) s (\<lambda>r u. Q r \<and> taken fd s rest u)"
  unfolding take_text.simps
proof (rule runs_step[OF rem_read_byte[OF assms(1,2)]], elim conjE)
  fix x t
  assume t: "x = strip7 c" "rem_ok t fd" "rbytes t fd = cs" "side fd t = side fd s"
  have x: "x = c" using t(1) strip7_id[OF assms(3)] by simp
  have K: "runs (take_text n fd n' (if c = CR then acc else acc @ [c])) v (\<lambda>r u. Q r \<and> taken fd s rest u)"
    if "taken fd s cs v" for n' v
    using assms(7)[OF that, of n'] that by (simp add: taken_def)
  have out: "runs (bnd (put_out 1 b) (\<lambda>_. take_text n fd n' (acc @ [c]))) t (\<lambda>r u. Q r \<and> taken fd s rest u)" if "c \<noteq> CR" for b n'
  proof (rule runs_step[OF runs_keeps[OF runs_keeps[OF put_out_returns side_write(2)[of 1 fd]] inq_write(2)[of fd]]])
    fix y v
    assume "(True \<and> side fd v = side fd t) \<and> inq fd v = inq fd t"
    then have "taken fd s cs v" using t inq_eq[of fd v t] side_w_fds[of fd v t] by (simp add: taken_def)
    from K[OF this, of n'] that show "runs (take_text n fd n' (acc @ [c])) v (\<lambda>r u. Q r \<and> taken fd s rest u)" by simp
  qed (use assms(6) in simp)
  have "taken fd s cs t" using t by (simp add: taken_def)
  from K[OF this] out show "runs (if x = NUL \<or> x = CTRLA then ret acc
      else if x = CR then take_text n fd cnt acc
      else if x = NL then bnd (put_out 1 (CR # fmt_d (cnt + 1))) (\<lambda>_. take_text n fd (cnt + 1) (acc @ [x]))
      else take_text n fd cnt (acc @ [x])) t (\<lambda>r u. Q r \<and> taken fd s rest u)"
    using x assms(4,5) by (auto simp: runs_if split: if_splits)
qed

lemma take_text_runs:
  assumes "rem_ok s fd" and "rbytes s fd = crlf t @ CTRLA # rest" and "text_ok t" and "length (crlf t) < n" and "fd \<noteq> 1"
  shows "runs (take_text n fd cnt acc) s (\<lambda>r u. r = acc @ t \<and> taken fd s rest u)"
  using assms
proof (induction t arbitrary: s n cnt acc)
  case Nil
  then obtain m where n: "n = Suc m" by (cases n) auto
  have "strip7 CTRLA = CTRLA" by (rule strip7_id) (simp add: CTRLA_def)
  with Nil.prems show ?case unfolding n take_text.simps
    by (intro runs_step[OF rem_read_byte[OF Nil.prems(1)]]) (auto simp: wp taken_def crlf_def)
next
  case (Cons c t)
  then have c: "of_char c < (128::nat)" "c \<noteq> NUL" "c \<noteq> CTRLA" "c \<noteq> CR" "text_ok t" by (auto simp: text_ok_def)
  have IH: "runs (take_text k fd n' (acc @ [c])) v (\<lambda>r u. r = acc @ c # t \<and> taken fd v rest u)"
    if "taken fd w (crlf t @ CTRLA # rest) v" "length (crlf t) < k" for w v k n'
    using Cons.IH[of v k n' "acc @ [c]"] that c(5) Cons.prems(5) by (simp add: taken_def)
  show ?case
  proof (cases "c = NL")
    case False
    then obtain m where n: "n = Suc m" "length (crlf t) < m" using Cons.prems(4) by (cases n) (auto simp: crlf_def)
    show ?thesis unfolding n(1)
      by (rule take_text_step[OF Cons.prems(1) _ c(1-3) Cons.prems(5)])
        (use False Cons.prems(2) c(4) IH n(2) in \<open>auto simp: crlf_def\<close>)
  next
    case True
    then obtain m where n: "n = Suc (Suc m)" "length (crlf t) < m" using Cons.prems(4)
      by (cases n; cases "n - 1") (auto simp: crlf_def)
    have inner: "runs (take_text (Suc m) fd n' acc) v (\<lambda>r u. r = acc @ c # t \<and> taken fd v rest u)"
      if "taken fd s (NL # crlf t @ CTRLA # rest) v" for v n'
      by (rule take_text_step[OF _ _ c(1-3) Cons.prems(5)]) (use True that c(4) IH n(2) in \<open>auto simp: taken_def[of fd s]\<close>)
    show ?thesis unfolding n(1)
      by (rule take_text_step[of s fd CR "NL # crlf t @ CTRLA # rest"])
        (use Cons.prems True inner in \<open>auto simp: crlf_def CR_def CTRLA_def\<close>)
  qed
qed

text \<open>The line that the user types, and the two file names in it.\<close>

definition typed :: "callc \<Rightarrow> string \<Rightarrow> string \<Rightarrow> bool" where
  "typed s l rest \<longleftrightarrow> w_fds s 0 \<noteq> None \<and> (\<forall>p\<in>set (s_in s 0). p_bytes p \<noteq> []) \<and> arrived s 0 = l @ NL # rest \<and> NL \<notin> set l"

lemma read_byte:
  assumes "w_fds s fd \<noteq> None" and "\<forall>p\<in>set (s_in s fd). p_bytes p \<noteq> []" and "arrived s fd = c # cs"
  shows "runs (sock_read fd 1) s (\<lambda>r t. r = Some [c] \<and> w_fds t = w_fds s \<and> (\<forall>p\<in>set (s_in t fd). p_bytes p \<noteq> []) \<and> arrived t fd = cs)"
proof -
  obtain p ps where ps: "s_in s fd = p # ps" using assms(3) by (cases "s_in s fd") auto
  obtain bs where b: "p_bytes p = c # bs" using assms(2,3) ps by (cases "p_bytes p") auto
  show ?thesis unfolding runs_def sock_read_piece[OF assms(1) ps] using assms(2,3) ps b by (auto simp: take_Suc)
qed

lemma read_cmd_runs:
  assumes "typed s l rest" and "length buf + length l \<le> MAXLINE - 2" and "length l < k"
  shows "runs (read_cmd k buf) s (\<lambda>r t. r = buf @ l)"
  using assms
proof (induction l arbitrary: s k buf)
  case Nil
  then obtain m where k: "k = Suc m" by (cases k) auto
  show ?case unfolding k read_cmd.simps
    by (rule runs_step[OF read_byte]) (use Nil.prems(1) in \<open>auto simp: typed_def wp\<close>)
next
  case (Cons c l)
  then obtain m where k: "k = Suc m" by (cases k) auto
  show ?case unfolding k read_cmd.simps
  proof (rule runs_step[OF read_byte[of s 0 c "l @ NL # rest"]], goal_cases)
    case (4 r t)
    then have "typed t l rest" using Cons.prems(1) by (auto simp: typed_def)
    moreover have "length buf < MAXLINE - 2" "c \<noteq> NL" using Cons.prems(1,2) by (auto simp: typed_def)
    ultimately show ?case using 4 Cons.IH[of t "buf @ [c]" m] Cons.prems k by simp
  qed (use Cons.prems(1) in \<open>auto simp: typed_def\<close>)
qed

lemma read_cmd_frame: "fd \<noteq> 0 \<Longrightarrow> keeps (same (side fd)) (read_cmd k buf)" "fd \<noteq> 0 \<Longrightarrow> keeps (same (inq fd)) (read_cmd k buf)"
  by (induction k arbitrary: buf; unfold read_cmd.simps err_sys_def; intro frame side_read inq_read; simp)+

lemma tcsetattr_frame: "keeps (same (side fd)) (tcsetattr k b t)" "k \<noteq> fd \<Longrightarrow> keeps (same (inq fd)) (tcsetattr k b t)"
  by (auto intro!: keepsI simp: same_def side_def inq_def tcsetattr_def fail_def set_term_def flush_input_def split: option.splits)

lemma tty_frame:
  "keeps (same (side fd)) (tty_reset k)" "k \<noteq> fd \<Longrightarrow> keeps (same (inq fd)) (tty_reset k)"
  "keeps (same (side fd)) (tty_raw k)" "k \<noteq> fd \<Longrightarrow> keeps (same (inq fd)) (tty_raw k)"
  unfolding tty_reset_def tty_raw_def tty_mode_def
  by (intro frame keeps_same_modify tcsetattr_frame; simp add: side_def inq_def)+

lemma tty_reset_returns:
  "runs (tty_reset k) s (\<lambda>_ t. w_fds t = w_fds s \<and> s_wr t = s_wr s \<and> (y_queued s k = 0 \<longrightarrow> s_in t = s_in s))"
  by (auto simp: runs_def tty_reset_def bnd_apply tcsetattr_def fail_def set_term_def flush_input_def split: option.splits)

lemma tty_raw_returns: "runs (tty_raw k) s (\<lambda>_ _. True)"
  by (auto simp: runs_def tty_raw_def tty_mode_def bnd_apply tcsetattr_def fail_def split: option.splits)

lemma prompt_read_runs:
  assumes "typed s l rest" and "length l \<le> MAXLINE - 2" and "y_queued s 0 = 0" and "w_fds s 1 \<noteq> None" and "s_wr s 1 = []"
    and "prompt \<noteq> []" and "fd \<noteq> 0" and "fd \<noteq> 1"
    and "\<And>t. side fd t = side fd s \<Longrightarrow> inq fd t = inq fd s \<Longrightarrow> runs (buf_args l f) t Q"
  shows "runs (prompt_read prompt f) s Q"
  unfolding prompt_read_def
proof (rule runs_step[OF runs_keeps[OF runs_keeps[OF tty_reset_returns tty_frame(1)[of fd]] tty_frame(2)[of 0 fd]]], goal_cases)
  case (2 x t)
  then have t: "w_fds t = w_fds s" "s_wr t = s_wr s" "s_in t = s_in s" "side fd t = side fd s" "inq fd t = inq fd s"
    using assms(3) by auto
  define u where "u = sock_put 1 (Pkt prompt None) t"
  have w: "sock_write 1 prompt t = Ok (int (length prompt)) u"
    unfolding u_def by (rule sock_write_all) (use t assms(4-6) in simp_all)
  have u: "side fd u = side fd s" "inq fd u = inq fd s" "s_in u = s_in s" "w_fds u = w_fds s"
    using t assms(8) by (simp_all add: u_def sock_put_def side_def inq_def)
  let ?k = "Suc (pending_bytes u 0)"
  have "typed u l rest" using u assms(1) by (simp add: typed_def)
  then have rd: "runs (read_cmd ?k []) u (\<lambda>r v. r = l)"
    using read_cmd_runs[of u l rest "[]" ?k] assms(2) by (simp add: pending_bytes_def typed_def)
  have "runs (bnd (read_cmd ?k []) (\<lambda>buf. bnd (tty_raw 0) (\<lambda>_. buf_args buf f))) u Q"
  proof (rule runs_step[OF runs_keeps[OF runs_keeps[OF rd read_cmd_frame(1)[of fd]] read_cmd_frame(2)[of fd]]], goal_cases)
    case (3 b v)
    show ?case
      by (rule runs_step[OF runs_keeps[OF runs_keeps[OF tty_raw_returns tty_frame(3)[of fd]] tty_frame(4)[of 0 fd]]])
        (use 3 u assms(7,9) in auto)
  qed (use assms(7) in simp_all)
  then show ?case by (simp only: runs_bnd runs_Ok[of "sock_write 1 prompt", OF w]) (simp add: wp)
qed (use assms(7) in simp)

lemma arg_vector_NUL: "is_cstr b \<Longrightarrow> arg_vector (b @ [NUL]) = arg_vector b"
  unfolding arg_vector_def strtok_def cstr_id cstr_append_nul ..

lemma take_put_args_two:
  assumes "word_ok src" and "word_ok dst"
  shows "buf_args (src @ '' '' @ dst) take_put_args t = Ok 0 (t\<lparr>c_src := src, c_dst := dst\<rparr>)"
proof -
  have "arg_vector ((src @ '' '' @ dst) @ [NUL]) = Some [src, dst]"
    using arg_vector_words[of src "[]" dst] assms by (simp add: unwords_def MAXARGC_def)
  moreover have "is_cstr (src @ '' '' @ dst)" using assms by (simp add: word_ok_def)
  ultimately have "arg_vector (src @ '' '' @ dst) = Some [src, dst]" using arg_vector_NUL by metis
  then show ?thesis by (simp add: buf_args_def take_put_args_def)
qed

text \<open>What follows the prompt: the file has been opened and the command is sent.\<close>

definition take_body :: "int \<Rightarrow> string \<Rightarrow> string \<Rightarrow> nat \<Rightarrow> (unit, callc) prog" where
  "take_body remfd src dst lim =
     bnd (sock_write remfd (take_command src)) (\<lambda>n.
     if n \<noteq> int (length (take_command src)) then err_sys ''write error''
     else bnd (modify (\<lambda>s. s\<lparr>c_rem := []\<rparr>)) (\<lambda>_.
     bnd (gets (rem_fuel remfd)) (\<lambda>k.
     bnd (take_echo k remfd) (\<lambda>ok.
     if \<not> ok then ret ()
     else bnd (gets (rem_fuel remfd)) (\<lambda>k.
     bnd (take_text k remfd 0 []) (\<lambda>t.
     bnd (modify (set_bytes dst (take lim t))) (\<lambda>_.
     bnd (if length t > lim then err_note False ''output error to local file'' else ret ()) (\<lambda>_.
     put_out remfd [NL]))))))))"

lemma take_file_alt:
  "take_file remfd =
     bnd (prompt_read ''~[take] '' take_put_args) (\<lambda>r.
     if r < 0 then put_out 1 (''usage: [take] <sourcefile> <destfile>'' @ [NL, CR])
     else bnd (gets (\<lambda>s. (c_src s, c_dst s, w_denied s (c_dst s), w_limit s))) (\<lambda>(src, dst, bad, lim).
     if bad then bnd (modify (\<lambda>s. s\<lparr>w_errno := EACCES\<rparr>)) (\<lambda>_. err_note True (''can't open '' @ dst @ '' for writing''))
     else bnd (modify (set_bytes dst [])) (\<lambda>_.
     if length (take_command src) \<ge> MAXLINE then stop_with (Undefined ''cmd overflow'')
     else take_body remfd src dst lim)))"
  by (simp only: take_file_def take_body_def)

lemma rem_fuel_enough: "rem_ok s fd \<Longrightarrow> rbytes s fd = a @ b # cs \<Longrightarrow> length a < rem_fuel fd s"
  unfolding rem_fuel_def pending_bytes_def rbytes_def by (drule arg_cong[where f = length]) simp

lemma take_body_runs:
  assumes "w_fds s fd \<noteq> None" and "s_wr s fd = []" and "\<forall>p\<in>set (s_in s fd). p_bytes p \<noteq> []"
    and "arrived s fd = e @ NL # crlf t @ CTRLA # rest" and "\<forall>c\<in>set e. strip7 c \<noteq> NUL \<and> strip7 c \<noteq> NL"
    and "text_ok t" and "length t \<le> lim" and "fd \<noteq> 1"
  shows "runs (take_body fd src dst lim) s (\<lambda>_ u. w_files u = (w_files s)(dst \<mapsto> t) \<and>
    sent u fd = sent s fd @ take_command src @ [NL])"
proof -
  define s1 where "s1 = sock_put fd (Pkt (take_command src) None) s\<lparr>c_rem := []\<rparr>"
  have w: "sock_write fd (take_command src) s = Ok (int (length (take_command src))) (sock_put fd (Pkt (take_command src) None) s)"
    by (rule sock_write_all) (use assms(1,2) in \<open>simp_all add: take_command_def\<close>)
  have s1: "rem_ok s1 fd" "rbytes s1 fd = e @ NL # crlf t @ CTRLA # rest" "w_files s1 = w_files s" "s_wr s1 fd = []"
      "w_fds s1 fd \<noteq> None" "sent s1 fd = sent s fd @ take_command src"
    using assms(1-4) by (simp_all add: s1_def rem_ok_def rbytes_def sock_put_def)
  have "runs (bnd (take_echo (rem_fuel fd s1) fd) (\<lambda>ok. if \<not> ok then ret ()
     else bnd (gets (rem_fuel fd)) (\<lambda>k. bnd (take_text k fd 0 []) (\<lambda>t.
     bnd (modify (set_bytes dst (take lim t))) (\<lambda>_.
     bnd (if length t > lim then err_note False ''output error to local file'' else ret ()) (\<lambda>_.
     put_out fd [NL])))))) s1 (\<lambda>_ u. w_files u = (w_files s)(dst \<mapsto> t) \<and> sent u fd = sent s fd @ take_command src @ [NL])"
  proof (rule runs_step[OF take_echo_runs[OF s1(1,2) assms(5) rem_fuel_enough[OF s1(1,2)]]], elim conjE)
    fix ok v
    assume ok: ok and v: "taken fd s1 (crlf t @ CTRLA # rest) v"
    then have v': "rem_ok v fd" "rbytes v fd = crlf t @ CTRLA # rest" "side fd v = side fd s1" by (simp_all add: taken_def)
    have "runs (bnd (take_text (rem_fuel fd v) fd 0 []) (\<lambda>t. bnd (modify (set_bytes dst (take lim t))) (\<lambda>_.
       bnd (if length t > lim then err_note False ''output error to local file'' else ret ()) (\<lambda>_.
       put_out fd [NL])))) v (\<lambda>_ u. w_files u = (w_files s)(dst \<mapsto> t) \<and> sent u fd = sent s fd @ take_command src @ [NL])"
    proof (rule runs_step[OF take_text_runs[OF v'(1,2) assms(6) rem_fuel_enough[OF v'(1,2)] assms(8)]], elim conjE)
      fix r x
      assume "r = [] @ t" and "taken fd v rest x"
      then have x: "r = t" "w_files x = w_files s" "s_wr x fd = []" "w_fds x fd \<noteq> None" "sent x fd = sent s fd @ take_command src"
        using v'(3) s1 by (simp_all add: taken_def side_def)
      have "sock_write fd [NL] (set_bytes dst t x) = Ok 1 (sock_put fd (Pkt [NL] None) (set_bytes dst t x))"
        using x sock_write_all[of "set_bytes dst t x" fd "[NL]"] by (simp add: set_bytes_def)
      then show "runs (bnd (modify (set_bytes dst (take lim r))) (\<lambda>_.
          bnd (if length r > lim then err_note False ''output error to local file'' else ret ()) (\<lambda>_. put_out fd [NL]))) x
          (\<lambda>_ u. w_files u = (w_files s)(dst \<mapsto> t) \<and> sent u fd = sent s fd @ take_command src @ [NL])"
        using x assms(7) by (simp add: wp put_out_def runs_Ok) (simp add: set_bytes_def sock_put_def)
    qed
    then show "runs (if \<not> ok then ret () else bnd (gets (rem_fuel fd)) (\<lambda>k. bnd (take_text k fd 0 []) (\<lambda>t.
       bnd (modify (set_bytes dst (take lim t))) (\<lambda>_.
       bnd (if length t > lim then err_note False ''output error to local file'' else ret ()) (\<lambda>_.
       put_out fd [NL]))))) v (\<lambda>_ u. w_files u = (w_files s)(dst \<mapsto> t) \<and> sent u fd = sent s fd @ take_command src @ [NL])"
      using ok by (simp only: runs_bnd[of "gets _"] runs_gets not_True_eq_False if_False)
  qed
  then show ?thesis unfolding take_body_def runs_bnd[of "sock_write _ _"] runs_Ok[of "sock_write _ _", OF w]
    by (simp only: runs_bnd[of "modify _"] runs_modify runs_bnd[of "gets _"] runs_gets s1_def not_True_eq_False if_False simp_thms)
qed

text \<open>
  C32. The take command fetches a file: the user types the two names, the host echoes the command
  line and types the file, with a carriage return before each newline, and the end mark. Then the
  local file holds exactly the text of the remote file, however the line cut it into pieces, no
  other file has changed, and the host has been sent the command and a final newline.
\<close>

theorem take_recovers_file:
  assumes "typed s (src @ '' '' @ dst) later" and "length src + length dst < MAXLINE - 100" and "word_ok src" and "word_ok dst"
    and "y_queued s 0 = 0" and "w_fds s 1 \<noteq> None" and "s_wr s 1 = []" and "remfd \<noteq> 0" and "remfd \<noteq> 1"
    and "w_fds s remfd \<noteq> None" and "s_wr s remfd = []" and "\<not> w_denied s dst"
    and "\<forall>p\<in>set (s_in s remfd). p_bytes p \<noteq> []" and "arrived s remfd = e @ NL # crlf t @ CTRLA # rest"
    and "\<forall>c\<in>set e. strip7 c \<noteq> NUL \<and> strip7 c \<noteq> NL" and "text_ok t" and "length t \<le> w_limit s"
  shows "\<exists>u. take_file remfd s = Ok () u \<and> w_files u = (w_files s)(dst \<mapsto> t) \<and>
    sent u remfd = sent s remfd @ take_command src @ [NL]"
proof -
  let ?Q = "\<lambda>u. w_files u = (w_files s)(dst \<mapsto> t) \<and> sent u remfd = sent s remfd @ take_command src @ [NL]"
  have "runs (take_file remfd) s (\<lambda>_. ?Q)"
    unfolding take_file_alt runs_bnd[of "prompt_read _ _"]
  proof (rule prompt_read_runs[OF assms(1) _ assms(5-7) _ assms(8,9)], goal_cases)
    case (3 v)
    let ?v = "set_bytes dst [] (v\<lparr>c_src := src, c_dst := dst\<rparr>)"
    have "length (take_command src) < MAXLINE" using assms(2) by (simp add: take_command_def MAXLINE_def)
    moreover have "runs (take_body remfd src dst (w_limit s)) ?v
        (\<lambda>_ u. w_files u = (w_files ?v)(dst \<mapsto> t) \<and> sent u remfd = sent ?v remfd @ take_command src @ [NL])"
      by (rule take_body_runs[OF _ _ _ _ assms(15-17,9)]) (use 3 assms(10-14) in \<open>simp_all add: side_def inq_def set_bytes_def\<close>)
    then have "runs (take_body remfd src dst (w_limit s)) ?v (\<lambda>_. ?Q)"
      by (rule runs_conseq) (use 3 in \<open>simp add: side_def set_bytes_def\<close>)
    ultimately show ?case
      using 3 assms(12) unfolding runs_Ok[of "buf_args _ _", OF take_put_args_two[OF assms(3,4)]]
      by (simp add: wp side_def)
  qed (use assms(2) in \<open>simp_all add: MAXLINE_def\<close>)
  then show ?thesis by (auto simp: runs_iff)
qed

definition callc_take :: callc where
  "callc_take = callc0\<lparr>s_in := (\<lambda>_. [])(0 := [Pkt ''a b'' None, Pkt [NL] None],
     5 := [Pkt ''cat a'' None, Pkt ([CR, NL] @ ''one'' @ [CR]) None, Pkt [NL, CHR ''2'', CR, NL, CTRLA] None])\<rparr>"

theorem take_recovers_file_witness:
  "\<exists>u. take_file 5 callc_take = Ok () u \<and> w_files u ''b'' = Some (''one'' @ [NL] @ ''2'' @ [NL]) \<and>
    sent u 5 = ''cat a; echo '' @ [CTRLA, CR, NL]"
proof -
  have "typed callc_take (''a'' @ '' '' @ ''b'') []" by (simp add: typed_def callc_take_def callc0_def)
  moreover have "arrived callc_take 5 = (''cat a'' @ [CR]) @ NL # crlf (''one'' @ [NL] @ ''2'' @ [NL]) @ CTRLA # []"
    by (simp add: callc_take_def crlf_def)
  moreover have "text_ok (''one'' @ [NL] @ ''2'' @ [NL])" by (simp add: text_ok_def CTRLA_def CR_def)
  moreover have "\<forall>c\<in>set (''cat a'' @ [CR]). strip7 c \<noteq> NUL \<and> strip7 c \<noteq> NL"
    by (simp add: strip7_id CR_def)
  moreover have "word_ok ''a''" "word_ok ''b''" by (simp_all add: word_ok_def WHITE_def is_cstr_def)
  ultimately show ?thesis
    using take_recovers_file[of callc_take "''a''" "''b''" "[]" 5 "''cat a'' @ [CR]" "''one'' @ [NL] @ ''2'' @ [NL]" "[]"]
    by (simp add: callc_take_def callc0_def MAXLINE_def take_command_def) (elim exE conjE, intro exI conjI, assumption, simp_all)
qed

end
