(* ===== verification/Proc_Model.thy ===== *)
theory Proc_Model
  imports Term
begin

text \<open>
  Processes and signals: \<^verbatim>\<open>func.c\<close>, \<^verbatim>\<open>sig_func.c\<close>, \<^verbatim>\<open>ystem.c\<close>, \<^verbatim>\<open>system-func.c\<close>,
  \<^verbatim>\<open>pipe-func.c\<close> (\<open>popen\<close> and \<open>pclose\<close>), \<^verbatim>\<open>daemon-func.c\<close> and \<^verbatim>\<open>spipe_func.c\<close>.

  The state is that of the calling process. A \<open>fork\<close> is given the program of the child, which
  runs on a copy of the state without pending signals; what becomes of the child (the program it executes or its exit
  status, with the signal dispositions, signal mask and descriptors it has then) is a \<open>kid\<close>.
  \<open>p_pids\<close> are the process IDs the system will hand out, none left makes \<open>fork\<close> fail.
  \<open>p_wait\<close> lists what successive calls of \<open>waitpid\<close> meet: interruptions by a signal and the
  status of the child; the \<open>SIGCHLD\<close> that goes with it is not modelled. \<open>p_seen\<close> records under which dispositions and mask each of them waited.
\<close>

datatype handler = SIG_DFL | SIG_IGN | Catch string

record sigact =
  sa_handler :: handler
  sa_mask :: "int set"
  sa_flags :: int

datatype image = Exec string "string list" | Exited int

record kid =
  kd_pid :: int
  kd_image :: image
  kd_act :: "int \<Rightarrow> sigact"
  kd_mask :: "int set"
  kd_fds :: "int \<Rightarrow> ofile option"

datatype wevent = Intr | Status int

datatype limit = Limit int | Indeterminate | LimitError

record proc = tty +
  p_act :: "int \<Rightarrow> sigact"
  p_pend :: "int set"
  p_caught :: "(int \<times> string) list"    \<comment> \<open>handlers that have run\<close>
  p_flushed :: bool                    \<comment> \<open>standard I/O streams have been flushed\<close>
  p_pids :: "int list"
  p_kids :: "kid list"
  p_wait :: "int \<Rightarrow> wevent list"
  p_seen :: "((int \<Rightarrow> sigact) \<times> int set) list"
  p_progs :: "string \<Rightarrow> bool"           \<comment> \<open>the files that can be executed\<close>
  p_cwd :: string
  p_umask :: int
  p_leader :: bool                     \<comment> \<open>leads its session\<close>
  p_npipe :: nat                       \<comment> \<open>pipes made so far\<close>
  p_openmax :: int
  p_pathmax :: int
  p_sysconf :: limit
  p_pathconf :: limit
  p_childpid :: "int list option"
  p_maxfd :: int

subsection \<open>Signals\<close>

definition SIGQUIT :: int where "SIGQUIT = 3"
definition SIGABRT :: int where "SIGABRT = 6"
definition SIGKILL :: int where "SIGKILL = 9"
definition SIGUSR1 :: int where "SIGUSR1 = 10"
definition SIGUSR2 :: int where "SIGUSR2 = 12"
definition SIGALRM :: int where "SIGALRM = 14"
definition SIGTERM :: int where "SIGTERM = 15"
definition SIGCHLD :: int where "SIGCHLD = 17"
definition SIGSTOP :: int where "SIGSTOP = 19"
definition SIGCONT :: int where "SIGCONT = 18"
definition SIGTTIN :: int where "SIGTTIN = 21"
definition SIGTTOU :: int where "SIGTTOU = 22"
definition SIGURG :: int where "SIGURG = 23"
definition SIGWINCH :: int where "SIGWINCH = 28"
definition NSIG :: int where "NSIG = 65"
definition SA_RESTART :: int where "SA_RESTART = 0x10000000"

lemmas sig_defs = SIGINT_def SIGTSTP_def SIGQUIT_def SIGABRT_def SIGKILL_def SIGUSR1_def SIGUSR2_def SIGALRM_def
  SIGTERM_def SIGCHLD_def SIGSTOP_def SIGCONT_def SIGTTIN_def SIGTTOU_def SIGURG_def SIGWINCH_def NSIG_def

definition can_catch :: "int \<Rightarrow> bool" where
  "can_catch signo \<longleftrightarrow> 0 < signo \<and> signo < NSIG \<and> signo \<noteq> SIGKILL \<and> signo \<noteq> SIGSTOP"

text \<open>\<open>sigaction\<close> with a new action: -1 for a signal that cannot be caught.\<close>

definition sigaction :: "int \<Rightarrow> sigact \<Rightarrow> (int, 'a proc_scheme) prog" where
  "sigaction signo act = (\<lambda>s.
     if can_catch signo then Ok 0 (s\<lparr>p_act := (p_act s)(signo := act)\<rparr>) else fail EINVAL s)"

text \<open>A signal that is delivered: ignored, caught, or the end of the process.\<close>

definition sig_ignored :: "int \<Rightarrow> bool" where
  "sig_ignored signo \<longleftrightarrow> signo \<in> {SIGCHLD, SIGCONT, SIGURG, SIGWINCH}"

definition sig_stops :: "int \<Rightarrow> bool" where
  "sig_stops signo \<longleftrightarrow> signo \<in> {SIGTSTP, SIGTTIN, SIGTTOU}"

definition take_sig :: "int \<Rightarrow> (unit, proc) prog" where
  "take_sig signo =
     bnd (gets (\<lambda>s. sa_handler (p_act s signo))) (\<lambda>h. case h of
       SIG_IGN \<Rightarrow> ret ()
     | SIG_DFL \<Rightarrow>
         if sig_ignored signo then ret ()
         else if sig_stops signo then stop_with (Blocked ''stopped'')
         else stop_with (Abort ''signal'')
     | Catch f \<Rightarrow> modify (\<lambda>s. s\<lparr>p_caught := p_caught s @ [(signo, f)]\<rparr>))"

text \<open>\<open>kill\<close> on the process itself: the signal is delivered before \<open>kill\<close> returns, or pending.\<close>

definition kill_self :: "int \<Rightarrow> (unit, proc) prog" where
  "kill_self signo =
     bnd (gets (\<lambda>s. signo \<in> y_mask s)) (\<lambda>blocked.
     if blocked then modify (\<lambda>s. s\<lparr>p_pend := insert signo (p_pend s)\<rparr>) else take_sig signo)"

text \<open>A new signal mask: the signals that it lets through are delivered, lowest number first.\<close>

fun take_all :: "int list \<Rightarrow> (unit, proc) prog" where
  "take_all [] = ret ()"
| "take_all (g # gs) = bnd (take_sig g) (\<lambda>_. take_all gs)"

definition set_mask :: "int set \<Rightarrow> (int, proc) prog" where
  "set_mask m =
     bnd (gets (\<lambda>s. filter (\<lambda>g. g \<in> p_pend s \<and> g \<notin> m) [1..NSIG - 1])) (\<lambda>gs.
     bnd (modify (\<lambda>s. s\<lparr>y_mask := m - {SIGKILL, SIGSTOP}, p_pend := p_pend s - set gs\<rparr>)) (\<lambda>_.
     bnd (take_all gs) (\<lambda>_. ret 0)))"

text \<open>\<open>pr_mask\<close>: the text it prints.\<close>

definition pr_mask_text :: "string \<Rightarrow> int set \<Rightarrow> string" where
  "pr_mask_text str m =
     str @ (if SIGINT \<in> m then ''SIGINT '' else []) @ (if SIGQUIT \<in> m then ''SIGQUIT '' else []) @
     (if SIGUSR1 \<in> m then ''SIGUSR1 '' else []) @ (if SIGALRM \<in> m then ''SIGALRM '' else []) @ [NL]"

definition pr_mask :: "string \<Rightarrow> (unit, proc) prog" where
  "pr_mask str =
     bnd (gets w_errno) (\<lambda>errno_save.
     bnd (gets y_mask) (\<lambda>m.
     bnd (sock_write 1 (pr_mask_text str m)) (\<lambda>_.
     modify (\<lambda>s. s\<lparr>w_errno := errno_save\<rparr>))))"

text \<open>\<open>signal\<close> and \<open>signal_intr\<close>: the previous handler, \<open>None\<close> for \<open>SIG_ERR\<close>.\<close>

definition signal_act :: "int \<Rightarrow> sigact \<Rightarrow> (handler option, 'a proc_scheme) prog" where
  "signal_act signo act =
     bnd (gets (\<lambda>s. sa_handler (p_act s signo))) (\<lambda>old.
     bnd (sigaction signo act) (\<lambda>r. ret (if r < 0 then None else Some old)))"

definition signal :: "int \<Rightarrow> handler \<Rightarrow> (handler option, 'a proc_scheme) prog" where
  "signal signo f =
     signal_act signo \<lparr>sa_handler = f, sa_mask = {}, sa_flags = (if signo = SIGALRM then 0 else SA_RESTART)\<rparr>"

definition signal_intr :: "int \<Rightarrow> handler \<Rightarrow> (handler option, 'a proc_scheme) prog" where
  "signal_intr signo f = signal_act signo \<lparr>sa_handler = f, sa_mask = {}, sa_flags = 0\<rparr>"

text \<open>\<open>abort\<close>, up to the \<open>exit\<close> that it should never reach.\<close>

definition flush_all :: "(unit, proc) prog" where
  "flush_all = modify (\<lambda>s. s\<lparr>p_flushed := True\<rparr>)"

definition abort :: "(unit, proc) prog" where
  "abort =
     bnd (gets (\<lambda>s. p_act s SIGABRT)) (\<lambda>a.
     bnd (if sa_handler a = SIG_IGN then sigaction SIGABRT (a\<lparr>sa_handler := SIG_DFL\<rparr>) else ret 0) (\<lambda>_.
     bnd (if sa_handler a = SIG_IGN \<or> sa_handler a = SIG_DFL then flush_all else ret ()) (\<lambda>_.
     bnd (set_mask ({1..<NSIG} - {SIGABRT})) (\<lambda>_.
     bnd (kill_self SIGABRT) (\<lambda>_.
     bnd flush_all (\<lambda>_.
     bnd (sigaction SIGABRT (a\<lparr>sa_handler := SIG_DFL\<rparr>)) (\<lambda>_.
     bnd (set_mask ({1..<NSIG} - {SIGABRT})) (\<lambda>_.
     bnd (kill_self SIGABRT) (\<lambda>_.
     stop_with (Exit 1 []))))))))))"

subsection \<open>Processes\<close>

text \<open>\<open>fork\<close>, given the program of the child.\<close>

definition fork :: "(image, 'a proc_scheme) prog \<Rightarrow> (int, 'a proc_scheme) prog" where
  "fork child = (\<lambda>s. case p_pids s of
     [] \<Rightarrow> fail EAGAIN s
   | p # ps \<Rightarrow>
       (let r = child (s\<lparr>p_pend := {}\<rparr>); t = final r;
            im = (case r of Ok im _ \<Rightarrow> im | Halt (Exit n _) _ \<Rightarrow> Exited n | Halt _ _ \<Rightarrow> Exited 255) in
        Ok p (s\<lparr>p_pids := ps,
                p_kids := p_kids s @ [\<lparr>kd_pid = p, kd_image = im, kd_act = p_act t, kd_mask = y_mask t, kd_fds = w_fds t\<rparr>]\<rparr>)))"

definition resolve :: "string \<Rightarrow> string \<Rightarrow> string" where
  "resolve cwd p = (if p \<noteq> [] \<and> hd p = CHR ''/'' then p else cwd @ ''/'' @ p)"

text \<open>\<open>execl\<close>: the new image, or \<open>None\<close> when it returns. The root directory is the empty string.\<close>

definition execl :: "string \<Rightarrow> string list \<Rightarrow> (image option, 'a proc_scheme) prog" where
  "execl path argv = gets (\<lambda>s. if p_progs s (resolve (p_cwd s) path) then Some (Exec (resolve (p_cwd s) path) argv) else None)"

definition exec_or :: "string \<Rightarrow> string list \<Rightarrow> (image, 'a proc_scheme) prog \<Rightarrow> (image, 'a proc_scheme) prog" where
  "exec_or path argv otherwise = bnd (execl path argv) (\<lambda>r. case r of Some im \<Rightarrow> ret im | None \<Rightarrow> otherwise)"

definition waitpid :: "int \<Rightarrow> (int option, proc) prog" where
  "waitpid pid =
     bnd (modify (\<lambda>s. s\<lparr>p_seen := p_seen s @ [(p_act s, y_mask s)]\<rparr>)) (\<lambda>_.
     bnd (gets (\<lambda>s. p_wait s pid)) (\<lambda>es. case es of
       [] \<Rightarrow> bnd (modify (\<lambda>s. s\<lparr>w_errno := ECHILD\<rparr>)) (\<lambda>_. ret None)
     | Intr # es' \<Rightarrow> bnd (modify (\<lambda>s. s\<lparr>w_errno := EINTR, p_wait := (p_wait s)(pid := es')\<rparr>)) (\<lambda>_. ret None)
     | Status n # es' \<Rightarrow> bnd (modify (\<lambda>s. s\<lparr>p_wait := (p_wait s)(pid := [])\<rparr>)) (\<lambda>_. ret (Some n))))"

text \<open>The loop that waits again after an interruption; it makes a round per entry of \<open>p_wait\<close>.\<close>

fun wait_loop :: "nat \<Rightarrow> int \<Rightarrow> (int, proc) prog" where
  "wait_loop 0 pid = stop_with (Diverges ''waitpid'')"
| "wait_loop (Suc n) pid =
     bnd (waitpid pid) (\<lambda>r. case r of
       Some st \<Rightarrow> ret st
     | None \<Rightarrow> bnd (gets w_errno) (\<lambda>e. if e \<noteq> EINTR then ret (-1) else wait_loop n pid))"

definition wait_for :: "int \<Rightarrow> (int, proc) prog" where
  "wait_for pid = bnd (gets (\<lambda>s. Suc (length (p_wait s pid)))) (\<lambda>n. wait_loop n pid)"

definition SH :: string where "SH = ''/bin/sh''"

text \<open>\<open>system\<close> without signal handling.\<close>

definition system0 :: "string option \<Rightarrow> (int, proc) prog" where
  "system0 cmdstring = (case cmdstring of
     None \<Rightarrow> ret 1
   | Some cmd \<Rightarrow>
       bnd (fork (exec_or SH [''sh'', ''-c'', cmd] (ret (Exited 127)))) (\<lambda>pid.
       if pid < 0 then ret (-1) else wait_for pid))"

text \<open>\<open>system\<close> with signal handling.\<close>

definition ignore_act :: sigact where
  "ignore_act = \<lparr>sa_handler = SIG_IGN, sa_mask = {}, sa_flags = 0\<rparr>"

definition system_child :: "string \<Rightarrow> sigact \<Rightarrow> sigact \<Rightarrow> int set \<Rightarrow> (image, proc) prog" where
  "system_child cmd saveintr savequit savemask =
     bnd (sigaction SIGINT saveintr) (\<lambda>_.
     bnd (sigaction SIGQUIT savequit) (\<lambda>_.
     bnd (set_mask savemask) (\<lambda>_.
     exec_or SH [''sh'', ''-c'', cmd] (ret (Exited 127)))))"

definition system :: "string option \<Rightarrow> (int, proc) prog" where
  "system cmdstring = (case cmdstring of
     None \<Rightarrow> ret 1
   | Some cmd \<Rightarrow>
       bnd (gets (\<lambda>s. (p_act s SIGINT, p_act s SIGQUIT, y_mask s))) (\<lambda>(saveintr, savequit, savemask).
       bnd (sigaction SIGINT ignore_act) (\<lambda>r.
       if r < 0 then ret (-1)
       else bnd (sigaction SIGQUIT ignore_act) (\<lambda>r.
       if r < 0 then ret (-1)
       else bnd (set_mask (insert SIGCHLD savemask)) (\<lambda>r.
       if r < 0 then ret (-1)
       else bnd (fork (system_child cmd saveintr savequit savemask)) (\<lambda>pid.
       bnd (if pid < 0 then ret (-1) else wait_for pid) (\<lambda>status.
       bnd (sigaction SIGINT saveintr) (\<lambda>r.
       if r < 0 then ret (-1)
       else bnd (sigaction SIGQUIT savequit) (\<lambda>r.
       if r < 0 then ret (-1)
       else bnd (set_mask savemask) (\<lambda>r.
       if r < 0 then ret (-1) else ret status))))))))))"

text \<open>\<open>daemon_init\<close>: the parent exits, what is modelled is the child; \<open>None\<close> for a directory that is missing.\<close>

definition daemon_init :: "bool \<Rightarrow> (int, proc) prog" where
  "daemon_init root_ok =
     bnd (gets p_pids) (\<lambda>ps.
     if ps = [] then ret (-1)
     else bnd (modify (\<lambda>s. s\<lparr>s_pid := hd ps, p_pids := tl ps, p_leader := True\<rparr>)) (\<lambda>_.
     if \<not> root_ok then ret (-1)
     else bnd (modify (\<lambda>s. s\<lparr>p_cwd := [], p_umask := 0\<rparr>)) (\<lambda>_. ret 0)))"

subsection \<open>Limits and exit codes\<close>

definition PATH_MAX_GUESS :: int where "PATH_MAX_GUESS = 1024"
definition OPEN_MAX_GUESS :: int where "OPEN_MAX_GUESS = 256"

text \<open>
  \<open>open_max\<close> and the size part of \<open>path_alloc\<close>, which ask the system once, when the static
  variable is still 0. The result of \<open>path_alloc\<close> is the size of the block it allocates.
\<close>

definition open_max :: "(int, 'a proc_scheme) prog" where
  "open_max =
     bnd (gets (\<lambda>s. (p_openmax s, p_sysconf s))) (\<lambda>(m, lim).
     if m \<noteq> 0 then ret m
     else (case lim of
         Limit n \<Rightarrow> bnd (modify (\<lambda>s. s\<lparr>p_openmax := n\<rparr>)) (\<lambda>_. ret n)
       | Indeterminate \<Rightarrow> bnd (modify (\<lambda>s. s\<lparr>p_openmax := OPEN_MAX_GUESS\<rparr>)) (\<lambda>_. ret OPEN_MAX_GUESS)
       | LimitError \<Rightarrow> err_sys ''sysconf error for _SC_OPEN_MAX''))"

definition path_alloc :: "(nat, 'a proc_scheme) prog" where
  "path_alloc =
     bnd (gets (\<lambda>s. (p_pathmax s, p_pathconf s))) (\<lambda>(m, lim).
     bnd (if m \<noteq> 0 then ret m
          else (case lim of
              Limit n \<Rightarrow> bnd (modify (\<lambda>s. s\<lparr>p_pathmax := n + 1\<rparr>)) (\<lambda>_. ret (n + 1))
            | Indeterminate \<Rightarrow> bnd (modify (\<lambda>s. s\<lparr>p_pathmax := PATH_MAX_GUESS\<rparr>)) (\<lambda>_. ret PATH_MAX_GUESS)
            | LimitError \<Rightarrow> err_sys ''pathconf err for _PC_PATH_MAX'')) (\<lambda>m.
     bnd (sys_malloc (nat (m + 1))) (\<lambda>ok.
     if \<not> ok then err_sys ''malloc error for pathname'' else ret (nat (m + 1)))))"

definition WIFEXITED :: "int \<Rightarrow> bool" where "WIFEXITED st \<longleftrightarrow> st AND 0x7F = 0"
definition WEXITSTATUS :: "int \<Rightarrow> int" where "WEXITSTATUS st = drop_bit 8 st AND 0xFF"
definition WTERMSIG :: "int \<Rightarrow> int" where "WTERMSIG st = st AND 0x7F"
definition WIFSIGNALED :: "int \<Rightarrow> bool" where "WIFSIGNALED st \<longleftrightarrow> st AND 0x7F \<noteq> 0 \<and> st AND 0x7F \<noteq> 0x7F"
definition WCOREDUMP :: "int \<Rightarrow> bool" where "WCOREDUMP st \<longleftrightarrow> st AND 0x80 \<noteq> 0"
definition WIFSTOPPED :: "int \<Rightarrow> bool" where "WIFSTOPPED st \<longleftrightarrow> st AND 0xFF = 0x7F"

lemmas wstatus_defs = WIFEXITED_def WEXITSTATUS_def WTERMSIG_def WIFSIGNALED_def WCOREDUMP_def WIFSTOPPED_def

definition pr_exit_text :: "int \<Rightarrow> string" where
  "pr_exit_text st =
     (if WIFEXITED st then ''normal terminatiion, exit status = '' @ fmt_d (WEXITSTATUS st) @ [NL]
      else if WIFSIGNALED st
      then ''abnormal termination, signal number = '' @ fmt_d (WTERMSIG st) @
           (if WCOREDUMP st then '' (core file generated) '' else []) @ [NL]
      else if WIFSTOPPED st then ''child stopped, signal number = '' @ fmt_d (WEXITSTATUS st) @ [NL]
      else [])"

definition pr_exit :: "int \<Rightarrow> (unit, proc) prog" where
  "pr_exit st = bnd (sock_write 1 (pr_exit_text st)) (\<lambda>_. ret ())"

subsection \<open>popen and pclose\<close>

text \<open>
  A pipe has a name of its own; its two ends are the lowest two free descriptors. \<open>dup2\<close> is
  called on descriptors that are open.
\<close>

definition pipe_name :: "nat \<Rightarrow> string" where
  "pipe_name n = ''pipe:'' @ dec n"

definition sys_pipe :: "((int \<times> int) option, proc) prog" where
  "sys_pipe = (\<lambda>s.
     case new_fd s of
       None \<Rightarrow> Ok None (s\<lparr>w_errno := EMFILE\<rparr>)
     | Some r \<Rightarrow>
         (let t = s\<lparr>w_fds := (w_fds s)(r \<mapsto> \<lparr>o_path = pipe_name (p_npipe s), o_pos = 0, o_oflag = O_RDONLY\<rparr>)\<rparr> in
          case new_fd t of
            None \<Rightarrow> Ok None (s\<lparr>w_errno := EMFILE\<rparr>)
          | Some w \<Rightarrow> Ok (Some (r, w))
              (t\<lparr>w_fds := (w_fds t)(w \<mapsto> \<lparr>o_path = pipe_name (p_npipe s), o_pos = 0, o_oflag = O_WRONLY\<rparr>),
                 p_npipe := Suc (p_npipe s)\<rparr>)))"

text \<open>\<open>s_pipe\<close>: both ends can be read and written.\<close>

definition s_pipe :: "((int \<times> int) option, 'a proc_scheme) prog" where
  "s_pipe = (\<lambda>s.
     case new_fd s of
       None \<Rightarrow> Ok None (s\<lparr>w_errno := EMFILE\<rparr>)
     | Some r \<Rightarrow>
         (let t = s\<lparr>w_fds := (w_fds s)(r \<mapsto> \<lparr>o_path = pipe_name (p_npipe s) @ '':0'', o_pos = 0, o_oflag = O_RDWR\<rparr>)\<rparr> in
          case new_fd t of
            None \<Rightarrow> Ok None (s\<lparr>w_errno := EMFILE\<rparr>)
          | Some w \<Rightarrow> Ok (Some (r, w))
              (t\<lparr>w_fds := (w_fds t)(w \<mapsto> \<lparr>o_path = pipe_name (p_npipe s) @ '':1'', o_pos = 0, o_oflag = O_RDWR\<rparr>),
                 p_npipe := Suc (p_npipe s)\<rparr>)))"

definition dup2 :: "int \<Rightarrow> int \<Rightarrow> (int, 'a world_scheme) prog" where
  "dup2 old new = (\<lambda>s.
     if w_fds s old = None then fail EBADF s
     else Ok new (s\<lparr>w_fds := (w_fds s)(new := w_fds s old)\<rparr>))"

definition SHELL :: string where "SHELL = ''bin/sh''"
definition sizeof_pid :: nat where "sizeof_pid = 4"
definition sizeof_FILE :: nat where "sizeof_FILE = 216"

fun close_all :: "int list \<Rightarrow> (unit, proc) prog" where
  "close_all [] = ret ()"
| "close_all (i # is) = bnd (sys_close i) (\<lambda>_. close_all is)"

text \<open>The descriptors with an entry in \<open>childpid\<close>.\<close>

definition popened :: "int list \<Rightarrow> int list" where
  "popened cp = map int (filter (\<lambda>i. cp ! i > 0) [0..<length cp])"

text \<open>The end that the child keeps becomes its standard output or input.\<close>

definition popen_child :: "bool \<Rightarrow> int \<Rightarrow> int \<Rightarrow> int list \<Rightarrow> string \<Rightarrow> (image, proc) prog" where
  "popen_child rd r w cp cmd =
     bnd (sys_close (if rd then r else w)) (\<lambda>_.
     bnd (let keep = (if rd then w else r); std = (if rd then 1 else 0) in
          if keep \<noteq> std then bnd (dup2 keep std) (\<lambda>_. bnd (sys_close keep) (\<lambda>_. ret ())) else ret ()) (\<lambda>_.
     bnd (close_all (popened cp)) (\<lambda>_.
     exec_or SHELL [''sh'', ''-c'', cmd] (ret (Exited 127)))))"

text \<open>The first call allocates the array.\<close>

definition popen_init :: "(int list option, proc) prog" where
  "popen_init =
     bnd (gets p_childpid) (\<lambda>c. case c of
       Some cp \<Rightarrow> ret (Some cp)
     | None \<Rightarrow>
         bnd open_max (\<lambda>m.
         bnd (modify (\<lambda>s. s\<lparr>p_maxfd := m\<rparr>)) (\<lambda>_.
         bnd (sys_malloc (nat m * sizeof_pid)) (\<lambda>ok.
         if \<not> ok then ret None
         else bnd (modify (\<lambda>s. s\<lparr>p_childpid := Some (replicate (nat m) 0)\<rparr>)) (\<lambda>_.
              ret (Some (replicate (nat m) 0)))))))"

definition set_childpid :: "int \<Rightarrow> int \<Rightarrow> (unit, proc) prog" where
  "set_childpid fd pid =
     bnd (gets p_childpid) (\<lambda>c. case c of
       None \<Rightarrow> stop_with (Undefined ''childpid is null'')
     | Some cp \<Rightarrow>
         if 0 \<le> fd \<and> nat fd < length cp then modify (\<lambda>s. s\<lparr>p_childpid := Some (cp[nat fd := pid])\<rparr>)
         else stop_with (Undefined ''childpid out of bounds''))"

text \<open>\<open>popen\<close>: the descriptor of the stream, or -1 for a null pointer.\<close>

definition popen :: "string \<Rightarrow> string \<Rightarrow> (int, proc) prog" where
  "popen cmd type =
     (if type \<noteq> ''r'' \<and> type \<noteq> ''w'' then fail EINVAL
      else bnd popen_init (\<lambda>c. case c of
        None \<Rightarrow> ret (-1)
      | Some cp \<Rightarrow>
          bnd sys_pipe (\<lambda>p. case p of
            None \<Rightarrow> ret (-1)
          | Some (r, w) \<Rightarrow>
              bnd (fork (popen_child (type = ''r'') r w cp cmd)) (\<lambda>pid.
              if pid < 0 then ret (-1)
              else bnd (sys_close (if type = ''r'' then w else r)) (\<lambda>_.
              bnd (sys_malloc sizeof_FILE) (\<lambda>ok.
              if \<not> ok then ret (-1)
              else bnd (set_childpid (if type = ''r'' then r else w) pid) (\<lambda>_.
              ret (if type = ''r'' then r else w))))))))"

definition pclose :: "int \<Rightarrow> (int, proc) prog" where
  "pclose fd =
     bnd (gets p_childpid) (\<lambda>c. case c of
       None \<Rightarrow> ret (-1)
     | Some cp \<Rightarrow>
         if \<not> (0 \<le> fd \<and> nat fd < length cp) then stop_with (Undefined ''childpid out of bounds'')
         else if cp ! nat fd = 0 then ret (-1)
         else bnd (set_childpid fd 0) (\<lambda>_.
         bnd (sys_close fd) (\<lambda>r.
         bnd (sys_free sizeof_FILE) (\<lambda>_.
         if r < 0 then ret (-1) else wait_for (cp ! nat fd)))))"

end
