(* ===== verification/Pty_Model.thy ===== *)
theory Pty_Model
  imports Proc_Model Args
begin

text \<open>
  Pseudo terminals: \<^verbatim>\<open>ptyopen_43bsd.c\<close> and \<^verbatim>\<open>ptyopen_svr4.c\<close> (opening master and slave),
  \<^verbatim>\<open>ptyfork.c\<close>, \<^verbatim>\<open>ptyloop.c\<close>, \<^verbatim>\<open>dodriver.c\<close> and \<^verbatim>\<open>ptymain.c\<close>.

  A terminal device is a file whose path name is in \<open>y_term\<close>; a master that is in use cannot be
  opened (\<open>w_denied\<close>). \<open>TIOCSCTTY\<close> is not compiled in where \<open>CIBAUD\<close> is defined, as it is on
  Linux: the first terminal that a session leader opens is its controlling terminal. The handler
  that \<open>exit\<close> runs in a child works on the terminal it shares with its parent; that effect is not
  modelled.
\<close>

record pty = proc +
  t_group :: "int option"          \<comment> \<open>the group tty\<close>
  t_uid :: int
  t_root :: bool
  t_owner :: "string \<Rightarrow> (int \<times> int) option"
  t_mode :: "string \<Rightarrow> int option"
  t_win :: "string \<Rightarrow> (int \<times> int) option"
  t_ctty :: "string option"
  t_sigcaught :: bool
  t_termed :: "int list"           \<comment> \<open>who has been sent \<open>SIGTERM\<close>\<close>
  t_ppid :: int
  t_searchpath :: "string list"
  t_grantpt :: bool
  t_unlockpt :: bool
  t_ptsname :: "string option"
  t_modules :: "string set"        \<comment> \<open>the stream modules there are\<close>
  t_pushed :: "string list"

subsection \<open>Opening, 4.3+BSD\<close>

definition PTY1 :: string where "PTY1 = ''pqrstuvwxyzPQRST''"
definition PTY2 :: string where "PTY2 = ''0123456789abcdef''"

text \<open>The two loops as one over the pairs of letters; the results are descriptor and name.\<close>

definition pty_letters :: "(char \<times> char) list" where
  "pty_letters = List.product PTY1 PTY2"

fun ptym_search :: "string \<Rightarrow> (char \<times> char) list \<Rightarrow> (int \<times> string, 'a world_scheme) prog" where
  "ptym_search pts_name [] = ret (-1, pts_name)"
| "ptym_search pts_name ((a, b) # ps) =
     bnd (sys_open (''/dev/pty'' @ [a, b]) O_RDWR) (\<lambda>fdm.
     if fdm < 0
     then bnd (gets w_errno) (\<lambda>e. if e = ENOENT then ret (-1, ''/dev/pty'' @ [a, b]) else ptym_search (''/dev/pty'' @ [a, b]) ps)
     else ret (fdm, ''/dev/tty'' @ [a, b]))"

definition ptym_open :: "(int \<times> string, 'a world_scheme) prog" where
  "ptym_open = ptym_search ''/dev/ptyXY'' pty_letters"

text \<open>\<open>chown\<close> and \<open>chmod\<close>, whose results are not looked at, work for the superuser only.\<close>

definition S_PTY :: int where "S_PTY = 0x190"

definition give_slave :: "string \<Rightarrow> (unit, pty) prog" where
  "give_slave pts_name = modify (\<lambda>s.
     if t_root s \<and> w_files s pts_name \<noteq> None
     then s\<lparr>t_owner := (t_owner s)(pts_name \<mapsto> (t_uid s, case t_group s of None \<Rightarrow> -1 | Some g \<Rightarrow> g)),
            t_mode := (t_mode s)(pts_name \<mapsto> S_PTY)\<rparr>
     else s)"

definition open_tty :: "string \<Rightarrow> (int, pty) prog" where
  "open_tty name =
     bnd (sys_open name O_RDWR) (\<lambda>fd.
     bnd (if fd \<ge> 0 then modify (\<lambda>s. if p_leader s \<and> t_ctty s = None then s\<lparr>t_ctty := Some name\<rparr> else s) else ret ()) (\<lambda>_.
     ret fd))"

definition ptys_open :: "int \<Rightarrow> string \<Rightarrow> (int, pty) prog" where
  "ptys_open fdm pts_name =
     bnd (give_slave pts_name) (\<lambda>_.
     bnd (open_tty pts_name) (\<lambda>fds.
     if fds < 0 then bnd (sys_close fdm) (\<lambda>_. ret (-1)) else ret fds))"

subsection \<open>Opening, System V\<close>

definition ptym_open_svr4 :: "(int \<times> string, pty) prog" where
  "ptym_open_svr4 =
     bnd (sys_open ''/dev/ptmx'' O_RDWR) (\<lambda>fdm.
     if fdm < 0 then ret (-1, ''/dev/ptmx'')
     else bnd (gets (\<lambda>s. (t_grantpt s, t_unlockpt s, t_ptsname s))) (\<lambda>(grant, unlock, name).
     if \<not> grant then bnd (sys_close fdm) (\<lambda>_. ret (-2, ''/dev/ptmx''))
     else if \<not> unlock then bnd (sys_close fdm) (\<lambda>_. ret (-3, ''/dev/ptmx''))
     else (case name of
         None \<Rightarrow> bnd (sys_close fdm) (\<lambda>_. ret (-4, ''/dev/ptmx''))
       | Some n \<Rightarrow> ret (fdm, n))))"

definition push_module :: "string \<Rightarrow> (bool, pty) prog" where
  "push_module m = (\<lambda>s. if m \<in> t_modules s then Ok True (s\<lparr>t_pushed := t_pushed s @ [m]\<rparr>) else Ok False s)"

definition close_both :: "int \<Rightarrow> int \<Rightarrow> int \<Rightarrow> (int, pty) prog" where
  "close_both fdm fds r = bnd (sys_close fdm) (\<lambda>_. bnd (sys_close fds) (\<lambda>_. ret r))"

definition ptys_open_svr4 :: "int \<Rightarrow> string \<Rightarrow> (int, pty) prog" where
  "ptys_open_svr4 fdm pts_name =
     bnd (open_tty pts_name) (\<lambda>fds.
     if fds < 0 then bnd (sys_close fdm) (\<lambda>_. ret (-5))
     else bnd (push_module ''ptem'') (\<lambda>ok.
     if \<not> ok then close_both fdm fds (-6)
     else bnd (push_module ''ldterm'') (\<lambda>ok.
     if \<not> ok then close_both fdm fds (-7)
     else bnd (push_module ''ttcompat'') (\<lambda>ok.
     if \<not> ok then close_both fdm fds (-8) else ret fds))))"

subsection \<open>pty_fork\<close>

definition dup_to :: "int \<Rightarrow> int \<Rightarrow> string \<Rightarrow> (unit, pty) prog" where
  "dup_to fd std msg = bnd (dup2 fd std) (\<lambda>r. if r \<noteq> std then err_sys msg else ret ())"

text \<open>The child up to its return to the caller.\<close>

definition pty_child :: "int \<Rightarrow> string \<Rightarrow> termios option \<Rightarrow> (int \<times> int) option \<Rightarrow> (unit, pty) prog" where
  "pty_child fdm pts_name tio win =
     bnd (gets p_leader) (\<lambda>leader.
     if leader then err_sys ''setsid error''
     else bnd (modify (\<lambda>s. s\<lparr>p_leader := True, t_ctty := None\<rparr>)) (\<lambda>_.
     bnd (ptys_open fdm pts_name) (\<lambda>fds.
     if fds < 0 then err_sys ''can't open slave pty''
     else bnd (sys_close fdm) (\<lambda>_.
     bnd (case tio of
            None \<Rightarrow> ret ()
          | Some t \<Rightarrow> bnd (tcsetattr fds False t) (\<lambda>r. if r < 0 then err_sys ''tcsetattr error on slave pty'' else ret ())) (\<lambda>_.
     bnd (case win of
            None \<Rightarrow> ret ()
          | Some w \<Rightarrow> bnd (gets (tcgetattr fds)) (\<lambda>t.
               if t = None then err_sys ''TIOCSWINSZ error on slave pty''
               else modify (\<lambda>s. s\<lparr>t_win := (t_win s)(fd_path s fds \<mapsto> w)\<rparr>))) (\<lambda>_.
     bnd (dup_to fds 0 ''dup2 error to stdin'') (\<lambda>_.
     bnd (dup_to fds 1 ''dup2 error to stdout'') (\<lambda>_.
     bnd (dup_to fds 2 ''dup2 error to stderr'') (\<lambda>_.
     if fds > 2 then bnd (sys_close fds) (\<lambda>_. ret ()) else ret ())))))))))"

text \<open>
  The result for the parent is the process ID, the master and the slave's name; \<open>rest\<close> is what
  the caller does in the child. The names are copied into arrays of 20 bytes.
\<close>

definition pty_fork :: "termios option \<Rightarrow> (int \<times> int) option \<Rightarrow> (image, pty) prog \<Rightarrow> (int \<times> int \<times> string, pty) prog" where
  "pty_fork tio win rest =
     bnd ptym_open (\<lambda>(fdm, pts_name).
     if fdm < 0 then err_sys (''can't open master pty: '' @ pts_name)
     else bnd (fork (bnd (pty_child fdm pts_name tio win) (\<lambda>_. rest))) (\<lambda>pid.
     ret (if pid < 0 then -1 else pid, fdm, pts_name)))"

subsection \<open>The loop\<close>

definition BUFFSIZE_PTY :: nat where "BUFFSIZE_PTY = 512"

text \<open>
  Copying from one descriptor to another; the result is whether the last read failed. Each round
  takes a byte at least, the bound is one more.
\<close>

fun copy_loop :: "nat \<Rightarrow> int \<Rightarrow> int \<Rightarrow> string \<Rightarrow> (bool, 'a sock_scheme) prog" where
  "copy_loop 0 from to' msg = stop_with (Diverges ''loop'')"
| "copy_loop (Suc k) from to' msg =
     bnd (sock_read from BUFFSIZE_PTY) (\<lambda>r. case r of
       None \<Rightarrow> ret True
     | Some b \<Rightarrow>
         if b = [] then ret False
         else bnd (writen to' b) (\<lambda>n. if n \<noteq> int (length b) then err_sys msg else copy_loop k from to' msg))"

definition copy_all :: "int \<Rightarrow> int \<Rightarrow> string \<Rightarrow> (bool, 'a sock_scheme) prog" where
  "copy_all from to' msg = bnd (gets (\<lambda>s. Suc (pending_bytes s from) + length (s_in s from))) (\<lambda>k. copy_loop k from to' msg)"

text \<open>The child copies standard input to the master, the parent the master to standard output.\<close>

definition loop_child :: "int \<Rightarrow> bool \<Rightarrow> (image, pty) prog" where
  "loop_child ptym ignoreeof =
     bnd (copy_all 0 ptym ''writen error to master pty'') (\<lambda>bad.
     if bad then err_sys ''read error from stdin''
     else bnd (if ignoreeof then ret () else modify (\<lambda>s. s\<lparr>t_termed := t_termed s @ [t_ppid s]\<rparr>)) (\<lambda>_.
     ret (Exited 0)))"

definition pty_loop :: "int \<Rightarrow> bool \<Rightarrow> (unit, pty) prog" where
  "pty_loop ptym ignoreeof =
     bnd (fork (loop_child ptym ignoreeof)) (\<lambda>child.
     if child < 0 then err_sys ''fork error''
     else bnd (signal_intr SIGTERM (Catch ''sig_term'')) (\<lambda>h.
     if h = None then err_sys ''signal_intr error for SIGTERM''
     else bnd (copy_all ptym 1 ''writen error to stdout'') (\<lambda>_.
     bnd (gets t_sigcaught) (\<lambda>caught.
     if caught then ret () else modify (\<lambda>s. s\<lparr>t_termed := t_termed s @ [child]\<rparr>)))))"

subsection \<open>The driver\<close>

definition driver_child :: "int \<Rightarrow> int \<Rightarrow> (image option, pty) prog \<Rightarrow> string \<Rightarrow> (image, pty) prog" where
  "driver_child r w exec driver =
     bnd (sys_close w) (\<lambda>_.
     bnd (dup_to r 0 ''dup2 error to stdin'') (\<lambda>_.
     bnd (dup_to r 1 ''dup2 error to stdout'') (\<lambda>_.
     bnd (sys_close r) (\<lambda>_.
     bnd exec (\<lambda>im. case im of Some i \<Rightarrow> ret i | None \<Rightarrow> err_sys (''execlp error for: '' @ driver))))))"

text \<open>\<open>execvp\<close> and \<open>execlp\<close>: a name without a slash is searched for.\<close>

definition execvp :: "string \<Rightarrow> string list \<Rightarrow> (image option, pty) prog" where
  "execvp file argv = gets (\<lambda>s.
     if CHR ''/'' \<in> set file
     then (if p_progs s (resolve (p_cwd s) file) then Some (Exec (resolve (p_cwd s) file) argv) else None)
     else map_option (\<lambda>d. Exec (d @ ''/'' @ file) argv) (find (\<lambda>d. p_progs s (d @ ''/'' @ file)) (t_searchpath s)))"

definition do_driver :: "string \<Rightarrow> (unit, pty) prog" where
  "do_driver driver =
     bnd s_pipe (\<lambda>p. case p of
       None \<Rightarrow> err_sys ''can't create stream pipe''
     | Some (r, w) \<Rightarrow>
         bnd (fork (driver_child r w (execvp driver [driver]) driver)) (\<lambda>child.
         if child < 0 then err_sys ''fork error''
         else bnd (sys_close r) (\<lambda>_.
         bnd (dup_to w 0 ''dup2 error to stdin'') (\<lambda>_.
         bnd (dup_to w 1 ''dup2 error to stdout'') (\<lambda>_.
         bnd (sys_close w) (\<lambda>_. ret ()))))))"

subsection \<open>The program\<close>

definition set_noecho :: "int \<Rightarrow> (unit, pty) prog" where
  "set_noecho fd =
     bnd (gets (tcgetattr fd)) (\<lambda>r. case r of
       None \<Rightarrow> err_sys ''tcgetattr error''
     | Some t \<Rightarrow>
         bnd (tcsetattr fd False (t\<lparr>t_lflag := t_lflag t AND NOT (ECHO OR ECHOE OR ECHOK OR ECHONL),
                                    t_oflag := t_oflag t AND NOT ONLCR\<rparr>)) (\<lambda>r.
         if r < 0 then err_sys ''tcsetattr error'' else ret ()))"

record pty_opts =
  o_driver :: "string option"
  o_noecho :: bool
  o_ignoreeof :: bool
  o_interactive :: bool
  o_verbose :: bool

fun pty_options :: "opt list \<Rightarrow> pty_opts \<Rightarrow> (pty_opts, pty) prog" where
  "pty_options [] x = ret x"
| "pty_options (Opt c # os) x = pty_options os
     (if c = CHR ''e'' then x\<lparr>o_noecho := True\<rparr> else if c = CHR ''i'' then x\<lparr>o_ignoreeof := True\<rparr>
      else if c = CHR ''n'' then x\<lparr>o_interactive := False\<rparr> else x\<lparr>o_verbose := True\<rparr>)"
| "pty_options (OptArg c a # os) x = pty_options os (x\<lparr>o_driver := Some a\<rparr>)"
| "pty_options (BadOpt c # os) x = err_quit (''unrecognized option: -'' @ [c])"

definition pty_exec :: "bool \<Rightarrow> string list \<Rightarrow> (image, pty) prog" where
  "pty_exec ne argv =
     bnd (if ne then set_noecho 0 else ret ()) (\<lambda>_.
     bnd (execvp (hd argv) argv) (\<lambda>im. case im of Some i \<Rightarrow> ret i | None \<Rightarrow> err_sys (''can't execute: '' @ hd argv)))"

definition pty_verbose :: "pty_opts \<Rightarrow> string \<Rightarrow> (unit, pty) prog" where
  "pty_verbose x slave_name =
     (if \<not> o_verbose x then ret ()
      else bnd (sock_write 2 (''slave name = '' @ slave_name @ [NL])) (\<lambda>_.
      case o_driver x of None \<Rightarrow> ret ()
      | Some d \<Rightarrow> bnd (sock_write 2 (''driver = '' @ d @ [NL])) (\<lambda>_. ret ())))"

definition pty_body :: "string list \<Rightarrow> (unit, pty) prog" where
  "pty_body argv =
     bnd (isatty 0) (\<lambda>tt.
     case getopts ''einv'' ''d'' [] (tl argv) of (os, rest) \<Rightarrow>
     bnd (pty_options os \<lparr>o_driver = None, o_noecho = False, o_ignoreeof = False, o_interactive = (tt = 1), o_verbose = False\<rparr>) (\<lambda>x.
     if rest = [] then err_quit ''usage: pty [ -d dirver -einv  ] program [arg ...]''
     else bnd (if o_interactive x
               then bnd (gets (\<lambda>s. (tcgetattr 0 s, t_win s (fd_path s 0)))) (\<lambda>(t, w). case (t, w) of
                      (None, _) \<Rightarrow> err_sys ''tcgetattr error on stdin''
                    | (_, None) \<Rightarrow> err_sys ''TIOCGWINSZ error''
                    | (Some t, Some w) \<Rightarrow> pty_fork (Some t) (Some w) (pty_exec (o_noecho x) rest))
               else pty_fork None None (pty_exec (o_noecho x) rest)) (\<lambda>(pid, fdm, slave_name).
     if pid < 0 then err_sys ''fork error''
     else bnd (pty_verbose x slave_name) (\<lambda>_.
     bnd (if o_interactive x \<and> o_driver x = None
          then bnd (tty_raw 0) (\<lambda>r. if r < 0 then err_sys ''tty_raw error'' else ret ()) else ret ()) (\<lambda>_.
     bnd (case o_driver x of None \<Rightarrow> ret () | Some d \<Rightarrow> do_driver d) (\<lambda>_.
     bnd (pty_loop fdm (o_ignoreeof x)) (\<lambda>_.
     stop_with (Exit 0 []))))))))"

text \<open>Until \<open>tty_atexit\<close> is registered there is nothing for it to restore.\<close>

definition pty_main :: "string list \<Rightarrow> (unit, pty) prog" where
  "pty_main argv = at_exit tty_atexit (pty_body argv)"

end
