(* ===== verification/Proc_Props.thy ===== *)
theory Proc_Props
  imports Proc_Model Sock_Props
begin

text \<open>
  What the process library promises: \<open>system\<close> gives the signals back as they were and waits
  under the right mask, \<open>abort\<close> never returns, \<open>pclose\<close> undoes \<open>popen\<close>.
\<close>

subsection \<open>Masks and dispositions\<close>

text \<open>A state in which no signal that could be delivered is pending.\<close>

definition settled :: "proc \<Rightarrow> bool" where
  "settled s \<longleftrightarrow> p_pend s \<subseteq> y_mask s \<and> SIGKILL \<notin> y_mask s \<and> SIGSTOP \<notin> y_mask s"

lemma settled_upd [simp]:
  "settled (s\<lparr>p_act := a\<rparr>) = settled s" "settled (s\<lparr>p_seen := x\<rparr>) = settled s" "settled (s\<lparr>p_wait := w\<rparr>) = settled s"
  "settled (s\<lparr>w_errno := e\<rparr>) = settled s" "settled (s\<lparr>p_pids := ps, p_kids := ks\<rparr>) = settled s"
  by (simp_all add: settled_def)

lemma set_mask_quiet:
  assumes "p_pend s \<subseteq> m" and "SIGKILL \<notin> m" and "SIGSTOP \<notin> m"
  shows "set_mask m s = Ok 0 (s\<lparr>y_mask := m\<rparr>)"
proof -
  have "filter (\<lambda>g. g \<in> p_pend s \<and> g \<notin> m) [1..NSIG - 1] = []" using assms(1) by (auto simp: filter_empty_conv)
  moreover have "m - {SIGKILL, SIGSTOP} = m" using assms(2,3) by auto
  ultimately show ?thesis by (simp add: set_mask_def)
qed

lemma sigaction_ok: "can_catch g \<Longrightarrow> sigaction g a s = Ok 0 (s\<lparr>p_act := (p_act s)(g := a)\<rparr>)"
  by (simp add: sigaction_def)

lemma can_catch_simps [simp]: "can_catch SIGINT" "can_catch SIGQUIT" "can_catch SIGABRT" "can_catch SIGTERM"
  by (simp_all add: can_catch_def sig_defs)

subsection \<open>Waiting\<close>

text \<open>The waits of a loop that is interrupted \<open>n\<close> times.\<close>

lemma wait_loop_run:
  assumes "p_wait s pid = replicate n Intr @ Status st # es" and "n < k"
  shows "\<exists>e. wait_loop k pid s = Ok st (s\<lparr>p_seen := p_seen s @ replicate (Suc n) (p_act s, y_mask s), w_errno := e,
    p_wait := (p_wait s)(pid := [])\<rparr>)"
  using assms
proof (induction n arbitrary: s k)
  case 0
  then obtain j where "k = Suc j" by (cases k) auto
  moreover have "waitpid pid s = Ok (Some st) (s\<lparr>p_seen := p_seen s @ [(p_act s, y_mask s)], p_wait := (p_wait s)(pid := [])\<rparr>)"
    using 0 by (simp add: waitpid_def)
  ultimately show ?case by (intro exI[of _ "w_errno s"]) (simp add: fun_upd_def)
next
  case (Suc n)
  then obtain j where k: "k = Suc j" "n < j" by (cases k) auto
  define t where "t = s\<lparr>p_seen := p_seen s @ [(p_act s, y_mask s)], w_errno := EINTR,
    p_wait := (p_wait s)(pid := replicate n Intr @ Status st # es)\<rparr>"
  have w: "waitpid pid s = Ok None t" using Suc.prems(1) by (simp add: waitpid_def t_def)
  obtain e where "wait_loop j pid t = Ok st (t\<lparr>p_seen := p_seen t @ replicate (Suc n) (p_act t, y_mask t), w_errno := e,
      p_wait := (p_wait t)(pid := [])\<rparr>)"
    using Suc.IH[of t j, OF _ k(2)] unfolding t_def by fastforce
  moreover have "t\<lparr>p_seen := p_seen t @ replicate (Suc n) (p_act t, y_mask t), w_errno := e, p_wait := (p_wait t)(pid := [])\<rparr> =
      s\<lparr>p_seen := p_seen s @ replicate (Suc (Suc n)) (p_act s, y_mask s), w_errno := e, p_wait := (p_wait s)(pid := [])\<rparr>"
    by (rule proc.equality) (simp_all add: t_def fun_eq_iff)
  ultimately have "wait_loop k pid s = Ok st (s\<lparr>p_seen := p_seen s @ replicate (Suc (Suc n)) (p_act s, y_mask s), w_errno := e,
      p_wait := (p_wait s)(pid := [])\<rparr>)" using w k(1) by (simp only: wait_loop.simps bnd_Ok option.case gets_apply) (simp add: t_def)
  then show ?case by blast
qed

lemma wait_for_run:
  assumes "p_wait s pid = replicate n Intr @ Status st # es"
  shows "\<exists>e. wait_for pid s = Ok st (s\<lparr>p_seen := p_seen s @ replicate (Suc n) (p_act s, y_mask s), w_errno := e,
    p_wait := (p_wait s)(pid := [])\<rparr>)"
  unfolding wait_for_def bnd_Ok[OF gets_apply] by (rule wait_loop_run[OF assms]) (simp add: assms)

lemma fork_run:
  assumes "p_pids s = p # ps"
  shows "\<exists>im. fork child s = Ok p (s\<lparr>p_pids := ps, p_kids := p_kids s @ [\<lparr>kd_pid = p, kd_image = im,
      kd_act = p_act (final (child (s\<lparr>p_pend := {}\<rparr>))), kd_mask = y_mask (final (child (s\<lparr>p_pend := {}\<rparr>))),
      kd_fds = w_fds (final (child (s\<lparr>p_pend := {}\<rparr>)))\<rparr>]\<rparr>) \<and>
    (\<forall>x t. child (s\<lparr>p_pend := {}\<rparr>) = Ok x t \<longrightarrow> im = x)"
  using assms by (auto simp: fork_def Let_def)

text \<open>What becomes of a child that executes the shell.\<close>

definition shell_image :: "proc \<Rightarrow> string \<Rightarrow> string \<Rightarrow> image" where
  "shell_image s path cmd =
     (if p_progs s (resolve (p_cwd s) path) then Exec (resolve (p_cwd s) path) [''sh'', ''-c'', cmd] else Exited 127)"

lemma exec_or_shell: "exec_or path [''sh'', ''-c'', cmd] (ret (Exited 127)) s = Ok (shell_image s path cmd) s"
  by (simp add: exec_or_def execl_def shell_image_def)

lemma system_child_run:
  assumes "p_pend s = {}" and "SIGKILL \<notin> m" and "SIGSTOP \<notin> m"
  shows "system_child cmd i q m s =
    Ok (shell_image s SH cmd) (s\<lparr>p_act := (p_act s)(SIGINT := i, SIGQUIT := q), y_mask := m\<rparr>)"
  using assms
  by (simp add: system_child_def sigaction_ok set_mask_quiet exec_or_shell shell_image_def)

subsection \<open>system\<close>

text \<open>The waits between two states.\<close>

definition waits :: "proc \<Rightarrow> proc \<Rightarrow> ((int \<Rightarrow> sigact) \<times> int set) list" where
  "waits s t = drop (length (p_seen s)) (p_seen t)"

lemma system_runs:
  assumes "settled s" and "p_pids s = p # ps" and "0 < p" and "p_wait s p = replicate n Intr @ Status st # es"
  shows "\<exists>t. system (Some cmd) s = Ok st t \<and> p_act t = p_act s \<and> y_mask t = y_mask s \<and> p_pids t = ps \<and>
    p_kids t = p_kids s @ [\<lparr>kd_pid = p, kd_image = shell_image s SH cmd, kd_act = p_act s, kd_mask = y_mask s, kd_fds = w_fds s\<rparr>] \<and>
    waits s t = replicate (Suc n) ((p_act s)(SIGINT := ignore_act, SIGQUIT := ignore_act), insert SIGCHLD (y_mask s))"
proof -
  let ?i = "p_act s SIGINT" and ?q = "p_act s SIGQUIT" and ?m = "y_mask s"
  have m: "SIGKILL \<notin> ?m" "SIGSTOP \<notin> ?m" "p_pend s \<subseteq> ?m" using assms(1) by (auto simp: settled_def)
  have m': "SIGKILL \<notin> insert SIGCHLD ?m" "SIGSTOP \<notin> insert SIGCHLD ?m" using m by (auto simp: sig_defs)
  define s1 where "s1 = s\<lparr>p_act := (p_act s)(SIGINT := ignore_act, SIGQUIT := ignore_act), y_mask := insert SIGCHLD ?m\<rparr>"
  have kid: "system_child cmd ?i ?q ?m (s1\<lparr>p_pend := {}\<rparr>) = Ok (shell_image s SH cmd)
      (s1\<lparr>p_pend := {}, p_act := (p_act s1)(SIGINT := ?i, SIGQUIT := ?q), y_mask := ?m\<rparr>)"
    using system_child_run[of "s1\<lparr>p_pend := {}\<rparr>" ?m cmd ?i ?q] m by (simp add: shell_image_def s1_def)
  have acts: "(p_act s1)(SIGINT := ?i, SIGQUIT := ?q) = p_act s" by (auto simp: s1_def)
  define s2 where "s2 = s1\<lparr>p_pids := ps, p_kids := p_kids s @ [\<lparr>kd_pid = p, kd_image = shell_image s SH cmd, kd_act = p_act s,
    kd_mask = ?m, kd_fds = w_fds s\<rparr>]\<rparr>"
  have fork: "fork (system_child cmd ?i ?q ?m) s1 = Ok p s2"
    using fork_run[of s1 p ps "system_child cmd ?i ?q ?m"] kid acts assms(2) by (auto simp: s1_def s2_def)
  obtain e where w: "wait_for p s2 = Ok st (s2\<lparr>p_seen := p_seen s2 @ replicate (Suc n) (p_act s2, y_mask s2), w_errno := e,
      p_wait := (p_wait s2)(p := [])\<rparr>)"
    using wait_for_run[of s2 p n st es] assms(4) by (auto simp: s2_def s1_def)
  define s3 where "s3 = s2\<lparr>p_seen := p_seen s2 @ replicate (Suc n) (p_act s2, y_mask s2), w_errno := e, p_wait := (p_wait s2)(p := [])\<rparr>"
  have blk: "set_mask (insert SIGCHLD ?m) (s\<lparr>p_act := (p_act s)(SIGINT := ignore_act, SIGQUIT := ignore_act)\<rparr>) = Ok 0 s1"
    using set_mask_quiet[OF _ m', of "s\<lparr>p_act := (p_act s)(SIGINT := ignore_act, SIGQUIT := ignore_act)\<rparr>"] m by (auto simp: s1_def)
  have unb: "set_mask ?m (s3\<lparr>p_act := p_act s\<rparr>) = Ok 0 (s3\<lparr>p_act := p_act s, y_mask := ?m\<rparr>)"
    using set_mask_quiet[OF _ m(1,2), of "s3\<lparr>p_act := p_act s\<rparr>"] m(3) by (simp add: s3_def s2_def s1_def)
  have act3: "(p_act s3)(SIGINT := ?i, SIGQUIT := ?q) = p_act s" using acts by (simp add: s3_def s2_def)
  have "system (Some cmd) s = Ok st (s3\<lparr>p_act := p_act s, y_mask := ?m\<rparr>)"
    using blk fork w[folded s3_def] assms(3) unb act3 by (simp add: system_def sigaction_ok del: fun_upd_apply)
  then show ?thesis by (simp add: s3_def s2_def s1_def waits_def)
qed

subsection \<open>abort\<close>

text \<open>A program that ends with the process killed by a signal.\<close>

definition dies :: "('a, proc) prog \<Rightarrow> proc \<Rightarrow> bool" where
  "dies m s \<longleftrightarrow> halted (m s) = Some (Abort ''signal'') \<and> p_flushed (final (m s))"

lemma dies_bnd_Ok: "m s = Ok x t \<Longrightarrow> dies (f x) t \<Longrightarrow> dies (bnd m f) s"
  by (simp add: dies_def)

lemma take_abrt_default:
  "sa_handler (p_act s SIGABRT) = SIG_DFL \<Longrightarrow> p_flushed s \<Longrightarrow> dies (take_sig SIGABRT) s"
  by (simp add: dies_def take_sig_def sig_ignored_def sig_stops_def sig_defs)

lemma dies_bnd: "dies m s \<Longrightarrow> dies (bnd m f) s"
  by (cases "m s") (auto simp: dies_def)

text \<open>
  The mask of \<open>abort\<close> lets through \<open>SIGABRT\<close> only: after it the signal either has killed the
  process, or it has been caught, and dispositions and flush flag are as before.
\<close>

definition abrt_mask :: "int set" where
  "abrt_mask = {1..<NSIG} - {SIGABRT}"

lemma take_all_abrt:
  assumes "set gs \<subseteq> {SIGABRT}" and "p_flushed s \<or> (\<exists>f. sa_handler (p_act s SIGABRT) = Catch f)"
    and "sa_handler (p_act s SIGABRT) \<noteq> SIG_IGN"
    and "\<And>t. p_act t = p_act s \<Longrightarrow> y_mask t = y_mask s \<Longrightarrow> p_flushed t = p_flushed s \<Longrightarrow> dies (k ()) t"
  shows "dies (bnd (take_all gs) k) s"
  using assms
proof (induction gs arbitrary: s)
  case Nil
  then show ?case by (simp add: dies_bnd_Ok)
next
  case (Cons g gs)
  then have g: "g = SIGABRT" by simp
  show ?case
  proof (cases "sa_handler (p_act s SIGABRT)")
    case (Catch f)
    define t where "t = s\<lparr>p_caught := p_caught s @ [(SIGABRT, f)]\<rparr>"
    have "take_sig SIGABRT s = Ok () t" using Catch by (simp add: take_sig_def t_def)
    moreover have "dies (bnd (take_all gs) k) t" using Cons.prems Catch by (intro Cons.IH) (auto simp: t_def)
    ultimately show ?thesis unfolding g take_all.simps bnd_assoc by (rule dies_bnd_Ok)
  next
    case SIG_DFL
    with Cons.prems(2) have "dies (take_sig SIGABRT) s" by (intro take_abrt_default) auto
    then show ?thesis unfolding g take_all.simps bnd_assoc by (rule dies_bnd)
  qed (use Cons.prems(3) in simp)
qed

lemma set_abrt_mask:
  assumes "p_flushed s \<or> (\<exists>f. sa_handler (p_act s SIGABRT) = Catch f)" and "sa_handler (p_act s SIGABRT) \<noteq> SIG_IGN"
    and "\<And>t. p_act t = p_act s \<Longrightarrow> SIGABRT \<notin> y_mask t \<Longrightarrow> p_flushed t = p_flushed s \<Longrightarrow> dies (k 0) t"
  shows "dies (bnd (set_mask abrt_mask) k) s"
proof -
  let ?gs = "filter (\<lambda>g. g \<in> p_pend s \<and> g \<notin> abrt_mask) [1..NSIG - 1]"
  have gs: "set ?gs \<subseteq> {SIGABRT}" by (auto simp: abrt_mask_def)
  define t where "t = s\<lparr>y_mask := abrt_mask - {SIGKILL, SIGSTOP}, p_pend := p_pend s - set ?gs\<rparr>"
  have t: "p_act t = p_act s" "SIGABRT \<notin> y_mask t" "p_flushed t = p_flushed s" by (simp_all add: t_def abrt_mask_def)
  have "dies (bnd (take_all ?gs) (\<lambda>_. bnd (ret 0) k)) t"
    using assms t by (intro take_all_abrt[OF gs]) (auto simp: ret_bnd)
  then show ?thesis
    unfolding set_mask_def bnd_assoc dies_def bnd_Ok[OF gets_apply] bnd_Ok[OF modify_apply] t_def[symmetric] .
qed

lemma kill_default:
  "sa_handler (p_act s SIGABRT) = SIG_DFL \<Longrightarrow> SIGABRT \<notin> y_mask s \<Longrightarrow> p_flushed s \<Longrightarrow> dies (bnd (kill_self SIGABRT) k) s"
  using take_abrt_default[of s] by (intro dies_bnd) (simp add: kill_self_def dies_def)

text \<open>The second half of \<open>abort\<close>, after a handler has returned.\<close>

lemma abort_second:
  "dies (bnd flush_all (\<lambda>_. bnd (sigaction SIGABRT (a\<lparr>sa_handler := SIG_DFL\<rparr>)) (\<lambda>_.
     bnd (set_mask abrt_mask) (\<lambda>_. bnd (kill_self SIGABRT) k)))) s"
proof -
  define t where "t = s\<lparr>p_flushed := True, p_act := (p_act s)(SIGABRT := a\<lparr>sa_handler := SIG_DFL\<rparr>)\<rparr>"
  have "dies (bnd (set_mask abrt_mask) (\<lambda>_. bnd (kill_self SIGABRT) k)) t"
    by (rule set_abrt_mask) (auto simp: t_def intro!: kill_default)
  then show ?thesis by (simp add: dies_def flush_all_def sigaction_ok t_def)
qed

lemma abort_dies: "dies abort s"
proof -
  let ?a = "p_act s SIGABRT"
  let ?fin = "\<lambda>a. bnd flush_all (\<lambda>_. bnd (sigaction SIGABRT (a\<lparr>sa_handler := SIG_DFL\<rparr>)) (\<lambda>_.
     bnd (set_mask abrt_mask) (\<lambda>_. bnd (kill_self SIGABRT) (\<lambda>_. stop_with (Exit 1 [])))))"
  have def: "dies (bnd (set_mask abrt_mask) (\<lambda>_. bnd (kill_self SIGABRT) (\<lambda>_. ?fin a))) t"
    if "sa_handler (p_act t SIGABRT) = SIG_DFL" "p_flushed t" for a t
    by (rule set_abrt_mask) (use that in \<open>auto intro!: kill_default\<close>)
  show ?thesis
  proof (cases "sa_handler ?a")
    case (Catch f)
    have "dies (bnd (kill_self SIGABRT) (\<lambda>_. ?fin ?a)) t" if "p_act t = p_act s" "SIGABRT \<notin> y_mask t" for t
    proof -
      have "kill_self SIGABRT t = Ok () (t\<lparr>p_caught := p_caught t @ [(SIGABRT, f)]\<rparr>)"
        using that Catch by (simp add: kill_self_def take_sig_def)
      then show ?thesis by (rule dies_bnd_Ok) (rule abort_second)
    qed
    then have "dies (bnd (set_mask abrt_mask) (\<lambda>_. bnd (kill_self SIGABRT) (\<lambda>_. ?fin ?a))) s"
      using Catch by (intro set_abrt_mask) auto
    then show ?thesis using Catch by (simp add: abort_def abrt_mask_def[symmetric] dies_def)
  next
    case SIG_DFL
    with def[of "s\<lparr>p_flushed := True\<rparr>" ?a] show ?thesis
      by (simp add: abort_def abrt_mask_def[symmetric] dies_def flush_all_def)
  next
    case SIG_IGN
    with def[of "s\<lparr>p_act := (p_act s)(SIGABRT := ?a\<lparr>sa_handler := SIG_DFL\<rparr>), p_flushed := True\<rparr>" ?a] show ?thesis
      by (simp add: abort_def abrt_mask_def[symmetric] dies_def flush_all_def sigaction_ok)
  qed
qed

subsection \<open>popen and pclose\<close>

definition read_end :: "proc \<Rightarrow> ofile" where
  "read_end s = \<lparr>o_path = pipe_name (p_npipe s), o_pos = 0, o_oflag = O_RDONLY\<rparr>"

definition write_end :: "proc \<Rightarrow> ofile" where
  "write_end s = \<lparr>o_path = pipe_name (p_npipe s), o_pos = 0, o_oflag = O_WRONLY\<rparr>"

lemma sys_pipe_ok:
  assumes "sys_pipe s = Ok (Some (r, w)) t"
  shows "0 \<le> r" "0 \<le> w" "r \<noteq> w" "w_fds s r = None" "w_fds s w = None"
    "t = s\<lparr>w_fds := (w_fds s)(r \<mapsto> read_end s, w \<mapsto> write_end s), p_npipe := Suc (p_npipe s)\<rparr>"
proof -
  let ?u = "s\<lparr>w_fds := (w_fds s)(r \<mapsto> read_end s)\<rparr>"
  have fd: "new_fd s = Some r" "new_fd ?u = Some w"
    and t: "t = s\<lparr>w_fds := (w_fds s)(r \<mapsto> read_end s, w \<mapsto> write_end s), p_npipe := Suc (p_npipe s)\<rparr>"
    using assms by (auto simp: sys_pipe_def Let_def read_end_def write_end_def split: option.splits)
  note free = new_fd_free[OF fd(1)] new_fd_free[OF fd(2)]
  then show "0 \<le> r" "0 \<le> w" "w_fds s r = None" by simp_all
  from free(4) show "r \<noteq> w" by auto
  with free(4) show "w_fds s w = None" by simp
  show "t = s\<lparr>w_fds := (w_fds s)(r \<mapsto> read_end s, w \<mapsto> write_end s), p_npipe := Suc (p_npipe s)\<rparr>" by (rule t)
qed

lemma sys_close_run:
  "runs (sys_close i) s (\<lambda>_ t. w_fds t = (w_fds s)(i := None) \<and> p_progs t = p_progs s \<and> p_cwd t = p_cwd s)"
  by (auto simp: runs_def sys_close_def fail_def split: option.splits)

lemma close_all_run:
  "runs (close_all is) s (\<lambda>_ t. w_fds t = (\<lambda>i. if i \<in> set is then None else w_fds s i) \<and> p_progs t = p_progs s \<and> p_cwd t = p_cwd s)"
proof (induction "is" arbitrary: s)
  case (Cons i "is")
  show ?case unfolding close_all.simps
    by (rule runs_step[OF sys_close_run], rule runs_conseq[OF Cons.IH]) auto
qed (simp add: wp)

text \<open>The standard descriptor that the pipe replaces, and the descriptors of the child.\<close>

definition std_end :: "bool \<Rightarrow> int" where
  "std_end rd = (if rd then 1 else 0)"

definition kid_fds :: "bool \<Rightarrow> int \<Rightarrow> int \<Rightarrow> int list \<Rightarrow> (int \<Rightarrow> ofile option) \<Rightarrow> int \<Rightarrow> ofile option" where
  "kid_fds rd r w cp fds i =
     (if i \<in> set (popened cp) then None
      else (fds(r := None, w := None, std_end rd := fds (if rd then w else r))) i)"

lemma popen_child_runs:
  assumes "w_fds s r \<noteq> None" and "w_fds s w \<noteq> None" and "r \<noteq> w"
  shows "runs (popen_child rd r w cp cmd) s (\<lambda>im t. im = shell_image s SHELL cmd \<and> w_fds t = kid_fds rd r w cp (w_fds s))"
proof -
  let ?keep = "if rd then w else r" and ?other = "if rd then r else w"
  have image: "runs (exec_or SHELL [''sh'', ''-c'', cmd] (ret (Exited 127))) v (\<lambda>im t. im = shell_image s SHELL cmd \<and> w_fds t = w_fds v)"
    if "p_progs v = p_progs s" "p_cwd v = p_cwd s" for v :: proc
    using that by (simp add: runs_def exec_or_shell shell_image_def)
  have "runs (let keep = ?keep; std = (if rd then 1 else 0) in
      if keep \<noteq> std then bnd (dup2 keep std) (\<lambda>_. bnd (sys_close keep) (\<lambda>_. ret ())) else ret ()) t
      (\<lambda>_ u. w_fds u = (w_fds s)(r := None, w := None, std_end rd := w_fds s ?keep) \<and> p_progs u = p_progs s \<and> p_cwd u = p_cwd s)"
    if t: "w_fds t = (w_fds s)(?other := None)" "p_progs t = p_progs s" "p_cwd t = p_cwd s" for t
  proof (cases "?keep = std_end rd")
    case True
    then show ?thesis using t assms(3) by (auto simp: Let_def std_end_def wp fun_eq_iff split: if_splits)
  next
    case False
    have keep: "w_fds t ?keep = w_fds s ?keep" "w_fds s ?keep \<noteq> None" using t(1) assms by auto
    define u where "u = t\<lparr>w_fds := (w_fds t)(std_end rd := w_fds s ?keep)\<rparr>"
    have "dup2 ?keep (std_end rd) t = Ok (std_end rd) u" using keep by (auto simp: dup2_def u_def split: if_splits)
    moreover have "runs (sys_close ?keep) u (\<lambda>_ v. w_fds v = (w_fds s)(r := None, w := None, std_end rd := w_fds s ?keep) \<and>
        p_progs v = p_progs s \<and> p_cwd v = p_cwd s)"
      by (rule runs_conseq[OF sys_close_run]) (use t False in \<open>auto simp: u_def fun_eq_iff std_end_def split: if_splits\<close>)
    ultimately show ?thesis using False by (simp add: Let_def std_end_def[symmetric] wp runs_Ok)
  qed
  note dup = this
  show ?thesis unfolding popen_child_def
    by (rule runs_step[OF sys_close_run], rule runs_step[OF dup], simp, simp, simp,
        rule runs_step[OF close_all_run], rule runs_conseq[OF image])
      (auto simp: kid_fds_def fun_eq_iff)
qed

lemma popen_run:
  assumes "ty = ''r'' \<or> ty = ''w''" and "popen_init s = Ok (Some cp) s0" and "sys_pipe s0 = Ok (Some (r, w)) s1"
    and "p_pids s0 = p # ps" and "0 < p" and "sizeof_FILE \<le> w_mem s0" and "p_childpid s0 = Some cp"
    and "fd = (if ty = ''r'' then r else w)" and "nat fd < length cp"
  shows "\<exists>t k. popen cmd ty s = Ok fd t \<and> w_fds t = (w_fds s0)(fd \<mapsto> (if ty = ''r'' then read_end s0 else write_end s0)) \<and>
    p_childpid t = Some (cp[nat fd := p]) \<and> w_mem t = w_mem s0 - sizeof_FILE \<and> p_wait t = p_wait s0 \<and>
    p_kids t = p_kids s0 @ [k] \<and> kd_pid k = p \<and> kd_image k = shell_image s0 SHELL cmd \<and>
    kd_fds k = kid_fds (ty = ''r'') r w cp (w_fds s1)"
proof -
  note P = sys_pipe_ok[OF assms(3)]
  let ?child = "popen_child (ty = ''r'') r w cp cmd" and ?other = "if ty = ''r'' then w else r"
  let ?e = "if ty = ''r'' then read_end s0 else write_end s0"
  have ends: "w_fds s1 r \<noteq> None" "w_fds s1 w \<noteq> None" "p_pids s1 = p # ps" using P(3,6) assms(4) by auto
  have "runs ?child (s1\<lparr>p_pend := {}\<rparr>) (\<lambda>im t. im = shell_image (s1\<lparr>p_pend := {}\<rparr>) SHELL cmd \<and>
      w_fds t = kid_fds (ty = ''r'') r w cp (w_fds (s1\<lparr>p_pend := {}\<rparr>)))"
    using P(3) ends by (intro popen_child_runs) auto
  then obtain v where v: "?child (s1\<lparr>p_pend := {}\<rparr>) = Ok (shell_image s0 SHELL cmd) v" "w_fds v = kid_fds (ty = ''r'') r w cp (w_fds s1)"
    using P(6) by (auto simp: runs_iff shell_image_def)
  define k where "k = \<lparr>kd_pid = p, kd_image = shell_image s0 SHELL cmd, kd_act = p_act v, kd_mask = y_mask v, kd_fds = w_fds v\<rparr>"
  define s2 where "s2 = s1\<lparr>p_pids := ps, p_kids := p_kids s0 @ [k]\<rparr>"
  have fork: "fork ?child s1 = Ok p s2"
    using fork_run[OF ends(3), of ?child] v P(6) by (auto simp: s2_def k_def)
  obtain f where f: "w_fds s2 ?other = Some f" using ends by (cases "ty = ''r''") (auto simp: s2_def)
  define s3 where "s3 = s2\<lparr>w_fds := (w_fds s2)(?other := None), w_locks := (w_locks s2)(o_path f := (\<lambda>_. None))\<rparr>"
  have close: "sys_close ?other s2 = Ok 0 s3" using f by (simp add: sys_close_def s3_def)
  have fds: "w_fds s3 = (w_fds s0)(fd \<mapsto> ?e)" using P assms(1,8) by (auto simp: s3_def s2_def fun_eq_iff)
  have s3: "w_mem s3 = w_mem s0" "p_childpid s3 = Some cp" "p_wait s3 = p_wait s0" "p_kids s3 = p_kids s0 @ [k]"
    using P(6) assms(7) by (simp_all add: s3_def s2_def)
  define s4 where "s4 = s3\<lparr>w_mem := w_mem s3 - sizeof_FILE\<rparr>"
  have "sys_malloc sizeof_FILE s3 = Ok True s4" using assms(6) s3 by (simp add: sys_malloc_def s4_def)
  moreover have "0 \<le> fd" using P(1,2) assms(8) by simp
  then have "set_childpid fd p s4 = Ok () (s4\<lparr>p_childpid := Some (cp[nat fd := p])\<rparr>)"
    using assms(9) s3 by (simp add: set_childpid_def s4_def)
  ultimately have tail: "sys_malloc sizeof_FILE s3 = Ok True s4" "set_childpid fd p s4 = Ok () (s4\<lparr>p_childpid := Some (cp[nat fd := p])\<rparr>)"
    by simp_all
  have "popen cmd ty s = Ok fd (s4\<lparr>p_childpid := Some (cp[nat fd := p])\<rparr>)"
    using assms(1)
  proof (elim disjE)
    assume ty: "ty = ''r''"
    show ?thesis using assms(2,3,5,8) fork close tail unfolding ty by (simp add: popen_def)
  next
    assume ty: "ty = ''w''"
    show ?thesis using assms(2,3,5,8) fork close tail unfolding ty by (simp add: popen_def)
  qed
  moreover have "kd_pid k = p" "kd_image k = shell_image s0 SHELL cmd" "kd_fds k = kid_fds (ty = ''r'') r w cp (w_fds s1)"
    using v(2) by (simp_all add: k_def)
  ultimately show ?thesis using fds s3 by (auto simp: s4_def)
qed

lemma pclose_run:
  assumes "p_childpid t = Some cp" and "0 \<le> fd" and "nat fd < length cp" and "cp ! nat fd = p" and "p \<noteq> 0"
    and "w_fds t fd \<noteq> None" and "p_wait t p = replicate n Intr @ Status st # es"
  shows "\<exists>u. pclose fd t = Ok st u \<and> w_fds u = (w_fds t)(fd := None) \<and> p_childpid u = Some (cp[nat fd := 0]) \<and>
    w_mem u = w_mem t + sizeof_FILE \<and> p_kids u = p_kids t"
proof -
  obtain f where f: "w_fds t fd = Some f" using assms(6) by auto
  define t1 where "t1 = t\<lparr>p_childpid := Some (cp[nat fd := 0])\<rparr>"
  define t2 where "t2 = t1\<lparr>w_fds := (w_fds t1)(fd := None), w_locks := (w_locks t1)(o_path f := (\<lambda>_. None)), w_mem := w_mem t1 + sizeof_FILE\<rparr>"
  obtain e where w: "wait_for p t2 = Ok st (t2\<lparr>p_seen := p_seen t2 @ replicate (Suc n) (p_act t2, y_mask t2), w_errno := e,
      p_wait := (p_wait t2)(p := [])\<rparr>)"
    using wait_for_run[of t2 p n st es] assms(7) by (auto simp: t2_def t1_def)
  have "set_childpid fd 0 t = Ok () t1" using assms(1-3) by (simp add: set_childpid_def t1_def)
  moreover have "bnd (sys_close fd) (\<lambda>r. bnd (sys_free sizeof_FILE) (\<lambda>_. if r < 0 then ret (-1) else wait_for (cp ! nat fd))) t1 = wait_for p t2"
    using f assms(4) by (simp add: sys_close_def sys_free_def t1_def t2_def)
  ultimately have "pclose fd t = wait_for p t2" using assms(1-5) by (simp add: pclose_def)
  then show ?thesis unfolding w by (simp add: t2_def t1_def)
qed

text \<open>
  The result of the first part of \<open>popen\<close>: the array, and nothing but it, the limit and the
  memory have changed.
\<close>

lemma popen_init_ok:
  assumes "popen_init s = Ok (Some cp) t"
  shows "p_childpid t = Some cp" "w_fds t = w_fds s" "p_kids t = p_kids s" "p_pids t = p_pids s" "p_wait t = p_wait s"
    "p_progs t = p_progs s" "p_cwd t = p_cwd s"
  using assms
  by (auto simp: popen_init_def open_max_def sys_malloc_def bnd_apply split: option.splits limit.splits if_splits)

subsection \<open>A process\<close>

definition proc0 :: proc where
  "proc0 = \<lparr>w_files = Map.empty, w_fds = [0 \<mapsto> a_file ''/dev/tty1'', 1 \<mapsto> a_file ''/dev/tty1'', 2 \<mapsto> a_file ''/dev/tty1''],
     w_maxfd = 20, w_limit = 1000, w_denied = (\<lambda>_. False), w_locks = (\<lambda>_ _. None), w_others = [], w_mem = 100000, w_errno = E_OK,
     s_in = (\<lambda>_. []), s_hup = (\<lambda>_. False), s_out = (\<lambda>_. []), s_wr = (\<lambda>_. []), s_pending = [], s_names = (\<lambda>_. None),
     s_now = 100, s_pid = 43, s_cmptr = False,
     y_term = (\<lambda>_. None), y_queued = (\<lambda>_. 0), y_save = termios0,
     y_savefd = -1, y_state = RESET, y_mask = {}, y_devdir = None, y_stat = (\<lambda>_. None), y_fstat = (\<lambda>_. None),
     p_act = (\<lambda>_. \<lparr>sa_handler = SIG_DFL, sa_mask = {}, sa_flags = 0\<rparr>), p_pend = {}, p_caught = [], p_flushed = False,
     p_pids = [50, 51], p_kids = [], p_wait = (\<lambda>_. [])(50 := [Intr, Status 256]), p_seen = [],
     p_progs = (\<lambda>f. f = ''/bin/sh''), p_cwd = ''/home'', p_umask = 0x12, p_leader = False, p_npipe = 0,
     p_openmax = 0, p_pathmax = 0, p_sysconf = Limit 20, p_pathconf = Indeterminate, p_childpid = None, p_maxfd = 0\<rparr>"

text \<open>
  C18. \<open>system\<close> waits for its child however often a signal interrupts it, with \<open>SIGINT\<close> and
  \<open>SIGQUIT\<close> ignored and \<open>SIGCHLD\<close> blocked all the while; it returns the child's status and
  gives the dispositions and the mask back, and the child runs the shell under the caller's.
\<close>

theorem system_restores_signals:
  assumes "settled s" and "p_pids s = p # ps" and "0 < p" and "p_wait s p = replicate n Intr @ Status st # es"
  shows "\<exists>t k. system (Some cmd) s = Ok st t \<and> p_act t = p_act s \<and> y_mask t = y_mask s \<and>
    p_kids t = p_kids s @ [k] \<and> kd_image k = shell_image s SH cmd \<and> kd_act k = p_act s \<and> kd_mask k = y_mask s \<and>
    (\<forall>(a, m)\<in>set (waits s t). sa_handler (a SIGINT) = SIG_IGN \<and> sa_handler (a SIGQUIT) = SIG_IGN \<and> SIGCHLD \<in> m)"
  using system_runs[OF assms, of cmd] by (auto simp: ignore_act_def)

theorem system_restores_signals_witness:
  "\<exists>t. system (Some ''date'') proc0 = Ok 256 t \<and> p_act t = p_act proc0 \<and>
    map kd_image (p_kids t) = [Exec ''/bin/sh'' [''sh'', ''-c'', ''date'']]"
proof -
  have "\<exists>t k. system (Some ''date'') proc0 = Ok 256 t \<and> p_act t = p_act proc0 \<and> y_mask t = y_mask proc0 \<and>
    p_kids t = p_kids proc0 @ [k] \<and> kd_image k = shell_image proc0 SH ''date'' \<and> kd_act k = p_act proc0 \<and> kd_mask k = y_mask proc0 \<and>
    (\<forall>(a, m)\<in>set (waits proc0 t). sa_handler (a SIGINT) = SIG_IGN \<and> sa_handler (a SIGQUIT) = SIG_IGN \<and> SIGCHLD \<in> m)"
    by (rule system_restores_signals[where p = 50 and n = 1 and es = "[]"]) (simp_all add: proc0_def settled_def)
  then show ?thesis by (auto simp: shell_image_def SH_def resolve_def proc0_def)
qed

text \<open>
  C20. \<open>abort\<close> never returns: whatever the disposition of \<open>SIGABRT\<close>, whether it is blocked or
  pending, the process is killed by it, with the standard I/O streams flushed.
\<close>

theorem abort_never_returns: "halted (abort s) = Some (Abort ''signal'') \<and> p_flushed (final (abort s))"
  using abort_dies[of s] by (simp add: dies_def)

text \<open>
  C19. \<open>pclose\<close> undoes \<open>popen\<close>: the stream is one end of a pipe whose other end is the
  standard output or input of the child, which has none of the descriptors of earlier calls (and
  executes \<^verbatim>\<open>bin/sh\<close> relative to the working directory, or exits with 127);
  \<open>pclose\<close> returns the child's status, however often it is interrupted, and leaves descriptors,
  memory and the table of children as they were; a second \<open>pclose\<close> fails.
\<close>

theorem popen_pclose:
  assumes "ty = ''r'' \<or> ty = ''w''" and "popen_init s = Ok (Some cp) s0" and "sys_pipe s0 = Ok (Some (r, w)) s1"
    and "p_pids s = p # ps" and "0 < p" and "sizeof_FILE \<le> w_mem s0"
    and "fd = (if ty = ''r'' then r else w)" and "nat fd < length cp" and "cp ! nat fd = 0"
    and "p_wait s p = replicate n Intr @ Status st # es"
  shows "\<exists>t k u. popen cmd ty s = Ok fd t \<and> p_kids t = p_kids s @ [k] \<and> kd_pid k = p \<and>
    kd_image k = (if p_progs s (p_cwd s @ ''/bin/sh'') then Exec (p_cwd s @ ''/bin/sh'') [''sh'', ''-c'', cmd] else Exited 127) \<and>
    w_fds t fd = Some (if ty = ''r'' then read_end s0 else write_end s0) \<and>
    (std_end (ty = ''r'') \<notin> set (popened cp) \<longrightarrow>
       kd_fds k (std_end (ty = ''r'')) = Some (if ty = ''r'' then write_end s0 else read_end s0)) \<and>
    (\<forall>i\<in>set (popened cp). kd_fds k i = None) \<and>
    pclose fd t = Ok st u \<and> w_fds u = w_fds s \<and> p_childpid u = Some cp \<and> w_mem u = w_mem s0 \<and> pclose fd u = Ok (-1) u"
proof -
  note I = popen_init_ok[OF assms(2)] and P = sys_pipe_ok[OF assms(3)]
  obtain t k where t: "popen cmd ty s = Ok fd t" "w_fds t = (w_fds s0)(fd \<mapsto> (if ty = ''r'' then read_end s0 else write_end s0))"
      "p_childpid t = Some (cp[nat fd := p])" "w_mem t = w_mem s0 - sizeof_FILE" "p_wait t = p_wait s0"
      "p_kids t = p_kids s0 @ [k]" "kd_pid k = p" "kd_fds k = kid_fds (ty = ''r'') r w cp (w_fds s1)"
      "kd_image k = shell_image s0 SHELL cmd"
    using popen_run[OF assms(1-3) _ assms(5,6) I(1) assms(7,8), of ps cmd] assms(4) I(4) by auto
  have fd: "0 \<le> fd" "w_fds s fd = None" using P(1,2,4,5) I(2) assms(7) by auto
  obtain u where u: "pclose fd t = Ok st u" "w_fds u = (w_fds t)(fd := None)" "p_childpid u = Some ((cp[nat fd := p])[nat fd := 0])"
      "w_mem u = w_mem t + sizeof_FILE"
    using pclose_run[OF t(3) fd(1), of p n st es] t(2,5) assms(5,8,10) I(5) by auto
  have cp: "p_childpid u = Some cp" using u(3) assms(8,9) by (metis list_update_id list_update_overwrite)
  moreover have "w_fds u = w_fds s" using u(2) t(2) fd(2) I(2) by (auto simp: fun_eq_iff)
  moreover have "pclose fd u = Ok (-1) u" using cp fd(1) assms(8,9) by (simp add: pclose_def)
  moreover have "kd_fds k (std_end (ty = ''r'')) = Some (if ty = ''r'' then write_end s0 else read_end s0)"
    if "std_end (ty = ''r'') \<notin> set (popened cp)" using that t(8) P(3,6) by (simp add: kid_fds_def)
  moreover have "\<forall>i\<in>set (popened cp). kd_fds k i = None" using t(8) by (simp add: kid_fds_def)
  moreover have "kd_image k = (if p_progs s (p_cwd s @ ''/bin/sh'') then Exec (p_cwd s @ ''/bin/sh'') [''sh'', ''-c'', cmd] else Exited 127)"
    unfolding t(9) shell_image_def SHELL_def resolve_def I(6,7) by simp
  ultimately show ?thesis using t u I(3) assms(6) by auto
qed

theorem popen_pclose_witness:
  "\<exists>t k u. popen ''date'' ''r'' proc0 = Ok 3 t \<and> p_kids t = [k] \<and> kd_image k = Exited 127 \<and>
    kd_fds k 1 = Some \<lparr>o_path = ''pipe:0'', o_pos = 0, o_oflag = O_WRONLY\<rparr> \<and> pclose 3 t = Ok 256 u \<and> w_fds u = w_fds proc0"
proof -
  define s0 where "s0 = proc0\<lparr>p_openmax := 20, p_maxfd := 20, w_mem := 99920, p_childpid := Some (replicate 20 0)\<rparr>"
  have i: "popen_init proc0 = Ok (Some (replicate 20 0)) s0"
    by (simp add: popen_init_def open_max_def sys_malloc_def sizeof_pid_def s0_def proc0_def)
  have fds: "w_maxfd s0 = 20" "w_fds s0 = [0 \<mapsto> a_file ''/dev/tty1'', 1 \<mapsto> a_file ''/dev/tty1'', 2 \<mapsto> a_file ''/dev/tty1'']"
    by (simp_all add: s0_def proc0_def)
  have new: "new_fd s0 = Some 3" "new_fd (s0\<lparr>w_fds := (w_fds s0)(3 \<mapsto> f)\<rparr>) = Some 4" for f
    by (simp_all add: new_fd_def fds upt_rec[of 0] upt_rec[of "Suc _"])
  obtain s1 where p: "sys_pipe s0 = Ok (Some (3, 4)) s1"
    using new by (simp add: sys_pipe_def)
  have none: "popened (replicate 20 0) = []" by (simp add: popened_def)
  have sel: "p_pids proc0 = [50, 51]" "p_kids proc0 = []" "p_wait proc0 50 = replicate 1 Intr @ [Status 256]"
      "\<not> p_progs proc0 (p_cwd proc0 @ ''/bin/sh'')" "sizeof_FILE \<le> w_mem s0" "nat 3 < length (replicate 20 (0::int))"
      "replicate 20 (0::int) ! nat 3 = 0" "write_end s0 = \<lparr>o_path = ''pipe:0'', o_pos = 0, o_oflag = O_WRONLY\<rparr>" "std_end True = 1"
    by (simp_all add: proc0_def s0_def sizeof_FILE_def write_end_def pipe_name_def std_end_def) (code_simp)
  obtain t k u where "popen ''date'' ''r'' proc0 = Ok 3 t" "p_kids t = p_kids proc0 @ [k]"
      "kd_image k = (if p_progs proc0 (p_cwd proc0 @ ''/bin/sh'') then Exec (p_cwd proc0 @ ''/bin/sh'') [''sh'', ''-c'', ''date''] else Exited 127)"
      "std_end True \<notin> set (popened (replicate 20 0)) \<longrightarrow> kd_fds k (std_end True) = Some (write_end s0)"
      "pclose 3 t = Ok 256 u" "w_fds u = w_fds proc0"
    using popen_pclose[OF _ i p sel(1) _ sel(5) _ sel(6,7,3), of "''r''" "''date''"] by auto
  then show ?thesis using none sel(2,4,8,9) by auto
qed

text \<open>When \<open>fork\<close> fails, \<open>popen\<close> leaves both ends of the pipe open.\<close>

lemma popen_fork_failure_leaks:
  assumes "ty = ''r'' \<or> ty = ''w''" and "popen_init s = Ok (Some cp) s0" and "sys_pipe s0 = Ok (Some (r, w)) s1" and "p_pids s = []"
  shows "\<exists>t. popen cmd ty s = Ok (-1) t \<and> w_fds t = (w_fds s)(r \<mapsto> read_end s0, w \<mapsto> write_end s0)"
proof -
  have "fork c s1 = Ok (-1) (s1\<lparr>w_errno := EAGAIN\<rparr>)" for c
    using sys_pipe_ok(6)[OF assms(3)] popen_init_ok(4)[OF assms(2)] assms(4) by (simp add: fork_def fail_def)
  then show ?thesis using assms(1-3) sys_pipe_ok(6)[OF assms(3)] popen_init_ok(2)[OF assms(2)]
    by (elim disjE) (simp_all add: popen_def)
qed

end
