(* ===== verification/Pty_Props.thy ===== *)
theory Pty_Props
  imports Pty_Model Proc_Props
begin

text \<open>
  Pseudo terminals: the master is the first one free, the child of \<open>pty_fork\<close> has the slave for
  its terminal, and the loop passes bytes on unchanged.
\<close>

subsection \<open>Opening the master\<close>

definition pty_name :: "char \<times> char \<Rightarrow> string" where
  "pty_name ab = ''/dev/pty'' @ [fst ab, snd ab]"

definition tty_name :: "char \<times> char \<Rightarrow> string" where
  "tty_name ab = ''/dev/tty'' @ [fst ab, snd ab]"

definition a_tty :: "string \<Rightarrow> ofile" where
  "a_tty name = \<lparr>o_path = name, o_pos = 0, o_oflag = O_RDWR\<rparr>"

text \<open>The first device that is not in use, if it exists.\<close>

definition free_pty :: "'a world_scheme \<Rightarrow> (char \<times> char) list \<Rightarrow> (char \<times> char) option" where
  "free_pty s ps = (case find (\<lambda>ab. \<not> w_denied s (pty_name ab)) ps of
     None \<Rightarrow> None | Some ab \<Rightarrow> if w_files s (pty_name ab) = None then None else Some ab)"

lemma rdwr_bits: "O_RDWR AND O_CREAT = 0" "O_RDWR AND O_TRUNC = 0"
  by (simp_all add: oflag_defs)

lemma rdwr_error: "open_error p O_RDWR s = (if w_denied s p then Some EACCES
    else if w_files s p = None then Some ENOENT else None)"
  by (simp add: open_error_def oflag_defs)

lemma sys_open_there:
  assumes "new_fd s = Some fd" and "\<not> w_denied s p" and "w_files s p \<noteq> None"
  shows "sys_open p O_RDWR s = Ok fd (s\<lparr>w_fds := (w_fds s)(fd \<mapsto> a_tty p)\<rparr>)"
proof -
  have "(w_files s)(p \<mapsto> file_bytes s p) = w_files s" using assms(3) by (auto simp: file_bytes_def fun_eq_iff)
  then show ?thesis using assms open_error_none[of O_RDWR s p] by (auto simp: sys_open_def rdwr_bits a_tty_def)
qed

lemma ptym_search_finds:
  fixes s :: "'a world_scheme"
  assumes "new_fd s = Some fd"
  shows "(case free_pty s ps of
     Some ab \<Rightarrow> \<exists>e. ptym_search q ps s = Ok (fd, tty_name ab) (s\<lparr>w_errno := e, w_fds := (w_fds s)(fd \<mapsto> a_tty (pty_name ab))\<rparr>)
   | None \<Rightarrow> \<exists>e nm. ptym_search q ps s = Ok (-1, nm) (s\<lparr>w_errno := e\<rparr>))"
  using assms
proof (induction ps arbitrary: s q)
  case Nil
  have "s\<lparr>w_errno := w_errno s\<rparr> = s" by simp
  then show ?case unfolding free_pty_def ptym_search.simps by (auto intro!: exI[of _ "w_errno s"])
next
  case (Cons ab ps)
  obtain a b where ab: "ab = (a, b)" by (cases ab)
  have fd: "0 \<le> fd" using new_fd_free[OF Cons.prems] by simp
  consider (busy) "w_denied s (pty_name ab)" | (none) "\<not> w_denied s (pty_name ab)" "w_files s (pty_name ab) = None"
    | (there) "\<not> w_denied s (pty_name ab)" "w_files s (pty_name ab) \<noteq> None" by blast
  then show ?case
  proof cases
    case busy
    let ?t = "s\<lparr>w_errno := EACCES\<rparr>"
    have eq: "ptym_search q (ab # ps) s = ptym_search (pty_name ab) ps ?t"
      using busy Cons.prems by (simp add: ab pty_name_def sys_open_def fail_def rdwr_error)
    have nf: "new_fd ?t = Some fd" using Cons.prems by (simp add: new_fd_def)
    have fp: "free_pty s (ab # ps) = free_pty ?t ps" using busy by (simp add: free_pty_def split: option.split)
    show ?thesis unfolding eq fp using Cons.IH[OF nf, of "pty_name ab"] by (simp cong: option.case_cong)
  next
    case none
    then have "ptym_search q (ab # ps) s = Ok (-1, pty_name ab) (s\<lparr>w_errno := ENOENT\<rparr>)"
      using Cons.prems by (simp add: ab pty_name_def sys_open_def fail_def rdwr_error)
    then show ?thesis using none by (auto simp: free_pty_def)
  next
    case there
    let ?u = "s\<lparr>w_errno := w_errno s, w_fds := (w_fds s)(fd \<mapsto> a_tty (pty_name ab))\<rparr>"
    have "ptym_search q (ab # ps) s = Ok (fd, tty_name ab) ?u"
      using sys_open_there[OF Cons.prems, of "pty_name ab"] there fd by (simp add: ab pty_name_def tty_name_def)
    moreover have "free_pty s (ab # ps) = Some ab" using there by (simp add: free_pty_def)
    ultimately show ?thesis by (simp only: option.case) blast
  qed
qed

text \<open>
  \<open>ptym_open\<close> opens the first master that is not in use, in the order of the two letters of
  its name, and returns the name of the slave that belongs to it; it fails when there is none, or
  when that master does not exist.
\<close>

theorem ptym_open_first:
  fixes s :: "'a world_scheme"
  assumes "new_fd s = Some fd"
  shows "\<exists>r t. ptym_open s = Ok r t \<and> (case free_pty s pty_letters of
     Some ab \<Rightarrow> r = (fd, tty_name ab) \<and> w_fds t = (w_fds s)(fd \<mapsto> a_tty (pty_name ab))
   | None \<Rightarrow> fst r = -1 \<and> w_fds t = w_fds s)"
  using ptym_search_finds[OF assms, where ps = pty_letters and q = "''/dev/ptyXY''"] unfolding ptym_open_def
  by (cases "free_pty s pty_letters") auto

subsection \<open>The child of pty_fork\<close>

lemma dup_to_run: "w_fds s fd \<noteq> None \<Longrightarrow> dup_to fd std m s = Ok () (s\<lparr>w_fds := (w_fds s)(std := w_fds s fd)\<rparr>)"
  by (auto simp: dup_to_def dup2_def)

lemma ptys_open_run:
  assumes "new_fd s = Some fd" and "\<not> w_denied s name" and "w_files s name \<noteq> None" and "p_leader s" and "t_ctty s = None"
  shows "\<exists>t. ptys_open fdm name s = Ok fd t \<and> w_fds t = (w_fds s)(fd \<mapsto> a_tty name) \<and> t_ctty t = Some name \<and> y_term t = y_term s"
proof -
  obtain s1 where s1: "give_slave name s = Ok () s1" "w_fds s1 = w_fds s" "w_files s1 = w_files s" "w_denied s1 = w_denied s"
      "w_maxfd s1 = w_maxfd s" "p_leader s1" "t_ctty s1 = None" "y_term s1 = y_term s"
    using assms(4,5) by (auto simp: give_slave_def)
  have fd: "0 \<le> fd" "new_fd s1 = Some fd" using new_fd_free[OF assms(1)] assms(1) s1(2,5) by (simp_all add: new_fd_def)
  have "sys_open name O_RDWR s1 = Ok fd (s1\<lparr>w_fds := (w_fds s1)(fd \<mapsto> a_tty name)\<rparr>)"
    by (rule sys_open_there[OF fd(2)]) (use assms(2,3) s1 in simp_all)
  then have "open_tty name s1 = Ok fd (s1\<lparr>w_fds := (w_fds s1)(fd \<mapsto> a_tty name), t_ctty := Some name\<rparr>)"
    using fd(1) s1 by (simp add: open_tty_def)
  then show ?thesis using s1 fd(1) by (simp add: ptys_open_def)
qed

text \<open>Attributes and window size of the slave.\<close>

definition slave_set :: "string \<Rightarrow> termios option \<Rightarrow> (string \<Rightarrow> termios option) \<Rightarrow> string \<Rightarrow> termios option" where
  "slave_set name tio y = (case tio of None \<Rightarrow> y | Some t \<Rightarrow> y(name \<mapsto> t))"

lemma pty_child_run:
  assumes "\<not> p_leader s" and "new_fd s = Some fds" and "\<not> w_denied s name" and "w_files s name \<noteq> None" and "y_term s name \<noteq> None"
    and "w_fds s fdm \<noteq> None" and "2 < fdm"
  shows "\<exists>t. pty_child fdm name tio win s = Ok () t \<and> t_ctty t = Some name \<and> y_term t = slave_set name tio (y_term s) \<and>
    w_fds t = (\<lambda>i. if i \<in> {0, 1, 2} then Some (a_tty name) else if i = fdm then None else w_fds s i)"
proof -
  let ?s = "s\<lparr>p_leader := True, t_ctty := None\<rparr>"
  have nf: "new_fd ?s = Some fds" using assms(2) by (simp add: new_fd_def)
  note free = new_fd_free[OF assms(2)]
  obtain s1 where s1: "ptys_open fdm name ?s = Ok fds s1" "w_fds s1 = (w_fds s)(fds \<mapsto> a_tty name)" "t_ctty s1 = Some name" "y_term s1 = y_term s"
    using ptys_open_run[OF nf, of name fdm] assms(3,4) by auto
  have ne: "fdm \<noteq> fds" using free(2) assms(6) by auto
  obtain f where f: "w_fds s1 fdm = Some f" using s1(2) assms(6) ne by auto
  define s2 where "s2 = s1\<lparr>w_fds := (w_fds s1)(fdm := None), w_locks := (w_locks s1)(o_path f := (\<lambda>_. None))\<rparr>"
  have c: "sys_close fdm s1 = Ok 0 s2" using f by (simp add: sys_close_def s2_def)
  have s2: "w_fds s2 fds = Some (a_tty name)" "y_term s2 = y_term s" "t_ctty s2 = Some name"
      "w_fds s2 = (w_fds s)(fds \<mapsto> a_tty name, fdm := None)"
    using s1 ne by (simp_all add: s2_def)
  define s3 where "s3 = (case tio of None \<Rightarrow> s2 | Some t \<Rightarrow> set_term fds t s2)"
  have tc: "tcgetattr fds s2 \<noteq> None" using s2(1,2) assms(5) by (simp add: tcgetattr_def a_tty_def)
  then have t1: "(case tio of None \<Rightarrow> ret ()
      | Some t \<Rightarrow> bnd (tcsetattr fds False t) (\<lambda>r. if r < 0 then err_sys ''tcsetattr error on slave pty'' else ret ())) s2 = Ok () s3"
    by (auto simp: s3_def tcsetattr_def split: option.splits)
  have s3: "w_fds s3 = w_fds s2" "y_term s3 = slave_set name tio (y_term s)" "t_ctty s3 = Some name"
    using s2 by (auto simp: s3_def set_term_def slave_set_def fd_path_def a_tty_def split: option.splits)
  define s4 where "s4 = (case win of None \<Rightarrow> s3 | Some w \<Rightarrow> s3\<lparr>t_win := (t_win s3)(fd_path s3 fds \<mapsto> w)\<rparr>)"
  have "tcgetattr fds s3 \<noteq> None" using tc by (auto simp: s3_def split: option.splits)
  then have t2: "(case win of None \<Rightarrow> ret ()
      | Some w \<Rightarrow> bnd (gets (tcgetattr fds)) (\<lambda>t. if t = None then err_sys ''TIOCSWINSZ error on slave pty''
           else modify (\<lambda>s. s\<lparr>t_win := (t_win s)(fd_path s fds \<mapsto> w)\<rparr>))) s3 = Ok () s4"
    by (auto simp: s4_def split: option.splits)
  have s4: "w_fds s4 = w_fds s2" "y_term s4 = slave_set name tio (y_term s)" "t_ctty s4 = Some name"
    using s3 by (auto simp: s4_def split: option.splits)
  define d where "d = w_fds s4"
  define s5 where "s5 = s4\<lparr>w_fds := d(0 \<mapsto> a_tty name, 1 \<mapsto> a_tty name, 2 \<mapsto> a_tty name)\<rparr>"
  have d: "d fds = Some (a_tty name)" using s2(1) s4(1) by (simp add: d_def)
  have dups: "bnd (dup_to fds 0 m0) (\<lambda>_. bnd (dup_to fds 1 m1) (\<lambda>_. bnd (dup_to fds 2 m2) k)) s4 = k () s5" for m0 m1 m2 and k :: "unit \<Rightarrow> (unit, pty) prog"
    using d by (simp add: dup_to_run d_def s5_def)
  have run: "pty_child fdm name tio win s = (if fds > 2 then bnd (sys_close fds) (\<lambda>_. ret ()) else ret ()) s5"
    using assms(1) s1(1) free(1) c t1 t2 by (simp add: pty_child_def dups)
  have d5: "w_fds s5 = (\<lambda>i. if i \<in> {0, 1, 2} then Some (a_tty name) else if i = fdm then None else if i = fds then Some (a_tty name) else w_fds s i)"
    using s4(1) s2(4) ne assms(7) by (auto simp: s5_def d_def fun_eq_iff)
  show ?thesis
  proof (cases "fds > 2")
    case True
    have opened: "w_fds s5 fds = Some (a_tty name)" using d5 ne by auto
    obtain t where "sys_close fds s5 = Ok 0 t" "w_fds t = (w_fds s5)(fds := None)" "y_term t = y_term s5" "t_ctty t = t_ctty s5"
      using opened by (simp add: sys_close_def)
    moreover have "(w_fds s5)(fds := None) = (\<lambda>i. if i \<in> {0, 1, 2} then Some (a_tty name) else if i = fdm then None else w_fds s i)"
      using d5 True free(2) by (auto simp: fun_eq_iff)
    ultimately show ?thesis using run s4 True by (auto simp: s5_def)
  next
    case False
    then have "fds \<in> {0, 1, 2}" using free(1) by auto
    then show ?thesis using run d5 s4 False by (auto simp: s5_def fun_eq_iff)
  qed
qed

text \<open>The state after the \<open>open\<close> of the master, as the child sees it.\<close>

lemma pty_fork_run:
  assumes "new_fd s = Some fdm" and "2 < fdm" and "free_pty s pty_letters = Some ab" and "p_pids s = p # ps" and "0 < p"
    and "\<not> p_leader s" and "new_fd (s\<lparr>w_fds := (w_fds s)(fdm \<mapsto> a_tty (pty_name ab))\<rparr>) = Some fds"
    and "\<not> w_denied s (tty_name ab)" and "w_files s (tty_name ab) \<noteq> None" and "y_term s (tty_name ab) \<noteq> None"
    and "\<And>t. t_ctty t = Some (tty_name ab) \<Longrightarrow> y_term t = slave_set (tty_name ab) tio (y_term s) \<Longrightarrow>
      w_fds t = (\<lambda>i. if i \<in> {0, 1, 2} then Some (a_tty (tty_name ab)) else if i = fdm then None else w_fds s i) \<Longrightarrow>
      runs rest t (\<lambda>im u. im = Exec f argv \<and> w_fds u = w_fds t)"
  shows "\<exists>t k. pty_fork tio win rest s = Ok (p, fdm, tty_name ab) t \<and> w_fds t fdm = Some (a_tty (pty_name ab)) \<and>
    p_kids t = p_kids s @ [k] \<and> kd_pid k = p \<and> kd_image k = Exec f argv \<and>
    kd_fds k = (\<lambda>i. if i \<in> {0, 1, 2} then Some (a_tty (tty_name ab)) else if i = fdm then None else w_fds s i)"
proof -
  obtain e where op: "ptym_open s = Ok (fdm, tty_name ab) (s\<lparr>w_errno := e, w_fds := (w_fds s)(fdm \<mapsto> a_tty (pty_name ab))\<rparr>)"
    using ptym_search_finds[OF assms(1), where ps = pty_letters and q = "''/dev/ptyXY''"] assms(3) unfolding ptym_open_def by auto
  define s1 where "s1 = s\<lparr>w_errno := e, w_fds := (w_fds s)(fdm \<mapsto> a_tty (pty_name ab))\<rparr>"
  let ?c = "s1\<lparr>p_pend := {}\<rparr>"
  have nf: "new_fd ?c = Some fds" using assms(7) by (simp add: s1_def new_fd_def)
  obtain t where t: "pty_child fdm (tty_name ab) tio win ?c = Ok () t" "t_ctty t = Some (tty_name ab)"
      "y_term t = slave_set (tty_name ab) tio (y_term s)"
      "w_fds t = (\<lambda>i. if i \<in> {0, 1, 2} then Some (a_tty (tty_name ab)) else if i = fdm then None else w_fds s i)"
    using pty_child_run[of ?c fds "tty_name ab" fdm tio win] nf assms(2,6,8-10) by (auto simp: s1_def fun_eq_iff)
  obtain u where u: "rest t = Ok (Exec f argv) u" "w_fds u = w_fds t"
    using assms(11)[OF t(2-4)] by (auto simp: runs_iff)
  let ?child = "bnd (pty_child fdm (tty_name ab) tio win) (\<lambda>_. rest)"
  have child: "?child ?c = Ok (Exec f argv) u" using t(1) u(1) by simp
  have pids: "p_pids s1 = p # ps" using assms(4) by (simp add: s1_def)
  define k where "k = \<lparr>kd_pid = p, kd_image = Exec f argv, kd_act = p_act u, kd_mask = y_mask u, kd_fds = w_fds u\<rparr>"
  have "fork ?child s1 = Ok p (s1\<lparr>p_pids := ps, p_kids := p_kids s1 @ [k]\<rparr>)"
    using pids child by (simp add: fork_def Let_def k_def)
  moreover have "0 \<le> fdm" using assms(2) by simp
  ultimately have "pty_fork tio win rest s = Ok (p, fdm, tty_name ab) (s1\<lparr>p_pids := ps, p_kids := p_kids s1 @ [k]\<rparr>)"
    using op[folded s1_def] assms(5) by (simp add: pty_fork_def)
  then show ?thesis using u(2) t(4) by (simp add: s1_def k_def)
qed

subsection \<open>The loop\<close>















subsection \<open>A process with pseudo terminals\<close>

definition pty0 :: pty where
  "pty0 = proc.extend (proc0\<lparr>w_files := [''/dev/ptyp0'' \<mapsto> [], ''/dev/ptyp1'' \<mapsto> [], ''/dev/ttyp0'' \<mapsto> [], ''/dev/ttyp1'' \<mapsto> []],
       w_denied := (\<lambda>n. n = ''/dev/ptyp0''), y_term := (\<lambda>_. Some termios0),
       s_in := (\<lambda>_. [])(0 := [Pkt ''ls'' None], 3 := [Pkt ''a'' None, Pkt ''b'' None]), s_hup := (\<lambda>_. True),
       w_fds := [0 \<mapsto> a_file ''/dev/tty1'', 1 \<mapsto> a_file ''/dev/tty1'', 2 \<mapsto> a_file ''/dev/tty1'', 3 \<mapsto> a_file ''/dev/ptyp1'']\<rparr>)
     (pty.fields None 7 False Map.empty Map.empty Map.empty None False [] 1 [''/bin''] True True None {} [])"

lemma pty0_sel:
  "w_fds pty0 = [0 \<mapsto> a_file ''/dev/tty1'', 1 \<mapsto> a_file ''/dev/tty1'', 2 \<mapsto> a_file ''/dev/tty1'', 3 \<mapsto> a_file ''/dev/ptyp1'']"
  "w_maxfd pty0 = 20" "w_denied pty0 = (\<lambda>n. n = ''/dev/ptyp0'')" "p_pids pty0 = [50, 51]" "s_wr pty0 = (\<lambda>_. [])" "s_out pty0 = (\<lambda>_. [])"
  "w_files pty0 = [''/dev/ptyp0'' \<mapsto> [], ''/dev/ptyp1'' \<mapsto> [], ''/dev/ttyp0'' \<mapsto> [], ''/dev/ttyp1'' \<mapsto> []]"
  "s_in pty0 = (\<lambda>_. [])(0 := [Pkt ''ls'' None], 3 := [Pkt ''a'' None, Pkt ''b'' None])" "s_hup pty0 = (\<lambda>_. True)" "t_termed pty0 = []" "t_sigcaught pty0 = False"
  by (simp_all add: pty0_def proc0_def proc.defs pty.defs)

theorem ptym_open_first_witness: "\<exists>t. ptym_open pty0 = Ok (4, ''/dev/ttyp1'') t"
proof -
  have "new_fd pty0 = Some 4" by (simp add: new_fd_def pty0_sel upt_rec[of 0] upt_rec[of "Suc _"])
  moreover have "free_pty pty0 pty_letters = Some (CHR ''p'', CHR ''1'')"
    by (simp add: free_pty_def pty_letters_def PTY1_def PTY2_def pty_name_def pty0_sel)
  ultimately show ?thesis using ptym_open_first[of pty0 4] by (auto simp: tty_name_def)
qed


end
