(* ===== verification/Sync.thy ===== *)
theory Sync
  imports Proc_Model "HOL-Library.Sublist"
begin

text \<open>
  A parent and its child that take turns: \<open>TELL_WAIT\<close>, \<open>TELL_PARENT\<close>, \<open>WAIT_PARENT\<close>,
  \<open>TELL_CHILD\<close> and \<open>WAIT_CHILD\<close>, once with signals (\<^verbatim>\<open>signal-sync.c\<close>) and once with pipes
  (\<^verbatim>\<open>pipe-func.c\<close>).

  Both processes run at the same time, so a wait is a sequence of small steps between which the
  other process may do anything. What the two share is the type \<open>'m\<close>, the place that a process has
  reached inside a wait is the type \<open>'w\<close>. The locale \<open>handshake\<close> states what a mechanism promises
  and derives that the turns are taken in order and that nobody waits forever; it is interpreted
  for both mechanisms.
\<close>

subsection \<open>The system of two processes\<close>

record ('m, 'w) sync =
  tell_child :: "'m \<Rightarrow> 'm"
  tell_parent :: "'m \<Rightarrow> 'm"
  wait_parent :: "'m \<Rightarrow> 'w \<Rightarrow> ('m \<times> 'w) option"   \<comment> \<open>a step of the child; \<open>None\<close>: it is blocked\<close>
  wait_child :: "'m \<Rightarrow> 'w \<Rightarrow> ('m \<times> 'w) option"    \<comment> \<open>a step of the parent\<close>
  start :: 'w
  past :: "'w \<Rightarrow> bool"

datatype ppc = P_Work | P_Tell | P_Wait | P_Rest | P_End
datatype cpc = C_Wait | C_Work | C_Tell | C_End
datatype event = Parent_first | Child_turn | Parent_last

record ('m, 'w) duo =
  du_mem :: 'm
  du_ppc :: ppc
  du_pw :: 'w
  du_cpc :: cpc
  du_cw :: 'w
  du_log :: "event list"

text \<open>
  After the \<open>fork\<close> the parent does its first part, tells the child, waits for it and does the
  rest; the child waits for the parent, has its turn and tells the parent.
\<close>

definition duo_init :: "('m, 'w) sync \<Rightarrow> 'm \<Rightarrow> ('m, 'w) duo" where
  "duo_init S m = \<lparr>du_mem = m, du_ppc = P_Work, du_pw = start S, du_cpc = C_Wait, du_cw = start S, du_log = []\<rparr>"

inductive dstep :: "('m, 'w) sync \<Rightarrow> ('m, 'w) duo \<Rightarrow> ('m, 'w) duo \<Rightarrow> bool" for S where
  p_work: "du_ppc d = P_Work \<Longrightarrow> dstep S d (d\<lparr>du_ppc := P_Tell, du_log := du_log d @ [Parent_first]\<rparr>)"
| p_tell: "du_ppc d = P_Tell \<Longrightarrow> dstep S d (d\<lparr>du_ppc := P_Wait, du_mem := tell_child S (du_mem d)\<rparr>)"
| p_wait: "du_ppc d = P_Wait \<Longrightarrow> wait_child S (du_mem d) (du_pw d) = Some (m, w) \<Longrightarrow>
    dstep S d (d\<lparr>du_ppc := (if past S w then P_Rest else P_Wait), du_mem := m, du_pw := w\<rparr>)"
| p_rest: "du_ppc d = P_Rest \<Longrightarrow> dstep S d (d\<lparr>du_ppc := P_End, du_log := du_log d @ [Parent_last]\<rparr>)"
| c_wait: "du_cpc d = C_Wait \<Longrightarrow> wait_parent S (du_mem d) (du_cw d) = Some (m, w) \<Longrightarrow>
    dstep S d (d\<lparr>du_cpc := (if past S w then C_Work else C_Wait), du_mem := m, du_cw := w\<rparr>)"
| c_work: "du_cpc d = C_Work \<Longrightarrow> dstep S d (d\<lparr>du_cpc := C_Tell, du_log := du_log d @ [Child_turn]\<rparr>)"
| c_tell: "du_cpc d = C_Tell \<Longrightarrow> dstep S d (d\<lparr>du_cpc := C_End, du_mem := tell_parent S (du_mem d)\<rparr>)"

inductive_cases dstepE: "dstep S d e"

subsection \<open>What a mechanism promises\<close>

text \<open>
  \<open>ok tc v tp w m\<close>: a state of the mechanism in which the child has been told or not (\<open>tc\<close>),
  the parent has been told or not (\<open>tp\<close>), and the two are at \<open>v\<close> and \<open>w\<close> inside their
  waits. \<open>rank\<close> bounds the steps a wait still takes.
\<close>

locale handshake =
  fixes S :: "('m, 'w) sync" and m0 :: 'm
    and ok :: "bool \<Rightarrow> 'w \<Rightarrow> bool \<Rightarrow> 'w \<Rightarrow> 'm \<Rightarrow> bool"
    and rank :: "'w \<Rightarrow> nat"
  assumes ok_init: "ok False (start S) False (start S) m0"
    and start_not_past: "\<not> past S (start S)"
    and told_child: "ok False v False w m \<Longrightarrow> \<not> past S v \<Longrightarrow> ok True v False w (tell_child S m)"
    and told_parent: "ok True v False w m \<Longrightarrow> past S v \<Longrightarrow> ok True v True w (tell_parent S m)"
    and parent_waits: "ok tc v tp w m \<Longrightarrow> tc \<Longrightarrow> \<not> past S w \<Longrightarrow> wait_child S m w = Some (m', w') \<Longrightarrow>
      ok tc v tp w' m' \<and> (past S w' \<longrightarrow> tp) \<and> rank w' < rank w"
    and child_waits: "ok tc v tp w m \<Longrightarrow> \<not> tp \<Longrightarrow> \<not> past S v \<Longrightarrow> wait_parent S m v = Some (m', v') \<Longrightarrow>
      ok tc v' tp w m' \<and> (past S v' \<longrightarrow> tc) \<and> rank v' < rank v"
    and parent_wakes: "ok tc v True w m \<Longrightarrow> \<not> past S w \<Longrightarrow> wait_child S m w \<noteq> None"
    and child_wakes: "ok True v tp w m \<Longrightarrow> \<not> past S v \<Longrightarrow> wait_parent S m v \<noteq> None"
begin

definition told_c :: "('m, 'w) duo \<Rightarrow> bool" where
  "told_c d \<longleftrightarrow> du_ppc d \<notin> {P_Work, P_Tell}"

definition told_p :: "('m, 'w) duo \<Rightarrow> bool" where
  "told_p d \<longleftrightarrow> du_cpc d = C_End"

text \<open>The log as a function of the two program counters.\<close>

definition inv :: "('m, 'w) duo \<Rightarrow> bool" where
  "inv d \<longleftrightarrow>
     ok (told_c d) (du_cw d) (told_p d) (du_pw d) (du_mem d) \<and>
     (past S (du_cw d) \<longleftrightarrow> du_cpc d \<noteq> C_Wait) \<and> (past S (du_pw d) \<longleftrightarrow> du_ppc d \<in> {P_Rest, P_End}) \<and>
     (du_cpc d \<noteq> C_Wait \<longrightarrow> told_c d) \<and> (du_ppc d \<in> {P_Rest, P_End} \<longrightarrow> told_p d) \<and>
     du_log d = (if du_ppc d = P_Work then [] else [Parent_first]) @ (if du_cpc d \<in> {C_Tell, C_End} then [Child_turn] else []) @
       (if du_ppc d = P_End then [Parent_last] else [])"

lemma inv_init: "inv (duo_init S m0)"
  using ok_init start_not_past by (simp add: inv_def duo_init_def told_c_def told_p_def)

lemma inv_step: "dstep S d e \<Longrightarrow> inv d \<Longrightarrow> inv e"
proof (induction rule: dstep.induct)
  case (p_tell d)
  then show ?case using told_child[of "du_cw d" "du_pw d" "du_mem d"] by (auto simp: inv_def told_c_def told_p_def)
next
  case (p_wait d m w)
  then show ?case using parent_waits[of "told_c d" "du_cw d" "told_p d" "du_pw d" "du_mem d" m w]
    by (auto simp: inv_def told_c_def told_p_def)
next
  case (c_wait d m w)
  then show ?case using child_waits[of "told_c d" "du_cw d" "told_p d" "du_pw d" "du_mem d" m w]
    by (auto simp: inv_def told_c_def told_p_def)
next
  case (c_tell d)
  then show ?case using told_parent[of "du_cw d" "du_pw d" "du_mem d"] by (auto simp: inv_def told_c_def told_p_def)
qed (auto simp: inv_def told_c_def told_p_def)

lemma inv_steps: "(dstep S)\<^sup>*\<^sup>* (duo_init S m0) d \<Longrightarrow> inv d"
  by (induction rule: rtranclp_induct) (auto intro: inv_init inv_step)

text \<open>In every reachable state the turns so far are in order, and only a finished system is stuck.\<close>

lemma turns_in_order:
  assumes "(dstep S)\<^sup>*\<^sup>* (duo_init S m0) d"
  shows "prefix (du_log d) [Parent_first, Child_turn, Parent_last]"
  using inv_steps[OF assms] by (cases "du_ppc d"; cases "du_cpc d") (auto simp: inv_def told_c_def told_p_def)

lemma not_stuck:
  assumes "(dstep S)\<^sup>*\<^sup>* (duo_init S m0) d" and "\<And>e. \<not> dstep S d e"
  shows "du_log d = [Parent_first, Child_turn, Parent_last]"
proof -
  note I = inv_steps[OF assms(1)]
  have p: "du_ppc d \<in> {P_Wait, P_End}" using assms(2) by (cases "du_ppc d") (auto intro: dstep.intros)
  have "du_cpc d \<in> {C_Wait, C_End}" using assms(2) by (cases "du_cpc d") (auto intro: dstep.intros)
  moreover have "du_cpc d \<noteq> C_Wait"
  proof
    assume c: "du_cpc d = C_Wait"
    have "told_c d" using p by (auto simp: told_c_def)
    then have "wait_parent S (du_mem d) (du_cw d) \<noteq> None" using I c child_wakes unfolding inv_def by metis
    then show False using c assms(2) by (auto intro: dstep.c_wait)
  qed
  ultimately have c: "du_cpc d = C_End" by auto
  moreover have "du_ppc d \<noteq> P_Wait"
  proof
    assume w: "du_ppc d = P_Wait"
    have "told_p d" using c by (simp add: told_p_def)
    then have "wait_child S (du_mem d) (du_pw d) \<noteq> None" using I w parent_wakes unfolding inv_def by (metis insertE ppc.distinct singletonD)
    then show False using w assms(2) by (auto intro: dstep.p_wait)
  qed
  ultimately show ?thesis using I p by (auto simp: inv_def)
qed

text \<open>Every step brings the system nearer to its end.\<close>

definition left :: "('m, 'w) duo \<Rightarrow> nat" where
  "left d = (case du_ppc d of P_Work \<Rightarrow> 4 | P_Tell \<Rightarrow> 3 | P_Wait \<Rightarrow> 2 | P_Rest \<Rightarrow> 1 | P_End \<Rightarrow> 0) +
     (case du_cpc d of C_Wait \<Rightarrow> 3 | C_Work \<Rightarrow> 2 | C_Tell \<Rightarrow> 1 | C_End \<Rightarrow> 0) + rank (du_pw d) + rank (du_cw d)"

lemma step_left: "dstep S d e \<Longrightarrow> inv d \<Longrightarrow> left e < left d"
proof (induction rule: dstep.induct)
  case (p_wait d m w)
  then show ?case using parent_waits[of "told_c d" "du_cw d" "told_p d" "du_pw d" "du_mem d" m w]
    by (auto simp: inv_def told_c_def told_p_def left_def)
next
  case (c_wait d m w)
  then show ?case using child_waits[of "told_c d" "du_cw d" "told_p d" "du_pw d" "du_mem d" m w]
    by (auto simp: inv_def told_c_def told_p_def left_def)
qed (simp_all add: left_def)

lemma steps_left: "(dstep S ^^ n) d e \<Longrightarrow> inv d \<Longrightarrow> n + left e \<le> left d"
proof (induction n arbitrary: e)
  case (Suc n)
  then obtain c where c: "(dstep S ^^ n) d c" "dstep S c e" by (auto simp: OO_def)
  have "inv c" using c(1) Suc.prems(2) by (induction n arbitrary: c) (auto simp: OO_def intro: inv_step)
  then show ?case using Suc.IH[OF c(1) Suc.prems(2)] step_left[OF c(2)] by simp
qed simp

lemma run_bounded: "(dstep S ^^ n) (duo_init S m0) d \<Longrightarrow> n \<le> 7 + 2 * rank (start S)"
  using steps_left[OF _ inv_init] by (fastforce simp: left_def duo_init_def)

end

subsection \<open>With signals\<close>

text \<open>
  What the routines use of a process: its signal mask, pending signals, the signals for which
  \<open>sig_usr\<close> is the handler, and the static variables \<open>sigflag\<close> and \<open>oldmask\<close>. A signal that
  is not caught kills.
\<close>

record sproc =
  sp_mask :: "int set"
  sp_pend :: "int set"
  sp_catch :: "int set"
  sp_dead :: bool
  sp_sigflag :: bool
  sp_oldmask :: "int set"

definition take_usr :: "int set \<Rightarrow> sproc \<Rightarrow> sproc" where
  "take_usr gs p =
     (if gs = {} then p
      else if gs \<subseteq> sp_catch p then p\<lparr>sp_sigflag := True\<rparr>
      else p\<lparr>sp_dead := True\<rparr>)"

text \<open>\<open>kill\<close> from the other process, \<open>sigprocmask\<close> and \<open>sigsuspend\<close> with an empty mask.\<close>

definition post_sig :: "int \<Rightarrow> sproc \<Rightarrow> sproc" where
  "post_sig g p = (if g \<in> sp_mask p then p\<lparr>sp_pend := insert g (sp_pend p)\<rparr> else take_usr {g} p)"

definition set_smask :: "int set \<Rightarrow> sproc \<Rightarrow> sproc" where
  "set_smask m p = take_usr (sp_pend p - m) (p\<lparr>sp_mask := m, sp_pend := sp_pend p \<inter> m\<rparr>)"

definition sigsuspend_zero :: "sproc \<Rightarrow> sproc option" where
  "sigsuspend_zero p = (if sp_pend p = {} then None else Some (take_usr (sp_pend p) (p\<lparr>sp_pend := {}\<rparr>)))"

definition TELL_WAIT :: "sproc \<Rightarrow> sproc" where
  "TELL_WAIT p =
     (let p1 = p\<lparr>sp_catch := sp_catch p \<union> {SIGUSR1, SIGUSR2}\<rparr> in
      set_smask (sp_mask p1 \<union> {SIGUSR1, SIGUSR2}) (p1\<lparr>sp_oldmask := sp_mask p1\<rparr>))"

text \<open>The places inside \<open>WAIT_PARENT\<close> and \<open>WAIT_CHILD\<close>; \<open>W_Test True\<close> is the test after \<open>sigsuspend\<close> has returned.\<close>

datatype wpc = W_Test bool | W_Suspend | W_Reset | W_Mask | W_Past

fun wait_step :: "sproc \<Rightarrow> wpc \<Rightarrow> (sproc \<times> wpc) option" where
  "wait_step p (W_Test again) = Some (p, if sp_sigflag p then W_Reset else W_Suspend)"
| "wait_step p W_Suspend = map_option (\<lambda>p'. (p', W_Test True)) (sigsuspend_zero p)"
| "wait_step p W_Reset = Some (p\<lparr>sp_sigflag := False\<rparr>, W_Mask)"
| "wait_step p W_Mask = Some (set_smask (sp_oldmask p) p, W_Past)"
| "wait_step p W_Past = None"

text \<open>The parent and the child.\<close>

type_synonym pair = "sproc \<times> sproc"

definition TELL_CHILD :: "pair \<Rightarrow> pair" where
  "TELL_CHILD m = (fst m, post_sig SIGUSR1 (snd m))"

definition TELL_PARENT :: "pair \<Rightarrow> pair" where
  "TELL_PARENT m = (post_sig SIGUSR2 (fst m), snd m)"

definition WAIT_PARENT :: "pair \<Rightarrow> wpc \<Rightarrow> (pair \<times> wpc) option" where
  "WAIT_PARENT m w = map_option (\<lambda>(p, w'). ((fst m, p), w')) (wait_step (snd m) w)"

definition WAIT_CHILD :: "pair \<Rightarrow> wpc \<Rightarrow> (pair \<times> wpc) option" where
  "WAIT_CHILD m w = map_option (\<lambda>(p, w'). ((p, snd m), w')) (wait_step (fst m) w)"

definition signal_sync :: "(pair, wpc) sync" where
  "signal_sync = \<lparr>tell_child = TELL_CHILD, tell_parent = TELL_PARENT, wait_parent = WAIT_PARENT, wait_child = WAIT_CHILD,
     start = W_Test False, past = (\<lambda>w. w = W_Past)\<rparr>"

text \<open>After \<open>TELL_WAIT\<close> and \<open>fork\<close>, in a process with the mask \<open>m\<close> that catches the signals \<open>c\<close>.\<close>

definition signal_start :: "int set \<Rightarrow> int set \<Rightarrow> pair" where
  "signal_start m c =
     (let p = TELL_WAIT \<lparr>sp_mask = m, sp_pend = {}, sp_catch = c, sp_dead = False, sp_sigflag = False, sp_oldmask = {}\<rparr> in (p, p))"

text \<open>A process at a place of its wait that has been sent the signal \<open>g\<close> or not.\<close>

definition wait_ok :: "int \<Rightarrow> bool \<Rightarrow> wpc \<Rightarrow> sproc \<Rightarrow> bool" where
  "wait_ok g told w p \<longleftrightarrow> \<not> sp_dead p \<and> {SIGUSR1, SIGUSR2} \<subseteq> sp_catch p \<and> (w \<noteq> W_Past \<longrightarrow> {SIGUSR1, SIGUSR2} \<subseteq> sp_mask p) \<and>
     (sp_sigflag p \<longleftrightarrow> w \<in> {W_Test True, W_Reset}) \<and>
     (w \<notin> {W_Test False, W_Suspend} \<longrightarrow> told) \<and>
     sp_pend p = (if told \<and> w \<in> {W_Test False, W_Suspend} then {g} else {})"

definition signal_ok :: "bool \<Rightarrow> wpc \<Rightarrow> bool \<Rightarrow> wpc \<Rightarrow> pair \<Rightarrow> bool" where
  "signal_ok tc v tp w m \<longleftrightarrow> wait_ok SIGUSR1 tc v (snd m) \<and> wait_ok SIGUSR2 tp w (fst m)"

fun wait_rank :: "wpc \<Rightarrow> nat" where
  "wait_rank (W_Test b) = (if b then 3 else 5)"
| "wait_rank W_Suspend = 4"
| "wait_rank W_Reset = 2"
| "wait_rank W_Mask = 1"
| "wait_rank W_Past = 0"

lemma wait_ok_post:
  assumes "wait_ok g False w p" and "g = SIGUSR1 \<or> g = SIGUSR2"
  shows "wait_ok g True w (post_sig g p)"
proof -
  have w: "w = W_Test False \<or> w = W_Suspend" using assms(1) by (auto simp: wait_ok_def)
  then have "g \<in> sp_mask p" using assms by (auto simp: wait_ok_def)
  then show ?thesis using assms(1) w by (auto simp: wait_ok_def post_sig_def)
qed

lemma wait_ok_step:
  assumes "wait_ok g told w p" and "g = SIGUSR1 \<or> g = SIGUSR2" and "wait_step p w = Some (p', w')"
  shows "wait_ok g told w' p' \<and> (w' = W_Past \<longrightarrow> told) \<and> wait_rank w' < wait_rank w"
proof (cases w)
  case (W_Test b)
  then show ?thesis using assms by (cases b) (auto simp: wait_ok_def split: if_splits)
next
  case W_Suspend
  then show ?thesis using assms by (auto simp: wait_ok_def sigsuspend_zero_def take_usr_def split: if_splits)
next
  case W_Reset
  then show ?thesis using assms by (auto simp: wait_ok_def)
next
  case W_Mask
  then show ?thesis using assms by (auto simp: wait_ok_def set_smask_def take_usr_def)
qed (use assms in simp)

lemma wait_ok_wakes: "wait_ok g True w p \<Longrightarrow> w \<noteq> W_Past \<Longrightarrow> wait_step p w \<noteq> None"
  by (cases w) (auto simp: wait_ok_def sigsuspend_zero_def)

interpretation sg: handshake signal_sync "signal_start m c" signal_ok wait_rank
proof
  show "signal_ok False (start signal_sync) False (start signal_sync) (signal_start m c)"
    by (simp add: signal_ok_def wait_ok_def signal_sync_def signal_start_def TELL_WAIT_def Let_def set_smask_def take_usr_def)
  fix tc v tp w n n' u
  show "signal_ok False v False w n \<Longrightarrow> signal_ok True v False w (tell_child signal_sync n)"
    using wait_ok_post by (simp add: signal_ok_def signal_sync_def TELL_CHILD_def)
  show "signal_ok True v False w n \<Longrightarrow> signal_ok True v True w (tell_parent signal_sync n)"
    using wait_ok_post by (simp add: signal_ok_def signal_sync_def TELL_PARENT_def)
  show "signal_ok tc v tp w n \<Longrightarrow> wait_child signal_sync n w = Some (n', u) \<Longrightarrow>
      signal_ok tc v tp u n' \<and> (past signal_sync u \<longrightarrow> tp) \<and> wait_rank u < wait_rank w"
    using wait_ok_step[of SIGUSR2 tp w "fst n"] by (auto simp: signal_ok_def signal_sync_def WAIT_CHILD_def)
  show "signal_ok tc v tp w n \<Longrightarrow> wait_parent signal_sync n v = Some (n', u) \<Longrightarrow>
      signal_ok tc u tp w n' \<and> (past signal_sync u \<longrightarrow> tc) \<and> wait_rank u < wait_rank v"
    using wait_ok_step[of SIGUSR1 tc v "snd n"] by (auto simp: signal_ok_def signal_sync_def WAIT_PARENT_def)
  show "signal_ok tc v True w n \<Longrightarrow> \<not> past signal_sync w \<Longrightarrow> wait_child signal_sync n w \<noteq> None"
    using wait_ok_wakes[of SIGUSR2 w "fst n"] by (auto simp: signal_ok_def signal_sync_def WAIT_CHILD_def)
  show "signal_ok True v tp w n \<Longrightarrow> \<not> past signal_sync v \<Longrightarrow> wait_parent signal_sync n v \<noteq> None"
    using wait_ok_wakes[of SIGUSR1 v "snd n"] by (auto simp: signal_ok_def signal_sync_def WAIT_PARENT_def)
qed (simp add: signal_sync_def)

subsection \<open>With pipes\<close>

text \<open>What is in the two pipes; a wait reads a byte and complains about any but the expected one.\<close>

type_synonym pipes = "string \<times> string"

datatype rpc = R_Read | R_Got | R_Quit

definition pipe_TELL_CHILD :: "pipes \<Rightarrow> pipes" where
  "pipe_TELL_CHILD m = (fst m @ ''p'', snd m)"

definition pipe_TELL_PARENT :: "pipes \<Rightarrow> pipes" where
  "pipe_TELL_PARENT m = (fst m, snd m @ ''c'')"

definition pipe_WAIT_PARENT :: "pipes \<Rightarrow> rpc \<Rightarrow> (pipes \<times> rpc) option" where
  "pipe_WAIT_PARENT m w = (case (w, fst m) of
     (R_Read, c # cs) \<Rightarrow> Some ((cs, snd m), if c = CHR ''p'' then R_Got else R_Quit)
   | _ \<Rightarrow> None)"

definition pipe_WAIT_CHILD :: "pipes \<Rightarrow> rpc \<Rightarrow> (pipes \<times> rpc) option" where
  "pipe_WAIT_CHILD m w = (case (w, snd m) of
     (R_Read, c # cs) \<Rightarrow> Some ((fst m, cs), if c = CHR ''c'' then R_Got else R_Quit)
   | _ \<Rightarrow> None)"

definition pipe_sync :: "(pipes, rpc) sync" where
  "pipe_sync = \<lparr>tell_child = pipe_TELL_CHILD, tell_parent = pipe_TELL_PARENT, wait_parent = pipe_WAIT_PARENT,
     wait_child = pipe_WAIT_CHILD, start = R_Read, past = (\<lambda>w. w = R_Got)\<rparr>"

definition byte_ok :: "char \<Rightarrow> bool \<Rightarrow> rpc \<Rightarrow> string \<Rightarrow> bool" where
  "byte_ok c told w b \<longleftrightarrow> w \<noteq> R_Quit \<and> (w = R_Got \<longrightarrow> told) \<and> b = (if told \<and> w = R_Read then [c] else [])"

definition pipe_ok :: "bool \<Rightarrow> rpc \<Rightarrow> bool \<Rightarrow> rpc \<Rightarrow> pipes \<Rightarrow> bool" where
  "pipe_ok tc v tp w m \<longleftrightarrow> byte_ok (CHR ''p'') tc v (fst m) \<and> byte_ok (CHR ''c'') tp w (snd m)"

definition read_rank :: "rpc \<Rightarrow> nat" where
  "read_rank w = (if w = R_Read then 1 else 0)"

lemma rpc_read: "w \<noteq> R_Quit \<Longrightarrow> w \<noteq> R_Got \<Longrightarrow> w = R_Read"
  by (cases w) auto

interpretation pp: handshake pipe_sync "([], [])" pipe_ok read_rank
  by unfold_locales
    (auto simp: pipe_ok_def byte_ok_def pipe_sync_def pipe_TELL_CHILD_def pipe_TELL_PARENT_def pipe_WAIT_PARENT_def
      pipe_WAIT_CHILD_def read_rank_def intro: rpc_read split: rpc.splits list.splits if_splits)

subsection \<open>Taking turns\<close>

text \<open>A state after the parent's first part, on which the properties are tried.\<close>

definition duo1 :: "(pair, wpc) duo" where
  "duo1 = (duo_init signal_sync (signal_start {} {}))\<lparr>du_ppc := P_Tell, du_log := [Parent_first]\<rparr>"

lemma duo1_step: "dstep signal_sync (duo_init signal_sync (signal_start {} {})) duo1"
  using dstep.p_work[of "duo_init signal_sync (signal_start {} {})" signal_sync] by (simp add: duo_init_def duo1_def)

text \<open>
  C9. With signals or with pipes, a parent and a child that synchronise by \<open>TELL\<close> and \<open>WAIT\<close>
  take their turns in order whatever the interleaving, for every initial signal mask: the
  child's turn comes after the parent's first part and before its last.
\<close>

theorem tell_wait_order:
  assumes "(dstep signal_sync)\<^sup>*\<^sup>* (duo_init signal_sync (signal_start m c)) d"
    and "(dstep pipe_sync)\<^sup>*\<^sup>* (duo_init pipe_sync ([], [])) e"
  shows "prefix (du_log d) [Parent_first, Child_turn, Parent_last] \<and> prefix (du_log e) [Parent_first, Child_turn, Parent_last]"
  using sg.turns_in_order[OF assms(1)] pp.turns_in_order[OF assms(2)] by simp

theorem tell_wait_order_witness:
  "prefix (du_log duo1) [Parent_first, Child_turn, Parent_last] \<and>
   prefix (du_log (duo_init pipe_sync ([], []))) [Parent_first, Child_turn, Parent_last]"
  using tell_wait_order[OF r_into_rtranclp[of "dstep signal_sync", OF duo1_step] rtranclp.rtrancl_refl] .

text \<open>
  C10. No signal is lost: a run has at most 17 steps, and it does not stop before both processes
  have had all their turns.
\<close>

theorem tell_wait_completes:
  assumes "(dstep signal_sync ^^ n) (duo_init signal_sync (signal_start m c)) d"
  shows "n \<le> 17 \<and> ((\<exists>e. dstep signal_sync d e) \<or> du_log d = [Parent_first, Child_turn, Parent_last])"
  using sg.run_bounded[OF assms] sg.not_stuck[OF relpowp_imp_rtranclp[OF assms]] by (auto simp: signal_sync_def)

theorem tell_wait_completes_witness: "\<exists>e. dstep signal_sync duo1 e"
proof -
  have "(dstep signal_sync ^^ 1) (duo_init signal_sync (signal_start {} {})) duo1" using duo1_step by (simp add: eq_OO)
  from tell_wait_completes[OF this] show ?thesis by (auto simp: duo1_def)
qed

text \<open>The same with pipes.\<close>

lemma pipe_wait_completes:
  assumes "(dstep pipe_sync ^^ n) (duo_init pipe_sync ([], [])) d"
  shows "n \<le> 9 \<and> ((\<exists>e. dstep pipe_sync d e) \<or> du_log d = [Parent_first, Child_turn, Parent_last])"
  using pp.run_bounded[OF assms] pp.not_stuck[OF relpowp_imp_rtranclp[OF assms]]
  by (auto simp: pipe_sync_def read_rank_def)

end
