(* ===== verification/Ftw.thy ===== *)
theory Ftw
  imports Proc_Props
begin

text \<open>
  The directory walk of \<^verbatim>\<open>iterdir.c\<close>. The file system is what \<open>lstat\<close> and \<open>readdir\<close> say
  of a path name; the names that \<open>readdir\<close> returns include dot and dot-dot. The walk keeps the
  current path name in one buffer of \<open>f_size\<close> bytes, which it extends and cuts back; a name
  that does not fit overruns it. Each level of the recursion extends the path name, so that the
  buffer bounds the depth: that is the bound the recursion is given.
\<close>

datatype fmode = S_IFREG | S_IFBLK | S_IFCHR | S_IFIFO | S_IFLNK | S_IFSOCK | S_IFDIR

datatype ftype = FTW_F | FTW_D | FTW_DNR | FTW_NS

record ftw = proc +
  f_lstat :: "string \<Rightarrow> fmode option"
  f_readdir :: "string \<Rightarrow> string list option"
  f_path :: string    \<comment> \<open>\<open>fullpath\<close>\<close>
  f_size :: nat
  f_errs :: "string list"
  nreg :: int
  ndir :: int
  nblk :: int
  nchr :: int
  nfifo :: int
  nslink :: int
  nsock :: int

type_synonym myfunc = "string \<Rightarrow> fmode option \<Rightarrow> ftype \<Rightarrow> (int, ftw) prog"

text \<open>A string written into the buffer.\<close>

definition set_path :: "string \<Rightarrow> (unit, ftw) prog" where
  "set_path p = (\<lambda>s. if length p < f_size s then Ok () (s\<lparr>f_path := p\<rparr>) else Halt (Undefined ''fullpath overflow'') s)"

definition dots :: "string \<Rightarrow> bool" where
  "dots n \<longleftrightarrow> n = ''.'' \<or> n = ''..''"

text \<open>The loop over the names of a directory, with \<open>ptr\<close> for the position after the slash.\<close>

fun dir_loop :: "(int, ftw) prog \<Rightarrow> nat \<Rightarrow> string list \<Rightarrow> (int, ftw) prog" where
  "dir_loop walk ptr [] = ret 0"
| "dir_loop walk ptr (n # ns) =
     (if dots n then dir_loop walk ptr ns
      else bnd (gets f_path) (\<lambda>p.
           bnd (set_path (take ptr p @ n)) (\<lambda>_.
           bnd walk (\<lambda>r. if r \<noteq> 0 then ret r else dir_loop walk ptr ns))))"

fun dopath :: "nat \<Rightarrow> myfunc \<Rightarrow> (int, ftw) prog" where
  "dopath 0 func = stop_with (Diverges ''dopath'')"
| "dopath (Suc k) func =
     bnd (gets (\<lambda>s. (f_path s, f_lstat s (f_path s)))) (\<lambda>(p, st).
     case st of
       None \<Rightarrow> func p None FTW_NS
     | Some m \<Rightarrow>
         if m \<noteq> S_IFDIR then func p (Some m) FTW_F
         else bnd (func p (Some m) FTW_D) (\<lambda>r.
              if r \<noteq> 0 then ret r
              else bnd (set_path (p @ ''/'')) (\<lambda>_.
              bnd (gets (\<lambda>s. f_readdir s (p @ ''/''))) (\<lambda>d. case d of
                None \<Rightarrow> func (p @ ''/'') (Some m) FTW_DNR
              | Some ns \<Rightarrow>
                  bnd (dir_loop (dopath k func) (length p + 1) ns) (\<lambda>r.
                  bnd (modify (\<lambda>s. s\<lparr>f_path := take (length p) (f_path s)\<rparr>)) (\<lambda>_. ret r))))))"

definition tally :: "fmode \<Rightarrow> ftw \<Rightarrow> ftw" where
  "tally m s = (case m of
     S_IFREG \<Rightarrow> s\<lparr>nreg := nreg s + 1\<rparr> | S_IFBLK \<Rightarrow> s\<lparr>nblk := nblk s + 1\<rparr> | S_IFCHR \<Rightarrow> s\<lparr>nchr := nchr s + 1\<rparr>
   | S_IFIFO \<Rightarrow> s\<lparr>nfifo := nfifo s + 1\<rparr> | S_IFLNK \<Rightarrow> s\<lparr>nslink := nslink s + 1\<rparr> | S_IFSOCK \<Rightarrow> s\<lparr>nsock := nsock s + 1\<rparr>
   | S_IFDIR \<Rightarrow> s)"

definition myfunc :: myfunc where
  "myfunc p st ty = (case ty of
     FTW_F \<Rightarrow> (case st of
         Some m \<Rightarrow> if m = S_IFDIR then err_dump (''for S_IFDIR for '' @ p)
                  else bnd (modify (tally m)) (\<lambda>_. ret 0)
       | None \<Rightarrow> ret 0)
   | FTW_D \<Rightarrow> bnd (modify (\<lambda>s. s\<lparr>ndir := ndir s + 1\<rparr>)) (\<lambda>_. ret 0)
   | FTW_DNR \<Rightarrow> bnd (modify (\<lambda>s. s\<lparr>f_errs := f_errs s @ [''can't read directory '' @ p]\<rparr>)) (\<lambda>_. ret 0)
   | FTW_NS \<Rightarrow> bnd (modify (\<lambda>s. s\<lparr>f_errs := f_errs s @ [''stat error for '' @ p]\<rparr>)) (\<lambda>_. ret 0))"

definition myftw :: "string \<Rightarrow> myfunc \<Rightarrow> (int, ftw) prog" where
  "myftw pathname func =
     bnd path_alloc (\<lambda>n.
     bnd (modify (\<lambda>s. s\<lparr>f_size := n\<rparr>)) (\<lambda>_.
     bnd (set_path pathname) (\<lambda>_. dopath (Suc n) func)))"

text \<open>The program; the percentages that it prints with the counts are not modelled.\<close>

definition ftw_main :: "string list \<Rightarrow> (unit, ftw) prog" where
  "ftw_main argv = (case argv of
     [_, path] \<Rightarrow> bnd (myftw path myfunc) (\<lambda>r. stop_with (Exit r []))
   | _ \<Rightarrow> err_quit ''usage: ftw <starting-pathname>'')"

subsection \<open>What is there\<close>

text \<open>
  A tree of files: something that cannot be examined, a file that is no directory, a directory
  that cannot be read, and a directory with its entries other than dot and dot-dot.
\<close>

datatype tree = Missing | File fmode | Closed | Dir forest
and forest = Empty | Entry string tree forest

primrec names :: "forest \<Rightarrow> string list" where
  "names Empty = []"
| "names (Entry n t f) = n # names f"

text \<open>The tree that a file system holds at a path name.\<close>

primrec tree_at :: "ftw \<Rightarrow> string \<Rightarrow> tree \<Rightarrow> bool"
  and forest_at :: "ftw \<Rightarrow> string \<Rightarrow> forest \<Rightarrow> bool" where
  "tree_at s p Missing \<longleftrightarrow> f_lstat s p = None"
| "tree_at s p (File m) \<longleftrightarrow> f_lstat s p = Some m \<and> m \<noteq> S_IFDIR"
| "tree_at s p Closed \<longleftrightarrow> f_lstat s p = Some S_IFDIR \<and> f_readdir s (p @ ''/'') = None"
| "tree_at s p (Dir f) \<longleftrightarrow> f_lstat s p = Some S_IFDIR \<and>
     (case f_readdir s (p @ ''/'') of None \<Rightarrow> False | Some ns \<Rightarrow> filter (\<lambda>n. \<not> dots n) ns = names f) \<and> forest_at s p f"
| "forest_at s p Empty \<longleftrightarrow> True"
| "forest_at s p (Entry n t f) \<longleftrightarrow> tree_at s (p @ ''/'' @ n) t \<and> forest_at s p f"

text \<open>The path names fit the buffer.\<close>

primrec tree_fits :: "nat \<Rightarrow> string \<Rightarrow> tree \<Rightarrow> bool"
  and forest_fits :: "nat \<Rightarrow> string \<Rightarrow> forest \<Rightarrow> bool" where
  "tree_fits n p Missing \<longleftrightarrow> length p < n"
| "tree_fits n p (File m) \<longleftrightarrow> length p < n"
| "tree_fits n p Closed \<longleftrightarrow> length p + 1 < n"
| "tree_fits n p (Dir f) \<longleftrightarrow> length p + 1 < n \<and> forest_fits n p f"
| "forest_fits n p Empty \<longleftrightarrow> True"
| "forest_fits n p (Entry m t f) \<longleftrightarrow> tree_fits n (p @ ''/'' @ m) t \<and> forest_fits n p f"

text \<open>What the walk should visit, a directory before its entries.\<close>

primrec tree_visits :: "string \<Rightarrow> tree \<Rightarrow> (string \<times> fmode option \<times> ftype) list"
  and forest_visits :: "string \<Rightarrow> forest \<Rightarrow> (string \<times> fmode option \<times> ftype) list" where
  "tree_visits p Missing = [(p, None, FTW_NS)]"
| "tree_visits p (File m) = [(p, Some m, FTW_F)]"
| "tree_visits p Closed = [(p, Some S_IFDIR, FTW_D), (p @ ''/'', Some S_IFDIR, FTW_DNR)]"
| "tree_visits p (Dir f) = (p, Some S_IFDIR, FTW_D) # forest_visits p f"
| "forest_visits p Empty = []"
| "forest_visits p (Entry n t f) = tree_visits (p @ ''/'' @ n) t @ forest_visits p f"

subsection \<open>The walk visits what is there\<close>

text \<open>The effect of one call of \<open>myfunc\<close>, and the part of the state the walk itself uses.\<close>

definition visit :: "string \<times> fmode option \<times> ftype \<Rightarrow> ftw \<Rightarrow> ftw" where
  "visit v s = (case v of (p, st, ty) \<Rightarrow> final (myfunc p st ty s))"

definition visit_ok :: "string \<times> fmode option \<times> ftype \<Rightarrow> bool" where
  "visit_ok v \<longleftrightarrow> (case v of (p, st, ty) \<Rightarrow> ty = FTW_F \<longrightarrow> st \<noteq> Some S_IFDIR)"

lemma myfunc_visit: "visit_ok (p, st, ty) \<Longrightarrow> myfunc p st ty s = Ok 0 (visit (p, st, ty) s)"
  by (auto simp: visit_def visit_ok_def myfunc_def split: ftype.splits option.splits)

lemma visit_sel [simp]:
  "f_path (visit v s) = f_path s" "f_size (visit v s) = f_size s" "f_lstat (visit v s) = f_lstat s" "f_readdir (visit v s) = f_readdir s"
  by (auto simp: visit_def myfunc_def tally_def split: prod.split ftype.split option.split fmode.split)

definition walked :: "ftw \<Rightarrow> (string \<times> fmode option \<times> ftype) list \<Rightarrow> ftw \<Rightarrow> bool" where
  "walked s vs t \<longleftrightarrow> (\<exists>q. t = (fold visit vs s)\<lparr>f_path := q\<rparr>)"

lemma tally_path: "tally m (s\<lparr>f_path := q\<rparr>) = (tally m s)\<lparr>f_path := q\<rparr>"
  by (cases m) (simp_all add: tally_def)

lemma visit_path: "visit v (s\<lparr>f_path := q\<rparr>) = (visit v s)\<lparr>f_path := q\<rparr>"
proof (cases v)
  case (fields p st ty)
  show ?thesis unfolding fields visit_def myfunc_def
    by (cases ty; cases st) (simp_all add: tally_path bnd_apply split: if_split)
qed

lemma fold_visit_path: "fold visit vs (s\<lparr>f_path := q\<rparr>) = (fold visit vs s)\<lparr>f_path := q\<rparr>"
  by (induction vs arbitrary: s) (simp_all add: visit_path)

lemma fold_visit_sel [simp]:
  "f_size (fold visit vs s) = f_size s" "f_lstat (fold visit vs s) = f_lstat s" "f_readdir (fold visit vs s) = f_readdir s"
  by (induction vs arbitrary: s) simp_all

lemma walked_sel: "walked s vs t \<Longrightarrow> f_size t = f_size s \<and> f_lstat t = f_lstat s \<and> f_readdir t = f_readdir s"
  by (auto simp: walked_def)

lemma walked_Nil: "walked s [] (s\<lparr>f_path := q\<rparr>)"
  by (auto simp: walked_def)

lemma walked_visit: "walked s [v] (visit v s)"
  unfolding walked_def by (intro exI[of _ "f_path s"]) (simp add: visit_path[symmetric])

lemma walked_trans: "walked s vs t \<Longrightarrow> walked t ws u \<Longrightarrow> walked s (vs @ ws) u"
  by (auto simp: walked_def fold_visit_path)

lemma walked_path: "walked s vs t \<Longrightarrow> walked s vs (t\<lparr>f_path := q\<rparr>)"
  by (auto simp: walked_def)

lemma walked_from: "walked (s\<lparr>f_path := q\<rparr>) vs t \<longleftrightarrow> walked s vs t"
  by (simp add: walked_def fold_visit_path)

lemma at_cong:
  assumes "f_lstat t = f_lstat s" and "f_readdir t = f_readdir s"
  shows "tree_at t p x = tree_at s p x" and "forest_at t p f = forest_at s p f"
  using assms by (induction x and f arbitrary: p and p) simp_all

lemma dir_loop_dots: "\<forall>u\<in>set us. dots u \<Longrightarrow> dir_loop walk ptr (us @ ns) = dir_loop walk ptr ns"
  by (induction us) simp_all

lemma dir_loop_all_dots: "\<forall>u\<in>set us. dots u \<Longrightarrow> dir_loop walk ptr us = ret 0"
  using dir_loop_dots[of us walk ptr "[]"] by simp

text \<open>What \<open>dopath\<close> does with each kind of node; the walk of the entries is the induction hypothesis.\<close>

lemma tree_fits_len: "tree_fits n p x \<Longrightarrow> length p < n"
  by (cases x) simp_all

lemma dopath_dir:
  assumes "f_path s = p" and "f_lstat s p = Some S_IFDIR" and "f_readdir s (p @ ''/'') = Some ns" and "length p + 1 < f_size s"
    and "runs (dir_loop (dopath k myfunc) (length p + 1) ns) ((visit (p, Some S_IFDIR, FTW_D) s)\<lparr>f_path := p @ ''/''\<rparr>)
      (\<lambda>r u. r = 0 \<and> walked ((visit (p, Some S_IFDIR, FTW_D) s)\<lparr>f_path := p @ ''/''\<rparr>) vs u \<and> take (length p + 1) (f_path u) = p @ ''/'')"
  shows "runs (dopath (Suc k) myfunc) s (\<lambda>r u. r = 0 \<and> walked s ((p, Some S_IFDIR, FTW_D) # vs) u \<and> (\<exists>z. f_path u = p @ z))"
proof -
  let ?v = "(p, Some S_IFDIR, FTW_D)"
  let ?t = "(visit ?v s)\<lparr>f_path := p @ ''/''\<rparr>"
  have f: "myfunc p (Some S_IFDIR) FTW_D s = Ok 0 (visit ?v s)" by (rule myfunc_visit) (simp add: visit_ok_def)
  have sp: "set_path (p @ ''/'') (visit ?v s) = Ok () ?t" using assms(4) by (simp add: set_path_def)
  have "runs (bnd (dir_loop (dopath k myfunc) (length p + 1) ns) (\<lambda>r. bnd (modify (\<lambda>s. s\<lparr>f_path := take (length p) (f_path s)\<rparr>)) (\<lambda>_. ret r))) ?t
      (\<lambda>r u. r = 0 \<and> walked s (?v # vs) u \<and> (\<exists>z. f_path u = p @ z))"
  proof (rule runs_step[OF assms(5)], elim conjE)
    fix r u
    assume u: "r = 0" "walked ?t vs u" "take (length p + 1) (f_path u) = p @ ''/''"
    have "walked s ([?v] @ vs) u" using walked_trans[OF walked_visit] u(2) by (simp only: walked_from)
    moreover have "take (length p) (f_path u) = p" using arg_cong[OF u(3), of "take (length p)"] by simp
    ultimately show "runs (bnd (modify (\<lambda>s. s\<lparr>f_path := take (length p) (f_path s)\<rparr>)) (\<lambda>_. ret r)) u
        (\<lambda>r u. r = 0 \<and> walked s (?v # vs) u \<and> (\<exists>z. f_path u = p @ z))"
      using u(1) by (simp add: wp walked_path)
  qed
  then show ?thesis using assms(1-3) f sp by (simp add: runs_def bnd_apply)
qed

lemma dopath_closed:
  assumes "f_path s = p" and "tree_at s p Closed" and "length p + 1 < f_size s"
  shows "runs (dopath (Suc k) myfunc) s (\<lambda>r u. r = 0 \<and> walked s (tree_visits p Closed) u \<and> (\<exists>z. f_path u = p @ z))"
proof -
  let ?v = "(p, Some S_IFDIR, FTW_D)" and ?w = "(p @ ''/'', Some S_IFDIR, FTW_DNR)"
  let ?t = "(visit ?v s)\<lparr>f_path := p @ ''/''\<rparr>"
  have f: "myfunc p (Some S_IFDIR) FTW_D s = Ok 0 (visit ?v s)" by (rule myfunc_visit) (simp add: visit_ok_def)
  have g: "myfunc (p @ ''/'') (Some S_IFDIR) FTW_DNR ?t = Ok 0 (visit ?w ?t)" by (rule myfunc_visit) (simp add: visit_ok_def)
  have sp: "set_path (p @ ''/'') (visit ?v s) = Ok () ?t" using assms(3) by (simp add: set_path_def)
  have "walked s ([?v] @ [?w]) (visit ?w ?t)"
    by (rule walked_trans[OF walked_path[OF walked_visit] walked_visit])
  then show ?thesis using assms(1,2) f g sp by (simp add: runs_def bnd_apply)
qed

lemma dopath_leaf:
  assumes "f_path s = p" and "x = Missing \<or> (\<exists>m. x = File m)" and "tree_at s p x"
  shows "runs (dopath (Suc k) myfunc) s (\<lambda>r u. r = 0 \<and> walked s (tree_visits p x) u \<and> (\<exists>z. f_path u = p @ z))"
proof -
  obtain v where v: "tree_visits p x = [v]" "visit_ok v" "dopath (Suc k) myfunc s = myfunc (fst v) (fst (snd v)) (snd (snd v)) s"
    using assms by (auto simp: visit_ok_def)
  obtain q st ty where "v = (q, st, ty)" by (cases v)
  then have "dopath (Suc k) myfunc s = Ok 0 (visit v s)" using v(2,3) myfunc_visit[of q st ty s] by simp
  then show ?thesis using v(1) walked_visit assms(1) by (simp add: runs_def)
qed

lemma dopath_walks:
  shows "tree_at s p x \<Longrightarrow> tree_fits (f_size s) p x \<Longrightarrow> f_path s = p \<Longrightarrow> f_size s < k + length p \<Longrightarrow>
      runs (dopath k myfunc) s (\<lambda>r u. r = 0 \<and> walked s (tree_visits p x) u \<and> (\<exists>z. f_path u = p @ z))"
    and "forest_at s p f \<Longrightarrow> forest_fits (f_size s) p f \<Longrightarrow> filter (\<lambda>n. \<not> dots n) ns = names f \<Longrightarrow>
      take (length p + 1) (f_path s) = p @ ''/'' \<Longrightarrow> f_size s < k + length p + 1 \<Longrightarrow>
      runs (dir_loop (dopath k myfunc) (length p + 1) ns) s
        (\<lambda>r u. r = 0 \<and> walked s (forest_visits p f) u \<and> take (length p + 1) (f_path u) = p @ ''/'')"
proof (induction x and f arbitrary: s p k and s p k ns)
  case Missing
  then obtain j where "k = Suc j" by (cases k) (auto dest: tree_fits_len)
  with Missing show ?case by (simp only:) (rule dopath_leaf, auto)
next
  case (File m)
  then obtain j where "k = Suc j" by (cases k) (auto dest: tree_fits_len)
  with File show ?case by (simp only:) (rule dopath_leaf, auto)
next
  case Closed
  then obtain j where "k = Suc j" by (cases k) (auto dest: tree_fits_len)
  with Closed show ?case by (simp only:) (rule dopath_closed, auto)
next
  case (Dir f)
  then obtain j where k: "k = Suc j" by (cases k) (auto dest: tree_fits_len)
  let ?t = "(visit (p, Some S_IFDIR, FTW_D) s)\<lparr>f_path := p @ ''/''\<rparr>"
  obtain ns where ns: "f_readdir s (p @ ''/'') = Some ns" "filter (\<lambda>n. \<not> dots n) ns = names f"
    using Dir.prems(1) by (auto split: option.splits)
  have "runs (dir_loop (dopath j myfunc) (length p + 1) ns) ?t
      (\<lambda>r u. r = 0 \<and> walked ?t (forest_visits p f) u \<and> take (length p + 1) (f_path u) = p @ ''/'')"
    by (rule Dir.IH) (use Dir.prems ns k at_cong(2)[of ?t s] in auto)
  then show ?case unfolding k tree_visits.simps using Dir.prems ns(1) by (intro dopath_dir) auto
next
  case Empty
  then have "\<forall>u\<in>set ns. dots u" by (simp add: filter_empty_conv)
  then have "dir_loop (dopath k myfunc) (length p + 1) ns s = Ok 0 s" by (simp add: dir_loop_all_dots)
  then show ?case using Empty.prems(4) walked_Nil[of s "f_path s"] by (simp add: runs_def)
next
  case (Entry n x f)
  obtain us vs where ns: "ns = us @ n # vs" "\<forall>u\<in>set us. dots u" "\<not> dots n" "filter (\<lambda>n. \<not> dots n) vs = names f"
    using Entry.prems(3) by (auto simp: filter_eq_Cons_iff)
  let ?t = "s\<lparr>f_path := p @ ''/'' @ n\<rparr>"
  have fit: "tree_fits (f_size s) (p @ ''/'' @ n) x" "forest_fits (f_size s) p f" using Entry.prems(2) by simp_all
  have sp: "set_path (p @ ''/'' @ n) s = Ok () ?t" using tree_fits_len[OF fit(1)] by (simp add: set_path_def)
  have walk: "runs (dopath k myfunc) ?t (\<lambda>r u. r = 0 \<and> walked ?t (tree_visits (p @ ''/'' @ n) x) u \<and> (\<exists>z. f_path u = (p @ ''/'' @ n) @ z))"
    by (rule Entry.IH(1)) (use Entry.prems fit at_cong(1)[of ?t s] in auto)
  have "runs (bnd (dopath k myfunc) (\<lambda>r. if r \<noteq> 0 then ret r else dir_loop (dopath k myfunc) (length p + 1) vs)) ?t
      (\<lambda>r u. r = 0 \<and> walked s (forest_visits p (Entry n x f)) u \<and> take (length p + 1) (f_path u) = p @ ''/'')"
  proof (rule runs_step[OF walk], elim conjE exE)
    fix r :: int and u z
    assume u: "r = 0" "walked ?t (tree_visits (p @ ''/'' @ n) x) u" "f_path u = (p @ ''/'' @ n) @ z"
    have sel: "f_size u = f_size s" "f_lstat u = f_lstat s" "f_readdir u = f_readdir s" using walked_sel[OF u(2)] by simp_all
    have "runs (dir_loop (dopath k myfunc) (length p + 1) vs) u
        (\<lambda>r w. r = 0 \<and> walked u (forest_visits p f) w \<and> take (length p + 1) (f_path w) = p @ ''/'')"
      by (rule Entry.IH(2)) (use Entry.prems fit ns(4) u(3) sel at_cong(2)[of u s] in auto)
    then have "runs (dir_loop (dopath k myfunc) (length p + 1) vs) u
        (\<lambda>r w. r = 0 \<and> walked s (forest_visits p (Entry n x f)) w \<and> take (length p + 1) (f_path w) = p @ ''/'')"
      by (rule runs_conseq) (use u(2) in \<open>auto simp: walked_from intro: walked_trans\<close>)
    then show "runs (if r \<noteq> 0 then ret r else dir_loop (dopath k myfunc) (length p + 1) vs) u
        (\<lambda>r w. r = 0 \<and> walked s (forest_visits p (Entry n x f)) w \<and> take (length p + 1) (f_path w) = p @ ''/'')"
      using u(1) by simp
  qed
  moreover have "take (length p + 1) (f_path s) @ n = p @ ''/'' @ n" using Entry.prems(4) by simp
  ultimately show ?case using ns(1,3) sp by (simp add: dir_loop_dots[OF ns(2)] runs_def del: One_nat_def)
qed

subsection \<open>Counting\<close>

fun counter :: "fmode \<Rightarrow> ftw \<Rightarrow> int" where
  "counter S_IFREG s = nreg s" | "counter S_IFBLK s = nblk s" | "counter S_IFCHR s = nchr s" | "counter S_IFIFO s = nfifo s"
| "counter S_IFLNK s = nslink s" | "counter S_IFSOCK s = nsock s" | "counter S_IFDIR s = ndir s"

primrec tree_count :: "fmode \<Rightarrow> tree \<Rightarrow> nat"
  and forest_count :: "fmode \<Rightarrow> forest \<Rightarrow> nat" where
  "tree_count m Missing = 0"
| "tree_count m (File k) = (if m = k then 1 else 0)"
| "tree_count m Closed = (if m = S_IFDIR then 1 else 0)"
| "tree_count m (Dir f) = (if m = S_IFDIR then 1 else 0) + forest_count m f"
| "forest_count m Empty = 0"
| "forest_count m (Entry n t f) = tree_count m t + forest_count m f"

definition weight :: "fmode \<Rightarrow> string \<times> fmode option \<times> ftype \<Rightarrow> nat" where
  "weight m v = (case v of (p, st, ty) \<Rightarrow>
     if ty = FTW_F \<and> st = Some m \<and> m \<noteq> S_IFDIR \<or> ty = FTW_D \<and> m = S_IFDIR then 1 else 0)"

lemma counter_visit: "counter m (visit v s) = counter m s + int (weight m v)"
proof (cases v)
  case (fields p st ty)
  show ?thesis unfolding fields visit_def weight_def myfunc_def
    by (cases ty; cases st; cases m) (auto simp: bnd_apply tally_def split: fmode.splits)
qed

lemma counter_fold: "counter m (fold visit vs s) = counter m s + int (sum_list (map (weight m) vs))"
  by (induction vs arbitrary: s) (simp_all add: counter_visit)

lemma weight_visits:
  shows "tree_at s p x \<Longrightarrow> sum_list (map (weight m) (tree_visits p x)) = tree_count m x"
    and "forest_at s p f \<Longrightarrow> sum_list (map (weight m) (forest_visits p f)) = forest_count m f"
  by (induction x and f arbitrary: p and p) (auto simp: weight_def)

lemma counter_path [simp]: "counter m (s\<lparr>f_path := q\<rparr>) = counter m s"
  by (cases m) simp_all

lemma path_alloc_sel:
  assumes "path_alloc s = Ok n (t :: ftw)"
  shows "f_lstat t = f_lstat s" "f_readdir t = f_readdir s" "counter m t = counter m s"
  using assms
  by (cases m; auto simp: path_alloc_def sys_malloc_def bnd_apply split: limit.splits if_splits)+

text \<open>
  C38. The directory walk counts what is there: for a tree of files whose path names fit the
  buffer, \<open>myftw\<close> returns 0 and each counter has grown by the number of files of its kind, a
  directory that cannot be read counting as a directory.
\<close>

theorem ftw_counts:
  assumes "path_alloc s = Ok n s0" and "tree_at s p x" and "tree_fits n p x"
  shows "\<exists>u. myftw p myfunc s = Ok 0 u \<and> (\<forall>m. counter m u = counter m s + int (tree_count m x))"
proof -
  let ?t = "s0\<lparr>f_size := n, f_path := p\<rparr>"
  note sel = path_alloc_sel[OF assms(1)]
  have at: "tree_at ?t p x" using assms(2) sel at_cong(1)[of ?t s] by simp
  have "runs (dopath (Suc n) myfunc) ?t (\<lambda>r u. r = 0 \<and> walked ?t (tree_visits p x) u \<and> (\<exists>z. f_path u = p @ z))"
    using at assms(3) by (intro dopath_walks(1)) auto
  then obtain u where u: "dopath (Suc n) myfunc ?t = Ok 0 u" "walked ?t (tree_visits p x) u" by (auto simp: runs_iff)
  have "counter m u = counter m s + int (tree_count m x)" for m
  proof -
    have "counter m u = counter m (fold visit (tree_visits p x) ?t)" using u(2) by (auto simp: walked_def)
    moreover have "counter m ?t = counter m s" using sel(3)[of m] by (cases m) simp_all
    ultimately show ?thesis by (simp add: counter_fold weight_visits(1)[OF at])
  qed
  moreover have "set_path p (s0\<lparr>f_size := n\<rparr>) = Ok () ?t" using tree_fits_len[OF assms(3)] by (simp add: set_path_def)
  then have "myftw p myfunc s = Ok 0 u" using assms(1) u(1) by (simp add: myftw_def del: dopath.simps)
  ultimately show ?thesis by blast
qed

text \<open>A directory with a file and a directory that cannot be read.\<close>

definition ftw0 :: ftw where
  "ftw0 = proc.extend proc0 (ftw.fields
     [''d'' \<mapsto> S_IFDIR, ''d/a'' \<mapsto> S_IFREG, ''d/e'' \<mapsto> S_IFDIR] [''d/'' \<mapsto> [''.'', ''a'', ''..'', ''e'']] [] 0 [] 0 0 0 0 0 0 0)"

definition tree0 :: tree where
  "tree0 = Dir (Entry ''a'' (File S_IFREG) (Entry ''e'' Closed Empty))"

theorem ftw_counts_witness: "\<exists>u. myftw ''d'' myfunc ftw0 = Ok 0 u \<and> nreg u = 1 \<and> ndir u = 2 \<and> nsock u = 0"
proof -
  have sel: "p_pathmax ftw0 = 0" "p_pathconf ftw0 = Indeterminate" "w_mem ftw0 = 100000" "nreg ftw0 = 0" "ndir ftw0 = 0" "nsock ftw0 = 0"
      "f_lstat ftw0 = [''d'' \<mapsto> S_IFDIR, ''d/a'' \<mapsto> S_IFREG, ''d/e'' \<mapsto> S_IFDIR]" "f_readdir ftw0 = [''d/'' \<mapsto> [''.'', ''a'', ''..'', ''e'']]"
    by (simp_all add: ftw0_def proc0_def proc.defs ftw.defs)
  obtain s0 where s0: "path_alloc ftw0 = Ok 1025 s0"
    using sel(1-3) by (simp add: path_alloc_def PATH_MAX_GUESS_def sys_malloc_def)
  have "tree_at ftw0 ''d'' tree0" by (simp add: tree0_def sel dots_def)
  moreover have "tree_fits 1025 ''d'' tree0" by (simp add: tree0_def)
  ultimately obtain u where u: "myftw ''d'' myfunc ftw0 = Ok 0 u" "\<forall>m. counter m u = counter m ftw0 + int (tree_count m tree0)"
    using ftw_counts[OF s0] by blast
  have "nreg u = 1" "ndir u = 2" "nsock u = 0"
    using spec[OF u(2), of S_IFREG] spec[OF u(2), of S_IFDIR] spec[OF u(2), of S_IFSOCK] sel by (simp_all add: tree0_def)
  then show ?thesis using u(1) by blast
qed

subsection \<open>The walk ends\<close>

lemma ends_set_path: "ends (set_path q) s Q \<longleftrightarrow> (length q < f_size s \<longrightarrow> Q () (s\<lparr>f_path := q\<rparr>))"
  by (simp add: ends_def set_path_def)

text \<open>The walk never cuts the path name below where it started.\<close>

definition longer :: "nat \<Rightarrow> ftw \<Rightarrow> 'r \<Rightarrow> ftw \<Rightarrow> bool" where
  "longer n s r t \<longleftrightarrow> f_size t = f_size s \<and> n \<le> length (f_path t)"

lemma ends_myfunc: "length (f_path s) = n \<Longrightarrow> ends (myfunc p st ty) s (longer n s)"
  by (auto simp: ends_def myfunc_def longer_def tally_def err_dump_def split: ftype.splits option.splits fmode.splits)

lemma ends_dir_loop:
  assumes "\<And>t. length (f_path t) < f_size t \<Longrightarrow> f_size t < k + length (f_path t) \<Longrightarrow> ends walk t (longer (length (f_path t)) t)"
    and "ptr \<le> length (f_path s)" and "f_size s < k + ptr"
  shows "ends (dir_loop walk ptr ns) s (longer ptr s)"
  using assms(2,3)
proof (induction ns arbitrary: s)
  case (Cons n ns)
  let ?p = "take ptr (f_path s) @ n"
  show ?case
  proof (cases "dots n")
    case False
    have "ends (bnd walk (\<lambda>r. if r \<noteq> 0 then ret r else dir_loop walk ptr ns)) (s\<lparr>f_path := ?p\<rparr>) (longer ptr s)"
      if fit: "length ?p < f_size s"
    proof (rule ends_step[OF assms(1)])
      fix r :: int and t
      assume "longer (length (f_path (s\<lparr>f_path := ?p\<rparr>))) (s\<lparr>f_path := ?p\<rparr>) r t"
      then have t: "f_size t = f_size s" "ptr \<le> length (f_path t)" using Cons.prems(1) by (auto simp: longer_def)
      then have "ends (dir_loop walk ptr ns) t (longer ptr t)" using Cons.prems(2) by (intro Cons.IH) simp_all
      then have "ends (dir_loop walk ptr ns) t (longer ptr s)" by (rule ends_conseq) (use t in \<open>simp add: longer_def\<close>)
      then show "ends (if r \<noteq> 0 then ret r else dir_loop walk ptr ns) t (longer ptr s)"
        using t by (auto simp: ends_simps longer_def)
    qed (use Cons.prems fit in simp_all)
    then show ?thesis
      unfolding dir_loop.simps if_not_P[OF False] ends_bnd[of "gets _"] ends_gets ends_bnd[of "set_path _"] ends_set_path by blast
  qed (use Cons in simp)
qed (simp add: ends_simps longer_def)

lemma ends_dopath:
  "length (f_path s) < f_size s \<Longrightarrow> f_size s < k + length (f_path s) \<Longrightarrow> ends (dopath k myfunc) s (longer (length (f_path s)) s)"
proof (induction k arbitrary: s)
  case (Suc k)
  let ?p = "f_path s"
  have dir: "ends (bnd (myfunc ?p (Some S_IFDIR) FTW_D) (\<lambda>r. if r \<noteq> 0 then ret r
     else bnd (set_path (?p @ ''/'')) (\<lambda>_. bnd (gets (\<lambda>s. f_readdir s (?p @ ''/''))) (\<lambda>d. case d of
         None \<Rightarrow> myfunc (?p @ ''/'') (Some S_IFDIR) FTW_DNR
       | Some ns \<Rightarrow> bnd (dir_loop (dopath k myfunc) (length ?p + 1) ns) (\<lambda>r.
                    bnd (modify (\<lambda>s. s\<lparr>f_path := take (length ?p) (f_path s)\<rparr>)) (\<lambda>_. ret r)))))) s (longer (length ?p) s)"
  proof (rule ends_step[OF ends_myfunc])
    fix r :: int and t
    assume t: "longer (length ?p) s r t"
    let ?t = "t\<lparr>f_path := ?p @ ''/''\<rparr>"
    have "ends (bnd (gets (\<lambda>s. f_readdir s (?p @ ''/''))) (\<lambda>d. case d of
         None \<Rightarrow> myfunc (?p @ ''/'') (Some S_IFDIR) FTW_DNR
       | Some ns \<Rightarrow> bnd (dir_loop (dopath k myfunc) (length ?p + 1) ns) (\<lambda>r.
                    bnd (modify (\<lambda>s. s\<lparr>f_path := take (length ?p) (f_path s)\<rparr>)) (\<lambda>_. ret r)))) ?t (longer (length ?p) s)"
    proof (cases "f_readdir t (?p @ ''/'')")
      case None
      have "ends (myfunc (?p @ ''/'') (Some S_IFDIR) FTW_DNR) ?t (longer (length ?p) s)"
        by (rule ends_conseq[OF ends_myfunc[of ?t "length ?p + 1"]]) (use t in \<open>auto simp: longer_def\<close>)
      then show ?thesis using None by (simp add: ends_bnd ends_gets)
    next
      case (Some ns)
      have "ends (dir_loop (dopath k myfunc) (length ?p + 1) ns) ?t (longer (length ?p + 1) ?t)"
        by (rule ends_dir_loop[OF Suc.IH]) (use Suc.prems t in \<open>auto simp: longer_def\<close>)
      then have "ends (bnd (dir_loop (dopath k myfunc) (length ?p + 1) ns) (\<lambda>r.
          bnd (modify (\<lambda>s. s\<lparr>f_path := take (length ?p) (f_path s)\<rparr>)) (\<lambda>_. ret r))) ?t (longer (length ?p) s)"
        by (rule ends_step) (use t in \<open>auto simp: longer_def ends_simps\<close>)
      then show ?thesis using Some by (simp add: ends_bnd ends_gets)
    qed
    then show "ends (if r \<noteq> 0 then ret r else bnd (set_path (?p @ ''/'')) (\<lambda>_. bnd (gets (\<lambda>s. f_readdir s (?p @ ''/''))) (\<lambda>d. case d of
         None \<Rightarrow> myfunc (?p @ ''/'') (Some S_IFDIR) FTW_DNR
       | Some ns \<Rightarrow> bnd (dir_loop (dopath k myfunc) (length ?p + 1) ns) (\<lambda>r.
                    bnd (modify (\<lambda>s. s\<lparr>f_path := take (length ?p) (f_path s)\<rparr>)) (\<lambda>_. ret r))))) t (longer (length ?p) s)"
      using t by (simp add: ends_if ends_ret ends_bnd[of "set_path _"] ends_set_path del: One_nat_def)
  qed simp
  show ?case unfolding dopath.simps ends_bnd[of "gets _"] ends_gets prod.case
    using dir ends_myfunc[OF refl] by (auto split: option.splits)
qed simp

text \<open>The directory walk ends on every file system, since the path name grows with every level.\<close>

theorem ftw_ends: "halted (myftw p myfunc s) \<noteq> Some (Diverges w)"
proof -
  have pa: "ends path_alloc s (\<lambda>_ _. True)"
    by (auto simp: ends_def path_alloc_def sys_malloc_def bnd_apply err_sys_def split: limit.splits)
  have "ends (dopath (Suc n) myfunc) t (\<lambda>_ _. True)" if "f_size t = n" "f_path t = p" "length p < n" for n t
    using ends_conseq[OF ends_dopath[of t "Suc n"], of "\<lambda>_ _. True"] that by simp
  note walk = this
  have "ends (bnd (modify (\<lambda>s. s\<lparr>f_size := n\<rparr>)) (\<lambda>_. bnd (set_path p) (\<lambda>_. dopath (Suc n) myfunc))) t (\<lambda>_ _. True)" for n t
    using walk[of "t\<lparr>f_size := n, f_path := p\<rparr>" n] by (simp add: ends_bnd ends_modify ends_set_path del: dopath.simps)
  then have "ends (myftw p myfunc) s (\<lambda>_ _. True)" unfolding myftw_def by (intro ends_step[OF pa])
  then show ?thesis by (rule ends_halted)
qed

end
