(* ===== verification/Errlog.thy ===== *)
theory Errlog
  imports Posix
begin

text \<open>
  The error routines that return, of \<^verbatim>\<open>ourhdr.c\<close> and \<^verbatim>\<open>log-daemon.c\<close>: what they write, and in which
  order it reaches the terminal or the system log. (Those that do not return carry their message in the
  result \<open>Exit\<close> or \<open>Abort\<close>, see \<open>Errors\<close>.)

  Standard output is buffered (\<open>e_buf\<close>), standard error is not; \<open>e_term\<close> is what has been written, with the descriptor.
\<close>

record stdio = world +
  e_buf :: string
  e_term :: "(int \<times> string) list"
  e_debug :: int
  e_ident :: "(string \<times> int \<times> int) option"
  e_log :: "(int \<times> string) list"

definition LOG_ERR :: int where "LOG_ERR = 3"
definition LOG_PID :: int where "LOG_PID = 1"
definition LOG_USER :: int where "LOG_USER = 8"

definition put_out :: "string \<Rightarrow> (unit, 'a stdio_scheme) prog" where
  "put_out t = modify (\<lambda>s. s\<lparr>e_buf := e_buf s @ t\<rparr>)"

definition flush_out :: "(unit, 'a stdio_scheme) prog" where
  "flush_out = modify (\<lambda>s. s\<lparr>e_term := e_term s @ (if e_buf s = [] then [] else [(1, e_buf s)]), e_buf := []\<rparr>)"

definition put_err :: "string \<Rightarrow> (unit, 'a stdio_scheme) prog" where
  "put_err t = modify (\<lambda>s. s\<lparr>e_term := e_term s @ [(2, t)]\<rparr>)"

subsection \<open>On the terminal\<close>

definition err_print :: "bool \<Rightarrow> string \<Rightarrow> (unit, 'a stdio_scheme) prog" where
  "err_print errnoflag msg =
     bnd (gets w_errno) (\<lambda>errno_save.
     case err_doit errnoflag (strerror errno_save) msg of
       None \<Rightarrow> stop_with (Undefined ''err_doit: buf overflow'')
     | Some buf \<Rightarrow> bnd flush_out (\<lambda>_. bnd (put_err buf) (\<lambda>_. flush_out)))"

definition err_ret :: "string \<Rightarrow> (unit, 'a stdio_scheme) prog" where
  "err_ret msg = err_print True msg"

definition err_msg :: "string \<Rightarrow> (unit, 'a stdio_scheme) prog" where
  "err_msg msg = err_print False msg"

subsection \<open>In the system log\<close>

text \<open>
  \<open>syslog\<close> takes a format: a double percent sign stands for one, \<^verbatim>\<open>%m\<close> for the text of \<open>errno\<close>, and any
  other directive for an argument, which \<open>log_doit\<close> does not pass. The behaviour is undefined then.
\<close>

fun syslog_text :: "string \<Rightarrow> string \<Rightarrow> string option" where
  "syslog_text e [] = Some []"
| "syslog_text e (c # cs) =
     (if c \<noteq> CHR ''%'' then map_option ((#) c) (syslog_text e cs)
      else (case cs of
          [] \<Rightarrow> None
        | d # ds \<Rightarrow>
            if d = CHR ''%'' then map_option ((#) d) (syslog_text e ds)
            else if d = CHR ''m'' then map_option ((@) e) (syslog_text e ds)
            else None))"

definition syslog :: "int \<Rightarrow> string \<Rightarrow> (unit, 'a stdio_scheme) prog" where
  "syslog priority fmt =
     bnd (gets (\<lambda>s. strerror (w_errno s))) (\<lambda>e.
     case syslog_text e fmt of
       None \<Rightarrow> stop_with (Undefined ''syslog: missing argument'')
     | Some t \<Rightarrow> modify (\<lambda>s. s\<lparr>e_log := e_log s @ [(priority, t)]\<rparr>))"

definition log_open :: "string \<Rightarrow> int \<Rightarrow> int \<Rightarrow> (unit, 'a stdio_scheme) prog" where
  "log_open ident option facility =
     bnd (gets e_debug) (\<lambda>debug.
     if debug = 0 then modify (\<lambda>s. s\<lparr>e_ident := Some (ident, option, facility)\<rparr>) else ret ())"

definition log_print :: "bool \<Rightarrow> int \<Rightarrow> string \<Rightarrow> (unit, 'a stdio_scheme) prog" where
  "log_print errnoflag priority msg =
     bnd (gets w_errno) (\<lambda>errno_save.
     case log_doit errnoflag (strerror errno_save) msg of
       None \<Rightarrow> stop_with (Undefined ''log_doit: buf overflow'')
     | Some buf \<Rightarrow>
         bnd (gets e_debug) (\<lambda>debug.
         if debug \<noteq> 0 then bnd flush_out (\<lambda>_. put_err buf) else syslog priority buf))"

definition log_ret :: "string \<Rightarrow> (unit, 'a stdio_scheme) prog" where
  "log_ret msg = log_print True LOG_ERR msg"

definition log_msg :: "string \<Rightarrow> (unit, 'a stdio_scheme) prog" where
  "log_msg msg = log_print False LOG_ERR msg"

subsection \<open>What they promise\<close>

lemma syslog_text_plain: "CHR ''%'' \<notin> set t \<Longrightarrow> syslog_text e t = Some t"
  by (induction t) auto

lemma syslog_text_append: "CHR ''%'' \<notin> set p \<Longrightarrow> syslog_text e (p @ t) = map_option ((@) p) (syslog_text e t)"
proof (induction p)
  case Nil
  show ?case by (cases "syslog_text e t") simp_all
next
  case (Cons c p)
  then show ?case by (cases "syslog_text e t") auto
qed

text \<open>
  The output of a program and its error messages reach the terminal in the order in which they were printed, and
  nothing stays in a buffer; the message ends with the text of \<open>errno\<close> where the routine says so, and \<open>errno\<close> is
  left alone.
\<close>

theorem err_messages_in_order:
  assumes "length msg + 60 < MAXLINE"
  shows "\<exists>t. bnd (put_out out) (\<lambda>_. err_ret msg) s = Ok () t \<and> e_buf t = [] \<and> w_errno t = w_errno s \<and>
      e_term t = e_term s @ (if e_buf s @ out = [] then [] else [(1, e_buf s @ out)]) @
        [(2, msg @ '': '' @ strerror (w_errno s) @ [NL])]"
    and "\<exists>t. bnd (put_out out) (\<lambda>_. err_msg msg) s = Ok () t \<and> e_buf t = [] \<and> w_errno t = w_errno s \<and>
      e_term t = e_term s @ (if e_buf s @ out = [] then [] else [(1, e_buf s @ out)]) @ [(2, msg @ [NL])]"
proof -
  have l: "length (strerror (w_errno s)) \<le> 32" by (cases "w_errno s") simp_all
  show "\<exists>t. bnd (put_out out) (\<lambda>_. err_ret msg) s = Ok () t \<and> e_buf t = [] \<and> w_errno t = w_errno s \<and>
      e_term t = e_term s @ (if e_buf s @ out = [] then [] else [(1, e_buf s @ out)]) @
        [(2, msg @ '': '' @ strerror (w_errno s) @ [NL])]"
    using assms l by (auto simp: err_ret_def err_print_def err_doit_def put_out_def put_err_def flush_out_def Let_def)
  show "\<exists>t. bnd (put_out out) (\<lambda>_. err_msg msg) s = Ok () t \<and> e_buf t = [] \<and> w_errno t = w_errno s \<and>
      e_term t = e_term s @ (if e_buf s @ out = [] then [] else [(1, e_buf s @ out)]) @ [(2, msg @ [NL])]"
    using assms by (auto simp: err_msg_def err_print_def err_doit_def put_out_def put_err_def flush_out_def Let_def)
qed

text \<open>
  In a daemon a message without a percent sign goes to the log as it is. A message with a directive, such as the
  text of a request that a client sent, makes \<open>syslog\<close> read an argument that nobody passed.
\<close>

theorem log_msg_format:
  assumes "length msg + 1 < MAXLINE" and "e_debug s = 0"
  shows "CHR ''%'' \<notin> set msg \<Longrightarrow> log_msg msg s = Ok () (s\<lparr>e_log := e_log s @ [(LOG_ERR, msg @ [NL])]\<rparr>)"
    and "msg = p @ ''%'' @ [d] @ q \<Longrightarrow> CHR ''%'' \<notin> set p \<Longrightarrow> d \<noteq> CHR ''%'' \<Longrightarrow> d \<noteq> CHR ''m'' \<Longrightarrow>
      log_msg msg s = Halt (Undefined ''syslog: missing argument'') s"
proof -
  assume "CHR ''%'' \<notin> set msg"
  then show "log_msg msg s = Ok () (s\<lparr>e_log := e_log s @ [(LOG_ERR, msg @ [NL])]\<rparr>)"
    using assms syslog_text_plain[of "msg @ [NL]"] by (simp add: log_msg_def log_print_def log_doit_def syslog_def Let_def)
next
  assume m: "msg = p @ ''%'' @ [d] @ q" "CHR ''%'' \<notin> set p" "d \<noteq> CHR ''%''" "d \<noteq> CHR ''m''"
  have "syslog_text (strerror (w_errno s)) (msg @ [NL]) = None"
    unfolding m(1) append_assoc by (subst syslog_text_append[OF m(2)]) (use m in simp)
  then show "log_msg msg s = Halt (Undefined ''syslog: missing argument'') s"
    using assms by (simp add: log_msg_def log_print_def log_doit_def syslog_def Let_def stop_with_def)
qed

end
