(* ===== verification/Sleep.thy ===== *)
theory Sleep
  imports Prelude
begin

text \<open>
  Three implementations of \<open>sleep\<close>: \<^verbatim>\<open>my-sleep.c\<close> (with \<open>sigsuspend\<close>), \<^verbatim>\<open>sleep1-demo.c\<close> (with
  \<open>pause\<close>) and \<^verbatim>\<open>sleep2-demo.c\<close> (with \<open>setjmp\<close> and \<open>longjmp\<close>).

  What matters is what happens between two calls of the process, so that each function is the list of its
  system calls, and a run interleaves them with the clock and with signals from outside. The state is that of
  the process as far as \<open>SIGALRM\<close> is concerned. A handler takes no time; one that is not ours returns.
  The caller has no alarm of its own set.
\<close>

subsection \<open>The process and the clock\<close>

datatype disp = Default | Ignored | Caller | Wake | Jump nat

text \<open>
  \<open>Caller\<close> is a handler that the caller has installed, \<open>Wake\<close> the handler that only returns, \<open>Jump i\<close> the one
  that calls \<open>longjmp\<close>, which goes on with the step \<open>i\<close>. \<open>z_jmpmask\<close> says whether \<open>longjmp\<close> restores the
  signal mask, which systems do differently; without it \<open>SIGALRM\<close> stays blocked as it is in the handler.
\<close>

record napper =
  z_pc :: nat
  z_wait :: bool            \<comment> \<open>in \<open>pause\<close> or \<open>sigsuspend\<close>\<close>
  z_resume :: bool          \<comment> \<open>whether \<open>SIGALRM\<close> is blocked again when the wait is over\<close>
  z_timer :: "nat option"   \<comment> \<open>seconds that the alarm still has\<close>
  z_blocked :: bool
  z_pend :: bool
  z_act :: disp
  z_oldact :: disp
  z_oldmask :: bool
  z_dead :: bool
  z_since :: nat            \<comment> \<open>seconds since the alarm was set, until it was cancelled\<close>
  z_count :: bool           \<comment> \<open>these seconds are being counted\<close>
  z_ret :: nat
  z_jmpmask :: bool

definition wake :: "napper \<Rightarrow> napper" where
  "wake s = (if z_wait s then s\<lparr>z_wait := False, z_blocked := z_resume s\<rparr> else s)"

definition deliver :: "napper \<Rightarrow> napper" where
  "deliver s = (case z_act s of
     Default \<Rightarrow> s\<lparr>z_dead := True\<rparr>
   | Ignored \<Rightarrow> s
   | Caller \<Rightarrow> wake s
   | Wake \<Rightarrow> wake s
   | Jump i \<Rightarrow> s\<lparr>z_pc := i, z_wait := False, z_blocked := \<not> z_jmpmask s\<rparr>)"

definition raise_alrm :: "napper \<Rightarrow> napper" where
  "raise_alrm s = (if z_blocked s then s\<lparr>z_pend := True\<rparr> else deliver s)"

text \<open>A second passes.\<close>

definition tick :: "napper \<Rightarrow> napper" where
  "tick s =
     (let t = s\<lparr>z_since := (if z_count s then Suc (z_since s) else z_since s)\<rparr> in
      case z_timer s of
        None \<Rightarrow> t
      | Some k \<Rightarrow> if k \<le> 1 then raise_alrm (t\<lparr>z_timer := None\<rparr>) else t\<lparr>z_timer := Some (k - 1)\<rparr>)"

subsection \<open>System calls\<close>

definition set_blocked :: "bool \<Rightarrow> napper \<Rightarrow> napper" where
  "set_blocked b s = (if z_pend s \<and> \<not> b then deliver (s\<lparr>z_blocked := b, z_pend := False\<rparr>) else s\<lparr>z_blocked := b\<rparr>)"

definition set_act :: "disp \<Rightarrow> napper \<Rightarrow> napper" where
  "set_act a s = s\<lparr>z_oldact := z_act s, z_act := a\<rparr>"

definition alarm_set :: "nat \<Rightarrow> napper \<Rightarrow> napper" where
  "alarm_set n s = s\<lparr>z_timer := (if n = 0 then None else Some n), z_since := 0, z_count := True\<rparr>"

text \<open>\<open>alarm(0)\<close>, whose result is what the function returns.\<close>

definition alarm_cancel :: "napper \<Rightarrow> napper" where
  "alarm_cancel s = s\<lparr>z_ret := (case z_timer s of None \<Rightarrow> 0 | Some k \<Rightarrow> k), z_timer := None, z_count := False\<rparr>"

definition pause :: "napper \<Rightarrow> napper" where
  "pause s = s\<lparr>z_wait := True, z_resume := z_blocked s\<rparr>"

text \<open>\<open>sigsuspend\<close> with a mask that does not block \<open>SIGALRM\<close>: a pending one ends it at once.\<close>

definition sigsuspend :: "napper \<Rightarrow> napper" where
  "sigsuspend s =
     (let t = s\<lparr>z_wait := True, z_resume := z_blocked s, z_blocked := False, z_pend := False\<rparr> in
      if z_pend s then deliver t else t)"

subsection \<open>The functions\<close>

definition sleep :: "nat \<Rightarrow> (napper \<Rightarrow> napper) list" where
  "sleep nsecs =
     [set_act Wake,
      \<lambda>s. set_blocked True (s\<lparr>z_oldmask := z_blocked s\<rparr>),
      alarm_set nsecs,
      sigsuspend,
      alarm_cancel,
      \<lambda>s. s\<lparr>z_act := z_oldact s\<rparr>,
      \<lambda>s. set_blocked (z_oldmask s) s]"

definition sleep1 :: "nat \<Rightarrow> (napper \<Rightarrow> napper) list" where
  "sleep1 nsecs = [set_act Wake, alarm_set nsecs, pause, alarm_cancel]"

text \<open>The handler jumps to the \<open>alarm(0)\<close> that follows the \<open>if\<close>.\<close>

definition sleep2 :: "nat \<Rightarrow> (napper \<Rightarrow> napper) list" where
  "sleep2 nsecs = [set_act (Jump 3), alarm_set nsecs, pause, alarm_cancel]"

text \<open>The process takes a step, a second passes, or a signal other than \<open>SIGALRM\<close> is caught.\<close>

inductive zstep :: "(napper \<Rightarrow> napper) list \<Rightarrow> napper \<Rightarrow> napper \<Rightarrow> bool" for code where
  z_run: "\<not> z_wait s \<Longrightarrow> \<not> z_dead s \<Longrightarrow> z_pc s < length code \<Longrightarrow> zstep code s ((code ! z_pc s) (s\<lparr>z_pc := Suc (z_pc s)\<rparr>))"
| z_tick: "\<not> z_dead s \<Longrightarrow> zstep code s (tick s)"
| z_other: "\<not> z_dead s \<Longrightarrow> zstep code s (wake s)"

text \<open>
  The caller: its disposition of \<open>SIGALRM\<close> (a handler of its own is \<open>Caller\<close>), whether it blocks the signal,
  and what its \<open>longjmp\<close> does.
\<close>

fun own :: "disp \<Rightarrow> disp" where
  "own Default = Default"
| "own Ignored = Ignored"
| "own _ = Caller"

definition caller :: "disp \<Rightarrow> bool \<Rightarrow> bool \<Rightarrow> napper" where
  "caller a b j = \<lparr>z_pc = 0, z_wait = False, z_resume = False, z_timer = None, z_blocked = b, z_pend = False,
     z_act = own a, z_oldact = Default, z_oldmask = False, z_dead = False, z_since = 0, z_count = False, z_ret = 0, z_jmpmask = j\<rparr>"

definition z_returned :: "(napper \<Rightarrow> napper) list \<Rightarrow> napper \<Rightarrow> bool" where
  "z_returned code s \<longleftrightarrow> z_pc s = length code \<and> \<not> z_wait s \<and> \<not> z_dead s"

subsection \<open>What every version keeps\<close>

lemmas call_defs = wake_def deliver_def raise_alrm_def set_blocked_def set_act_def alarm_set_def alarm_cancel_def pause_def
  sigsuspend_def Let_def

lemma tick_early: "z_timer s = Some (Suc (Suc k)) \<Longrightarrow> tick s = s\<lparr>z_since := (if z_count s then Suc (z_since s) else z_since s), z_timer := Some (Suc k)\<rparr>"
  by (simp add: tick_def Let_def)

lemma ticks_early: "z_timer s = Some (Suc k) \<Longrightarrow> z_count s \<Longrightarrow> j \<le> k \<Longrightarrow>
    (tick ^^ j) s = s\<lparr>z_since := z_since s + j, z_timer := Some (Suc k - j)\<rparr>"
proof (induction j)
  case (Suc j)
  then have "(tick ^^ j) s = s\<lparr>z_since := z_since s + j, z_timer := Some (Suc (Suc (k - Suc j)))\<rparr>" by simp
  then show ?case using Suc.prems by (simp add: tick_early)
qed simp

text \<open>
  A version that cannot lose the alarm: while it waits the alarm is set and \<open>SIGALRM\<close> is let through. What
  it returns when it has finished is the time that was left.
\<close>

locale sleeper =
  fixes code :: "(napper \<Rightarrow> napper) list" and n :: nat and s0 :: napper and good :: "napper \<Rightarrow> bool"
  assumes good_init: "good s0"
    and good_step: "good s \<Longrightarrow> zstep code s t \<Longrightarrow> good t"
    and good_wait: "good s \<Longrightarrow> z_wait s \<Longrightarrow> \<not> z_blocked s \<and> z_act s \<noteq> Default \<and> z_act s \<noteq> Ignored \<and>
      (\<exists>k. z_timer s = Some k \<and> 0 < k \<and> k + z_since s = n \<and> z_count s)"
    and good_ret: "good s \<Longrightarrow> z_returned code s \<Longrightarrow> z_ret s = n - z_since s"
begin

lemma good_reach: "(zstep code)\<^sup>*\<^sup>* s0 s \<Longrightarrow> good s"
  by (induction rule: rtranclp_induct) (auto intro: good_init good_step)

lemma returns_unslept: "(zstep code)\<^sup>*\<^sup>* s0 s \<Longrightarrow> z_returned code s \<Longrightarrow> z_ret s = n - z_since s"
  using good_reach good_ret by blast

lemma wakes:
  assumes "(zstep code)\<^sup>*\<^sup>* s0 s" and "z_wait s"
  shows "z_since s < n \<and> (\<forall>j<n - z_since s. z_wait ((tick ^^ j) s)) \<and> \<not> z_wait ((tick ^^ (n - z_since s)) s)"
proof -
  obtain k where k: "z_timer s = Some (Suc k)" "Suc k + z_since s = n" "z_count s"
    using good_wait[OF good_reach[OF assms(1)] assms(2)] by (metis Suc_pred)
  have j: "n - z_since s = Suc k" using k by simp
  have "z_wait ((tick ^^ j) s)" if "j \<le> k" for j using ticks_early[OF k(1,3) that] assms(2) by simp
  moreover have "\<not> z_wait ((tick ^^ Suc k) s)"
    using ticks_early[OF k(1,3) le_refl] good_wait[OF good_reach[OF assms(1)] assms(2)] k(3)
    by (auto simp: tick_def raise_alrm_def deliver_def wake_def Let_def split: disp.split)
  ultimately show ?thesis using k j by auto
qed

end

subsection \<open>With sigsuspend\<close>

definition sleep_good :: "nat \<Rightarrow> disp \<Rightarrow> bool \<Rightarrow> napper \<Rightarrow> bool" where
  "sleep_good n a b s \<longleftrightarrow> z_pc s \<le> 7 \<and> (z_wait s \<longrightarrow> z_pc s = 4 \<and> z_resume s \<and> \<not> z_pend s \<and> (0 < n \<longrightarrow> z_timer s \<noteq> None)) \<and>
     (z_count s \<longleftrightarrow> z_pc s \<in> {3, 4}) \<and>
     (case z_timer s of Some k \<Rightarrow> z_pc s \<in> {3, 4} \<and> 0 < k \<and> k + z_since s = n \<and> \<not> z_pend s
        | None \<Rightarrow> z_pc s \<in> {3, 4} \<longrightarrow> n \<le> z_since s) \<and>
     (z_pend s \<longrightarrow> 3 \<le> z_pc s \<and> 0 < n \<and> n \<le> z_since s) \<and> (0 < n \<and> z_pc s = 3 \<and> z_timer s = None \<longrightarrow> z_pend s) \<and>
     (5 \<le> z_pc s \<longrightarrow> z_ret s = n - z_since s) \<and>
     z_act s = (if 1 \<le> z_pc s \<and> z_pc s \<le> 5 then Wake else a) \<and> (1 \<le> z_pc s \<longrightarrow> z_oldact s = a) \<and>
     (z_blocked s \<longleftrightarrow> (if 2 \<le> z_pc s \<and> z_pc s \<le> 6 then \<not> z_wait s else b)) \<and> (2 \<le> z_pc s \<longrightarrow> z_oldmask s = b) \<and>
     (z_dead s \<longrightarrow> z_pc s = 7 \<and> a = Default \<and> \<not> b \<and> 0 < n \<and> n \<le> z_since s)"

lemma sleep_good_tick:
  assumes g: "sleep_good n a b s" and d: "\<not> z_dead s"
  shows "sleep_good n a b (tick s)"
proof (cases "z_timer s")
  case None
  show ?thesis
  proof (cases "z_count s")
    case True
    then have "z_pc s = 3 \<or> z_pc s = 4" using g by (simp add: sleep_good_def)
    then show ?thesis using g None by (elim disjE) (simp_all add: sleep_good_def tick_def Let_def)
  next
    case False
    then show ?thesis using g None by (simp add: sleep_good_def tick_def Let_def)
  qed
next
  case (Some k)
  then have pc: "z_pc s = 3 \<or> z_pc s = 4" using g by (simp add: sleep_good_def)
  show ?thesis
  proof (cases "k \<le> 1")
    case True
    with Some pc g d show ?thesis
      by (elim disjE; cases "z_wait s") (simp_all add: sleep_good_def tick_def call_defs)
  next
    case False
    with Some pc g d show ?thesis
      by (elim disjE) (simp_all add: sleep_good_def tick_def Let_def)
  qed
qed

lemma sleep_good_wake: "sleep_good n a b s \<Longrightarrow> \<not> z_dead s \<Longrightarrow> sleep_good n a b (wake s)"
  unfolding sleep_good_def by (auto simp: call_defs split: option.splits if_splits)

lemma sleep_good_run:
  assumes g: "sleep_good n a b s" and a: "\<forall>i. a \<noteq> Jump i"
    and r: "\<not> z_dead s" "\<not> z_wait s" "z_pc s < 7"
  shows "sleep_good n a b ((sleep n ! z_pc s) (s\<lparr>z_pc := Suc (z_pc s)\<rparr>))"
proof -
  note F = sleep_good_def sleep_def call_defs
  consider "z_pc s \<in> {0, 1, 2, 3, 5, 6}" | "z_pc s = 4" using r(3) by fastforce
  then show ?thesis
  proof cases
    case 1
    then show ?thesis using g r a by (elim insertE; simp add: F split: option.splits disp.splits) auto
  next
    case 2
    then show ?thesis using g r by (cases "z_timer s") (auto simp: F)
  qed
qed

lemma own_plain: "\<forall>i. own a \<noteq> Jump i"
  by (cases a) simp_all

lemma sleep_run_pc:
  assumes g: "sleep_good n a b s" and a: "\<forall>i. a \<noteq> Jump i" and r: "\<not> z_dead s" "z_pc s < 7"
  shows "z_pc ((sleep n ! z_pc s) (s\<lparr>z_pc := Suc (z_pc s)\<rparr>)) = Suc (z_pc s)"
proof -
  have "z_pc s \<in> {0, 1, 2, 3, 4, 5, 6}" using r(2) by fastforce
  then show ?thesis using g a r
    by (elim insertE; simp add: sleep_good_def sleep_def call_defs split: option.splits disp.splits)
qed

lemma sleep_good_init: "sleep_good n (own a) b (caller a b j)"
  by (simp add: sleep_good_def caller_def)

lemma sleep_good_step: "zstep (sleep n) s t \<Longrightarrow> sleep_good n (own a) b s \<Longrightarrow> sleep_good n (own a) b t"
proof (induction rule: zstep.induct)
  case (z_run s)
  then show ?case using sleep_good_run[OF z_run.prems own_plain] by (simp add: sleep_def)
qed (simp_all add: sleep_good_tick sleep_good_wake)

lemma sleep_good_reach: "(zstep (sleep n))\<^sup>*\<^sup>* (caller a b j) s \<Longrightarrow> sleep_good n (own a) b s"
  by (induction rule: rtranclp_induct) (auto intro: sleep_good_init sleep_good_step)

text \<open>At least a second is asked for.\<close>

interpretation zz: sleeper "sleep (Suc m)" "Suc m" "caller a b j" "sleep_good (Suc m) (own a) b"
proof
  show "sleep_good (Suc m) (own a) b (caller a b j)" by (rule sleep_good_init)
next
  fix s t assume "sleep_good (Suc m) (own a) b s" "zstep (sleep (Suc m)) s t"
  then show "sleep_good (Suc m) (own a) b t" by (simp add: sleep_good_step)
next
  fix s assume "sleep_good (Suc m) (own a) b s" "z_wait s"
  then show "\<not> z_blocked s \<and> z_act s \<noteq> Default \<and> z_act s \<noteq> Ignored \<and>
      (\<exists>k. z_timer s = Some k \<and> 0 < k \<and> k + z_since s = Suc m \<and> z_count s)"
    by (auto simp: sleep_good_def)
next
  fix s assume "sleep_good (Suc m) (own a) b s" "z_returned (sleep (Suc m)) s"
  then show "z_ret s = Suc m - z_since s" by (simp add: sleep_good_def z_returned_def sleep_def)
qed

subsection \<open>With setjmp and longjmp\<close>

definition sleep2_good :: "nat \<Rightarrow> bool \<Rightarrow> napper \<Rightarrow> bool" where
  "sleep2_good n j s \<longleftrightarrow> z_pc s \<le> 4 \<and> (z_wait s \<longrightarrow> z_pc s = 3 \<and> \<not> z_blocked s \<and> \<not> z_resume s \<and> z_timer s \<noteq> None) \<and>
     (z_timer s \<noteq> None \<longrightarrow> \<not> z_blocked s) \<and>
     (z_count s \<longleftrightarrow> z_pc s \<in> {2, 3}) \<and> (1 \<le> z_pc s \<longrightarrow> z_act s = Jump 3) \<and> \<not> z_pend s \<and>
     (z_blocked s \<longrightarrow> 3 \<le> z_pc s) \<and> (z_pc s = 2 \<longrightarrow> z_timer s \<noteq> None) \<and>
     (case z_timer s of Some k \<Rightarrow> z_pc s \<in> {2, 3} \<and> 0 < k \<and> k + z_since s = n | None \<Rightarrow> z_pc s \<in> {2, 3} \<longrightarrow> n \<le> z_since s) \<and>
     (4 \<le> z_pc s \<longrightarrow> z_ret s = n - z_since s) \<and> z_jmpmask s = j \<and> \<not> z_dead s"

lemma sleep2_good_tick:
  assumes g: "sleep2_good n j s"
  shows "sleep2_good n j (tick s)"
proof (cases "z_timer s")
  case None
  then show ?thesis using g unfolding sleep2_good_def tick_def by (auto simp: Let_def)
next
  case (Some k)
  then have pc: "z_pc s = 2 \<or> z_pc s = 3" using g by (simp add: sleep2_good_def)
  show ?thesis
  proof (cases "k \<le> 1")
    case True
    with Some pc g show ?thesis
      by (elim disjE; cases "z_wait s") (simp_all add: sleep2_good_def tick_def call_defs)
  next
    case False
    with Some pc g show ?thesis
      by (elim disjE) (simp_all add: sleep2_good_def tick_def Let_def)
  qed
qed

lemma sleep2_good_run:
  assumes g: "sleep2_good n j s" and n: "0 < n" and r: "\<not> z_wait s" "z_pc s < 4"
  shows "sleep2_good n j ((sleep2 n ! z_pc s) (s\<lparr>z_pc := Suc (z_pc s)\<rparr>))"
proof -
  note F = sleep2_good_def sleep2_def call_defs
  consider "z_pc s \<in> {0, 1, 2}" | "z_pc s = 3" using r(2) by fastforce
  then show ?thesis
  proof cases
    case 1
    then show ?thesis using g n r by (elim insertE; auto simp: F split: option.splits)
  next
    case 2
    then show ?thesis using g n r by (cases "z_timer s") (auto simp: F)
  qed
qed

lemma sleep2_good_wake: "sleep2_good n j s \<Longrightarrow> sleep2_good n j (wake s)"
  by (auto simp: sleep2_good_def wake_def split: option.splits)

text \<open>The caller does not block \<open>SIGALRM\<close>.\<close>

interpretation zj: sleeper "sleep2 (Suc m)" "Suc m" "caller a False j" "sleep2_good (Suc m) j"
proof
  show "sleep2_good (Suc m) j (caller a False j)" by (simp add: sleep2_good_def caller_def)
next
  fix s t assume g: "sleep2_good (Suc m) j s" and st: "zstep (sleep2 (Suc m)) s t"
  have l: "length (sleep2 (Suc m)) = 4" by (simp add: sleep2_def)
  from st show "sleep2_good (Suc m) j t"
  proof (cases rule: zstep.cases)
    case z_run
    then show ?thesis using sleep2_good_run[OF g] l by simp
  qed (use g sleep2_good_tick sleep2_good_wake in simp_all)
next
  fix s assume "sleep2_good (Suc m) j s" "z_wait s"
  then show "\<not> z_blocked s \<and> z_act s \<noteq> Default \<and> z_act s \<noteq> Ignored \<and>
      (\<exists>k. z_timer s = Some k \<and> 0 < k \<and> k + z_since s = Suc m \<and> z_count s)"
    by (auto simp: sleep2_good_def)
next
  fix s assume "sleep2_good (Suc m) j s" "z_returned (sleep2 (Suc m)) s"
  then show "z_ret s = Suc m - z_since s" by (simp add: sleep2_good_def z_returned_def sleep2_def)
qed

subsection \<open>Runs\<close>

text \<open>A run as a list of events; an event that cannot happen ends it.\<close>

datatype zevent = Run | Tick | Other

fun zapply :: "(napper \<Rightarrow> napper) list \<Rightarrow> zevent \<Rightarrow> napper \<Rightarrow> napper option" where
  "zapply code e s =
     (if z_dead s then None
      else (case e of
        Run \<Rightarrow> if z_wait s \<or> length code \<le> z_pc s then None else Some ((code ! z_pc s) (s\<lparr>z_pc := Suc (z_pc s)\<rparr>))
      | Tick \<Rightarrow> Some (tick s)
      | Other \<Rightarrow> Some (wake s)))"

fun zexec :: "(napper \<Rightarrow> napper) list \<Rightarrow> zevent list \<Rightarrow> napper \<Rightarrow> napper" where
  "zexec code [] s = s"
| "zexec code (e # es) s = (case zapply code e s of None \<Rightarrow> s | Some t \<Rightarrow> zexec code es t)"

lemma zapply_step: "zapply code e s = Some t \<Longrightarrow> zstep code s t"
  by (auto split: zevent.splits if_splits intro: zstep.intros)

lemma zexec_reach: "(zstep code)\<^sup>*\<^sup>* s (zexec code es s)"
  by (induction es arbitrary: s)
    (auto simp del: zapply.simps split: option.split intro: converse_rtranclp_into_rtranclp dest: zapply_step)

lemma zexec_step: "zapply code e s = Some t \<Longrightarrow> zexec code (e # es) s = zexec code es t"
  by simp

lemmas zexec_eval = zexec_step zexec.simps(1) sleep_def sleep1_def sleep2_def call_defs caller_def tick_def z_returned_def

text \<open>With no alarm set the clock does not end a wait.\<close>

lemma ticks_no_timer: "z_timer s = None \<Longrightarrow> z_wait s \<Longrightarrow> z_wait ((tick ^^ k) s) \<and> z_timer ((tick ^^ k) s) = None"
  by (induction k) (auto simp: tick_def Let_def)

text \<open>
  C24. What \<open>sleep\<close> does, however its calls, the clock and other signals interleave (nobody else sends \<open>SIGALRM\<close>):
  a process that waits for at least a second is woken when the time is over, so the alarm is never missed; one that asked
  for no time at all is not woken by the clock; a process that does not wait and is alive gets on with its next call, of
  which there are seven; when it has returned the value is the time that was left and the caller has its disposition of
  \<open>SIGALRM\<close> and its mask back; and it dies only as a caller with the default disposition that does not block
  \<open>SIGALRM\<close>, when the time was over before the alarm was cancelled.
\<close>

theorem sleep_returns:
  assumes "(zstep (sleep n))\<^sup>*\<^sup>* (caller a b j) s"
  shows "(z_wait s \<and> 0 < n \<longrightarrow> z_since s < n \<and> \<not> z_wait ((tick ^^ (n - z_since s)) s)) \<and>
    (z_wait s \<and> n = 0 \<longrightarrow> (\<forall>k. z_wait ((tick ^^ k) s))) \<and>
    (\<not> z_wait s \<and> \<not> z_dead s \<and> z_pc s < 7 \<longrightarrow> (\<exists>t. zstep (sleep n) s t \<and> z_pc t = Suc (z_pc s))) \<and>
    z_pc s \<le> 7 \<and>
    (z_returned (sleep n) s \<longrightarrow> z_ret s = n - z_since s \<and> z_act s = own a \<and> z_blocked s = b) \<and>
    (z_dead s \<longrightarrow> own a = Default \<and> \<not> b \<and> 0 < n \<and> n \<le> z_since s)"
proof (intro conjI impI)
  note g = sleep_good_reach[OF assms]
  have l: "length (sleep n) = 7" by (simp add: sleep_def)
  show "z_pc s \<le> 7" using g by (simp add: sleep_good_def)
  show "z_since s < n" "\<not> z_wait ((tick ^^ (n - z_since s)) s)" if "z_wait s \<and> 0 < n"
    using zz.wakes[of "n - 1" a b j s] assms that by simp_all
  show "\<forall>k. z_wait ((tick ^^ k) s)" if "z_wait s \<and> n = 0"
  proof -
    have "z_timer s = None" using g that by (auto simp: sleep_good_def split: option.splits)
    then show ?thesis using ticks_no_timer that by blast
  qed
  show "\<exists>t. zstep (sleep n) s t \<and> z_pc t = Suc (z_pc s)" if r: "\<not> z_wait s \<and> \<not> z_dead s \<and> z_pc s < 7"
    using z_run[of s "sleep n"] sleep_run_pc[OF g own_plain] r l by (metis (no_types, lifting))
  show "z_ret s = n - z_since s" "z_act s = own a" "z_blocked s = b" if "z_returned (sleep n) s"
    using g that by (simp_all add: z_returned_def l sleep_good_def)
  show "own a = Default" "\<not> b" "0 < n" "n \<le> z_since s" if "z_dead s"
    using g that by (simp_all add: sleep_good_def)
qed

text \<open>A run in which another signal ends the wait after one of two seconds.\<close>

definition nap :: napper where
  "nap = zexec (sleep 2) [Run, Run, Run, Run, Tick, Other, Run, Run, Run] (caller Caller True False)"

theorem sleep_returns_witness: "z_ret nap = 1 \<and> z_act nap = Caller \<and> z_blocked nap"
proof -
  have "(zstep (sleep (Suc 1)))\<^sup>*\<^sup>* (caller Caller True False) nap"
    using zexec_reach by (simp only: nap_def Suc_1)
  note R = sleep_returns[OF this]
  have "z_returned (sleep (Suc 1)) nap" "z_since nap = 1"
    by (simp_all add: nap_def zexec_eval del: zexec.simps(2))
  then show ?thesis using R by simp
qed

text \<open>
  \<open>sleep1\<close> does miss it: when the alarm goes off between \<open>alarm\<close> and \<open>pause\<close>, the process waits for ever. So
  does \<open>sleep\<close> when it is asked for no time at all, since \<open>alarm(0)\<close> sets no alarm.
\<close>

theorem sleep1_misses_alarm:
  "\<exists>s. (zstep (sleep1 (Suc m)))\<^sup>*\<^sup>* (caller a False j) s \<and> (\<forall>k. z_wait ((tick ^^ k) s))"
proof -
  define u where "u = (caller a False j)\<lparr>z_pc := 2, z_act := Wake, z_oldact := own a, z_timer := Some (Suc m), z_count := True\<rparr>"
  define v where "v = u\<lparr>z_since := Suc m, z_timer := None\<rparr>"
  have "zexec (sleep1 (Suc m)) [Run, Run] (caller a False j) = u"
    by (simp add: u_def zexec_eval del: zexec.simps(2))
  then have 1: "(zstep (sleep1 (Suc m)))\<^sup>*\<^sup>* (caller a False j) u" using zexec_reach by metis
  have t: "(zstep (sleep1 (Suc m)))\<^sup>*\<^sup>* u ((tick ^^ k) u)" if "k \<le> m" for k using that
  proof (induction k)
    case (Suc k)
    then have "\<not> z_dead ((tick ^^ k) u)" using ticks_early[of u m k] by (simp add: u_def caller_def)
    then show ?case using Suc by (simp add: rtranclp.rtrancl_into_rtrancl z_tick)
  qed simp
  have m: "(tick ^^ m) u = u\<lparr>z_since := m, z_timer := Some 1\<rparr>"
    using ticks_early[of u m m] by (simp add: u_def caller_def)
  have "zexec (sleep1 (Suc m)) [Tick, Run] ((tick ^^ m) u) = pause (v\<lparr>z_pc := 3\<rparr>)"
    unfolding m by (simp add: u_def v_def zexec_eval del: zexec.simps(2))
  then have "(zstep (sleep1 (Suc m)))\<^sup>*\<^sup>* (caller a False j) (pause (v\<lparr>z_pc := 3\<rparr>))"
    using 1 t[OF le_refl] zexec_reach by (metis rtranclp_trans)
  moreover have "z_wait ((tick ^^ k) (pause (v\<lparr>z_pc := 3\<rparr>)))" for k
    using ticks_no_timer by (simp add: pause_def v_def)
  ultimately show ?thesis by blast
qed

theorem sleep_zero_waits: "\<exists>s. (zstep (sleep 0))\<^sup>*\<^sup>* (caller a b j) s \<and> (\<forall>k. z_wait ((tick ^^ k) s))"
proof -
  define s where "s = zexec (sleep 0) [Run, Run, Run, Run] (caller a b j)"
  have "z_wait s \<and> z_timer s = None" by (simp add: s_def zexec_eval del: zexec.simps(2))
  then show ?thesis using zexec_reach[of "sleep 0" "caller a b j"] ticks_no_timer s_def by metis
qed

text \<open>
  The alarm can come too late to be of use: when another signal has ended the wait and the time is over before the
  alarm is cancelled, \<open>SIGALRM\<close> is pending when \<open>sleep\<close> restores the disposition and the mask, and it kills a
  caller that has the default disposition.
\<close>

theorem sleep_stray_alarm: "\<exists>s. (zstep (sleep 1))\<^sup>*\<^sup>* (caller Default False j) s \<and> z_dead s"
proof -
  have "z_dead (zexec (sleep 1) [Run, Run, Run, Run, Other, Tick, Run, Run, Run] (caller Default False j))"
    by (simp add: zexec_eval del: zexec.simps(2))
  then show ?thesis using zexec_reach by blast
qed

text \<open>
  \<open>sleep2\<close> closes the gap of \<open>sleep1\<close>: a process that waits is woken when the time is over, and the value
  returned is the time that was left. Where \<open>longjmp\<close> does not restore the signal mask, though,
  \<open>SIGALRM\<close> is blocked after an alarm, and a second call waits for ever.
\<close>

theorem sleep2_returns:
  assumes "(zstep (sleep2 (Suc m)))\<^sup>*\<^sup>* (caller a False j) s"
  shows "(z_wait s \<longrightarrow> z_since s \<le> m \<and> \<not> z_wait ((tick ^^ (Suc m - z_since s)) s)) \<and>
    (z_returned (sleep2 (Suc m)) s \<longrightarrow> z_ret s = Suc m - z_since s \<and>
      (z_blocked s \<longrightarrow> (\<forall>i. \<exists>u. (zstep (sleep2 (Suc i)))\<^sup>*\<^sup>* (s\<lparr>z_pc := 0\<rparr>) u \<and> z_wait u \<and> (\<forall>k. z_wait ((tick ^^ k) u)))))"
proof -
  have "z_wait ((tick ^^ k) u) \<and> z_blocked ((tick ^^ k) u)" if "z_wait u" "z_blocked u" for k u
    using that by (induction k) (auto simp: tick_def raise_alrm_def Let_def split: option.split)
  moreover have "\<exists>u. (zstep (sleep2 (Suc i)))\<^sup>*\<^sup>* (s\<lparr>z_pc := 0\<rparr>) u \<and> z_wait u \<and> z_blocked u"
    if "z_returned (sleep2 (Suc m)) s" "z_blocked s" for i
  proof -
    have "z_wait (zexec (sleep2 (Suc i)) [Run, Run, Run] (s\<lparr>z_pc := 0\<rparr>)) \<and> z_blocked (zexec (sleep2 (Suc i)) [Run, Run, Run] (s\<lparr>z_pc := 0\<rparr>))"
      using that by (simp add: z_returned_def zexec_eval del: zexec.simps(2))
    then show ?thesis using zexec_reach by blast
  qed
  ultimately show ?thesis using zj.wakes[OF assms] zj.returns_unslept[OF assms] by (metis less_Suc_eq_le)
qed

definition nap2 :: napper where
  "nap2 = zexec (sleep2 1) [Run, Run, Run, Tick, Run] (caller Default False False)"

theorem sleep2_returns_witness:
  "z_ret nap2 = 0 \<and> (\<exists>u. (zstep (sleep2 1))\<^sup>*\<^sup>* (nap2\<lparr>z_pc := 0\<rparr>) u \<and> z_wait u)"
proof -
  have "(zstep (sleep2 (Suc 0)))\<^sup>*\<^sup>* (caller Default False False) nap2"
    using zexec_reach by (simp only: nap2_def One_nat_def)
  note R = sleep2_returns[OF this]
  have "z_returned (sleep2 (Suc 0)) nap2" "z_since nap2 = 1" "z_blocked nap2"
    by (simp_all add: nap2_def zexec_eval del: zexec.simps(2))
  then show ?thesis using R by (metis One_nat_def diff_self_eq_0)
qed

end
