(* ===== verification/Lock_Demo.thy ===== *)
theory Lock_Demo
  imports Errlog
begin

text \<open>
  Programs that live on record locks: \<^verbatim>\<open>daemon-lock.c\<close> (one daemon at a time), \<^verbatim>\<open>lck-file.c\<close> (locks that move
  with the end of the file) and \<^verbatim>\<open>chk-lck.c\<close> (does the system enforce locks?).

  The state is that of \<open>Errlog\<close> (files, locks and what the program prints) with the process ID, the close-on-exec
  flags, the modes of files, the \<open>umask\<close>, and whether the system has mandatory locking.
\<close>

record lockw = stdio +
  k_pid :: int
  k_cloexec :: "int \<Rightarrow> int"
  k_mode :: "string \<Rightarrow> int"
  k_umask :: int
  k_mand :: bool

definition FILE_MODE :: int where "FILE_MODE = 0x1A4"
definition S_IXGRP :: int where "S_IXGRP = 0x8"
definition S_ISGID :: int where "S_ISGID = 0x400"
definition FD_CLOEXEC :: int where "FD_CLOEXEC = 1"
definition PIDFILE :: string where "PIDFILE = ''daemon.pid''"

text \<open>\<open>open\<close> with the mode of a file that it creates.\<close>

definition open_mode :: "string \<Rightarrow> int \<Rightarrow> int \<Rightarrow> (int, 'a lockw_scheme) prog" where
  "open_mode path oflag mode =
     bnd (gets (\<lambda>s. w_files s path = None)) (\<lambda>new.
     bnd (sys_open path oflag) (\<lambda>fd.
     if fd \<ge> 0 \<and> new then bnd (modify (\<lambda>s. s\<lparr>k_mode := (k_mode s)(path := mode AND NOT (k_umask s))\<rparr>)) (\<lambda>_. ret fd)
     else ret fd))"

definition ftruncate :: "int \<Rightarrow> nat \<Rightarrow> (int, 'a world_scheme) prog" where
  "ftruncate fd n = (\<lambda>s. case w_fds s fd of
     None \<Rightarrow> fail EBADF s
   | Some f \<Rightarrow> if o_oflag f AND 3 = O_RDONLY then fail EINVAL s
               else Ok 0 (set_bytes (o_path f) (take n (fd_bytes s fd) @ replicate (n - length (fd_bytes s fd)) NUL) s))"

definition getfd :: "int \<Rightarrow> (int, 'a lockw_scheme) prog" where
  "getfd fd = (\<lambda>s. if w_fds s fd = None then fail EBADF s else Ok (k_cloexec s fd) s)"

definition setfd :: "int \<Rightarrow> int \<Rightarrow> (int, 'a lockw_scheme) prog" where
  "setfd fd v = (\<lambda>s. if w_fds s fd = None then fail EBADF s else Ok 0 (s\<lparr>k_cloexec := (k_cloexec s)(fd := v)\<rparr>))"

subsection \<open>One daemon at a time\<close>

text \<open>
  \<open>main\<close> of \<^verbatim>\<open>daemon-lock.c\<close>, up to the \<open>exit\<close> at its end: \<open>None\<close> for a daemon that finds another one
  running. \<open>buf\<close> has ten bytes, for the digits, the newline and the null byte.
\<close>

definition daemon_lock :: "(unit option, lockw) prog" where
  "daemon_lock =
     bnd (open_mode PIDFILE (O_WRONLY OR O_CREAT) FILE_MODE) (\<lambda>fd.
     if fd < 0 then err_sys ''open error''
     else bnd (write_lock fd 0 SEEK_SET 0) (\<lambda>r.
     if r < 0
     then bnd (gets w_errno) (\<lambda>e.
          if e = EACCES \<or> e = EAGAIN then ret None else err_sys ''write_lock error'')
     else bnd (ftruncate fd 0) (\<lambda>r.
     if r < 0 then err_sys ''ftruncate error''
     else bnd (gets (\<lambda>s. fmt_d (k_pid s) @ [NL])) (\<lambda>buf.
     if length buf + 1 > 10 then stop_with (Undefined ''buf overflow'')
     else bnd (sys_write fd buf) (\<lambda>n.
     if n \<noteq> int (length buf) then err_sys ''write error''
     else bnd (getfd fd) (\<lambda>val.
     if val < 0 then err_sys ''fcntl F_GETTFD error''
     else bnd (setfd fd (val OR FD_CLOEXEC)) (\<lambda>r.
     if r < 0 then err_sys ''fcntl F_SETFD error''
     else bnd (put_out (''do whatever '' @ [NL])) (\<lambda>_. ret (Some ())))))))))"

subsection \<open>Locks at the end of the file\<close>

definition lck_round :: "int \<Rightarrow> (unit, lockw) prog" where
  "lck_round fd =
     bnd (writew_lock fd 0 SEEK_END 0) (\<lambda>r.
     if r < 0 then err_sys ''writew_lock error''
     else bnd (sys_write fd [char_of (nat (fd mod 256))]) (\<lambda>n.
     if n \<noteq> 1 then err_sys ''write error''
     else bnd (un_lock fd 0 SEEK_END 0) (\<lambda>r.
     if r < 0 then err_sys ''un_lock error''
     else bnd (sys_write fd [char_of (nat (fd mod 256))]) (\<lambda>n.
     if n \<noteq> 1 then err_sys ''write error'' else ret ()))))"

fun lck_rounds :: "nat \<Rightarrow> int \<Rightarrow> (unit, lockw) prog" where
  "lck_rounds 0 fd = ret ()"
| "lck_rounds (Suc n) fd = bnd (lck_round fd) (\<lambda>_. lck_rounds n fd)"

text \<open>\<open>main\<close> of \<^verbatim>\<open>lck-file.c\<close> with the number of rounds, 100000000 there; it returns the descriptor, which is open until the exit.\<close>

definition lck_file :: "nat \<Rightarrow> (int, lockw) prog" where
  "lck_file rounds =
     bnd (open_mode ''temp.lock'' (O_RDWR OR O_CREAT OR O_TRUNC) FILE_MODE) (\<lambda>fd.
     if fd < 0 then err_sys ''open error''
     else bnd (lck_rounds rounds fd) (\<lambda>_. ret fd))"

subsection \<open>Advisory or mandatory\<close>

text \<open>\<open>main\<close> of \<^verbatim>\<open>chk-lck.c\<close> before the \<open>fork\<close>: six bytes in a file whose mode asks for mandatory locking.\<close>

definition fchmod :: "int \<Rightarrow> int \<Rightarrow> (int, 'a lockw_scheme) prog" where
  "fchmod fd m = (\<lambda>s. case w_fds s fd of
     None \<Rightarrow> fail EBADF s
   | Some f \<Rightarrow> Ok 0 (s\<lparr>k_mode := (k_mode s)(o_path f := m)\<rparr>))"

definition chk_prepare :: "(int, lockw) prog" where
  "chk_prepare =
     bnd (open_mode ''templock'' (O_RDWR OR O_CREAT OR O_TRUNC) FILE_MODE) (\<lambda>fd.
     if fd < 0 then err_sys ''open error''
     else bnd (sys_write fd ''abcdef'') (\<lambda>n.
     if n \<noteq> 6 then err_sys ''write error''
     else bnd (gets (\<lambda>s. k_mode s (fd_path s fd))) (\<lambda>m.
     bnd (fchmod fd ((m AND NOT S_IXGRP) OR S_ISGID)) (\<lambda>r.
     if r < 0 then err_sys ''fchmod error'' else ret fd))))"

definition chk_parent :: "int \<Rightarrow> (unit, lockw) prog" where
  "chk_parent fd =
     bnd (put_out (''in parent'' @ [NL])) (\<lambda>_.
     bnd (write_lock fd 0 SEEK_SET 0) (\<lambda>r.
     if r < 0 then err_sys ''write_lock error'' else ret ()))"

text \<open>
  A nonblocking \<open>read\<close> where locks are enforced: the file's mode asks for it, and another
  process has a write lock on what is to be read.
\<close>

definition enforced :: "'a lockw_scheme \<Rightarrow> string \<Rightarrow> bool" where
  "enforced s path \<longleftrightarrow> k_mand s \<and> k_mode s path AND S_ISGID \<noteq> 0 \<and> k_mode s path AND S_IXGRP = 0"

definition mand_read :: "int \<Rightarrow> nat \<Rightarrow> (string option, 'a lockw_scheme) prog" where
  "mand_read fd n = (\<lambda>s.
     if enforced s (fd_path s fd) \<and> list_ex (conflicts (fd_path s fd) F_RDLCK (fd_pos s fd) n) (w_others s)
     then Ok None (s\<lparr>w_errno := EAGAIN\<rparr>) else sys_read fd n s)"

text \<open>The child after it has been told.\<close>

definition chk_child :: "int \<Rightarrow> (unit, lockw) prog" where
  "chk_child fd =
     bnd (put_out (''in child'' @ [NL])) (\<lambda>_.
     bnd (read_lock fd 0 SEEK_SET 0) (\<lambda>r.
     if r \<noteq> -1 then err_sys ''child: read_lock succeeded''
     else bnd (gets w_errno) (\<lambda>e.
     bnd (put_out (''read_lock of already-locked region returns '' @ fmt_d (err_no e) @ [NL])) (\<lambda>_.
     bnd (lseek fd 0 SEEK_SET) (\<lambda>p.
     if p = -1 then err_sys ''lseek error''
     else bnd (mand_read fd 2) (\<lambda>b. case b of
       None \<Rightarrow> err_ret ''read failed (mandatory locking works)''
     | Some buff \<Rightarrow> put_out (''read OK (no mandatory locking), buff = '' @ take 2 buff @ [NL])))))))"

text \<open>
  How the locks of a process look to another one: the kernel shows the locked bytes of a file as a list of
  regions, in whatever way it cuts them.
\<close>

definition shown_as :: "(nat \<Rightarrow> lock_type option) \<Rightarrow> string \<Rightarrow> other_lock list \<Rightarrow> bool" where
  "shown_as L path ls \<longleftrightarrow> (\<forall>b t. L b = Some t \<longleftrightarrow>
     (\<exists>l\<in>set ls. l_path l = path \<and> l_type l = t \<and> in_region (l_start l) (l_len l) b))"

definition as_other :: "other_lock list \<Rightarrow> int \<Rightarrow> lockw \<Rightarrow> lockw" where
  "as_other ls pid s = s\<lparr>w_locks := (\<lambda>_ _. None), w_others := ls @ w_others s, k_pid := pid\<rparr>"

lemma shown_conflicts:
  assumes "shown_as L path ls" and "L b = Some F_WRLCK" and "in_region start len b" and "t \<noteq> F_UNLCK" and "set ls \<subseteq> set ms"
  shows "list_ex (conflicts path t start len) ms"
proof -
  obtain l where "l \<in> set ls" "l_path l = path" "l_type l = F_WRLCK" "in_region (l_start l) (l_len l) b"
    using assms(1,2) by (auto simp: shown_as_def)
  then show ?thesis
    using assms(3-5) by (auto simp: list_ex_iff conflicts_def overlap_def in_region_def)
qed

text \<open>
  \<^verbatim>\<open>chk-lck.c\<close> as a whole, where the child sees the parent's locks as \<open>ls\<close>. \<open>WAIT_PARENT\<close> keeps the child
  back until the parent has its lock, so that the child's part comes second; what the two print before that may come
  in either order, here the parent's comes first.
\<close>

definition chk_lck :: "other_lock list \<Rightarrow> int \<Rightarrow> (unit, lockw) prog" where
  "chk_lck ls childpid =
     bnd chk_prepare (\<lambda>fd.
     bnd (chk_parent fd) (\<lambda>_.
     bnd (modify (as_other ls childpid)) (\<lambda>_.
     chk_child fd)))"

subsection \<open>One daemon at a time\<close>

lemma open_mode_run:
  assumes "new_fd s = Some fd" and "\<not> w_denied s path" and "oflag AND O_CREAT \<noteq> 0" and "\<not> odd_flags oflag"
  shows "\<exists>m. open_mode path oflag mode s = Ok fd (s\<lparr>w_files := (w_files s)(path \<mapsto> (if oflag AND O_TRUNC = 0 then file_bytes s path else [])),
    w_fds := (w_fds s)(fd \<mapsto> \<lparr>o_path = path, o_pos = 0, o_oflag = oflag\<rparr>), k_mode := m\<rparr>)"
proof -
  have "0 \<le> fd" using new_fd_free(1)[OF assms(1)] .
  then have "open_mode path oflag mode s = Ok fd (s\<lparr>w_files := (w_files s)(path \<mapsto> (if oflag AND O_TRUNC = 0 then file_bytes s path else [])),
      w_fds := (w_fds s)(fd \<mapsto> \<lparr>o_path = path, o_pos = 0, o_oflag = oflag\<rparr>),
      k_mode := (if w_files s path = None then (k_mode s)(path := mode AND NOT (k_umask s)) else k_mode s)\<rparr>)"
    using assms open_error_none[of oflag s path] by (simp add: open_mode_def sys_open_def Let_def)
  then show ?thesis by blast
qed

text \<open>A lock of another process on the file of the process ID.\<close>

definition pid_locked :: "lockw \<Rightarrow> bool" where
  "pid_locked s \<longleftrightarrow> list_ex (conflicts PIDFILE F_WRLCK 0 0) (w_others s)"

lemma daemon_lock_refused:
  assumes "new_fd s = Some fd" and "\<not> w_denied s PIDFILE" and "pid_locked s"
  shows "\<exists>t. daemon_lock s = Ok None t \<and> file_bytes t PIDFILE = file_bytes s PIDFILE \<and> e_buf t = e_buf s"
proof -
  have fl: "(O_WRONLY OR O_CREAT) AND O_CREAT \<noteq> 0" "(O_WRONLY OR O_CREAT) AND O_TRUNC = 0" by (simp_all add: oflag_defs)
  obtain m where o: "open_mode PIDFILE (O_WRONLY OR O_CREAT) FILE_MODE s =
      Ok fd (s\<lparr>w_files := (w_files s)(PIDFILE \<mapsto> file_bytes s PIDFILE),
        w_fds := (w_fds s)(fd \<mapsto> \<lparr>o_path = PIDFILE, o_pos = 0, o_oflag = O_WRONLY OR O_CREAT\<rparr>), k_mode := m\<rparr>)"
    using open_mode_run[OF assms(1,2) fl(1), of FILE_MODE] fl(2) by auto
  show ?thesis using o new_fd_free(1)[OF assms(1)] assms(3)
    by (simp add: daemon_lock_def write_lock_def lock_reg_def seek_base_def fail_def pid_locked_def file_bytes_def)
qed

lemma daemon_lock_runs:
  assumes "new_fd s = Some fd" and "\<not> w_denied s PIDFILE" and "\<not> pid_locked s"
    and "length (fmt_d (k_pid s)) < w_limit s" and "length (fmt_d (k_pid s)) \<le> 8" and "0 \<le> k_cloexec s fd"
  shows "\<exists>t. daemon_lock s = Ok (Some ()) t \<and> w_files t PIDFILE = Some (fmt_d (k_pid s) @ [NL]) \<and>
    (\<forall>b. w_locks t PIDFILE b = Some F_WRLCK) \<and> k_cloexec t fd = k_cloexec s fd OR FD_CLOEXEC \<and> w_denied t = w_denied s"
proof -
  have fl: "(O_WRONLY OR O_CREAT) AND O_CREAT \<noteq> 0" "(O_WRONLY OR O_CREAT) AND O_TRUNC = 0" "(O_WRONLY OR O_CREAT) AND 3 \<noteq> O_RDONLY"
    by (simp_all add: oflag_defs)
  obtain m where o: "open_mode PIDFILE (O_WRONLY OR O_CREAT) FILE_MODE s =
      Ok fd (s\<lparr>w_files := (w_files s)(PIDFILE \<mapsto> file_bytes s PIDFILE),
        w_fds := (w_fds s)(fd \<mapsto> \<lparr>o_path = PIDFILE, o_pos = 0, o_oflag = O_WRONLY OR O_CREAT\<rparr>), k_mode := m\<rparr>)"
    using open_mode_run[OF assms(1,2) fl(1), of FILE_MODE] fl(2) by auto
  have c: "0 \<le> k_cloexec s fd OR FD_CLOEXEC" using assms(6) by (simp add: FD_CLOEXEC_def)
  show ?thesis using o new_fd_free(1)[OF assms(1)] assms(3-6) fl(3) c
    by (simp add: daemon_lock_def write_lock_def lock_reg_def seek_base_def pid_locked_def ftruncate_def
      set_lock_def set_bytes_def fd_bytes_def fd_path_def file_bytes_def sys_write_def Let_def overwrite_def getfd_def setfd_def set_pos_def put_out_def
      in_region_def)
qed

text \<open>
  C23. At most one daemon runs: a daemon that finds the file unlocked gets through, with its process ID in the
  file and a write lock on every byte of it, and any other one that starts where the file is so locked (whatever else its
  world holds, as long as the kernel shows it those locks) ends quietly and leaves the file as it is. The process ID
  has at most eight digits, since \<open>buf\<close> has ten bytes.
\<close>

theorem daemon_lock_single:
  assumes "new_fd s = Some fd" and "\<not> w_denied s PIDFILE" and "\<not> pid_locked s"
    and "length (fmt_d (k_pid s)) < w_limit s" and "length (fmt_d (k_pid s)) \<le> 8" and "0 \<le> k_cloexec s fd"
  shows "\<exists>t. daemon_lock s = Ok (Some ()) t \<and> w_files t PIDFILE = Some (fmt_d (k_pid s) @ [NL]) \<and>
    (\<forall>b. w_locks t PIDFILE b = Some F_WRLCK) \<and>
    (\<forall>u ls. shown_as (w_locks t PIDFILE) PIDFILE ls \<and> set ls \<subseteq> set (w_others u) \<and>
        w_files u PIDFILE = w_files t PIDFILE \<and> new_fd u \<noteq> None \<and> \<not> w_denied u PIDFILE \<longrightarrow>
      (\<exists>v. daemon_lock u = Ok None v \<and> file_bytes v PIDFILE = fmt_d (k_pid s) @ [NL]))"
proof -
  obtain t where t: "daemon_lock s = Ok (Some ()) t" "w_files t PIDFILE = Some (fmt_d (k_pid s) @ [NL])"
      "\<forall>b. w_locks t PIDFILE b = Some F_WRLCK"
    using daemon_lock_runs[OF assms] by auto
  have "\<exists>v. daemon_lock u = Ok None v \<and> file_bytes v PIDFILE = fmt_d (k_pid s) @ [NL]"
    if u: "shown_as (w_locks t PIDFILE) PIDFILE ls" "set ls \<subseteq> set (w_others u)" "w_files u PIDFILE = w_files t PIDFILE"
      "new_fd u \<noteq> None" "\<not> w_denied u PIDFILE" for u ls
  proof -
    have "pid_locked u"
      using shown_conflicts[OF u(1) spec[OF t(3)] _ _ u(2), of 0 0 0 F_WRLCK] by (simp add: pid_locked_def in_region_def)
    moreover have "file_bytes u PIDFILE = fmt_d (k_pid s) @ [NL]" using t(2) u(3) by (simp add: file_bytes_def)
    ultimately show ?thesis using u(4,5) daemon_lock_refused[of u] by (metis option.exhaust)
  qed
  with t show ?thesis by blast
qed

definition lock_world :: lockw where
  "lock_world = \<lparr>w_files = (\<lambda>_. None), w_fds = (\<lambda>_. None), w_maxfd = 8, w_limit = 100, w_denied = (\<lambda>_. False),
     w_locks = (\<lambda>_ _. None), w_others = [], w_mem = 0, w_errno = E_OK, e_buf = [], e_term = [], e_debug = 0, e_ident = None,
     e_log = [], k_pid = 77, k_cloexec = (\<lambda>_. 0), k_mode = (\<lambda>_. 0), k_umask = 0, k_mand = False\<rparr>"

lemma new_fd_lock_world: "new_fd lock_world = Some 0"
  by (simp add: new_fd_def lock_world_def upt_rec)

text \<open>A second daemon, to which the kernel shows the lock of the first as one region.\<close>

definition second_world :: lockw where
  "second_world = lock_world\<lparr>w_files := [PIDFILE \<mapsto> ''77'' @ [NL]], k_pid := 78,
     w_others := [\<lparr>l_pid = 77, l_path = PIDFILE, l_type = F_WRLCK, l_start = 0, l_len = 0\<rparr>]\<rparr>"

theorem daemon_lock_single_witness:
  "\<exists>t v. daemon_lock lock_world = Ok (Some ()) t \<and> w_files t PIDFILE = Some (''77'' @ [NL]) \<and>
     w_locks t PIDFILE 1000 = Some F_WRLCK \<and> daemon_lock second_world = Ok None v"
proof -
  have d: "fmt_d (k_pid lock_world) = ''77''" unfolding lock_world_def by code_simp
  have "\<exists>t. daemon_lock lock_world = Ok (Some ()) t \<and> w_files t PIDFILE = Some (fmt_d (k_pid lock_world) @ [NL]) \<and>
    (\<forall>b. w_locks t PIDFILE b = Some F_WRLCK) \<and>
    (\<forall>u ls. shown_as (w_locks t PIDFILE) PIDFILE ls \<and> set ls \<subseteq> set (w_others u) \<and>
        w_files u PIDFILE = w_files t PIDFILE \<and> new_fd u \<noteq> None \<and> \<not> w_denied u PIDFILE \<longrightarrow>
      (\<exists>v. daemon_lock u = Ok None v \<and> file_bytes v PIDFILE = fmt_d (k_pid lock_world) @ [NL]))"
    by (rule daemon_lock_single[OF new_fd_lock_world]; (unfold d)?) (simp_all add: pid_locked_def lock_world_def)
  then obtain t where t: "daemon_lock lock_world = Ok (Some ()) t" "w_files t PIDFILE = Some (''77'' @ [NL])"
      "\<forall>b. w_locks t PIDFILE b = Some F_WRLCK"
    and n: "\<And>u ls. shown_as (w_locks t PIDFILE) PIDFILE ls \<Longrightarrow> set ls \<subseteq> set (w_others u) \<Longrightarrow>
        w_files u PIDFILE = w_files t PIDFILE \<Longrightarrow> new_fd u \<noteq> None \<Longrightarrow> \<not> w_denied u PIDFILE \<Longrightarrow> \<exists>v. daemon_lock u = Ok None v"
    unfolding d by blast
  have "shown_as (w_locks t PIDFILE) PIDFILE (w_others second_world)"
    using t(3) by (simp add: shown_as_def second_world_def in_region_def)
  moreover have "new_fd second_world = Some 0" using new_fd_lock_world by (simp add: new_fd_def second_world_def)
  moreover have "w_files second_world PIDFILE = w_files t PIDFILE" "\<not> w_denied second_world PIDFILE"
    using t(2) by (simp_all add: second_world_def lock_world_def)
  ultimately have "\<exists>v. daemon_lock second_world = Ok None v" using n by blast
  then show ?thesis using t by blast
qed

subsection \<open>Locks at the end of the file\<close>

text \<open>After \<open>i\<close> rounds: \<open>2 * i\<close> bytes, of which those at even offsets are locked.\<close>

definition lck_state :: "int \<Rightarrow> nat \<Rightarrow> lockw \<Rightarrow> bool" where
  "lck_state fd i s \<longleftrightarrow> rdwr s fd \<and> fd_path s fd = ''temp.lock'' \<and> fd_pos s fd = 2 * i \<and> length (fd_bytes s fd) = 2 * i \<and>
     unshared s ''temp.lock'' \<and> (\<forall>b. w_locks s ''temp.lock'' b = (if even b \<and> b < 2 * i then Some F_WRLCK else None))"

lemma lock_end_ok:
  assumes "rdwr w fd" and "unshared w (fd_path w fd)"
  shows "lock_reg fd cmd t 0 SEEK_END 0 w = Ok 0 (set_lock (fd_path w fd) t (length (fd_bytes w fd)) 0 w)"
  using rdwr_open[OF assms(1)] unshared_no_conflict[OF assms(2)]
  by (auto simp: lock_reg_def fd_path_def)

lemma unshared_lockw [simp]:
  "unshared (set_pos fd p w) q = unshared w q" "unshared (set_bytes r c w) q = unshared w q"
  "unshared (set_lock r t b n w) q = unshared w q"
  by (simp_all add: unshared_def)

lemma lck_round_run:
  assumes "lck_state fd i s" and "2 * i + 2 \<le> w_limit s"
  shows "runs (lck_round fd) s (\<lambda>_ t. lck_state fd (Suc i) t \<and> w_limit t = w_limit s)"
proof -
  note S = assms(1)[unfolded lck_state_def]
  let ?c = "[char_of (nat (fd mod 256))] :: string"
  define s1 where "s1 = set_lock ''temp.lock'' F_WRLCK (2 * i) 0 s"
  define s2 where "s2 = set_pos fd (2 * i + 1) (set_bytes ''temp.lock'' (fd_bytes s fd @ ?c) s1)"
  define s3 where "s3 = set_lock ''temp.lock'' F_UNLCK (2 * i + 1) 0 s2"
  define s4 where "s4 = set_pos fd (2 * i + 2) (set_bytes ''temp.lock'' (fd_bytes s fd @ ?c @ ?c) s3)"
  have F1: "rdwr s1 fd" "fd_path s1 fd = ''temp.lock''" "fd_pos s1 fd = 2 * i" "fd_bytes s1 fd = fd_bytes s fd"
      "unshared s1 ''temp.lock''" "w_limit s1 = w_limit s" using S by (simp_all add: s1_def)
  have F2: "rdwr s2 fd" "fd_path s2 fd = ''temp.lock''" "fd_pos s2 fd = 2 * i + 1" "fd_bytes s2 fd = fd_bytes s fd @ ?c"
      "unshared s2 ''temp.lock''" "w_limit s2 = w_limit s" using F1 by (simp_all add: s2_def)
  have F3: "rdwr s3 fd" "fd_path s3 fd = ''temp.lock''" "fd_pos s3 fd = 2 * i + 1" "fd_bytes s3 fd = fd_bytes s fd @ ?c"
      "unshared s3 ''temp.lock''" "w_limit s3 = w_limit s" using F2 by (simp_all add: s3_def)
  have 1: "writew_lock fd 0 SEEK_END 0 s = Ok 0 s1"
    using lock_end_ok[of s fd F_SETLKW F_WRLCK] S by (simp add: writew_lock_def s1_def)
  have 2: "sys_write fd ?c s1 = Ok 1 s2"
    using write_ok[of s1 fd ?c] F1 assms(2) overwrite_end[of "fd_bytes s fd" ?c] S by (simp add: s2_def)
  have 3: "un_lock fd 0 SEEK_END 0 s2 = Ok 0 s3"
    using lock_end_ok[of s2 fd F_SETLK F_UNLCK] F2 S by (simp add: un_lock_def s3_def)
  have 4: "sys_write fd ?c s3 = Ok 1 s4"
    using write_ok[of s3 fd ?c] F3 assms(2) overwrite_end[of "fd_bytes s fd @ ?c" ?c] S by (simp add: s4_def)
  have L: "w_locks s4 ''temp.lock'' b = (if even b \<and> b < 2 * Suc i then Some F_WRLCK else None)" for b
  proof -
    have "w_locks s4 ''temp.lock'' b = (if 2 * i + 1 \<le> b then None else if 2 * i \<le> b then Some F_WRLCK else w_locks s ''temp.lock'' b)"
      by (simp add: s4_def s3_def s2_def s1_def set_lock_def in_region_def)
    moreover have "even b \<Longrightarrow> 2 * i + 1 \<le> b \<Longrightarrow> 2 * i + 2 \<le> b" by presburger
    moreover have "b = 2 * i \<or> b < 2 * i \<or> 2 * i + 1 \<le> b" by linarith
    ultimately show ?thesis using S by auto
  qed
  have "lck_state fd (Suc i) s4"
    unfolding lck_state_def using L F3 S by (simp add: s4_def)
  moreover have "w_limit s4 = w_limit s" by (simp add: s4_def s3_def s2_def s1_def)
  ultimately show ?thesis using 1 2 3 4 by (simp add: lck_round_def runs_def)
qed

lemma lck_rounds_run:
  assumes "lck_state fd i s" and "2 * i + 2 * n \<le> w_limit s"
  shows "runs (lck_rounds n fd) s (\<lambda>_ t. lck_state fd (i + n) t)"
  using assms
proof (induction n arbitrary: i s)
  case (Suc n)
  have "runs (lck_round fd) s (\<lambda>_ t. lck_state fd (Suc i) t \<and> w_limit t = w_limit s)"
    using lck_round_run[OF Suc.prems(1)] Suc.prems(2) by simp
  then show ?case unfolding lck_rounds.simps
    by (rule runs_step) (use Suc.IH[of "Suc i"] Suc.prems(2) in auto)
qed (simp add: runs_ret)

text \<open>
  A lock to the end of the file is a lock on the byte that is written next, and the lock that is released after
  the write starts behind that byte: after \<open>n\<close> rounds the program holds a lock on every other byte that it has written.
\<close>

theorem lck_file_keeps_locks:
  assumes "new_fd s = Some fd" and "\<not> w_denied s ''temp.lock''" and "unshared s ''temp.lock''"
    and "w_locks s ''temp.lock'' = (\<lambda>_. None)" and "2 * n \<le> w_limit s"
  shows "\<exists>t. lck_file n s = Ok fd t \<and> length (file_bytes t ''temp.lock'') = 2 * n \<and>
    (\<forall>b. w_locks t ''temp.lock'' b = (if even b \<and> b < 2 * n then Some F_WRLCK else None))"
proof -
  have fl: "(O_RDWR OR O_CREAT OR O_TRUNC) AND O_CREAT \<noteq> 0" "(O_RDWR OR O_CREAT OR O_TRUNC) AND O_TRUNC \<noteq> 0"
      "(O_RDWR OR O_CREAT OR O_TRUNC) AND 3 = O_RDWR"
    by (simp_all add: oflag_defs)
  obtain m where o: "open_mode ''temp.lock'' (O_RDWR OR O_CREAT OR O_TRUNC) FILE_MODE s =
      Ok fd (s\<lparr>w_files := (w_files s)(''temp.lock'' \<mapsto> []),
        w_fds := (w_fds s)(fd \<mapsto> \<lparr>o_path = ''temp.lock'', o_pos = 0, o_oflag = O_RDWR OR O_CREAT OR O_TRUNC\<rparr>), k_mode := m\<rparr>)"
    (is "_ = Ok fd ?t") using open_mode_run[OF assms(1,2) fl(1), of FILE_MODE] fl(2) by auto
  have "lck_state fd 0 ?t" using assms(3,4) fl(3)
    by (simp add: lck_state_def rdwr_def fd_path_def fd_pos_def fd_bytes_def file_bytes_def unshared_def)
  then have "runs (lck_rounds n fd) ?t (\<lambda>_ t. lck_state fd (0 + n) t)" using assms(5) by (intro lck_rounds_run) simp_all
  then obtain u where "lck_rounds n fd ?t = Ok () u" "lck_state fd n u" by (auto simp: runs_iff)
  then show ?thesis using o new_fd_free(1)[OF assms(1)] by (auto simp: lck_file_def lck_state_def fd_bytes_def)
qed

theorem lck_file_keeps_locks_witness:
  "\<exists>t. lck_file 3 lock_world = Ok 0 t \<and> w_locks t ''temp.lock'' 4 = Some F_WRLCK \<and> w_locks t ''temp.lock'' 5 = None"
proof -
  have "\<exists>t. lck_file 3 lock_world = Ok 0 t \<and> length (file_bytes t ''temp.lock'') = 2 * 3 \<and>
    (\<forall>b. w_locks t ''temp.lock'' b = (if even b \<and> b < 2 * 3 then Some F_WRLCK else None))"
    by (rule lck_file_keeps_locks[OF new_fd_lock_world]) (simp_all add: lock_world_def unshared_def)
  then show ?thesis by fastforce
qed

subsection \<open>Advisory or mandatory\<close>

lemma lock_mode:
  "(m AND NOT S_IXGRP OR S_ISGID) AND S_ISGID \<noteq> 0" "(m AND NOT S_IXGRP OR S_ISGID) AND S_IXGRP = 0" for m :: int
proof -
  have "bit ((m AND NOT S_IXGRP OR S_ISGID) AND S_ISGID) 10" by (simp add: bit_simps S_ISGID_def S_IXGRP_def)
  then show "(m AND NOT S_IXGRP OR S_ISGID) AND S_ISGID \<noteq> 0" by auto
  have "S_ISGID AND S_IXGRP = 0" by (simp add: S_ISGID_def S_IXGRP_def)
  then show "(m AND NOT S_IXGRP OR S_ISGID) AND S_IXGRP = 0"
    by (simp add: bit.conj_disj_distrib2 and.assoc bit.conj_cancel_left)
qed

definition chk_text :: string where
  "chk_text = ''in parent'' @ [NL] @ ''in child'' @ [NL] @ ''read_lock of already-locked region returns '' @ fmt_d 11 @ [NL]"

text \<open>
  The child is always refused its lock, with \<open>EAGAIN\<close>, and the program then finds out whether the system enforces
  locks: where it does the read fails, where it does not the read returns the first two bytes.
\<close>

theorem chk_lck_tells:
  assumes "new_fd s = Some fd" and "\<not> w_denied s ''templock''" and "unshared s ''templock''" and "6 \<le> w_limit s"
    and ls: "\<And>t. bnd chk_prepare chk_parent s = Ok () t \<Longrightarrow> shown_as (w_locks t ''templock'') ''templock'' ls"
  shows "\<exists>t. chk_lck ls pid s = Ok () t \<and>
    (k_mand s \<longrightarrow> e_term t = e_term s @ [(1, e_buf s @ chk_text),
        (2, ''read failed (mandatory locking works): '' @ strerror EAGAIN @ [NL])] \<and> e_buf t = []) \<and>
    (\<not> k_mand s \<longrightarrow> e_term t = e_term s \<and>
        e_buf t = e_buf s @ chk_text @ ''read OK (no mandatory locking), buff = ab'' @ [NL])"
proof -
  have fl: "(O_RDWR OR O_CREAT OR O_TRUNC) AND O_CREAT \<noteq> 0" "(O_RDWR OR O_CREAT OR O_TRUNC) AND O_TRUNC \<noteq> 0"
      "(O_RDWR OR O_CREAT OR O_TRUNC) AND 3 = O_RDWR" by (simp_all add: oflag_defs)
  define f where "f p = \<lparr>o_path = ''templock'', o_pos = p, o_oflag = O_RDWR OR O_CREAT OR O_TRUNC\<rparr>" for p
  obtain m where o: "open_mode ''templock'' (O_RDWR OR O_CREAT OR O_TRUNC) FILE_MODE s =
      Ok fd (s\<lparr>w_files := (w_files s)(''templock'' \<mapsto> []), w_fds := (w_fds s)(fd \<mapsto> f 0), k_mode := m\<rparr>)"
    using open_mode_run[OF assms(1,2) fl(1), of FILE_MODE] fl(2) by (auto simp: f_def)
  define mm where "mm = m(''templock'' := m ''templock'' AND NOT S_IXGRP OR S_ISGID)"
  define u where "u = s\<lparr>w_files := (w_files s)(''templock'' \<mapsto> ''abcdef''), w_fds := (w_fds s)(fd \<mapsto> f 6), k_mode := mm\<rparr>"
  have "sys_write fd ''abcdef'' (s\<lparr>w_files := (w_files s)(''templock'' \<mapsto> []), w_fds := (w_fds s)(fd \<mapsto> f 0), k_mode := m\<rparr>) = Ok 6 (u\<lparr>k_mode := m\<rparr>)"
    using assms(4) fl(3) by (simp add: sys_write_def f_def u_def set_pos_def set_bytes_def fd_bytes_def fd_path_def file_bytes_def Let_def overwrite_def oflag_defs)
      (rule lockw.equality; simp add: eval_nat_numeral)
  then have p: "chk_prepare s = Ok fd u"
    using o new_fd_free(1)[OF assms(1)] by (simp add: chk_prepare_def fchmod_def fd_path_def u_def mm_def f_def)
  define v where "v = u\<lparr>e_buf := e_buf s @ ''in parent'' @ [NL], w_locks := (w_locks s)(''templock'' := (\<lambda>_. Some F_WRLCK))\<rparr>"
  define w where "w = as_other ls pid v"
  have q: "chk_parent fd u = Ok () v"
    using assms(3) unshared_no_conflict[of s "''templock''" F_WRLCK 0 0]
    by (simp add: chk_parent_def write_lock_def lock_reg_def seek_base_def put_out_def u_def f_def v_def set_lock_def in_region_def)
  have sh: "shown_as (\<lambda>_. Some F_WRLCK) ''templock'' ls" using ls[of v] p q by (simp add: v_def)
  have wf: "w_fds w fd = Some (f 6)" "w_errno w = w_errno s" "e_buf w = e_buf s @ ''in parent'' @ [NL]" "e_term w = e_term s"
      "fd_bytes w fd = ''abcdef''" "k_mand w = k_mand s" "k_mode w = mm"
    by (simp_all add: w_def v_def as_other_def u_def fd_bytes_def fd_path_def file_bytes_def f_def)
  have cf: "list_ex (conflicts ''templock'' F_RDLCK a n) (w_others w)" for a n
    using shown_conflicts[OF sh, of a n a F_RDLCK "ls @ w_others v"]
    by (auto simp: w_def as_other_def in_region_def)
  have en: "enforced w' ''templock'' = k_mand s" if "k_mand w' = k_mand w" "k_mode w' = k_mode w" for w' :: lockw
    using that wf(6,7) lock_mode by (simp add: enforced_def mm_def)
  define w1 where "w1 = w\<lparr>e_buf := e_buf w @ ''in child'' @ [NL]\<rparr>"
  define w2 where "w2 = w1\<lparr>w_errno := EAGAIN\<rparr>"
  define w3 where "w3 = w2\<lparr>e_buf := e_buf w2 @ ''read_lock of already-locked region returns '' @ fmt_d 11 @ [NL]\<rparr>"
  define x where "x = set_pos fd 0 w3"
  have r: "read_lock fd 0 SEEK_SET 0 w1 = Ok (-1) w2"
    using cf wf(1) by (simp add: read_lock_def lock_reg_def seek_base_def fail_def w1_def w2_def f_def)
  have l: "lseek fd 0 SEEK_SET w3 = Ok 0 x"
    using wf(1) by (simp add: lseek_def seek_base_def x_def w3_def w2_def w1_def)
  have n: "((0::int) = -1) = False" by simp
  have e: "err_no (w_errno w2) = 11" by (simp add: w2_def)
  have po: "put_out a y = Ok () (y\<lparr>e_buf := e_buf y @ a\<rparr>)" for a and y :: lockw by (simp add: put_out_def)
  have c: "chk_child fd w = bnd (mand_read fd 2) (\<lambda>b. case b of
      None \<Rightarrow> err_ret ''read failed (mandatory locking works)''
    | Some buff \<Rightarrow> put_out (''read OK (no mandatory locking), buff = '' @ take 2 buff @ [NL])) x"
    unfolding chk_child_def bnd_Ok[OF po] w1_def[symmetric] bnd_Ok[of "read_lock fd 0 SEEK_SET 0", OF r]
    by (simp only: bnd_Ok[OF gets_apply] bnd_Ok[OF po] e w3_def[symmetric] bnd_Ok[of "lseek fd 0 SEEK_SET", OF l]
        n if_False if_True simp_thms)
  have fx: "fd_path x fd = ''templock''" "fd_pos x fd = 0" "fd_bytes x fd = ''abcdef''" "w_fds x fd = Some (f 0)"
      "e_buf x = e_buf s @ chk_text" "e_term x = e_term s" "w_others x = w_others w" "w_errno x = EAGAIN"
    using wf by (simp_all add: x_def w3_def w2_def w1_def set_pos_def fd_path_def fd_pos_def fd_bytes_def file_bytes_def f_def chk_text_def)
  have ex: "enforced x ''templock'' = k_mand s" by (rule en) (simp_all add: x_def w3_def w2_def w1_def set_pos_def)
  have cl: "chk_lck ls pid s = chk_child fd w" using p q by (simp add: chk_lck_def w_def)
  show ?thesis
  proof (cases "k_mand s")
    case True
    have "mand_read fd 2 x = Ok None (x\<lparr>w_errno := EAGAIN\<rparr>)" using True cf ex fx by (simp add: mand_read_def)
    then have "chk_lck ls pid s = err_ret ''read failed (mandatory locking works)'' (x\<lparr>w_errno := EAGAIN\<rparr>)" using c cl by simp
    then show ?thesis using True fx
      by (simp add: err_ret_def err_print_def err_doit_def flush_out_def put_err_def MAXLINE_def Let_def chk_text_def)
  next
    case False
    have "mand_read fd 2 x = Ok (Some ''ab'') (set_pos fd 2 x)"
      using False ex fx fl(3) by (simp add: mand_read_def sys_read_def f_def slice_def oflag_defs Let_def numeral_2_eq_2)
    then have "chk_lck ls pid s = put_out (''read OK (no mandatory locking), buff = '' @ ''ab'' @ [NL]) (set_pos fd 2 x)" using c cl by simp
    then show ?thesis using False fx by (simp add: put_out_def set_pos_def)
  qed
qed

lemma chk_parent_locks: "chk_parent fd s = Ok () t \<Longrightarrow> w_locks t (fd_path s fd) = (\<lambda>_. Some F_WRLCK)"
  by (auto simp: chk_parent_def bnd_eq_Ok put_out_def write_lock_def lock_reg_def fail_def set_lock_def in_region_def
      fd_path_def seek_base_def split: option.splits if_splits)

lemma open_mode_path: "open_mode path oflag m s = Ok fd t \<Longrightarrow> 0 \<le> fd \<Longrightarrow> fd_path t fd = path"
  by (auto simp: open_mode_def bnd_eq_Ok sys_open_def fail_def Let_def fd_path_def split: option.splits if_splits)

lemma errno_path [simp]: "fd_path (s\<lparr>w_errno := e\<rparr>) = fd_path s"
  and mode_path [simp]: "fd_path (u\<lparr>k_mode := m\<rparr>) = fd_path u"
  by (simp_all add: fd_path_def fun_eq_iff)

lemma write_path: "sys_write fd bs s = Ok n t \<Longrightarrow> fd_path t = fd_path s"
  by (auto simp: sys_write_def fail_def Let_def fun_eq_iff split: option.splits if_splits)

lemma fchmod_path: "fchmod fd m s = Ok r t \<Longrightarrow> fd_path t = fd_path s"
  by (auto simp: fchmod_def fail_def split: option.splits)

lemma chk_prepare_path:
  assumes "chk_prepare s = Ok fd t"
  shows "fd_path t fd = ''templock''"
proof -
  obtain s1 s2 m r where "open_mode ''templock'' (O_RDWR OR O_CREAT OR O_TRUNC) FILE_MODE s = Ok fd s1" "\<not> fd < 0"
      "sys_write fd ''abcdef'' s1 = Ok 6 s2" "fchmod fd m s2 = Ok r t"
    using assms by (auto simp: chk_prepare_def bnd_eq_Ok split: if_splits)
  then show ?thesis using open_mode_path[of _ _ _ s fd s1] write_path fchmod_path by fastforce
qed

definition whole :: "other_lock list" where
  "whole = [\<lparr>l_pid = 77, l_path = ''templock'', l_type = F_WRLCK, l_start = 0, l_len = 0\<rparr>]"

theorem chk_lck_tells_witness:
  "\<exists>t. chk_lck whole 5 lock_world = Ok () t \<and> e_buf t = chk_text @ ''read OK (no mandatory locking), buff = ab'' @ [NL]"
proof -
  have k: "\<not> k_mand lock_world" "e_buf lock_world = []" by (simp_all add: lock_world_def)
  have "shown_as (w_locks t ''templock'') ''templock'' whole" if "bnd chk_prepare chk_parent lock_world = Ok () t" for t
  proof -
    have "w_locks t ''templock'' = (\<lambda>_. Some F_WRLCK)"
      using that chk_parent_locks chk_prepare_path by (fastforce simp: bnd_eq_Ok)
    then show ?thesis by (simp add: shown_as_def whole_def in_region_def)
  qed
  then show ?thesis
    using chk_lck_tells[OF new_fd_lock_world, of whole 5] k by (auto simp: lock_world_def unshared_def)
qed

end
