(* ===== verification/Deadlock.thy ===== *)
theory Deadlock
  imports Lock_Demo Sync
begin

text \<open>
  \<^verbatim>\<open>deadlock-demo.c\<close>: parent and child each lock a byte, tell the other, wait for it, and then want
  the byte that the other has locked. The kernel refuses the second of the two requests.

  The two processes run concurrently. A state has the locks that each of them holds and the request that
  each waits for inside \<open>fcntl\<close>, the signal state of both (\<open>Sync\<close>: the program is linked with
  \<^verbatim>\<open>signal-sync.c\<close>), and where they are, inside the program and inside their waits.
\<close>

subsection \<open>Record locks of two processes\<close>

datatype who = Parent | Child

fun other :: "who \<Rightarrow> who" where
  "other Parent = Child"
| "other Child = Parent"

type_synonym region = "lock_type \<times> nat \<times> nat"

definition clash :: "region \<Rightarrow> region \<Rightarrow> bool" where
  "clash r q = (case (r, q) of ((t, s, n), (t', s', n')) \<Rightarrow> (t = F_WRLCK \<or> t' = F_WRLCK) \<and> overlap s n s' n')"

datatype answer = Granted | Refused | Wait_for

text \<open>
  What the kernel answers to a request that waits (\<open>F_SETLKW\<close>): the locks of the other process and the request the
  other one waits for decide. A process that waits waits for the only other one, so that a circle is two waits.
\<close>

definition setlkw :: "region \<Rightarrow> region list \<Rightarrow> region option \<Rightarrow> answer" where
  "setlkw r held waiting =
     (if \<not> list_ex (clash r) held then Granted
      else if waiting \<noteq> None then Refused else Wait_for)"

subsection \<open>The program\<close>

datatype lpc = L_First | L_Tell | L_Wait | L_Second | L_Done | L_Failed | L_Exit bool

record ddemo =
  q_pc :: "who \<Rightarrow> lpc"
  q_held :: "who \<Rightarrow> region list"
  q_wants :: "who \<Rightarrow> region option"
  q_sig :: pair                    \<comment> \<open>signal masks, pending signals and flags of parent and child\<close>
  q_at :: "who \<Rightarrow> wpc"              \<comment> \<open>the place inside \<open>WAIT_CHILD\<close> and \<open>WAIT_PARENT\<close>\<close>
  q_out :: "(who \<times> nat) list"     \<comment> \<open>the messages ``got the lock, byte ...''\<close>

text \<open>The bytes in the order in which each process locks them.\<close>

fun first_byte :: "who \<Rightarrow> nat" where
  "first_byte Child = 0"
| "first_byte Parent = 1"

fun second_byte :: "who \<Rightarrow> nat" where
  "second_byte Child = 1"
| "second_byte Parent = 0"

definition byte :: "nat \<Rightarrow> region" where
  "byte b = (F_WRLCK, b, 1)"

text \<open>
  \<open>lockabyte\<close>, from the call of \<open>fcntl\<close> on: the process has the lock and says so, or the error ends
  it, or it sleeps in \<open>fcntl\<close> with its request on record.
\<close>

definition got :: "who \<Rightarrow> nat \<Rightarrow> lpc \<Rightarrow> ddemo \<Rightarrow> ddemo" where
  "got w b next s = s\<lparr>q_pc := (q_pc s)(w := next), q_held := (q_held s)(w := byte b # q_held s w),
     q_wants := (q_wants s)(w := None), q_out := q_out s @ [(w, b)]\<rparr>"

definition lockabyte :: "who \<Rightarrow> nat \<Rightarrow> lpc \<Rightarrow> ddemo \<Rightarrow> ddemo" where
  "lockabyte w b next s = (case setlkw (byte b) (q_held s (other w)) (q_wants s (other w)) of
     Granted \<Rightarrow> got w b next s
   | Refused \<Rightarrow> s\<lparr>q_pc := (q_pc s)(w := L_Failed)\<rparr>
   | Wait_for \<Rightarrow> s\<lparr>q_wants := (q_wants s)(w := Some (byte b))\<rparr>)"

text \<open>The end of a process releases its locks.\<close>

definition leave :: "who \<Rightarrow> bool \<Rightarrow> ddemo \<Rightarrow> ddemo" where
  "leave w ok s = s\<lparr>q_pc := (q_pc s)(w := L_Exit ok), q_held := (q_held s)(w := [])\<rparr>"

definition tell_other :: "who \<Rightarrow> pair \<Rightarrow> pair" where
  "tell_other w m = (case w of Parent \<Rightarrow> TELL_CHILD m | Child \<Rightarrow> TELL_PARENT m)"

definition wait_other :: "who \<Rightarrow> pair \<Rightarrow> wpc \<Rightarrow> (pair \<times> wpc) option" where
  "wait_other w m v = (case w of Parent \<Rightarrow> WAIT_CHILD m v | Child \<Rightarrow> WAIT_PARENT m v)"

definition proc :: "who \<Rightarrow> pair \<Rightarrow> sproc" where
  "proc w m = (case w of Parent \<Rightarrow> fst m | Child \<Rightarrow> snd m)"

text \<open>A process inside \<open>lockabyte\<close>, which calls \<open>fcntl\<close> or wakes up in it when the byte is free.\<close>

definition lock_step :: "who \<Rightarrow> nat \<Rightarrow> lpc \<Rightarrow> ddemo \<Rightarrow> ddemo option" where
  "lock_step w b next s = (case q_wants s w of
     None \<Rightarrow> Some (lockabyte w b next s)
   | Some r \<Rightarrow> if list_ex (clash r) (q_held s (other w)) then None else Some (got w b next s))"

text \<open>A step of a process; \<open>None\<close> when it sleeps, has ended or was killed by a signal.\<close>

definition who_step :: "who \<Rightarrow> ddemo \<Rightarrow> ddemo option" where
  "who_step w s =
     (if sp_dead (proc w (q_sig s)) then None
      else case q_pc s w of
        L_First \<Rightarrow> lock_step w (first_byte w) L_Tell s
      | L_Tell \<Rightarrow> Some (s\<lparr>q_pc := (q_pc s)(w := L_Wait), q_sig := tell_other w (q_sig s)\<rparr>)
      | L_Wait \<Rightarrow> (case wait_other w (q_sig s) (q_at s w) of
          None \<Rightarrow> None
        | Some (m, v) \<Rightarrow> Some (s\<lparr>q_pc := (q_pc s)(w := (if v = W_Past then L_Second else L_Wait)), q_sig := m,
            q_at := (q_at s)(w := v)\<rparr>))
      | L_Second \<Rightarrow> lock_step w (second_byte w) L_Done s
      | L_Done \<Rightarrow> Some (leave w True s)
      | L_Failed \<Rightarrow> Some (leave w False s)
      | L_Exit ok \<Rightarrow> None)"

inductive qstep :: "ddemo \<Rightarrow> ddemo \<Rightarrow> bool" where
  "who_step w s = Some t \<Longrightarrow> qstep s t"

inductive_cases qstepE: "qstep s t"

text \<open>After \<open>TELL_WAIT\<close> and the \<open>fork\<close>, in a process with the signal mask \<open>m\<close> that catches the signals \<open>c\<close>.\<close>

definition deadlock_demo :: "int set \<Rightarrow> int set \<Rightarrow> ddemo" where
  "deadlock_demo m c = \<lparr>q_pc = (\<lambda>_. L_First), q_held = (\<lambda>_. []), q_wants = (\<lambda>_. None), q_sig = signal_start m c,
     q_at = (\<lambda>_. W_Test False), q_out = []\<rparr>"

subsection \<open>The invariant\<close>

text \<open>What a process holds and what it has told follow from where it is.\<close>

definition held_at :: "who \<Rightarrow> lpc \<Rightarrow> region list" where
  "held_at w pc =
     (if pc \<in> {L_Tell, L_Wait, L_Second, L_Failed} then [byte (first_byte w)]
      else if pc = L_Done then [byte (second_byte w), byte (first_byte w)] else [])"

definition early :: "lpc \<Rightarrow> bool" where
  "early pc \<longleftrightarrow> pc \<in> {L_First, L_Tell}"

definition late :: "lpc \<Rightarrow> bool" where
  "late pc \<longleftrightarrow> pc \<notin> {L_First, L_Tell, L_Wait}"

text \<open>What one of the two processes sees: the places, the requests, the locks and the messages.\<close>

definition side :: "lpc \<Rightarrow> lpc \<Rightarrow> region option \<Rightarrow> region option \<Rightarrow> nat \<Rightarrow> bool" where
  "side pc pc' want want' b \<longleftrightarrow> (late pc \<longrightarrow> \<not> early pc') \<and>
     (want = None \<or> pc = L_Second \<and> want = Some (byte b) \<and> want' = None \<and> pc' \<in> {L_Wait, L_Second, L_Failed, L_Exit False}) \<and>
     (pc \<in> {L_Done, L_Exit True} \<longrightarrow> pc' = L_Exit False) \<and>
     (pc \<in> {L_Failed, L_Exit False} \<longrightarrow> pc' \<in> {L_Done, L_Exit True} \<or> pc' = L_Second \<and> want' \<noteq> None)"

abbreviation side_of :: "ddemo \<Rightarrow> who \<Rightarrow> bool" where
  "side_of s w \<equiv> side (q_pc s w) (q_pc s (other w)) (q_wants s w) (q_wants s (other w)) (second_byte w)"

abbreviation books :: "ddemo \<Rightarrow> who \<Rightarrow> bool" where
  "books s w \<equiv> q_held s w = held_at w (q_pc s w) \<and> ((w, second_byte w) \<in> set (q_out s) \<longleftrightarrow> q_pc s w \<in> {L_Done, L_Exit True})"

text \<open>The locks, the requests and the places of the two processes.\<close>

definition qlock :: "ddemo \<Rightarrow> bool" where
  "qlock s \<longleftrightarrow> (\<forall>w. books s w \<and> side_of s w)"

text \<open>The signals: each process has been sent its signal when the other one is past its \<open>TELL\<close>.\<close>

fun signo :: "who \<Rightarrow> int" where
  "signo Parent = SIGUSR2"
| "signo Child = SIGUSR1"

definition qsig :: "ddemo \<Rightarrow> bool" where
  "qsig s \<longleftrightarrow> (\<forall>w. wait_ok (signo w) (\<not> early (q_pc s (other w))) (q_at s w) (proc w (q_sig s)) \<and>
     (q_at s w = W_Past \<longleftrightarrow> late (q_pc s w)))"

definition qinv :: "ddemo \<Rightarrow> bool" where
  "qinv s \<longleftrightarrow> qlock s \<and> qsig s"

lemma other_other [simp]: "other (other w) = w"
  by (cases w) simp_all

lemma other_neq [simp]: "other w \<noteq> w" "w \<noteq> other w"
  by (cases w; simp)+

lemma all_who: "(\<forall>w. P w) \<longleftrightarrow> P Parent \<and> P Child"
  by (metis who.exhaust)

lemma clash_byte [simp]: "clash (byte a) (byte b) \<longleftrightarrow> a = b"
  by (auto simp: clash_def byte_def overlap_def)

declare split_paired_All [simp del] split_paired_Ex [simp del]

lemma who_cases: "v = w \<or> v = other w"
  by (cases v; cases w) simp_all

lemma all_other: "(\<forall>v. P v) \<longleftrightarrow> P w \<and> P (other w)"
  using who_cases by metis

lemma bytes [simp]:
  "second_byte (other w) = first_byte w" "first_byte (other w) = second_byte w" "first_byte w \<noteq> second_byte w"
  "second_byte w \<noteq> first_byte w"
  by (cases w; simp)+

lemma signo_usr: "signo w = SIGUSR1 \<or> signo w = SIGUSR2"
  by (cases w) simp_all

lemma proc_tell [simp]:
  "proc (other w) (tell_other w m) = post_sig (signo (other w)) (proc (other w) m)" "proc w (tell_other w m) = proc w m"
  by (cases w; simp add: proc_def tell_other_def TELL_CHILD_def TELL_PARENT_def)+

lemma wait_other_eq:
  "wait_other w m v = Some (m', v') \<longleftrightarrow> wait_step (proc w m) v = Some (proc w m', v') \<and> proc (other w) m' = proc (other w) m"
  by (cases w; cases m; cases m') (auto simp: wait_other_def WAIT_CHILD_def WAIT_PARENT_def proc_def)

lemma wait_other_None: "wait_other w m v = None \<longleftrightarrow> wait_step (proc w m) v = None"
  by (cases w) (simp_all add: wait_other_def WAIT_CHILD_def WAIT_PARENT_def proc_def)

lemma qlockD:
  assumes "qlock s"
  shows "q_held s w = held_at w (q_pc s w)"
    and "(w, second_byte w) \<in> set (q_out s) \<longleftrightarrow> q_pc s w \<in> {L_Done, L_Exit True}"
    and "q_wants s w = None \<or> q_wants s (other w) = None"
    and "q_pc s w \<in> {L_Failed, L_Exit False} \<Longrightarrow> q_pc s (other w) \<in> {L_Done, L_Exit True, L_Second}"
    and "q_pc s w \<noteq> L_Second \<Longrightarrow> q_wants s w = None"
    and "q_wants s w = None \<or> q_wants s w = Some (byte (second_byte w))"
proof -
  have a: "books s w" "side_of s w" using assms unfolding qlock_def by blast+
  show "q_held s w = held_at w (q_pc s w)"
    "(w, second_byte w) \<in> set (q_out s) \<longleftrightarrow> q_pc s w \<in> {L_Done, L_Exit True}" using a(1) by blast+
  show "q_wants s w = None \<or> q_wants s (other w) = None" using a(2) by (auto simp: side_def)
  show "q_pc s w \<in> {L_Failed, L_Exit False} \<Longrightarrow> q_pc s (other w) \<in> {L_Done, L_Exit True, L_Second}"
    using a(2) by (auto simp: side_def)
  show "q_pc s w \<noteq> L_Second \<Longrightarrow> q_wants s w = None" "q_wants s w = None \<or> q_wants s w = Some (byte (second_byte w))"
    using a(2) by (auto simp: side_def)
qed

lemma qlock_at: "qlock s \<longleftrightarrow> books s w \<and> books s (other w) \<and> side_of s w \<and> side_of s (other w)"
  unfolding qlock_def all_other[of _ w] by auto

lemma qsigD:
  assumes "qsig s"
  shows "wait_ok (signo w) (\<not> early (q_pc s (other w))) (q_at s w) (proc w (q_sig s))"
    and "q_at s w = W_Past \<longleftrightarrow> late (q_pc s w)" and "\<not> sp_dead (proc w (q_sig s))"
  using assms by (auto simp: qsig_def wait_ok_def)

lemma qinv_init: "qinv (deadlock_demo m c)"
  by (auto simp: qinv_def qlock_def side_def qsig_def deadlock_demo_def held_at_def early_def late_def wait_ok_def proc_def
      signal_start_def TELL_WAIT_def Let_def set_smask_def take_usr_def split: who.splits)

lemmas q_defs = held_at_def early_def late_def got_def lockabyte_def setlkw_def leave_def

subsection \<open>A step at each place\<close>

lemma lock_step_cases:
  assumes "lock_step w b next s = Some t"
  obtains (granted) "t = got w b next s"
      "q_wants s w = None \<and> \<not> list_ex (clash (byte b)) (q_held s (other w)) \<or>
       (\<exists>r. q_wants s w = Some r \<and> \<not> list_ex (clash r) (q_held s (other w)))"
  | (refused) "q_wants s w = None" "q_wants s (other w) \<noteq> None" "list_ex (clash (byte b)) (q_held s (other w))"
      "t = s\<lparr>q_pc := (q_pc s)(w := L_Failed)\<rparr>"
  | (sleeps) "q_wants s w = None" "q_wants s (other w) = None" "list_ex (clash (byte b)) (q_held s (other w))"
      "t = s\<lparr>q_wants := (q_wants s)(w := Some (byte b))\<rparr>"
  using assms by (auto simp: lock_step_def lockabyte_def setlkw_def split: option.splits if_splits)

lemma qlock_first:
  assumes "qlock s" and "q_pc s w = L_First" and "lock_step w (first_byte w) L_Tell s = Some t"
  shows "t = got w (first_byte w) L_Tell s" and "qlock t"
proof -
  note Q = assms(1)[unfolded qlock_at[of s w]]
  have n: "q_wants s w = None" using qlockD(5)[OF assms(1)] assms(2) by simp
  have h: "\<not> list_ex (clash (byte (first_byte w))) (q_held s (other w))"
    using Q assms(2) by (cases "q_pc s (other w)") (simp_all add: held_at_def side_def early_def late_def)
  from assms(3) show t: "t = got w (first_byte w) L_Tell s"
    by (cases rule: lock_step_cases) (use n h in auto)
  show "qlock t" using Q assms(2) n unfolding t qlock_at[of _ w]
    by (cases "q_pc s (other w)") (auto simp: got_def held_at_def side_def early_def late_def)
qed

lemma qlock_second:
  assumes "qlock s" and "q_pc s w = L_Second" and "lock_step w (second_byte w) L_Done s = Some t"
  shows "qlock t"
  using assms(3)
proof (cases rule: lock_step_cases)
  note Q = assms(1)[unfolded qlock_at[of s w]]
  {
    case granted
    have "\<not> list_ex (clash (byte (second_byte w))) (q_held s (other w))"
      using granted(2) qlockD(6)[OF assms(1), of w] by auto
    then show ?thesis using granted(1) Q assms(2) unfolding qlock_at[of _ w]
      by (cases "q_pc s (other w)") (auto simp: got_def held_at_def side_def early_def late_def)
  next
    case refused
    then show ?thesis using Q assms(2) unfolding qlock_at[of _ w]
      by (cases "q_pc s (other w)") (auto simp: held_at_def side_def early_def late_def)
  next
    case sleeps
    then show ?thesis using Q assms(2) unfolding qlock_at[of _ w]
      by (cases "q_pc s (other w)") (auto simp: held_at_def side_def early_def late_def)
  }
qed

text \<open>What a lock step does to the places and the signals.\<close>

lemma lock_step_frame:
  assumes "lock_step w b next s = Some t"
  shows "q_sig t = q_sig s" "q_at t = q_at s" "q_pc t (other w) = q_pc s (other w)" "q_pc t w \<in> {q_pc s w, next, L_Failed}"
  using assms by (cases rule: lock_step_cases; auto simp: got_def)+

lemma qsig_frame:
  assumes "qsig s" and "q_sig t = q_sig s" "q_at t = q_at s" "q_pc t (other w) = q_pc s (other w)"
    and "early (q_pc t w) = early (q_pc s w)" "late (q_pc t w) = late (q_pc s w)"
  shows "qsig t"
  unfolding qsig_def
proof
  fix v
  show "wait_ok (signo v) (\<not> early (q_pc t (other v))) (q_at t v) (proc v (q_sig t)) \<and> (q_at t v = W_Past \<longleftrightarrow> late (q_pc t v))"
    using qsigD(1,2)[OF assms(1), of v] assms(2-6) who_cases[of v w] by auto
qed

lemma qsig_tell:
  assumes "qsig s" and "q_pc s w = L_Tell"
  shows "qsig (s\<lparr>q_pc := (q_pc s)(w := L_Wait), q_sig := tell_other w (q_sig s)\<rparr>)"
  unfolding qsig_def
proof
  fix v
  have p: "wait_ok (signo (other w)) True (q_at s (other w)) (post_sig (signo (other w)) (proc (other w) (q_sig s)))"
    using qsigD(1)[OF assms(1), of "other w"] assms(2) by (intro wait_ok_post signo_usr) (simp add: early_def)
  show "wait_ok (signo v) (\<not> early (q_pc (s\<lparr>q_pc := (q_pc s)(w := L_Wait), q_sig := tell_other w (q_sig s)\<rparr>) (other v)))
      (q_at (s\<lparr>q_pc := (q_pc s)(w := L_Wait), q_sig := tell_other w (q_sig s)\<rparr>) v)
      (proc v (q_sig (s\<lparr>q_pc := (q_pc s)(w := L_Wait), q_sig := tell_other w (q_sig s)\<rparr>))) \<and>
    (q_at (s\<lparr>q_pc := (q_pc s)(w := L_Wait), q_sig := tell_other w (q_sig s)\<rparr>) v = W_Past \<longleftrightarrow>
     late (q_pc (s\<lparr>q_pc := (q_pc s)(w := L_Wait), q_sig := tell_other w (q_sig s)\<rparr>) v))"
    using p qsigD(1,2)[OF assms(1), of v] assms(2) who_cases[of v w] by (auto simp: early_def late_def)
qed

lemma qsig_wait:
  assumes "qsig s" and "q_pc s w = L_Wait" and "wait_other w (q_sig s) (q_at s w) = Some (m, x)"
    and t: "t = s\<lparr>q_pc := (q_pc s)(w := (if x = W_Past then L_Second else L_Wait)), q_sig := m, q_at := (q_at s)(w := x)\<rparr>"
  shows "qsig t" and "x = W_Past \<longrightarrow> \<not> early (q_pc s (other w))" and "wait_rank x < wait_rank (q_at s w)"
proof -
  have st: "wait_step (proc w (q_sig s)) (q_at s w) = Some (proc w m, x)" "proc (other w) m = proc (other w) (q_sig s)"
    using assms(3) by (simp_all add: wait_other_eq)
  note W = wait_ok_step[OF qsigD(1)[OF assms(1)] signo_usr st(1)]
  then show "x = W_Past \<longrightarrow> \<not> early (q_pc s (other w))" "wait_rank x < wait_rank (q_at s w)" by simp_all
  show "qsig t" unfolding qsig_def
  proof
    fix v
    show "wait_ok (signo v) (\<not> early (q_pc t (other v))) (q_at t v) (proc v (q_sig t)) \<and> (q_at t v = W_Past \<longleftrightarrow> late (q_pc t v))"
      using W st(2) qsigD(1,2)[OF assms(1), of v] assms(2) who_cases[of v w] by (auto simp: t early_def late_def)
  qed
qed

lemma qlock_plain:
  assumes "qlock s"
  shows "q_pc s w = L_Tell \<Longrightarrow> qlock (s\<lparr>q_pc := (q_pc s)(w := L_Wait), q_sig := m\<rparr>)"
    and "q_pc s w = L_Wait \<Longrightarrow> (x = L_Second \<longrightarrow> \<not> early (q_pc s (other w))) \<Longrightarrow> x \<in> {L_Wait, L_Second} \<Longrightarrow>
      qlock (s\<lparr>q_pc := (q_pc s)(w := x), q_sig := m, q_at := a\<rparr>)"
    and "q_pc s w = L_Done \<Longrightarrow> qlock (leave w True s)" and "q_pc s w = L_Failed \<Longrightarrow> qlock (leave w False s)"
proof -
  note Q = assms[unfolded qlock_at[of s w]]
  note D = leave_def held_at_def side_def early_def late_def
  show "q_pc s w = L_Tell \<Longrightarrow> qlock (s\<lparr>q_pc := (q_pc s)(w := L_Wait), q_sig := m\<rparr>)"
    using Q unfolding qlock_at[of _ w] by (cases "q_pc s (other w)") (auto simp: D)
  show "q_pc s w = L_Wait \<Longrightarrow> (x = L_Second \<longrightarrow> \<not> early (q_pc s (other w))) \<Longrightarrow> x \<in> {L_Wait, L_Second} \<Longrightarrow>
      qlock (s\<lparr>q_pc := (q_pc s)(w := x), q_sig := m, q_at := a\<rparr>)"
    using Q unfolding qlock_at[of _ w] by (cases "q_pc s (other w)") (auto simp: D)
  show "q_pc s w = L_Done \<Longrightarrow> qlock (leave w True s)"
    using Q unfolding qlock_at[of _ w] by (cases "q_pc s (other w)") (auto simp: D)
  show "q_pc s w = L_Failed \<Longrightarrow> qlock (leave w False s)"
    using Q unfolding qlock_at[of _ w] by (cases "q_pc s (other w)") (auto simp: D)
qed

lemma qinv_step:
  assumes "who_step w s = Some t" and "qinv s"
  shows "qinv t"
proof -
  have L: "qlock s" and S: "qsig s" using assms(2) by (simp_all add: qinv_def)
  note ws = assms(1)[unfolded who_step_def if_not_P[OF qsigD(3)[OF S, of w]]]
  show ?thesis
  proof (cases "q_pc s w")
    case L_First
    then have "lock_step w (first_byte w) L_Tell s = Some t" using ws by simp
    note t = qlock_first[OF L L_First this]
    have "qsig t" by (rule qsig_frame[OF S, of t w]) (use L_First in \<open>auto simp: t(1) got_def early_def late_def\<close>)
    with t show ?thesis by (simp add: qinv_def)
  next
    case L_Tell
    then have t: "t = s\<lparr>q_pc := (q_pc s)(w := L_Wait), q_sig := tell_other w (q_sig s)\<rparr>" using ws by simp
    show ?thesis unfolding t using qlock_plain(1)[OF L L_Tell] qsig_tell[OF S L_Tell] by (simp add: qinv_def)
  next
    case L_Wait
    then obtain m x where x: "wait_other w (q_sig s) (q_at s w) = Some (m, x)"
      and t: "t = s\<lparr>q_pc := (q_pc s)(w := (if x = W_Past then L_Second else L_Wait)), q_sig := m, q_at := (q_at s)(w := x)\<rparr>"
      using ws by (auto split: option.splits)
    note Q = qsig_wait[OF S L_Wait x t]
    have "qlock t" unfolding t by (rule qlock_plain(2)[OF L L_Wait]) (use Q(2) in auto)
    with Q(1) show ?thesis by (simp add: qinv_def)
  next
    case L_Second
    then have l: "lock_step w (second_byte w) L_Done s = Some t" using ws by simp
    have "qsig t" by (rule qsig_frame[OF S, of t w])
      (use lock_step_frame[OF l] L_Second in \<open>auto simp: early_def late_def\<close>)
    with qlock_second[OF L L_Second l] show ?thesis by (simp add: qinv_def)
  next
    case L_Done
    then have t: "t = leave w True s" using ws by simp
    have "qsig t" by (rule qsig_frame[OF S, of t w]) (use L_Done in \<open>auto simp: t leave_def early_def late_def\<close>)
    with qlock_plain(3)[OF L L_Done] t show ?thesis by (simp add: qinv_def)
  next
    case L_Failed
    then have t: "t = leave w False s" using ws by simp
    have "qsig t" by (rule qsig_frame[OF S, of t w]) (use L_Failed in \<open>auto simp: t leave_def early_def late_def\<close>)
    with qlock_plain(4)[OF L L_Failed] t show ?thesis by (simp add: qinv_def)
  qed (use ws in simp)
qed

lemma qinv_steps: "(qstep ^^ n) (deadlock_demo m c) s \<Longrightarrow> qinv s"
  by (induction n arbitrary: s) (auto simp: OO_def intro: qinv_init elim!: qstepE dest: qinv_step)

subsection \<open>Exactly one is refused\<close>

fun pc_rank :: "lpc \<Rightarrow> nat" where
  "pc_rank L_First = 10"
| "pc_rank L_Tell = 9"
| "pc_rank L_Wait = 3"
| "pc_rank L_Second = 3"
| "pc_rank L_Done = 1"
| "pc_rank L_Failed = 1"
| "pc_rank (L_Exit b) = 0"

definition who_rank :: "ddemo \<Rightarrow> who \<Rightarrow> nat" where
  "who_rank s w = pc_rank (q_pc s w) + (if q_pc s w = L_Wait then wait_rank (q_at s w) else 0) - (if q_wants s w = None then 0 else 1)"

definition q_rank :: "ddemo \<Rightarrow> nat" where
  "q_rank s = who_rank s Parent + who_rank s Child"

lemma who_rank_other:
  assumes "who_step w s = Some t"
  shows "who_rank t (other w) = who_rank s (other w)"
  using assms by (auto simp: who_step_def lock_step_def lockabyte_def got_def leave_def who_rank_def
      split: if_splits lpc.splits option.splits answer.splits)

lemma wait_rank_le: "wait_rank v \<le> 5"
  by (cases v) simp_all

lemma who_rank_step:
  assumes "who_step w s = Some t" and "qinv s"
  shows "who_rank t w < who_rank s w"
proof -
  have L: "qlock s" and S: "qsig s" using assms(2) by (simp_all add: qinv_def)
  note ws = assms(1)[unfolded who_step_def if_not_P[OF qsigD(3)[OF S, of w]]]
  note n = qlockD(5)[OF L, of w]
  show ?thesis
  proof (cases "q_pc s w")
    case L_First
    then have "lock_step w (first_byte w) L_Tell s = Some t" using ws by simp
    note t = qlock_first(1)[OF L L_First this]
    show ?thesis using L_First n by (simp add: t got_def who_rank_def)
  next
    case L_Tell
    then show ?thesis using ws n wait_rank_le[of "q_at s w"] by (auto simp: who_rank_def)
  next
    case L_Wait
    then obtain m x where x: "wait_other w (q_sig s) (q_at s w) = Some (m, x)"
      and t: "t = s\<lparr>q_pc := (q_pc s)(w := (if x = W_Past then L_Second else L_Wait)), q_sig := m, q_at := (q_at s)(w := x)\<rparr>"
      using ws by (auto split: option.splits)
    show ?thesis using qsig_wait(3)[OF S L_Wait x t] L_Wait n by (auto simp: t who_rank_def)
  next
    case L_Second
    then have "lock_step w (second_byte w) L_Done s = Some t" using ws by simp
    then show ?thesis by (cases rule: lock_step_cases) (use L_Second in \<open>auto simp: who_rank_def got_def\<close>)
  qed (use ws n in \<open>auto simp: who_rank_def leave_def\<close>)
qed

lemma q_rank_step: "qstep s t \<Longrightarrow> qinv s \<Longrightarrow> q_rank t < q_rank s"
proof (elim qstepE)
  fix w assume "qinv s" "who_step w s = Some t"
  then have "who_rank t w < who_rank s w" "who_rank t (other w) = who_rank s (other w)"
    using who_rank_step who_rank_other by blast+
  then show "q_rank t < q_rank s" by (cases w) (simp_all add: q_rank_def)
qed

lemma q_rank_steps: "(qstep ^^ n) (deadlock_demo m c) s \<Longrightarrow> n + q_rank s \<le> 20"
proof (induction n arbitrary: s)
  case 0
  then have "s = deadlock_demo m c" by simp
  then show ?case by (simp add: deadlock_demo_def q_rank_def who_rank_def)
next
  case (Suc n)
  then obtain r where "(qstep ^^ n) (deadlock_demo m c) r" "qstep r s" by (auto simp: OO_def)
  then show ?case using Suc.IH[of r] q_rank_step[of r s] qinv_steps[of n m c r] by fastforce
qed

text \<open>A process that is not at its end can take a step, or it waits for the other one, which can.\<close>

lemma stuck_at:
  assumes "qinv s" and "\<And>t. \<not> qstep s t"
  shows "(\<exists>ok. q_pc s w = L_Exit ok) \<or> q_pc s w = L_Wait \<or> q_pc s w = L_Second \<and> q_wants s w = Some (byte (second_byte w))"
proof -
  have L: "qlock s" and S: "qsig s" using assms(1) by (simp_all add: qinv_def)
  have "who_step w s = None" using assms(2) qstep.intros[of w s] by fastforce
  then show ?thesis
    using qlockD(5,6)[OF L, of w] qsigD(3)[OF S, of w]
    by (cases "q_pc s w") (auto simp: who_step_def lock_step_def)
qed

lemma stuck_exits:
  assumes "qinv s" and "\<And>t. \<not> qstep s t"
  shows "\<exists>ok. q_pc s w = L_Exit ok"
proof -
  have L: "qlock s" and S: "qsig s" using assms(1) by (simp_all add: qinv_def)
  have st: "who_step v s = None" for v using assms(2) qstep.intros[of v s] by fastforce
  have nw: "q_pc s v \<noteq> L_Wait" for v
  proof
    assume v: "q_pc s v = L_Wait"
    have "\<not> early (q_pc s (other v))" using stuck_at[OF assms, of "other v"] by (auto simp: early_def)
    moreover have "q_at s v \<noteq> W_Past" using qsigD(2)[OF S, of v] v by (simp add: late_def)
    ultimately have "wait_other v (q_sig s) (q_at s v) \<noteq> None"
      using wait_ok_wakes qsigD(1)[OF S, of v] by (simp add: wait_other_None)
    then show False using st[of v] v qsigD(3)[OF S, of v] by (auto simp: who_step_def split: option.splits)
  qed
  have "\<not> (q_pc s w = L_Second \<and> q_wants s w = Some (byte (second_byte w)))"
  proof
    assume w: "q_pc s w = L_Second \<and> q_wants s w = Some (byte (second_byte w))"
    then have "q_wants s (other w) = None" using qlockD(3)[OF L, of w] by simp
    then obtain ok where "q_pc s (other w) = L_Exit ok" using stuck_at[OF assms, of "other w"] nw[of "other w"] by auto
    then have "q_held s (other w) = []" using qlockD(1)[OF L, of "other w"] by (simp add: held_at_def)
    then show False using st[of w] w qsigD(3)[OF S, of w] by (simp add: who_step_def lock_step_def)
  qed
  then show ?thesis using stuck_at[OF assms, of w] nw[of w] by blast
qed

lemma stuck_one_refused:
  assumes "qinv s" and "\<And>t. \<not> qstep s t"
  shows "\<exists>w. q_pc s w = L_Exit True \<and> q_pc s (other w) = L_Exit False"
proof -
  obtain a b where "q_pc s Parent = L_Exit a" "q_pc s Child = L_Exit b" using stuck_exits[OF assms] by meson
  then show ?thesis using assms(1) unfolding qinv_def qlock_def all_who
    by (cases a; cases b) (auto simp: side_def intro: exI[of _ Parent] exI[of _ Child])
qed

text \<open>A run as the list of the processes that take the steps.\<close>

fun run_who :: "who list \<Rightarrow> ddemo \<Rightarrow> ddemo option" where
  "run_who [] s = Some s"
| "run_who (w # ws) s = (case who_step w s of None \<Rightarrow> None | Some t \<Rightarrow> run_who ws t)"

lemma run_who_steps: "run_who ws s = Some t \<Longrightarrow> (qstep ^^ length ws) s t"
proof (induction ws arbitrary: s)
  case (Cons w ws)
  then obtain u where "who_step w s = Some u" "run_who ws u = Some t" by (auto split: option.splits)
  then show ?case using Cons.IH relpowp_Suc_I2[of qstep s u "length ws" t] qstep.intros by simp
qed simp

text \<open>
  C22. Whatever the interleaving of the two processes, which synchronise by signals, and whatever mask and handlers they
  start with, the program ends after at most 20 steps (a system call or a step inside a wait each), no process is killed by
  a signal, and when it has ended exactly one of the two was refused its second lock: the other one got both of
  its bytes, and no lock is left. At no time were both refused.
\<close>

theorem deadlock_demo_one_refused:
  assumes "(qstep ^^ n) (deadlock_demo m c) s"
  shows "n \<le> 20 \<and> \<not> sp_dead (fst (q_sig s)) \<and> \<not> sp_dead (snd (q_sig s)) \<and>
    \<not> (q_pc s Parent \<in> {L_Failed, L_Exit False} \<and> q_pc s Child \<in> {L_Failed, L_Exit False}) \<and>
    ((\<exists>t. qstep s t) \<or>
     (\<exists>w. q_pc s w = L_Exit True \<and> q_pc s (other w) = L_Exit False \<and> (w, second_byte w) \<in> set (q_out s) \<and>
       (other w, second_byte (other w)) \<notin> set (q_out s) \<and> q_held s w = [] \<and> q_held s (other w) = []))"
proof -
  note I = qinv_steps[OF assms]
  then have L: "qlock s" and S: "qsig s" by (simp_all add: qinv_def)
  have "\<exists>w. q_pc s w = L_Exit True \<and> q_pc s (other w) = L_Exit False \<and> (w, second_byte w) \<in> set (q_out s) \<and>
       (other w, second_byte (other w)) \<notin> set (q_out s) \<and> q_held s w = [] \<and> q_held s (other w) = []"
    if st: "\<And>t. \<not> qstep s t"
  proof -
    obtain w where w: "q_pc s w = L_Exit True" "q_pc s (other w) = L_Exit False" using stuck_one_refused[OF I st] by blast
    have "q_held s w = []" "q_held s (other w) = []" using w by (simp_all add: qlockD(1)[OF L] held_at_def)
    then show ?thesis using w qlockD(2)[OF L, of w] qlockD(2)[OF L, of "other w"] by auto
  qed
  moreover have "\<not> (q_pc s Parent \<in> {L_Failed, L_Exit False} \<and> q_pc s Child \<in> {L_Failed, L_Exit False})"
    using qlockD(4)[OF L, of Parent] by auto
  moreover have "\<not> sp_dead (fst (q_sig s))" "\<not> sp_dead (snd (q_sig s))"
    using qsigD(3)[OF S, of Parent] qsigD(3)[OF S, of Child] by (simp_all add: proc_def)
  ultimately show ?thesis using q_rank_steps[OF assms] by auto
qed

text \<open>
  A run of 19 steps: both lock their first byte and tell each other, the child asks for its second byte and sleeps, the
  parent is refused and exits, and the child gets its byte.
\<close>

definition deadlock_run :: "who list" where
  "deadlock_run = [Child, Parent, Child, Parent] @ replicate 5 Child @ replicate 5 Parent @ [Child, Parent, Parent, Child, Child]"

definition run_ended :: "ddemo option \<Rightarrow> bool" where
  "run_ended r = (case r of None \<Rightarrow> False | Some s \<Rightarrow> Option.is_none (who_step Parent s) \<and> Option.is_none (who_step Child s) \<and>
     q_pc s Parent = L_Exit False \<and> q_out s = [(Child, 0), (Parent, 1), (Child, 1)])"

lemma deadlock_run_ended: "run_ended (run_who deadlock_run (deadlock_demo {} {}))"
  by code_simp

theorem deadlock_demo_one_refused_witness:
  "\<exists>s. run_who deadlock_run (deadlock_demo {} {}) = Some s \<and> q_pc s Parent = L_Exit False \<and> q_pc s Child = L_Exit True \<and>
     (Child, 1) \<in> set (q_out s) \<and> (Parent, 0) \<notin> set (q_out s) \<and> length deadlock_run \<le> 20"
proof -
  obtain s where s: "run_who deadlock_run (deadlock_demo {} {}) = Some s" "who_step Parent s = None" "who_step Child s = None"
      "q_pc s Parent = L_Exit False"
    using deadlock_run_ended by (auto simp: run_ended_def Option.is_none_def split: option.splits)
  have "\<not> qstep s t" for t using s(2,3) by (metis option.distinct(1) qstepE who.exhaust)
  then obtain w where w: "q_pc s w = L_Exit True" "q_pc s (other w) = L_Exit False" "(w, second_byte w) \<in> set (q_out s)"
      "(other w, second_byte (other w)) \<notin> set (q_out s)" and l: "length deadlock_run \<le> 20"
    using deadlock_demo_one_refused[OF run_who_steps[OF s(1)]] by blast
  have "w = Child" using w(1) s(4) by (cases w) simp_all
  then show ?thesis using w s(1,4) l by simp
qed

end
