(* ===== verification/Sigset.thy ===== *)
theory Sigset
  imports CLib
begin

text \<open>
  Bits of machine words: the signal sets of \<^verbatim>\<open>sigset-demo.c\<close>, where a \<open>sigset_t\<close> is a 32-bit integer with a bit for
  each signal, and the accounting numbers of \<^verbatim>\<open>pr-account.c\<close>, whose \<open>comp_t\<close> has a 13-bit fraction and a 3-bit
  exponent to the base 8.
\<close>

unbundle bit_operations_syntax

subsection \<open>Signal sets\<close>

definition NSIG32 :: int where "NSIG32 = 32"

definition sigbad :: "int \<Rightarrow> bool" where
  "sigbad signo \<longleftrightarrow> signo \<le> 0 \<or> signo \<ge> NSIG32"

definition sigbit :: "int \<Rightarrow> 32 word" where
  "sigbit signo = push_bit (nat (signo - 1)) 1"

text \<open>The file is for systems with 31 signals. \<open>None\<close> stands for -1 with \<open>errno\<close> set to \<open>EINVAL\<close>.\<close>

definition sigaddset :: "32 word \<Rightarrow> int \<Rightarrow> 32 word option" where
  "sigaddset s signo = (if sigbad signo then None else Some (s OR sigbit signo))"

text \<open>As it is written, without the complement.\<close>

definition sigdelset :: "32 word \<Rightarrow> int \<Rightarrow> 32 word option" where
  "sigdelset s signo = (if sigbad signo then None else Some (s AND sigbit signo))"

definition sigismember :: "32 word \<Rightarrow> int \<Rightarrow> bool option" where
  "sigismember s signo = (if sigbad signo then None else Some (s AND sigbit signo \<noteq> 0))"

text \<open>The set of signals that a word stands for.\<close>

definition sigs :: "32 word \<Rightarrow> int set" where
  "sigs s = {g. \<not> sigbad g \<and> bit s (nat (g - 1))}"

lemma bit_sigbit: "\<not> sigbad g \<Longrightarrow> bit (sigbit g) n \<longleftrightarrow> n = nat (g - 1)"
  by (auto simp: sigbit_def bit_simps sigbad_def NSIG32_def)

lemma sigismember_sigs: "\<not> sigbad g \<Longrightarrow> sigismember s g = Some (g \<in> sigs s)"
proof -
  assume g: "\<not> sigbad g"
  have "s AND sigbit g \<noteq> 0 \<longleftrightarrow> bit s (nat (g - 1))"
    unfolding bit_eq_iff[of "s AND sigbit g" 0] using g by (auto simp: bit_and_iff bit_sigbit sigbad_def NSIG32_def)
  then show ?thesis using g by (simp add: sigismember_def sigs_def)
qed

lemma sigaddset_sigs: "\<not> sigbad g \<Longrightarrow> \<exists>t. sigaddset s g = Some t \<and> sigs t = insert g (sigs s)"
  by (auto simp: sigaddset_def sigs_def bit_or_iff bit_sigbit) (auto simp: sigbad_def)

lemma sigdelset_sigs: "\<not> sigbad g \<Longrightarrow> \<exists>t. sigdelset s g = Some t \<and> sigs t = sigs s \<inter> {g}"
  by (auto simp: sigdelset_def sigs_def bit_and_iff bit_sigbit) (auto simp: sigbad_def)

text \<open>
  \<open>sigaddset\<close> and \<open>sigismember\<close> are insertion and membership of the set of signals that the bits stand for, and an
  invalid signal is an error. \<open>sigdelset\<close> is not deletion: it keeps the signal, if it was a member, and drops all the others.
\<close>

theorem sigset_operations:
  "(if sigbad g then sigaddset s g = None \<and> sigdelset s g = None \<and> sigismember s g = None
    else (\<exists>t. sigaddset s g = Some t \<and> sigs t = insert g (sigs s)) \<and>
      (\<exists>t. sigdelset s g = Some t \<and> sigs t = sigs s \<inter> {g}) \<and>
      sigismember s g = Some (g \<in> sigs s))"
proof (cases "sigbad g")
  case True
  then show ?thesis by (simp add: sigaddset_def sigdelset_def sigismember_def)
next
  case False
  then show ?thesis using sigaddset_sigs[OF False, of s] sigdelset_sigs[OF False, of s] sigismember_sigs[OF False, of s]
    by (simp only: if_False simp_thms)
qed

subsection \<open>Accounting numbers\<close>

text \<open>\<open>compt2ulong\<close>: the loop multiplies an \<open>unsigned long\<close> of \<open>'w\<close> bits.\<close>

fun mul8 :: "nat \<Rightarrow> ('w::len) word \<Rightarrow> 'w word" where
  "mul8 0 val = val"
| "mul8 (Suc e) val = mul8 e (val * 8)"

definition compt2ulong :: "16 word \<Rightarrow> ('w::len) word" where
  "compt2ulong comptime = mul8 (unat (drop_bit 13 comptime AND 7)) (ucast (comptime AND 0x1FFF))"

lemma mul8_pow: "mul8 e val = val * 8 ^ e"
  by (induction e arbitrary: val) (simp_all add: mult_ac)

lemma compt2ulong_of_nat: "(compt2ulong c :: 'w::len word) = of_nat (unat (c AND 0x1FFF) * 8 ^ unat (drop_bit 13 c AND 7))"
  by (simp add: compt2ulong_def mul8_pow of_nat_unat)

text \<open>
  The number is the fraction times 8 to the exponent. An \<open>unsigned long\<close> of 64 bits always holds it, one
  of 32 bits only what is below 2 to the 32, and the rest is lost.
\<close>

theorem compt2ulong_value:
  "let v = unat (c AND 0x1FFF) * 8 ^ unat (drop_bit 13 c AND 7) in
   unat (compt2ulong (c :: 16 word) :: 64 word) = v \<and> unat (compt2ulong c :: 32 word) = v mod 2 ^ 32"
proof -
  define v where "v = unat (c AND 0x1FFF) * 8 ^ unat (drop_bit 13 c AND 7)"
  let ?f = "c AND 0x1FFF" and ?e = "unat (drop_bit 13 c AND 7)"
  have f: "unat ?f \<le> 8191" using word_and_le1[of "c" "0x1FFF"] by (simp add: word_le_nat_alt)
  have e: "?e \<le> 7" using word_and_le1[of "drop_bit 13 c" 7] by (simp add: word_le_nat_alt)
  have "v \<le> 8191 * 8 ^ 7" unfolding v_def using f e by (intro mult_mono power_increasing) auto
  then have "v < 2 ^ 64" by simp
  then show ?thesis unfolding Let_def v_def[symmetric] by (simp add: compt2ulong_of_nat v_def[symmetric] unat_of_nat)
qed

text \<open>The largest number, on both.\<close>

lemma compt2ulong_largest: "unat (compt2ulong 0xFFFF :: 64 word) = 17177772032 \<and> unat (compt2ulong 0xFFFF :: 32 word) = 4292870144"
  by (simp add: compt2ulong_of_nat)

end
