(* ===== verification/Coproc.thy ===== *)
theory Coproc
  imports Lines Proc_Props
begin

text \<open>
  A coprocess: \<^verbatim>\<open>add2.c\<close>, a filter that adds two numbers per line, \<^verbatim>\<open>add2_standardIO.c\<close>, the same with
  standard I/O, and the programs that drive it, \<^verbatim>\<open>exec_add2.c\<close> over two pipes and \<^verbatim>\<open>spipe_add2.c\<close> over a stream pipe.

  First the setting up of the child's standard input and output, in the model of processes; then the two processes
  that run concurrently, joined by a stream of bytes in each direction. The second part takes the filter as a parameter: what the
  drivers need of it is the locale \<open>filter_contract\<close>, which \<open>add2\<close> is shown to fulfil.
\<close>

subsection \<open>The filter\<close>

text \<open>
  A conversion \<^verbatim>\<open>%d\<close> of \<open>sscanf\<close>: the number and the rest of the string. A number that an
  \<open>int\<close> does not hold is undefined behaviour, as is a sum that overflows.
\<close>

definition scan_d :: "string \<Rightarrow> (int \<times> string) option" where
  "scan_d s =
     (let t = dropWhile isspace s;
          u = (if t \<noteq> [] \<and> (hd t = CHR ''-'' \<or> hd t = CHR ''+'') then tl t else t);
          ds = takeWhile isdigit u
      in if ds = [] then None
         else Some (if t \<noteq> [] \<and> hd t = CHR ''-'' then - int (digits_val 0 ds) else int (digits_val 0 ds), dropWhile isdigit u))"

definition is_int :: "int \<Rightarrow> bool" where
  "is_int x \<longleftrightarrow> - (2 ^ 31) \<le> x \<and> x < 2 ^ 31"

definition invalid_args :: string where
  "invalid_args = ''invalid args'' @ [NL]"

text \<open>What the filter answers to a line; \<open>None\<close> is undefined behaviour.\<close>

definition add2_line :: "string \<Rightarrow> string option" where
  "add2_line line = (case scan_d line of
     None \<Rightarrow> Some invalid_args
   | Some (int1, r) \<Rightarrow>
       if \<not> is_int int1 then None
       else (case scan_d r of
           None \<Rightarrow> Some invalid_args
         | Some (int2, _) \<Rightarrow>
             if is_int int2 \<and> is_int (int1 + int2) then Some (fmt_d (int1 + int2) @ [NL]) else None))"

text \<open>
  \<open>main\<close> of \<^verbatim>\<open>add2.c\<close> on the \<open>n\<close> bytes that a \<open>read\<close> of up to \<open>MAXLINE\<close> bytes returned: the null byte behind them
  is beyond the array when there are \<open>MAXLINE\<close> of them.
\<close>

definition add2_read :: "string \<Rightarrow> string option" where
  "add2_read bs = (if length bs < MAXLINE then add2_line (cstr bs) else None)"

text \<open>\<open>main\<close> of \<^verbatim>\<open>add2_standardIO.c\<close> on a line that \<open>fgets\<close> returned.\<close>

definition add2_stdio :: "string \<Rightarrow> string option" where
  "add2_stdio line = add2_line (cstr line)"

subsection \<open>Setting up the child\<close>

definition SIGPIPE :: int where "SIGPIPE = 13"

text \<open>\<^verbatim>\<open>exec_add2.c\<close>: the read end of the first pipe becomes the standard input, the write end of the second the standard output.\<close>

definition move_fd :: "int \<Rightarrow> int \<Rightarrow> bool \<Rightarrow> string \<Rightarrow> (unit, 'a proc_scheme) prog" where
  "move_fd from to closing msg =
     (if from \<noteq> to
      then bnd (dup2 from to) (\<lambda>r.
           if r \<noteq> to then err_sys msg
           else if closing then bnd (sys_close from) (\<lambda>_. ret ()) else ret ())
      else ret ())"

definition exec_add2_child :: "int \<times> int \<Rightarrow> int \<times> int \<Rightarrow> (image, proc) prog" where
  "exec_add2_child fd1 fd2 =
     bnd (sys_close (snd fd1)) (\<lambda>_.
     bnd (sys_close (fst fd2)) (\<lambda>_.
     bnd (move_fd (fst fd1) 0 True ''dup2 error to stdin'') (\<lambda>_.
     bnd (move_fd (snd fd2) 1 True ''dup2 error to stdout'') (\<lambda>_.
     exec_or ''./add2'' [''add2''] (err_sys ''execl error'')))))"

text \<open>The descriptors on which the parent writes and reads.\<close>

definition exec_add2_start :: "(int \<times> int, proc) prog" where
  "exec_add2_start =
     bnd (signal SIGPIPE (Catch ''sig_pipe'')) (\<lambda>h.
     if h = None then err_sys ''signal error''
     else bnd sys_pipe (\<lambda>p1. case p1 of
         None \<Rightarrow> err_sys ''pipe error''
       | Some fd1 \<Rightarrow> bnd sys_pipe (\<lambda>p2. case p2 of
           None \<Rightarrow> err_sys ''pipe error''
         | Some fd2 \<Rightarrow>
             bnd (fork (exec_add2_child fd1 fd2)) (\<lambda>pid.
             if pid < 0 then err_sys ''fork error''
             else bnd (sys_close (fst fd1)) (\<lambda>_.
                  bnd (sys_close (snd fd2)) (\<lambda>_. ret (snd fd1, fst fd2)))))))"

text \<open>
  \<^verbatim>\<open>spipe_add2.c\<close>: one end of the stream pipe becomes both. The same text is in \<^verbatim>\<open>open.c\<close>, with another program.
\<close>

definition spipe_child :: "string \<Rightarrow> string list \<Rightarrow> int \<times> int \<Rightarrow> (image, 'a proc_scheme) prog" where
  "spipe_child path argv fd =
     bnd (sys_close (fst fd)) (\<lambda>_.
     bnd (move_fd (snd fd) 0 False ''dup2 error to stdin'') (\<lambda>_.
     bnd (move_fd (snd fd) 1 False ''dup2 error to stdout'') (\<lambda>_.
     exec_or path argv (err_sys ''execl error''))))"

definition spipe_add2_child :: "int \<times> int \<Rightarrow> (image, 'a proc_scheme) prog" where
  "spipe_add2_child = spipe_child ''./add2'' [''add2'']"

definition spipe_add2_start :: "(int \<times> int, proc) prog" where
  "spipe_add2_start =
     bnd (signal SIGPIPE (Catch ''sig_pipe'')) (\<lambda>h.
     if h = None then err_sys ''signal error''
     else bnd s_pipe (\<lambda>p. case p of
         None \<Rightarrow> err_sys ''pipe error''
       | Some fd \<Rightarrow>
           bnd (fork (spipe_add2_child fd)) (\<lambda>pid.
           if pid < 0 then err_sys ''fork error''
           else bnd (sys_close (snd fd)) (\<lambda>_. ret (fst fd, fst fd)))))"

subsection \<open>Who holds which end\<close>

text \<open>The free descriptors, lowest first.\<close>

definition free_fds :: "'a world_scheme \<Rightarrow> nat list" where
  "free_fds s = filter (\<lambda>i. w_fds s (int i) = None) [0..<w_maxfd s]"

lemma new_fd_first: "free_fds s = i # is \<Longrightarrow> new_fd s = Some (int i)"
  by (simp add: new_fd_def free_fds_def)

lemma free_fds_in: "i \<in> set (free_fds s) \<Longrightarrow> w_fds s (int i) = None"
  by (simp add: free_fds_def)

lemma free_fds_distinct: "distinct (free_fds s)"
  by (simp add: free_fds_def)

lemma free_fds_more: "free_fds (w_fds_update (\<lambda>_. (w_fds s)(int i \<mapsto> f)) s) = filter (\<lambda>j. j \<noteq> i) (free_fds s)"
  by (simp add: free_fds_def) (rule filter_cong; auto)

lemma free_fds_taken:
  assumes "free_fds s = i # is"
  shows "free_fds (s\<lparr>w_fds := (w_fds s)(int i \<mapsto> f)\<rparr>) = is"
proof -
  have "i \<notin> set is" using free_fds_distinct[of s] assms by simp
  then have "filter (\<lambda>j. j \<noteq> i) is = is" by (auto simp: filter_id_conv)
  then show ?thesis using assms by (simp add: free_fds_more)
qed

definition pipe_rd :: "nat \<Rightarrow> ofile" where
  "pipe_rd n = \<lparr>o_path = pipe_name n, o_pos = 0, o_oflag = O_RDONLY\<rparr>"

definition pipe_wr :: "nat \<Rightarrow> ofile" where
  "pipe_wr n = \<lparr>o_path = pipe_name n, o_pos = 0, o_oflag = O_WRONLY\<rparr>"

lemma sys_pipe_run:
  assumes "free_fds s = i # j # is"
  shows "\<exists>t. sys_pipe s = Ok (Some (int i, int j)) t \<and> t = s\<lparr>w_fds := (w_fds s)(int i \<mapsto> pipe_rd (p_npipe s), int j \<mapsto> pipe_wr (p_npipe s)),
    p_npipe := Suc (p_npipe s)\<rparr> \<and> free_fds t = is"
proof -
  let ?t = "s\<lparr>w_fds := (w_fds s)(int i \<mapsto> pipe_rd (p_npipe s))\<rparr>"
  have f: "free_fds ?t = j # is" using free_fds_taken[OF assms] by simp
  have "free_fds (?t\<lparr>w_fds := (w_fds ?t)(int j \<mapsto> pipe_wr (p_npipe s))\<rparr>) = is" by (rule free_fds_taken[OF f])
  then have g: "free_fds (s\<lparr>w_fds := (w_fds s)(int i \<mapsto> pipe_rd (p_npipe s), int j \<mapsto> pipe_wr (p_npipe s)), p_npipe := Suc (p_npipe s)\<rparr>) = is"
    by (simp add: free_fds_def)
  show ?thesis
    using new_fd_first[OF assms] new_fd_first[OF f] g by (simp add: sys_pipe_def Let_def pipe_rd_def pipe_wr_def)
qed

text \<open>The child that executes \<open>add2\<close>.\<close>

definition add2_image :: "proc \<Rightarrow> image" where
  "add2_image s = Exec (resolve (p_cwd s) ''./add2'') [''add2'']"

lemma exec_add2_child_run:
  assumes "p_progs s (resolve (p_cwd s) ''./add2'')"
    and "w_fds s a = Some f" "w_fds s b \<noteq> None" "w_fds s c \<noteq> None" "w_fds s d = Some g"
    and "distinct [0, 1, a, b, c, d]"
  shows "\<exists>u. exec_add2_child (a, b) (c, d) s = Ok (add2_image s) u \<and>
    w_fds u = (w_fds s)(0 \<mapsto> f, 1 \<mapsto> g, a := None, b := None, c := None, d := None)"
  using assms
  by (auto simp: exec_add2_child_def move_fd_def sys_close_def dup2_def exec_or_def execl_def add2_image_def fun_eq_iff)

lemma spipe_child_run:
  assumes "p_progs s (resolve (p_cwd s) path)"
    and "w_fds s a \<noteq> None" "w_fds s b = Some g" and "distinct [0, 1, a, b]"
  shows "\<exists>u. spipe_child path argv (a, b) s = Ok (Exec (resolve (p_cwd s) path) argv) u \<and> w_fds u = (w_fds s)(0 \<mapsto> g, 1 \<mapsto> g, a := None)"
  using assms
  by (auto simp: spipe_child_def move_fd_def sys_close_def dup2_def exec_or_def execl_def fun_eq_iff)

lemma std_not_free:
  assumes "w_fds s 0 \<noteq> None" "w_fds s 1 \<noteq> None" "i \<in> set (free_fds s)"
  shows "i \<noteq> 0 \<and> i \<noteq> 1"
  using free_fds_in[OF assms(3)] assms(1,2) by (intro conjI notI) auto

lemma signal_pipe_run: "\<exists>h a. signal SIGPIPE f s = Ok (Some h) (s\<lparr>p_act := a\<rparr>)"
  by (auto simp: signal_def signal_act_def sigaction_def can_catch_def sig_defs SIGPIPE_def)

text \<open>
  C34. The driver over two pipes wires its coprocess up: the child runs \<open>add2\<close> with the read end of the first pipe as its
  standard input and the write end of the second as its standard output, the driver keeps the two other ends, and
  nobody holds an end that is not his, so that each of them sees when the other one ends.
\<close>

theorem exec_add2_wired:
  assumes "free_fds s = i # j # k # l # is" and "w_fds s 0 \<noteq> None" "w_fds s 1 \<noteq> None"
    and "p_pids s = p # ps" "0 < p" and "p_progs s (resolve (p_cwd s) ''./add2'')"
  shows "\<exists>t kd. exec_add2_start s = Ok (int j, int k) t \<and> p_kids t = p_kids s @ [kd] \<and>
    kd_image kd = add2_image s \<and>
    kd_fds kd = (w_fds s)(0 \<mapsto> pipe_rd (p_npipe s), 1 \<mapsto> pipe_wr (Suc (p_npipe s))) \<and>
    w_fds t = (w_fds s)(int j \<mapsto> pipe_wr (p_npipe s), int k \<mapsto> pipe_rd (Suc (p_npipe s)))"
proof -
  have D: "distinct [i, j, k, l]" using free_fds_distinct[of s] assms(1) by auto
  have N: "i \<notin> {0, 1} \<and> j \<notin> {0, 1} \<and> k \<notin> {0, 1} \<and> l \<notin> {0, 1}"
    using std_not_free[OF assms(2,3)] assms(1) by simp
  have F: "w_fds s (int i) = None" "w_fds s (int j) = None" "w_fds s (int k) = None" "w_fds s (int l) = None"
    using free_fds_in[of _ s] assms(1) by simp_all
  obtain h act where s1: "signal SIGPIPE (Catch ''sig_pipe'') s = Ok (Some h) (s\<lparr>p_act := act\<rparr>)" (is "_ = Ok _ ?s1")
    using signal_pipe_run by blast
  have f1: "free_fds ?s1 = i # j # k # l # is" using assms(1) by (simp add: free_fds_def)
  obtain s2 where s2: "sys_pipe ?s1 = Ok (Some (int i, int j)) s2" "free_fds s2 = k # l # is"
      "s2 = ?s1\<lparr>w_fds := (w_fds ?s1)(int i \<mapsto> pipe_rd (p_npipe s), int j \<mapsto> pipe_wr (p_npipe s)), p_npipe := Suc (p_npipe s)\<rparr>"
    using sys_pipe_run[OF f1] by auto
  obtain s3 where s3: "sys_pipe s2 = Ok (Some (int k, int l)) s3"
      "s3 = s2\<lparr>w_fds := (w_fds s2)(int k \<mapsto> pipe_rd (p_npipe s2), int l \<mapsto> pipe_wr (p_npipe s2)), p_npipe := Suc (p_npipe s2)\<rparr>"
    using sys_pipe_run[OF s2(2)] by auto
  have W: "w_fds s3 = (w_fds s)(int i \<mapsto> pipe_rd (p_npipe s), int j \<mapsto> pipe_wr (p_npipe s),
      int k \<mapsto> pipe_rd (Suc (p_npipe s)), int l \<mapsto> pipe_wr (Suc (p_npipe s)))"
    using s3(2) s2(3) by simp
  have P: "p_pids s3 = p # ps" "p_kids s3 = p_kids s" "p_progs s3 = p_progs s" "p_cwd s3 = p_cwd s"
    using s3(2) s2(3) assms(4) by simp_all
  let ?c = "s3\<lparr>p_pend := {}\<rparr>"
  have dd: "distinct [0, 1, int i, int j, int k, int l]" using D N by auto
  have ww: "w_fds ?c (int i) = Some (pipe_rd (p_npipe s))" "w_fds ?c (int j) \<noteq> None" "w_fds ?c (int k) \<noteq> None"
      "w_fds ?c (int l) = Some (pipe_wr (Suc (p_npipe s)))" using D by (simp_all add: W)
  obtain u where u: "exec_add2_child (int i, int j) (int k, int l) ?c = Ok (add2_image ?c) u"
      "w_fds u = (w_fds ?c)(0 \<mapsto> pipe_rd (p_npipe s), 1 \<mapsto> pipe_wr (Suc (p_npipe s)), int i := None, int j := None, int k := None, int l := None)"
    using exec_add2_child_run[OF _ ww dd] assms(6) P by auto
  have uf: "w_fds u = (w_fds s)(0 \<mapsto> pipe_rd (p_npipe s), 1 \<mapsto> pipe_wr (Suc (p_npipe s)))"
    using u(2) F N by (auto simp: W fun_eq_iff)
  obtain kd where kd: "fork (exec_add2_child (int i, int j) (int k, int l)) s3 = Ok p (s3\<lparr>p_pids := ps, p_kids := p_kids s @ [kd]\<rparr>)"
      "kd_image kd = add2_image s" "kd_fds kd = w_fds u"
    using P u(1) by (simp add: fork_def Let_def add2_image_def)
  define s4 where "s4 = s3\<lparr>p_pids := ps, p_kids := p_kids s @ [kd]\<rparr>"
  have "bnd (sys_close (int i)) (\<lambda>_. bnd (sys_close (int l)) (\<lambda>_. ret (int j, int k))) s4 =
      Ok (int j, int k) (s4\<lparr>w_fds := (w_fds s4)(int i := None, int l := None),
        w_locks := (w_locks s4)(pipe_name (p_npipe s) := (\<lambda>_. None), pipe_name (Suc (p_npipe s)) := (\<lambda>_. None))\<rparr>)"
    using D by (simp add: sys_close_def s4_def W pipe_rd_def pipe_wr_def)
  then have "exec_add2_start s = Ok (int j, int k) (s4\<lparr>w_fds := (w_fds s4)(int i := None, int l := None),
        w_locks := (w_locks s4)(pipe_name (p_npipe s) := (\<lambda>_. None), pipe_name (Suc (p_npipe s)) := (\<lambda>_. None))\<rparr>)"
    using s1 s2(1) s3(1) kd(1)[folded s4_def] assms(5) by (simp add: exec_add2_start_def)
  moreover have "(w_fds s4)(int i := None, int l := None) = (w_fds s)(int j \<mapsto> pipe_wr (p_npipe s), int k \<mapsto> pipe_rd (Suc (p_npipe s)))"
    using D F by (auto simp: s4_def W fun_eq_iff)
  ultimately show ?thesis using kd(2,3) uf by (simp add: s4_def)
qed

theorem exec_add2_wired_witness:
  "\<exists>t kd. exec_add2_start (proc0\<lparr>p_progs := (\<lambda>_. True)\<rparr>) = Ok (4, 5) t \<and> p_kids t = [kd] \<and>
    kd_image kd = Exec ''/home/./add2'' [''add2''] \<and> kd_fds kd 1 = Some (pipe_wr 1)"
proof -
  let ?s = "proc0\<lparr>p_progs := (\<lambda>_. True)\<rparr>"
  have f: "free_fds ?s = 3 # 4 # 5 # 6 # [7..<20]"
    by (simp add: free_fds_def proc0_def upt_rec[of 0] upt_rec[of "Suc _"] upt_rec[of "numeral _"])
  have im: "add2_image ?s = Exec ''/home/./add2'' [''add2'']" by (simp add: add2_image_def resolve_def proc0_def)
  have "\<exists>t kd. exec_add2_start ?s = Ok (int 4, int 5) t \<and> p_kids t = p_kids ?s @ [kd] \<and> kd_image kd = add2_image ?s \<and>
    kd_fds kd = (w_fds ?s)(0 \<mapsto> pipe_rd (p_npipe ?s), 1 \<mapsto> pipe_wr (Suc (p_npipe ?s))) \<and>
    w_fds t = (w_fds ?s)(int 4 \<mapsto> pipe_wr (p_npipe ?s), int 5 \<mapsto> pipe_rd (Suc (p_npipe ?s)))"
    by (rule exec_add2_wired[OF f, of 50 "[51]"]) (simp_all add: proc0_def)
  then show ?thesis unfolding im by (auto simp: proc0_def)
qed

text \<open>Over a stream pipe there is one end for each; the child keeps a third descriptor for its end, which does no harm.\<close>

definition spipe_end :: "'a proc_scheme \<Rightarrow> string \<Rightarrow> ofile" where
  "spipe_end s e = \<lparr>o_path = pipe_name (p_npipe s) @ e, o_pos = 0, o_oflag = O_RDWR\<rparr>"

lemma spipe_fork_run:
  fixes s :: "'a proc_scheme"
  assumes "free_fds s = i # j # is" and "w_fds s 0 \<noteq> None" "w_fds s 1 \<noteq> None"
    and "p_pids s = p # ps" "0 < p" and "p_progs s (resolve (p_cwd s) path)"
  shows "\<exists>kd s'. bnd s_pipe (\<lambda>q. case q of
        None \<Rightarrow> m1
      | Some fd \<Rightarrow> bnd (fork (spipe_child path argv fd)) (\<lambda>pid.
          if pid < 0 then m2 else bnd (sys_close (snd fd)) (\<lambda>_. k fd))) s = k (int i, int j) s' \<and>
    s' = s\<lparr>w_fds := (w_fds s)(int i \<mapsto> spipe_end s '':0''), p_npipe := Suc (p_npipe s), p_pids := ps, p_kids := p_kids s @ [kd],
      w_locks := (w_locks s)(o_path (spipe_end s '':1'') := (\<lambda>_. None))\<rparr> \<and>
    free_fds s' = j # is \<and>
    kd_image kd = Exec (resolve (p_cwd s) path) argv \<and>
    kd_fds kd = (w_fds s)(0 \<mapsto> spipe_end s '':1'', 1 \<mapsto> spipe_end s '':1'', int j \<mapsto> spipe_end s '':1'')"
proof -
  let ?f = "spipe_end s '':0''" and ?g = "spipe_end s '':1''"
  have D: "i \<noteq> j" "i \<notin> {0, 1} \<and> j \<notin> {0, 1}" using free_fds_distinct[of s] std_not_free[OF assms(2,3)] assms(1) by auto
  have F: "w_fds s (int i) = None" "w_fds s (int j) = None" using free_fds_in[of _ s] assms(1) by simp_all
  define s2 where "s2 = s\<lparr>w_fds := (w_fds s)(int i \<mapsto> ?f, int j \<mapsto> ?g), p_npipe := Suc (p_npipe s)\<rparr>"
  have "new_fd (s\<lparr>w_fds := (w_fds s)(int i \<mapsto> ?f)\<rparr>) = Some (int j)"
    by (rule new_fd_first, rule free_fds_taken[OF assms(1)])
  then have s2: "s_pipe s = Ok (Some (int i, int j)) s2"
    using new_fd_first[OF assms(1)] by (simp add: s_pipe_def Let_def spipe_end_def s2_def)
  let ?c = "s2\<lparr>p_pend := {}\<rparr>"
  obtain u where u: "spipe_child path argv (int i, int j) ?c = Ok (Exec (resolve (p_cwd s) path) argv) u"
      "w_fds u = (w_fds ?c)(0 \<mapsto> ?g, 1 \<mapsto> ?g, int i := None)"
    using spipe_child_run[of ?c path "int i" "int j" ?g argv] D assms(6) by (auto simp: s2_def)
  have uf: "w_fds u = (w_fds s)(0 \<mapsto> ?g, 1 \<mapsto> ?g, int j \<mapsto> ?g)"
    using u(2) F D by (auto simp: s2_def fun_eq_iff)
  obtain kd where kd: "fork (spipe_child path argv (int i, int j)) s2 = Ok p (s2\<lparr>p_pids := ps, p_kids := p_kids s @ [kd]\<rparr>)"
      "kd_image kd = Exec (resolve (p_cwd s) path) argv" "kd_fds kd = w_fds u"
    using assms(4) u(1) by (simp add: fork_def Let_def s2_def)
  define s' where "s' = s\<lparr>w_fds := (w_fds s)(int i \<mapsto> ?f), p_npipe := Suc (p_npipe s), p_pids := ps, p_kids := p_kids s @ [kd],
      w_locks := (w_locks s)(o_path ?g := (\<lambda>_. None))\<rparr>"
  have w: "(w_fds s2)(int j := None) = w_fds s'" using D F by (auto simp: s2_def s'_def fun_eq_iff)
  have cl: "sys_close (int j) (s2\<lparr>p_pids := ps, p_kids := p_kids s @ [kd]\<rparr>) = Ok 0 s'"
    using w by (simp add: sys_close_def s2_def s'_def)
  have fr: "free_fds s' = j # is" using free_fds_taken[OF assms(1), of ?f] by (simp add: free_fds_def s'_def)
  show ?thesis using s2 kd(1) assms(5) cl fr kd(2,3) uf unfolding s'_def by (intro exI[of _ kd]) simp
qed

lemma spipe_add2_wired:
  assumes "free_fds s = i # j # is" and "w_fds s 0 \<noteq> None" "w_fds s 1 \<noteq> None"
    and "p_pids s = p # ps" "0 < p" and "p_progs s (resolve (p_cwd s) ''./add2'')"
  shows "\<exists>t kd. spipe_add2_start s = Ok (int i, int i) t \<and> p_kids t = p_kids s @ [kd] \<and> kd_image kd = add2_image s \<and>
    kd_fds kd = (w_fds s)(0 \<mapsto> spipe_end s '':1'', 1 \<mapsto> spipe_end s '':1'', int j \<mapsto> spipe_end s '':1'') \<and>
    w_fds t = (w_fds s)(int i \<mapsto> spipe_end s '':0'')"
proof -
  obtain h act where s1: "signal SIGPIPE (Catch ''sig_pipe'') s = Ok (Some h) (s\<lparr>p_act := act\<rparr>)" (is "_ = Ok _ ?s1")
    using signal_pipe_run by blast
  have f1: "free_fds ?s1 = i # j # is" using assms(1) by (simp add: free_fds_def)
  obtain kd s' where "bnd s_pipe (\<lambda>q. case q of None \<Rightarrow> err_sys ''pipe error'' | Some fd \<Rightarrow> bnd (fork (spipe_child ''./add2'' [''add2''] fd))
        (\<lambda>pid. if pid < 0 then err_sys ''fork error'' else bnd (sys_close (snd fd)) (\<lambda>_. ret (fst fd, fst fd)))) ?s1 =
        ret (fst (int i, int j), fst (int i, int j)) s'" "p_kids s' = p_kids s @ [kd]" "w_fds s' = (w_fds s)(int i \<mapsto> spipe_end s '':0'')"
      "kd_image kd = add2_image s" "kd_fds kd = (w_fds s)(0 \<mapsto> spipe_end s '':1'', 1 \<mapsto> spipe_end s '':1'', int j \<mapsto> spipe_end s '':1'')"
    using spipe_fork_run[OF f1, of p ps "''./add2''" "err_sys ''pipe error''" "[''add2'']" "err_sys ''fork error''" "\<lambda>fd. ret (fst fd, fst fd)"] assms(2-)
    by (fastforce simp: add2_image_def spipe_end_def)
  then show ?thesis using s1 by (auto simp: spipe_add2_start_def spipe_add2_child_def)
qed

subsection \<open>The two processes\<close>

text \<open>
  The driver reads a line of its input, writes it, waits for the answer and prints that. The bytes on their way to the
  filter are \<open>c_up\<close>, those on their way back \<open>c_down\<close>; a \<open>read\<close> takes all that has arrived, up to \<open>MAXLINE\<close> bytes.
  A process that ends closes its ends of the pipes. A driver that gets \<open>MAXLINE\<close> bytes writes its null byte beyond the array.
\<close>

datatype driver = D_Top | D_Read | D_Exit bool | D_Crash   \<comment> \<open>\<open>D_Exit False\<close>: after ``child closed pipe''\<close>
datatype filt = F_Read | F_Write string | F_Exit | F_Crash

record coproc =
  c_in :: string
  c_up :: string
  c_down :: string
  c_out :: string
  c_drv :: driver
  c_flt :: filt

inductive cstep :: "(string \<Rightarrow> string option) \<Rightarrow> coproc \<Rightarrow> coproc \<Rightarrow> bool" for answer where
  d_write: "c_drv s = D_Top \<Longrightarrow> c_in s \<noteq> [] \<Longrightarrow> l = take (MAXLINE - 1) (line_of (c_in s)) \<Longrightarrow>
    cstep answer s (s\<lparr>c_in := drop (length l) (c_in s), c_up := c_up s @ cstr l, c_drv := D_Read\<rparr>)"
| d_eof: "c_drv s = D_Top \<Longrightarrow> c_in s = [] \<Longrightarrow> cstep answer s (s\<lparr>c_drv := D_Exit True\<rparr>)"
| d_read: "c_drv s = D_Read \<Longrightarrow> c_down s \<noteq> [] \<Longrightarrow>
    cstep answer s (s\<lparr>c_down := drop MAXLINE (c_down s), c_out := c_out s @ cstr (take MAXLINE (c_down s)),
      c_drv := (if length (c_down s) < MAXLINE then D_Top else D_Crash)\<rparr>)"
| d_closed: "c_drv s = D_Read \<Longrightarrow> c_down s = [] \<Longrightarrow> c_flt s \<in> {F_Exit, F_Crash} \<Longrightarrow> cstep answer s (s\<lparr>c_drv := D_Exit False\<rparr>)"
| f_read: "c_flt s = F_Read \<Longrightarrow> c_up s \<noteq> [] \<Longrightarrow>
    cstep answer s (s\<lparr>c_up := drop MAXLINE (c_up s),
      c_flt := (case answer (take MAXLINE (c_up s)) of None \<Rightarrow> F_Crash | Some r \<Rightarrow> F_Write r)\<rparr>)"
| f_eof: "c_flt s = F_Read \<Longrightarrow> c_up s = [] \<Longrightarrow> c_drv s = D_Exit b \<Longrightarrow> cstep answer s (s\<lparr>c_flt := F_Exit\<rparr>)"
| f_write: "c_flt s = F_Write r \<Longrightarrow> cstep answer s (s\<lparr>c_down := c_down s @ r, c_flt := F_Read\<rparr>)"

definition coproc_init :: "string \<Rightarrow> coproc" where
  "coproc_init inp = \<lparr>c_in = inp, c_up = [], c_down = [], c_out = [], c_drv = D_Top, c_flt = F_Read\<rparr>"

text \<open>
  What a driver needs of the filter: an answer that fits the driver's buffer and is not empty to every line it is sent.
  \<open>fit\<close> are the lines for which this is promised.
\<close>

locale filter_contract =
  fixes answer :: "string \<Rightarrow> string option" and fit :: "string \<Rightarrow> bool"
  assumes answers: "fit l \<Longrightarrow> \<exists>r. answer l = Some r \<and> r \<noteq> [] \<and> length r < MAXLINE \<and> is_cstr r"
    and fit_line: "fit l \<Longrightarrow> l \<noteq> [] \<and> is_cstr l"
begin

definition reply :: "string \<Rightarrow> string" where
  "reply l = (case answer l of Some r \<Rightarrow> r | None \<Rightarrow> [])"

lemma reply_answer: "fit l \<Longrightarrow> answer l = Some (reply l)"
  using answers[of l] by (auto simp: reply_def)

lemma reply_ok: "fit l \<Longrightarrow> reply l \<noteq> [] \<and> length (reply l) < MAXLINE \<and> is_cstr (reply l)"
  using answers[of l] by (auto simp: reply_def)

text \<open>
  After \<open>done\<close> lines: the line in work, if any, is on its way to the filter, in the filter, or its answer is on its way back.
\<close>

definition cinv :: "string list \<Rightarrow> coproc \<Rightarrow> bool" where
  "cinv ls s \<longleftrightarrow> (\<exists>old rest. ls = old @ rest \<and>
     (case c_drv s of
        D_Top \<Rightarrow> file_lines (c_in s) = rest \<and> c_out s = concat (map reply old) \<and> c_up s = [] \<and> c_down s = [] \<and> c_flt s = F_Read
      | D_Read \<Rightarrow> (\<exists>l more. rest = l # more \<and> file_lines (c_in s) = more \<and> c_out s = concat (map reply old) \<and>
          (c_up s = l \<and> c_down s = [] \<and> c_flt s = F_Read \<or> c_up s = [] \<and> c_down s = [] \<and> c_flt s = F_Write (reply l) \<or>
           c_up s = [] \<and> c_down s = reply l \<and> c_flt s = F_Read))
      | D_Exit ok \<Rightarrow> ok \<and> rest = [] \<and> c_out s = concat (map reply old) \<and> c_up s = [] \<and> c_down s = [] \<and> c_flt s \<in> {F_Read, F_Exit}
      | D_Crash \<Rightarrow> False))"

lemma cinv_init: "cinv (file_lines inp) (coproc_init inp)"
  unfolding cinv_def by (rule exI[of _ "[]"]) (simp add: coproc_init_def)

lemma cinv_step:
  assumes "cstep answer s t" and "cinv ls s" and fit: "\<And>l. l \<in> set ls \<Longrightarrow> fit l \<and> length l < MAXLINE"
  shows "cinv ls t"
  using assms(1,2)
proof (induction rule: cstep.induct)
  case (d_write s l)
  then obtain old rest where s: "ls = old @ rest" "file_lines (c_in s) = rest" "c_out s = concat (map reply old)" "c_up s = []"
      "c_down s = []" "c_flt s = F_Read" by (auto simp: cinv_def)
  then have r: "rest = l # file_lines (drop (length l) (c_in s))" using d_write(2,3) by (simp add: file_lines.simps[of "c_in s"] Let_def)
  then have "fit l" using fit s(1) by simp
  then have "cstr l = l" using fit_line by simp
  then show ?case unfolding cinv_def using s r by (intro exI[of _ old] exI[of _ rest]) simp
next
  case (d_eof s)
  then show ?case by (auto simp: cinv_def)
next
  case (d_read s)
  then obtain old l more where s: "ls = old @ l # more" "file_lines (c_in s) = more" "c_out s = concat (map reply old)" "c_up s = []"
      "c_down s = reply l" "c_flt s = F_Read" by (auto simp: cinv_def)
  have "reply l \<noteq> [] \<and> length (reply l) < MAXLINE \<and> is_cstr (reply l)" using reply_ok fit s(1) by simp
  then show ?case unfolding cinv_def using s by (intro exI[of _ "old @ [l]"] exI[of _ more]) simp
next
  case (d_closed s)
  then show ?case by (auto simp: cinv_def)
next
  case (f_read s)
  then obtain old l more where s: "ls = old @ l # more" "file_lines (c_in s) = more" "c_out s = concat (map reply old)" "c_up s = l"
      "c_down s = []" "c_flt s = F_Read" "c_drv s = D_Read" by (cases "c_drv s") (auto simp: cinv_def)
  have "answer l = Some (reply l)" "fit l" using reply_answer fit s(1) by simp_all
  moreover have "length l < MAXLINE" using fit s(1) by simp
  ultimately show ?case unfolding cinv_def using s by (intro exI[of _ old] exI[of _ "l # more"]) simp
next
  case (f_eof s b)
  then show ?case by (auto simp: cinv_def)
next
  case (f_write s r)
  then obtain old l more where s: "ls = old @ l # more" "file_lines (c_in s) = more" "c_out s = concat (map reply old)" "c_up s = []"
      "c_down s = []" "r = reply l" "c_drv s = D_Read" by (cases "c_drv s") (auto simp: cinv_def)
  then show ?case unfolding cinv_def by (intro exI[of _ old] exI[of _ "l # more"]) simp
qed

text \<open>Every step brings the run nearer to its end.\<close>

definition crank :: "coproc \<Rightarrow> nat" where
  "crank s = 4 * length (file_lines (c_in s)) +
     (case c_drv s of D_Top \<Rightarrow> 2 | D_Exit _ \<Rightarrow> (if c_flt s = F_Read then 1 else 0) | D_Crash \<Rightarrow> 0
        | D_Read \<Rightarrow> if c_up s \<noteq> [] then 5 else if c_flt s = F_Read then 3 else 4)"

lemma crank_step:
  assumes "cstep answer s t" and "cinv ls s" and fit: "\<And>l. l \<in> set ls \<Longrightarrow> fit l \<and> length l < MAXLINE"
  shows "crank t < crank s"
  using assms(1,2)
proof (induction rule: cstep.induct)
  case (d_write s l)
  then have "length (file_lines (c_in s)) = Suc (length (file_lines (drop (length l) (c_in s))))"
    by (simp add: file_lines.simps[of "c_in s"] Let_def)
  then show ?case using d_write by (simp add: crank_def cinv_def)
next
  case (d_read s)
  then show ?case using reply_ok fit by (auto simp: crank_def cinv_def)
next
  case (f_read s)
  then show ?case using reply_answer fit by (cases "c_drv s") (auto simp: crank_def cinv_def less_imp_le)
next
  case (f_write s r)
  then show ?case using reply_ok fit by (cases "c_drv s") (auto simp: crank_def cinv_def)
qed (auto simp: crank_def cinv_def)

lemma cstep_reach:
  assumes "\<And>l. l \<in> set (file_lines inp) \<Longrightarrow> fit l"
  shows "(cstep answer ^^ k) (coproc_init inp) s \<Longrightarrow> cinv (file_lines inp) s \<and> k + crank s \<le> 4 * length (file_lines inp) + 2"
proof (induction k arbitrary: s)
  case 0
  then have "s = coproc_init inp" by simp
  then show ?case using cinv_init by (simp add: crank_def coproc_init_def)
next
  case (Suc k)
  then obtain r where r: "(cstep answer ^^ k) (coproc_init inp) r" "cstep answer r s" by (auto simp: OO_def)
  have f: "\<And>l. l \<in> set (file_lines inp) \<Longrightarrow> fit l \<and> length l < MAXLINE" using assms file_lines_bound by blast
  note I = Suc.IH[OF r(1)]
  show ?case using cinv_step[OF r(2) _ f] crank_step[OF r(2) _ f] I by fastforce
qed

lemma not_stuck:
  assumes "cinv ls s" and fit: "\<And>l. l \<in> set ls \<Longrightarrow> fit l" and st: "\<And>t. \<not> cstep answer s t"
  shows "c_drv s = D_Exit True \<and> c_flt s = F_Exit \<and> c_out s = concat (map reply ls)"
proof (cases "c_drv s")
  case D_Top
  then show ?thesis using d_write[of s _ answer] d_eof[of s answer] st by metis
next
  case D_Read
  then obtain old l more where s: "ls = old @ l # more"
      "c_up s = l \<and> c_flt s = F_Read \<or> c_flt s = F_Write (reply l) \<or> c_down s = reply l \<and> c_flt s = F_Read"
    using assms(1) unfolding cinv_def by auto
  have "l \<noteq> []" "reply l \<noteq> []" using s(1) fit fit_line reply_ok by simp_all
  then show ?thesis using s(2) st D_Read d_read[of s answer] f_read[of s answer] f_write[of s "reply l" answer] by metis
next
  case (D_Exit ok)
  then have "ok" "c_up s = []" "c_flt s \<in> {F_Read, F_Exit}" "c_out s = concat (map reply ls)" using assms(1) by (auto simp: cinv_def)
  then show ?thesis using D_Exit st f_eof[of s ok answer] by auto
next
  case D_Crash
  then show ?thesis using assms(1) by (simp add: cinv_def)
qed

lemma driver_prints_answers:
  assumes "\<And>l. l \<in> set (file_lines inp) \<Longrightarrow> fit l" and "(cstep answer ^^ k) (coproc_init inp) s"
  shows "k \<le> 4 * length (file_lines inp) + 2 \<and>
    ((\<exists>t. cstep answer s t) \<or> c_drv s = D_Exit True \<and> c_flt s = F_Exit \<and> c_out s = concat (map reply (file_lines inp)))"
proof -
  note R = cstep_reach[OF assms(1) assms(2)]
  show ?thesis using not_stuck[of "file_lines inp" s] assms(1) R by (meson add_leD1)
qed

end

subsection \<open>The filter fulfils the contract\<close>

definition add2_fit :: "string \<Rightarrow> bool" where
  "add2_fit l \<longleftrightarrow> l \<noteq> [] \<and> is_cstr l \<and> length l < MAXLINE \<and> add2_line l \<noteq> None"

lemma length_fmt_d: "is_int x \<Longrightarrow> length (fmt_d x) \<le> 11"
proof -
  assume "is_int x"
  then have "nat x < 10 ^ 10" "nat (- x) < 10 ^ 10" by (auto simp: is_int_def nat_less_iff)
  then show ?thesis using length_dec_le[of "nat x" 10] length_dec_le[of "nat (- x)" 10] by (simp add: fmt_d_def)
qed

lemma is_cstr_fmt_d: "is_cstr (fmt_d x)"
  by (simp add: fmt_d_def)

lemma add2_answer:
  assumes "add2_line l = Some r"
  shows "r \<noteq> [] \<and> length r \<le> 13 \<and> is_cstr r"
proof -
  have "r = invalid_args \<or> (\<exists>x. is_int x \<and> r = fmt_d x @ [NL])"
    using assms by (auto simp: add2_line_def split: option.splits if_splits prod.splits)
  then show ?thesis
  proof
    assume "r = invalid_args"
    then show ?thesis by (simp add: invalid_args_def)
  next
    assume "\<exists>x. is_int x \<and> r = fmt_d x @ [NL]"
    then obtain x where "is_int x" "r = fmt_d x @ [NL]" by blast
    then show ?thesis using length_fmt_d[of x] is_cstr_fmt_d[of x] by simp
  qed
qed

interpretation ad: filter_contract add2_read add2_fit
proof
  fix l assume l: "add2_fit l"
  then obtain r where r: "add2_line l = Some r" by (auto simp: add2_fit_def)
  then show "\<exists>r. add2_read l = Some r \<and> r \<noteq> [] \<and> length r < MAXLINE \<and> is_cstr r"
    using l add2_answer[OF r] by (simp add: add2_read_def add2_fit_def MAXLINE_def)
  show "l \<noteq> [] \<and> is_cstr l" using l by (simp add: add2_fit_def)
qed

interpretation as: filter_contract add2_stdio add2_fit
proof
  fix l assume l: "add2_fit l"
  then obtain r where r: "add2_line l = Some r" by (auto simp: add2_fit_def)
  then show "\<exists>r. add2_stdio l = Some r \<and> r \<noteq> [] \<and> length r < MAXLINE \<and> is_cstr r"
    using l add2_answer[OF r] by (simp add: add2_stdio_def add2_fit_def MAXLINE_def)
  show "l \<noteq> [] \<and> is_cstr l" using l by (simp add: add2_fit_def)
qed

text \<open>A line with two numbers.\<close>

definition pair_line :: "int \<times> int \<Rightarrow> string" where
  "pair_line p = fmt_d (fst p) @ '' '' @ fmt_d (snd p) @ [NL]"

lemma scan_d_fmt:
  assumes "r = [] \<or> \<not> isdigit (hd r)"
  shows "scan_d (fmt_d x @ r) = Some (x, r)"
proof -
  have d: "takeWhile isdigit (dec n @ r) = dec n" "dropWhile isdigit (dec n @ r) = r" for n
    using assms dec_isdigit[of _ n] by (cases r; simp add: takeWhile_append2 dropWhile_append2)+
  show ?thesis
  proof (cases "x < 0")
    case True
    then show ?thesis using d[of "nat (- x)"] by (simp add: scan_d_def fmt_d_def Let_def)
  next
    case False
    have h: "hd (dec (nat x) @ r) = hd (dec (nat x))" by simp
    have "\<not> (hd (dec (nat x)) = CHR ''-'' \<or> hd (dec (nat x)) = CHR ''+'')"
      using isdigit_neqs[OF hd_dec_isdigit] by blast
    then show ?thesis using False d[of "nat x"] h by (simp add: scan_d_def fmt_d_def Let_def)
  qed
qed

lemma scan_d_blank: "scan_d (CHR '' '' # s) = scan_d s"
  by (simp add: scan_d_def)

lemma add2_pair: "is_int a \<Longrightarrow> is_int b \<Longrightarrow> is_int (a + b) \<Longrightarrow> add2_line (pair_line (a, b)) = Some (fmt_d (a + b) @ [NL])"
  using scan_d_fmt[of "'' '' @ fmt_d b @ [NL]" a] scan_d_fmt[of "[NL]" b]
  by (simp add: add2_line_def pair_line_def scan_d_blank isdigit_def)

definition summable :: "int \<times> int \<Rightarrow> bool" where
  "summable p \<longleftrightarrow> is_int (fst p) \<and> is_int (snd p) \<and> is_int (fst p + snd p)"

lemma pair_line_fit:
  assumes "summable p"
  shows "add2_fit (pair_line p)" and "line_ok (pair_line p)" and "add2_line (pair_line p) = Some (fmt_d (fst p + snd p) @ [NL])"
proof -
  have n: "NL \<notin> set (fmt_d x)" for x
    using dec_isdigit[of NL "nat x"] dec_isdigit[of NL "nat (- x)"] by (auto simp: fmt_d_def isdigit_def)
  have l: "length (pair_line p) \<le> 24"
    using assms length_fmt_d[of "fst p"] length_fmt_d[of "snd p"] by (simp add: summable_def pair_line_def)
  show a: "add2_line (pair_line p) = Some (fmt_d (fst p + snd p) @ [NL])"
    using add2_pair[of "fst p" "snd p"] assms by (simp add: summable_def)
  have "is_cstr (pair_line p)" by (simp add: pair_line_def is_cstr_fmt_d)
  then show "add2_fit (pair_line p)" using l a by (simp add: add2_fit_def MAXLINE_def) (simp add: pair_line_def)
  have "pair_line p = (fmt_d (fst p) @ '' '' @ fmt_d (snd p)) @ [NL]" by (simp add: pair_line_def)
  then show "line_ok (pair_line p)" unfolding line_ok_def using l n by (auto simp: MAXLINE_def)
qed

text \<open>
  C33. The driver and its coprocess \<open>add2\<close> never wait for each other: on an input of lines with two numbers every run,
  however the two are scheduled, ends after \<open>4 n + 2\<close> steps at most, and then the driver has printed the sum
  for each line, in order, and both have ended.
\<close>

theorem coprocess_adds:
  assumes "\<forall>p\<in>set ps. summable p"
    and "(cstep add2_read ^^ k) (coproc_init (concat (map pair_line ps))) s"
  shows "k \<le> 4 * length ps + 2 \<and>
    ((\<exists>t. cstep add2_read s t) \<or>
     c_drv s = D_Exit True \<and> c_flt s = F_Exit \<and> c_out s = concat (map (\<lambda>(a, b). fmt_d (a + b) @ [NL]) ps))"
proof -
  have L: "file_lines (concat (map pair_line ps)) = map pair_line ps"
    using assms(1) pair_line_fit(2) by (intro file_lines_concat) auto
  have r: "ad.reply (pair_line p) = (\<lambda>(a, b). fmt_d (a + b) @ [NL]) p" if "p \<in> set ps" for p
    using ad.reply_answer[of "pair_line p"] pair_line_fit[of p] assms(1) that
    by (auto simp: add2_read_def add2_fit_def split: prod.split)
  have fit: "l \<in> set (file_lines (concat (map pair_line ps))) \<Longrightarrow> add2_fit l" for l
    using assms(1) pair_line_fit(1) unfolding L by auto
  have M: "map ad.reply (map pair_line ps) = map (\<lambda>(a, b). fmt_d (a + b) @ [NL]) ps" using r by simp
  show ?thesis
    using ad.driver_prints_answers[OF fit assms(2)] unfolding L M by simp
qed

theorem coprocess_adds_witness:
  "\<exists>t. cstep add2_read (coproc_init (concat (map pair_line [(2, 3), (-7, 1)]))) t"
  using coprocess_adds[of "[(2, 3), (-7, 1)]" 0 "coproc_init (concat (map pair_line [(2, 3), (-7, 1)]))"]
  by (auto simp: summable_def is_int_def coproc_init_def)

text \<open>The buffer of \<open>add2\<close> has no room for the null byte when a \<open>read\<close> fills it; an input of one long line does that.\<close>

theorem add2_overruns: "length bs = MAXLINE \<Longrightarrow> add2_read bs = None"
  by (simp add: add2_read_def)

end
