(* ===== verification/Open_Cli.thy ===== *)
theory Open_Cli
  imports Opend_Props Coproc
begin

text \<open>
  The programs around the open server: \<^verbatim>\<open>open.c\<close> (a client that starts a server of its own), \<^verbatim>\<open>open-cli.c\<close> (a
  \<^verbatim>\<open>cat\<close> that has its files opened by a server) and \<^verbatim>\<open>opend-daemonServ.c\<close> (the \<open>main\<close> of the daemon).
\<close>

subsection \<open>A client with a server of its own\<close>

text \<open>The child closes its end of the parent and puts its own end on standard input and output, as in the coprocess example.\<close>

definition opend_child :: "int \<times> int \<Rightarrow> (image, 'a proc_scheme) prog" where
  "opend_child = spipe_child ''./opend'' [''opend'']"

text \<open>The part of \<open>csopen\<close> that both versions share: the request and the descriptor that comes back.\<close>

definition csopen_ask :: "int \<Rightarrow> string \<Rightarrow> int \<Rightarrow> (int, 'a sock_scheme) prog" where
  "csopen_ask fd name oflag =
     (if length (fmt_d oflag) + 2 > 10 then stop_with (Undefined ''buf overflow'')
      else bnd (sock_write fd (csopen_request name oflag)) (\<lambda>n.
      if n \<noteq> int (length (csopen_request name oflag)) then err_sys ''writev error''
      else recv_fd fd (sock_write 2)))"

text \<open>\<open>csopen\<close> of \<^verbatim>\<open>open.c\<close>; \<open>fd0\<close> is its static \<open>fd[0]\<close>, which it returns with the result.\<close>

definition csopen_fork :: "int \<Rightarrow> string \<Rightarrow> int \<Rightarrow> (int \<times> int, 'a proc_scheme) prog" where
  "csopen_fork fd0 name oflag =
     bnd (if fd0 < 0
          then bnd s_pipe (\<lambda>p. case p of
                 None \<Rightarrow> err_sys ''s_pipe error''
               | Some fd \<Rightarrow>
                   bnd (fork (opend_child fd)) (\<lambda>pid.
                   if pid < 0 then err_sys ''fork error''
                   else bnd (sys_close (snd fd)) (\<lambda>_. ret (fst fd))))
          else ret fd0) (\<lambda>fd.
     bnd (csopen_ask fd name oflag) (\<lambda>r. ret (fd, r)))"

subsection \<open>The client program\<close>

record opencli = proc +
  x_stdin :: string
  x_fd :: int      \<comment> \<open>the static descriptor of \<open>csopen\<close>\<close>

definition BUFFSIZE_CLI :: nat where "BUFFSIZE_CLI = 8192"

text \<open>\<open>line[strlen(line) - 1] = 0\<close>: the last character goes, whether or not it is a newline; \<open>None\<close> for an empty C string, where it is outside of the array.\<close>

definition chop :: "string \<Rightarrow> string option" where
  "chop line = (if cstr line = [] then None else Some (butlast (cstr line)))"

text \<open>The inner loop, which reads at least a byte per round.\<close>

fun cat_loop :: "nat \<Rightarrow> int \<Rightarrow> (unit, opencli) prog" where
  "cat_loop 0 fd = stop_with (Diverges ''cat'')"
| "cat_loop (Suc k) fd =
     bnd (sys_read fd BUFFSIZE_CLI) (\<lambda>r. case r of
       None \<Rightarrow> err_sys ''read error''
     | Some buf \<Rightarrow>
         if buf = [] then ret ()
         else bnd (sock_write 1 buf) (\<lambda>n.
              if n \<noteq> int (length buf) then err_sys ''write error'' else cat_loop k fd))"

definition cat_fd :: "int \<Rightarrow> (unit, opencli) prog" where
  "cat_fd fd = bnd (gets (\<lambda>s. Suc (length (fd_bytes s fd)))) (\<lambda>k. bnd (cat_loop k fd) (\<lambda>_. bnd (sys_close fd) (\<lambda>_. ret ())))"

text \<open>\<open>main\<close>, with the \<open>csopen\<close> that it is linked with; a round takes a line, so that it makes as many rounds as there are bytes at most.\<close>

fun open_cli_loop :: "(int \<Rightarrow> string \<Rightarrow> int \<Rightarrow> (int \<times> int, opencli) prog) \<Rightarrow> nat \<Rightarrow> (unit, opencli) prog" where
  "open_cli_loop cso 0 = stop_with (Diverges ''main'')"
| "open_cli_loop cso (Suc k) =
     bnd (gets x_stdin) (\<lambda>inp.
     if inp = [] then stop_with (Exit 0 [])
     else let l = take (MAXLINE - 1) (line_of inp) in
       bnd (modify (\<lambda>s. s\<lparr>x_stdin := drop (length l) inp\<rparr>)) (\<lambda>_.
       case chop l of
         None \<Rightarrow> stop_with (Undefined ''line[-1]'')
       | Some name \<Rightarrow>
           bnd (gets x_fd) (\<lambda>st.
           bnd (cso st name O_RDONLY) (\<lambda>(st', fd).
           bnd (modify (\<lambda>s. s\<lparr>x_fd := st'\<rparr>)) (\<lambda>_.
           if fd < 0 then open_cli_loop cso k
           else bnd (cat_fd fd) (\<lambda>_. open_cli_loop cso k))))))"

definition open_cli :: "(int \<Rightarrow> string \<Rightarrow> int \<Rightarrow> (int \<times> int, opencli) prog) \<Rightarrow> (unit, opencli) prog" where
  "open_cli cso = bnd (gets (\<lambda>s. Suc (length (x_stdin s)))) (open_cli_loop cso)"

subsection \<open>The main program of the daemon\<close>

text \<open>It is linked with one of the two loops; \<open>daemonize\<close> is \<open>daemon_init\<close>. The log that it opens first is not part of the state.\<close>

definition bad_option :: "opt list \<Rightarrow> char option" where
  "bad_option os = (case filter (\<lambda>p. case p of BadOpt _ \<Rightarrow> True | _ \<Rightarrow> False) os of BadOpt c # _ \<Rightarrow> Some c | _ \<Rightarrow> None)"

definition opend_main :: "string list \<Rightarrow> (unit, opend) prog \<Rightarrow> (unit, opend) prog \<Rightarrow> (unit, opend) prog" where
  "opend_main argv daemonize loop =
     (let os = fst (getopts ''d'' [] [] (tl argv)) in
      case bad_option os of
        Some c \<Rightarrow> err_quit (''unrecognized option: -'' @ [c])
      | None \<Rightarrow> bnd (if Opt (CHR ''d'') \<in> set os then ret () else daemonize) (\<lambda>_. loop))"

subsection \<open>The request and its answer\<close>

lemma csopen_ask_csopen:
  "csopen csfd name oflag =
     bnd (if csfd < 0
          then bnd (cli_conn CS_OPEN_CLI) (\<lambda>fd. if fd < 0 then err_sys ''cli_conn error'' else ret fd)
          else ret csfd) (\<lambda>fd. bnd (csopen_ask fd name oflag) (\<lambda>r. ret (fd, r)))"
  unfolding csopen_def csopen_ask_def by (rule arg_cong[where f = "bnd _"]) (auto simp: fun_eq_iff bnd_apply split: res.split)

text \<open>An answer of the server: an open file, or a message and a status that is not 0.\<close>

datatype served = Opened ofile | Denied string char

fun ans_pkt :: "served \<Rightarrow> pkt" where
  "ans_pkt (Opened f) = Pkt [NUL, NUL] (Some f)"
| "ans_pkt (Denied m c) = Pkt (m @ [NUL, c]) None"

fun ans_ok :: "served \<Rightarrow> bool" where
  "ans_ok (Opened f) \<longleftrightarrow> o_oflag f AND 3 \<noteq> O_WRONLY"
| "ans_ok (Denied m c) \<longleftrightarrow> NUL \<notin> set m \<and> length m + 2 \<le> MAXLINE \<and> c \<noteq> NUL"

text \<open>What the client prints for it, on its standard output and on its standard error.\<close>

fun ans_out :: "(string \<Rightarrow> string option) \<Rightarrow> served \<Rightarrow> string" where
  "ans_out files (Opened f) = drop (o_pos f) (case files (o_path f) of None \<Rightarrow> [] | Some c \<Rightarrow> c)"
| "ans_out files (Denied m c) = []"

fun ans_err :: "served \<Rightarrow> string" where
  "ans_err (Opened f) = []"
| "ans_err (Denied m c) = m"

lemma recv_opened:
  assumes "w_fds s fd \<noteq> None" "s_cmptr s" "s_in s fd = ans_pkt (Opened f) # ps" "new_fd s = Some d"
  shows "recv_fd fd u s = Ok d (s\<lparr>s_in := (s_in s)(fd := ps), w_fds := (w_fds s)(d \<mapsto> f)\<rparr>)"
  using assms by (auto simp: recv_fd_def cmptr_alloc_def recvmsg_def scan_trailer_def Let_def MAXLINE_def)

lemma recv_refused:
  assumes "w_fds s fd \<noteq> None" "s_cmptr s" "s_in s fd = ans_pkt (Denied m c) # ps" "ans_ok (Denied m c)"
    and "w_fds s 2 \<noteq> None" "s_wr s 2 = []"
  shows "\<exists>r q. recv_fd fd (sock_write 2) s = Ok r (s\<lparr>s_in := (s_in s)(fd := ps), s_out := (s_out s)(2 := s_out s 2 @ q)\<rparr>) \<and>
    r < 0 \<and> concat (map p_bytes q) = m"
proof -
  let ?t = "s\<lparr>s_in := (s_in s)(fd := ps)\<rparr>"
  define q where "q = (if m = [] then [] else [Pkt m None])"
  have st: "0 < (of_char c :: nat)" using of_char_eq_iff[of c NUL, where 'a = nat] assms(4) by simp
  have "recvmsg fd MAXLINE s = Ok (Some (m @ [NUL, c], None)) ?t"
    using assms(1,3,4) by (auto simp: recvmsg_def Let_def)
  moreover have "cmptr_alloc s = Ok True s" using assms(2) by (simp add: cmptr_alloc_def)
  moreover have "scan_trailer (m @ [NUL, c]) = Trailer m (of_char c)" using assms(4) by (intro scan_trailer_at) simp
  moreover have "sock_write 2 m ?t = Ok (int (length m)) (sock_put 2 (Pkt m None) ?t)" if "m \<noteq> []"
    using assms(5,6) that by (auto simp: sock_write_def)
  ultimately have "recv_fd fd (sock_write 2) s =
      Ok (- int (of_char c)) (s\<lparr>s_in := (s_in s)(fd := ps), s_out := (s_out s)(2 := s_out s 2 @ q)\<rparr>)"
    using st by (cases "m = []") (simp_all add: recv_fd_def sock_put_def q_def)
  moreover have "concat (map p_bytes q) = m" by (simp add: q_def)
  ultimately show ?thesis using st by (intro exI[of _ "- int (of_char c)"] exI[of _ q]) simp
qed

lemma fmt_rdonly: "length (fmt_d O_RDONLY) + 2 \<le> 10"
  by (simp add: O_RDONLY_def fmt_d_def dec.simps)

lemma csopen_ask_run:
  assumes "w_fds s fd \<noteq> None" "s_wr s fd = []"
  shows "csopen_ask fd name O_RDONLY s = recv_fd fd (sock_write 2) (sock_put fd (Pkt (csopen_request name O_RDONLY) None) s)"
proof -
  have "csopen_request name O_RDONLY \<noteq> []" by (simp add: csopen_request_def)
  then have "sock_write fd (csopen_request name O_RDONLY) s =
      Ok (int (length (csopen_request name O_RDONLY))) (sock_put fd (Pkt (csopen_request name O_RDONLY) None) s)"
    using assms by (auto simp: sock_write_def)
  then show ?thesis using fmt_rdonly by (simp add: csopen_ask_def)
qed

subsection \<open>Copying a file\<close>

lemma cat_loop_run:
  assumes "w_fds s 1 \<noteq> None" "d \<noteq> 1" "s_wr s 1 = []" "o_oflag f AND 3 \<noteq> O_WRONLY"
    and "length (drop p (file_bytes s (o_path f))) < k"
  shows "\<exists>p' q. cat_loop k d (s\<lparr>w_fds := (w_fds s)(d \<mapsto> f\<lparr>o_pos := p\<rparr>), s_out := (s_out s)(1 := o1)\<rparr>) =
      Ok () (s\<lparr>w_fds := (w_fds s)(d \<mapsto> f\<lparr>o_pos := p'\<rparr>), s_out := (s_out s)(1 := o1 @ q)\<rparr>) \<and>
    concat (map p_bytes q) = drop p (file_bytes s (o_path f))"
  using assms(5)
proof (induction k arbitrary: p o1)
  case (Suc k)
  let ?c = "file_bytes s (o_path f)"
  define st where "st = (\<lambda>p q. s\<lparr>w_fds := (w_fds s)(d \<mapsto> f\<lparr>o_pos := p\<rparr>), s_out := (s_out s)(1 := q)\<rparr>)"
  define b where "b = slice ?c p BUFFSIZE_CLI"
  have b: "b = take BUFFSIZE_CLI (drop p ?c)" by (simp add: b_def slice_def)
  have rd: "sys_read d BUFFSIZE_CLI (st p o1) = Ok (Some b) (st (p + length b) o1)"
    using assms(4) by (simp add: st_def sys_read_def Let_def fd_bytes_def fd_path_def b_def set_pos_def file_bytes_def)
  have "\<exists>p' q. cat_loop (Suc k) d (st p o1) = Ok () (st p' (o1 @ q)) \<and> concat (map p_bytes q) = drop p ?c"
  proof (cases "b = []")
    case True
    then have "drop p ?c = []" by (simp add: b BUFFSIZE_CLI_def)
    then show ?thesis using rd True by (intro exI[of _ p] exI[of _ "[]"]) simp
  next
    case False
    have w: "sock_write 1 b (st (p + length b) o1) = Ok (int (length b)) (st (p + length b) (o1 @ [Pkt b None]))"
      using assms(1,2,3) False by (auto simp: st_def sock_write_def sock_put_def)
    have "p < length ?c" "0 < length b" using False b by auto
    then have "length (drop (p + length b) ?c) < k" using Suc.prems by (simp only: length_drop)
    then obtain p' q where q: "cat_loop k d (st (p + length b) (o1 @ [Pkt b None])) = Ok () (st p' ((o1 @ [Pkt b None]) @ q))"
        "concat (map p_bytes q) = drop (p + length b) ?c"
      using Suc.IH unfolding st_def by blast
    have "b @ drop (length b) (drop p ?c) = drop p ?c" unfolding b by (rule take_length_drop)
    then have "concat (map p_bytes (Pkt b None # q)) = drop p ?c" using q(2) by (simp add: add.commute)
    then show ?thesis using rd w q(1) False by (intro exI[of _ p'] exI[of _ "Pkt b None # q"]) simp
  qed
  then show ?case unfolding st_def .
qed simp

lemma cat_fd_run:
  assumes "w_fds s 1 \<noteq> None" "d \<noteq> 1" "s_wr s 1 = []" "o_oflag f AND 3 \<noteq> O_WRONLY" "w_fds s d = Some f"
  shows "\<exists>q L. cat_fd d s = Ok () (s\<lparr>w_fds := (w_fds s)(d := None), s_out := (s_out s)(1 := s_out s 1 @ q), w_locks := L\<rparr>) \<and>
    concat (map p_bytes q) = ans_out (w_files s) (Opened f)"
proof -
  let ?k = "Suc (length (fd_bytes s d))"
  have "fd_bytes s d = file_bytes s (o_path f)" using assms(5) by (simp add: fd_bytes_def fd_path_def)
  then have "length (drop (o_pos f) (file_bytes s (o_path f))) < ?k" by simp
  moreover have "s\<lparr>w_fds := (w_fds s)(d \<mapsto> f\<lparr>o_pos := o_pos f\<rparr>), s_out := (s_out s)(1 := s_out s 1)\<rparr> = s"
    using assms(5) by (simp add: fun_upd_idem)
  ultimately obtain p' q where q: "cat_loop ?k d s = Ok () (s\<lparr>w_fds := (w_fds s)(d \<mapsto> f\<lparr>o_pos := p'\<rparr>), s_out := (s_out s)(1 := s_out s 1 @ q)\<rparr>)"
      "concat (map p_bytes q) = drop (o_pos f) (file_bytes s (o_path f))"
    using cat_loop_run[OF assms(1-4), of "o_pos f" ?k "s_out s 1"] by auto
  let ?t = "s\<lparr>w_fds := (w_fds s)(d := None), s_out := (s_out s)(1 := s_out s 1 @ q), w_locks := (w_locks s)(o_path f := (\<lambda>_. None))\<rparr>"
  have "sys_close d (s\<lparr>w_fds := (w_fds s)(d \<mapsto> f\<lparr>o_pos := p'\<rparr>), s_out := (s_out s)(1 := s_out s 1 @ q)\<rparr>) = Ok 0 ?t"
    by (simp add: sys_close_def)
  then have "cat_fd d s = Ok () ?t" using q(1) by (simp add: cat_fd_def)
  moreover have "ans_out (w_files s) (Opened f) = drop (o_pos f) (file_bytes s (o_path f))" by (simp add: file_bytes_def)
  ultimately show ?thesis using q(2) by (intro exI[of _ q] exI) simp
qed

subsection \<open>One line of input\<close>

text \<open>What \<open>main\<close> does with a name after it has read it.\<close>

definition cat_named :: "nat \<Rightarrow> (int \<Rightarrow> string \<Rightarrow> int \<Rightarrow> (int \<times> int, opencli) prog) \<Rightarrow> int \<times> int \<Rightarrow> (unit, opencli) prog" where
  "cat_named k cso = (\<lambda>(st', fd). bnd (modify (\<lambda>s. s\<lparr>x_fd := st'\<rparr>)) (\<lambda>_.
     if fd < 0 then open_cli_loop cso k else bnd (cat_fd fd) (\<lambda>_. open_cli_loop cso k)))"

definition name_ok :: "string \<Rightarrow> bool" where
  "name_ok n \<longleftrightarrow> NUL \<notin> set n \<and> line_ok (n @ [NL])"

lemma chop_line: "NUL \<notin> set n \<Longrightarrow> chop (n @ [NL]) = Some n"
  by (subst chop_def, subst (1 2) cstr_id) (auto simp: is_cstr_def)

lemma open_cli_line:
  assumes "x_stdin s = (n @ [NL]) @ rest" and "name_ok n"
  shows "open_cli_loop cso (Suc k) s = bnd (cso (x_fd s) n O_RDONLY) (cat_named k cso) (s\<lparr>x_stdin := rest\<rparr>)"
proof -
  have l: "line_of (x_stdin s) = n @ [NL]" unfolding assms(1) using assms(2) by (intro line_of_line) (simp add: name_ok_def)
  have t: "take (MAXLINE - 1) (n @ [NL]) = n @ [NL]" using assms(2) by (intro take_all) (simp only: name_ok_def line_ok_def, arith)
  have "x_stdin s \<noteq> []" "drop (length (n @ [NL])) (x_stdin s) = rest" using assms(1) by simp_all
  then show ?thesis
    using assms(2) l t by (simp add: chop_line name_ok_def Let_def cat_named_def case_prod_unfold)
qed

text \<open>
  The client is connected to \<open>srv\<close>, its input names files, one per line, and the server will answer as \<open>qs\<close> says; \<open>srv\<close>
  sends whole answers, so that each comes in a piece of its own.
\<close>

definition cli_inv :: "int \<Rightarrow> (string \<times> served) list \<Rightarrow> opencli \<Rightarrow> bool" where
  "cli_inv srv qs s \<longleftrightarrow> 2 < srv \<and> w_fds s srv \<noteq> None \<and> w_fds s 1 \<noteq> None \<and> w_fds s 2 \<noteq> None \<and> s_wr s = (\<lambda>_. []) \<and> s_cmptr s \<and>
     new_fd s \<noteq> None \<and> s_in s srv = map (ans_pkt \<circ> snd) qs \<and> (\<forall>(n, a)\<in>set qs. name_ok n \<and> ans_ok a)"

definition cli_sent :: "int \<Rightarrow> (string \<times> served) list \<Rightarrow> opencli \<Rightarrow> opencli \<Rightarrow> bool" where
  "cli_sent srv qs s t \<longleftrightarrow> sent t 1 = sent s 1 @ concat (map (ans_out (w_files s) \<circ> snd) qs) \<and>
     sent t 2 = sent s 2 @ concat (map (ans_err \<circ> snd) qs) \<and>
     s_out t srv = s_out s srv @ map (\<lambda>(n, a). Pkt (csopen_request n O_RDONLY) None) qs \<and>
     w_files t = w_files s \<and> p_kids t = p_kids s \<and> w_fds t = w_fds s"

lemma cli_sent_refl: "cli_sent srv [] s s"
  by (simp add: cli_sent_def)

lemma cli_sent_trans: "cli_sent srv qs s t \<Longrightarrow> cli_sent srv rs t u \<Longrightarrow> cli_sent srv (qs @ rs) s u"
  by (simp add: cli_sent_def)

lemma new_fd_cong: "w_fds s = w_fds t \<Longrightarrow> w_maxfd s = w_maxfd t \<Longrightarrow> new_fd s = new_fd t"
  by (simp add: new_fd_def)

lemma open_cli_answer:
  assumes "cli_inv srv ((n, a) # qs) s"
  shows "\<exists>t. bnd (bnd (csopen_ask srv n O_RDONLY) (\<lambda>r. ret (srv, r))) (cat_named k cso) s = open_cli_loop cso k t \<and>
    cli_inv srv qs t \<and> cli_sent srv [(n, a)] s t \<and> x_stdin t = x_stdin s \<and> x_fd t = srv"
proof -
  let ?s = "sock_put srv (Pkt (csopen_request n O_RDONLY) None) s"
  have I: "w_fds s srv \<noteq> None" "s_wr s srv = []" "w_fds ?s srv \<noteq> None" "s_cmptr ?s" "w_fds ?s 1 \<noteq> None" "w_fds ?s 2 \<noteq> None"
      "s_wr ?s 2 = []" "ans_ok a" "s_in ?s srv = ans_pkt a # map (ans_pkt \<circ> snd) qs" "srv \<noteq> 1" "srv \<noteq> 2"
    using assms by (auto simp: cli_inv_def sock_put_def)
  obtain d where d: "new_fd s = Some d" using assms by (auto simp: cli_inv_def)
  have ask: "csopen_ask srv n O_RDONLY s = recv_fd srv (sock_write 2) ?s" by (rule csopen_ask_run[OF I(1,2)])
  show ?thesis
  proof (cases a)
    case (Opened f)
    define t where "t = ?s\<lparr>s_in := (s_in s)(srv := map (ans_pkt \<circ> snd) qs), w_fds := (w_fds s)(d \<mapsto> f), x_fd := srv\<rparr>"
    have d0: "0 \<le> d" "w_fds s d = None" "d \<noteq> 1" "d \<noteq> srv" using new_fd_free[OF d] assms by (auto simp: cli_inv_def)
    have "recv_fd srv (sock_write 2) ?s = Ok d (?s\<lparr>s_in := (s_in ?s)(srv := map (ans_pkt \<circ> snd) qs), w_fds := (w_fds ?s)(d \<mapsto> f)\<rparr>)"
      using I d Opened new_fd_cong[of ?s s] by (intro recv_opened) (auto simp: sock_put_def)
    then have r: "bnd (bnd (csopen_ask srv n O_RDONLY) (\<lambda>r. ret (srv, r))) (cat_named k cso) s = bnd (cat_fd d) (\<lambda>_. open_cli_loop cso k) t"
      using ask d0 by (simp add: cat_named_def t_def sock_put_def)
    obtain q L where q: "cat_fd d t = Ok () (t\<lparr>w_fds := (w_fds t)(d := None), s_out := (s_out t)(1 := s_out t 1 @ q), w_locks := L\<rparr>)"
        "concat (map p_bytes q) = ans_out (w_files t) (Opened f)"
      using cat_fd_run[of t d f] assms d0 I(8) Opened by (auto simp: cli_inv_def t_def sock_put_def)
    define u where "u = t\<lparr>w_fds := (w_fds t)(d := None), s_out := (s_out t)(1 := s_out t 1 @ q), w_locks := L\<rparr>"
    have wf: "w_fds u = w_fds s" using d0 by (auto simp: u_def t_def fun_eq_iff)
    have "cli_inv srv qs u" using assms wf new_fd_cong[of u s] by (auto simp: cli_inv_def u_def t_def sock_put_def)
    moreover have "cli_sent srv [(n, a)] s u"
      using q(2) wf I(10,11) Opened by (simp add: cli_sent_def u_def t_def sock_put_def)
    ultimately show ?thesis using r q(1) by (intro exI[of _ u]) (simp add: u_def t_def sock_put_def)
  next
    case (Denied m c)
    obtain r q where q: "recv_fd srv (sock_write 2) ?s = Ok r (?s\<lparr>s_in := (s_in ?s)(srv := map (ans_pkt \<circ> snd) qs), s_out := (s_out ?s)(2 := s_out ?s 2 @ q)\<rparr>)"
        "r < 0" "concat (map p_bytes q) = m"
      using recv_refused[of ?s srv m c "map (ans_pkt \<circ> snd) qs"] I Denied by blast
    define u where "u = ?s\<lparr>s_in := (s_in ?s)(srv := map (ans_pkt \<circ> snd) qs), s_out := (s_out ?s)(2 := s_out ?s 2 @ q), x_fd := srv\<rparr>"
    have "cli_inv srv qs u" using assms new_fd_cong[of u s] by (auto simp: cli_inv_def u_def sock_put_def)
    moreover have "cli_sent srv [(n, a)] s u"
      using q(3) I(10,11) Denied by (simp add: cli_sent_def u_def sock_put_def)
    ultimately show ?thesis using ask q(1,2) by (intro exI[of _ u]) (simp add: cat_named_def u_def sock_put_def)
  qed
qed

lemma open_cli_rounds:
  assumes "cli_inv srv qs s" and "x_fd s = srv" and "x_stdin s = concat (map (\<lambda>(n, a). n @ [NL]) qs)" and "length (x_stdin s) < k"
    and cso: "\<And>name oflag. cso srv name oflag = bnd (csopen_ask srv name oflag) (\<lambda>r. ret (srv, r))"
  shows "\<exists>t. open_cli_loop cso k s = Halt (Exit 0 []) t \<and> cli_sent srv qs s t"
  using assms(1-4)
proof (induction qs arbitrary: s k)
  case Nil
  then obtain j where "k = Suc j" by (cases k) auto
  then show ?case using Nil.prems by (intro exI[of _ s]) (simp add: cli_sent_refl)
next
  case (Cons q qs)
  obtain n a where q: "q = (n, a)" by (cases q)
  obtain j where k: "k = Suc j" using Cons.prems(4) by (cases k) auto
  let ?rest = "concat (map (\<lambda>(n, a). n @ [NL]) qs)"
  have ok: "name_ok n" using Cons.prems(1) q by (simp add: cli_inv_def)
  have in': "x_stdin s = (n @ [NL]) @ ?rest" using Cons.prems(3) q by simp
  have "cli_inv srv ((n, a) # qs) (s\<lparr>x_stdin := ?rest\<rparr>)"
    using Cons.prems(1) q new_fd_cong[of "s\<lparr>x_stdin := ?rest\<rparr>" s] by (simp add: cli_inv_def)
  then obtain t where t: "bnd (bnd (csopen_ask srv n O_RDONLY) (\<lambda>r. ret (srv, r))) (cat_named j cso) (s\<lparr>x_stdin := ?rest\<rparr>) = open_cli_loop cso j t"
      "cli_inv srv qs t" "cli_sent srv [(n, a)] (s\<lparr>x_stdin := ?rest\<rparr>) t" "x_stdin t = ?rest" "x_fd t = srv"
    using open_cli_answer[of srv n a qs "s\<lparr>x_stdin := ?rest\<rparr>" j cso] by auto
  have run: "open_cli_loop cso k s = open_cli_loop cso j t"
    unfolding k open_cli_line[OF in' ok] Cons.prems(2) cso t(1) ..
  have "length (x_stdin t) < j" using Cons.prems(4) in' k t(4) by simp
  then obtain u where u: "open_cli_loop cso j t = Halt (Exit 0 []) u" "cli_sent srv qs t u" using Cons.IH[OF t(2,5,4)] by blast
  have "cli_sent srv [(n, a)] s t" using t(3) by (simp add: cli_sent_def)
  then have "cli_sent srv (q # qs) s u" using cli_sent_trans[OF _ u(2)] q by fastforce
  then show ?case using run u(1) by auto
qed

text \<open>The first \<open>csopen\<close> of \<^verbatim>\<open>open.c\<close> makes the stream pipe and starts the server.\<close>

lemma csopen_fork_next: "0 \<le> srv \<Longrightarrow> csopen_fork srv name oflag = bnd (csopen_ask srv name oflag) (\<lambda>r. ret (srv, r))"
  by (auto simp: csopen_fork_def fun_eq_iff bnd_apply split: res.split)

lemma csopen_fork_first:
  assumes "free_fds s = i # j # is" and "w_fds s 0 \<noteq> None" "w_fds s 1 \<noteq> None"
    and "p_pids s = p # ps" "0 < p" and "p_progs s (resolve (p_cwd s) ''./opend'')" and "fd0 < 0"
  shows "\<exists>kd. csopen_fork fd0 name oflag s = bnd (csopen_ask (int i) name oflag) (\<lambda>r. ret (int i, r))
      (s\<lparr>w_fds := (w_fds s)(int i \<mapsto> spipe_end s '':0''), p_npipe := Suc (p_npipe s), p_pids := ps, p_kids := p_kids s @ [kd],
        w_locks := (w_locks s)(o_path (spipe_end s '':1'') := (\<lambda>_. None))\<rparr>) \<and>
    kd_image kd = Exec (resolve (p_cwd s) ''./opend'') [''opend''] \<and>
    kd_fds kd = (w_fds s)(0 \<mapsto> spipe_end s '':1'', 1 \<mapsto> spipe_end s '':1'', int j \<mapsto> spipe_end s '':1'')"
  using spipe_fork_run[OF assms(1-6), of "err_sys ''s_pipe error''" "[''opend'']" "err_sys ''fork error''" "\<lambda>fd. ret (fst fd)"] assms(7)
  by (auto simp: csopen_fork_def opend_child_def bnd_apply)

lemma recv_fd_alloc:
  assumes "\<not> s_cmptr s" "sizeof_cmsg \<le> w_mem s"
  shows "recv_fd fd u s = recv_fd fd u (s\<lparr>w_mem := w_mem s - sizeof_cmsg, s_cmptr := True\<rparr>)"
  using assms by (simp add: recv_fd_def cmptr_alloc_def sys_malloc_def bnd_apply)

lemma csopen_ask_alloc:
  assumes "w_fds s fd \<noteq> None" "s_wr s fd = []" "\<not> s_cmptr s" "sizeof_cmsg \<le> w_mem s"
  shows "csopen_ask fd name O_RDONLY s = csopen_ask fd name O_RDONLY (s\<lparr>w_mem := w_mem s - sizeof_cmsg, s_cmptr := True\<rparr>)"
proof -
  let ?p = "Pkt (csopen_request name O_RDONLY) None"
  have c: "sock_put fd ?p (s\<lparr>w_mem := w_mem s - sizeof_cmsg, s_cmptr := True\<rparr>) =
      (sock_put fd ?p s)\<lparr>w_mem := w_mem (sock_put fd ?p s) - sizeof_cmsg, s_cmptr := True\<rparr>"
    by (cases s) (simp add: sock_put_def)
  have "csopen_ask fd name O_RDONLY (s\<lparr>w_mem := w_mem s - sizeof_cmsg, s_cmptr := True\<rparr>) =
      recv_fd fd (sock_write 2) (sock_put fd ?p (s\<lparr>w_mem := w_mem s - sizeof_cmsg, s_cmptr := True\<rparr>))"
    using assms(1,2) by (intro csopen_ask_run) simp_all
  also have "\<dots> = recv_fd fd (sock_write 2) (sock_put fd ?p s)"
    unfolding c using assms(3,4) by (intro recv_fd_alloc[symmetric]) (simp_all add: sock_put_def)
  finally show ?thesis using csopen_ask_run[OF assms(1,2)] by simp
qed

subsection \<open>The main program and the server\<close>

text \<open>\<open>optopt\<close> of the first option that is not \<open>-d\<close> goes into the message; \<open>-d\<close> keeps the server in the foreground.\<close>

lemma opend_main_cases:
  "opend_main argv daemonize loop = (case bad_option (fst (getopts ''d'' [] [] (tl argv))) of
     Some c \<Rightarrow> err_quit (''unrecognized option: -'' @ [c])
   | None \<Rightarrow> if Opt (CHR ''d'') \<in> set (fst (getopts ''d'' [] [] (tl argv))) then loop else bnd daemonize (\<lambda>_. loop))"
  by (auto simp: opend_main_def Let_def fun_eq_iff bnd_apply split: option.split)

lemma opend_main_options:
  "opend_main [''opend''] dm lp = bnd dm (\<lambda>_. lp)"
  "opend_main [''opend'', ''-d''] dm lp = lp"
  "opend_main [''opend'', ''-dx''] dm lp = err_quit ''unrecognized option: -x''"
  by (simp_all add: opend_main_cases bad_option_def getopts.simps)

text \<open>A last line without a newline loses its last character, and the server is asked for another file.\<close>

lemma chop_without_newline: "NUL \<notin> set n \<Longrightarrow> n \<noteq> [] \<Longrightarrow> chop n = Some (butlast n)"
  by (simp add: chop_def is_cstr_def)

subsection \<open>Properties\<close>

text \<open>
  C16. \<^verbatim>\<open>open-cli\<close> with the \<open>csopen\<close> that starts its own server: for an input of lines that name files it makes one stream
  pipe and one child, which executes \<open>./opend\<close> with its end of the pipe as standard input and output; it sends one
  request per name, copies the contents of each file whose descriptor comes back to its standard output, and the server's
  message for each that is refused to its standard error, in the order of the names; all descriptors it received are closed
  again, and it exits with status 0.
\<close>

theorem open_cli_cats:
  assumes "free_fds s = i # j # is" and "w_fds s 0 \<noteq> None" "w_fds s 1 \<noteq> None" "w_fds s 2 \<noteq> None"
    and "p_pids s = p # ps" "0 < p" and "p_progs s (resolve (p_cwd s) ''./opend'')"
    and "s_wr s = (\<lambda>_. [])" and "s_cmptr s \<or> sizeof_cmsg \<le> w_mem s"
    and "qs \<noteq> []" and "\<forall>(n, a)\<in>set qs. name_ok n \<and> ans_ok a" and "s_in s (int i) = map (ans_pkt \<circ> snd) qs"
    and "x_fd s = -1" and "x_stdin s = concat (map (\<lambda>(n, a). n @ [NL]) qs)"
  shows "\<exists>t kd. open_cli csopen_fork s = Halt (Exit 0 []) t \<and>
    sent t 1 = sent s 1 @ concat (map (ans_out (w_files s) \<circ> snd) qs) \<and>
    sent t 2 = sent s 2 @ concat (map (ans_err \<circ> snd) qs) \<and>
    s_out t (int i) = s_out s (int i) @ map (\<lambda>(n, a). Pkt (csopen_request n O_RDONLY) None) qs \<and>
    w_fds t = (w_fds s)(int i \<mapsto> spipe_end s '':0'') \<and>
    p_kids t = p_kids s @ [kd] \<and> kd_image kd = Exec (resolve (p_cwd s) ''./opend'') [''opend''] \<and>
    kd_fds kd 0 = Some (spipe_end s '':1'') \<and> kd_fds kd 1 = Some (spipe_end s '':1'')"
proof -
  obtain n a qs' where q: "qs = (n, a) # qs'" using assms(10) by (cases qs) auto
  let ?rest = "concat (map (\<lambda>(n, a). n @ [NL]) qs')"
  have ok: "name_ok n" using assms(11) q by simp
  have in': "x_stdin s = (n @ [NL]) @ ?rest" using assms(14) q by simp
  define s1 where "s1 = s\<lparr>x_stdin := ?rest\<rparr>"
  have N: "int m \<noteq> 0 \<and> int m \<noteq> 1 \<and> int m \<noteq> 2" if "m \<in> set (free_fds s)" for m
    using free_fds_in[OF that] assms(2-4) by metis
  have D: "i \<noteq> j" "int j \<noteq> 0" "int j \<noteq> 1" "int j \<noteq> 2" "int i \<noteq> 0" "int i \<noteq> 1" "int i \<noteq> 2" "2 < int i"
    using free_fds_distinct[of s] N[of i] N[of j] assms(1) by auto
  have s1: "free_fds s1 = i # j # is" "w_fds s1 0 \<noteq> None" "w_fds s1 1 \<noteq> None" "p_pids s1 = p # ps"
      "p_progs s1 (resolve (p_cwd s1) ''./opend'')" "spipe_end s1 = spipe_end s"
    using assms(1-7) by (simp_all add: s1_def free_fds_def spipe_end_def fun_eq_iff)
  obtain kd where kd: "csopen_fork (-1) n O_RDONLY s1 = bnd (csopen_ask (int i) n O_RDONLY) (\<lambda>r. ret (int i, r))
        (s1\<lparr>w_fds := (w_fds s1)(int i \<mapsto> spipe_end s1 '':0''), p_npipe := Suc (p_npipe s1), p_pids := ps, p_kids := p_kids s1 @ [kd],
          w_locks := (w_locks s1)(o_path (spipe_end s1 '':1'') := (\<lambda>_. None))\<rparr>)" (is "_ = bnd _ _ ?s2")
      "kd_image kd = Exec (resolve (p_cwd s1) ''./opend'') [''opend'']"
      "kd_fds kd = (w_fds s1)(0 \<mapsto> spipe_end s1 '':1'', 1 \<mapsto> spipe_end s1 '':1'', int j \<mapsto> spipe_end s1 '':1'')"
    using csopen_fork_first[OF s1(1,2,3,4) assms(6) s1(5), of "-1" n O_RDONLY] by auto
  define s3 where "s3 = (if s_cmptr s then ?s2 else ?s2\<lparr>w_mem := w_mem s - sizeof_cmsg, s_cmptr := True\<rparr>)"
  have ask: "csopen_ask (int i) n O_RDONLY ?s2 = csopen_ask (int i) n O_RDONLY s3"
    using csopen_ask_alloc[of ?s2 "int i" n] assms(8,9) by (auto simp: s3_def s1_def)
  have sel: "w_fds s3 = (w_fds s)(int i \<mapsto> spipe_end s '':0'')" "s_wr s3 = (\<lambda>_. [])" "s_cmptr s3" "w_maxfd s3 = w_maxfd s"
      "s_in s3 = s_in s" "s_out s3 = s_out s" "w_files s3 = w_files s" "p_kids s3 = p_kids s @ [kd]" "x_stdin s3 = ?rest"
    using assms(8) s1(6) by (simp_all add: s3_def s1_def)
  have "new_fd s3 = new_fd (s\<lparr>w_fds := (w_fds s)(int i \<mapsto> spipe_end s '':0'')\<rparr>)" using sel by (simp add: new_fd_def)
  also have "\<dots> = Some (int j)" by (rule new_fd_first, rule free_fds_taken[OF assms(1)])
  finally have inv: "cli_inv (int i) ((n, a) # qs') s3"
    using sel D assms(2-4,11,12) q by (auto simp: cli_inv_def)
  let ?k = "length (x_stdin s)"
  obtain u where u: "bnd (bnd (csopen_ask (int i) n O_RDONLY) (\<lambda>r. ret (int i, r))) (cat_named ?k csopen_fork) s3 = open_cli_loop csopen_fork ?k u"
      "cli_inv (int i) qs' u" "cli_sent (int i) [(n, a)] s3 u" "x_stdin u = ?rest" "x_fd u = int i"
    using open_cli_answer[OF inv, of ?k csopen_fork] sel(9) by auto
  have lt: "length (x_stdin u) < ?k" using u(4) in' by simp
  obtain t where t: "open_cli_loop csopen_fork ?k u = Halt (Exit 0 []) t" "cli_sent (int i) qs' u t"
    using open_cli_rounds[of "int i" qs' u ?k csopen_fork, OF u(2,5,4) lt csopen_fork_next] by auto
  have "open_cli csopen_fork s = bnd (csopen_fork (-1) n O_RDONLY) (cat_named ?k csopen_fork) s1"
    using open_cli_line[OF in' ok, of csopen_fork ?k] assms(13) by (simp add: open_cli_def s1_def)
  also have "\<dots> = Halt (Exit 0 []) t" using u(1) t(1) kd(1) ask by (simp add: bnd_apply)
  finally have run: "open_cli csopen_fork s = Halt (Exit 0 []) t" .
  have "cli_sent (int i) qs s3 t" using cli_sent_trans[OF u(3) t(2)] q by simp
  then show ?thesis using run sel kd(2,3) s1(6) D unfolding cli_sent_def by (intro exI[of _ t] exI[of _ kd]) (simp add: s1_def)
qed

definition opencli0 :: opencli where
  "opencli0 = proc.extend (proc0\<lparr>w_files := [''motd'' \<mapsto> ''hello''], p_progs := (\<lambda>_. True),
     s_in := (\<lambda>_. [])(3 := [ans_pkt (Opened \<lparr>o_path = ''motd'', o_pos = 0, o_oflag = 0\<rparr>), ans_pkt (Denied ''no'' (CHR 0x01))])\<rparr>)
     \<lparr>x_stdin = ''motd'' @ [NL] @ ''shadow'' @ [NL], x_fd = -1\<rparr>"

theorem open_cli_cats_witness:
  "\<exists>t kd. open_cli csopen_fork opencli0 = Halt (Exit 0 []) t \<and> sent t 1 = ''hello'' \<and> sent t 2 = ''no'' \<and>
     kd_image kd = Exec ''/home/./opend'' [''opend''] \<and> p_kids t = [kd]"
proof -
  let ?qs = "[(''motd'', Opened \<lparr>o_path = ''motd'', o_pos = 0, o_oflag = 0\<rparr>), (''shadow'', Denied ''no'' (CHR 0x01))]"
  have sel: "w_fds opencli0 = [0 \<mapsto> a_file ''/dev/tty1'', 1 \<mapsto> a_file ''/dev/tty1'', 2 \<mapsto> a_file ''/dev/tty1'']" "w_maxfd opencli0 = 20"
      "p_pids opencli0 = [50, 51]" "p_progs opencli0 = (\<lambda>_. True)" "s_wr opencli0 = (\<lambda>_. [])" "w_mem opencli0 = 100000"
      "s_in opencli0 3 = map (ans_pkt \<circ> snd) ?qs" "x_fd opencli0 = -1" "x_stdin opencli0 = concat (map (\<lambda>(n, a). n @ [NL]) ?qs)"
      "s_out opencli0 = (\<lambda>_. [])" "w_files opencli0 = [''motd'' \<mapsto> ''hello'']" "p_kids opencli0 = []" "p_cwd opencli0 = p_cwd proc0"
    by (simp_all add: opencli0_def proc0_def proc.defs)
  have fr: "\<exists>rs. free_fds opencli0 = 3 # 4 # rs" by (simp add: free_fds_def sel upt_rec[of 0] upt_rec[of "Suc _"])
  have ok: "\<forall>(n, a)\<in>set ?qs. name_ok n \<and> ans_ok a" by (simp add: name_ok_def line_ok_def MAXLINE_def O_WRONLY_def)
  show ?thesis
    using fr open_cli_cats[of opencli0 3 4 _ 50 "[51]" ?qs] ok by (auto simp: sel sizeof_cmsg_def resolve_def proc0_def)
qed

end
