(* ===== verification/Desc_Systems.thy ===== *)
theory Desc_Systems
  imports Sock_Props
begin

text \<open>
  Passing of descriptors on the two other systems: \<^verbatim>\<open>proc_com_svr4.c\<close> (System V, over streams) and
  \<^verbatim>\<open>proc_com_43bds.c\<close> (4.3BSD, with access rights in the message header), and the contract that they share with
  \<^verbatim>\<open>proc_com_43pbds.c\<close>.

  On a stream a passed file is a message of its own, here \<open>Pkt [] (Some f)\<close>; all others carry data only.
\<close>

subsection \<open>System V\<close>

text \<open>\<open>getmsg\<close> without a control part; the rest of a message that is too long stays.\<close>

definition getmsg :: "int \<Rightarrow> nat \<Rightarrow> (string option, 'a sock_scheme) prog" where
  "getmsg fd n = (\<lambda>s.
     if w_fds s fd = None then Ok None (s\<lparr>w_errno := EBADF\<rparr>)
     else (case s_in s fd of
         [] \<Rightarrow> if s_hup s fd then Ok (Some []) s else Halt (Blocked ''getmsg'') s
       | p # ps \<Rightarrow>
           if p_file p \<noteq> None then Ok None (s\<lparr>w_errno := EBADMSG\<rparr>)
           else Ok (Some (take n (p_bytes p)))
              (s\<lparr>s_in := (s_in s)(fd := (if length (p_bytes p) \<le> n then ps else Pkt (drop n (p_bytes p)) None # ps))\<rparr>)))"

definition I_SENDFD :: "int \<Rightarrow> int \<Rightarrow> (int, 'a sock_scheme) prog" where
  "I_SENDFD fd d = (\<lambda>s. case w_fds s d of
     None \<Rightarrow> fail EBADF s
   | Some f \<Rightarrow> if w_fds s fd = None then fail EBADF s else Ok 0 (sock_put fd (Pkt [] (Some f)) s))"

definition I_RECVFD :: "int \<Rightarrow> (int option, 'a sock_scheme) prog" where
  "I_RECVFD fd = (\<lambda>s.
     if w_fds s fd = None then Ok None (s\<lparr>w_errno := EBADF\<rparr>)
     else (case s_in s fd of
         [] \<Rightarrow> if s_hup s fd then Ok None (s\<lparr>w_errno := ENXIO\<rparr>) else Halt (Blocked ''I_RECVFD'') s
       | p # ps \<Rightarrow> (case (p_file p, new_fd s) of
           (None, _) \<Rightarrow> Ok None (s\<lparr>w_errno := EBADMSG\<rparr>)
         | (Some f, None) \<Rightarrow> Ok None (s\<lparr>w_errno := EMFILE\<rparr>)
         | (Some f, Some d) \<Rightarrow> Ok (Some d) (s\<lparr>s_in := (s_in s)(fd := ps), w_fds := (w_fds s)(d \<mapsto> f)\<rparr>))))"

text \<open>The status byte, which both systems compute alike.\<close>

definition status_byte :: "int \<Rightarrow> char" where
  "status_byte fd = (if fd < 0 then (let b = to_char (- fd) in if b = NUL then CHR 0x01 else b) else NUL)"

definition svr4_send_fd :: "int \<Rightarrow> int \<Rightarrow> (int, 'a sock_scheme) prog" where
  "svr4_send_fd clifd fd =
     bnd (sock_write clifd [NUL, status_byte fd]) (\<lambda>r.
     if r \<noteq> 2 then ret (-1)
     else if fd \<ge> 0 then bnd (I_SENDFD clifd fd) (\<lambda>r. if r < 0 then ret (-1) else ret 0)
     else ret 0)"

text \<open>\<open>n0\<close> is what the uninitialised \<open>n\<close> holds, which is compared where it should be assigned.\<close>

definition svr4_send_err :: "int \<Rightarrow> int \<Rightarrow> int \<Rightarrow> string \<Rightarrow> (int, 'a sock_scheme) prog" where
  "svr4_send_err n0 clifd errcode msg =
     bnd (if n0 = int (length msg)
          then bnd (sock_write clifd msg) (\<lambda>r. ret (r = n0)) else ret True) (\<lambda>ok.
     if \<not> ok then ret (-1)
     else bnd (svr4_send_fd clifd (if errcode \<ge> 0 then -1 else errcode)) (\<lambda>r.
     if r < 0 then ret (-1) else ret 0))"

fun svr4_recv_loop :: "nat \<Rightarrow> int \<Rightarrow> (string \<Rightarrow> (int, 'a sock_scheme) prog) \<Rightarrow> (int, 'a sock_scheme) prog" where
  "svr4_recv_loop 0 servfd userfunc = stop_with (Diverges ''recv_fd'')"
| "svr4_recv_loop (Suc k) servfd userfunc =
     bnd (getmsg servfd MAXLINE) (\<lambda>r. case r of
       None \<Rightarrow> err_sys ''getmsg error''
     | Some b \<Rightarrow>
         if b = [] then ret (-1)
         else (case scan_trailer b of
             BadFormat \<Rightarrow> err_dump ''message format error''
           | NoTrailer \<Rightarrow>
               bnd (userfunc b) (\<lambda>w.
               if w \<noteq> int (length b) then ret (-1) else svr4_recv_loop k servfd userfunc)
           | Trailer data status \<Rightarrow>
               bnd (if status = 0 then I_RECVFD servfd else ret (Some (- int status))) (\<lambda>newfd. case newfd of
                 None \<Rightarrow> ret (-1)
               | Some d \<Rightarrow>
                   bnd (if data = [] then ret 0 else userfunc data) (\<lambda>w.
                   if w \<noteq> int (length data) then ret (-1) else ret d))))"

definition svr4_recv_fd :: "int \<Rightarrow> (string \<Rightarrow> (int, 'a sock_scheme) prog) \<Rightarrow> (int, 'a sock_scheme) prog" where
  "svr4_recv_fd servfd userfunc =
     bnd (gets (\<lambda>s. Suc (length (s_in s servfd)))) (\<lambda>k. svr4_recv_loop k servfd userfunc)"

subsection \<open>4.3BSD\<close>

text \<open>
  The access rights of the header take the place of a control buffer. \<open>send_fd\<close> has no \<open>return\<close> for its success:
  \<open>r0\<close> is what the caller then finds.
\<close>

definition bsd_send_fd :: "int \<Rightarrow> int \<Rightarrow> int \<Rightarrow> (int, 'a sock_scheme) prog" where
  "bsd_send_fd r0 clifd fd =
     bnd (sendmsg clifd [NUL, status_byte fd] (if fd < 0 then None else Some fd)) (\<lambda>r.
     if r \<noteq> 2 then ret (-1) else ret r0)"

fun bsd_recv_loop :: "nat \<Rightarrow> int \<Rightarrow> (string \<Rightarrow> (int, 'a sock_scheme) prog) \<Rightarrow> (int, 'a sock_scheme) prog" where
  "bsd_recv_loop 0 servfd userfunc = stop_with (Diverges ''recv_fd'')"
| "bsd_recv_loop (Suc k) servfd userfunc =
     bnd (recvmsg servfd MAXLINE) (\<lambda>r. case r of
       None \<Rightarrow> err_sys ''recvmsg error''
     | Some (b, d) \<Rightarrow>
         if b = [] then ret (-1)
         else (case scan_trailer b of
             BadFormat \<Rightarrow> err_dump ''message format error''
           | NoTrailer \<Rightarrow>
               bnd (userfunc b) (\<lambda>w.
               if w \<noteq> int (length b) then ret (-1) else bsd_recv_loop k servfd userfunc)
           | Trailer data status \<Rightarrow>
               if status = 0 \<and> d = None then err_dump ''status = 0 but no fd''
               else bnd (if data = [] then ret 0 else userfunc data) (\<lambda>w.
                    if w \<noteq> int (length data) then ret (-1)
                    else ret (if status = 0 then the d else - int status))))"

definition bsd_recv_fd :: "int \<Rightarrow> (string \<Rightarrow> (int, 'a sock_scheme) prog) \<Rightarrow> (int, 'a sock_scheme) prog" where
  "bsd_recv_fd servfd userfunc =
     bnd (gets (\<lambda>s. Suc (length (s_in s servfd)))) (\<lambda>k. bsd_recv_loop k servfd userfunc)"

text \<open>With the control buffer allocated, the 4.3+BSD routine does what this one does.\<close>

lemma recvmsg_cmptr: "recvmsg fd n s = Ok r t \<Longrightarrow> s_cmptr t = s_cmptr s"
  by (auto simp: recvmsg_def Let_def split: if_splits list.splits option.splits)

lemma write_cmptr: "sock_write fd b s = Ok r t \<Longrightarrow> s_cmptr t = s_cmptr s"
  by (auto simp: sock_write_def fail_def sock_put_def Let_def split: if_splits list.splits)

lemma bsd_recv_eq:
  assumes "\<And>b s r t. u b s = Ok r t \<Longrightarrow> s_cmptr s \<Longrightarrow> s_cmptr t" and "s_cmptr s"
  shows "bsd_recv_loop k fd u s = recv_fd_loop k fd u s"
  using assms(2)
proof (induction k arbitrary: s)
  case (Suc k)
  have a: "cmptr_alloc s = Ok True s" using Suc.prems by (simp add: cmptr_alloc_def)
  show ?case
  proof (cases "recvmsg fd MAXLINE s")
    case (Ok r t)
    have t: "s_cmptr t" using recvmsg_cmptr[OF Ok] Suc.prems by simp
    have w: "bnd (u b) (\<lambda>w. if w \<noteq> int (length b) then ret (-1) else bsd_recv_loop k fd u) t =
        bnd (u b) (\<lambda>w. if w \<noteq> int (length b) then ret (-1) else recv_fd_loop k fd u) t" for b
      using Suc.IH assms(1)[OF _ t] by (auto simp: bnd_apply split: res.split)
    show ?thesis using a Ok w
      by (auto simp: bnd_apply split: option.splits scan.splits res.split intro!: arg_cong[where f = "\<lambda>h. bnd _ h t"] ext)
  qed (use a in simp)
qed simp

subsection \<open>What the three systems promise\<close>

text \<open>
  \<open>send\<close> puts \<open>pass f\<close> on the connection for a descriptor of the open file \<open>f\<close> and \<open>fails c\<close> for a status; \<open>recv\<close>
  takes the text before it, which it prints, and returns a new descriptor for the file or the negative status. \<open>ready\<close>
  is what a system needs in addition.
\<close>

locale fd_passing =
  fixes send :: "int \<Rightarrow> int \<Rightarrow> (int, sock) prog" and recv :: "int \<Rightarrow> (int, sock) prog"
    and pass :: "ofile \<Rightarrow> pkt list" and ready :: "sock \<Rightarrow> bool"
  assumes sends: "0 \<le> fd \<Longrightarrow> w_fds s cfd \<noteq> None \<Longrightarrow> s_wr s cfd = [] \<Longrightarrow> w_fds s fd = Some f \<Longrightarrow> ready s \<Longrightarrow>
      runs (send cfd fd) s (\<lambda>r t. 0 \<le> r \<and> s_out t = (s_out s)(cfd := s_out s cfd @ pass f) \<and> w_fds t = w_fds s)"
    and fails: "fd < 0 \<Longrightarrow> w_fds s cfd \<noteq> None \<Longrightarrow> s_wr s cfd = [] \<Longrightarrow>
      runs (send cfd fd) s (\<lambda>r t. 0 \<le> r \<and> s_out t = (s_out s)(cfd := s_out s cfd @ [Pkt [NUL, status_byte fd] None]) \<and> w_fds t = w_fds s)"
    and gets_fd: "can_recv c sfd \<Longrightarrow> s_in c sfd = ps @ pass f @ rest \<Longrightarrow> \<forall>p\<in>set ps. text_piece p \<Longrightarrow> new_fd c = Some d \<Longrightarrow>
      runs (recv sfd) c (\<lambda>r c'. r = d \<and> w_fds c' d = Some f \<and> s_in c' sfd = rest \<and> sent c' 2 = sent c 2 @ concat (map p_bytes ps))"
    and gets_status: "can_recv c sfd \<Longrightarrow> s_in c sfd = ps @ Pkt [NUL, b] None # rest \<Longrightarrow> \<forall>p\<in>set ps. text_piece p \<Longrightarrow> b \<noteq> NUL \<Longrightarrow>
      runs (recv sfd) c (\<lambda>r c'. r = - int (of_char b) \<and> s_in c' sfd = rest \<and> sent c' 2 = sent c 2 @ concat (map p_bytes ps))"
begin

text \<open>A descriptor that is sent arrives, after any text, and so does an error status.\<close>

lemma passed:
  assumes "0 \<le> fd" and "w_fds s cfd \<noteq> None" and "s_wr s cfd = []" and "w_fds s fd = Some f" and "ready s"
    and "can_recv c sfd" and "new_fd c = Some d" and "\<forall>p\<in>set ps. text_piece p"
    and "\<And>r t. send cfd fd s = Ok r t \<Longrightarrow> s_in c sfd = ps @ drop (length (s_out s cfd)) (s_out t cfd)"
  shows "\<exists>r t c'. send cfd fd s = Ok r t \<and> 0 \<le> r \<and> w_fds t = w_fds s \<and> recv sfd c = Ok d c' \<and> w_fds c' d = Some f \<and>
    s_in c' sfd = [] \<and> sent c' 2 = sent c 2 @ concat (map p_bytes ps)"
proof -
  obtain r t where t: "send cfd fd s = Ok r t" "0 \<le> r" "s_out t = (s_out s)(cfd := s_out s cfd @ pass f)" "w_fds t = w_fds s"
    using sends[OF assms(1-5)] by (auto simp: runs_iff)
  then have "s_in c sfd = ps @ pass f @ []" using assms(9)[OF t(1)] by simp
  from gets_fd[OF assms(6) this assms(8,7)] t show ?thesis by (auto simp: runs_iff)
qed

lemma refused:
  assumes "fd < 0" and "w_fds s cfd \<noteq> None" and "s_wr s cfd = []"
    and "can_recv c sfd" and "\<forall>p\<in>set ps. text_piece p"
    and "\<And>r t. send cfd fd s = Ok r t \<Longrightarrow> s_in c sfd = ps @ drop (length (s_out s cfd)) (s_out t cfd)"
  shows "\<exists>r t c'. send cfd fd s = Ok r t \<and> 0 \<le> r \<and> recv sfd c = Ok (- int (of_char (status_byte fd))) c' \<and>
    s_in c' sfd = [] \<and> sent c' 2 = sent c 2 @ concat (map p_bytes ps)"
proof -
  obtain r t where t: "send cfd fd s = Ok r t" "0 \<le> r" "s_out t = (s_out s)(cfd := s_out s cfd @ [Pkt [NUL, status_byte fd] None])"
    using fails[OF assms(1-3)] by (auto simp: runs_iff)
  then have i: "s_in c sfd = ps @ Pkt [NUL, status_byte fd] None # []" using assms(6)[OF t(1)] by simp
  have "status_byte fd \<noteq> NUL" using assms(1) by (simp add: status_byte_def Let_def)
  from gets_status[OF assms(4) i assms(5) this] t show ?thesis by (auto simp: runs_iff)
qed

end

subsection \<open>4.3+BSD\<close>

lemma send_fd_status: "fd < 0 \<Longrightarrow> w_fds s cfd \<noteq> None \<Longrightarrow> send_fd cfd fd s = Ok 0 (sock_put cfd (Pkt [NUL, status_byte fd] None) s)"
  by (simp add: send_fd_neg status_byte_def Let_def)

interpretation pb: fd_passing send_fd "\<lambda>sfd. recv_fd sfd (sock_write 2)" "\<lambda>f. [Pkt [NUL, NUL] (Some f)]" "\<lambda>s. s_cmptr s \<or> sizeof_cmsg \<le> w_mem s"
proof (unfold_locales, goal_cases)
  case (1 fd s cfd f)
  then show ?case using send_fd_pos[of fd s cfd f] by (auto simp: runs_iff)
next
  case (2 fd s cfd)
  then show ?case by (simp add: send_fd_status runs_iff sock_put_def)
next
  case (3 c sfd ps f rest d)
  then have "s_in c sfd = ps @ Pkt ([] @ [NUL, NUL]) (Some f) # rest" by simp
  from recv_fd_runs[OF 3(1) this 3(3)] 3(4) show ?case by (auto simp: runs_iff got_trailer_def MAXLINE_def)
next
  case (4 c sfd ps b rest)
  then have "s_in c sfd = ps @ Pkt ([] @ [NUL, b]) None # rest" by simp
  from recv_fd_runs[OF 4(1) this 4(3)] 4(4) show ?case by (auto simp: runs_iff got_trailer_def MAXLINE_def)
qed

subsection \<open>4.3BSD\<close>

lemma bsd_recv_same: "s_cmptr c \<Longrightarrow> bsd_recv_fd sfd (sock_write 2) c = recv_fd sfd (sock_write 2) c"
proof -
  assume "s_cmptr c"
  then have "bsd_recv_loop k sfd (sock_write 2) c = recv_fd_loop k sfd (sock_write 2) c" for k
    by (rule bsd_recv_eq[rotated]) (drule write_cmptr, simp)
  then show ?thesis by (simp add: bsd_recv_fd_def recv_fd_def del: bsd_recv_loop.simps recv_fd_loop.simps)
qed

interpretation bsd: fd_passing "bsd_send_fd 0" "\<lambda>sfd. bsd_recv_fd sfd (sock_write 2)" "\<lambda>f. [Pkt [NUL, NUL] (Some f)]" "\<lambda>_. True"
proof (unfold_locales, goal_cases)
  case (1 fd s cfd f)
  then show ?case by (simp add: bsd_send_fd_def sendmsg_ok runs_iff status_byte_def sock_put_def)
next
  case (2 fd s cfd)
  then show ?case by (simp add: bsd_send_fd_def sendmsg_ok runs_iff sock_put_def)
next
  case (3 c sfd ps f rest d)
  then show ?case using pb.gets_fd[of c sfd ps f rest d] by (simp add: runs_iff bsd_recv_same can_recv_def)
next
  case (4 c sfd ps b rest)
  then show ?case using pb.gets_status[of c sfd ps b rest] by (simp add: runs_iff bsd_recv_same can_recv_def)
qed

subsection \<open>System V\<close>

lemma svr4_recv_text:
  assumes "can_recv s sfd" and "s_in s sfd = p # ps" and "text_piece p"
  shows "svr4_recv_loop (Suc k) sfd (sock_write 2) s =
    svr4_recv_loop k sfd (sock_write 2) (sock_put 2 (Pkt (p_bytes p) None) (s\<lparr>s_in := (s_in s)(sfd := ps)\<rparr>))"
proof -
  let ?t = "s\<lparr>s_in := (s_in s)(sfd := ps)\<rparr>"
  have "getmsg sfd MAXLINE s = Ok (Some (p_bytes p)) ?t"
    using assms by (simp add: getmsg_def can_recv_def text_piece_def)
  moreover have "sock_write 2 (p_bytes p) ?t = Ok (int (length (p_bytes p))) (sock_put 2 (Pkt (p_bytes p) None) ?t)"
    using assms(1,3) by (intro write_stderr[of _ sfd]) (simp_all add: can_recv_def text_piece_def)
  ultimately show ?thesis using assms(3) by (simp add: text_piece_def scan_none)
qed

text \<open>After the text: a status, and the file's message when it is 0.\<close>

definition svr4_pass :: "ofile \<Rightarrow> pkt list" where
  "svr4_pass f = [Pkt [NUL, NUL] None, Pkt [] (Some f)]"

lemma svr4_recv_pass:
  assumes "can_recv s sfd" and "s_in s sfd = svr4_pass f @ rest" and "new_fd s = Some d"
  shows "svr4_recv_loop (Suc k) sfd (sock_write 2) s = Ok d (s\<lparr>s_in := (s_in s)(sfd := rest), w_fds := (w_fds s)(d \<mapsto> f)\<rparr>)"
proof -
  let ?t = "s\<lparr>s_in := (s_in s)(sfd := Pkt [] (Some f) # rest)\<rparr>"
  have "getmsg sfd MAXLINE s = Ok (Some [NUL, NUL]) ?t"
    using assms by (simp add: getmsg_def can_recv_def svr4_pass_def MAXLINE_def)
  moreover have "new_fd ?t = Some d" using assms(3) by (simp add: new_fd_def)
  then have "I_RECVFD sfd ?t = Ok (Some d) (s\<lparr>s_in := (s_in s)(sfd := rest), w_fds := (w_fds s)(d \<mapsto> f)\<rparr>)"
    using assms(1) by (simp add: I_RECVFD_def can_recv_def)
  moreover have "scan_trailer [NUL, NUL] = Trailer [] 0" using scan_trailer_at[of "[]" NUL] by simp
  ultimately show ?thesis by simp
qed

lemma svr4_recv_status:
  assumes "can_recv s sfd" and "s_in s sfd = Pkt [NUL, b] None # rest" and "b \<noteq> NUL"
  shows "svr4_recv_loop (Suc k) sfd (sock_write 2) s = Ok (- int (of_char b)) (s\<lparr>s_in := (s_in s)(sfd := rest)\<rparr>)"
proof -
  have "getmsg sfd MAXLINE s = Ok (Some [NUL, b]) (s\<lparr>s_in := (s_in s)(sfd := rest)\<rparr>)"
    using assms by (simp add: getmsg_def can_recv_def MAXLINE_def)
  moreover have "scan_trailer [NUL, b] = Trailer [] (of_char b)" using scan_trailer_at[of "[]" b] by simp
  moreover have "of_char b \<noteq> (0 :: nat)" using assms(3) of_char_eq_iff[of b NUL, where 'a = nat] by simp
  ultimately show ?thesis by simp
qed

text \<open>Pieces of text move the loop to the same place as their removal; \<open>printed\<close> is that state.\<close>

definition printed :: "int \<Rightarrow> pkt list \<Rightarrow> pkt list \<Rightarrow> 'a sock_scheme \<Rightarrow> 'a sock_scheme" where
  "printed sfd ps rest s = s\<lparr>s_in := (s_in s)(sfd := rest), s_out := (s_out s)(2 := s_out s 2 @ map (\<lambda>p. Pkt (p_bytes p) None) ps)\<rparr>"

lemma svr4_recv_texts:
  assumes "can_recv s sfd" and "s_in s sfd = ps @ rest" and "\<forall>p\<in>set ps. text_piece p" and "length ps < k"
  shows "\<exists>j. svr4_recv_loop k sfd (sock_write 2) s = svr4_recv_loop (Suc j) sfd (sock_write 2) (printed sfd ps rest s)"
  using assms
proof (induction ps arbitrary: s k)
  case Nil
  then obtain j where "k = Suc j" by (cases k) auto
  moreover have "printed sfd [] rest s = s" using Nil.prems(2) by (simp add: printed_def fun_upd_idem)
  ultimately show ?case by auto
next
  case (Cons p ps)
  then obtain j where k: "k = Suc j" by (cases k) auto
  define t where "t = sock_put 2 (Pkt (p_bytes p) None) (s\<lparr>s_in := (s_in s)(sfd := ps @ rest)\<rparr>)"
  have e: "svr4_recv_loop k sfd (sock_write 2) s = svr4_recv_loop j sfd (sock_write 2) t"
    unfolding k t_def using Cons.prems by (intro svr4_recv_text) simp_all
  have "can_recv t sfd" "s_in t sfd = ps @ rest" using Cons.prems(1) by (simp_all add: t_def can_recv_def sock_put_def)
  then obtain i where "svr4_recv_loop j sfd (sock_write 2) t = svr4_recv_loop (Suc i) sfd (sock_write 2) (printed sfd ps rest t)"
    using Cons.IH[of t j] Cons.prems k by auto
  moreover have "printed sfd ps rest t = printed sfd (p # ps) rest s" by (simp add: printed_def t_def sock_put_def)
  ultimately show ?case unfolding e by metis
qed

lemma printed_sel:
  "can_recv (printed sfd ps rest s) sfd = can_recv s sfd" "s_in (printed sfd ps rest s) sfd = rest"
  "new_fd (printed sfd ps rest s) = new_fd s" "sent (printed sfd ps rest s) 2 = sent s 2 @ concat (map p_bytes ps)"
  by (simp_all add: printed_def can_recv_def new_fd_def comp_def)

lemma svr4_recv_run:
  assumes "can_recv c sfd" and "s_in c sfd = ps @ q # qs" and "\<forall>p\<in>set ps. text_piece p"
    and "\<And>j. svr4_recv_loop (Suc j) sfd (sock_write 2) (printed sfd ps (q # qs) c) = r"
  shows "svr4_recv_fd sfd (sock_write 2) c = r"
proof -
  have "length ps < Suc (length (s_in c sfd))" using assms(2) by simp
  from svr4_recv_texts[OF assms(1-3) this] assms(4) show ?thesis
    by (auto simp: svr4_recv_fd_def simp del: svr4_recv_loop.simps)
qed

lemma svr4_send_pass:
  assumes "0 \<le> fd" and "w_fds s cfd \<noteq> None" and "s_wr s cfd = []" and "w_fds s fd = Some f"
  shows "runs (svr4_send_fd cfd fd) s (\<lambda>r t. 0 \<le> r \<and> s_out t = (s_out s)(cfd := s_out s cfd @ svr4_pass f) \<and> w_fds t = w_fds s)"
proof -
  obtain g where "w_fds s cfd = Some g" using assms(2) by auto
  then show ?thesis using assms
    by (simp add: svr4_send_fd_def sock_write_def I_SENDFD_def svr4_pass_def status_byte_def runs_iff sock_put_def)
qed

interpretation sv: fd_passing svr4_send_fd "\<lambda>sfd. svr4_recv_fd sfd (sock_write 2)" svr4_pass "\<lambda>_. True"
proof (unfold_locales, goal_cases)
  case (1 fd s cfd f)
  then show ?case by (intro svr4_send_pass)
next
  case (2 fd s cfd)
  then have "sock_write cfd [NUL, status_byte fd] s = Ok 2 (sock_put cfd (Pkt [NUL, status_byte fd] None) s)"
    by (auto simp: sock_write_def)
  with 2(1) show ?case by (simp add: svr4_send_fd_def runs_iff sock_put_def)
next
  case (3 c sfd ps f rest d)
  have "s_in c sfd = ps @ Pkt [NUL, NUL] None # (Pkt [] (Some f) # rest)" using 3(2) by (simp add: svr4_pass_def)
  then have "svr4_recv_fd sfd (sock_write 2) c = Ok d ((printed sfd ps (svr4_pass f @ rest) c)
      \<lparr>s_in := (s_in (printed sfd ps (svr4_pass f @ rest) c))(sfd := rest), w_fds := (w_fds (printed sfd ps (svr4_pass f @ rest) c))(d \<mapsto> f)\<rparr>)"
    using 3(1,4) by (intro svr4_recv_run[OF 3(1) _ 3(3)] svr4_recv_pass[THEN trans]) (simp_all add: printed_sel svr4_pass_def)
  then show ?case using printed_sel(4)[of sfd ps "svr4_pass f @ rest" c] by (simp add: runs_iff)
next
  case (4 c sfd ps b rest)
  have "svr4_recv_fd sfd (sock_write 2) c = Ok (- int (of_char b)) ((printed sfd ps (Pkt [NUL, b] None # rest) c)
      \<lparr>s_in := (s_in (printed sfd ps (Pkt [NUL, b] None # rest) c))(sfd := rest)\<rparr>)"
    using 4(1,4) by (intro svr4_recv_run[OF 4(1-3)] svr4_recv_status) (simp_all add: printed_sel)
  then show ?case using printed_sel(4)[of sfd ps "Pkt [NUL, b] None # rest" c] by (simp add: runs_iff)
qed

subsection \<open>Properties\<close>

text \<open>
  C17. On System V, too, a descriptor that a server passes arrives: after any text in any pieces \<open>recv_fd\<close> returns a
  new descriptor for the same open file, nothing of what was sent is left on the stream, and the text has been printed.
\<close>

theorem svr4_pass_descriptor:
  fixes s c :: sock
  assumes "0 \<le> fd" and "w_fds s cfd \<noteq> None" and "s_wr s cfd = []" and "w_fds s fd = Some f"
    and "can_recv c sfd" and "new_fd c = Some d" and "\<forall>p\<in>set ps. text_piece p"
    and "\<And>r t. svr4_send_fd cfd fd s = Ok r t \<Longrightarrow> s_in c sfd = ps @ drop (length (s_out s cfd)) (s_out t cfd)"
  shows "\<exists>r t c'. svr4_send_fd cfd fd s = Ok r t \<and> 0 \<le> r \<and> w_fds t = w_fds s \<and>
    svr4_recv_fd sfd (sock_write 2) c = Ok d c' \<and> w_fds c' d = Some f \<and> s_in c' sfd = [] \<and>
    sent c' 2 = sent c 2 @ concat (map p_bytes ps)"
  by (rule sv.passed[OF assms(1-4) TrueI assms(5-8)])

theorem svr4_pass_descriptor_witness:
  "\<exists>t c'. svr4_send_fd 4 5 (sock0\<lparr>s_wr := (\<lambda>_. [])\<rparr>) = Ok 0 t \<and>
     svr4_recv_fd 4 (sock_write 2) (sock0\<lparr>s_in := (\<lambda>_. [])(4 := Pkt ''hi'' None # svr4_pass (a_file ''motd''))\<rparr>) = Ok 0 c' \<and>
     w_fds c' 0 = Some (a_file ''motd'') \<and> sent c' 2 = ''hi''"
proof -
  let ?s = "sock0\<lparr>s_wr := (\<lambda>_. [])\<rparr>" and ?c = "sock0\<lparr>s_in := (\<lambda>_. [])(4 := Pkt ''hi'' None # svr4_pass (a_file ''motd''))\<rparr>"
  have snd: "svr4_send_fd 4 5 ?s = Ok r t \<Longrightarrow> r = 0 \<and> s_out t 4 = svr4_pass (a_file ''motd'')" for r t
    by (simp add: svr4_send_fd_def sock_write_def I_SENDFD_def svr4_pass_def status_byte_def sock_put_def sock0_def) auto
  have "new_fd ?c = Some 0" by (simp add: new_fd_def sock0_def upt_conv_Cons)
  then show ?thesis
    using svr4_pass_descriptor[of 5 ?s 4 "a_file ''motd''" ?c 4 0 "[Pkt ''hi'' None]"] snd
    by (auto simp: sock0_def can_recv_def text_piece_def MAXLINE_def)
qed

text \<open>
  The \<open>recv_fd\<close> of 4.3BSD is the one of 4.3+BSD, once that has its control buffer: they leave the same state and
  return the same on every input.
\<close>

theorem bsd_recv_equivalent:
  assumes "s_cmptr s"
  shows "bsd_recv_fd fd (sock_write 2) s = recv_fd fd (sock_write 2) s"
  using assms by (rule bsd_recv_same)

theorem bsd_recv_equivalent_witness: "bsd_recv_fd 4 (sock_write 2) sock0 = recv_fd 4 (sock_write 2) sock0"
  by (rule bsd_recv_equivalent) (simp add: sock0_def)

text \<open>A descriptor and an error status also pass on 4.3BSD, where the result of the success is whatever the caller finds.\<close>

lemma bsd_send_result:
  "0 \<le> fd \<Longrightarrow> w_fds s cfd \<noteq> None \<Longrightarrow> w_fds s fd = Some f \<Longrightarrow> \<exists>t. bsd_send_fd r0 cfd fd s = Ok r0 t"
  by (simp add: bsd_send_fd_def sendmsg_ok)

end
