(* ===== verification/Copiers.thy ===== *)
theory Copiers
  imports Coproc
begin

text \<open>
  Programs that copy a file or their input: \<^verbatim>\<open>mmap-demo.c\<close> (with mapped memory),
  \<^verbatim>\<open>nonblock-write.c\<close> (with a descriptor that does not block) and \<^verbatim>\<open>file2pager.c\<close> (to a child
  over a pipe).
\<close>

subsection \<open>Mapped memory\<close>

datatype prot = PROT_READ | PROT_WRITE

text \<open>A shared mapping is the file itself, here its path; \<open>None\<close> for an error.\<close>

definition mmap :: "nat \<Rightarrow> prot list \<Rightarrow> int \<Rightarrow> (string option, 'a world_scheme) prog" where
  "mmap len prots fd = (\<lambda>s. case w_fds s fd of
     None \<Rightarrow> Ok None (s\<lparr>w_errno := EBADF\<rparr>)
   | Some f \<Rightarrow>
       if len = 0 then Ok None (s\<lparr>w_errno := EINVAL\<rparr>)
       else if o_oflag f AND 3 = O_WRONLY \<or> PROT_WRITE \<in> set prots \<and> o_oflag f AND 3 \<noteq> O_RDWR
       then Ok None (s\<lparr>w_errno := EACCES\<rparr>)
       else Ok (Some (o_path f)) s)"

text \<open>\<open>memcpy\<close> from one mapping to another; memory behind the end of a file cannot be used.\<close>

definition memcpy_mapped :: "string \<Rightarrow> string \<Rightarrow> nat \<Rightarrow> (unit, 'a world_scheme) prog" where
  "memcpy_mapped dst src n = (\<lambda>s.
     if n \<le> length (file_bytes s src) \<and> n \<le> length (file_bytes s dst)
     then Ok () (set_bytes dst (take n (file_bytes s src) @ drop n (file_bytes s dst)) s)
     else Halt (Undefined ''bus error'') s)"

text \<open>After both files have been opened.\<close>

definition mmap_rest :: "int \<Rightarrow> int \<Rightarrow> (unit, 'a world_scheme) prog" where
  "mmap_rest fdin fdout =
     bnd (fstat_size fdin) (\<lambda>size.
      if size < 0 then err_sys ''fstat error''
      else bnd (lseek fdout (size - 1) SEEK_SET) (\<lambda>r.
      if r = -1 then err_sys ''lseek error''
      else bnd (sys_write fdout [NUL]) (\<lambda>r.
      if r \<noteq> 1 then err_sys ''write error''
      else bnd (mmap (nat size) [PROT_READ] fdin) (\<lambda>src. case src of
        None \<Rightarrow> err_sys ''mmap error for input''
      | Some src \<Rightarrow> bnd (mmap (nat size) [PROT_READ, PROT_WRITE] fdout) (\<lambda>dst. case dst of
          None \<Rightarrow> err_sys ''mmap error for output''
        | Some dst \<Rightarrow> bnd (memcpy_mapped dst src (nat size)) (\<lambda>_. stop_with (Exit 0 [])))))))"

definition mmap_main :: "string list \<Rightarrow> (unit, 'a world_scheme) prog" where
  "mmap_main argv =
     (if length argv \<noteq> 3 then err_quit ''usage: a.out <fromfile> <tofile>''
      else bnd (sys_open (argv ! 1) O_RDONLY) (\<lambda>fdin.
      if fdin < 0 then err_sys (''can't open '' @ argv ! 1 @ '' for reading'')
      else bnd (sys_open (argv ! 2) (O_RDWR OR O_CREAT OR O_TRUNC)) (\<lambda>fdout.
      if fdout < 0 then err_sys (''can't creat '' @ argv ! 2 @ '' for writing'')
      else mmap_rest fdin fdout)))"

lemma open_run:
  assumes "free_fds s = i # is" and "\<not> w_denied s path" and "w_files s path \<noteq> None \<or> oflag AND O_CREAT \<noteq> 0"
    and "\<not> odd_flags oflag"
  shows "sys_open path oflag s = Ok (int i) (s\<lparr>w_files := (w_files s)(path \<mapsto> (if oflag AND O_TRUNC = 0 then file_bytes s path else [])),
    w_fds := (w_fds s)(int i \<mapsto> \<lparr>o_path = path, o_pos = 0, o_oflag = oflag\<rparr>)\<rparr>)"
  using new_fd_first[OF assms(1)] open_error_none[OF assms(4,2,3)] by (auto simp: sys_open_def)

lemma mmap_opens:
  assumes "free_fds s = i # j # is" and "\<not> w_denied s from" "\<not> w_denied s to" and "w_files s from = Some c"
  shows "\<exists>t. mmap_main [a, from, to] s = mmap_rest (int i) (int j) t \<and> i \<noteq> j \<and> w_limit t = w_limit s \<and>
    w_files t = (w_files s)(to \<mapsto> []) \<and>
    w_fds t = (w_fds s)(int i \<mapsto> \<lparr>o_path = from, o_pos = 0, o_oflag = O_RDONLY\<rparr>, int j \<mapsto> \<lparr>o_path = to, o_pos = 0, o_oflag = O_RDWR OR O_CREAT OR O_TRUNC\<rparr>)"
proof -
  let ?f = "\<lparr>o_path = from, o_pos = 0, o_oflag = O_RDONLY\<rparr>"
  have d: "i \<noteq> j" using free_fds_distinct[of s] assms(1) by auto
  have o1: "sys_open from O_RDONLY s = Ok (int i) (s\<lparr>w_files := (w_files s)(from \<mapsto> c), w_fds := (w_fds s)(int i \<mapsto> ?f)\<rparr>)" (is "_ = Ok _ ?s1")
    using open_run[OF assms(1,2), of O_RDONLY] assms(4) by (simp add: file_bytes_def O_RDONLY_def)
  have "free_fds ?s1 = free_fds (s\<lparr>w_fds := (w_fds s)(int i \<mapsto> ?f)\<rparr>)" by (simp add: free_fds_def)
  also have "\<dots> = j # is" by (rule free_fds_taken[OF assms(1)])
  finally have f1: "free_fds ?s1 = j # is" .
  have fl: "(O_RDWR OR O_CREAT OR O_TRUNC) AND O_CREAT \<noteq> 0" "(O_RDWR OR O_CREAT OR O_TRUNC) AND O_TRUNC \<noteq> 0"
    by (simp_all add: oflag_defs)
  note o2 = open_run[OF f1, of to "O_RDWR OR O_CREAT OR O_TRUNC"]
  have "(w_files s)(from \<mapsto> c) = w_files s" using assms(4) by auto
  then show ?thesis using o1 o2 fl assms(3) d unfolding mmap_main_def by (intro exI[of _ "s\<lparr>w_files := (w_files s)(to \<mapsto> []), w_fds := (w_fds s)(int i \<mapsto> ?f, int j \<mapsto> \<lparr>o_path = to, o_pos = 0, o_oflag = O_RDWR OR O_CREAT OR O_TRUNC\<rparr>)\<rparr>"]) simp
qed

lemma mmap_rest_empty:
  assumes "w_fds t i = Some f" "w_fds t j = Some g" "file_bytes t (o_path f) = []"
  shows "mmap_rest i j t = Halt (Exit 1 ''lseek error'') (t\<lparr>w_errno := EINVAL\<rparr>)"
  using assms by (simp add: mmap_rest_def fstat_size_def lseek_def fd_bytes_def fd_path_def fail_def err_sys_def)

lemma mmap_rest_run:
  assumes "w_fds t i = Some f" "w_fds t j = Some g" "i \<noteq> j" "o_path f \<noteq> o_path g"
    and "file_bytes t (o_path f) = c" "c \<noteq> []" "file_bytes t (o_path g) = []" "length c \<le> w_limit t"
    and "o_oflag f AND 3 = O_RDONLY" "o_oflag g AND 3 = O_RDWR"
  shows "\<exists>u. mmap_rest i j t = Halt (Exit 0 []) u \<and> w_files u = (w_files t)(o_path g \<mapsto> c)"
proof -
  let ?n = "length c - 1"
  define t1 where "t1 = set_pos j ?n t"
  have n: "0 < length c" using assms(6) by simp
  have g1: "w_fds t1 j = Some (g\<lparr>o_pos := ?n\<rparr>)" "w_fds t1 i = Some f" "w_files t1 = w_files t" "w_limit t1 = w_limit t"
    using assms(1-3) by (simp_all add: t1_def set_pos_def)
  have sz: "fstat_size i t = Ok (int (length c)) t" using assms(1,5) by (simp add: fstat_size_def fd_bytes_def fd_path_def)
  have sk: "lseek j (int (length c) - 1) SEEK_SET t = Ok (int ?n) t1"
    using assms(2) n by (simp add: lseek_def t1_def nat_diff_distrib' of_nat_diff Suc_le_eq)
  define t2 where "t2 = set_pos j (Suc ?n) (set_bytes (o_path g) (overwrite [] ?n [NUL]) t1)"
  have "0 < w_limit t1 - ?n" using assms(8) n g1(4) by arith
  then have "take (w_limit t1 - ?n) [NUL] = [NUL]" by (simp add: take_Cons' del: zero_less_diff)
  then have wr: "sys_write j [NUL] t1 = Ok 1 t2"
    using g1 assms(7,10) by (simp add: sys_write_def t2_def fd_bytes_def fd_path_def file_bytes_def oflag_defs)
  have l: "length (overwrite [] ?n [NUL]) = length c" using n by (simp add: overwrite_def)
  have g2: "w_fds t2 j = Some (g\<lparr>o_pos := Suc ?n\<rparr>)" "w_fds t2 i = Some f" "file_bytes t2 (o_path f) = c"
      "file_bytes t2 (o_path g) = overwrite [] ?n [NUL]" "w_files t2 = (w_files t)(o_path g \<mapsto> overwrite [] ?n [NUL])"
    using g1 assms(3,4,5) by (auto simp: t2_def set_pos_def set_bytes_def file_bytes_def)
  have m1: "mmap (length c) [PROT_READ] i t2 = Ok (Some (o_path f)) t2"
    using g2 n assms(9) by (simp add: mmap_def oflag_defs)
  have m2: "mmap (length c) [PROT_READ, PROT_WRITE] j t2 = Ok (Some (o_path g)) t2"
    using g2 n assms(10) by (simp add: mmap_def oflag_defs)
  have cp: "memcpy_mapped (o_path g) (o_path f) (length c) t2 = Ok () (set_bytes (o_path g) c t2)"
    using g2 l by (simp add: memcpy_mapped_def)
  have "mmap_rest i j t = Halt (Exit 0 []) (set_bytes (o_path g) c t2)"
    using sz sk wr m1 m2 cp by (simp add: mmap_rest_def stop_with_def)
  moreover have "w_files (set_bytes (o_path g) c t2) = (w_files t)(o_path g \<mapsto> c)" by (simp add: set_bytes_def g2(5))
  ultimately show ?thesis by blast
qed

text \<open>
  C35. \<^verbatim>\<open>mmap-demo\<close> copies a file that is not empty onto another one and changes nothing else. Of an empty file it says
  ``lseek error'' and exits with status 1, as the offset of the last byte is negative then; so it does when it is asked to
  copy a file onto itself, which has been truncated by then: its contents are lost.
\<close>

theorem mmap_copies:
  assumes "free_fds s = i # j # is" and "\<not> w_denied s from" "\<not> w_denied s to"
    and "w_files s from = Some c" and "length c \<le> w_limit s"
  shows "\<exists>t. if from = to then mmap_main [a, from, to] s = Halt (Exit 1 ''lseek error'') t \<and> w_files t = (w_files s)(from \<mapsto> [])
    else if c = [] then mmap_main [a, from, to] s = Halt (Exit 1 ''lseek error'') t \<and> w_files t = (w_files s)(to \<mapsto> [])
    else mmap_main [a, from, to] s = Halt (Exit 0 []) t \<and> w_files t = (w_files s)(to \<mapsto> c)"
proof -
  let ?f = "\<lparr>o_path = from, o_pos = 0, o_oflag = O_RDONLY\<rparr>" and ?g = "\<lparr>o_path = to, o_pos = 0, o_oflag = O_RDWR OR O_CREAT OR O_TRUNC\<rparr>"
  obtain t where t: "mmap_main [a, from, to] s = mmap_rest (int i) (int j) t" "i \<noteq> j" "w_limit t = w_limit s"
      "w_files t = (w_files s)(to \<mapsto> [])" "w_fds t = (w_fds s)(int i \<mapsto> ?f, int j \<mapsto> ?g)"
    using mmap_opens[OF assms(1-4)] by blast
  have fd: "w_fds t (int i) = Some ?f" "w_fds t (int j) = Some ?g" using t(2,5) by simp_all
  have fl: "O_RDONLY AND 3 = O_RDONLY" "(O_RDWR OR O_CREAT OR O_TRUNC) AND 3 = O_RDWR" by (simp_all add: oflag_defs)
  show ?thesis
  proof (cases "from = to \<or> c = []")
    case True
    then have "file_bytes t (o_path ?f) = []" using t(4) assms(4) by (auto simp: file_bytes_def)
    from mmap_rest_empty[OF fd this] show ?thesis using True t(1,4) by auto
  next
    case False
    then have "file_bytes t (o_path ?f) = c" "file_bytes t (o_path ?g) = []" using t(4) assms(4) by (simp_all add: file_bytes_def)
    then obtain u where "mmap_rest (int i) (int j) t = Halt (Exit 0 []) u" "w_files u = (w_files t)(to \<mapsto> c)"
      using mmap_rest_run[OF fd, of c] False t(2,3) assms(5) fl by auto
    then show ?thesis using False t(1,4) by auto
  qed
qed

definition two_files :: world where
  "two_files = \<lparr>w_files = [''motd'' \<mapsto> ''hello''], w_fds = Map.empty, w_maxfd = 8, w_limit = 1000, w_denied = (\<lambda>_. False),
     w_locks = (\<lambda>_ _. None), w_others = [], w_mem = 1000, w_errno = E_OK\<rparr>"

theorem mmap_copies_witness:
  "\<exists>t. mmap_main [''a.out'', ''motd'', ''copy''] two_files = Halt (Exit 0 []) t \<and> w_files t ''copy'' = Some ''hello''"
proof -
  have "\<exists>is. free_fds two_files = 0 # 1 # is" by (simp add: free_fds_def two_files_def upt_rec[of 0] upt_rec[of "Suc _"])
  then obtain "is" where f: "free_fds two_files = 0 # 1 # is" by blast
  show ?thesis
    using mmap_copies[OF f, of "''motd''" "''copy''" "''hello''" "''a.out''"] by (auto simp: two_files_def)
qed

subsection \<open>Without blocking\<close>

definition BUFSIZE_NB :: nat where "BUFSIZE_NB = 100000"

text \<open>\<open>fprintf\<close> to the standard error.\<close>

definition say :: "string \<Rightarrow> (unit, 'a sock_scheme) prog" where
  "say m = bnd (sock_write 2 m) (\<lambda>_. ret ())"

text \<open>The loop tries again at once after a failure. It ends when the system has no refusals left, of which \<open>s_wr\<close> has finitely many.\<close>

fun nonblock_loop :: "nat \<Rightarrow> string \<Rightarrow> (unit, 'a sock_scheme) prog" where
  "nonblock_loop 0 bs = stop_with (Diverges ''main'')"
| "nonblock_loop (Suc k) bs =
     (if bs = [] then ret ()
      else bnd (modify (\<lambda>s. s\<lparr>w_errno := E_OK\<rparr>)) (\<lambda>_.
           bnd (sock_write 1 bs) (\<lambda>nwrite.
           bnd (gets w_errno) (\<lambda>e.
           bnd (say (''nwrite = '' @ fmt_d nwrite @ '', errno = '' @ fmt_d (err_no e) @ [NL])) (\<lambda>_.
           nonblock_loop k (if nwrite > 0 then drop (nat nwrite) bs else bs))))))"

definition nonblock_main :: "(unit, 'a sock_scheme) prog" where
  "nonblock_main =
     bnd (sock_read 0 BUFSIZE_NB) (\<lambda>r.
     bnd (say (''read '' @ fmt_d (case r of None \<Rightarrow> -1 | Some b \<Rightarrow> int (length b)) @ '' bytes'' @ [NL])) (\<lambda>_.
     bnd (set_fl 1 O_NONBLOCK) (\<lambda>_.
     bnd (gets (\<lambda>s. length (s_wr s 1) + 2)) (\<lambda>k.
     bnd (nonblock_loop k (case r of None \<Rightarrow> [] | Some b \<Rightarrow> b)) (\<lambda>_.
     bnd (clr_fl 1 O_NONBLOCK) (\<lambda>_. stop_with (Exit 0 [])))))))"

lemma say_run:
  "w_fds s 2 \<noteq> None \<Longrightarrow> s_wr s 2 = [] \<Longrightarrow> m \<noteq> [] \<Longrightarrow> say m s = Ok () (sock_put 2 (Pkt m None) s)"
  by (auto simp: say_def sock_write_def)

text \<open>What the loop keeps.\<close>

definition nb_same :: "'a sock_scheme \<Rightarrow> 'a sock_scheme \<Rightarrow> bool" where
  "nb_same s t \<longleftrightarrow> w_fds t = w_fds s \<and> w_files t = w_files s \<and> s_in t = s_in s \<and> s_wr t 2 = s_wr s 2"

lemma nb_same_trans: "nb_same s t \<Longrightarrow> nb_same t u \<Longrightarrow> nb_same s u"
  by (simp add: nb_same_def)

lemma sock_write_ok: "\<exists>r t. sock_write fd bs s = Ok r t"
  by (cases "s_wr s fd") (auto simp: sock_write_def fail_def Let_def)

lemma nonblock_write:
  assumes "w_fds s 1 \<noteq> None" "w_fds s 2 \<noteq> None" "s_wr s 2 = []" "bs \<noteq> []"
  shows "\<exists>t n. nonblock_loop (Suc k) bs s = nonblock_loop k (drop n bs) t \<and> nb_same s t \<and> sent t 1 = sent s 1 @ take n bs \<and>
    s_wr t 1 = tl (s_wr s 1) \<and> (s_wr s 1 = [] \<longrightarrow> n = length bs)"
proof -
  let ?s = "s\<lparr>w_errno := E_OK\<rparr>"
  obtain r t where w: "sock_write 1 bs ?s = Ok r t" using sock_write_ok[of 1 bs ?s] by blast
  have t: "nb_same s t \<and> sent t 1 = sent s 1 @ take (nat r) bs \<and> s_wr t 1 = tl (s_wr s 1) \<and> (s_wr s 1 = [] \<longrightarrow> nat r = length bs)"
    using w assms by (cases "s_wr s 1") (auto simp: sock_write_def fail_def Let_def sock_put_def nb_same_def min_def split: if_splits)
  let ?m = "''nwrite = '' @ fmt_d r @ '', errno = '' @ fmt_d (err_no (w_errno t)) @ [NL]"
  have "say ?m t = Ok () (sock_put 2 (Pkt ?m None) t)" using t assms(2,3) by (intro say_run) (simp_all add: nb_same_def)
  then have "nonblock_loop (Suc k) bs s = nonblock_loop k (drop (nat r) bs) (sock_put 2 (Pkt ?m None) t)"
    using w assms(4) by simp
  moreover have "nb_same s (sock_put 2 (Pkt ?m None) t)" "sent (sock_put 2 (Pkt ?m None) t) 1 = sent t 1" "s_wr (sock_put 2 (Pkt ?m None) t) 1 = s_wr t 1"
    using t by (simp_all add: nb_same_def sock_put_def)
  ultimately show ?thesis using t by (intro exI[of _ "sock_put 2 (Pkt ?m None) t"] exI[of _ "nat r"]) simp
qed

lemma nonblock_loop_run:
  assumes "w_fds s 1 \<noteq> None" "w_fds s 2 \<noteq> None" "s_wr s 2 = []" "length (s_wr s 1) + 1 < k"
  shows "\<exists>t. nonblock_loop k bs s = Ok () t \<and> nb_same s t \<and> sent t 1 = sent s 1 @ bs"
  using assms
proof (induction k arbitrary: s bs)
  case (Suc k)
  show ?case
  proof (cases "bs = []")
    case True
    then show ?thesis by (intro exI[of _ s]) (simp add: nb_same_def)
  next
    case False
    obtain t n where t: "nonblock_loop (Suc k) bs s = nonblock_loop k (drop n bs) t" "nb_same s t" "sent t 1 = sent s 1 @ take n bs"
        "s_wr t 1 = tl (s_wr s 1)" "s_wr s 1 = [] \<longrightarrow> n = length bs"
      using nonblock_write[OF Suc.prems(1-3) False] by blast
    show ?thesis
    proof (cases "s_wr s 1")
      case Nil
      then have "n = length bs" using t(5) by simp
      moreover obtain j where "k = Suc j" using Suc.prems(4) by (cases k) auto
      ultimately show ?thesis using t by (intro exI[of _ t]) simp
    next
      case (Cons m ms)
      then have "\<exists>u. nonblock_loop k (drop n bs) t = Ok () u \<and> nb_same t u \<and> sent u 1 = sent t 1 @ drop n bs"
        using t(2,4) Suc.prems by (intro Suc.IH) (simp_all add: nb_same_def)
      then obtain u where "nonblock_loop k (drop n bs) t = Ok () u" "nb_same t u" "sent u 1 = sent t 1 @ drop n bs" by blast
      then show ?thesis using t(1,3) nb_same_trans[OF t(2)] by (intro exI[of _ u]) simp
    qed
  qed
qed simp

text \<open>
  \<^verbatim>\<open>nonblock-write\<close> ends and has written all that it read, in order, however often the system refuses to take
  anything and however little it takes at a time; the flags of its standard output are what they were, except that
  \<open>O_NONBLOCK\<close> is off even if it was on before.
\<close>

theorem nonblock_writes_all:
  assumes "w_fds s 0 \<noteq> None" and "w_fds s 1 = Some f" and "w_fds s 2 \<noteq> None" and "s_wr s 2 = []"
    and "s_in s 0 = p # ps" and "length (p_bytes p) \<le> BUFSIZE_NB"
  shows "\<exists>t. nonblock_main s = Halt (Exit 0 []) t \<and> sent t 1 = sent s 1 @ p_bytes p \<and>
    w_fds t = (w_fds s)(1 \<mapsto> f\<lparr>o_oflag := (o_oflag f OR O_NONBLOCK) AND NOT O_NONBLOCK\<rparr>)"
proof -
  let ?m = "''read '' @ fmt_d (int (length (p_bytes p))) @ '' bytes'' @ [NL]"
  define s1 where "s1 = sock_put 2 (Pkt ?m None) (s\<lparr>s_in := (s_in s)(0 := ps)\<rparr>)"
  have rd: "sock_read 0 BUFSIZE_NB s = Ok (Some (p_bytes p)) (s\<lparr>s_in := (s_in s)(0 := ps)\<rparr>)"
    using assms(1,5,6) by (auto simp: sock_read_def)
  have sy: "say ?m (s\<lparr>s_in := (s_in s)(0 := ps)\<rparr>) = Ok () s1" unfolding s1_def using assms(3,4) by (intro say_run) simp_all
  define s2 where "s2 = s1\<lparr>w_fds := (w_fds s)(1 \<mapsto> f\<lparr>o_oflag := o_oflag f OR O_NONBLOCK\<rparr>)\<rparr>"
  have fl: "set_fl 1 O_NONBLOCK s1 = Ok () s2" using assms(2) by (simp add: set_fl_def s2_def s1_def sock_put_def)
  have "w_fds s2 1 \<noteq> None" "w_fds s2 2 \<noteq> None" "s_wr s2 2 = []" using assms(3,4) by (simp_all add: s2_def s1_def sock_put_def)
  from nonblock_loop_run[OF this, of "length (s_wr s2 1) + 2" "p_bytes p"] obtain t where
    t: "nonblock_loop (length (s_wr s2 1) + 2) (p_bytes p) s2 = Ok () t" "nb_same s2 t" "sent t 1 = sent s2 1 @ p_bytes p" by auto
  have se: "sent s2 1 = sent s 1" by (simp add: s2_def s1_def sock_put_def)
  have ft: "w_fds t = (w_fds s)(1 \<mapsto> f\<lparr>o_oflag := o_oflag f OR O_NONBLOCK\<rparr>)" using t(2) by (simp add: nb_same_def s2_def)
  have cl: "clr_fl 1 O_NONBLOCK t = Ok () (t\<lparr>w_fds := (w_fds s)(1 \<mapsto> f\<lparr>o_oflag := (o_oflag f OR O_NONBLOCK) AND NOT O_NONBLOCK\<rparr>)\<rparr>)"
    using ft by (simp add: clr_fl_def)
  have "nonblock_main s = Halt (Exit 0 []) (t\<lparr>w_fds := (w_fds s)(1 \<mapsto> f\<lparr>o_oflag := (o_oflag f OR O_NONBLOCK) AND NOT O_NONBLOCK\<rparr>)\<rparr>)"
    using rd sy fl t(1) cl by (simp add: nonblock_main_def bnd_apply del: nonblock_loop.simps append.simps)
  then show ?thesis using t(3) se by (intro exI) (auto simp: fun_eq_iff)
qed

theorem nonblock_writes_all_witness:
  "\<exists>t. nonblock_main (proc0\<lparr>s_in := (\<lambda>_. [])(0 := [Pkt ''hello'' None]), s_wr := (\<lambda>_. [])(1 := [0, 2, 0])\<rparr>) = Halt (Exit 0 []) t \<and>
     sent t 1 = ''hello''"
  using nonblock_writes_all[of "proc0\<lparr>s_in := (\<lambda>_. [])(0 := [Pkt ''hello'' None]), s_wr := (\<lambda>_. [])(1 := [0, 2, 0])\<rparr>"
      "a_file ''/dev/tty1''" "Pkt ''hello'' None" "[]"]
  by (auto simp: proc0_def BUFSIZE_NB_def)

subsection \<open>To a pager\<close>

definition DEF_PAGER :: string where "DEF_PAGER = ''/usr/bin/less''"

text \<open>The name after the last slash, if there is one.\<close>

definition pager_argv0 :: "string \<Rightarrow> string" where
  "pager_argv0 pager = (if CHR ''/'' \<in> set pager then rev (takeWhile (\<lambda>c. c \<noteq> CHR ''/'') (rev pager)) else pager)"

text \<open>\<open>env\<close> is the value of \<^verbatim>\<open>PAGER\<close> in the environment.\<close>

definition the_pager :: "string option \<Rightarrow> string" where
  "the_pager env = (case env of None \<Rightarrow> DEF_PAGER | Some p \<Rightarrow> p)"

definition pager_child :: "string option \<Rightarrow> int \<times> int \<Rightarrow> (image, 'a proc_scheme) prog" where
  "pager_child env fd =
     bnd (sys_close (snd fd)) (\<lambda>_.
     bnd (move_fd (fst fd) 0 True ''dup2 error to stdin '') (\<lambda>_.
     let pager = the_pager env in
     exec_or pager [pager_argv0 pager] (err_sys (''execl error for '' @ pager))))"

text \<open>\<open>fgets\<close> ends a line at its newline, but \<open>strlen\<close> ends it at a null byte.\<close>

fun write_lines :: "int \<Rightarrow> string list \<Rightarrow> (unit, 'a sock_scheme) prog" where
  "write_lines fd [] = ret ()"
| "write_lines fd (l # ls) =
     bnd (sock_write fd (cstr l)) (\<lambda>n.
     if n \<noteq> int (length (cstr l)) then err_sys ''write error to pipe'' else write_lines fd ls)"

definition pager_parent :: "int \<Rightarrow> int \<Rightarrow> int \<times> int \<Rightarrow> (unit, proc) prog" where
  "pager_parent fp pid fd =
     bnd (sys_close (fst fd)) (\<lambda>_.
     bnd (gets (\<lambda>s. file_lines (fd_bytes s fp))) (\<lambda>ls.
     bnd (write_lines (snd fd) ls) (\<lambda>_.
     bnd (sys_close (snd fd)) (\<lambda>_.
     bnd (waitpid pid) (\<lambda>r.
     if r = None then err_sys ''waitpid error'' else stop_with (Exit 0 []))))))"

definition pager_main :: "string option \<Rightarrow> string list \<Rightarrow> (unit, proc) prog" where
  "pager_main env argv =
     (if length argv \<noteq> 2 then err_quit ''usage: a.out <pathname>''
      else bnd (sys_open (argv ! 1) O_RDONLY) (\<lambda>fp.
      if fp < 0 then err_sys (''can't open '' @ argv ! 1)
      else bnd sys_pipe (\<lambda>p. case p of
        None \<Rightarrow> err_sys ''pipe error''
      | Some fd \<Rightarrow>
          bnd (fork (pager_child env fd)) (\<lambda>pid.
          if pid < 0 then err_sys ''fork error'' else pager_parent fp pid fd))))"

lemma write_lines_run:
  assumes "w_fds s fd \<noteq> None" "s_wr s fd = []" "\<forall>l\<in>set ls. NUL \<notin> set l"
  shows "\<exists>q. write_lines fd ls s = Ok () (s\<lparr>s_out := (s_out s)(fd := s_out s fd @ q)\<rparr>) \<and> concat (map p_bytes q) = concat ls"
  using assms
proof (induction ls arbitrary: s)
  case Nil
  then show ?case by (intro exI[of _ "[]"]) (simp add: fun_upd_idem)
next
  case (Cons l ls)
  have c: "cstr l = l" using Cons.prems(3) by (intro cstr_id) (simp add: is_cstr_def)
  define p where "p = (if l = [] then [] else [Pkt l None])"
  let ?t = "s\<lparr>s_out := (s_out s)(fd := s_out s fd @ p)\<rparr>"
  have w: "sock_write fd l s = Ok (int (length l)) ?t"
    using Cons.prems(1,2) by (auto simp: sock_write_def sock_put_def p_def fun_upd_idem)
  obtain q where q: "write_lines fd ls ?t = Ok () (?t\<lparr>s_out := (s_out ?t)(fd := s_out ?t fd @ q)\<rparr>)" "concat (map p_bytes q) = concat ls"
  proof -
    have "w_fds ?t fd \<noteq> None" "s_wr ?t fd = []" "\<forall>l\<in>set ls. NUL \<notin> set l" using Cons.prems by simp_all
    from Cons.IH[OF this] that show thesis by blast
  qed
  have "concat (map p_bytes (p @ q)) = concat (l # ls)" using q(2) by (simp add: p_def)
  moreover have e: "?t\<lparr>s_out := (s_out ?t)(fd := s_out ?t fd @ q)\<rparr> = s\<lparr>s_out := (s_out s)(fd := s_out s fd @ (p @ q))\<rparr>" by simp
  have "write_lines fd (l # ls) s = Ok () (s\<lparr>s_out := (s_out s)(fd := s_out s fd @ (p @ q))\<rparr>)"
    using w q(1) c unfolding e by simp
  ultimately show ?case by blast
qed

lemma pager_child_run:
  assumes "p_progs s (resolve (p_cwd s) (the_pager env))" "w_fds s a = Some f" "w_fds s b \<noteq> None" "distinct [0, a, b]"
  shows "\<exists>u. pager_child env (a, b) s = Ok (Exec (resolve (p_cwd s) (the_pager env)) [pager_argv0 (the_pager env)]) u \<and>
    w_fds u = (w_fds s)(0 \<mapsto> f, a := None, b := None)"
  using assms by (auto simp: pager_child_def move_fd_def sys_close_def dup2_def exec_or_def execl_def Let_def fun_eq_iff)

lemma pager_parent_run:
  assumes "w_fds s r \<noteq> None" "w_fds s w \<noteq> None" "r \<noteq> w" "fp \<noteq> r" "s_wr s w = []" "NUL \<notin> set (fd_bytes s fp)"
    and "p_wait s pid = Status n # es"
  shows "\<exists>t. pager_parent fp pid (r, w) s = Halt (Exit 0 []) t \<and> sent t w = sent s w @ fd_bytes s fp \<and>
    w_fds t = (w_fds s)(r := None, w := None) \<and> p_kids t = p_kids s \<and> p_wait t pid = []"
proof -
  obtain f g where f: "w_fds s r = Some f" "w_fds s w = Some g" using assms(1,2) by auto
  define s1 where "s1 = s\<lparr>w_fds := (w_fds s)(r := None), w_locks := (w_locks s)(o_path f := (\<lambda>_. None))\<rparr>"
  have c1: "sys_close r s = Ok 0 s1" using f by (simp add: sys_close_def s1_def)
  have b: "fd_bytes s1 fp = fd_bytes s fp" using assms(4) by (simp add: s1_def fd_bytes_def fd_path_def file_bytes_def)
  have nul: "\<forall>l\<in>set (file_lines (fd_bytes s fp)). NUL \<notin> set l"
    using assms(6) concat_file_lines[of "fd_bytes s fp"] set_concat[of "file_lines (fd_bytes s fp)"] by auto
  have "w_fds s1 w \<noteq> None" "s_wr s1 w = []" using f assms(3,5) by (simp_all add: s1_def)
  from write_lines_run[OF this nul] obtain q where
    q: "write_lines w (file_lines (fd_bytes s fp)) s1 = Ok () (s1\<lparr>s_out := (s_out s1)(w := s_out s1 w @ q)\<rparr>)" (is "_ = Ok _ ?s2")
      "concat (map p_bytes q) = fd_bytes s fp"
    unfolding concat_file_lines by blast
  define s3 where "s3 = ?s2\<lparr>w_fds := (w_fds s1)(w := None), w_locks := (w_locks s1)(o_path g := (\<lambda>_. None))\<rparr>"
  have c2: "sys_close w ?s2 = Ok 0 s3" using f assms(3) by (simp add: sys_close_def s3_def s1_def)
  have "p_wait s3 pid = Status n # es" using assms(7) by (simp add: s3_def s1_def)
  then obtain s4 where w: "waitpid pid s3 = Ok (Some n) s4" "s_out s4 = s_out s3" "w_fds s4 = w_fds s3" "p_kids s4 = p_kids s3" "p_wait s4 pid = []"
    by (simp add: waitpid_def)
  have "pager_parent fp pid (r, w) s = Halt (Exit 0 []) s4"
    using c1 b q(1) c2 w(1) by (simp add: pager_parent_def)
  then show ?thesis using w q(2) by (intro exI[of _ s4]) (simp add: s3_def s1_def)
qed

text \<open>
  C36. \<^verbatim>\<open>file2pager\<close> shows a file of text without null bytes in a pager: the child executes the pager of the environment,
  or the default one, under the last part of its name, with the pipe as its standard input and no descriptor for the end
  that is written, so that it sees the end of the text; the parent has written the whole file to the pipe, closed both
  ends, waited for the child and exited with status 0.
\<close>

theorem pager_shows_file:
  assumes "free_fds s = i # j # k # is" and "w_fds s 0 \<noteq> None" "w_fds s 1 \<noteq> None"
    and "\<not> w_denied s path" and "w_files s path = Some c" and "NUL \<notin> set c" and "s_wr s (int k) = []"
    and "p_pids s = p # ps" "0 < p" and "p_wait s p = Status n # es" and "p_progs s (resolve (p_cwd s) (the_pager env))"
  shows "\<exists>t kd. pager_main env [a, path] s = Halt (Exit 0 []) t \<and> sent t (int k) = sent s (int k) @ c \<and>
    p_kids t = p_kids s @ [kd] \<and> kd_image kd = Exec (resolve (p_cwd s) (the_pager env)) [pager_argv0 (the_pager env)] \<and>
    kd_fds kd = (w_fds s)(int i \<mapsto> \<lparr>o_path = path, o_pos = 0, o_oflag = O_RDONLY\<rparr>, 0 \<mapsto> pipe_rd (p_npipe s)) \<and>
    w_fds t = (w_fds s)(int i \<mapsto> \<lparr>o_path = path, o_pos = 0, o_oflag = O_RDONLY\<rparr>) \<and> p_wait t p = []"
proof -
  let ?f = "\<lparr>o_path = path, o_pos = 0, o_oflag = O_RDONLY\<rparr>"
  have D: "distinct [i, j, k]" using free_fds_distinct[of s] assms(1) by auto
  have N: "j \<noteq> 0" "k \<noteq> 0" "i \<noteq> 0" using std_not_free[OF assms(2,3)] assms(1) by simp_all
  have F: "w_fds s (int i) = None" "w_fds s (int j) = None" "w_fds s (int k) = None" using free_fds_in[of _ s] assms(1) by simp_all
  have wf: "(w_files s)(path \<mapsto> c) = w_files s" using assms(5) by auto
  define s1 where "s1 = s\<lparr>w_fds := (w_fds s)(int i \<mapsto> ?f)\<rparr>"
  have o1: "sys_open path O_RDONLY s = Ok (int i) s1"
    using open_run[OF assms(1,4), of O_RDONLY] assms(5) wf by (simp add: file_bytes_def O_RDONLY_def s1_def)
  have f1: "free_fds s1 = j # k # is" unfolding s1_def by (rule free_fds_taken[OF assms(1)])
  define s2 where "s2 = s1\<lparr>w_fds := (w_fds s1)(int j \<mapsto> pipe_rd (p_npipe s), int k \<mapsto> pipe_wr (p_npipe s)), p_npipe := Suc (p_npipe s)\<rparr>"
  have p1: "sys_pipe s1 = Ok (Some (int j, int k)) s2"
    using sys_pipe_run[OF f1] by (simp add: s2_def) (simp add: s1_def)
  let ?c = "s2\<lparr>p_pend := {}\<rparr>"
  have "w_fds ?c (int j) = Some (pipe_rd (p_npipe s))" "w_fds ?c (int k) \<noteq> None" "distinct [0, int j, int k]"
      "p_progs ?c (resolve (p_cwd ?c) (the_pager env))" using D N assms(11) by (simp_all add: s2_def s1_def)
  from pager_child_run[OF this(4,1,2,3)] obtain u where
    u: "pager_child env (int j, int k) ?c = Ok (Exec (resolve (p_cwd s) (the_pager env)) [pager_argv0 (the_pager env)]) u"
      "w_fds u = (w_fds ?c)(0 \<mapsto> pipe_rd (p_npipe s), int j := None, int k := None)" by (auto simp: s2_def s1_def)
  have uf: "w_fds u = (w_fds s)(int i \<mapsto> ?f, 0 \<mapsto> pipe_rd (p_npipe s))" using u(2) D N F by (auto simp: s2_def s1_def fun_eq_iff)
  have "p_pids s2 = p # ps" "p_kids s2 = p_kids s" using assms(8) by (simp_all add: s2_def s1_def)
  then obtain kd where kd: "fork (pager_child env (int j, int k)) s2 = Ok p (s2\<lparr>p_pids := ps, p_kids := p_kids s @ [kd]\<rparr>)"
      "kd_image kd = Exec (resolve (p_cwd s) (the_pager env)) [pager_argv0 (the_pager env)]" "kd_fds kd = w_fds u"
    using u(1) by (simp add: fork_def Let_def)
  define s3 where "s3 = s2\<lparr>p_pids := ps, p_kids := p_kids s @ [kd]\<rparr>"
  have fb: "fd_bytes s3 (int i) = c" using D assms(5) by (simp add: s3_def s2_def s1_def fd_bytes_def fd_path_def file_bytes_def)
  have "w_fds s3 (int j) \<noteq> None" "w_fds s3 (int k) \<noteq> None" "int j \<noteq> int k" "int i \<noteq> int j" "s_wr s3 (int k) = []"
      "NUL \<notin> set (fd_bytes s3 (int i))" "p_wait s3 p = Status n # es"
    using D assms(6,7,10) fb by (simp_all add: s3_def s2_def s1_def)
  from pager_parent_run[OF this] obtain t where
    t: "pager_parent (int i) p (int j, int k) s3 = Halt (Exit 0 []) t" "sent t (int k) = sent s3 (int k) @ c"
      "w_fds t = (w_fds s3)(int j := None, int k := None)" "p_kids t = p_kids s3" "p_wait t p = []" unfolding fb by blast
  have run: "pager_main env [a, path] s = Halt (Exit 0 []) t"
    using o1 p1 kd(1)[folded s3_def] assms(9) t(1) by (simp add: pager_main_def)
  have "sent s3 (int k) = sent s (int k)" "p_kids s3 = p_kids s @ [kd]" by (simp_all add: s3_def s2_def s1_def)
  moreover have "w_fds t = (w_fds s)(int i \<mapsto> ?f)" using t(3) D F by (auto simp: s3_def s2_def s1_def fun_eq_iff)
  ultimately show ?thesis using run t(2,4,5) kd(2,3) uf by (intro exI[of _ t] exI[of _ kd]) simp
qed

theorem pager_shows_file_witness:
  "\<exists>t kd. pager_main (Some ''/bin/more'') [''a.out'', ''motd''] (proc0\<lparr>w_files := [''motd'' \<mapsto> ''hello''],
       p_wait := (\<lambda>_. [Status 0]), p_progs := (\<lambda>_. True)\<rparr>) = Halt (Exit 0 []) t \<and> sent t 5 = ''hello'' \<and>
     p_kids t = [kd] \<and> kd_image kd = Exec ''/bin/more'' [''more''] \<and> kd_fds kd 0 = Some (pipe_rd 0)"
proof -
  let ?s = "proc0\<lparr>w_files := [''motd'' \<mapsto> ''hello''], p_wait := (\<lambda>_. [Status 0]), p_progs := (\<lambda>_. True)\<rparr>"
  have "\<exists>is. free_fds ?s = 3 # 4 # 5 # is" by (simp add: free_fds_def proc0_def upt_rec[of 0] upt_rec[of "Suc _"] upt_rec[of "numeral _"])
  then obtain "is" where f: "free_fds ?s = 3 # 4 # 5 # is" by blast
  have sel: "w_fds ?s 0 \<noteq> None" "w_fds ?s 1 \<noteq> None" "\<not> w_denied ?s ''motd''" "w_files ?s ''motd'' = Some ''hello''" "s_wr ?s (int 5) = []"
      "p_pids ?s = [50, 51]" "p_wait ?s 50 = [Status 0]" "p_progs ?s (resolve (p_cwd ?s) (the_pager (Some ''/bin/more'')))"
      "p_npipe ?s = 0" "s_out ?s = (\<lambda>_. [])" "p_kids ?s = []" by (simp_all add: proc0_def)
  have pn: "resolve (p_cwd ?s) (the_pager (Some ''/bin/more'')) = ''/bin/more''" "pager_argv0 (the_pager (Some ''/bin/more'')) = ''more''"
    by (simp_all add: resolve_def the_pager_def pager_argv0_def)
  have "\<exists>t kd. pager_main (Some ''/bin/more'') [''a.out'', ''motd''] ?s = Halt (Exit 0 []) t \<and> sent t (int 5) = sent ?s (int 5) @ ''hello'' \<and>
    p_kids t = p_kids ?s @ [kd] \<and> kd_image kd = Exec (resolve (p_cwd ?s) (the_pager (Some ''/bin/more''))) [pager_argv0 (the_pager (Some ''/bin/more''))] \<and>
    kd_fds kd = (w_fds ?s)(int 3 \<mapsto> \<lparr>o_path = ''motd'', o_pos = 0, o_oflag = O_RDONLY\<rparr>, 0 \<mapsto> pipe_rd (p_npipe ?s)) \<and>
    w_fds t = (w_fds ?s)(int 3 \<mapsto> \<lparr>o_path = ''motd'', o_pos = 0, o_oflag = O_RDONLY\<rparr>) \<and> p_wait t 50 = []"
    by (rule pager_shows_file[OF f sel(1-4) _ sel(5,6) _ sel(7,8)]) simp_all
  then obtain t kd where "p_kids t = p_kids ?s @ [kd]" "pager_main (Some ''/bin/more'') [''a.out'', ''motd''] ?s = Halt (Exit 0 []) t" "sent t (int 5) = sent ?s (int 5) @ ''hello''"
      "kd_image kd = Exec (resolve (p_cwd ?s) (the_pager (Some ''/bin/more''))) [pager_argv0 (the_pager (Some ''/bin/more''))]"
      "kd_fds kd = (w_fds ?s)(int 3 \<mapsto> \<lparr>o_path = ''motd'', o_pos = 0, o_oflag = O_RDONLY\<rparr>, 0 \<mapsto> pipe_rd (p_npipe ?s))"
    by (elim exE conjE) (rule that; assumption)
  then show ?thesis unfolding pn sel(9,10,11) by (intro exI[of _ t] exI[of _ kd]) simp
qed

end
