(* ===== verification/Shared.thy ===== *)
theory Shared
  imports Sync
begin

text \<open>
  \<^verbatim>\<open>ipc_anonymous.c\<close> and \<^verbatim>\<open>ipc_dev.c\<close>: parent and child take turns to increment a counter in memory that both
  have mapped. They synchronise by \<open>TELL\<close> and \<open>WAIT\<close>, here by any mechanism of \<open>Sync\<close>.

  Both run at the same time; a step is one access to the memory, one call or one step inside a wait.
\<close>

definition NLOOPS :: nat where "NLOOPS = 1000"

text \<open>\<open>S_Store v\<close> is inside \<open>update\<close>, which has read \<open>v\<close>; \<open>S_Quit v\<close> is the end with the message ``expected ..., got v''.\<close>

datatype spc = S_Loop | S_Load | S_Store int | S_Tell | S_Wait | S_Exit | S_Quit int

record ('m, 'w) shared =
  h_mem :: 'm
  h_area :: int
  h_ppc :: spc
  h_pi :: nat
  h_pw :: 'w
  h_cpc :: spc
  h_ci :: nat
  h_cw :: 'w

definition shared_init :: "('m, 'w) sync \<Rightarrow> 'm \<Rightarrow> ('m, 'w) shared" where
  "shared_init S m = \<lparr>h_mem = m, h_area = 0, h_ppc = S_Loop, h_pi = 0, h_pw = start S, h_cpc = S_Loop, h_ci = 1, h_cw = start S\<rparr>"

text \<open>A step of the parent and of the child; \<open>None\<close> when it waits or has ended. \<open>n\<close> is \<open>NLOOPS\<close>.\<close>

definition parent_step :: "('m, 'w) sync \<Rightarrow> nat \<Rightarrow> ('m, 'w) shared \<Rightarrow> ('m, 'w) shared option" where
  "parent_step S n s = (case h_ppc s of
     S_Loop \<Rightarrow> Some (s\<lparr>h_ppc := (if h_pi s < n then S_Load else S_Exit)\<rparr>)
   | S_Load \<Rightarrow> Some (s\<lparr>h_ppc := S_Store (h_area s)\<rparr>)
   | S_Store v \<Rightarrow> Some (s\<lparr>h_area := v + 1, h_ppc := (if v = int (h_pi s) then S_Tell else S_Quit v)\<rparr>)
   | S_Tell \<Rightarrow> Some (s\<lparr>h_mem := tell_child S (h_mem s), h_ppc := S_Wait, h_pw := start S\<rparr>)
   | S_Wait \<Rightarrow> (case wait_child S (h_mem s) (h_pw s) of
       None \<Rightarrow> None
     | Some (m, w) \<Rightarrow> Some (if past S w then s\<lparr>h_mem := m, h_pw := w, h_ppc := S_Loop, h_pi := h_pi s + 2\<rparr>
                           else s\<lparr>h_mem := m, h_pw := w\<rparr>))
   | S_Exit \<Rightarrow> None | S_Quit v \<Rightarrow> None)"

definition child_step :: "('m, 'w) sync \<Rightarrow> nat \<Rightarrow> ('m, 'w) shared \<Rightarrow> ('m, 'w) shared option" where
  "child_step S n s = (case h_cpc s of
     S_Loop \<Rightarrow> Some (if h_ci s < n + 1 then s\<lparr>h_cpc := S_Wait, h_cw := start S\<rparr> else s\<lparr>h_cpc := S_Exit\<rparr>)
   | S_Wait \<Rightarrow> (case wait_parent S (h_mem s) (h_cw s) of
       None \<Rightarrow> None
     | Some (m, w) \<Rightarrow> Some (s\<lparr>h_mem := m, h_cw := w, h_cpc := (if past S w then S_Load else S_Wait)\<rparr>))
   | S_Load \<Rightarrow> Some (s\<lparr>h_cpc := S_Store (h_area s)\<rparr>)
   | S_Store v \<Rightarrow> Some (s\<lparr>h_area := v + 1, h_cpc := (if v = int (h_ci s) then S_Tell else S_Quit v)\<rparr>)
   | S_Tell \<Rightarrow> Some (s\<lparr>h_mem := tell_parent S (h_mem s), h_cpc := S_Loop, h_ci := h_ci s + 2\<rparr>)
   | S_Exit \<Rightarrow> None | S_Quit v \<Rightarrow> None)"

inductive sstep :: "('m, 'w) sync \<Rightarrow> nat \<Rightarrow> ('m, 'w) shared \<Rightarrow> ('m, 'w) shared \<Rightarrow> bool" for S n where
  parent: "parent_step S n s = Some t \<Longrightarrow> sstep S n s t"
| child: "child_step S n s = Some t \<Longrightarrow> sstep S n s t"

inductive_cases sstepE: "sstep S n s t"

lemma stuck_iff: "(\<nexists>t. sstep S n s t) \<longleftrightarrow> parent_step S n s = None \<and> child_step S n s = None"
  by (cases "parent_step S n s"; cases "child_step S n s") (auto intro: sstep.intros elim: sstepE)

subsection \<open>With pipes\<close>

text \<open>
  Whose turn it is: the parent's, the child's, or that of the one who has been told and has not noticed yet. \<open>k\<close> is
  the round.
\<close>

datatype turn = T_Parent | T_Told_child | T_Child | T_Told_parent

fun parent_at :: "turn \<Rightarrow> nat \<Rightarrow> nat \<Rightarrow> spc \<Rightarrow> int \<Rightarrow> bool" where
  "parent_at T_Parent n k pc a \<longleftrightarrow>
     pc = S_Loop \<and> a = 2 * int k \<or> pc = S_Exit \<and> a = 2 * int k \<and> n \<le> 2 * k \<or>
     2 * k < n \<and> (pc = S_Load \<and> a = 2 * int k \<or> pc = S_Store (2 * int k) \<and> a = 2 * int k \<or> pc = S_Tell \<and> a = 2 * int k + 1)"
| "parent_at _ n k pc a \<longleftrightarrow> pc = S_Wait \<and> 2 * k < n"

fun child_at :: "turn \<Rightarrow> nat \<Rightarrow> nat \<Rightarrow> spc \<Rightarrow> int \<Rightarrow> bool" where
  "child_at T_Child n l pc a \<longleftrightarrow>
     2 * l < n \<and> (pc = S_Load \<and> a = 2 * int l + 1 \<or> pc = S_Store (2 * int l + 1) \<and> a = 2 * int l + 1 \<or> pc = S_Tell \<and> a = 2 * int l + 2)"
| "child_at T_Told_child n l pc a \<longleftrightarrow> (pc = S_Loop \<or> pc = S_Wait) \<and> 2 * l < n \<and> a = 2 * int l + 1"
| "child_at T_Told_parent n l pc a \<longleftrightarrow> (pc = S_Loop \<or> pc = S_Wait \<and> 2 * l < n \<or> pc = S_Exit \<and> n \<le> 2 * l) \<and> a = 2 * int l"
| "child_at T_Parent n l pc a \<longleftrightarrow> (pc = S_Loop \<or> pc = S_Wait \<and> 2 * l < n \<or> pc = S_Exit \<and> n \<le> 2 * l)"

definition pipes_at :: "turn \<Rightarrow> pipes" where
  "pipes_at t = (if t = T_Told_child then ''p'' else [], if t = T_Told_parent then ''c'' else [])"

definition turn_inv :: "nat \<Rightarrow> (pipes, rpc) shared \<Rightarrow> turn \<Rightarrow> nat \<Rightarrow> bool" where
  "turn_inv n s t k \<longleftrightarrow>
     (let l = (if t = T_Told_parent then Suc k else k) in
      2 * k \<le> n + 1 \<and> h_pi s = 2 * k \<and> h_ci s = 2 * l + 1 \<and> h_mem s = pipes_at t \<and>
      parent_at t n k (h_ppc s) (h_area s) \<and> child_at t n l (h_cpc s) (h_area s) \<and>
      (h_ppc s = S_Wait \<longrightarrow> h_pw s = R_Read) \<and> (h_cpc s = S_Wait \<longrightarrow> h_cw s = R_Read))"

lemmas turn_defs = turn_inv_def pipes_at_def Let_def pipe_sync_def pipe_TELL_CHILD_def pipe_TELL_PARENT_def
  pipe_WAIT_PARENT_def pipe_WAIT_CHILD_def

lemma turn_init: "turn_inv n (shared_init pipe_sync ([], [])) T_Parent 0"
  by (simp add: turn_defs shared_init_def)

lemma turn_parent:
  assumes "turn_inv n s t k" and "parent_step pipe_sync n s = Some u"
  shows "\<exists>t k. turn_inv n u t k"
proof (cases t)
  case T_Parent
  have "turn_inv n u (if h_ppc s = S_Tell then T_Told_child else T_Parent) k"
  proof (cases "h_ppc s")
    case S_Loop
    then show ?thesis using assms T_Parent by (cases "h_pi s < n") (auto simp: turn_defs parent_step_def)
  next
    case S_Load
    then show ?thesis using assms T_Parent by (auto simp: turn_defs parent_step_def)
  next
    case (S_Store v)
    then show ?thesis using assms T_Parent by (auto simp: turn_defs parent_step_def)
  next
    case S_Tell
    then show ?thesis using assms T_Parent by (auto simp: turn_defs parent_step_def)
  qed (use assms T_Parent in \<open>auto simp: turn_defs parent_step_def\<close>)
  then show ?thesis by blast
next
  case T_Told_parent
  have "turn_inv n u T_Parent (Suc k)"
    using assms T_Told_parent by (auto simp: turn_defs parent_step_def)
  then show ?thesis by blast
qed (use assms in \<open>auto simp: turn_defs parent_step_def\<close>)

lemma turn_child:
  assumes "turn_inv n s t k" and "child_step pipe_sync n s = Some u"
  shows "\<exists>t k. turn_inv n u t k"
proof (cases t)
  case T_Parent
  have "turn_inv n u T_Parent k"
    using assms T_Parent by (cases "h_cpc s"; cases "h_ci s < n + 1") (auto simp: turn_defs child_step_def)
  then show ?thesis by blast
next
  case T_Told_child
  have "turn_inv n u (if h_cpc s = S_Wait then T_Child else T_Told_child) k"
    using assms T_Told_child by (cases "h_cpc s") (auto simp: turn_defs child_step_def)
  then show ?thesis by blast
next
  case T_Child
  have "turn_inv n u (if h_cpc s = S_Tell then T_Told_parent else T_Child) k"
    using assms T_Child by (cases "h_cpc s") (auto simp: turn_defs child_step_def)
  then show ?thesis by blast
next
  case T_Told_parent
  have "turn_inv n u T_Told_parent k"
    using assms T_Told_parent by (cases "h_cpc s"; cases "h_ci s < n + 1") (auto simp: turn_defs child_step_def)
  then show ?thesis by blast
qed

lemma turn_step: "sstep pipe_sync n s u \<Longrightarrow> \<exists>t k. turn_inv n s t k \<Longrightarrow> \<exists>t k. turn_inv n u t k"
  by (elim sstepE exE) (auto intro: turn_parent turn_child)

lemma turn_steps: "(sstep pipe_sync n ^^ j) (shared_init pipe_sync ([], [])) s \<Longrightarrow> \<exists>t k. turn_inv n s t k"
proof (induction j arbitrary: s)
  case 0
  then show ?case using turn_init by auto
next
  case (Suc j)
  then show ?case using turn_step by (auto simp: OO_def)
qed

text \<open>The steps that are left.\<close>

fun spc_rank :: "spc \<Rightarrow> nat" where
  "spc_rank S_Loop = 5" | "spc_rank S_Load = 4" | "spc_rank (S_Store v) = 3" | "spc_rank S_Tell = 2" | "spc_rank S_Wait = 1"
| "spc_rank S_Exit = 0" | "spc_rank (S_Quit v) = 0"

fun cpc_rank :: "spc \<Rightarrow> nat" where
  "cpc_rank S_Loop = 5" | "cpc_rank S_Wait = 4" | "cpc_rank S_Load = 3" | "cpc_rank (S_Store v) = 2" | "cpc_rank S_Tell = 1"
| "cpc_rank S_Exit = 0" | "cpc_rank (S_Quit v) = 0"

definition s_rank :: "nat \<Rightarrow> (pipes, rpc) shared \<Rightarrow> nat" where
  "s_rank n s = 5 * ((n + 1) div 2 - h_pi s div 2) + spc_rank (h_ppc s) + 5 * ((n + 1) div 2 - h_ci s div 2) + cpc_rank (h_cpc s)"

lemma next_round: "2 * k < (n::nat) \<Longrightarrow> 5 * ((n + 1) div 2 - Suc k) + 5 = 5 * ((n + 1) div 2 - k)"
proof -
  assume "2 * k < n"
  then obtain d where d: "n = 2 * k + Suc d" by (metis less_imp_Suc_add add_Suc_right)
  have "(n + 1) div 2 = k + (d + 2) div 2" unfolding d by simp
  also have "(d + 2) div 2 = Suc (d div 2)" by simp
  finally show ?thesis by simp
qed

lemma s_rank_parent:
  assumes "turn_inv n s t k" and "parent_step pipe_sync n s = Some u"
  shows "s_rank n u < s_rank n s"
proof (cases "h_ppc s = S_Wait")
  case True
  have p: "h_pi s = 2 * k" "h_mem s = pipes_at t" "parent_at t n k S_Wait (h_area s)" "h_pw s = R_Read"
    using assms(1) True by (auto simp: turn_inv_def Let_def)
  have c: "wait_child pipe_sync (h_mem s) (h_pw s) \<noteq> None" using assms(2) True by (auto simp: parent_step_def split: option.splits)
  have t: "t = T_Told_parent" "2 * k < n" "h_pi s = 2 * k" "h_mem s = ([], ''c'')" "h_pw s = R_Read"
    using p c by (cases t; auto simp: pipes_at_def pipe_sync_def pipe_WAIT_CHILD_def)+
  then have "u = s\<lparr>h_mem := ([], []), h_pw := R_Got, h_ppc := S_Loop, h_pi := 2 * k + 2\<rparr>"
    using assms(2) True by (simp add: turn_defs parent_step_def)
  then show ?thesis using next_round[OF t(2)] t(3) True by (simp add: s_rank_def)
next
  case False
  then have "h_pi u = h_pi s \<and> h_ci u = h_ci s \<and> h_cpc u = h_cpc s \<and> spc_rank (h_ppc u) < spc_rank (h_ppc s)"
    using assms(2) by (auto simp: parent_step_def split: spc.splits)
  then show ?thesis by (simp add: s_rank_def)
qed

lemma s_rank_child:
  assumes "turn_inv n s t k" and "child_step pipe_sync n s = Some u"
  shows "s_rank n u < s_rank n s"
proof (cases "h_cpc s = S_Tell")
  case True
  then have t: "2 * k < n" "h_ci s = 2 * k + 1"
    using assms by (cases t; simp add: turn_defs)+
  have "h_ci u = 2 * k + 3" "h_pi u = h_pi s" "h_ppc u = h_ppc s" "h_cpc u = S_Loop"
    using assms(2) True t(2) by (auto simp: child_step_def)
  then show ?thesis using next_round[OF t(1)] t(2) True by (simp add: s_rank_def)
next
  case False
  have "h_cpc s = S_Wait \<Longrightarrow> h_cw s = R_Read \<and> h_mem s \<noteq> ([], []) \<and> t = T_Told_child"
    using assms by (cases t) (auto simp: turn_defs child_step_def)
  then have "h_ci u = h_ci s \<and> h_pi u = h_pi s \<and> h_ppc u = h_ppc s \<and> cpc_rank (h_cpc u) < cpc_rank (h_cpc s)"
    using assms False by (cases "h_cpc s") (auto simp: child_step_def turn_defs)
  then show ?thesis by (simp add: s_rank_def)
qed

lemma s_rank_steps: "(sstep pipe_sync n ^^ j) (shared_init pipe_sync ([], [])) s \<Longrightarrow> j + s_rank n s \<le> 10 * ((n + 1) div 2) + 10"
proof (induction j arbitrary: s)
  case 0
  then show ?case by (auto simp: s_rank_def shared_init_def)
next
  case (Suc j)
  then obtain r where r: "(sstep pipe_sync n ^^ j) (shared_init pipe_sync ([], [])) r" "sstep pipe_sync n r s" by (auto simp: OO_def)
  obtain t k where "turn_inv n r t k" using turn_steps[OF r(1)] by blast
  with r(2) have "s_rank n s < s_rank n r" by (auto elim!: sstepE dest: s_rank_parent s_rank_child)
  then show ?case using Suc.IH[OF r(1)] by simp
qed

lemma turn_no_quit: "turn_inv n s t k \<Longrightarrow> h_ppc s \<noteq> S_Quit v \<and> h_cpc s \<noteq> S_Quit v"
  by (cases t) (auto simp: turn_inv_def Let_def)

lemma turn_stuck:
  assumes "turn_inv n s t k" and "parent_step pipe_sync n s = None" and "child_step pipe_sync n s = None"
  shows "h_ppc s = S_Exit \<and> h_cpc s = S_Exit \<and> h_area s = 2 * int ((n + 1) div 2)"
proof (cases t)
  case T_Parent
  have p: "h_ppc s = S_Exit" "h_area s = 2 * int k" "n \<le> 2 * k" "2 * k \<le> n + 1"
    using assms(1,2) T_Parent by (auto simp: turn_inv_def Let_def parent_step_def)
  have c: "h_cpc s = S_Exit" using assms(1,3) T_Parent p(3) by (auto simp: turn_inv_def Let_def child_step_def)
  have "(n + 1) div 2 = k" using p(3,4) by arith
  then show ?thesis using p(1,2) c by simp
next
  case T_Told_child
  then show ?thesis using assms(1,3) by (auto simp: turn_defs child_step_def)
next
  case T_Child
  then show ?thesis using assms(1,3) by (auto simp: turn_inv_def Let_def child_step_def)
next
  case T_Told_parent
  then show ?thesis using assms(1,2) by (auto simp: turn_defs parent_step_def)
qed

subsection \<open>With signals\<close>

text \<open>
  \<open>WAIT_PARENT\<close> and \<open>WAIT_CHILD\<close> restore the mask, so that from the second wait on the signal is not blocked any more: it can
  arrive between the test of \<open>sigflag\<close> and \<open>sigsuspend\<close>. The order of steps in which that happens; \<open>True\<close> is the parent.
\<close>

fun run_of :: "('m, 'w) sync \<Rightarrow> nat \<Rightarrow> bool list \<Rightarrow> ('m, 'w) shared \<Rightarrow> ('m, 'w) shared option" where
  "run_of S n [] s = Some s"
| "run_of S n (b # bs) s = (case (if b then parent_step S n s else child_step S n s) of None \<Rightarrow> None | Some t \<Rightarrow> run_of S n bs t)"

lemma run_of_steps: "run_of S n bs s = Some t \<Longrightarrow> (sstep S n)\<^sup>*\<^sup>* s t"
proof (induction bs arbitrary: s)
  case (Cons b bs)
  then obtain u where "(if b then parent_step S n s else child_step S n s) = Some u" "run_of S n bs u = Some t"
    by (auto split: option.splits)
  then show ?case using Cons.IH by (auto intro: converse_rtranclp_into_rtranclp sstep.intros split: if_splits)
qed simp

definition lost_signal :: "bool list" where
  "lost_signal = replicate 4 True @ replicate 11 False @ replicate 10 True"

text \<open>Where the two processes are afterwards, and what they can do.\<close>

definition hung :: "(pair, wpc) shared option \<Rightarrow> bool" where
  "hung r = (case r of None \<Rightarrow> False
   | Some s \<Rightarrow> Option.is_none (parent_step signal_sync NLOOPS s) \<and> Option.is_none (child_step signal_sync NLOOPS s) \<and>
       h_ppc s = S_Wait \<and> h_cpc s = S_Wait \<and> h_area s = 3)"

lemma lost_signal_hangs: "hung (run_of signal_sync NLOOPS lost_signal (shared_init signal_sync (signal_start {} {})))"
  by code_simp

theorem shared_counter_signals_hang:
  "\<exists>s. (sstep signal_sync NLOOPS)\<^sup>*\<^sup>* (shared_init signal_sync (signal_start {} {})) s \<and> h_ppc s = S_Wait \<and> h_cpc s = S_Wait \<and>
     h_area s = 3 \<and> (\<nexists>t. sstep signal_sync NLOOPS s t)"
proof -
  obtain s where s: "run_of signal_sync NLOOPS lost_signal (shared_init signal_sync (signal_start {} {})) = Some s"
    using lost_signal_hangs by (auto simp: hung_def split: option.splits)
  then have "hung (Some s)" using lost_signal_hangs by metis
  then show ?thesis using run_of_steps[OF s] stuck_iff[of signal_sync NLOOPS s] by (auto simp: hung_def Option.is_none_def)
qed

subsection \<open>Properties\<close>

text \<open>
  C21. With pipes, the two programs work: whatever the interleaving, no process ever finds another number than the one it
  expects, a run has at most 5010 steps, and it ends with both processes at their \<open>exit\<close> and the counter at 1000.
\<close>

theorem shared_counter_pipes:
  assumes "(sstep pipe_sync NLOOPS ^^ j) (shared_init pipe_sync ([], [])) s"
  shows "(\<forall>v. h_ppc s \<noteq> S_Quit v \<and> h_cpc s \<noteq> S_Quit v) \<and> j \<le> 5010 \<and>
    ((\<exists>t. sstep pipe_sync NLOOPS s t) \<or> h_ppc s = S_Exit \<and> h_cpc s = S_Exit \<and> h_area s = 1000)"
proof -
  obtain t k where I: "turn_inv NLOOPS s t k" using turn_steps[OF assms] by blast
  have "j \<le> 5010" using s_rank_steps[OF assms] by (simp add: NLOOPS_def)
  moreover have "(\<exists>t. sstep pipe_sync NLOOPS s t) \<or> h_ppc s = S_Exit \<and> h_cpc s = S_Exit \<and> h_area s = 1000"
    using stuck_iff[of pipe_sync NLOOPS s] turn_stuck[OF I] by (auto simp: NLOOPS_def)
  ultimately show ?thesis using turn_no_quit[OF I] by blast
qed

definition shared_once :: "(pipes, rpc) shared" where
  "shared_once = (shared_init pipe_sync ([], []))\<lparr>h_ppc := S_Load\<rparr>"

theorem shared_counter_pipes_witness: "\<exists>t. sstep pipe_sync NLOOPS shared_once t"
proof -
  have "sstep pipe_sync NLOOPS (shared_init pipe_sync ([], [])) shared_once"
    by (rule sstep.parent) (simp add: parent_step_def shared_init_def shared_once_def NLOOPS_def)
  then have "(sstep pipe_sync NLOOPS ^^ 1) (shared_init pipe_sync ([], [])) shared_once" by (simp add: eq_OO)
  from shared_counter_pipes[OF this] show ?thesis by (auto simp: shared_once_def)
qed

end
