(* ===== verification/Spec2Isabelle.thy ===== *)
theory Spec2Isabelle
  imports Db_Props Opend_Props Calld_Props Lprps_Props Call_Props Pty_Props Sync Ftw Errlog Sleep Deadlock Sigset Open_Cli Desc_Systems Copiers Shared
begin

text \<open>
  Verification library for the UNIX programs and libraries under \<^verbatim>\<open>src/AP_UNIX\<close>. The
  repository is a collection of programs in C; each part below is one of them, or a library they
  share. The theories name, at their head, the files they model.

  \<^bold>\<open>How programs are modelled\<close> (\<open>Prelude\<close>). A function of the source is a function from a state to a result, of
  type \<open>('a, 's) prog\<close>: \<open>Ok\<close> with a value and the next state, or \<open>Halt\<close> with the reason the process does not go
  on, which is an exit or abort, undefined behaviour of C, an endless loop, or waiting for another process. The
  state is a record; a program extends the record of the libraries it calls with its own variables:
  \<open>world\<close> (files, descriptors, locks, memory), \<open>sock\<close> (what arrives and leaves on descriptors),
  \<open>tty\<close> (terminals), \<open>proc\<close> (signals and children), and the globals of each program. The calculi \<open>runs\<close> (returns and),
  \<open>ens\<close> (if it returns, then), \<open>ends\<close> (does not run forever) and \<open>keeps\<close> (a relation between first and last
  state, on every way out) carry the proofs; the collections \<open>wp\<close>, \<open>wlp\<close> and \<open>frame\<close> compute them statement by
  statement. \<open>CLib\<close> holds C strings and numbers, \<open>Errors\<close> the fatal error routines, \<open>Errlog\<close> the routines that print and go
  on (\<^verbatim>\<open>ourhdr.c\<close>, \<^verbatim>\<open>log-daemon.c\<close>), \<open>Posix\<close> regular files and record locks, \<open>Args\<close> argument vectors and \<open>getopt\<close>, \<open>Slots\<close>
  arrays of client entries, \<open>Lines\<close> a text as \<open>fgets\<close> reads it.

  \<^bold>\<open>The parts.\<close>

  The database library (\<^verbatim>\<open>db.c\<close>): \<open>Db_Model\<close> has every function, \<open>Db_Inv\<close> the invariant of the two files (hash
  chains, free list, records that tile the files), \<open>Db_Steps\<close>, \<open>Db_Access\<close>, \<open>Db_Ops\<close>, \<open>Db_Store\<close>, \<open>Db_Scan\<close> the effect of each
  operation on it, \<open>Db_Correct\<close> the refinement of a finite map (the locale of \<open>Kv_Interface\<close>, interpreted on the library),
  \<open>Db_Locks\<close> the record locks.

  Sockets (\<open>Sock\<close>: \<^verbatim>\<open>io-func.c\<close>, \<^verbatim>\<open>proc_com_43pbds.c\<close>, \<^verbatim>\<open>cs_43pbsd.c\<close>) and their contracts (\<open>Sock_Props\<close>): streams are cut into
  arbitrary pieces by the environment. The open server and its clients (\<open>Opend_Model\<close>, \<open>Opend_Props\<close>) call them; \<open>Open_Cli\<close> has the programs
  around it: the client that starts a server of its own (\<^verbatim>\<open>open.c\<close>), the program that prints files (\<^verbatim>\<open>open-cli.c\<close>) and the \<open>main\<close>
  of the daemon. \<open>Desc_Systems\<close> has the System V and 4.3BSD versions of descriptor passing; what all three versions promise is
  the locale \<open>fd_passing\<close>, interpreted on each.

  Terminals (\<open>Term\<close>: \<^verbatim>\<open>term-func.c\<close>, \<^verbatim>\<open>file-func.c\<close>).

  The dial server of chapter 18: \<open>Calld_Base\<close> (its tables), \<open>Calld_Files\<close> (configuration files), \<open>Calld_Dial\<close> (expect and
  send strings, opening the line), \<open>Calld_Server\<close> (requests, children, the loop). \<open>Calld_Frames\<close> states what each function
  leaves alone as locales over a part of the state; \<open>Calld_Locks\<close> and \<open>Calld_Inv\<close> have the invariant of the lock
  table, \<open>Calld_Term\<close> termination, \<open>Calld_Conf\<close> the files as lists of entries, \<open>Calld_Expect\<close> and \<open>Calld_Request\<close>
  the functional behaviour, \<open>Calld_Props\<close> the properties. Its client is in \<open>Call_Model\<close>, with what the two do together in
  \<open>Call_Props\<close>.

  The printer filter (\<open>Lprps_Model\<close>, \<open>Lprps_Inv\<close>, \<open>Lprps_Props\<close>: \<^verbatim>\<open>lprps.c\<close> and the files it is linked with).

  Processes and signals (\<open>Proc_Model\<close>, \<open>Proc_Props\<close>): \<open>system\<close>, \<open>popen\<close>, \<open>abort\<close>, \<open>signal\<close>; a child of \<open>fork\<close> is a program
  that runs on a copy of the state, and what becomes of it is recorded. Parent and child that synchronise run
  concurrently in \<open>Sync\<close>: a step relation of two processes over an abstract mechanism, whose contract is the locale \<open>handshake\<close>, interpreted
  for signals (\<^verbatim>\<open>signal-sync.c\<close>) and for pipes (\<^verbatim>\<open>pipe-func.c\<close>). \<open>Sleep\<close> has the three versions of \<open>sleep\<close> as sequences of
  calls between which the clock and other signals act, \<open>Sigset\<close> the signal sets as bits of a word and the numbers of the accounting records.

  Programs over these libraries. Record locks: \<open>Lock_Demo\<close> (the lock file of a daemon, locks relative to the end of a file, advisory
  against mandatory locks) and \<open>Deadlock\<close> (two processes that each want the other's lock, as a step relation). \<open>Shared\<close>: parent and
  child that take turns on a counter in shared memory (\<^verbatim>\<open>ipc_anonymous.c\<close>, \<^verbatim>\<open>ipc_dev.c\<close>), which is right with the pipes of \<open>Sync\<close> and can
  hang with its signals, as a wait in a loop can lose the signal. \<open>Coproc\<close>: a filter
  and the driver that talks to it over pipes (\<^verbatim>\<open>add2.c\<close>, \<^verbatim>\<open>exec_add2.c\<close>, \<^verbatim>\<open>spipe_add2.c\<close>): how the child is set up, and driver and filter
  as two processes that interleave, for any filter that meets the locale \<open>filter_contract\<close>. \<open>Copiers\<close>: copying with mapped
  memory, to a descriptor that does not block, and to a pager (\<^verbatim>\<open>mmap-demo.c\<close>, \<^verbatim>\<open>nonblock-write.c\<close>, \<^verbatim>\<open>file2pager.c\<close>).

  Pseudo terminals (\<open>Pty_Model\<close>, \<open>Pty_Props\<close>) and the directory walk (\<open>Ftw\<close>: \<^verbatim>\<open>iterdir.c\<close>).

  \<^bold>\<open>Bounds.\<close> A loop whose end is not evident takes a bound, and running out of it is the result \<open>Diverges\<close>, never a
  value. Each bound is larger than the number of rounds the loop can make: the bytes that wait on a descriptor, the bytes of a
  file, the length of a list of events, the size of the path buffer. Where a property says that a function returns, its proof
  shows that the bound is not reached; where the code does run forever, \<open>Diverges\<close> is what is proved.

  \<^bold>\<open>Not modelled.\<close> Delays (of \<open>sleep\<close> the seconds are modelled, but handlers take no time and the caller has set no alarm of its
  own); the text of the daemons' log messages; floating point; what the kernel does between two calls of a process other than what the records say.
  \<^verbatim>\<open>cs_svr4.c\<close>, which calls a function that does not exist; the programs that show a single system call and print what it returned
  (\<^verbatim>\<open>accessdemo.c\<close>, \<^verbatim>\<open>myls.c\<close> and the like); programs whose point is what C leaves undefined or to chance (\<^verbatim>\<open>jmp_demo.c\<close>,
  \<^verbatim>\<open>vfork-demo.c\<close>, \<^verbatim>\<open>race-fork.c\<close>); the copies of library files in \<^verbatim>\<open>chapter18\<close>; and what CMake generated.
\<close>

end
